(* ===== verification/Prelude.thy ===== *)
theory Prelude
  imports Main "HOL-Library.AList" "HOL-Library.Sublist"
    "HOL-Library.Char_ord" "HOL-Library.List_Lexorder"
begin

text \<open>
  Shared vocabulary of the development: Go strings as character lists, the string helpers of
  the Go standard library that several components use, association lists standing for Go maps
  whose iteration order matters, and the generic lemmas on lists and maps the component proofs
  share.
\<close>

named_theorems string_simps \<open>evaluation rules of the Go string helpers\<close>
named_theorems alist_simps \<open>lookups in association lists that stand for Go maps\<close>

type_synonym go_string = string

section \<open>Splitting and joining strings\<close>

text \<open>\<open>strings.Split\<close> with a one-character separator.\<close>

fun split_on :: "'a \<Rightarrow> 'a list \<Rightarrow> 'a list list" where
  "split_on c [] = [[]]"
| "split_on c (x # xs) =
     (if x = c then [] # split_on c xs
      else (case split_on c xs of [] \<Rightarrow> [[x]] | y # ys \<Rightarrow> (x # y) # ys))"

text \<open>\<open>strings.Join\<close> with a one-character separator.\<close>

fun join_with :: "'a \<Rightarrow> 'a list list \<Rightarrow> 'a list" where
  "join_with c [] = []"
| "join_with c [x] = x"
| "join_with c (x # y # ys) = x @ c # join_with c (y # ys)"

lemma split_on_nonempty [simp]: "split_on c xs \<noteq> []"
  by (induction xs) (auto split: list.splits)

lemma join_with_Cons: "ys \<noteq> [] \<Longrightarrow> join_with c (x # ys) = x @ c # join_with c ys"
  by (cases ys) auto

lemma join_split [simp]: "join_with c (split_on c xs) = xs"
proof (induction xs)
  case Nil
  show ?case by simp
next
  case (Cons x xs)
  show ?case
  proof (cases "split_on c xs")
    case Nil
    then show ?thesis by simp
  next
    case (Cons y ys)
    then show ?thesis
      using Cons.IH by (cases ys) (auto simp: join_with_Cons)
  qed
qed

lemma split_on_no_sep: "c \<notin> set xs \<Longrightarrow> split_on c xs = [xs]"
  by (induction xs) auto

lemma split_on_append_sep: "split_on c (xs @ c # ys) = split_on c xs @ split_on c ys"
proof (induction xs)
  case Nil
  show ?case by simp
next
  case (Cons x xs)
  then show ?case by (cases "split_on c xs") auto
qed

lemma split_on_parts: "p \<in> set (split_on c xs) \<Longrightarrow> c \<notin> set p"
proof (induction xs arbitrary: p)
  case Nil
  then show ?case by simp
next
  case (Cons x xs)
  then show ?case
    by (cases "split_on c xs") (auto split: if_splits)
qed

lemma split_join:
  "xss \<noteq> [] \<Longrightarrow> \<forall>xs \<in> set xss. c \<notin> set xs \<Longrightarrow> split_on c (join_with c xss) = xss"
proof (induction xss)
  case Nil
  then show ?case by simp
next
  case (Cons x xss)
  show ?case
  proof (cases "xss = []")
    case True
    with Cons.prems show ?thesis by (simp add: split_on_no_sep)
  next
    case False
    with Cons show ?thesis by (simp add: join_with_Cons split_on_append_sep split_on_no_sep)
  qed
qed

lemma join_with_append:
  "xss \<noteq> [] \<Longrightarrow> yss \<noteq> [] \<Longrightarrow>
   join_with c (xss @ yss) = join_with c xss @ c # join_with c yss"
proof (induction xss)
  case Nil
  then show ?case by simp
next
  case (Cons x xss)
  then show ?case by (cases "xss = []") (auto simp: join_with_Cons)
qed

section \<open>Sorted duplicate-free string lists\<close>

text \<open>\<open>slices.Sort\<close> followed by \<open>slices.Compact\<close>.\<close>

definition sort_compact :: "'a::linorder list \<Rightarrow> 'a list" where
  "sort_compact xs = remdups_adj (sort xs)"

lemma set_sort_compact [simp]: "set (sort_compact xs) = set xs"
  by (simp add: sort_compact_def)

lemma sorted_sort_compact: "sorted (sort_compact xs)"
  by (simp add: sort_compact_def sorted_remdups_adj)

lemma sorted_distinct_remdups_adj: "sorted xs \<Longrightarrow> distinct (remdups_adj xs)"
proof (induction xs rule: remdups_adj.induct)
  case (3 x y xs)
  show ?case
  proof (cases "x = y")
    case True
    with 3 show ?thesis by simp
  next
    case False
    from 3 have "x \<le> y" "\<forall>z \<in> set (y # xs). y \<le> z" by auto
    with False have "x \<notin> set (y # xs)" by force
    with False 3 show ?thesis by simp
  qed
qed simp_all

lemma distinct_sort_compact: "distinct (sort_compact xs)"
  by (simp add: sort_compact_def sorted_distinct_remdups_adj)

lemma sort_compact_Nil [simp]: "sort_compact [] = []"
  by (simp add: sort_compact_def)

lemma sort_compact_eq_Nil [simp]: "sort_compact xs = [] \<longleftrightarrow> xs = []"
  by (metis set_empty set_sort_compact)

section \<open>Association lists as Go maps\<close>

definition alist_wf :: "('k \<times> 'v) list \<Rightarrow> bool" where
  "alist_wf m \<longleftrightarrow> distinct (map fst m)"

lemma alist_wf_Nil [simp]: "alist_wf []"
  by (simp add: alist_wf_def)

lemma alist_wf_update [intro]: "alist_wf m \<Longrightarrow> alist_wf (AList.update k v m)"
  by (simp add: alist_wf_def distinct_update)

lemma alist_wf_delete [intro]: "alist_wf m \<Longrightarrow> alist_wf (AList.delete k m)"
  by (simp add: alist_wf_def distinct_delete)

lemma map_of_update [alist_simps]:
  "map_of (AList.update k v m) k' = (if k' = k then Some v else map_of m k')"
  by (simp add: update_conv')

lemma map_of_delete_if [alist_simps]:
  "map_of (AList.delete k m) k' = (if k' = k then None else map_of m k')"
  by (simp add: delete_conv')

lemma set_keys_dom [alist_simps]: "k \<in> set (map fst m) \<longleftrightarrow> map_of m k \<noteq> None"
  by (force simp: map_of_eq_None_iff)

text \<open>A property of all entries, by lookup.\<close>

lemma alist_all_iff:
  "alist_wf m \<Longrightarrow> (\<forall>e \<in> set m. P e) \<longleftrightarrow> (\<forall>k v. map_of m k = Some v \<longrightarrow> P (k, v))"
  by (auto simp: alist_wf_def dest: map_of_SomeD)

lemma map_of_filter_wf:
  "alist_wf m \<Longrightarrow>
   map_of (filter P m) k = (case map_of m k of Some v \<Rightarrow> if P (k, v) then Some v else None | None \<Rightarrow> None)"
proof (induction m)
  case (Cons e m)
  have "map_of m (fst e) = None" "map_of (filter P m) (fst e) = None"
    using Cons.prems by (auto simp: alist_wf_def map_of_eq_None_iff)
  with Cons show ?case by (cases e) (auto simp: alist_wf_def split: option.splits)
qed simp

lemma alist_wf_filter: "alist_wf m \<Longrightarrow> alist_wf (filter P m)"
  by (simp add: alist_wf_def distinct_map_filter)

lemma set_alist_update: "set (AList.update k v m) \<subseteq> insert (k, v) (set m)"
  by (induction m) auto

section \<open>Searching lists\<close>

text \<open>A Go loop that returns at the first element for which the body finds something.\<close>

fun find_map :: "('a \<Rightarrow> 'b option) \<Rightarrow> 'a list \<Rightarrow> 'b option" where
  "find_map f [] = None"
| "find_map f (x # xs) = (case f x of Some y \<Rightarrow> Some y | None \<Rightarrow> find_map f xs)"

lemma find_map_None: "find_map f xs = None \<longleftrightarrow> (\<forall>x \<in> set xs. f x = None)"
  by (induction xs) (auto split: option.splits)

lemma find_map_Some: "find_map f xs = Some y \<Longrightarrow> \<exists>x \<in> set xs. f x = Some y"
  by (induction xs) (auto split: option.splits)

lemma find_map_eq_find: "find_map (\<lambda>x. if p x then Some x else None) xs = find p xs"
  by (induction xs) auto

lemma find_None: "find p xs = None \<longleftrightarrow> (\<forall>x \<in> set xs. \<not> p x)"
  by (induction xs) auto

lemma find_SomeD: "find p xs = Some x \<Longrightarrow> x \<in> set xs \<and> p x"
  by (induction xs) (auto split: if_splits)

lemma in_map_filter: "y \<in> set (List.map_filter f xs) \<longleftrightarrow> (\<exists>x \<in> set xs. f x = Some y)"
  by (induction xs) (auto simp: map_filter_simps split: option.splits)

lemma subseq_set: "subseq xs ys \<Longrightarrow> set xs \<subseteq> set ys"
  by (auto elim: list_emb_set)

text \<open>Checks made one after the other: the first error is returned, \<open>None\<close> is success.\<close>

fun first_error :: "'e option list \<Rightarrow> 'e option" where
  "first_error [] = None"
| "first_error (x # xs) = (case x of Some e \<Rightarrow> Some e | None \<Rightarrow> first_error xs)"

lemma first_error_None: "first_error xs = None \<longleftrightarrow> (\<forall>x \<in> set xs. x = None)"
  by (induction xs) (auto split: option.splits)

end
