(* ===== verification/GoPath.thy ===== *)
theory GoPath
  imports Prelude
begin

text \<open>
  The lexical path functions of Go's \<open>path/filepath\<close> on Unix that the program uses:
  \<open>Clean\<close>, \<open>IsAbs\<close> and \<open>Join\<close>. Every path is a string; \<open>path_comps\<close> is the stack of
  components \<open>Clean\<close> keeps, from which the cleaned string is printed.
\<close>

abbreviation slash :: char where "slash \<equiv> CHR ''/''"

definition path_is_abs :: "string \<Rightarrow> bool" where
  "path_is_abs p \<longleftrightarrow> (case p of [] \<Rightarrow> False | c # _ \<Rightarrow> c = slash)"

text \<open>
  One component is consumed: empty and dot components vanish, a dot-dot component removes the
  last kept one; at the front of a rooted path it vanishes, at the front of a relative one it
  is kept.
\<close>

definition clean_step :: "bool \<Rightarrow> string list \<Rightarrow> string \<Rightarrow> string list" where
  "clean_step rooted st c =
     (if c = '''' \<or> c = ''.'' then st
      else if c = ''..'' then
        (case st of [] \<Rightarrow> (if rooted then [] else [''..''])
         | d # r \<Rightarrow> (if d = ''..'' then ''..'' # st else r))
      else c # st)"

definition path_comps :: "string \<Rightarrow> string list" where
  "path_comps p = rev (foldl (clean_step (path_is_abs p)) [] (split_on slash p))"

definition path_print :: "bool \<Rightarrow> string list \<Rightarrow> string" where
  "path_print rooted cs =
     (if rooted then slash # join_with slash cs
      else if cs = [] then ''.'' else join_with slash cs)"

definition path_clean :: "string \<Rightarrow> string" where
  "path_clean p = path_print (path_is_abs p) (path_comps p)"

text \<open>\<open>filepath.Join\<close>: the non-empty elements separated by a slash, cleaned; no element gives
  the empty string.\<close>

definition path_join :: "string list \<Rightarrow> string" where
  "path_join es =
     (let ne = filter (\<lambda>e. e \<noteq> '''') es
      in if ne = [] then '''' else path_clean (join_with slash ne))"

section \<open>What the kept components look like\<close>

text \<open>Names, and in a relative path a front of dot-dot components.\<close>

definition plain_comp :: "string \<Rightarrow> bool" where
  "plain_comp c \<longleftrightarrow> c \<noteq> '''' \<and> c \<noteq> ''.'' \<and> c \<noteq> ''..'' \<and> slash \<notin> set c"

definition stack_ok :: "bool \<Rightarrow> string list \<Rightarrow> bool" where
  "stack_ok rooted st \<longleftrightarrow>
     (\<exists>ns k. st = ns @ replicate k ''..'' \<and> (\<forall>c \<in> set ns. plain_comp c) \<and> (rooted \<longrightarrow> k = 0))"

lemma plain_comp_dots [simp]: "\<not> plain_comp ''..''" "\<not> plain_comp ''.''" "\<not> plain_comp ''''"
  by (simp_all add: plain_comp_def)

lemma stack_ok_Nil [simp]: "stack_ok r []"
  unfolding stack_ok_def by (rule exI [of _ "[]"], rule exI [of _ 0]) simp

lemma stack_ok_step:
  assumes "stack_ok r st" "slash \<notin> set c"
  shows "stack_ok r (clean_step r st c)"
proof -
  from assms(1) obtain ns k where st: "st = ns @ replicate k ''..''"
    and ns: "\<forall>c \<in> set ns. plain_comp c" and k: "r \<longrightarrow> k = 0"
    unfolding stack_ok_def by blast
  consider "c = '''' \<or> c = ''.''" | "c = ''..''" | "plain_comp c"
    using assms(2) by (auto simp: plain_comp_def)
  then show ?thesis
  proof cases
    case 1
    with assms show ?thesis by (simp add: clean_step_def)
  next
    case 3
    then have "clean_step r st c = (c # ns) @ replicate k ''..''"
      by (auto simp: clean_step_def st plain_comp_def)
    with ns k 3 show ?thesis unfolding stack_ok_def
      by (intro exI [of _ "c # ns"] exI [of _ k]) auto
  next
    case 2
    show ?thesis
    proof (cases ns)
      case Nil
      have "clean_step r st c = [] @ replicate (if r then 0 else Suc k) ''..''"
        using 2 Nil st k by (cases k) (auto simp: clean_step_def)
      then show ?thesis unfolding stack_ok_def
        by (intro exI [of _ "[]"] exI [of _ "if r then 0 else Suc k"]) auto
    next
      case (Cons d ns')
      with ns have "plain_comp d" by simp
      then have "d \<noteq> ''..''" by (auto simp: plain_comp_def)
      then have "clean_step r st c = ns' @ replicate k ''..''"
        using 2 Cons st by (simp add: clean_step_def)
      with ns k Cons show ?thesis unfolding stack_ok_def by auto
    qed
  qed
qed

lemma stack_ok_foldl:
  "stack_ok r st \<Longrightarrow> \<forall>c \<in> set cs. slash \<notin> set c \<Longrightarrow> stack_ok r (foldl (clean_step r) st cs)"
  by (induction cs arbitrary: st) (auto simp: stack_ok_step)

lemma path_comps_ok: "stack_ok (path_is_abs p) (rev (path_comps p))"
  unfolding path_comps_def by (simp add: stack_ok_foldl split_on_parts)

lemma stack_ok_comp: "stack_ok r st \<Longrightarrow> c \<in> set st \<Longrightarrow> c \<noteq> '''' \<and> c \<noteq> ''.'' \<and> slash \<notin> set c"
proof -
  assume "stack_ok r st" "c \<in> set st"
  then obtain ns k where "st = ns @ replicate k ''..''" "\<forall>c \<in> set ns. plain_comp c"
    unfolding stack_ok_def by blast
  with \<open>c \<in> set st\<close> have "plain_comp c \<or> c = ''..''" by (auto dest: in_set_replicate [THEN iffD1])
  then show ?thesis unfolding plain_comp_def by (elim disjE) simp_all
qed

lemma path_comps_comp:
  "c \<in> set (path_comps p) \<Longrightarrow> c \<noteq> '''' \<and> c \<noteq> ''.'' \<and> slash \<notin> set c"
  using stack_ok_comp [OF path_comps_ok] by simp

lemma path_comps_abs_plain:
  assumes "path_is_abs p" "c \<in> set (path_comps p)"
  shows "plain_comp c"
proof -
  from path_comps_ok [of p] assms(1) obtain ns where
    "rev (path_comps p) = ns" "\<forall>c \<in> set ns. plain_comp c"
    unfolding stack_ok_def by auto
  with assms(2) show ?thesis by (metis set_rev)
qed

section \<open>Cleaning is idempotent\<close>

lemma clean_step_plain: "plain_comp c \<Longrightarrow> clean_step r st c = c # st"
  unfolding clean_step_def plain_comp_def by (simp only: if_False simp_thms)

lemma foldl_clean_plain:
  "\<forall>c \<in> set ns. plain_comp c \<Longrightarrow> foldl (clean_step r) st ns = rev ns @ st"
  by (induction ns arbitrary: st) (simp_all add: clean_step_plain)

lemma foldl_clean_dots:
  "foldl (clean_step False) (replicate j ''..'') (replicate k ''..'') = replicate (j + k) ''..''"
proof (induction k arbitrary: j)
  case (Suc k)
  have "clean_step False (replicate j ''..'') ''..'' = replicate (Suc j) ''..''"
    by (cases j) (auto simp: clean_step_def)
  with Suc [of "Suc j"] show ?case by simp
qed simp

lemma foldl_clean_stack:
  assumes "stack_ok r (rev cs)"
  shows "foldl (clean_step r) [] cs = rev cs"
proof -
  from assms obtain ns k where st: "rev cs = ns @ replicate k ''..''"
    and ns: "\<forall>c \<in> set ns. plain_comp c" and k: "r \<longrightarrow> k = 0"
    unfolding stack_ok_def by blast
  have "cs = rev (ns @ replicate k ''..'')" by (metis st rev_rev_ident)
  then have cs: "cs = replicate k ''..'' @ rev ns" by simp
  have "foldl (clean_step r) [] (replicate k ''..'') = replicate k ''..''"
    using k foldl_clean_dots [of 0 k] by (cases r) auto
  with ns show ?thesis by (simp add: cs foldl_clean_plain)
qed

lemma path_is_abs_print:
  assumes "\<forall>c \<in> set cs. c \<noteq> '''' \<and> slash \<notin> set c"
  shows "path_is_abs (path_print r cs) = r"
proof (cases cs)
  case Nil
  then show ?thesis by (simp add: path_print_def path_is_abs_def)
next
  case (Cons c cs')
  with assms obtain x c' where "c = x # c'" "x \<noteq> slash" by (cases c) auto
  with Cons show ?thesis
    by (cases cs') (simp_all add: path_print_def path_is_abs_def)
qed

lemma path_comps_print:
  assumes "stack_ok r (rev cs)"
  shows "path_comps (path_print r cs) = cs"
proof -
  have ne: "\<forall>c \<in> set cs. c \<noteq> '''' \<and> slash \<notin> set c"
    using stack_ok_comp [OF assms] by simp
  have abs: "path_is_abs (path_print r cs) = r" by (rule path_is_abs_print [OF ne])
  show ?thesis
  proof (cases "cs = []")
    case True
    then show ?thesis
      by (simp add: path_comps_def abs path_print_def clean_step_def)
  next
    case False
    with ne have "split_on slash (join_with slash cs) = cs" by (simp add: split_join)
    then have "foldl (clean_step r) [] (split_on slash (path_print r cs))
       = foldl (clean_step r) [] cs"
      using False by (simp add: path_print_def clean_step_def)
    then show ?thesis by (simp add: path_comps_def abs foldl_clean_stack [OF assms])
  qed
qed

lemma path_comps_clean [simp]: "path_comps (path_clean p) = path_comps p"
  unfolding path_clean_def by (rule path_comps_print) (rule path_comps_ok)

lemma path_is_abs_clean [simp]: "path_is_abs (path_clean p) = path_is_abs p"
  unfolding path_clean_def using path_comps_comp by (intro path_is_abs_print) blast

lemma path_clean_idem [simp]: "path_clean (path_clean p) = path_clean p"
proof -
  have "path_clean (path_clean p)
    = path_print (path_is_abs (path_clean p)) (path_comps (path_clean p))"
    by (rule path_clean_def)
  then show ?thesis by (simp only: path_is_abs_clean path_comps_clean path_clean_def [symmetric])
qed

lemma path_clean_eq_iff:
  "path_clean a = path_clean b \<longleftrightarrow> path_is_abs a = path_is_abs b \<and> path_comps a = path_comps b"
proof
  assume "path_clean a = path_clean b"
  then have "path_is_abs (path_clean a) = path_is_abs (path_clean b)"
    and "path_comps (path_clean a) = path_comps (path_clean b)" by simp_all
  then show "path_is_abs a = path_is_abs b \<and> path_comps a = path_comps b" by simp
next
  assume "path_is_abs a = path_is_abs b \<and> path_comps a = path_comps b"
  then show "path_clean a = path_clean b" by (simp add: path_clean_def)
qed

lemma path_clean_nonempty [simp]: "path_clean p \<noteq> ''''"
proof (cases "path_comps p")
  case Nil
  then show ?thesis by (simp add: path_clean_def path_print_def)
next
  case (Cons c cs)
  then have "c \<noteq> ''''" using path_comps_comp [of c p] by simp
  with Cons show ?thesis
    by (cases cs) (simp_all add: path_clean_def path_print_def)
qed

section \<open>Ancestors as prefixes of the component list\<close>

lemma join_prefix_sep:
  assumes "as \<noteq> []" "\<forall>a \<in> set as. slash \<notin> set a" "\<forall>b \<in> set bs. slash \<notin> set b"
  shows "prefix (join_with slash as @ [slash]) (join_with slash bs) \<longleftrightarrow> strict_prefix as bs"
proof
  assume "prefix (join_with slash as @ [slash]) (join_with slash bs)"
  then obtain r where r: "join_with slash bs = join_with slash as @ slash # r"
    by (auto simp: prefix_def)
  then have "bs \<noteq> []" by (cases bs) auto
  then have "bs = split_on slash (join_with slash as @ slash # r)"
    using assms(3) by (metis r split_join)
  also have "\<dots> = as @ split_on slash r"
    using assms(1,2) by (simp add: split_on_append_sep split_join)
  finally show "strict_prefix as bs" by (auto simp: strict_prefix_def)
next
  assume "strict_prefix as bs"
  then obtain cs where "bs = as @ cs" "cs \<noteq> []"
    by (metis prefix_def strict_prefix_def append_Nil2)
  with assms(1) show "prefix (join_with slash as @ [slash]) (join_with slash bs)"
    by (simp add: join_with_append)
qed

lemma clean_prefix_iff:
  assumes "path_is_abs a" "path_is_abs b" "path_comps a \<noteq> []"
  shows "prefix (path_clean a @ [slash]) (path_clean b)
    \<longleftrightarrow> strict_prefix (path_comps a) (path_comps b)"
proof -
  have s: "\<forall>c \<in> set (path_comps p). slash \<notin> set c" for p
    using path_comps_comp by blast
  have "prefix (path_clean a @ [slash]) (path_clean b)
    \<longleftrightarrow> prefix (join_with slash (path_comps a) @ [slash]) (join_with slash (path_comps b))"
    using assms by (simp add: path_clean_def path_print_def)
  then show ?thesis using join_prefix_sep [OF assms(3) s s] by simp
qed

section \<open>The directory of a path, and relative paths\<close>

text \<open>\<open>path.Dir\<close>: what stands before the last slash, cleaned.\<close>

definition path_dir :: "string \<Rightarrow> string" where
  "path_dir p = path_clean (rev (dropWhile (\<lambda>c. c \<noteq> slash) (rev p)))"

fun strip_common :: "'a list \<Rightarrow> 'a list \<Rightarrow> 'a list \<times> 'a list" where
  "strip_common (x # xs) (y # ys) = (if x = y then strip_common xs ys else (x # xs, y # ys))"
| "strip_common xs ys = (xs, ys)"

text \<open>\<open>filepath.Rel\<close>: None is its error.\<close>

definition path_rel :: "string \<Rightarrow> string \<Rightarrow> string option" where
  "path_rel base targ =
     (if path_clean base = path_clean targ then Some ''.''
      else if path_is_abs base \<noteq> path_is_abs targ then None
      else (case strip_common (path_comps base) (path_comps targ) of
          (bs, ts) \<Rightarrow> if bs \<noteq> [] \<and> hd bs = ''..'' then None
                     else Some (join_with slash (replicate (length bs) ''..'' @ ts))))"

lemma strip_common_append: "strip_common xs (xs @ ys) = ([], ys)"
  by (induction xs) simp_all

lemma path_is_abs_append: "p \<noteq> [] \<Longrightarrow> path_is_abs (p @ q) = path_is_abs p"
  by (cases p) (simp_all add: path_is_abs_def)

text \<open>One plain component more.\<close>

lemma path_comps_snoc:
  assumes "p \<noteq> []" "plain_comp c"
  shows "path_comps (p @ slash # c) = path_comps p @ [c]"
proof -
  have "slash \<notin> set c" using assms(2) by (simp add: plain_comp_def)
  then show ?thesis
    using assms by (simp add: path_comps_def split_on_append_sep split_on_no_sep path_is_abs_append clean_step_plain)
qed

lemma path_join_snoc:
  assumes "p \<noteq> []" "plain_comp c"
  shows "path_comps (path_join [p, c]) = path_comps p @ [c]" "path_is_abs (path_join [p, c]) = path_is_abs p"
proof -
  have "c \<noteq> []" using assms(2) by (auto simp: plain_comp_def)
  then have j: "path_join [p, c] = path_clean (p @ slash # c)"
    using assms(1) by (simp add: path_join_def)
  show "path_comps (path_join [p, c]) = path_comps p @ [c]"
    unfolding j path_comps_clean by (rule path_comps_snoc [OF assms])
  show "path_is_abs (path_join [p, c]) = path_is_abs p"
    unfolding j path_is_abs_clean using assms(1) by (rule path_is_abs_append)
qed

lemma path_join_nonempty: "p \<noteq> [] \<Longrightarrow> path_join (p # ps) \<noteq> []"
  by (simp add: path_join_def Let_def)

text \<open>The directory of a joined path.\<close>

lemma path_dir_snoc:
  assumes "p \<noteq> []" "path_is_abs p" "plain_comp c"
  shows "path_dir (path_join [p, c]) = path_clean p"
proof -
  let ?q = "path_join [p, c]" and ?cs = "path_comps p"
  have c: "c \<noteq> []" "slash \<notin> set c" using assms(3) by (auto simp: plain_comp_def)
  have q: "?q = path_print True (?cs @ [c])"
    using path_join_snoc [OF assms(1,3)] assms(1,2) c(1)
    by (simp add: path_join_def path_clean_def path_comps_snoc [OF assms(1,3)] path_is_abs_append)
  obtain u where u: "?q = u @ slash # c" "path_comps (u @ [slash]) = ?cs" "path_is_abs (u @ [slash])"
  proof (cases "?cs = []")
    case True
    then have "?q = [] @ slash # c" using q by (simp add: path_print_def)
    moreover have "path_comps ([] @ [slash]) = ?cs" "path_is_abs ([] @ [slash])"
      using True by (simp_all add: path_comps_def clean_step_def path_is_abs_def)
    ultimately show ?thesis using that by blast
  next
    case False
    let ?u = "path_clean p"
    have pr: "path_clean p = slash # join_with slash ?cs" using assms(2) by (simp add: path_clean_def path_print_def)
    then have "?q = ?u @ slash # c" using q False by (simp add: path_print_def join_with_append)
    moreover have "path_comps (?u @ [slash]) = path_comps ?u"
      by (simp add: path_comps_def split_on_append_sep path_is_abs_append clean_step_def)
    moreover have "path_is_abs (?u @ [slash])" by (simp add: pr path_is_abs_def)
    ultimately show ?thesis using that by simp
  qed
  have "dropWhile (\<lambda>x. x \<noteq> slash) (rev c @ slash # rev u) = slash # rev u"
    using c(2) by (subst dropWhile_append2) auto
  then have "path_dir ?q = path_clean (u @ [slash])" by (simp add: path_dir_def u(1))
  then show ?thesis using u(2,3) assms(2) by (simp add: path_clean_eq_iff)
qed

end
