(* ===== verification/DirLock.thy ===== *)
theory DirLock
  imports GoPath "HOL-Library.Multiset"
begin

text \<open>
  The directory lock manager of \<open>backend/lib/dirlock/dirlock.go\<close>: chats hold sets of
  directories, exclusively or shared, conflicting requests queue in FIFO order. The mutex makes
  every method atomic, so a method is a function from the manager's state to a result, the new
  state and the chat ids passed to \<open>onChange\<close>. The blocking part of \<open>Acquire\<close> is split at its
  \<open>select\<close>: queueing, being woken, and being cancelled are separate operations.

  Go iterates over the \<open>holders\<close> map in an unspecified order. Holders are an association list
  and every \<open>range\<close> statement visits its keys in the order an oracle \<open>ord\<close> picks for that
  statement; the theorems hold for every oracle that returns permutations of its input.
\<close>

section \<open>Data\<close>

datatype lock_mode = ModeExclusive | ModeReadOnly | ModeUnset

datatype lock_reason = ReasonRunning | ReasonUncommitted | ReasonUnset

record acquire_request =
  ar_chat :: string
  ar_title :: string
  ar_runner :: string
  ar_dirs :: "string list"
  ar_mode :: lock_mode

record lock_holder =
  lh_chat :: string
  lh_title :: string
  lh_runner :: string
  lh_dirs :: "string list"
  lh_mode :: lock_mode
  lh_reason :: lock_reason
  lh_active :: int

text \<open>A waiter is a heap object with a channel; \<open>w_id\<close> is its identity.\<close>

record waiter =
  w_id :: nat
  w_req :: acquire_request
  w_by_chat :: string
  w_by_title :: string
  w_by_reason :: lock_reason
  w_dir :: string

text \<open>\<open>lm_ready\<close> are the waiters whose \<open>ready\<close> channel is closed.\<close>

record lock_manager =
  lm_holders :: "(string \<times> lock_holder) list"
  lm_waiters :: "waiter list"
  lm_ready :: "nat list"
  lm_next :: nat

definition new_manager :: lock_manager where
  "new_manager = \<lparr>lm_holders = [], lm_waiters = [], lm_ready = [], lm_next = 0\<rparr>"

section \<open>Which directories are locked\<close>

text \<open>The runner layout: \<open>data_dir\<close> is what \<open>DataDir()\<close> finds in the environment.\<close>

definition runner_tmp_dir :: "string \<Rightarrow> string" where
  "runner_tmp_dir data_dir = path_join [data_dir, ''tmp'']"

definition runner_sessions_dir :: "string \<Rightarrow> string" where
  "runner_sessions_dir data_dir = path_join [data_dir, ''sessions'']"

definition session_tmp_dir :: "string \<Rightarrow> string \<Rightarrow> string" where
  "session_tmp_dir data_dir chat = path_join [runner_tmp_dir data_dir, chat]"

definition session_dir :: "string \<Rightarrow> string \<Rightarrow> string" where
  "session_dir data_dir chat = path_join [runner_sessions_dir data_dir, chat]"

definition has_prefix :: "string \<Rightarrow> string \<Rightarrow> bool" where
  "has_prefix s p = prefix p s"

definition is_or_under :: "string \<Rightarrow> string \<Rightarrow> bool" where
  "is_or_under clean d \<longleftrightarrow> clean = d \<or> has_prefix clean (d @ ''/'')"

definition is_exempt_dir :: "string \<Rightarrow> string \<Rightarrow> string \<Rightarrow> bool" where
  "is_exempt_dir data_dir chat dir =
     (if dir = '''' then True
      else let clean = path_clean dir in
        if clean = ''.'' \<or> clean = ''/tmp'' \<or> clean = ''/session'' then True
        else if has_prefix clean ''/tmp/'' \<or> has_prefix clean ''/session/'' then True
        else if is_or_under clean ''/session-data/tmp'' then True
        else if is_or_under clean ''/session-data/sessions'' then True
        else if is_or_under clean ''/asgard/data/tmp'' then True
        else if is_or_under clean ''/asgard/data/sessions'' then True
        else if is_or_under clean (path_clean (runner_tmp_dir data_dir)) then True
        else if is_or_under clean (path_clean (runner_sessions_dir data_dir)) then True
        else if chat \<noteq> '''' \<and> is_or_under clean (path_clean (session_tmp_dir data_dir chat)) then True
        else if chat \<noteq> '''' \<and> is_or_under clean (path_clean (session_dir data_dir chat)) then True
        else False)"

text \<open>
  What \<open>ComputeLockedDirs\<close> reads of an agent configuration: whether it is read-only, and the
  effective read-write mounts, each with its path and whether it carries mask rules.
\<close>

record mount_entry =
  me_path :: string
  me_masked :: bool

record lock_cfg =
  lc_read_only :: bool
  lc_rw_mounts :: "mount_entry list"

definition compute_locked_dirs ::
  "string \<Rightarrow> string \<Rightarrow> string \<Rightarrow> lock_cfg option \<Rightarrow> string list \<times> lock_mode" where
  "compute_locked_dirs data_dir chat run_dir cfg =
     (let mode = (case cfg of Some c \<Rightarrow> if lc_read_only c then ModeReadOnly else ModeExclusive
                  | None \<Rightarrow> ModeExclusive);
          d1 = (if run_dir \<noteq> '''' \<and> \<not> is_exempt_dir data_dir chat run_dir
                then [path_clean run_dir] else []);
          d2 = (case cfg of None \<Rightarrow> []
                | Some c \<Rightarrow> if lc_read_only c then []
                    else map (\<lambda>e. path_clean (me_path e))
                      (filter (\<lambda>e. \<not> me_masked e \<and> me_path e \<noteq> ''''
                                 \<and> \<not> is_exempt_dir data_dir chat (me_path e)) (lc_rw_mounts c)));
          dirs = d1 @ d2
      in if dirs = [] then ([], mode) else (sort_compact dirs, mode))"

definition paths_overlap :: "string \<Rightarrow> string \<Rightarrow> bool" where
  "paths_overlap a b =
     (let ca = path_clean a; cb = path_clean b in
      if ca = cb then True
      else if ca = ''/'' \<or> has_prefix cb (ca @ ''/'') then True
      else if cb = ''/'' \<or> has_prefix ca (cb @ ''/'') then True
      else False)"

section \<open>Conflicts\<close>

type_synonym map_order = "nat \<Rightarrow> string list \<Rightarrow> string list"

definition order_ok :: "map_order \<Rightarrow> bool" where
  "order_ok ord \<longleftrightarrow> (\<forall>i ks. mset (ord i ks) = mset ks)"

text \<open>The values of the holders map in the order the oracle picks for one \<open>range\<close> statement.\<close>

definition range_holders :: "map_order \<Rightarrow> nat \<Rightarrow> (string \<times> lock_holder) list \<Rightarrow> lock_holder list" where
  "range_holders ord i hs = List.map_filter (map_of hs) (ord i (map fst hs))"

definition modes_clash :: "lock_mode \<Rightarrow> lock_mode \<Rightarrow> bool" where
  "modes_clash m1 m2 \<longleftrightarrow> m1 = ModeExclusive \<or> m2 = ModeExclusive"

text \<open>The two nested loops over directories: the first requested one that clashes.\<close>

definition conflict_dir ::
  "string list \<Rightarrow> lock_mode \<Rightarrow> string list \<Rightarrow> lock_mode \<Rightarrow> string option" where
  "conflict_dir ds1 m1 ds2 m2 =
     find (\<lambda>d1. \<exists>d2 \<in> set ds2. paths_overlap d1 d2 \<and> modes_clash m1 m2) ds1"

definition holder_conflict :: "acquire_request \<Rightarrow> lock_holder \<Rightarrow> (lock_holder \<times> string) option" where
  "holder_conflict req h =
     (if lh_chat h = ar_chat req \<or> lh_runner h \<noteq> ar_runner req then None
      else map_option (\<lambda>d. (h, d)) (conflict_dir (ar_dirs req) (ar_mode req) (lh_dirs h) (lh_mode h)))"

text \<open>
  The holder reported when an earlier waiter blocks: the holder that blocks that waiter, else a
  holder that overlaps the directory, else the waiter itself. When the first candidate is the
  requester's own hold, the scan stops after one map entry, as the code's \<open>break\<close> does.
\<close>

definition blocking_of_waiter ::
  "map_order \<Rightarrow> (string \<times> lock_holder) list \<Rightarrow> acquire_request \<Rightarrow> waiter \<Rightarrow> string \<Rightarrow> lock_holder" where
  "blocking_of_waiter ord hs req w d1 =
     (let eligible = (\<lambda>h. lh_chat h \<noteq> ar_chat req \<and> lh_runner h = ar_runner req
                        \<and> (\<exists>hd \<in> set (lh_dirs h). paths_overlap d1 hd));
          b0 = map_of hs (w_by_chat w);
          b1 = (case b0 of
                  None \<Rightarrow> find eligible (range_holders ord 1 hs)
                | Some b \<Rightarrow>
                    if lh_chat b = ar_chat req then
                      (case range_holders ord 1 hs of
                         [] \<Rightarrow> Some b | h # _ \<Rightarrow> if eligible h then Some h else Some b)
                    else Some b)
      in case b1 of
           Some b \<Rightarrow> if lh_chat b = ar_chat req then
                \<lparr>lh_chat = ar_chat (w_req w), lh_title = ar_title (w_req w), lh_runner = '''',
                 lh_dirs = [], lh_mode = ModeUnset, lh_reason = ReasonRunning, lh_active = 0\<rparr>
              else b
         | None \<Rightarrow> \<lparr>lh_chat = ar_chat (w_req w), lh_title = ar_title (w_req w), lh_runner = '''',
                 lh_dirs = [], lh_mode = ModeUnset, lh_reason = ReasonRunning, lh_active = 0\<rparr>)"

definition waiter_conflict ::
  "map_order \<Rightarrow> (string \<times> lock_holder) list \<Rightarrow> acquire_request \<Rightarrow> waiter
   \<Rightarrow> (lock_holder \<times> string) option" where
  "waiter_conflict ord hs req w =
     (if ar_chat (w_req w) = ar_chat req \<or> ar_runner (w_req w) \<noteq> ar_runner req then None
      else map_option (\<lambda>d. (blocking_of_waiter ord hs req w d, d))
        (conflict_dir (ar_dirs req) (ar_mode req) (ar_dirs (w_req w)) (ar_mode (w_req w))))"

definition find_conflict ::
  "map_order \<Rightarrow> lock_manager \<Rightarrow> acquire_request \<Rightarrow> (lock_holder \<times> string) option" where
  "find_conflict ord m req =
     (case find_map (holder_conflict req) (range_holders ord 0 (lm_holders m)) of
        Some c \<Rightarrow> Some c
      | None \<Rightarrow> find_map (waiter_conflict ord (lm_holders m) req) (lm_waiters m))"

section \<open>Granting queued waiters\<close>

definition set_holder :: "string \<Rightarrow> lock_holder \<Rightarrow> lock_manager \<Rightarrow> lock_manager" where
  "set_holder c h m = m\<lparr>lm_holders := AList.update c h (lm_holders m)\<rparr>"

definition drop_holder :: "string \<Rightarrow> lock_manager \<Rightarrow> lock_manager" where
  "drop_holder c m = m\<lparr>lm_holders := AList.delete c (lm_holders m)\<rparr>"

definition fresh_holder :: "acquire_request \<Rightarrow> lock_holder" where
  "fresh_holder req =
     \<lparr>lh_chat = ar_chat req, lh_title = ar_title req, lh_runner = ar_runner req,
      lh_dirs = ar_dirs req, lh_mode = ar_mode req, lh_reason = ReasonRunning, lh_active = 1\<rparr>"

text \<open>Directories not yet in the list are appended one by one.\<close>

fun add_missing :: "string list \<Rightarrow> string list \<Rightarrow> string list" where
  "add_missing ds [] = ds"
| "add_missing ds (x # xs) = add_missing (if x \<in> set ds then ds else ds @ [x]) xs"

definition merge_waiter :: "acquire_request \<Rightarrow> lock_holder \<Rightarrow> lock_holder" where
  "merge_waiter req h =
     h\<lparr>lh_dirs := sort (add_missing (lh_dirs h) (ar_dirs req)),
       lh_mode := (if ar_mode req = ModeExclusive then ModeExclusive else lh_mode h),
       lh_active := lh_active h + 1,
       lh_reason := ReasonRunning,
       lh_title := (if ar_title req \<noteq> '''' then ar_title req else lh_title h)\<rparr>"

definition grant_waiter :: "waiter \<Rightarrow> lock_manager \<Rightarrow> lock_manager" where
  "grant_waiter w m =
     (let req = w_req w;
          h = (case map_of (lm_holders m) (ar_chat req) of
                 Some e \<Rightarrow> merge_waiter req e | None \<Rightarrow> fresh_holder req)
      in (set_holder (ar_chat req) h m)\<lparr>lm_ready := w_id w # lm_ready m\<rparr>)"

definition blocked_by_earlier :: "waiter \<Rightarrow> waiter \<Rightarrow> bool" where
  "blocked_by_earlier w ew \<longleftrightarrow>
     ar_runner (w_req ew) = ar_runner (w_req w)
     \<and> conflict_dir (ar_dirs (w_req w)) (ar_mode (w_req w))
         (ar_dirs (w_req ew)) (ar_mode (w_req ew)) \<noteq> None"

definition note_blocker :: "lock_holder \<Rightarrow> string \<Rightarrow> waiter \<Rightarrow> waiter" where
  "note_blocker h d w =
     w\<lparr>w_by_chat := lh_chat h, w_by_title := lh_title h, w_by_reason := lh_reason h, w_dir := d\<rparr>"

text \<open>
  The scan of \<open>processWaitersLocked\<close>: \<open>kept\<close> are the waiters already passed (indices below
  \<open>i\<close>), the third argument the ones from \<open>i\<close> on.
\<close>

fun process_loop ::
  "map_order \<Rightarrow> waiter list \<Rightarrow> waiter list \<Rightarrow> lock_manager
   \<Rightarrow> waiter list \<times> lock_manager \<times> string list" where
  "process_loop ord kept [] m = (kept, m, [])"
| "process_loop ord kept (w # ws) m =
     (case find_map (holder_conflict (w_req w))
             (range_holders ord (2 * w_id w + 2) (lm_holders m)) of
        Some (h, d) \<Rightarrow> process_loop ord (kept @ [note_blocker h d w]) ws m
      | None \<Rightarrow>
          if list_ex (blocked_by_earlier w) kept then process_loop ord (kept @ [w]) ws m
          else (case process_loop ord kept ws (grant_waiter w m) of
                  (ks, m', ns) \<Rightarrow> (ks, m', ar_chat (w_req w) # ns)))"

text \<open>The second pass refreshes the displayed blocker of the waiters that stay; it looks at
  overlap only, not at the modes.\<close>

definition refresh_blocker :: "map_order \<Rightarrow> (string \<times> lock_holder) list \<Rightarrow> waiter \<Rightarrow> waiter" where
  "refresh_blocker ord hs w =
     (let req = w_req w;
          hit = (\<lambda>h. if lh_chat h = ar_chat req \<or> lh_runner h \<noteq> ar_runner req then None
                     else map_option (\<lambda>d. (h, d))
                       (find (\<lambda>d1. \<exists>d2 \<in> set (lh_dirs h). paths_overlap d1 d2) (ar_dirs req)))
      in case find_map hit (range_holders ord (2 * w_id w + 3) hs) of
           Some (h, d) \<Rightarrow> note_blocker h d w | None \<Rightarrow> w)"

definition process_waiters :: "map_order \<Rightarrow> lock_manager \<Rightarrow> lock_manager \<times> string list" where
  "process_waiters ord m =
     (case process_loop ord [] (lm_waiters m) m of
        (kept, m1, granted) \<Rightarrow>
          let ws = map (refresh_blocker ord (lm_holders m1)) kept
          in (m1\<lparr>lm_waiters := ws\<rparr>, granted @ map (\<lambda>w. ar_chat (w_req w)) ws))"

section \<open>Acquiring\<close>

text \<open>\<open>notify\<close> calls \<open>onChange\<close> once per distinct non-empty id, in order.\<close>

fun notify_from :: "string list \<Rightarrow> string list \<Rightarrow> string list" where
  "notify_from seen [] = []"
| "notify_from seen (x # xs) =
     (if x = '''' then notify_from seen xs
      else if x \<in> set seen then notify_from seen xs
      else x # notify_from (x # seen) xs)"

definition notify :: "string list \<Rightarrow> string list" where
  "notify ids = notify_from [] ids"

text \<open>A release closure: the chat it was made for and whether its \<open>sync.Once\<close> has fired.\<close>

record release_fn =
  rf_chat :: string
  rf_done :: bool

definition make_release :: "string \<Rightarrow> release_fn" where
  "make_release c = \<lparr>rf_chat = c, rf_done = False\<rparr>"

datatype acquire_result =
    AcqNothing
  | AcqGranted release_fn
  | AcqQueued nat
  | AcqRefused string string

definition normalize_request :: "acquire_request \<Rightarrow> acquire_request" where
  "normalize_request req =
     req\<lparr>ar_dirs := sort_compact (map path_clean (filter (\<lambda>d. d \<noteq> '''') (ar_dirs req))),
         ar_mode := (if ar_mode req = ModeUnset then ModeExclusive else ar_mode req)\<rparr>"

definition dir_covered :: "string list \<Rightarrow> string \<Rightarrow> bool" where
  "dir_covered held rd \<longleftrightarrow>
     (\<exists>hd \<in> set held. path_clean hd = path_clean rd \<or> path_clean hd = ''/''
        \<or> has_prefix (path_clean rd) (path_clean hd @ ''/''))"

definition enter_again :: "acquire_request \<Rightarrow> lock_holder \<Rightarrow> lock_holder" where
  "enter_again req h =
     h\<lparr>lh_active := lh_active h + 1, lh_reason := ReasonRunning,
       lh_title := (if ar_title req \<noteq> '''' then ar_title req else lh_title h)\<rparr>"

definition acquire_held ::
  "map_order \<Rightarrow> lock_manager \<Rightarrow> acquire_request \<Rightarrow> lock_holder
   \<Rightarrow> acquire_result \<times> lock_manager \<times> string list" where
  "acquire_held ord m req h =
     (let upgrade = (lh_mode h = ModeReadOnly \<and> ar_mode req = ModeExclusive);
          target = (if upgrade then ModeExclusive else lh_mode h);
          merged = sort_compact (add_missing (lh_dirs h) (ar_dirs req));
          needs = (upgrade \<or> (\<exists>rd \<in> set (ar_dirs req). \<not> dir_covered (lh_dirs h) rd))
      in if needs then
           (case find_conflict ord m \<lparr>ar_chat = ar_chat req, ar_title = '''',
                    ar_runner = ar_runner req, ar_dirs = merged, ar_mode = target\<rparr> of
              Some (b, d) \<Rightarrow> (AcqRefused d (lh_chat b), m, [])
            | None \<Rightarrow> (AcqGranted (make_release (ar_chat req)),
                set_holder (ar_chat req) (enter_again req (h\<lparr>lh_dirs := merged, lh_mode := target\<rparr>)) m,
                notify [ar_chat req]))
         else (AcqGranted (make_release (ar_chat req)),
               set_holder (ar_chat req) (enter_again req h) m, notify [ar_chat req]))"

definition queue_waiter :: "acquire_request \<Rightarrow> lock_holder \<Rightarrow> string \<Rightarrow> nat \<Rightarrow> waiter" where
  "queue_waiter req b d i =
     \<lparr>w_id = i, w_req = req, w_by_chat = lh_chat b, w_by_title = lh_title b,
      w_by_reason = (if lh_reason b \<noteq> ReasonUnset then lh_reason b else ReasonRunning),
      w_dir = (if d = '''' \<and> ar_dirs req \<noteq> [] then hd (ar_dirs req) else d)\<rparr>"

definition acquire ::
  "map_order \<Rightarrow> lock_manager \<Rightarrow> acquire_request \<Rightarrow> acquire_result \<times> lock_manager \<times> string list" where
  "acquire ord m req0 =
     (let req = normalize_request req0 in
      if ar_dirs req = [] then (AcqNothing, m, [])
      else (case map_of (lm_holders m) (ar_chat req) of
        Some h \<Rightarrow> acquire_held ord m req h
      | None \<Rightarrow>
          (case find_conflict ord m req of
             None \<Rightarrow> (AcqGranted (make_release (ar_chat req)),
                      set_holder (ar_chat req) (fresh_holder req) m, notify [ar_chat req])
           | Some (b, d) \<Rightarrow>
               (AcqQueued (lm_next m),
                m\<lparr>lm_waiters := lm_waiters m @ [queue_waiter req b d (lm_next m)],
                  lm_next := Suc (lm_next m)\<rparr>,
                notify [ar_chat req]))))"

section \<open>Releasing, cancelling, unlocking\<close>

definition mark_uncommitted :: "string \<Rightarrow> waiter \<Rightarrow> waiter" where
  "mark_uncommitted c w = (if w_by_chat w = c then w\<lparr>w_by_reason := ReasonUncommitted\<rparr> else w)"

definition release_chat ::
  "map_order \<Rightarrow> lock_manager \<Rightarrow> string \<Rightarrow> bool \<Rightarrow> lock_manager \<times> string list" where
  "release_chat ord m c keep =
     (case map_of (lm_holders m) c of
        None \<Rightarrow> (m, [])
      | Some h \<Rightarrow>
          let h1 = h\<lparr>lh_active := lh_active h - 1\<rparr> in
          if lh_active h1 > 0 then (set_holder c h1 m, [])
          else if lh_mode h1 = ModeExclusive \<and> keep then
            ((set_holder c (h1\<lparr>lh_reason := ReasonUncommitted\<rparr>) m)
               \<lparr>lm_waiters := map (mark_uncommitted c) (lm_waiters m)\<rparr>,
             notify (c # map (\<lambda>w. ar_chat (w_req w)) (filter (\<lambda>w. w_by_chat w = c) (lm_waiters m))))
          else (case process_waiters ord (drop_holder c m) of
                  (m', woken) \<Rightarrow> (m', notify (c # woken))))"

text \<open>Calling a release closure: only the first call does anything.\<close>

definition call_release ::
  "map_order \<Rightarrow> lock_manager \<Rightarrow> release_fn \<Rightarrow> bool \<Rightarrow> release_fn \<times> lock_manager \<times> string list" where
  "call_release ord m rf keep =
     (if rf_done rf then (rf, m, [])
      else (case release_chat ord m (rf_chat rf) keep of
              (m', ns) \<Rightarrow> (rf\<lparr>rf_done := True\<rparr>, m', ns)))"

text \<open>The two arms of the \<open>select\<close> of a queued \<open>Acquire\<close>.\<close>

definition acquire_woken :: "lock_manager \<Rightarrow> string \<Rightarrow> release_fn option" where
  "acquire_woken m c =
     (case map_of (lm_holders m) c of None \<Rightarrow> None | Some _ \<Rightarrow> Some (make_release c))"

definition acquire_cancelled ::
  "map_order \<Rightarrow> lock_manager \<Rightarrow> nat \<Rightarrow> string \<Rightarrow> lock_manager \<times> string list" where
  "acquire_cancelled ord m wid c =
     (if wid \<in> set (lm_ready m) then release_chat ord m c False
      else (case process_waiters ord (m\<lparr>lm_waiters := filter (\<lambda>w. w_id w \<noteq> wid) (lm_waiters m)\<rparr>) of
              (m', woken) \<Rightarrow> (m', notify (woken @ [c]))))"

datatype unlock_result = UnlockDone bool | UnlockActiveRun

definition unlock_idle ::
  "map_order \<Rightarrow> lock_manager \<Rightarrow> string \<Rightarrow> unlock_result \<times> lock_manager \<times> string list" where
  "unlock_idle ord m c =
     (case map_of (lm_holders m) c of
        None \<Rightarrow> (UnlockDone False, m, [])
      | Some h \<Rightarrow>
          if lh_active h > 0 then (UnlockActiveRun, m, [])
          else (case process_waiters ord (drop_holder c m) of
                  (m', woken) \<Rightarrow> (UnlockDone True, m', notify (c # woken))))"

definition force_release_chat ::
  "map_order \<Rightarrow> lock_manager \<Rightarrow> string \<Rightarrow> lock_manager \<times> string list" where
  "force_release_chat ord m c =
     (let held = map_of (lm_holders m) c \<noteq> None;
          mine = filter (\<lambda>w. ar_chat (w_req w) = c) (lm_waiters m);
          m1 = (drop_holder c m)
                 \<lparr>lm_waiters := filter (\<lambda>w. ar_chat (w_req w) \<noteq> c) (lm_waiters m),
                  lm_ready := rev (map w_id mine) @ lm_ready m\<rparr>
      in case process_waiters ord m1 of
           (m', woken) \<Rightarrow> (m', notify ((if held then [c] else []) @ map (\<lambda>_. c) mine @ woken)))"

definition retitle_waiter :: "string \<Rightarrow> string \<Rightarrow> waiter \<Rightarrow> waiter" where
  "retitle_waiter c t w =
     (let w1 = (if ar_chat (w_req w) = c then w\<lparr>w_req := (w_req w)\<lparr>ar_title := t\<rparr>\<rparr> else w)
      in if w_by_chat w1 = c then w1\<lparr>w_by_title := t\<rparr> else w1)"

definition update_chat_title :: "lock_manager \<Rightarrow> string \<Rightarrow> string \<Rightarrow> lock_manager \<times> string list" where
  "update_chat_title m c t =
     (if t = '''' then (m, [])
      else
        let m1 = (case map_of (lm_holders m) c of
                    Some h \<Rightarrow> set_holder c (h\<lparr>lh_title := t\<rparr>) m | None \<Rightarrow> m);
            n0 = (case map_of (lm_holders m) c of Some h \<Rightarrow> [c] | None \<Rightarrow> [])
        in (m1\<lparr>lm_waiters := map (retitle_waiter c t) (lm_waiters m)\<rparr>,
            notify (n0 @ concat (map (\<lambda>w. (if ar_chat (w_req w) = c then [c] else [])
                       @ (if w_by_chat w = c then [ar_chat (w_req w)] else [])) (lm_waiters m)))))"

section \<open>Snapshots\<close>

datatype lock_status =
    StatusLocked lock_mode lock_reason string bool
  | StatusWaiting string string string lock_reason

definition status_for_chat :: "lock_manager \<Rightarrow> string \<Rightarrow> lock_status option" where
  "status_for_chat m c =
     (if c = '''' then None
      else (case map_of (lm_holders m) c of
        Some h \<Rightarrow> Some (StatusLocked (lh_mode h) (lh_reason h)
                    (case lh_dirs h of [] \<Rightarrow> '''' | d # _ \<Rightarrow> d) (lh_active h = 0))
      | None \<Rightarrow>
          (case find (\<lambda>w. ar_chat (w_req w) = c) (lm_waiters m) of
             Some w \<Rightarrow> Some (StatusWaiting
                (if w_dir w = '''' \<and> ar_dirs (w_req w) \<noteq> [] then hd (ar_dirs (w_req w)) else w_dir w)
                (w_by_chat w) (w_by_title w) (w_by_reason w))
           | None \<Rightarrow> None)))"

definition locked_dirs_for_chat :: "lock_manager \<Rightarrow> string \<Rightarrow> string list option" where
  "locked_dirs_for_chat m c =
     (if c = '''' then None else map_option lh_dirs (map_of (lm_holders m) c))"

end
