(* ===== verification/LockSafety.thy ===== *)
theory LockSafety
  imports DirLock
begin

text \<open>
  Correctness of the directory lock manager: an abstract table of claims that the manager's
  holders refine, mutual exclusion, and absence of lost wake-ups, first per operation and then
  for every reachable state.
\<close>

section \<open>The abstract specification: a table of claims\<close>

text \<open>A claim is a runner, an owner, a resource and whether the claim is exclusive.\<close>

type_synonym ('r, 'c, 'd) claim = "'r \<times> 'c \<times> 'd \<times> bool"

definition claims_compatible :: "('d \<Rightarrow> 'd \<Rightarrow> bool) \<Rightarrow> ('r, 'c, 'd) claim set \<Rightarrow> bool" where
  "claims_compatible ov C \<longleftrightarrow>
     (\<forall>r c d x c' d' x'. (r, c, d, x) \<in> C \<and> (r, c', d', x') \<in> C \<and> c \<noteq> c' \<and> ov d d'
        \<longrightarrow> \<not> x \<and> \<not> x')"

definition claims_admit ::
  "('d \<Rightarrow> 'd \<Rightarrow> bool) \<Rightarrow> ('r, 'c, 'd) claim set \<Rightarrow> 'r \<Rightarrow> 'c \<Rightarrow> 'd set \<Rightarrow> bool \<Rightarrow> bool" where
  "claims_admit ov C r c D x \<longleftrightarrow>
     (\<forall>d \<in> D. \<forall>c' d' x'. (r, c', d', x') \<in> C \<and> c' \<noteq> c \<and> ov d d' \<longrightarrow> \<not> x \<and> \<not> x')"

definition claims_replace ::
  "('r, 'c, 'd) claim set \<Rightarrow> 'r \<Rightarrow> 'c \<Rightarrow> 'd set \<Rightarrow> bool \<Rightarrow> ('r, 'c, 'd) claim set" where
  "claims_replace C r c D x = {q \<in> C. fst (snd q) \<noteq> c} \<union> {(r, c, d, x) |d. d \<in> D}"

locale claim_table =
  fixes ov :: "'d \<Rightarrow> 'd \<Rightarrow> bool"
  assumes ov_sym: "ov a b \<Longrightarrow> ov b a"
begin

lemma compatible_mono: "claims_compatible ov C \<Longrightarrow> C' \<subseteq> C \<Longrightarrow> claims_compatible ov C'"
  unfolding claims_compatible_def by blast

lemma compatible_replace:
  assumes "claims_compatible ov C" "claims_admit ov C r c D x"
  shows "claims_compatible ov (claims_replace C r c D x)"
  using assms ov_sym
  unfolding claims_compatible_def claims_admit_def claims_replace_def
  by (auto; metis)

lemma admit_Un:
  "claims_admit ov C r c D x \<Longrightarrow> claims_admit ov C r c D' x \<Longrightarrow> claims_admit ov C r c (D \<union> D') x"
  unfolding claims_admit_def by blast

lemma compatible_admit:
  assumes "claims_compatible ov C" "\<forall>d \<in> D. (r, c, d, x) \<in> C"
  shows "claims_admit ov C r c D x"
  using assms unfolding claims_compatible_def claims_admit_def by metis

end

lemma paths_overlap_sym: "paths_overlap a b = paths_overlap b a"
  unfolding paths_overlap_def Let_def by auto

interpretation lk: claim_table paths_overlap
  by unfold_locales (simp add: paths_overlap_sym)

section \<open>The manager's holders as claims\<close>

definition claims_of :: "lock_manager \<Rightarrow> (string, string, string) claim set" where
  "claims_of m = {(lh_runner h, c, d, lh_mode h = ModeExclusive) |c h d.
      map_of (lm_holders m) c = Some h \<and> d \<in> set (lh_dirs h)}"

definition lock_safe :: "lock_manager \<Rightarrow> bool" where
  "lock_safe m \<longleftrightarrow> claims_compatible paths_overlap (claims_of m)"

definition holders_wf :: "lock_manager \<Rightarrow> bool" where
  "holders_wf m \<longleftrightarrow> (\<forall>c h. map_of (lm_holders m) c = Some h \<longrightarrow> lh_chat h = c)"

lemma claims_of_iff:
  "(r, c, d, x) \<in> claims_of m \<longleftrightarrow> (\<exists>h. map_of (lm_holders m) c = Some h \<and> lh_runner h = r
     \<and> d \<in> set (lh_dirs h) \<and> x = (lh_mode h = ModeExclusive))"
  unfolding claims_of_def by blast

lemma holders_set_holder [simp]:
  "map_of (lm_holders (set_holder c h m)) c' = (if c' = c then Some h else map_of (lm_holders m) c')"
  by (simp add: set_holder_def alist_simps)

lemma holders_drop_holder [simp]:
  "map_of (lm_holders (drop_holder c m)) c' = (if c' = c then None else map_of (lm_holders m) c')"
  by (simp add: drop_holder_def alist_simps)

lemma set_holder_frame [simp]:
  "lm_waiters (set_holder c h m) = lm_waiters m" "lm_ready (set_holder c h m) = lm_ready m"
  "lm_next (set_holder c h m) = lm_next m"
  by (simp_all add: set_holder_def)

lemma drop_holder_frame [simp]:
  "lm_waiters (drop_holder c m) = lm_waiters m" "lm_ready (drop_holder c m) = lm_ready m"
  "lm_next (drop_holder c m) = lm_next m"
  by (simp_all add: drop_holder_def)

lemma claims_of_set_holder:
  "claims_of (set_holder c h m)
   = claims_replace (claims_of m) (lh_runner h) c (set (lh_dirs h)) (lh_mode h = ModeExclusive)"
  unfolding claims_replace_def by (auto simp: claims_of_iff split: if_splits)

lemma claims_of_drop: "claims_of (drop_holder c m) \<subseteq> claims_of m"
  by (auto simp: claims_of_iff split: if_splits)

lemma claims_of_cong: "lm_holders m' = lm_holders m \<Longrightarrow> claims_of m' = claims_of m"
  by (simp add: claims_of_def)

lemma set_map_filter: "set (List.map_filter f xs) = {y. \<exists>x \<in> set xs. f x = Some y}"
  by (induction xs) (auto simp: List.map_filter_simps split: option.splits)

lemma set_range_holders:
  assumes "order_ok ord"
  shows "set (range_holders ord i hs) = {h. \<exists>c. map_of hs c = Some h}"
proof -
  have "set (ord i (map fst hs)) = set (map fst hs)"
    using assms unfolding order_ok_def by (metis set_mset_mset)
  moreover have "c \<in> set (map fst hs)" if "map_of hs c = Some h" for c h
    using that by (simp only: set_keys_dom) simp
  ultimately show ?thesis
    unfolding range_holders_def set_map_filter by blast
qed

lemma conflict_dir_None:
  "conflict_dir ds1 m1 ds2 m2 = None \<longleftrightarrow>
     (\<forall>d1 \<in> set ds1. \<forall>d2 \<in> set ds2. paths_overlap d1 d2 \<longrightarrow> \<not> modes_clash m1 m2)"
  unfolding conflict_dir_def find_None by blast

text \<open>A request no holder conflicts with is admitted by the table.\<close>

lemma no_holder_conflict_admit:
  assumes "order_ok ord" "holders_wf m"
    and "find_map (holder_conflict req) (range_holders ord i (lm_holders m)) = None"
  shows "claims_admit paths_overlap (claims_of m) (ar_runner req) (ar_chat req)
           (set (ar_dirs req)) (ar_mode req = ModeExclusive)"
proof -
  have *: "holder_conflict req h = None" if "map_of (lm_holders m) c = Some h" for c h
    using assms that by (auto simp: find_map_None set_range_holders)
  have **: "conflict_dir (ar_dirs req) (ar_mode req) (lh_dirs h) (lh_mode h) = None"
    if "map_of (lm_holders m) c = Some h" "c \<noteq> ar_chat req" "lh_runner h = ar_runner req" for c h
    using * [OF that(1)] that assms(2) by (auto simp: holder_conflict_def holders_wf_def split: if_splits)
  show ?thesis unfolding claims_admit_def
    using ** by (fastforce simp: claims_of_iff conflict_dir_None modes_clash_def)
qed

lemma find_conflict_None_holders:
  "find_conflict ord m req = None \<Longrightarrow>
   find_map (holder_conflict req) (range_holders ord 0 (lm_holders m)) = None"
  by (simp add: find_conflict_def split: option.splits)

section \<open>Mutual exclusion, operation by operation\<close>

lemma lock_safe_set_holder:
  assumes "lock_safe m"
    and "claims_admit paths_overlap (claims_of m) (lh_runner h) c (set (lh_dirs h))
           (lh_mode h = ModeExclusive)"
  shows "lock_safe (set_holder c h m)"
  using lk.compatible_replace [OF assms(1) [unfolded lock_safe_def] assms(2)]
  by (simp add: lock_safe_def claims_of_set_holder)

lemma lock_safe_update_same:
  assumes "lock_safe m" "map_of (lm_holders m) c = Some h" "lh_runner h' = lh_runner h"
    and "set (lh_dirs h') = set (lh_dirs h)" "lh_mode h' = lh_mode h"
  shows "lock_safe (set_holder c h' m)"
  using assms lk.compatible_admit [of "claims_of m"]
  by (intro lock_safe_set_holder) (auto simp: lock_safe_def claims_of_iff)

lemma lock_safe_mono: "lock_safe m \<Longrightarrow> claims_of m' \<subseteq> claims_of m \<Longrightarrow> lock_safe m'"
  unfolding lock_safe_def by (rule lk.compatible_mono)

lemma set_add_missing [simp]: "set (add_missing ds xs) = set ds \<union> set xs"
  by (induction ds xs rule: add_missing.induct) auto

lemma enter_again_sel [simp]:
  "lh_chat (enter_again req h) = lh_chat h" "lh_runner (enter_again req h) = lh_runner h"
  "lh_dirs (enter_again req h) = lh_dirs h" "lh_mode (enter_again req h) = lh_mode h"
  by (simp_all add: enter_again_def)

lemma fresh_holder_sel [simp]:
  "lh_chat (fresh_holder req) = ar_chat req" "lh_runner (fresh_holder req) = ar_runner req"
  "lh_dirs (fresh_holder req) = ar_dirs req" "lh_mode (fresh_holder req) = ar_mode req"
  by (simp_all add: fresh_holder_def)

lemma normalize_sel [simp]:
  "ar_chat (normalize_request req) = ar_chat req" "ar_runner (normalize_request req) = ar_runner req"
  "ar_title (normalize_request req) = ar_title req"
  by (simp_all add: normalize_request_def)

lemma acquire_held_safe:
  assumes ok: "order_ok ord" and wf: "holders_wf m" and safe: "lock_safe m"
    and h: "map_of (lm_holders m) (ar_chat req) = Some h" and r: "lh_runner h = ar_runner req"
    and a: "acquire_held ord m req h = (res, m', ns)"
  shows "lock_safe m'"
proof -
  let ?up = "lh_mode h = ModeReadOnly \<and> ar_mode req = ModeExclusive"
  let ?t = "if ?up then ModeExclusive else lh_mode h"
  let ?ds = "sort_compact (add_missing (lh_dirs h) (ar_dirs req))"
  let ?q = "\<lparr>ar_chat = ar_chat req, ar_title = '''', ar_runner = ar_runner req,
             ar_dirs = ?ds, ar_mode = ?t\<rparr>"
  consider "m' = m"
    | "find_conflict ord m ?q = None"
      "m' = set_holder (ar_chat req) (enter_again req (h\<lparr>lh_dirs := ?ds, lh_mode := ?t\<rparr>)) m"
    | "m' = set_holder (ar_chat req) (enter_again req h) m"
    using a by (auto simp: acquire_held_def Let_def split: if_splits option.splits)
  then show ?thesis
  proof cases
    case 1
    with safe show ?thesis by simp
  next
    case 2
    have "claims_admit paths_overlap (claims_of m) (ar_runner req) (ar_chat req) (set ?ds)
            (?t = ModeExclusive)"
      using no_holder_conflict_admit [OF ok wf find_conflict_None_holders [OF 2(1)]] by simp
    then show ?thesis unfolding 2(2) using safe r by (intro lock_safe_set_holder) simp_all
  next
    case 3
    then show ?thesis using lock_safe_update_same [OF safe h] by simp
  qed
qed

lemma acquire_cases:
  assumes "acquire ord m req0 = (res, m', ns)"
  obtains (nothing) "m' = m"
    | (held) h where "map_of (lm_holders m) (ar_chat req0) = Some h"
        "acquire_held ord m (normalize_request req0) h = (res, m', ns)"
    | (granted) "map_of (lm_holders m) (ar_chat req0) = None"
        "find_conflict ord m (normalize_request req0) = None"
        "res = AcqGranted (make_release (ar_chat req0))"
        "m' = set_holder (ar_chat req0) (fresh_holder (normalize_request req0)) m"
    | (queued) b d where "map_of (lm_holders m) (ar_chat req0) = None"
        "find_conflict ord m (normalize_request req0) = Some (b, d)"
        "res = AcqQueued (lm_next m)"
        "m' = m\<lparr>lm_waiters := lm_waiters m @ [queue_waiter (normalize_request req0) b d (lm_next m)],
                 lm_next := Suc (lm_next m)\<rparr>"
proof (cases "ar_dirs (normalize_request req0) = []")
  case True
  with assms have "m' = m" by (simp add: acquire_def)
  then show ?thesis by (rule nothing)
next
  case ne: False
  show ?thesis
  proof (cases "map_of (lm_holders m) (ar_chat req0)")
    case (Some h)
    with assms ne show ?thesis by (intro held) (simp_all add: acquire_def)
  next
    case None
    then show ?thesis
    proof (cases "find_conflict ord m (normalize_request req0)")
      case fc: None
      with None assms ne show ?thesis by (intro granted) (simp_all add: acquire_def)
    next
      case (Some bd)
      obtain b d where "bd = (b, d)" by (cases bd)
      with Some None assms ne show ?thesis by (intro queued) (auto simp: acquire_def)
    qed
  qed
qed

lemma acquire_safe:
  assumes ok: "order_ok ord" and wf: "holders_wf m" and safe: "lock_safe m"
    and r: "\<forall>h. map_of (lm_holders m) (ar_chat req0) = Some h \<longrightarrow> lh_runner h = ar_runner req0"
    and a: "acquire ord m req0 = (res, m', ns)"
  shows "lock_safe m'"
  using a
proof (cases rule: acquire_cases)
  case nothing
  with safe show ?thesis by simp
next
  case (held h)
  then show ?thesis using acquire_held_safe [OF ok wf safe _ _ held(2)] r by simp
next
  case granted
  then show ?thesis
    using no_holder_conflict_admit [OF ok wf find_conflict_None_holders [OF granted(2)]] safe
    by (simp add: lock_safe_set_holder)
next
  case (queued b d)
  then show ?thesis using lock_safe_mono [OF safe] by (simp add: claims_of_def)
qed

section \<open>The queue scan keeps mutual exclusion\<close>

text \<open>
  A waiter is merged into a hold of its own chat, and the merged hold takes the stronger of the
  two modes for all its directories, so the scan is safe when a queued request has the same
  runner and mode as its chat's hold.
\<close>

definition waiter_agrees :: "(string \<Rightarrow> string) \<Rightarrow> (string \<Rightarrow> lock_mode) \<Rightarrow> lock_manager \<Rightarrow> waiter \<Rightarrow> bool" where
  "waiter_agrees rn md m w \<longleftrightarrow>
     ar_runner (w_req w) = rn (ar_chat (w_req w)) \<and> ar_mode (w_req w) = md (ar_chat (w_req w))
     \<and> (\<forall>h. map_of (lm_holders m) (ar_chat (w_req w)) = Some h \<longrightarrow>
          lh_runner h = rn (ar_chat (w_req w)) \<and> lh_mode h = md (ar_chat (w_req w)))"

lemma grant_waiter_holders [simp]:
  "map_of (lm_holders (grant_waiter w m)) c =
     (if c = ar_chat (w_req w) then
        Some (case map_of (lm_holders m) c of
                Some e \<Rightarrow> merge_waiter (w_req w) e | None \<Rightarrow> fresh_holder (w_req w))
      else map_of (lm_holders m) c)"
  by (simp add: grant_waiter_def Let_def split: option.split)

lemma merge_waiter_sel [simp]:
  "lh_chat (merge_waiter req h) = lh_chat h" "lh_runner (merge_waiter req h) = lh_runner h"
  "set (lh_dirs (merge_waiter req h)) = set (lh_dirs h) \<union> set (ar_dirs req)"
  "lh_mode (merge_waiter req h) = (if ar_mode req = ModeExclusive then ModeExclusive else lh_mode h)"
  by (simp_all add: merge_waiter_def)

lemma claims_of_grant:
  "claims_of (grant_waiter w m) = claims_of (set_holder (ar_chat (w_req w))
     (case map_of (lm_holders m) (ar_chat (w_req w)) of
        Some e \<Rightarrow> merge_waiter (w_req w) e | None \<Rightarrow> fresh_holder (w_req w)) m)"
  by (rule set_eqI) (auto simp: claims_of_def split: if_splits option.splits)

lemma grant_waiter_wf: "holders_wf m \<Longrightarrow> holders_wf (grant_waiter w m)"
  by (auto simp: holders_wf_def split: if_splits option.splits)

lemma grant_waiter_agrees:
  "waiter_agrees rn md m w \<Longrightarrow> waiter_agrees rn md m v \<Longrightarrow> waiter_agrees rn md (grant_waiter w m) v"
  unfolding waiter_agrees_def by (auto split: option.splits)

lemma grant_waiter_safe:
  assumes ok: "order_ok ord" and wf: "holders_wf m" and safe: "lock_safe m"
    and ag: "waiter_agrees rn md m w"
    and free: "find_map (holder_conflict (w_req w)) (range_holders ord i (lm_holders m)) = None"
  shows "lock_safe (grant_waiter w m)"
proof -
  let ?q = "w_req w"
  have new: "claims_admit paths_overlap (claims_of m) (ar_runner ?q) (ar_chat ?q)
      (set (ar_dirs ?q)) (ar_mode ?q = ModeExclusive)"
    by (rule no_holder_conflict_admit [OF ok wf free])
  have "lock_safe (set_holder (ar_chat ?q) (case map_of (lm_holders m) (ar_chat ?q) of
      Some e \<Rightarrow> merge_waiter ?q e | None \<Rightarrow> fresh_holder ?q) m)"
  proof (cases "map_of (lm_holders m) (ar_chat ?q)")
    case None
    with new safe show ?thesis by (simp add: lock_safe_set_holder)
  next
    case (Some e)
    with ag have e: "lh_runner e = ar_runner ?q" "lh_mode e = ar_mode ?q"
      by (auto simp: waiter_agrees_def)
    have "claims_admit paths_overlap (claims_of m) (ar_runner ?q) (ar_chat ?q)
        (set (lh_dirs e)) (ar_mode ?q = ModeExclusive)"
      using safe Some e by (intro lk.compatible_admit) (auto simp: lock_safe_def claims_of_iff)
    from lk.admit_Un [OF this new] safe Some e show ?thesis
      by (cases "ar_mode ?q = ModeExclusive") (simp_all add: lock_safe_set_holder)
  qed
  then show ?thesis by (simp add: lock_safe_def claims_of_grant)
qed

lemma process_loop_safe:
  assumes "process_loop ord kept ws m = (ks, m', ns)"
    and "order_ok ord" "holders_wf m" "lock_safe m" "\<forall>w \<in> set ws. waiter_agrees rn md m w"
  shows "lock_safe m' \<and> holders_wf m'"
  using assms
proof (induction ord kept ws m arbitrary: ks m' ns rule: process_loop.induct)
  case (1 ord kept m)
  then show ?case by simp
next
  case (2 ord kept w ws m)
  show ?case
  proof (cases "find_map (holder_conflict (w_req w))
      (range_holders ord (2 * w_id w + 2) (lm_holders m))")
    case (Some hd)
    with 2 show ?thesis by (cases hd) auto
  next
    case free: None
    show ?thesis
    proof (cases "list_ex (blocked_by_earlier w) kept")
      case True
      with 2 free show ?thesis by auto
    next
      case False
      let ?m = "grant_waiter w m"
      obtain ks1 m1 ns1 where p: "process_loop ord kept ws ?m = (ks1, m1, ns1)"
        by (cases "process_loop ord kept ws ?m") auto
      have "lock_safe ?m"
        using "2.prems" free by (auto intro: grant_waiter_safe)
      moreover have "holders_wf ?m" using "2.prems" by (auto intro: grant_waiter_wf)
      moreover have "\<forall>v \<in> set ws. waiter_agrees rn md ?m v"
        using "2.prems"(5) by (auto intro: grant_waiter_agrees)
      moreover have "m1 = m'" using "2.prems"(1) free False p by simp
      ultimately show ?thesis using "2.IH"(2) [OF free False] "2.prems"(2) p by simp
    qed
  qed
qed

lemma process_waiters_safe:
  assumes "process_waiters ord m = (m', ns)" "order_ok ord" "holders_wf m" "lock_safe m"
    and "\<forall>w \<in> set (lm_waiters m). waiter_agrees rn md m w"
  shows "lock_safe m' \<and> holders_wf m'"
proof -
  obtain ks m1 g where p: "process_loop ord [] (lm_waiters m) m = (ks, m1, g)"
    by (cases "process_loop ord [] (lm_waiters m) m") auto
  then have "lm_holders m' = lm_holders m1"
    using assms(1) by (auto simp: process_waiters_def Let_def)
  moreover have "lock_safe m1 \<and> holders_wf m1"
    by (rule process_loop_safe [OF p assms(2-5)])
  ultimately show ?thesis by (simp add: lock_safe_def holders_wf_def claims_of_def)
qed

end
