(* ===== verification/LockProgress.thy ===== *)
theory LockProgress
  imports LockSafety
begin

text \<open>
  Absence of lost wake-ups and of overtaking in the directory lock manager, and the invariants
  of every state reachable by its operations.
\<close>

section \<open>Why a waiter waits\<close>

definition req_clash :: "acquire_request \<Rightarrow> acquire_request \<Rightarrow> bool" where
  "req_clash q e \<longleftrightarrow> ar_runner e = ar_runner q
     \<and> conflict_dir (ar_dirs q) (ar_mode q) (ar_dirs e) (ar_mode e) \<noteq> None"

definition held_back :: "lock_manager \<Rightarrow> acquire_request \<Rightarrow> bool" where
  "held_back m q \<longleftrightarrow> (\<exists>c h. map_of (lm_holders m) c = Some h \<and> c \<noteq> ar_chat q
     \<and> lh_runner h = ar_runner q
     \<and> conflict_dir (ar_dirs q) (ar_mode q) (lh_dirs h) (lh_mode h) \<noteq> None)"

text \<open>Every request of the queue clashes with a hold of another chat or with an earlier request.\<close>

fun chain_blocked :: "lock_manager \<Rightarrow> acquire_request set \<Rightarrow> acquire_request list \<Rightarrow> bool" where
  "chain_blocked m seen [] \<longleftrightarrow> True"
| "chain_blocked m seen (q # qs) \<longleftrightarrow>
     (held_back m q \<or> (\<exists>e \<in> seen. req_clash q e)) \<and> chain_blocked m (insert q seen) qs"

definition no_lost_wakeup :: "lock_manager \<Rightarrow> bool" where
  "no_lost_wakeup m \<longleftrightarrow> chain_blocked m {} (map w_req (lm_waiters m))"

lemma chain_blocked_snoc:
  "chain_blocked m seen (qs @ [q]) \<longleftrightarrow>
     chain_blocked m seen qs \<and> (held_back m q \<or> (\<exists>e \<in> seen \<union> set qs. req_clash q e))"
  by (induction qs arbitrary: seen) auto

text \<open>Holds that only grow keep everything blocked that was blocked.\<close>

definition holders_grow :: "lock_manager \<Rightarrow> lock_manager \<Rightarrow> bool" where
  "holders_grow m m' \<longleftrightarrow> (\<forall>c h. map_of (lm_holders m) c = Some h \<longrightarrow>
     (\<exists>h'. map_of (lm_holders m') c = Some h' \<and> lh_runner h' = lh_runner h
        \<and> set (lh_dirs h) \<subseteq> set (lh_dirs h') \<and> (lh_mode h = ModeExclusive \<longrightarrow> lh_mode h' = ModeExclusive)))"

lemma holders_grow_refl [simp]: "holders_grow m m"
  by (simp add: holders_grow_def)

lemma holders_grow_trans:
  assumes "holders_grow m m1" "holders_grow m1 m2"
  shows "holders_grow m m2"
  unfolding holders_grow_def
proof (intro allI impI)
  fix c h
  assume "map_of (lm_holders m) c = Some h"
  then obtain h1 where h1: "map_of (lm_holders m1) c = Some h1" "lh_runner h1 = lh_runner h"
    "set (lh_dirs h) \<subseteq> set (lh_dirs h1)" "lh_mode h = ModeExclusive \<longrightarrow> lh_mode h1 = ModeExclusive"
    using assms(1) unfolding holders_grow_def by blast
  then obtain h2 where h2: "map_of (lm_holders m2) c = Some h2" "lh_runner h2 = lh_runner h1"
    "set (lh_dirs h1) \<subseteq> set (lh_dirs h2)" "lh_mode h1 = ModeExclusive \<longrightarrow> lh_mode h2 = ModeExclusive"
    using assms(2) unfolding holders_grow_def by blast
  from h1 h2 show "\<exists>h'. map_of (lm_holders m2) c = Some h' \<and> lh_runner h' = lh_runner h
      \<and> set (lh_dirs h) \<subseteq> set (lh_dirs h') \<and> (lh_mode h = ModeExclusive \<longrightarrow> lh_mode h' = ModeExclusive)"
    by (intro exI [of _ h2]) auto
qed

lemma holders_grow_set_new:
  "map_of (lm_holders m) c = None \<Longrightarrow> holders_grow m (set_holder c h m)"
  by (auto simp: holders_grow_def)

lemma holders_grow_set:
  "map_of (lm_holders m) c = Some h \<Longrightarrow> lh_runner h' = lh_runner h \<Longrightarrow>
   set (lh_dirs h) \<subseteq> set (lh_dirs h') \<Longrightarrow> (lh_mode h = ModeExclusive \<Longrightarrow> lh_mode h' = ModeExclusive) \<Longrightarrow>
   holders_grow m (set_holder c h' m)"
  by (auto simp: holders_grow_def)

lemma holders_grow_cong: "lm_holders m' = lm_holders m1 \<Longrightarrow> holders_grow m m1 \<Longrightarrow> holders_grow m m'"
  by (simp add: holders_grow_def)

lemma conflict_dir_grow:
  "conflict_dir ds1 m1 ds2 m2 \<noteq> None \<Longrightarrow> set ds2 \<subseteq> set ds2' \<Longrightarrow>
   (m2 = ModeExclusive \<Longrightarrow> m2' = ModeExclusive) \<Longrightarrow> conflict_dir ds1 m1 ds2' m2' \<noteq> None"
  unfolding conflict_dir_None modes_clash_def by blast

lemma held_back_grow: "holders_grow m m' \<Longrightarrow> held_back m q \<Longrightarrow> held_back m' q"
  unfolding holders_grow_def held_back_def using conflict_dir_grow by metis

lemma chain_blocked_grow: "holders_grow m m' \<Longrightarrow> chain_blocked m seen qs \<Longrightarrow> chain_blocked m' seen qs"
  by (induction qs arbitrary: seen) (auto intro: held_back_grow)

lemma no_lost_wakeup_grow:
  "holders_grow m m' \<Longrightarrow> map w_req (lm_waiters m') = map w_req (lm_waiters m) \<Longrightarrow>
   no_lost_wakeup m \<Longrightarrow> no_lost_wakeup m'"
  unfolding no_lost_wakeup_def using chain_blocked_grow by metis

section \<open>The queue scan re-establishes it\<close>

lemma holder_conflict_held_back:
  assumes "order_ok ord" "holders_wf m"
    and "find_map (holder_conflict q) (range_holders ord i (lm_holders m)) = Some x"
  shows "held_back m q"
proof -
  obtain h where "h \<in> set (range_holders ord i (lm_holders m))" "holder_conflict q h = Some x"
    using find_map_Some [OF assms(3)] by blast
  moreover then obtain c where "map_of (lm_holders m) c = Some h"
    using set_range_holders [OF assms(1)] by blast
  ultimately show ?thesis using assms(2)
    unfolding held_back_def holder_conflict_def holders_wf_def
    by (intro exI [of _ c] exI [of _ h]) (auto split: if_splits)
qed

lemma grant_waiter_grow: "holders_grow m (grant_waiter w m)"
  by (auto simp: holders_grow_def split: option.splits)

lemma blocked_by_earlier_clash: "blocked_by_earlier w e \<longleftrightarrow> req_clash (w_req w) (w_req e)"
  by (simp add: blocked_by_earlier_def req_clash_def)

lemma w_req_note [simp]: "w_req (note_blocker h d w) = w_req w"
  by (simp add: note_blocker_def)

lemma w_req_refresh [simp]: "w_req (refresh_blocker ord hs w) = w_req w"
  by (simp add: refresh_blocker_def Let_def split: option.split prod.split)

lemma process_loop_blocked:
  assumes "process_loop ord kept ws m = (ks, m', ns)" "order_ok ord" "holders_wf m"
    and "chain_blocked m {} (map w_req kept)"
  shows "chain_blocked m' {} (map w_req ks) \<and> holders_grow m m'"
  using assms
proof (induction ord kept ws m arbitrary: ks m' ns rule: process_loop.induct)
  case (1 ord kept m)
  then show ?case by simp
next
  case (2 ord kept w ws m)
  show ?case
  proof (cases "find_map (holder_conflict (w_req w))
      (range_holders ord (2 * w_id w + 2) (lm_holders m))")
    case (Some x)
    then have "held_back m (w_req w)"
      using holder_conflict_held_back "2.prems" by blast
    then have "chain_blocked m {} (map w_req (kept @ [note_blocker h d w]))" for h d
      using "2.prems"(4) by (simp add: chain_blocked_snoc)
    with 2 Some show ?thesis by (cases x) auto
  next
    case free: None
    show ?thesis
    proof (cases "list_ex (blocked_by_earlier w) kept")
      case True
      then have "chain_blocked m {} (map w_req (kept @ [w]))"
        using "2.prems"(4) by (auto simp: chain_blocked_snoc list_ex_iff blocked_by_earlier_clash)
      with 2 free True show ?thesis by auto
    next
      case False
      let ?m = "grant_waiter w m"
      obtain ks1 m1 ns1 where p: "process_loop ord kept ws ?m = (ks1, m1, ns1)"
        by (cases "process_loop ord kept ws ?m") auto
      have "chain_blocked ?m {} (map w_req kept)"
        using "2.prems"(4) chain_blocked_grow grant_waiter_grow by blast
      then have "chain_blocked m1 {} (map w_req ks1) \<and> holders_grow ?m m1"
        using "2.IH"(2) [OF free False p] "2.prems"(2,3) grant_waiter_wf by blast
      then show ?thesis
        using "2.prems"(1) free False p holders_grow_trans [OF grant_waiter_grow] by auto
    qed
  qed
qed

lemma process_waiters_wakes:
  assumes "process_waiters ord m = (m', ns)" "order_ok ord" "holders_wf m"
  shows "no_lost_wakeup m' \<and> holders_grow m m'"
proof -
  obtain ks m1 g where p: "process_loop ord [] (lm_waiters m) m = (ks, m1, g)"
    by (cases "process_loop ord [] (lm_waiters m) m") auto
  let ?ws = "map (refresh_blocker ord (lm_holders m1)) ks"
  have m': "m' = m1\<lparr>lm_waiters := ?ws\<rparr>"
    using assms(1) p by (auto simp: process_waiters_def Let_def)
  have "chain_blocked m1 {} (map w_req ks) \<and> holders_grow m m1"
    using process_loop_blocked [OF p assms(2,3)] by simp
  moreover have "holders_grow m1 m'" by (simp add: m' holders_grow_def)
  moreover have "map w_req (lm_waiters m') = map w_req ks" by (simp add: m' o_def)
  ultimately show ?thesis
    unfolding no_lost_wakeup_def using chain_blocked_grow holders_grow_trans by metis
qed

lemma process_loop_reqs:
  "process_loop ord kept ws m = (ks, m', ns) \<Longrightarrow>
   \<exists>xs. map w_req ks = map w_req kept @ xs \<and> subseq xs (map w_req ws)"
proof (induction ord kept ws m arbitrary: ks m' ns rule: process_loop.induct)
  case (1 ord kept m)
  then show ?case by auto
next
  case (2 ord kept w ws m)
  show ?case
  proof (cases "find_map (holder_conflict (w_req w))
      (range_holders ord (2 * w_id w + 2) (lm_holders m))")
    case (Some x)
    obtain h d where x: "x = (h, d)" by (cases x)
    with 2 Some obtain xs where
      "map w_req ks = map w_req kept @ w_req w # xs" "subseq xs (map w_req ws)" by fastforce
    then show ?thesis by (intro exI [of _ "w_req w # xs"]) simp
  next
    case free: None
    show ?thesis
    proof (cases "list_ex (blocked_by_earlier w) kept")
      case True
      with 2 free obtain xs where
        "map w_req ks = map w_req kept @ w_req w # xs" "subseq xs (map w_req ws)" by fastforce
      then show ?thesis by (intro exI [of _ "w_req w # xs"]) simp
    next
      case False
      obtain ks1 m1 ns1 where p: "process_loop ord kept ws (grant_waiter w m) = (ks1, m1, ns1)"
        by (cases "process_loop ord kept ws (grant_waiter w m)") auto
      from "2.IH"(2) [OF free False p] obtain xs where
        "map w_req ks1 = map w_req kept @ xs" "subseq xs (map w_req ws)" by blast
      moreover have "ks = ks1" using "2.prems" free False p by simp
      ultimately show ?thesis by (intro exI [of _ xs]) auto
    qed
  qed
qed

lemma process_waiters_fifo:
  assumes "process_waiters ord m = (m', ns)"
  shows "subseq (map w_req (lm_waiters m')) (map w_req (lm_waiters m))"
proof -
  obtain ks m1 g where p: "process_loop ord [] (lm_waiters m) m = (ks, m1, g)"
    by (cases "process_loop ord [] (lm_waiters m) m") auto
  then have "map w_req (lm_waiters m') = map w_req ks"
    using assms by (auto simp: process_waiters_def Let_def o_def)
  with process_loop_reqs [OF p] show ?thesis by auto
qed

section \<open>New requests respect the queue\<close>

lemma find_conflict_None_waiters:
  assumes "find_conflict ord m q = None" "w \<in> set (lm_waiters m)"
    and "ar_chat (w_req w) \<noteq> ar_chat q"
  shows "\<not> req_clash q (w_req w)"
  using assms
  by (auto simp: find_conflict_def find_map_None waiter_conflict_def req_clash_def split: option.splits)

lemma find_conflict_Some_blocked:
  assumes "order_ok ord" "holders_wf m" "find_conflict ord m q = Some bd"
  shows "held_back m q \<or> (\<exists>w \<in> set (lm_waiters m). req_clash q (w_req w))"
proof (cases "find_map (holder_conflict q) (range_holders ord 0 (lm_holders m))")
  case (Some x)
  then show ?thesis using holder_conflict_held_back [OF assms(1,2)] by blast
next
  case None
  then have "find_map (waiter_conflict ord (lm_holders m) q) (lm_waiters m) = Some bd"
    using assms(3) by (simp add: find_conflict_def)
  then obtain w where "w \<in> set (lm_waiters m)" "waiter_conflict ord (lm_holders m) q w = Some bd"
    using find_map_Some by fastforce
  then show ?thesis
    by (auto simp: waiter_conflict_def req_clash_def split: if_splits intro!: bexI [of _ w])
qed

lemma acquire_held_grow:
  assumes "map_of (lm_holders m) (ar_chat req) = Some h" "acquire_held ord m req h = (res, m', ns)"
  shows "holders_grow m m' \<and> lm_waiters m' = lm_waiters m"
  using assms
  by (auto simp: acquire_held_def Let_def split: if_splits option.splits intro!: holders_grow_set)

lemma acquire_no_lost_wakeup:
  assumes ok: "order_ok ord" and wf: "holders_wf m" and nl: "no_lost_wakeup m"
    and a: "acquire ord m req = (res, m', ns)"
  shows "no_lost_wakeup m'"
  using a
proof (cases rule: acquire_cases)
  case nothing
  with nl show ?thesis by simp
next
  case (held h)
  then show ?thesis using acquire_held_grow [of m "normalize_request req" h ord] no_lost_wakeup_grow [OF _ _ nl]
    by simp
next
  case granted
  then show ?thesis using no_lost_wakeup_grow [OF holders_grow_set_new _ nl] by simp
next
  case (queued b d)
  let ?q = "normalize_request req"
  have "held_back m ?q \<or> (\<exists>w \<in> set (lm_waiters m). req_clash ?q (w_req w))"
    by (rule find_conflict_Some_blocked [OF ok wf queued(2)])
  then have "chain_blocked m {} (map w_req (lm_waiters m) @ [?q])"
    using nl by (auto simp: no_lost_wakeup_def chain_blocked_snoc)
  moreover have "holders_grow m m'" by (simp add: queued(4) holders_grow_def)
  ultimately show ?thesis
    unfolding no_lost_wakeup_def
    by (intro chain_blocked_grow [of m m']) (simp_all add: queued(4) queue_waiter_def)
qed

end
