(* ===== verification/LockSystem.thy ===== *)
theory LockSystem
  imports LockProgress
begin

text \<open>
  The directory lock manager as a transition system: every interleaving of its operations, each
  with its own map iteration order, and the properties of the reachable states.
\<close>

section \<open>Reachable states\<close>

text \<open>
  A chat is pinned to one runner (\<open>rn\<close>) and its requests carry one mode (\<open>md\<close>). A release
  closure may be called at any time, also one made for an earlier hold of the chat.
\<close>

inductive lock_reach :: "(string \<Rightarrow> string) \<Rightarrow> (string \<Rightarrow> lock_mode) \<Rightarrow> lock_manager \<Rightarrow> bool"
  for rn :: "string \<Rightarrow> string" and md :: "string \<Rightarrow> lock_mode" where
  init: "lock_reach rn md new_manager"
| acquire: "lock_reach rn md m \<Longrightarrow> order_ok ord \<Longrightarrow> ar_runner req = rn (ar_chat req) \<Longrightarrow>
    ar_mode (normalize_request req) = md (ar_chat req) \<Longrightarrow>
    acquire ord m req = (res, m', ns) \<Longrightarrow> lock_reach rn md m'"
| release: "lock_reach rn md m \<Longrightarrow> order_ok ord \<Longrightarrow>
    call_release ord m rf keep = (rf', m', ns) \<Longrightarrow> lock_reach rn md m'"
| cancel: "lock_reach rn md m \<Longrightarrow> order_ok ord \<Longrightarrow>
    acquire_cancelled ord m wid c = (m', ns) \<Longrightarrow> lock_reach rn md m'"
| unlock: "lock_reach rn md m \<Longrightarrow> order_ok ord \<Longrightarrow>
    unlock_idle ord m c = (u, m', ns) \<Longrightarrow> lock_reach rn md m'"
| force: "lock_reach rn md m \<Longrightarrow> order_ok ord \<Longrightarrow>
    force_release_chat ord m c = (m', ns) \<Longrightarrow> lock_reach rn md m'"
| title: "lock_reach rn md m \<Longrightarrow> update_chat_title m c t = (m', ns) \<Longrightarrow> lock_reach rn md m'"

text \<open>What every operation keeps.\<close>

definition holds_pinned :: "(string \<Rightarrow> string) \<Rightarrow> (string \<Rightarrow> lock_mode) \<Rightarrow> lock_manager \<Rightarrow> bool" where
  "holds_pinned rn md m \<longleftrightarrow> (\<forall>c h. map_of (lm_holders m) c = Some h \<longrightarrow>
     lh_chat h = c \<and> lh_runner h = rn c \<and> lh_mode h = md c)"

definition reqs_pinned :: "(string \<Rightarrow> string) \<Rightarrow> (string \<Rightarrow> lock_mode) \<Rightarrow> acquire_request list \<Rightarrow> bool" where
  "reqs_pinned rn md qs \<longleftrightarrow>
     (\<forall>q \<in> set qs. ar_runner q = rn (ar_chat q) \<and> ar_mode q = md (ar_chat q))"

definition lock_core :: "(string \<Rightarrow> string) \<Rightarrow> (string \<Rightarrow> lock_mode) \<Rightarrow> lock_manager \<Rightarrow> bool" where
  "lock_core rn md m \<longleftrightarrow> holds_pinned rn md m \<and> reqs_pinned rn md (map w_req (lm_waiters m))
     \<and> lock_safe m"

lemma lock_core_wf: "lock_core rn md m \<Longrightarrow> holders_wf m"
  by (simp add: lock_core_def holds_pinned_def holders_wf_def)

lemma lock_core_agrees: "lock_core rn md m \<Longrightarrow> \<forall>w \<in> set (lm_waiters m). waiter_agrees rn md m w"
  by (auto simp: lock_core_def holds_pinned_def reqs_pinned_def waiter_agrees_def)

lemma merge_pinned:
  "lh_mode h = md c \<Longrightarrow> ar_mode q = md c \<Longrightarrow> lh_mode (merge_waiter q h) = md c"
  by simp

lemma process_loop_pinned:
  assumes "process_loop ord kept ws m = (ks, m', ns)" "holds_pinned rn md m"
    and "reqs_pinned rn md (map w_req ws)"
  shows "holds_pinned rn md m'"
  using assms
proof (induction ord kept ws m arbitrary: ks m' ns rule: process_loop.induct)
  case (2 ord kept w ws m)
  have g: "holds_pinned rn md (grant_waiter w m)"
    using "2.prems"(2,3) by (auto simp: holds_pinned_def reqs_pinned_def split: option.splits)
  show ?case
    using 2 g by (auto simp: reqs_pinned_def split: option.splits if_splits prod.splits)
qed simp

lemma process_waiters_core:
  assumes "process_waiters ord m = (m', ns)" "order_ok ord" "lock_core rn md m"
  shows "lock_core rn md m' \<and> no_lost_wakeup m'"
proof -
  obtain ks m1 g where p: "process_loop ord [] (lm_waiters m) m = (ks, m1, g)"
    by (cases "process_loop ord [] (lm_waiters m) m") auto
  have "holds_pinned rn md m1"
    by (rule process_loop_pinned [OF p]) (use assms(3) in \<open>simp_all add: lock_core_def\<close>)
  then have "holds_pinned rn md m'"
    using assms(1) p by (auto simp: process_waiters_def Let_def holds_pinned_def)
  moreover have "set (map w_req (lm_waiters m')) \<subseteq> set (map w_req (lm_waiters m))"
    by (rule subseq_set [OF process_waiters_fifo [OF assms(1)]])
  then have "reqs_pinned rn md (map w_req (lm_waiters m'))"
    using assms(3) unfolding lock_core_def reqs_pinned_def by blast
  moreover have "lock_safe m'"
    using process_waiters_safe [OF assms(1,2) lock_core_wf [OF assms(3)] _ lock_core_agrees [OF assms(3)]]
      assms(3) by (simp add: lock_core_def)
  moreover have "no_lost_wakeup m'"
    using process_waiters_wakes [OF assms(1,2) lock_core_wf [OF assms(3)]] by simp
  ultimately show ?thesis by (simp add: lock_core_def)
qed

text \<open>Dropping a hold or queued requests keeps the core; the scan that follows restores wake-ups.\<close>

lemma lock_core_shrink:
  assumes "lock_core rn md m"
    and "\<And>c h. map_of (lm_holders m') c = Some h \<Longrightarrow> map_of (lm_holders m) c = Some h"
    and "set (lm_waiters m') \<subseteq> set (lm_waiters m)"
  shows "lock_core rn md m'"
proof -
  have "claims_of m' \<subseteq> claims_of m" using assms(2) by (force simp: claims_of_def)
  then have "lock_safe m'" using assms(1) lock_safe_mono [of m m'] by (simp add: lock_core_def)
  moreover have "holds_pinned rn md m'"
    using assms(1,2) by (simp add: lock_core_def holds_pinned_def)
  moreover have "reqs_pinned rn md (map w_req (lm_waiters m'))"
    using assms(1,3) by (auto simp: lock_core_def reqs_pinned_def)
  ultimately show ?thesis by (simp add: lock_core_def)
qed

text \<open>Titles play no part in conflicts.\<close>

definition untitle :: "acquire_request \<Rightarrow> acquire_request" where
  "untitle q = q\<lparr>ar_title := ''''\<rparr>"

lemma untitle_sel [simp]:
  "ar_chat (untitle q) = ar_chat q" "ar_runner (untitle q) = ar_runner q"
  "ar_dirs (untitle q) = ar_dirs q" "ar_mode (untitle q) = ar_mode q"
  by (simp_all add: untitle_def)

lemma untitle_retitle [simp]: "untitle (q\<lparr>ar_title := t\<rparr>) = untitle q"
  by (simp add: untitle_def)

lemma chain_blocked_untitle:
  "chain_blocked m (untitle ` seen) (map untitle qs) = chain_blocked m seen qs"
proof (induction qs arbitrary: seen)
  case (Cons q qs)
  have "held_back m (untitle q) = held_back m q" by (simp add: held_back_def)
  moreover have "req_clash (untitle q) (untitle e) = req_clash q e" for e
    by (simp add: req_clash_def)
  ultimately show ?case using Cons.IH [of "insert q seen"] by simp
qed simp

lemma reqs_pinned_untitle: "reqs_pinned rn md (map untitle qs) = reqs_pinned rn md qs"
  by (simp add: reqs_pinned_def)

text \<open>Changing counters, titles or reasons keeps everything.\<close>

lemma lock_core_touch:
  assumes core: "lock_core rn md m" "no_lost_wakeup m"
    and same: "map (\<lambda>w. untitle (w_req w)) (lm_waiters m') = map (\<lambda>w. untitle (w_req w)) (lm_waiters m)"
    and hs: "\<And>c. map_option (\<lambda>h. (lh_chat h, lh_runner h, lh_dirs h, lh_mode h)) (map_of (lm_holders m') c)
       = map_option (\<lambda>h. (lh_chat h, lh_runner h, lh_dirs h, lh_mode h)) (map_of (lm_holders m) c)"
  shows "lock_core rn md m' \<and> no_lost_wakeup m'"
proof -
  have bwd: "\<exists>h. map_of (lm_holders m) c = Some h \<and> lh_chat h = lh_chat h' \<and> lh_runner h = lh_runner h'
      \<and> lh_dirs h = lh_dirs h' \<and> lh_mode h = lh_mode h'"
    if "map_of (lm_holders m') c = Some h'" for c h'
    using hs [of c] that by (cases "map_of (lm_holders m) c") auto
  have fwd: "\<exists>h. map_of (lm_holders m') c = Some h \<and> lh_runner h = lh_runner h'
      \<and> lh_dirs h = lh_dirs h' \<and> lh_mode h = lh_mode h'"
    if "map_of (lm_holders m) c = Some h'" for c h'
    using hs [of c] that by (cases "map_of (lm_holders m') c") auto
  have "claims_of m' \<subseteq> claims_of m"
    using bwd by (fastforce simp: claims_of_def)
  then have "lock_safe m'" using core(1) lock_safe_mono [of m m'] by (simp add: lock_core_def)
  moreover have "holds_pinned rn md m'"
    using core(1) bwd unfolding lock_core_def holds_pinned_def by metis
  moreover have "reqs_pinned rn md (map w_req (lm_waiters m'))"
    using core(1) same reqs_pinned_untitle [of rn md "map w_req (lm_waiters m)"]
      reqs_pinned_untitle [of rn md "map w_req (lm_waiters m')"]
    by (simp add: lock_core_def o_def)
  moreover have "holders_grow m m'"
    unfolding holders_grow_def using fwd by fastforce
  then have "no_lost_wakeup m'"
    using core(2) same chain_blocked_untitle [of m "{}" "map w_req (lm_waiters m)"]
      chain_blocked_untitle [of m "{}" "map w_req (lm_waiters m')"] chain_blocked_grow [of m m']
    by (simp add: no_lost_wakeup_def o_def)
  ultimately show ?thesis by (simp add: lock_core_def)
qed

section \<open>Every operation keeps the invariant\<close>

lemma new_manager_core: "lock_core rn md new_manager \<and> no_lost_wakeup new_manager"
  by (simp add: new_manager_def lock_core_def holds_pinned_def reqs_pinned_def lock_safe_def
      claims_compatible_def claims_of_def no_lost_wakeup_def)

lemma acquire_core:
  assumes ok: "order_ok ord" and core: "lock_core rn md m" "no_lost_wakeup m"
    and r: "ar_runner req = rn (ar_chat req)" "ar_mode (normalize_request req) = md (ar_chat req)"
    and a: "acquire ord m req = (res, m', ns)"
  shows "lock_core rn md m' \<and> no_lost_wakeup m'"
proof -
  have wf: "holders_wf m" by (rule lock_core_wf [OF core(1)])
  have "lock_safe m'"
    using core(1) r by (intro acquire_safe [OF ok wf _ _ a]) (auto simp: lock_core_def holds_pinned_def)
  moreover have "no_lost_wakeup m'" by (rule acquire_no_lost_wakeup [OF ok wf core(2) a])
  moreover have "holds_pinned rn md m' \<and> reqs_pinned rn md (map w_req (lm_waiters m'))"
    using a
  proof (cases rule: acquire_cases)
    case (held h)
    have "holds_pinned rn md m'"
      using held core(1) r
      by (auto simp: acquire_held_def Let_def lock_core_def holds_pinned_def
          split: if_splits option.splits)
    moreover have "lm_waiters m' = lm_waiters m"
      using acquire_held_grow [of m "normalize_request req" h ord] held by simp
    ultimately show ?thesis using core(1) by (simp add: lock_core_def)
  qed (use core(1) r in \<open>auto simp: lock_core_def holds_pinned_def reqs_pinned_def queue_waiter_def\<close>)
  ultimately show ?thesis by (simp add: lock_core_def)
qed

lemma release_chat_core:
  assumes ok: "order_ok ord" and core: "lock_core rn md m" "no_lost_wakeup m"
    and a: "release_chat ord m c keep = (m', ns)"
  shows "lock_core rn md m' \<and> no_lost_wakeup m'"
proof (cases "map_of (lm_holders m) c")
  case None
  with a core show ?thesis by (simp add: release_chat_def)
next
  case (Some h)
  consider "lh_active h - 1 > 0" | "\<not> lh_active h - 1 > 0" "lh_mode h = ModeExclusive \<and> keep"
    | "\<not> lh_active h - 1 > 0" "\<not> (lh_mode h = ModeExclusive \<and> keep)" by blast
  then show ?thesis
  proof cases
    case 1
    then have "m' = set_holder c (h\<lparr>lh_active := lh_active h - 1\<rparr>) m"
      using a Some by (simp add: release_chat_def Let_def)
    then show ?thesis using Some by (intro lock_core_touch [OF core]) simp_all
  next
    case 2
    then have "m' = (set_holder c (h\<lparr>lh_active := lh_active h - 1, lh_reason := ReasonUncommitted\<rparr>) m)
        \<lparr>lm_waiters := map (mark_uncommitted c) (lm_waiters m)\<rparr>"
      using a Some by (simp add: release_chat_def Let_def)
    then show ?thesis using Some
      by (intro lock_core_touch [OF core]) (simp_all add: mark_uncommitted_def)
  next
    case 3
    then obtain woken where "process_waiters ord (drop_holder c m) = (m', woken)"
      using a Some by (auto simp: release_chat_def Let_def split: prod.splits if_splits)
    moreover have "lock_core rn md (drop_holder c m)"
      by (rule lock_core_shrink [OF core(1)]) (simp_all split: if_splits)
    ultimately show ?thesis using process_waiters_core [OF _ ok] by blast
  qed
qed

lemma acquire_cancelled_core:
  assumes ok: "order_ok ord" and core: "lock_core rn md m" "no_lost_wakeup m"
    and a: "acquire_cancelled ord m wid c = (m', ns)"
  shows "lock_core rn md m' \<and> no_lost_wakeup m'"
proof (cases "wid \<in> set (lm_ready m)")
  case True
  with a show ?thesis using release_chat_core [OF ok core] by (simp add: acquire_cancelled_def)
next
  case False
  let ?m = "m\<lparr>lm_waiters := filter (\<lambda>w. w_id w \<noteq> wid) (lm_waiters m)\<rparr>"
  obtain woken where "process_waiters ord ?m = (m', woken)"
    using a False by (auto simp: acquire_cancelled_def split: prod.splits)
  moreover have "lock_core rn md ?m" by (rule lock_core_shrink [OF core(1)]) auto
  ultimately show ?thesis using process_waiters_core [OF _ ok] by blast
qed

lemma unlock_idle_core:
  assumes ok: "order_ok ord" and core: "lock_core rn md m" "no_lost_wakeup m"
    and a: "unlock_idle ord m c = (u, m', ns)"
  shows "lock_core rn md m' \<and> no_lost_wakeup m'"
proof -
  consider "m' = m" | woken where "process_waiters ord (drop_holder c m) = (m', woken)"
    using a by (auto simp: unlock_idle_def split: option.splits if_splits prod.splits)
  then show ?thesis
  proof cases
    case 1
    with core show ?thesis by simp
  next
    case 2
    moreover have "lock_core rn md (drop_holder c m)"
      by (rule lock_core_shrink [OF core(1)]) (simp_all split: if_splits)
    ultimately show ?thesis using process_waiters_core [OF _ ok] by blast
  qed
qed

lemma force_release_core:
  assumes ok: "order_ok ord" and core: "lock_core rn md m"
    and a: "force_release_chat ord m c = (m', ns)"
  shows "lock_core rn md m' \<and> no_lost_wakeup m'"
proof -
  let ?m = "(drop_holder c m)\<lparr>lm_waiters := filter (\<lambda>w. ar_chat (w_req w) \<noteq> c) (lm_waiters m),
     lm_ready := rev (map w_id (filter (\<lambda>w. ar_chat (w_req w) = c) (lm_waiters m))) @ lm_ready m\<rparr>"
  obtain woken where "process_waiters ord ?m = (m', woken)"
    using a by (auto simp: force_release_chat_def Let_def split: prod.splits)
  moreover have "lock_core rn md ?m"
    by (rule lock_core_shrink [OF core]) (auto split: if_splits)
  ultimately show ?thesis using process_waiters_core [OF _ ok] by blast
qed

lemma update_chat_title_core:
  assumes core: "lock_core rn md m" "no_lost_wakeup m"
    and a: "update_chat_title m c t = (m', ns)"
  shows "lock_core rn md m' \<and> no_lost_wakeup m'"
proof (cases "t = ''''")
  case True
  with a core show ?thesis by (simp add: update_chat_title_def)
next
  case False
  have "untitle (w_req (retitle_waiter c t w)) = untitle (w_req w)" for w
    by (simp add: retitle_waiter_def Let_def)
  moreover have "m' = (case map_of (lm_holders m) c of
      Some h \<Rightarrow> set_holder c (h\<lparr>lh_title := t\<rparr>) m | None \<Rightarrow> m)
      \<lparr>lm_waiters := map (retitle_waiter c t) (lm_waiters m)\<rparr>"
    using a False by (simp add: update_chat_title_def Let_def)
  ultimately show ?thesis
    by (intro lock_core_touch [OF core]) (simp_all split: option.split)
qed

lemma lock_reach_core: "lock_reach rn md m \<Longrightarrow> lock_core rn md m \<and> no_lost_wakeup m"
proof (induction rule: lock_reach.induct)
  case init
  show ?case by (rule new_manager_core)
next
  case (acquire m ord req res m' ns)
  then show ?case using acquire_core by blast
next
  case (release m ord rf keep rf' m' ns)
  show ?case
  proof (cases "rf_done rf")
    case True
    with release show ?thesis by (simp add: call_release_def)
  next
    case False
    with release have "release_chat ord m (rf_chat rf) keep = (m', ns)"
      by (simp add: call_release_def split: prod.splits)
    with release show ?thesis using release_chat_core by blast
  qed
next
  case (cancel m ord wid c m' ns)
  then show ?case using acquire_cancelled_core by blast
next
  case (unlock m ord c u m' ns)
  then show ?case using unlock_idle_core by blast
next
  case (force m ord c m' ns)
  then show ?case using force_release_core by blast
next
  case (title m c t m' ns)
  then show ?case using update_chat_title_core by blast
qed

section \<open>Overlap of cleaned absolute paths\<close>

text \<open>For absolute paths, \<open>PathsOverlap\<close> is exactly the ancestor relation on the component
  lists that \<open>Clean\<close> keeps, so it never confuses siblings sharing a name prefix.\<close>

lemma paths_overlap_absolute:
  assumes "path_is_abs a" "path_is_abs b"
  shows "paths_overlap a b \<longleftrightarrow>
    prefix (path_comps a) (path_comps b) \<or> prefix (path_comps b) (path_comps a)"
proof -
  have root: "path_clean p = ''/'' \<longleftrightarrow> path_comps p = []" if "path_is_abs p" for p
  proof -
    have "path_clean p = path_clean ''/'' \<longleftrightarrow> path_comps p = path_comps ''/''"
      using that by (simp add: path_clean_eq_iff path_is_abs_def)
    moreover have "path_clean ''/'' = ''/''" "path_comps ''/'' = []" by code_simp+
    ultimately show ?thesis by simp
  qed
  have under: "path_clean p = ''/'' \<or> has_prefix (path_clean q) (path_clean p @ ''/'')
      \<longleftrightarrow> path_comps p = [] \<or> strict_prefix (path_comps p) (path_comps q)"
    if "path_is_abs p" "path_is_abs q" for p q
    using clean_prefix_iff [OF that] root [OF that(1)] by (auto simp: has_prefix_def)
  show ?thesis
    unfolding paths_overlap_def Let_def
    using under [OF assms] under [OF assms(2,1)] assms
    by (auto simp: path_clean_eq_iff strict_prefix_def)
qed

lemma paths_overlap_absolute_witness:
  "\<not> paths_overlap ''/data/a'' ''/data/ab/'' \<and> paths_overlap ''/data/x/..'' ''/data/a''"
proof -
  have a: "path_is_abs ''/data/a''" "path_is_abs ''/data/ab/''" "path_is_abs ''/data/x/..''"
    by code_simp+
  have "path_comps ''/data/a'' = [''data'', ''a'']" "path_comps ''/data/ab/'' = [''data'', ''ab'']"
    "path_comps ''/data/x/..'' = [''data'']" by code_simp+
  then show ?thesis
    using paths_overlap_absolute [OF a(1,2)] paths_overlap_absolute [OF a(3,1)] by simp
qed

section \<open>What is locked\<close>

lemma is_exempt_clean: "d \<noteq> '''' \<Longrightarrow> is_exempt_dir dd c (path_clean d) = is_exempt_dir dd c d"
  by (simp add: is_exempt_dir_def Let_def)

text \<open>The directories computed for a run are sorted, distinct, cleaned, and never exempt, and
  a mount with mask rules (a shared parent) contributes nothing: every one is the cleaned run
  directory or the cleaned path of an unmasked read-write mount of a writing agent.\<close>

lemma compute_locked_dirs_sound:
  assumes "compute_locked_dirs dd chat rd cfg = (dirs, mode)"
  shows "sorted dirs \<and> distinct dirs
    \<and> (\<forall>d \<in> set dirs. path_clean d = d \<and> \<not> is_exempt_dir dd chat d
        \<and> (d = path_clean rd \<or> (\<exists>c e. cfg = Some c \<and> \<not> lc_read_only c \<and> e \<in> set (lc_rw_mounts c)
              \<and> \<not> me_masked e \<and> d = path_clean (me_path e))))"
proof (intro conjI ballI)
  show "sorted dirs" "distinct dirs"
    using assms sorted_sort_compact distinct_sort_compact
    by (auto simp: compute_locked_dirs_def Let_def split: if_splits)
next
  fix d assume d: "d \<in> set dirs"
  have s: "d \<in> set ((if rd \<noteq> '''' \<and> \<not> is_exempt_dir dd chat rd then [path_clean rd] else []) @
      (case cfg of None \<Rightarrow> [] | Some c \<Rightarrow> if lc_read_only c then []
        else map (\<lambda>e. path_clean (me_path e)) (filter (\<lambda>e. \<not> me_masked e \<and> me_path e \<noteq> ''''
              \<and> \<not> is_exempt_dir dd chat (me_path e)) (lc_rw_mounts c))))"
    using assms d unfolding compute_locked_dirs_def Let_def by (auto split: if_split_asm)
  then show "path_clean d = d" by (auto split: if_split_asm option.splits)
  from s show "\<not> is_exempt_dir dd chat d"
    by (auto simp: is_exempt_clean split: if_split_asm option.splits)
  from s show "d = path_clean rd \<or> (\<exists>c e. cfg = Some c \<and> \<not> lc_read_only c \<and> e \<in> set (lc_rw_mounts c)
      \<and> \<not> me_masked e \<and> d = path_clean (me_path e))"
    by (auto split: if_split_asm option.splits)
qed

lemma compute_locked_dirs_sound_witness:
  "compute_locked_dirs ''/session-data'' ''c1'' ''/data/p/'' (Some \<lparr>lc_read_only = False,
      lc_rw_mounts = [\<lparr>me_path = ''/data/m'', me_masked = True\<rparr>, \<lparr>me_path = ''/data/b/.'', me_masked = False\<rparr>]\<rparr>)
     = ([''/data/b'', ''/data/p''], ModeExclusive)
   \<and> \<not> is_exempt_dir ''/session-data'' ''c1'' ''/data/b''"
proof -
  have e: "compute_locked_dirs ''/session-data'' ''c1'' ''/data/p/'' (Some \<lparr>lc_read_only = False,
      lc_rw_mounts = [\<lparr>me_path = ''/data/m'', me_masked = True\<rparr>, \<lparr>me_path = ''/data/b/.'', me_masked = False\<rparr>]\<rparr>)
     = ([''/data/b'', ''/data/p''], ModeExclusive)" by code_simp
  from compute_locked_dirs_sound [OF e] e show ?thesis by simp
qed

section \<open>Exclusion and progress in every reachable state\<close>



text \<open>\<open>Acquire\<close> keeps the table of claims compatible for any request of a chat pinned to its
  runner, whatever the modes: fresh holds, re-entrant holds, expansions and upgrades from
  read-only to exclusive alike.\<close>

lemma acquire_keeps_exclusion:
  assumes "order_ok ord" "holders_wf m" "lock_safe m"
    and "\<forall>h. map_of (lm_holders m) (ar_chat req) = Some h \<longrightarrow> lh_runner h = ar_runner req"
    and "acquire ord m req = (res, m', ns)"
  shows "lock_safe m'"
  by (rule acquire_safe [OF assms])

text \<open>A request of a chat that holds nothing is only granted at once when it clashes with no
  queued request of another chat: later requests cannot starve an earlier writer.\<close>

lemma acquire_respects_queue:
  assumes "acquire ord m req = (AcqGranted rf, m', ns)"
    and "map_of (lm_holders m) (ar_chat req) = None"
    and "w \<in> set (lm_waiters m)" "ar_chat (w_req w) \<noteq> ar_chat req"
  shows "\<not> req_clash (normalize_request req) (w_req w)"
proof -
  have "find_conflict ord m (normalize_request req) = None"
    using assms(1,2) by (auto simp: acquire_def Let_def split: if_splits option.splits)
  then show ?thesis using find_conflict_None_waiters assms(3,4) by simp
qed

text \<open>One scan of the queue leaves the remaining requests in their order, only enlarges holds,
  and leaves nobody waiting without a clash with a hold or with an earlier waiter.\<close>

lemma process_waiters_correct:
  assumes "process_waiters ord m = (m', ns)" "order_ok ord" "holders_wf m"
  shows "subseq (map w_req (lm_waiters m')) (map w_req (lm_waiters m))
    \<and> holders_grow m m' \<and> no_lost_wakeup m'"
  using process_waiters_fifo [OF assms(1)] process_waiters_wakes [OF assms] by simp

text \<open>When the last run of an exclusive hold ends with uncommitted changes, the chat keeps the
  directories, is shown as unlockable, and \<open>UnlockIdle\<close> then succeeds.\<close>

lemma release_keeps_uncommitted:
  assumes "map_of (lm_holders m) c = Some h" "lh_active h = 1" "lh_mode h = ModeExclusive"
    and "release_chat ord m c True = (m', ns)" "c \<noteq> ''''"
  shows "map_of (lm_holders m') c = Some (h\<lparr>lh_active := 0, lh_reason := ReasonUncommitted\<rparr>)
    \<and> status_for_chat m' c = Some (StatusLocked ModeExclusive ReasonUncommitted
          (case lh_dirs h of [] \<Rightarrow> '''' | d # _ \<Rightarrow> d) True)
    \<and> fst (unlock_idle ord m' c) = UnlockDone True"
proof -
  have m': "map_of (lm_holders m') c = Some (h\<lparr>lh_active := 0, lh_reason := ReasonUncommitted\<rparr>)"
    using assms by (auto simp: release_chat_def Let_def)
  with assms(3,5) show ?thesis
    by (simp add: status_for_chat_def unlock_idle_def split: prod.split)
qed

end
