(* ===== verification/LockExamples.thy ===== *)
theory LockExamples
  imports LockSystem
begin

text \<open>
  Concrete runs of the directory lock manager: the theorems of \<open>LockSystem\<close> applied at states
  that operations reach from an empty manager, and two runs in which the manager does not keep
  what it promises.
\<close>

definition insertion_order :: map_order where
  "insertion_order = (\<lambda>i ks. ks)"

definition demo_request :: "string \<Rightarrow> string list \<Rightarrow> lock_mode \<Rightarrow> acquire_request" where
  "demo_request c ds md =
     \<lparr>ar_chat = c, ar_title = '''', ar_runner = ''r'', ar_dirs = ds, ar_mode = md\<rparr>"

definition demo_acquire :: "lock_manager \<Rightarrow> string \<Rightarrow> string list \<Rightarrow> lock_mode \<Rightarrow> lock_manager" where
  "demo_acquire m c ds md = fst (snd (acquire insertion_order m (demo_request c ds md)))"

lemma order_ok_insertion: "order_ok insertion_order"
  by (simp add: order_ok_def insertion_order_def)

lemma reach_demo_acquire:
  assumes "lock_reach (\<lambda>_. ''r'') (\<lambda>_. mo) m" "mo \<noteq> ModeUnset"
  shows "lock_reach (\<lambda>_. ''r'') (\<lambda>_. mo) (demo_acquire m c ds mo)"
proof -
  obtain res m' ns where a: "acquire insertion_order m (demo_request c ds mo) = (res, m', ns)"
    by (cases "acquire insertion_order m (demo_request c ds mo)") auto
  have "lock_reach (\<lambda>_. ''r'') (\<lambda>_. mo) m'"
    by (rule lock_reach.acquire [OF assms(1) order_ok_insertion _ _ a])
      (use assms(2) in \<open>simp_all add: demo_request_def normalize_request_def\<close>)
  with a show ?thesis by (simp add: demo_acquire_def)
qed

section \<open>Two readers, one of them below the other\<close>

definition two_readers :: lock_manager where
  "two_readers = demo_acquire (demo_acquire new_manager ''a'' [''/w''] ModeReadOnly) ''b'' [''/w/x''] ModeReadOnly"

lemma two_readers_reach: "lock_reach (\<lambda>_. ''r'') (\<lambda>_. ModeReadOnly) two_readers"
  unfolding two_readers_def by (intro reach_demo_acquire lock_reach.init) simp_all

lemma two_readers_holds:
  "map_of (lm_holders two_readers) ''a'' = Some (fresh_holder (demo_request ''a'' [''/w''] ModeReadOnly))"
  "map_of (lm_holders two_readers) ''b'' = Some (fresh_holder (demo_request ''b'' [''/w/x''] ModeReadOnly))"
  by code_simp+


section \<open>A writer, a waiting writer\<close>

definition one_writer :: lock_manager where
  "one_writer = demo_acquire new_manager ''a'' [''/w''] ModeExclusive"

definition writer_waits :: lock_manager where
  "writer_waits = demo_acquire one_writer ''b'' [''/w/x''] ModeExclusive"

lemma one_writer_reach: "lock_reach (\<lambda>_. ''r'') (\<lambda>_. ModeExclusive) one_writer"
  unfolding one_writer_def by (intro reach_demo_acquire lock_reach.init) simp_all

lemma writer_waits_reach: "lock_reach (\<lambda>_. ''r'') (\<lambda>_. ModeExclusive) writer_waits"
  unfolding writer_waits_def by (intro reach_demo_acquire one_writer_reach) simp_all

definition waiting_writer :: waiter where
  "waiting_writer = \<lparr>w_id = 0, w_req = demo_request ''b'' [''/w/x''] ModeExclusive,
     w_by_chat = ''a'', w_by_title = '''', w_by_reason = ReasonRunning, w_dir = ''/w/x''\<rparr>"

lemma writer_waits_queue: "lm_waiters writer_waits = [waiting_writer]"
  by code_simp


lemma new_manager_wf: "holders_wf new_manager" "lock_safe new_manager"
  using new_manager_core lock_core_wf by (auto simp: lock_core_def)

lemma acquire_keeps_exclusion_witness:
  "lock_safe (fst (snd (acquire insertion_order new_manager (demo_request ''a'' [''/w''] ModeExclusive))))"
proof -
  obtain res m' ns where a:
    "acquire insertion_order new_manager (demo_request ''a'' [''/w''] ModeExclusive) = (res, m', ns)"
    by (cases "acquire insertion_order new_manager (demo_request ''a'' [''/w''] ModeExclusive)") auto
  have "lock_safe m'"
    by (rule acquire_keeps_exclusion [OF order_ok_insertion new_manager_wf _ a])
      (simp add: new_manager_def)
  with a show ?thesis by simp
qed

lemma acquire_respects_queue_witness:
  "\<not> req_clash (normalize_request (demo_request ''c'' [''/v''] ModeExclusive)) (w_req waiting_writer)"
proof -
  obtain m' ns where
    "acquire insertion_order writer_waits (demo_request ''c'' [''/v''] ModeExclusive)
       = (AcqGranted (make_release ''c''), m', ns)"
  proof -
    have "fst (acquire insertion_order writer_waits (demo_request ''c'' [''/v''] ModeExclusive))
       = AcqGranted (make_release ''c'')" by code_simp
    then show ?thesis using that by (metis prod.collapse)
  qed
  from acquire_respects_queue [OF this, of waiting_writer] show ?thesis
    using writer_waits_queue
    by (simp add: demo_request_def waiting_writer_def writer_waits_def demo_acquire_def one_writer_def)
      code_simp
qed

lemma process_waiters_correct_witness:
  "lm_waiters (fst (process_waiters insertion_order writer_waits)) \<noteq> []
   \<and> no_lost_wakeup (fst (process_waiters insertion_order writer_waits))"
proof -
  obtain m' ns where p: "process_waiters insertion_order writer_waits = (m', ns)"
    by (cases "process_waiters insertion_order writer_waits")
  have "holders_wf writer_waits"
    using lock_reach_core [OF writer_waits_reach] lock_core_wf by blast
  from process_waiters_correct [OF p order_ok_insertion this]
  have "no_lost_wakeup (fst (process_waiters insertion_order writer_waits))" by (simp add: p)
  moreover have "lm_waiters (fst (process_waiters insertion_order writer_waits)) \<noteq> []" by code_simp
  ultimately show ?thesis by simp
qed

lemma release_keeps_uncommitted_witness:
  "fst (unlock_idle insertion_order (fst (release_chat insertion_order writer_waits ''a'' True)) ''a'')
     = UnlockDone True"
proof -
  obtain m' ns where r: "release_chat insertion_order writer_waits ''a'' True = (m', ns)"
    by (cases "release_chat insertion_order writer_waits ''a'' True")
  have "map_of (lm_holders writer_waits) ''a''
      = Some (fresh_holder (demo_request ''a'' [''/w''] ModeExclusive))" by code_simp
  from release_keeps_uncommitted [OF this _ _ r] r show ?thesis
    by (simp add: demo_request_def fresh_holder_def)
qed

section \<open>Mixed modes within one chat\<close>

text \<open>
  Chat b writes /x; chats c and a queue to read /x; chat a also writes /y. When b releases, c
  reads /x and a's queued request is merged into a's exclusive hold.
\<close>

definition mixed_modes_run :: lock_manager where
  "mixed_modes_run =
     (let m1 = demo_acquire new_manager ''b'' [''/x''] ModeExclusive;
          m2 = demo_acquire m1 ''c'' [''/x''] ModeReadOnly;
          m3 = demo_acquire m2 ''a'' [''/x''] ModeReadOnly;
          m4 = demo_acquire m3 ''a'' [''/y''] ModeExclusive
      in fst (release_chat insertion_order m4 ''b'' False))"

text \<open>C32. The merge of a queued read-only request into an exclusive hold of the same chat breaks
  mutual exclusion: chat a ends up holding /x exclusively while chat c reads it.\<close>

theorem mixed_mode_merge_breaks_exclusion:
  "\<exists>ha hc. map_of (lm_holders mixed_modes_run) ''a'' = Some ha
     \<and> map_of (lm_holders mixed_modes_run) ''c'' = Some hc
     \<and> lh_runner ha = lh_runner hc \<and> ''/x'' \<in> set (lh_dirs ha) \<and> ''/x'' \<in> set (lh_dirs hc)
     \<and> lh_mode ha = ModeExclusive \<and> \<not> lock_safe mixed_modes_run"
proof -
  let ?a = "\<lparr>lh_chat = ''a'', lh_title = '''', lh_runner = ''r'', lh_dirs = [''/x'', ''/y''],
     lh_mode = ModeExclusive, lh_reason = ReasonRunning, lh_active = 2\<rparr>"
  let ?c = "fresh_holder (demo_request ''c'' [''/x''] ModeReadOnly)"
  have h: "map_of (lm_holders mixed_modes_run) ''a'' = Some ?a"
    "map_of (lm_holders mixed_modes_run) ''c'' = Some ?c" by code_simp+
  then have "(''r'', ''a'', ''/x'', True) \<in> claims_of mixed_modes_run"
    "(''r'', ''c'', ''/x'', False) \<in> claims_of mixed_modes_run"
    by (auto simp: claims_of_iff demo_request_def)
  moreover have "paths_overlap ''/x'' ''/x''" by code_simp
  ultimately have "\<not> lock_safe mixed_modes_run"
    unfolding lock_safe_def claims_compatible_def by blast
  with h show ?thesis by (simp add: demo_request_def)
qed

section \<open>A release closure that outlives its hold\<close>

definition stale_release_run :: lock_manager where
  "stale_release_run =
     (let m1 = demo_acquire new_manager ''a'' [''/x''] ModeExclusive;
          m2 = fst (force_release_chat insertion_order m1 ''a'')
      in demo_acquire m2 ''a'' [''/x''] ModeExclusive)"

text \<open>The closure returned for a hold that \<open>ForceReleaseChat\<close> removed acts on the chat's next
  hold: its first call drops the hold of a run that has not released it.\<close>

lemma stale_release_drops_new_hold:
  "map_option lh_active (map_of (lm_holders stale_release_run) ''a'') = Some 1
   \<and> map_of (lm_holders (fst (snd (call_release insertion_order stale_release_run
        (make_release ''a'') False)))) ''a'' = None"
  by code_simp

end
