(* ===== verification/RunnerProto.thy ===== *)
theory RunnerProto
  imports Prelude "HOL-Library.Word"
begin

text \<open>
  The messages of the runner protocol (\<open>pkg/runnerpb/runner.proto\<close>) as far as the two ends look
  at them. Sequence numbers, event indices and byte offsets are 64-bit words. A \<open>_rest\<close> field
  stands for the remaining fields of a message, which both ends only pass on. Bytes are
  characters.
\<close>

type_synonym u64 = "64 word"
type_synonym u32 = "32 word"

record run_ref =
  ref_run :: string
  ref_chat :: string
  ref_attempt :: u32
  ref_wf_node :: string
  ref_token :: string

record run_event =
  ev_run :: string
  ev_index :: u64
  ev_rest :: string

record output_chunk =
  oc_run :: string
  oc_offset :: u64
  oc_data :: string

record run_result =
  rr_run :: string
  rr_output_size :: u64
  rr_error :: string
  rr_chat :: string
  rr_attempt :: u32
  rr_wf_node :: string
  rr_token :: string
  rr_rest :: string

record heartbeat =
  hb_quotas :: "string list"
  hb_active_runs :: u32
  hb_max_runs :: u32
  hb_health_error :: string

record register =
  rg_node :: string
  rg_version :: string
  rg_protocol :: u32
  rg_clis :: "(string \<times> string list) list"
  rg_active :: "run_ref list"
  rg_completed :: "run_ref list"
  rg_last_acked :: u64
  rg_boot :: string
  rg_seen_backend_boot :: string

record start_run =
  sr_run :: string
  sr_chat :: string
  sr_agent :: string
  sr_prompt :: string
  sr_attempt :: u32
  sr_wf_node :: string
  sr_token :: string
  sr_user :: string
  sr_rest :: string

datatype reject_reason = RejectCN | RejectProtocol | RejectNotAllowed

record register_result =
  rs_accepted :: bool
  rs_reason :: "reject_reason option"
  rs_protocol :: u32
  rs_last_acked :: u64
  rs_boot :: string

datatype runner_payload =
    RmRegister register
  | RmHeartbeat heartbeat
  | RmRunEvent run_event
  | RmRunResult run_result
  | RmAck u64
  | RmRunOutput output_chunk

record runner_msg =
  rm_seq :: u64
  rm_payload :: runner_payload

datatype backend_payload =
    BmRegisterResult register_result
  | BmStartRun start_run
  | BmCancelRun string
  | BmAck u64

record backend_msg =
  bm_seq :: u64
  bm_payload :: backend_payload

definition is_heartbeat :: "runner_msg \<Rightarrow> bool" where
  "is_heartbeat m = (case rm_payload m of RmHeartbeat _ \<Rightarrow> True | _ \<Rightarrow> False)"

section \<open>Queues of numbered messages\<close>

text \<open>
  Both ends keep their unacknowledged messages in a queue ordered by sequence number: the
  counter is raised before a message is appended, an acknowledgement drops a front. The laws
  are stated once, over the numbers in the queue and the counter.
\<close>

definition seqs_ok :: "u64 \<Rightarrow> u64 list \<Rightarrow> bool" where
  "seqs_ok next ss \<longleftrightarrow> sorted_wrt (<) ss \<and> (\<forall>s \<in> set ss. 0 < s \<and> s \<le> next)"

lemma seqs_ok_Nil [simp]: "seqs_ok n []"
  by (simp add: seqs_ok_def)

lemma unat_add_1: "(n::u64) \<noteq> - 1 \<Longrightarrow> unat (n + 1) = Suc (unat n)"
proof -
  assume "n \<noteq> - 1"
  then have "1 + n \<noteq> 0" by (metis add.inverse_unique)
  then show ?thesis by (metis unatSuc add.commute)
qed

lemma word_less_add_1: "(n::u64) \<noteq> - 1 \<Longrightarrow> n < n + 1"
  by (simp add: word_less_nat_alt unat_add_1)

lemma word_pos_add_1: "(n::u64) \<noteq> - 1 \<Longrightarrow> 0 < n + 1"
  by (simp add: word_less_nat_alt unat_add_1)

lemma word_less_Suc: "(n::u64) \<noteq> - 1 \<Longrightarrow> s < n + 1 \<longleftrightarrow> s \<le> n"
  by (simp add: word_less_nat_alt word_le_nat_alt unat_add_1 less_Suc_eq_le)

lemma seqs_ok_snoc:
  assumes "seqs_ok n ss" "n \<noteq> - 1"
  shows "seqs_ok (n + 1) (ss @ [n + 1])"
proof -
  have "s < n + 1" if "s \<in> set ss" for s
    using assms that word_less_add_1 [of n] by (auto simp: seqs_ok_def)
  with assms show ?thesis
    using word_pos_add_1 by (auto simp: seqs_ok_def sorted_wrt_append less_imp_le)
qed

lemma sorted_wrt_subseq: "subseq ts ss \<Longrightarrow> sorted_wrt P ss \<Longrightarrow> sorted_wrt P ts"
  by (induction rule: list_emb.induct) (auto dest: subseq_set)

lemma seqs_ok_subseq: "seqs_ok n ss \<Longrightarrow> subseq ts ss \<Longrightarrow> seqs_ok n ts"
  unfolding seqs_ok_def using subseq_set [of ts ss] sorted_wrt_subseq [of ts ss "(<)"] by blast

lemma dropWhile_le_eq_filter:
  "sorted_wrt (<) (map f xs) \<Longrightarrow>
   dropWhile (\<lambda>m. f m \<le> (a::u64)) xs = filter (\<lambda>m. a < f m) xs"
proof (induction xs)
  case (Cons x xs)
  show ?case
  proof (cases "f x \<le> a")
    case True
    with Cons show ?thesis by simp
  next
    case False
    then have "a < f y" if "y \<in> set xs" for y
      using Cons.prems that by (auto simp: not_le)
    with False show ?thesis by (simp add: not_le)
  qed
qed simp

section \<open>The interface of an outbound queue\<close>

text \<open>
  What the protocol relies on at both ends: appending stamps the next number, an
  acknowledgement drops the front it covers.
\<close>

locale outbox =
  fixes msgs :: "'q \<Rightarrow> 'm list"
    and cnt :: "'q \<Rightarrow> u64"
    and mseq :: "'m \<Rightarrow> u64"
    and stamp :: "'p \<Rightarrow> u64 \<Rightarrow> 'm"
    and enq :: "'p \<Rightarrow> 'q \<Rightarrow> 'q"
    and trim :: "u64 \<Rightarrow> 'q \<Rightarrow> 'q"
  assumes enq_msgs: "msgs (enq p q) = msgs q @ [stamp p (cnt q + 1)]"
    and enq_cnt: "cnt (enq p q) = cnt q + 1"
    and stamp_seq: "mseq (stamp p s) = s"
    and trim_msgs: "msgs (trim a q) = dropWhile (\<lambda>m. mseq m \<le> a) (msgs q)"
    and trim_cnt: "cnt (trim a q) = cnt q"
begin

definition queue_ok :: "'q \<Rightarrow> bool" where
  "queue_ok q \<longleftrightarrow> seqs_ok (cnt q) (map mseq (msgs q))"

lemma queue_ok_enq: "queue_ok q \<Longrightarrow> cnt q \<noteq> - 1 \<Longrightarrow> queue_ok (enq p q)"
  by (simp add: queue_ok_def enq_msgs enq_cnt stamp_seq seqs_ok_snoc)

lemma trim_exact: "queue_ok q \<Longrightarrow> msgs (trim a q) = filter (\<lambda>m. a < mseq m) (msgs q)"
  by (simp add: queue_ok_def seqs_ok_def trim_msgs dropWhile_le_eq_filter)

lemma subseq_dropWhile: "subseq (dropWhile P xs) xs"
  by (induction xs) auto

lemma queue_ok_trim: "queue_ok q \<Longrightarrow> queue_ok (trim a q)"
  unfolding queue_ok_def trim_msgs trim_cnt
  by (erule seqs_ok_subseq) (intro subseq_map subseq_dropWhile)

lemma fresh_survives_trim:
  "queue_ok q \<Longrightarrow> cnt q \<noteq> - 1 \<Longrightarrow> a \<le> cnt q \<Longrightarrow>
   stamp p (cnt q + 1) \<in> set (msgs (trim a (enq p q)))"
  using trim_exact [OF queue_ok_enq, of q a p] word_less_Suc [of "cnt q" a]
  by (simp add: enq_msgs stamp_seq)

lemma trim_keeps: "queue_ok q \<Longrightarrow> m \<in> set (msgs q) \<Longrightarrow> a < mseq m \<Longrightarrow> m \<in> set (msgs (trim a q))"
  by (simp add: trim_exact)

lemma trim_drops: "queue_ok q \<Longrightarrow> m \<in> set (msgs (trim a q)) \<Longrightarrow> m \<in> set (msgs q) \<and> a < mseq m"
  by (simp add: trim_exact)

end

end
