(* ===== verification/RunnerHub.thy ===== *)
theory RunnerHub
  imports RunnerProto
begin

text \<open>
  The backend side of the runner connection (\<open>backend/lib/runnerhub\<close>): run handles, the store of
  finalized run ids, the registry entry of a node with its outbound queue, registration, the
  handling of upstream messages, dispatch and cancellation. Every function is the body of a
  critical section of \<open>Hub.mu\<close> (or the sequence of sections the code runs on one message); the
  state they share is the \<open>hub\<close> record. Run handles are heap objects: the hub's table maps a
  run id to an address, and a handle that left the table lives on for its dispatcher.
  Wall-clock fields (\<open>lastSeen\<close>), logging and channels that only wake goroutines are left out.
\<close>

section \<open>Run handles (run.go)\<close>

datatype run_error = RunLost | RunHubClosed | RunOutputGap u64 u64 | RunSizeMismatch u64 u64

record run =
  ru_id :: string
  ru_node :: string
  ru_start :: start_run
  ru_events :: "run_event list"
  ru_last_idx :: u64
  ru_output :: string
  ru_finished :: bool
  ru_result :: "(run_result \<times> string) option"
  ru_err :: "run_error option"

definition new_run :: "string \<Rightarrow> string \<Rightarrow> start_run \<Rightarrow> run" where
  "new_run rid nid sr =
     \<lparr>ru_id = rid, ru_node = nid, ru_start = sr, ru_events = [], ru_last_idx = 0, ru_output = [],
      ru_finished = False, ru_result = None, ru_err = None\<rparr>"

text \<open>\<open>Next\<close> without its blocking: an event, the end of the stream, or nothing yet.\<close>

datatype next_event = NextEvent run_event | NextEOF | NextBlocked

definition run_next :: "run \<Rightarrow> next_event \<times> run" where
  "run_next r =
     (case ru_events r of
        ev # evs \<Rightarrow> (NextEvent ev, r\<lparr>ru_events := evs\<rparr>)
      | [] \<Rightarrow> if ru_finished r then (NextEOF, r) else (NextBlocked, r))"

definition add_event :: "run_event \<Rightarrow> run \<Rightarrow> run" where
  "add_event ev r =
     (if ru_finished r \<or> ev_index ev \<le> ru_last_idx r then r
      else r\<lparr>ru_last_idx := ev_index ev, ru_events := ru_events r @ [ev]\<rparr>)"

definition out_len :: "run \<Rightarrow> u64" where
  "out_len r = of_nat (length (ru_output r))"

definition add_chunk :: "output_chunk \<Rightarrow> run \<Rightarrow> run_error + run" where
  "add_chunk c r =
     (let hv = out_len r in
      if oc_offset c > hv then Inl (RunOutputGap (oc_offset c) hv)
      else if oc_offset c + of_nat (length (oc_data c)) \<le> hv then Inr r
      else Inr (r\<lparr>ru_output := ru_output r @ drop (unat (hv - oc_offset c)) (oc_data c)\<rparr>))"

definition finish_run :: "run_result option \<Rightarrow> run_error option \<Rightarrow> run \<Rightarrow> run" where
  "finish_run res err r =
     (if ru_finished r then r
      else r\<lparr>ru_finished := True,
             ru_result := (case res of Some x \<Rightarrow> Some (x, ru_output r) | None \<Rightarrow> ru_result r),
             ru_err := err\<rparr>)"

section \<open>Finalized run ids (hub.go, store.go)\<close>

text \<open>The \<open>FinalizedStore\<close> interface; \<open>None\<close> is an error of the store.\<close>

record 's store_ops =
  so_mark :: "'s \<Rightarrow> string \<Rightarrow> 's \<times> bool option"
  so_is :: "'s \<Rightarrow> string \<Rightarrow> bool option"

definition mem_mark :: "string list \<Rightarrow> string \<Rightarrow> string list \<times> bool option" where
  "mem_mark seen rid = (if rid \<in> set seen then (seen, Some False) else (rid # seen, Some True))"

definition mem_is :: "string list \<Rightarrow> string \<Rightarrow> bool option" where
  "mem_is seen rid = Some (rid \<in> set seen)"

definition memory_store :: "string list store_ops" where
  "memory_store = \<lparr>so_mark = mem_mark, so_is = mem_is\<rparr>"

text \<open>
  The database repository (\<open>finalized_run.go\<close>): a table with the run id as primary key; \<open>db_up\<close>
  says whether a statement reaches the database. An insert that conflicts does nothing.
\<close>

record finalized_db =
  db_up :: bool
  db_rows :: "string list"

definition db_mark :: "finalized_db \<Rightarrow> string \<Rightarrow> finalized_db \<times> bool option" where
  "db_mark d rid =
     (if \<not> db_up d then (d, None)
      else if rid \<in> set (db_rows d) then (d, Some False)
      else (d\<lparr>db_rows := rid # db_rows d\<rparr>, Some True))"

definition db_is :: "finalized_db \<Rightarrow> string \<Rightarrow> bool option" where
  "db_is d rid = (if db_up d then Some (length (filter (\<lambda>x. x = rid) (db_rows d)) > 0) else None)"

definition db_store :: "finalized_db store_ops" where
  "db_store = \<lparr>so_mark = db_mark, so_is = db_is\<rparr>"

section \<open>Nodes (node.go)\<close>

record node =
  nd_id :: string
  nd_online :: bool
  nd_gen :: u64
  nd_version :: string
  nd_protocol :: u32
  nd_boot :: string
  nd_max_runs :: u32
  nd_clis :: "(string \<times> string list) list"
  nd_quotas :: "string list"
  nd_health :: string
  nd_conn :: "nat option"
  nd_next :: u64
  nd_queue :: "backend_msg list"
  nd_high :: u64

definition empty_node :: "string \<Rightarrow> node" where
  "empty_node i =
     \<lparr>nd_id = i, nd_online = False, nd_gen = 0, nd_version = [], nd_protocol = 0, nd_boot = [],
      nd_max_runs = 0, nd_clis = [], nd_quotas = [], nd_health = [], nd_conn = None, nd_next = 0,
      nd_queue = [], nd_high = 0\<rparr>"

definition node_enqueue :: "backend_payload \<Rightarrow> node \<Rightarrow> node" where
  "node_enqueue p n =
     n\<lparr>nd_next := nd_next n + 1,
       nd_queue := nd_queue n @ [\<lparr>bm_seq = nd_next n + 1, bm_payload = p\<rparr>]\<rparr>"

definition node_trim :: "u64 \<Rightarrow> node \<Rightarrow> node" where
  "node_trim acked n = n\<lparr>nd_queue := dropWhile (\<lambda>m. bm_seq m \<le> acked) (nd_queue n)\<rparr>"

definition queued_start_runs :: "node \<Rightarrow> string list" where
  "queued_start_runs n = List.map_filter
     (\<lambda>m. case bm_payload m of BmStartRun sr \<Rightarrow> Some (sr_run sr) | _ \<Rightarrow> None) (nd_queue n)"

definition queued_cancels :: "node \<Rightarrow> string list" where
  "queued_cancels n = List.map_filter
     (\<lambda>m. case bm_payload m of BmCancelRun r \<Rightarrow> Some r | _ \<Rightarrow> None) (nd_queue n)"

section \<open>The hub\<close>

text \<open>\<open>ack_dirty\<close> and \<open>ack_seq\<close> of a connection.\<close>

record conn =
  cn_node :: string
  cn_ack_dirty :: bool
  cn_ack_seq :: u64

record 's hub =
  h_boot :: string
  h_closed :: bool
  h_store :: 's
  h_nodes :: "(string \<times> node) list"
  h_runs :: "(string \<times> nat) list"
  h_heap :: "run list"
  h_conns :: "(nat \<times> conn) list"

definition new_hub :: "string \<Rightarrow> 's \<Rightarrow> 's hub" where
  "new_hub boot st0 =
     \<lparr>h_boot = boot, h_closed = False, h_store = st0, h_nodes = [], h_runs = [], h_heap = [],
      h_conns = []\<rparr>"

definition node_of :: "'s hub \<Rightarrow> string \<Rightarrow> node option" where
  "node_of h i = map_of (h_nodes h) i"

definition put_node :: "node \<Rightarrow> 's hub \<Rightarrow> 's hub" where
  "put_node n h = h\<lparr>h_nodes := AList.update (nd_id n) n (h_nodes h)\<rparr>"

definition node_locked :: "'s hub \<Rightarrow> string \<Rightarrow> node" where
  "node_locked h i = (case node_of h i of Some n \<Rightarrow> n | None \<Rightarrow> empty_node i)"

definition update_run :: "nat \<Rightarrow> (run \<Rightarrow> run) \<Rightarrow> 's hub \<Rightarrow> 's hub" where
  "update_run a f h = h\<lparr>h_heap := list_update (h_heap h) a (f (h_heap h ! a))\<rparr>"

definition drop_run :: "string \<Rightarrow> 's hub \<Rightarrow> 's hub" where
  "drop_run rid h = h\<lparr>h_runs := AList.delete rid (h_runs h)\<rparr>"

text \<open>
  A session whose handshake named an allowed node: it joins the connections unless the hub is
  closed (\<open>handleConn\<close> after the TLS handshake, \<open>serveSession\<close>).
\<close>

definition hub_accept :: "(string \<Rightarrow> bool) \<Rightarrow> nat \<Rightarrow> string \<Rightarrow> 's hub \<Rightarrow> bool \<times> 's hub" where
  "hub_accept allowed c nid h =
     (if \<not> allowed nid \<or> h_closed h then (False, h)
      else (True, h\<lparr>h_conns := AList.update c
              \<lparr>cn_node = nid, cn_ack_dirty = False, cn_ack_seq = 0\<rparr> (h_conns h)\<rparr>))"

text \<open>\<open>Stop\<close>: the hub closes and every pending run fails.\<close>

definition hub_stop :: "'s hub \<Rightarrow> 's hub" where
  "hub_stop h =
     (if h_closed h then h
      else (fold (\<lambda>(rid, a). update_run a (finish_run None (Some RunHubClosed))) (h_runs h) h)
             \<lparr>h_closed := True, h_runs := []\<rparr>)"

definition hub_detach :: "nat \<Rightarrow> string \<Rightarrow> 's hub \<Rightarrow> 's hub" where
  "hub_detach c nid h =
     (let h1 = h\<lparr>h_conns := AList.delete c (h_conns h)\<rparr> in
      case node_of h1 nid of
        Some n \<Rightarrow> if nd_conn n = Some c then put_node (n\<lparr>nd_conn := None, nd_online := False\<rparr>) h1 else h1
      | None \<Rightarrow> h1)"

text \<open>\<open>RefreshAllowed\<close>: the connections to close.\<close>

definition refresh_allowed :: "(string \<Rightarrow> bool) \<Rightarrow> 's hub \<Rightarrow> nat list" where
  "refresh_allowed allowed h = map fst (filter (\<lambda>(c, k). \<not> allowed (cn_node k)) (h_conns h))"

section \<open>Dispatching and cancelling (hub.go)\<close>

datatype hub_error =
    ErrRunnerOffline | ErrHubClosed | ErrUnknownRun | ErrDuplicateRun | ErrTooLarge
  | ErrAlreadyFinalized | ErrEmptyRunId | ErrStore

definition max_prompt_size :: nat where "max_prompt_size = 4 * 2 ^ 20"
definition max_control_message_size :: nat where "max_control_message_size = 12 * 2 ^ 20"

text \<open>\<open>sr_size\<close> is \<open>proto.Size\<close> of the message, a function of the protobuf library.\<close>

definition dispatch_check ::
  "'s store_ops \<Rightarrow> (start_run \<Rightarrow> nat) \<Rightarrow> 's hub \<Rightarrow> start_run \<Rightarrow> hub_error option" where
  "dispatch_check st sr_size h sr =
     (if sr_run sr = [] then Some ErrEmptyRunId
      else if length (sr_prompt sr) > max_prompt_size \<or> sr_size sr > max_control_message_size
        then Some ErrTooLarge
      else (case so_is st (h_store h) (sr_run sr) of
              None \<Rightarrow> Some ErrStore
            | Some True \<Rightarrow> Some ErrAlreadyFinalized
            | Some False \<Rightarrow> None))"

definition dispatch_locked ::
  "(string \<Rightarrow> bool) \<Rightarrow> 's hub \<Rightarrow> string \<Rightarrow> start_run \<Rightarrow> (hub_error + nat) \<times> 's hub" where
  "dispatch_locked allowed h nid sr =
     (if h_closed h then (Inl ErrHubClosed, h)
      else (case node_of h nid of
        None \<Rightarrow> (Inl ErrRunnerOffline, h)
      | Some n \<Rightarrow>
          if \<not> nd_online n \<or> \<not> allowed nid then (Inl ErrRunnerOffline, h)
          else if map_of (h_runs h) (sr_run sr) \<noteq> None then (Inl ErrDuplicateRun, h)
          else
            let a = length (h_heap h) in
            (Inr a, put_node (node_enqueue (BmStartRun sr) n)
               (h\<lparr>h_heap := h_heap h @ [new_run (sr_run sr) nid sr],
                  h_runs := AList.update (sr_run sr) a (h_runs h)\<rparr>))))"

definition dispatch ::
  "'s store_ops \<Rightarrow> (start_run \<Rightarrow> nat) \<Rightarrow> (string \<Rightarrow> bool) \<Rightarrow> 's hub \<Rightarrow> string \<Rightarrow> start_run
   \<Rightarrow> (hub_error + nat) \<times> 's hub" where
  "dispatch st sr_size allowed h nid sr =
     (case dispatch_check st sr_size h sr of
        Some e \<Rightarrow> (Inl e, h) | None \<Rightarrow> dispatch_locked allowed h nid sr)"

definition hub_cancel :: "(string \<Rightarrow> bool) \<Rightarrow> 's hub \<Rightarrow> string \<Rightarrow> string \<Rightarrow> hub_error option \<times> 's hub" where
  "hub_cancel allowed h nid rid =
     (case (node_of h nid, map_of (h_runs h) rid) of
        (Some n, Some a) \<Rightarrow>
          if ru_node (h_heap h ! a) \<noteq> nid \<or> \<not> allowed nid then (Some ErrUnknownRun, h)
          else (None, put_node (node_enqueue (BmCancelRun rid) n) h)
      | _ \<Rightarrow> (Some ErrUnknownRun, h))"

text \<open>The identity a callback may rely on: the tracked run, if it executes on the caller.\<close>

record run_info =
  ri_run :: string
  ri_node :: string
  ri_chat :: string
  ri_agent :: string
  ri_wf_node :: string
  ri_token :: string
  ri_attempt :: u32
  ri_user :: string

definition active_run :: "'s hub \<Rightarrow> string \<Rightarrow> string \<Rightarrow> run_info option" where
  "active_run h rid nid =
     (case map_of (h_runs h) rid of
        None \<Rightarrow> None
      | Some a \<Rightarrow>
          let r = h_heap h ! a; sr = ru_start r in
          if ru_node r \<noteq> nid then None
          else Some \<lparr>ri_run = ru_id r, ri_node = ru_node r, ri_chat = sr_chat sr,
                     ri_agent = sr_agent sr, ri_wf_node = sr_wf_node sr, ri_token = sr_token sr,
                     ri_attempt = sr_attempt sr, ri_user = sr_user sr\<rparr>)"

text \<open>\<open>Client\<close>: the connection whose \<open>RunnerService\<close> client is returned.\<close>

definition hub_client :: "(string \<Rightarrow> bool) \<Rightarrow> 's hub \<Rightarrow> string \<Rightarrow> hub_error + nat" where
  "hub_client allowed h nid =
     (case node_of h nid of
        None \<Rightarrow> Inl ErrRunnerOffline
      | Some n \<Rightarrow> (case nd_conn n of
            None \<Rightarrow> Inl ErrRunnerOffline
          | Some c \<Rightarrow> if \<not> nd_online n \<or> \<not> allowed nid then Inl ErrRunnerOffline else Inr c))"

record node_info =
  ni_node :: string
  ni_online :: bool
  ni_gen :: u64
  ni_version :: string
  ni_protocol :: u32
  ni_boot :: string
  ni_active :: nat
  ni_max_runs :: u32
  ni_clis :: "(string \<times> string list) list"
  ni_quotas :: "string list"

definition node_snapshot :: "(string \<Rightarrow> bool) \<Rightarrow> 's hub \<Rightarrow> string \<times> node \<Rightarrow> node_info" where
  "node_snapshot allowed h e =
     (let n = snd e in
      \<lparr>ni_node = fst e, ni_online = (nd_online n \<and> allowed (fst e)), ni_gen = nd_gen n,
       ni_version = nd_version n, ni_protocol = nd_protocol n, ni_boot = nd_boot n,
       ni_active = length (filter (\<lambda>(r, a). ru_node (h_heap h ! a) = fst e) (h_runs h)),
       ni_max_runs = nd_max_runs n, ni_clis = nd_clis n, ni_quotas = nd_quotas n\<rparr>)"

definition unseen_info :: "string \<Rightarrow> node_info" where
  "unseen_info i =
     \<lparr>ni_node = i, ni_online = False, ni_gen = 0, ni_version = [], ni_protocol = 0, ni_boot = [],
      ni_active = 0, ni_max_runs = 0, ni_clis = [], ni_quotas = []\<rparr>"

text \<open>\<open>Nodes\<close>: every registered node and every other allowed id, sorted; \<open>allowed\<close> is the list
  \<open>AllowedNodes\<close> returns.\<close>

definition hub_snapshot :: "string list \<Rightarrow> 's hub \<Rightarrow> node_info list" where
  "hub_snapshot allowed h =
     sort_key ni_node
       (map (node_snapshot (\<lambda>i. i \<in> set allowed) h) (h_nodes h) @
        map unseen_info (remdups (filter (\<lambda>i. i \<notin> set (map fst (h_nodes h))) allowed)))"

section \<open>Registration (connection.go)\<close>

definition register_reject :: "'s hub \<Rightarrow> u32 \<Rightarrow> reject_reason \<Rightarrow> register_result" where
  "register_reject h proto why =
     \<lparr>rs_accepted = False, rs_reason = Some why, rs_protocol = proto, rs_last_acked = 0,
      rs_boot = h_boot h\<rparr>"

text \<open>The runs the runner reports as active that are finalized, or might be.\<close>

definition finalized_refs :: "'s store_ops \<Rightarrow> 's hub \<Rightarrow> run_ref list \<Rightarrow> string list" where
  "finalized_refs st h refs =
     map ref_run (filter (\<lambda>r. so_is st (h_store h) (ref_run r) \<noteq> Some False) refs)"

definition rebind_node :: "'s hub \<Rightarrow> nat \<Rightarrow> register \<Rightarrow> node \<Rightarrow> node" where
  "rebind_node h c reg n =
     (let n1 = (if nd_boot n \<noteq> rg_boot reg then n\<lparr>nd_queue := [], nd_high := 0\<rparr>
                else if rg_seen_backend_boot reg = h_boot h then node_trim (rg_last_acked reg) n
                else n)
      in n1\<lparr>nd_boot := rg_boot reg, nd_version := rg_version reg, nd_protocol := rg_protocol reg,
            nd_clis := rg_clis reg, nd_online := True, nd_gen := nd_gen n1 + 1, nd_conn := Some c\<rparr>)"

definition known_runs :: "register \<Rightarrow> node \<Rightarrow> string list" where
  "known_runs reg n = map ref_run (rg_active reg) @ map ref_run (rg_completed reg) @ queued_start_runs n"

definition lost_entry :: "'s hub \<Rightarrow> string \<Rightarrow> string list \<Rightarrow> string \<times> nat \<Rightarrow> bool" where
  "lost_entry h nid known e \<longleftrightarrow> ru_node (h_heap h ! snd e) = nid \<and> fst e \<notin> set known"

definition lose_runs :: "string \<Rightarrow> string list \<Rightarrow> 's hub \<Rightarrow> 's hub" where
  "lose_runs nid known h =
     (fold (\<lambda>(rid, a). update_run a (finish_run None (Some RunLost)))
        (filter (lost_entry h nid known) (h_runs h)) h)
       \<lparr>h_runs := filter (\<lambda>e. \<not> lost_entry h nid known e) (h_runs h)\<rparr>"

text \<open>Untracked runs the runner still executes are cancelled, once each.\<close>

fun cancel_untracked :: "string list \<Rightarrow> string list \<Rightarrow> string list \<Rightarrow> run_ref list \<Rightarrow> node \<Rightarrow> node" where
  "cancel_untracked tracked fin queued [] n = n"
| "cancel_untracked tracked fin queued (r # rs) n =
     (let i = ref_run r in
      if i \<in> set tracked \<or> i \<in> set fin \<or> i \<in> set queued \<or> i = [] then
        cancel_untracked tracked fin queued rs n
      else cancel_untracked tracked fin (i # queued) rs (node_enqueue (BmCancelRun i) n))"

text \<open>
  The part of \<open>register\<close> under the mutex; \<open>fin\<close> is the set of finalized runs it looked up before.
\<close>

definition register_locked ::
  "u32 \<Rightarrow> nat \<Rightarrow> string \<Rightarrow> register \<Rightarrow> string list \<Rightarrow> 's hub \<Rightarrow> register_result \<times> 's hub" where
  "register_locked proto c nid reg fin h =
     (let n1 = rebind_node h c reg (node_locked h nid);
          h1 = lose_runs nid (known_runs reg n1) h;
          n2 = cancel_untracked (map fst (h_runs h1)) fin (queued_cancels n1) (rg_active reg) n1
      in (\<lparr>rs_accepted = True, rs_reason = None, rs_protocol = proto,
           rs_last_acked = nd_high n2, rs_boot = h_boot h\<rparr>,
          put_node n2 h1))"

definition hub_register ::
  "'s store_ops \<Rightarrow> u32 \<Rightarrow> (string \<Rightarrow> bool) \<Rightarrow> nat \<Rightarrow> string \<Rightarrow> register \<Rightarrow> 's hub
   \<Rightarrow> register_result \<times> 's hub" where
  "hub_register st proto allowed c nid reg h =
     (if rg_node reg \<noteq> nid then (register_reject h proto RejectCN, h)
      else if rg_protocol reg \<noteq> proto then (register_reject h proto RejectProtocol, h)
      else if \<not> allowed nid then (register_reject h proto RejectNotAllowed, h)
      else register_locked proto c nid reg (finalized_refs st h (rg_active reg)) h)"

section \<open>Upstream messages (connection.go)\<close>

datatype upstream_error = UpSuperseded | UpUnsequenced | UpStore | UpUnexpected

definition run_for :: "'s hub \<Rightarrow> string \<Rightarrow> string \<Rightarrow> nat option" where
  "run_for h nid rid =
     (case map_of (h_runs h) rid of
        None \<Rightarrow> None | Some a \<Rightarrow> if ru_node (h_heap h ! a) = nid then Some a else None)"

definition fail_run :: "nat \<Rightarrow> run_error \<Rightarrow> 's hub \<Rightarrow> 's hub" where
  "fail_run a e h =
     (let rid = ru_id (h_heap h ! a);
          h1 = (if map_of (h_runs h) rid = Some a then drop_run rid h else h)
      in update_run a (finish_run None (Some e)) h1)"

text \<open>The delivery at the end of \<open>applyResult\<close>, once the id is persisted.\<close>

definition deliver_result :: "nat \<Rightarrow> run_result \<Rightarrow> 's hub \<Rightarrow> 's hub" where
  "deliver_result a res h =
     (let rid = ru_id (h_heap h ! a);
          h1 = (if map_of (h_runs h) rid = Some a then drop_run rid h else h);
          got = out_len (h_heap h1 ! a)
      in if got \<noteq> rr_output_size res then
           update_run a (finish_run None (Some (RunSizeMismatch got (rr_output_size res)))) h1
         else update_run a (finish_run (Some res) None) h1)"

definition apply_result ::
  "'s store_ops \<Rightarrow> string \<Rightarrow> run_result \<Rightarrow> 's hub \<Rightarrow> upstream_error option \<times> 's hub" where
  "apply_result st nid res h =
     (let r = map_of (h_runs h) (rr_run res) in
      if (case r of Some a \<Rightarrow> ru_node (h_heap h ! a) \<noteq> nid | None \<Rightarrow> False) then (None, h)
      else (case so_mark st (h_store h) (rr_run res) of
        (s', None) \<Rightarrow> (Some UpStore, h\<lparr>h_store := s'\<rparr>)
      | (s', Some fresh) \<Rightarrow>
          (None, case r of None \<Rightarrow> h\<lparr>h_store := s'\<rparr>
                 | Some a \<Rightarrow> deliver_result a res (h\<lparr>h_store := s'\<rparr>))))"

definition apply_msg ::
  "'s store_ops \<Rightarrow> string \<Rightarrow> runner_payload \<Rightarrow> 's hub \<Rightarrow> upstream_error option \<times> 's hub" where
  "apply_msg st nid p h =
     (case p of
        RmHeartbeat hb \<Rightarrow>
          (None, case node_of h nid of
             Some n \<Rightarrow> put_node (n\<lparr>nd_quotas := hb_quotas hb, nd_max_runs := hb_max_runs hb,
                                   nd_health := hb_health_error hb\<rparr>) h
           | None \<Rightarrow> h)
      | RmRunEvent ev \<Rightarrow>
          (None, case run_for h nid (ev_run ev) of
             Some a \<Rightarrow> update_run a (add_event ev) h | None \<Rightarrow> h)
      | RmRunOutput c \<Rightarrow>
          (None, case run_for h nid (oc_run c) of
             Some a \<Rightarrow> (case add_chunk c (h_heap h ! a) of
                 Inl e \<Rightarrow> fail_run a e h | Inr r' \<Rightarrow> update_run a (\<lambda>_. r') h)
           | None \<Rightarrow> h)
      | RmRunResult res \<Rightarrow> apply_result st nid res h
      | _ \<Rightarrow> (Some UpUnexpected, h))"

text \<open>The three sections of \<open>handleUpstream\<close>: check, apply, record.\<close>

datatype upstream_check = CheckError upstream_error | CheckAck u64 | CheckMessage bool

definition upstream_begin :: "nat \<Rightarrow> string \<Rightarrow> runner_msg \<Rightarrow> 's hub \<Rightarrow> upstream_check \<times> 's hub" where
  "upstream_begin c nid m h =
     (case node_of h nid of
        None \<Rightarrow> (CheckError UpSuperseded, h)
      | Some n \<Rightarrow>
          if nd_conn n \<noteq> Some c then (CheckError UpSuperseded, h)
          else (case rm_payload m of
            RmAck a \<Rightarrow> (CheckAck a, put_node (node_trim a n) h)
          | RmRegister _ \<Rightarrow> (CheckError UpUnsequenced, h)
          | _ \<Rightarrow> if rm_seq m = 0 then (CheckError UpUnsequenced, h)
                 else (CheckMessage (rm_seq m \<le> nd_high n), h)))"

definition upstream_commit :: "nat \<Rightarrow> string \<Rightarrow> runner_msg \<Rightarrow> bool \<Rightarrow> 's hub \<Rightarrow> 's hub" where
  "upstream_commit c nid m dup h =
     (case node_of h nid of
        None \<Rightarrow> h
      | Some n \<Rightarrow>
          let n' = (if \<not> dup \<and> nd_conn n = Some c then n\<lparr>nd_high := rm_seq m\<rparr> else n);
              h1 = put_node n' h
          in (case map_of (h_conns h1) c of
                None \<Rightarrow> h1
              | Some k \<Rightarrow> h1\<lparr>h_conns := AList.update c
                    (k\<lparr>cn_ack_seq := nd_high n', cn_ack_dirty := True\<rparr>) (h_conns h1)\<rparr>))"

definition handle_upstream ::
  "'s store_ops \<Rightarrow> nat \<Rightarrow> string \<Rightarrow> runner_msg \<Rightarrow> 's hub \<Rightarrow> upstream_error option \<times> 's hub" where
  "handle_upstream st c nid m h =
     (case upstream_begin c nid m h of
        (CheckError e, h1) \<Rightarrow> (Some e, h1)
      | (CheckAck a, h1) \<Rightarrow> (None, h1)
      | (CheckMessage dup, h1) \<Rightarrow>
          if dup then (None, upstream_commit c nid m True h1)
          else (case apply_msg st nid (rm_payload m) h1 of
                  (Some e, h2) \<Rightarrow> (Some e, h2)
                | (None, h2) \<Rightarrow> (None, upstream_commit c nid m False h2)))"

text \<open>
  One round of the connection's writer, which has sent everything up to \<open>sent\<close>: the queued
  messages to send, an acknowledgement if one is due; \<open>None\<close> when the connection is superseded.
\<close>

definition conn_write ::
  "nat \<Rightarrow> string \<Rightarrow> u64 \<Rightarrow> 's hub \<Rightarrow> (backend_msg list \<times> u64) option \<times> 's hub" where
  "conn_write c nid sent h =
     (case (node_of h nid, map_of (h_conns h) c) of
        (Some n, Some k) \<Rightarrow>
          if nd_conn n \<noteq> Some c then (None, h)
          else
            let out = filter (\<lambda>m. bm_seq m > sent) (nd_queue n);
                acks = (if cn_ack_dirty k then [\<lparr>bm_seq = 0, bm_payload = BmAck (cn_ack_seq k)\<rparr>] else [])
            in (Some (out @ acks, if out = [] then sent else bm_seq (last out)),
                h\<lparr>h_conns := AList.update c (k\<lparr>cn_ack_dirty := False\<rparr>) (h_conns h)\<rparr>)
      | _ \<Rightarrow> (None, h))"

section \<open>Bounded texts\<close>

text \<open>
  \<open>truncateAt\<close>: at most \<open>max\<close> bytes, never cutting inside a UTF-8 sequence. A byte starts a
  rune unless it is a continuation byte.
\<close>

definition rune_start :: "char \<Rightarrow> bool" where
  "rune_start b \<longleftrightarrow> \<not> (128 \<le> (of_char b :: nat) \<and> (of_char b :: nat) < 192)"

fun back_to_start :: "string \<Rightarrow> nat \<Rightarrow> nat" where
  "back_to_start s 0 = 0"
| "back_to_start s (Suc m) = (if rune_start (s ! Suc m) then Suc m else back_to_start s m)"

definition truncate_at :: "string \<Rightarrow> nat \<Rightarrow> string \<times> bool" where
  "truncate_at s limit =
     (if length s \<le> limit then (s, False) else (take (back_to_start s limit) s, True))"

end
