(* ===== verification/RunnerHubInv.thy ===== *)
theory RunnerHubInv
  imports RunnerHub
begin

text \<open>
  The representation invariant of the hub and its preservation by every operation: tracked runs
  are live handles listed under their own id, every node's outbound queue is numbered
  consecutively from its counter, and no tracked run is finished.
\<close>

section \<open>The contracts of the node queue and of the stores\<close>

interpretation hubq: outbox nd_queue nd_next bm_seq "\<lambda>p s. \<lparr>bm_seq = s, bm_payload = p\<rparr>"
    node_enqueue node_trim
  by unfold_locales (simp_all add: node_enqueue_def node_trim_def)

text \<open>What the hub relies on: the store is a set of ids that only marking extends.\<close>

locale finalized_store =
  fixes st :: "'s store_ops" and fin :: "'s \<Rightarrow> string set"
  assumes mark_fresh: "so_mark st s r = (s', Some True) \<Longrightarrow> r \<notin> fin s \<and> fin s' = insert r (fin s)"
    and mark_again: "so_mark st s r = (s', Some False) \<Longrightarrow> r \<in> fin s \<and> s' = s"
    and mark_error: "so_mark st s r = (s', None) \<Longrightarrow> fin s' = fin s"
    and is_sound: "so_is st s r = Some b \<Longrightarrow> b \<longleftrightarrow> r \<in> fin s"
begin

lemma mark_cases:
  assumes "so_mark st s r = (s', res)"
  shows "res = None \<and> fin s' = fin s \<or> res = Some False \<and> r \<in> fin s \<and> fin s' = fin s
       \<or> res = Some True \<and> r \<notin> fin s \<and> fin s' = insert r (fin s)"
proof (cases res)
  case None
  with assms mark_error show ?thesis by simp
next
  case (Some b)
  with assms mark_fresh [of s r s'] mark_again [of s r s'] show ?thesis by (cases b) auto
qed

lemma mark_mono: "so_mark st s r = (s', res) \<Longrightarrow> fin s \<subseteq> fin s'"
  using mark_cases by fastforce

lemma mark_done: "so_mark st s r = (s', Some b) \<Longrightarrow> r \<in> fin s'"
  using mark_cases by fastforce

lemma mark_other: "so_mark st s r = (s', res) \<Longrightarrow> r' \<noteq> r \<Longrightarrow> r' \<in> fin s' \<longleftrightarrow> r' \<in> fin s"
  using mark_cases by fastforce

end

interpretation mem: finalized_store memory_store set
  by unfold_locales (auto simp: memory_store_def mem_mark_def mem_is_def split: if_splits)

interpretation db: finalized_store db_store "\<lambda>d. set (db_rows d)"
  by unfold_locales (auto simp: db_store_def db_mark_def db_is_def filter_empty_conv split: if_splits)

section \<open>The invariant\<close>

text \<open>Only dispatches and cancellations are queued for a runner.\<close>

definition plain_down :: "backend_payload \<Rightarrow> bool" where
  "plain_down p = (case p of BmStartRun _ \<Rightarrow> True | BmCancelRun _ \<Rightarrow> True | _ \<Rightarrow> False)"

definition queue_good :: "node \<Rightarrow> bool" where
  "queue_good n \<longleftrightarrow> hubq.queue_ok n \<and> (\<forall>m \<in> set (nd_queue n). plain_down (bm_payload m))"

lemma plain_down_simps [simp]: "plain_down (BmStartRun sr)" "plain_down (BmCancelRun r)"
  by (simp_all add: plain_down_def)

lemma queue_good_trim: "queue_good n \<Longrightarrow> queue_good (node_trim a n)"
  using hubq.queue_ok_trim [of n a] by (auto simp: queue_good_def hubq.trim_msgs dest: set_dropWhileD)

definition node_ok :: "string \<times> node \<Rightarrow> bool" where
  "node_ok e \<longleftrightarrow> nd_id (snd e) = fst e \<and> queue_good (snd e)"

definition run_ok :: "run list \<Rightarrow> string \<times> nat \<Rightarrow> bool" where
  "run_ok hp e \<longleftrightarrow> snd e < length hp \<and> ru_id (hp ! snd e) = fst e \<and> \<not> ru_finished (hp ! snd e)"

definition hub_wf :: "'s hub \<Rightarrow> bool" where
  "hub_wf h \<longleftrightarrow> alist_wf (h_runs h) \<and> alist_wf (h_nodes h) \<and> alist_wf (h_conns h)
     \<and> (\<forall>e \<in> set (h_nodes h). node_ok e) \<and> (\<forall>e \<in> set (h_runs h). run_ok (h_heap h) e)
     \<and> (h_closed h \<longrightarrow> h_runs h = [])"

lemma hub_wf_iff:
  "hub_wf h \<longleftrightarrow> alist_wf (h_runs h) \<and> alist_wf (h_nodes h) \<and> alist_wf (h_conns h)
     \<and> (\<forall>i n. node_of h i = Some n \<longrightarrow> nd_id n = i \<and> queue_good n)
     \<and> (\<forall>r a. map_of (h_runs h) r = Some a \<longrightarrow>
            a < length (h_heap h) \<and> ru_id (h_heap h ! a) = r \<and> \<not> ru_finished (h_heap h ! a))
     \<and> (h_closed h \<longrightarrow> h_runs h = [])"
  unfolding hub_wf_def
  by (simp add: alist_all_iff node_ok_def run_ok_def node_of_def cong: conj_cong)

lemma hub_wfD:
  assumes "hub_wf h"
  shows "alist_wf (h_runs h)" "alist_wf (h_nodes h)" "alist_wf (h_conns h)"
    and "node_of h i = Some n \<Longrightarrow> nd_id n = i \<and> queue_good n"
    and "map_of (h_runs h) r = Some a \<Longrightarrow> a < length (h_heap h)"
    and "map_of (h_runs h) r = Some a \<Longrightarrow> ru_id (h_heap h ! a) = r"
    and "map_of (h_runs h) r = Some a \<Longrightarrow> \<not> ru_finished (h_heap h ! a)"
    and "h_closed h \<Longrightarrow> h_runs h = []"
  using assms by (auto simp: hub_wf_iff)

text \<open>Two ids never share a handle.\<close>

lemma runs_inj:
  assumes "hub_wf h" "map_of (h_runs h) r = Some a" "map_of (h_runs h) r' = Some a"
  shows "r = r'"
  using hub_wfD(6) [OF assms(1,2)] hub_wfD(6) [OF assms(1,3)] by simp

lemma queue_ok_empty: "nd_queue n = [] \<Longrightarrow> queue_good n"
  by (simp add: queue_good_def hubq.queue_ok_def)

lemma node_locked_ok: "hub_wf h \<Longrightarrow> nd_id (node_locked h i) = i \<and> queue_good (node_locked h i)"
  using hub_wfD(4) by (auto simp: node_locked_def empty_node_def queue_ok_empty split: option.splits)

section \<open>Reading a changed hub\<close>

lemma put_node_sel [simp]:
  "h_boot (put_node n h) = h_boot h" "h_closed (put_node n h) = h_closed h"
  "h_store (put_node n h) = h_store h" "h_runs (put_node n h) = h_runs h"
  "h_heap (put_node n h) = h_heap h" "h_conns (put_node n h) = h_conns h"
  by (simp_all add: put_node_def)

lemma node_of_put [simp]: "node_of (put_node n h) i = (if i = nd_id n then Some n else node_of h i)"
  by (simp add: node_of_def put_node_def alist_simps)

lemma update_run_sel [simp]:
  "h_boot (update_run a f h) = h_boot h" "h_closed (update_run a f h) = h_closed h"
  "h_store (update_run a f h) = h_store h" "h_runs (update_run a f h) = h_runs h"
  "h_nodes (update_run a f h) = h_nodes h" "h_conns (update_run a f h) = h_conns h"
  "length (h_heap (update_run a f h)) = length (h_heap h)"
  by (simp_all add: update_run_def)

lemma update_run_heap:
  "b < length (h_heap h) \<Longrightarrow>
   h_heap (update_run a f h) ! b = (if b = a then f (h_heap h ! b) else h_heap h ! b)"
  by (simp add: update_run_def nth_list_update)

lemma drop_run_sel [simp]:
  "h_boot (drop_run r h) = h_boot h" "h_closed (drop_run r h) = h_closed h"
  "h_store (drop_run r h) = h_store h" "h_heap (drop_run r h) = h_heap h"
  "h_nodes (drop_run r h) = h_nodes h" "h_conns (drop_run r h) = h_conns h"
  by (simp_all add: drop_run_def)

lemma drop_run_runs [simp]:
  "map_of (h_runs (drop_run r h)) r' = (if r' = r then None else map_of (h_runs h) r')"
  by (simp add: drop_run_def alist_simps)

lemma node_of_sel [simp]:
  "node_of (update_run a f h) = node_of h" "node_of (drop_run r h) = node_of h"
  by (simp_all add: node_of_def fun_eq_iff)

lemma node_enqueue_id [simp]: "nd_id (node_enqueue p n) = nd_id n"
  by (simp add: node_enqueue_def)

lemma node_trim_id [simp]: "nd_id (node_trim a n) = nd_id n"
  by (simp add: node_trim_def)

section \<open>Preservation\<close>

lemma put_node_wf: "hub_wf h \<Longrightarrow> queue_good n \<Longrightarrow> hub_wf (put_node n h)"
  using alist_wf_update [of "h_nodes h" "nd_id n" n] by (auto simp: hub_wf_iff put_node_def [of n h]) (auto simp: put_node_def node_of_def alist_simps split: if_splits)

lemma conns_wf: "hub_wf h \<Longrightarrow> alist_wf cs \<Longrightarrow> hub_wf (h\<lparr>h_conns := cs\<rparr>)"
  by (simp add: hub_wf_iff node_of_def)

lemma store_wf: "hub_wf h \<Longrightarrow> hub_wf (h\<lparr>h_store := s\<rparr>)"
  by (simp add: hub_wf_iff node_of_def)

lemma update_run_wf:
  assumes "hub_wf h"
    and "\<And>r. map_of (h_runs h) r = Some a \<Longrightarrow>
           ru_id (f (h_heap h ! a)) = r \<and> \<not> ru_finished (f (h_heap h ! a))"
  shows "hub_wf (update_run a f h)"
  using assms by (auto simp: hub_wf_iff update_run_heap)

lemma update_same_wf:
  assumes "hub_wf h" "ru_id (f (h_heap h ! a)) = ru_id (h_heap h ! a)"
    "ru_finished (f (h_heap h ! a)) = ru_finished (h_heap h ! a)"
  shows "hub_wf (update_run a f h)"
  using assms hub_wfD(6,7) [OF assms(1)] by (intro update_run_wf) simp_all

lemma untracked_update_wf:
  "hub_wf h \<Longrightarrow> a \<notin> ran (map_of (h_runs h)) \<Longrightarrow> hub_wf (update_run a f h)"
  by (rule update_run_wf) (auto intro: ranI)

lemma drop_run_wf: "hub_wf h \<Longrightarrow> hub_wf (drop_run r h)"
  by (auto simp: hub_wf_iff) (auto simp: drop_run_def alist_wf_delete)

lemma dropped_untracked:
  assumes "hub_wf h" "map_of (h_runs h) r = Some a"
  shows "a \<notin> ran (map_of (h_runs (drop_run r h)))"
  using runs_inj [OF assms] by (auto simp: ran_def split: if_splits)

subsection \<open>Finishing several runs\<close>

definition finish_all :: "run_error \<Rightarrow> (string \<times> nat) list \<Rightarrow> 's hub \<Rightarrow> 's hub" where
  "finish_all e = fold (\<lambda>(rid, a). update_run a (finish_run None (Some e)))"

lemma finish_all_sel [simp]:
  "h_boot (finish_all e es h) = h_boot h" "h_closed (finish_all e es h) = h_closed h"
  "h_store (finish_all e es h) = h_store h" "h_runs (finish_all e es h) = h_runs h"
  "h_nodes (finish_all e es h) = h_nodes h" "h_conns (finish_all e es h) = h_conns h"
  "length (h_heap (finish_all e es h)) = length (h_heap h)"
  by (induction es arbitrary: h; force simp: finish_all_def)+

lemma finish_run_idem [simp]: "finish_run x y (finish_run x' y' r) = finish_run x' y' r"
  by (simp add: finish_run_def)

lemma finish_run_sel [simp]:
  "ru_id (finish_run x y r) = ru_id r" "ru_node (finish_run x y r) = ru_node r"
  "ru_start (finish_run x y r) = ru_start r" "ru_finished (finish_run x y r)"
  "ru_events (finish_run x y r) = ru_events r" "ru_output (finish_run x y r) = ru_output r"
  "ru_last_idx (finish_run x y r) = ru_last_idx r"
  by (simp_all add: finish_run_def)

lemma finish_all_heap:
  "b < length (h_heap h) \<Longrightarrow>
   h_heap (finish_all e es h) ! b =
     (if b \<in> snd ` set es then finish_run None (Some e) (h_heap h ! b) else h_heap h ! b)"
proof (induction es arbitrary: h)
  case Nil
  then show ?case by (simp add: finish_all_def)
next
  case (Cons x es)
  obtain r a where x: "x = (r, a)" by (cases x)
  have "finish_all e (x # es) h = finish_all e es (update_run a (finish_run None (Some e)) h)"
    by (simp add: finish_all_def x)
  with Cons show ?case by (auto simp: x update_run_heap)
qed

lemma lose_runs_alt:
  "lose_runs nid known h =
   (finish_all RunLost (filter (lost_entry h nid known) (h_runs h)) h)
     \<lparr>h_runs := filter (\<lambda>e. \<not> lost_entry h nid known e) (h_runs h)\<rparr>"
  by (simp add: lose_runs_def finish_all_def)

lemma hub_stop_alt:
  "hub_stop h = (if h_closed h then h
     else (finish_all RunHubClosed (h_runs h) h)\<lparr>h_closed := True, h_runs := []\<rparr>)"
  by (simp add: hub_stop_def finish_all_def)

lemma lose_runs_wf:
  assumes wf: "hub_wf h"
  shows "hub_wf (lose_runs nid known h)"
proof -
  let ?L = "filter (lost_entry h nid known) (h_runs h)"
  have mem: "map_of (h_runs h) r' = Some b" if "(r', b) \<in> set ?L" for r' b
    using that hub_wfD(1) [OF wf] by (simp add: alist_wf_def)
  have "b \<notin> snd ` set ?L" if "map_of (h_runs h) r = Some b" "\<not> lost_entry h nid known (r, b)" for r b
  proof
    assume "b \<in> snd ` set ?L"
    then obtain r' where r': "(r', b) \<in> set ?L" by auto
    then have "r' = r" using runs_inj [OF wf mem that(1)] by simp
    with r' that(2) show False by simp
  qed
  with wf show ?thesis
    by (auto simp: lose_runs_alt hub_wf_iff map_of_filter_wf alist_wf_filter finish_all_heap node_of_def
        split: option.splits if_splits)
qed

section \<open>Every operation keeps the invariant\<close>

lemma hub_stop_wf: "hub_wf h \<Longrightarrow> hub_wf (hub_stop h)"
  by (simp add: hub_stop_alt hub_wf_iff node_of_def)

lemma hub_accept_wf: "hub_wf h \<Longrightarrow> hub_wf (snd (hub_accept allowed c nid h))"
  by (simp add: hub_accept_def conns_wf alist_wf_update hub_wfD)

lemma queue_ok_upd [simp]:
  "queue_good (n\<lparr>nd_online := x0\<rparr>) = queue_good n"
  "queue_good (n\<lparr>nd_gen := x1\<rparr>) = queue_good n"
  "queue_good (n\<lparr>nd_version := x2\<rparr>) = queue_good n"
  "queue_good (n\<lparr>nd_protocol := x3\<rparr>) = queue_good n"
  "queue_good (n\<lparr>nd_boot := x4\<rparr>) = queue_good n"
  "queue_good (n\<lparr>nd_max_runs := x5\<rparr>) = queue_good n"
  "queue_good (n\<lparr>nd_clis := x6\<rparr>) = queue_good n"
  "queue_good (n\<lparr>nd_quotas := x7\<rparr>) = queue_good n"
  "queue_good (n\<lparr>nd_health := x8\<rparr>) = queue_good n"
  "queue_good (n\<lparr>nd_conn := x9\<rparr>) = queue_good n"
  "queue_good (n\<lparr>nd_high := x10\<rparr>) = queue_good n"
  by (simp_all add: queue_good_def hubq.queue_ok_def)

lemma node_ok_of: "hub_wf h \<Longrightarrow> node_of h i = Some n \<Longrightarrow> queue_good n"
  using hub_wfD(4) by blast

lemma hub_detach_wf:
  assumes "hub_wf h"
  shows "hub_wf (hub_detach c nid h)"
proof -
  have 1: "hub_wf (h\<lparr>h_conns := AList.delete c (h_conns h)\<rparr>)"
    using assms by (simp add: conns_wf alist_wf_delete hub_wfD)
  then show ?thesis
    unfolding hub_detach_def Let_def
    by (auto split: option.splits intro!: put_node_wf dest: node_ok_of [OF 1])
qed

text \<open>The room the 64-bit counter of a node has left.\<close>

definition has_room :: "nat \<Rightarrow> node \<Rightarrow> bool" where
  "has_room k n \<longleftrightarrow> unat (nd_next n) + k < 2 ^ 64"

lemma has_room_neq: "has_room k n \<Longrightarrow> 0 < k \<Longrightarrow> nd_next n \<noteq> - 1"
  by (auto simp: has_room_def unsigned_minus_1_eq_mask mask_eq_exp_minus_1)

lemma has_room_enqueue: "has_room (Suc k) n \<Longrightarrow> has_room k (node_enqueue p n)"
  using has_room_neq [of "Suc k" n] by (simp add: has_room_def node_enqueue_def unat_add_1)

lemma queue_ok_enqueue:
  "queue_good n \<Longrightarrow> has_room (Suc k) n \<Longrightarrow> plain_down p \<Longrightarrow> queue_good (node_enqueue p n)"
  using has_room_neq [of "Suc k" n] hubq.queue_ok_enq by (simp add: queue_good_def hubq.enq_msgs)

lemma new_run_sel [simp]:
  "ru_id (new_run r i sr) = r" "ru_node (new_run r i sr) = i" "ru_finished (new_run r i sr) = False"
  "ru_start (new_run r i sr) = sr" "ru_output (new_run r i sr) = []" "ru_events (new_run r i sr) = []"
  by (simp_all add: new_run_def)

lemma track_run_wf:
  assumes "hub_wf h" "\<not> h_closed h" "map_of (h_runs h) r = None"
  shows "hub_wf (h\<lparr>h_heap := h_heap h @ [new_run r nid sr],
                  h_runs := AList.update r (length (h_heap h)) (h_runs h)\<rparr>)"
  using assms by (auto simp: hub_wf_iff node_of_def alist_simps alist_wf_update nth_append less_Suc_eq)

lemma dispatch_locked_wf:
  assumes "hub_wf h" "\<And>n. node_of h nid = Some n \<Longrightarrow> has_room 1 n"
  shows "hub_wf (snd (dispatch_locked allowed h nid sr))"
  using assms hub_wfD(4) [OF assms(1), of nid]
  unfolding dispatch_locked_def Let_def
  by (auto split: option.splits intro!: put_node_wf track_run_wf queue_ok_enqueue [where k = 0])

lemma dispatch_wf:
  assumes "hub_wf h" "\<And>n. node_of h nid = Some n \<Longrightarrow> has_room 1 n"
  shows "hub_wf (snd (dispatch st sz allowed h nid sr))"
  using dispatch_locked_wf [OF assms] assms(1) by (simp add: dispatch_def split: option.splits)

lemma hub_cancel_wf:
  assumes "hub_wf h" "\<And>n. node_of h nid = Some n \<Longrightarrow> has_room 1 n"
  shows "hub_wf (snd (hub_cancel allowed h nid rid))"
  using assms hub_wfD(4) [OF assms(1), of nid]
  unfolding hub_cancel_def
  by (auto split: option.splits intro!: put_node_wf queue_ok_enqueue [where k = 0])

lemma cancel_untracked_ok:
  "queue_good n \<Longrightarrow> has_room (length refs) n \<Longrightarrow>
   queue_good (cancel_untracked tr fin q refs n) \<and> nd_id (cancel_untracked tr fin q refs n) = nd_id n"
proof (induction tr fin q refs n rule: cancel_untracked.induct)
  case (2 tr fin q r rs n)
  have "has_room (length rs) n"
    using 2(4) by (simp add: has_room_def)
  moreover have "has_room (length rs) (node_enqueue p n)" "plain_down p \<Longrightarrow> queue_good (node_enqueue p n)" for p
    using 2(3,4) has_room_enqueue queue_ok_enqueue by simp_all
  ultimately show ?case
    using 2(1,2) [OF refl] 2(3) by (simp add: Let_def)
qed simp

lemma rebind_node_ok:
  "queue_good n \<Longrightarrow>
   queue_good (rebind_node h c reg n) \<and> nd_id (rebind_node h c reg n) = nd_id n
   \<and> nd_next (rebind_node h c reg n) = nd_next n"
  using queue_good_trim [of n]
  by (auto simp: rebind_node_def Let_def queue_ok_empty hubq.trim_cnt)

lemma register_locked_wf:
  assumes "hub_wf h" "has_room (length (rg_active reg)) (node_locked h nid)"
  shows "hub_wf (snd (register_locked proto c nid reg fin h))"
proof -
  let ?n = "rebind_node h c reg (node_locked h nid)"
  have "queue_good ?n" "has_room (length (rg_active reg)) ?n"
    using assms(2) rebind_node_ok [of "node_locked h nid" h c reg] node_locked_ok [OF assms(1), of nid]
    by (simp_all add: has_room_def)
  with assms(1) show ?thesis
    by (auto simp: register_locked_def Let_def intro!: put_node_wf lose_runs_wf
        intro: cancel_untracked_ok [THEN conjunct1])
qed

lemma hub_register_wf:
  assumes "hub_wf h" "has_room (length (rg_active reg)) (node_locked h nid)"
  shows "hub_wf (snd (hub_register st proto allowed c nid reg h))"
  using register_locked_wf [OF assms] assms(1) by (simp add: hub_register_def)

subsection \<open>Upstream messages\<close>

lemma add_event_sel [simp]:
  "ru_id (add_event ev r) = ru_id r" "ru_node (add_event ev r) = ru_node r"
  "ru_finished (add_event ev r) = ru_finished r" "ru_output (add_event ev r) = ru_output r"
  by (simp_all add: add_event_def)

lemma add_chunk_sel:
  assumes "add_chunk c r = Inr r'"
  shows "ru_id r' = ru_id r" "ru_node r' = ru_node r" "ru_finished r' = ru_finished r"
    and "ru_events r' = ru_events r" "ru_last_idx r' = ru_last_idx r" "ru_result r' = ru_result r"
    and "ru_err r' = ru_err r" "ru_start r' = ru_start r"
  using assms by (auto simp: add_chunk_def Let_def split: if_splits)

lemma run_for_Some:
  "run_for h nid rid = Some a \<longleftrightarrow> map_of (h_runs h) rid = Some a \<and> ru_node (h_heap h ! a) = nid"
  by (auto simp: run_for_def split: option.splits)

lemma fail_run_wf:
  assumes "hub_wf h" "map_of (h_runs h) rid = Some a"
  shows "hub_wf (fail_run a e h)"
  using assms hub_wfD(6) [OF assms] dropped_untracked [OF assms]
  by (auto simp: fail_run_def Let_def intro!: untracked_update_wf drop_run_wf)

lemma deliver_result_wf:
  assumes "hub_wf h"
  shows "hub_wf (deliver_result a res h)"
proof -
  define rid where "rid = ru_id (h_heap h ! a)"
  define h1 where "h1 = (if map_of (h_runs h) rid = Some a then drop_run rid h else h)"
  have "map_of (h_runs h1) r \<noteq> Some a" for r
    using hub_wfD(6) [OF assms, of r a] by (auto simp: h1_def rid_def)
  moreover have "hub_wf h1" using assms by (simp add: h1_def drop_run_wf)
  ultimately have "hub_wf (update_run a f h1)" for f by (intro update_run_wf) simp_all
  then show ?thesis
    unfolding deliver_result_def Let_def rid_def [symmetric] h1_def [symmetric] by (simp split: if_split)
qed

lemma apply_result_wf: "hub_wf h \<Longrightarrow> hub_wf (snd (apply_result st nid res h))"
  by (auto simp: apply_result_def Let_def store_wf deliver_result_wf split: option.splits prod.splits)

lemma apply_msg_wf:
  assumes wf: "hub_wf h"
  shows "hub_wf (snd (apply_msg st nid p h))"
proof (cases p)
  case (RmHeartbeat hb)
  then show ?thesis
    using wf by (auto simp: apply_msg_def intro!: put_node_wf dest: node_ok_of split: option.splits)
next
  case (RmRunEvent ev)
  have "hub_wf (update_run a (add_event ev) h)" for a
    using wf by (intro update_same_wf) simp_all
  then show ?thesis
    using wf RmRunEvent by (auto simp: apply_msg_def split: option.splits)
next
  case (RmRunOutput c)
  have "hub_wf (update_run a (\<lambda>_. r') h)"
    if "add_chunk c (h_heap h ! a) = Inr r'" for a r'
    using wf add_chunk_sel [OF that] by (intro update_same_wf) simp_all
  then show ?thesis
    using wf RmRunOutput
    by (auto simp: apply_msg_def run_for_Some split: option.splits sum.splits intro: fail_run_wf)
qed (use wf apply_result_wf in \<open>simp_all add: apply_msg_def\<close>)

lemma upstream_begin_wf: "hub_wf h \<Longrightarrow> hub_wf (snd (upstream_begin c nid m h))"
  by (auto simp: upstream_begin_def split: option.splits runner_payload.splits
      intro!: put_node_wf queue_good_trim dest: node_ok_of)

lemma upstream_commit_wf:
  assumes "hub_wf h"
  shows "hub_wf (upstream_commit c nid m dup h)"
proof (cases "node_of h nid")
  case (Some n)
  let ?n = "if \<not> dup \<and> nd_conn n = Some c then n\<lparr>nd_high := rm_seq m\<rparr> else n"
  have "hub_wf (put_node ?n h)"
    using assms node_ok_of [OF assms Some] by (auto intro!: put_node_wf)
  with Some show ?thesis
    using hub_wfD(3) [OF assms]
    by (auto simp: upstream_commit_def Let_def split: option.splits intro!: conns_wf alist_wf_update)
qed (simp add: upstream_commit_def assms)

lemma handle_upstream_wf:
  assumes "hub_wf h"
  shows "hub_wf (snd (handle_upstream st c nid m h))"
proof -
  obtain r h1 where b: "upstream_begin c nid m h = (r, h1)" by (cases "upstream_begin c nid m h")
  obtain e h2 where a: "apply_msg st nid (rm_payload m) h1 = (e, h2)"
    by (cases "apply_msg st nid (rm_payload m) h1")
  have "hub_wf h1" using upstream_begin_wf [OF assms, of c nid m] b by simp
  moreover from this have "hub_wf h2" using apply_msg_wf [of h1 st nid "rm_payload m"] a by simp
  ultimately show ?thesis
    using b a by (cases r; cases e) (auto simp: handle_upstream_def upstream_commit_wf)
qed

lemma conn_write_wf: "hub_wf h \<Longrightarrow> hub_wf (snd (conn_write c nid sent h))"
  by (auto simp: conn_write_def Let_def conns_wf alist_wf_update hub_wfD split: option.splits)

end
