(* ===== verification/RunnerRun.thy ===== *)
theory RunnerRun
  imports RunnerHubInv
begin

text \<open>
  One run handle over its life: the order in which its events come out, and the reassembly of
  its output from chunks that a reconnect may replay.
\<close>

section \<open>Events\<close>

datatype run_op = OpEvent run_event | OpChunk output_chunk | OpNext
  | OpFinish "run_result option" "run_error option"

text \<open>An operation on a handle with the events its consumer has read so far.\<close>

fun run_step :: "run_op \<Rightarrow> run_event list \<times> run \<Rightarrow> run_event list \<times> run" where
  "run_step (OpEvent ev) (d, r) = (d, add_event ev r)"
| "run_step (OpChunk c) (d, r) =
     (case add_chunk c r of Inl e \<Rightarrow> (d, finish_run None (Some e) r) | Inr r' \<Rightarrow> (d, r'))"
| "run_step OpNext (d, r) =
     (case run_next r of (NextEvent ev, r') \<Rightarrow> (d @ [ev], r') | (_, r') \<Rightarrow> (d, r'))"
| "run_step (OpFinish res err) (d, r) = (d, finish_run res err r)"

text \<open>What the consumer is meant to see: each event newer than all before it, once.\<close>

fun newer_events :: "u64 \<Rightarrow> run_event list \<Rightarrow> run_event list" where
  "newer_events n [] = []"
| "newer_events n (ev # evs) =
     (if ev_index ev \<le> n then newer_events n evs else ev # newer_events (ev_index ev) evs)"

lemma newer_events_bound: "ev \<in> set (newer_events n evs) \<Longrightarrow> n < ev_index ev \<and> ev \<in> set evs"
  by (induction n evs rule: newer_events.induct) (auto split: if_splits dest: less_trans)

lemma newer_events_sorted: "sorted_wrt (<) (map ev_index (newer_events n evs))"
  by (induction n evs rule: newer_events.induct) (auto dest: newer_events_bound)

fun op_events :: "run_op list \<Rightarrow> run_event list" where
  "op_events [] = []"
| "op_events (OpEvent ev # ops) = ev # op_events ops"
| "op_events (_ # ops) = op_events ops"

definition stream_of :: "run_event list \<times> run \<Rightarrow> run_event list" where
  "stream_of s = fst s @ ru_events (snd s)"

lemma run_step_stream:
  "stream_of (run_step op s) =
     stream_of s @ (case op of OpEvent ev \<Rightarrow>
        if ru_finished (snd s) \<or> ev_index ev \<le> ru_last_idx (snd s) then [] else [ev] | _ \<Rightarrow> [])"
  by (cases s; cases op)
    (auto simp: stream_of_def add_event_def run_next_def add_chunk_def Let_def
      split: sum.splits list.splits if_splits prod.splits)

lemma run_step_idx:
  "ru_last_idx (snd (run_step op s)) = (case op of OpEvent ev \<Rightarrow>
     if ru_finished (snd s) \<or> ev_index ev \<le> ru_last_idx (snd s) then ru_last_idx (snd s)
     else ev_index ev | _ \<Rightarrow> ru_last_idx (snd s))"
  by (cases s; cases op)
    (auto simp: add_event_def run_next_def add_chunk_def Let_def
      split: sum.splits list.splits if_splits prod.splits)

lemma run_step_finished: "ru_finished (snd s) \<Longrightarrow> ru_finished (snd (run_step op s))"
  by (cases s; cases op)
    (auto simp: run_next_def add_chunk_def Let_def split: sum.splits list.splits if_splits)

lemma finished_stream:
  "ru_finished (snd s) \<Longrightarrow> stream_of (fold run_step ops s) = stream_of s"
proof (induction ops arbitrary: s)
  case (Cons op ops)
  have "stream_of (run_step op s) = stream_of s"
    using Cons.prems by (auto simp: run_step_stream split: run_op.splits)
  with Cons show ?case by (simp add: run_step_finished)
qed simp

lemma open_stream:
  "\<not> ru_finished (snd (fold run_step ops s)) \<Longrightarrow>
   stream_of (fold run_step ops s) = stream_of s @ newer_events (ru_last_idx (snd s)) (op_events ops)"
proof (induction ops arbitrary: s)
  case (Cons op ops)
  have open_s: "\<not> ru_finished (snd s)"
  proof
    assume "ru_finished (snd s)"
    then have "ru_finished (snd (fold run_step ops' (run_step op s)))" for ops'
      by (induction ops' rule: rev_induct) (simp_all add: run_step_finished)
    with Cons.prems show False by simp
  qed
  have "stream_of (fold run_step ops (run_step op s)) =
      stream_of (run_step op s) @ newer_events (ru_last_idx (snd (run_step op s))) (op_events ops)"
    using Cons by simp
  with open_s show ?case
    by (cases op) (auto simp: run_step_stream run_step_idx)
qed simp

lemma fold_finished_split:
  assumes "ru_finished (snd (fold run_step ops s))" "\<not> ru_finished (snd s)"
  shows "\<exists>pre op post. ops = pre @ op # post \<and> \<not> ru_finished (snd (fold run_step pre s))
     \<and> ru_finished (snd (run_step op (fold run_step pre s)))"
  using assms
proof (induction ops rule: rev_induct)
  case (snoc op ops)
  show ?case
  proof (cases "ru_finished (snd (fold run_step ops s))")
    case True
    with snoc obtain pre op' post where "ops = pre @ op' # post"
      "\<not> ru_finished (snd (fold run_step pre s))"
      "ru_finished (snd (run_step op' (fold run_step pre s)))" by blast
    then show ?thesis by (intro exI [of _ pre] exI [of _ op'] exI [of _ "post @ [op]"]) simp
  next
    case False
    with snoc.prems show ?thesis by (intro exI [of _ ops] exI [of _ op] exI [of _ "[]"]) simp
  qed
qed simp

text \<open>
  Events come out in order and once: whatever a handle goes through, what its consumer has
  read followed by what is still buffered is the subsequence of the reported events that are
  newer than everything before them, up to the point where the run finished.
\<close>

lemma run_events_in_order:
  "let start = ([], new_run rid nid sr); s = fold run_step ops start in
   sorted_wrt (<) (map ev_index (stream_of s)) \<and>
   (\<exists>n. stream_of s = newer_events 0 (op_events (take n ops)) \<and>
      (n = length ops \<and> \<not> ru_finished (snd s)
       \<or> n < length ops \<and> \<not> ru_finished (snd (fold run_step (take n ops) start))
         \<and> ru_finished (snd (fold run_step (take (Suc n) ops) start))))"
proof -
  define start where "start = ([] :: run_event list, new_run rid nid sr)"
  define s where "s = fold run_step ops start"
  have start: "stream_of start = []" "ru_last_idx (snd start) = 0" "\<not> ru_finished (snd start)"
    by (simp_all add: start_def stream_of_def new_run_def)
  have "sorted_wrt (<) (map ev_index (stream_of s)) \<and>
   (\<exists>n. stream_of s = newer_events 0 (op_events (take n ops)) \<and>
      (n = length ops \<and> \<not> ru_finished (snd s)
       \<or> n < length ops \<and> \<not> ru_finished (snd (fold run_step (take n ops) start))
         \<and> ru_finished (snd (fold run_step (take (Suc n) ops) start))))"
  proof (cases "ru_finished (snd s)")
    case False
    then have "stream_of s = newer_events 0 (op_events ops)"
      using open_stream [of ops start] start by (simp add: s_def)
    with False show ?thesis
      by (intro conjI exI [of _ "length ops"]) (simp_all add: newer_events_sorted)
  next
    case True
    then obtain pre op post where o: "ops = pre @ op # post"
      and p: "\<not> ru_finished (snd (fold run_step pre start))"
      and q: "ru_finished (snd (run_step op (fold run_step pre start)))"
      using fold_finished_split [of ops start] start(3) unfolding s_def by blast
    define t where "t = fold run_step pre start"
    have "\<nexists>ev. op = OpEvent ev"
      using p q by (cases t) (auto simp: t_def [symmetric])
    then have "stream_of (run_step op t) = stream_of t"
      by (auto simp: run_step_stream split: run_op.splits)
    then have "stream_of s = stream_of t"
      using finished_stream [OF q, of post] by (simp add: s_def o t_def)
    also have "\<dots> = newer_events 0 (op_events pre)"
      using open_stream [OF p] start by (simp add: t_def)
    finally show ?thesis
      using p q by (intro conjI exI [of _ "length pre"]) (simp_all add: o newer_events_sorted)
  qed
  then show ?thesis by (simp only: Let_def start_def s_def)
qed

section \<open>Output\<close>

text \<open>The runner cuts its output into chunks; chunk \<open>j\<close> carries the offset of its first byte.\<close>

definition chunk_offset :: "string list \<Rightarrow> nat \<Rightarrow> nat" where
  "chunk_offset ds j = length (concat (take j ds))"

definition chunk_of :: "string \<Rightarrow> string list \<Rightarrow> nat \<Rightarrow> output_chunk" where
  "chunk_of rid ds j = \<lparr>oc_run = rid, oc_offset = of_nat (chunk_offset ds j), oc_data = ds ! j\<rparr>"

fun feed_chunks :: "output_chunk list \<Rightarrow> run \<Rightarrow> run_error + run" where
  "feed_chunks [] r = Inr r"
| "feed_chunks (c # cs) r = (case add_chunk c r of Inl e \<Rightarrow> Inl e | Inr r' \<Rightarrow> feed_chunks cs r')"

text \<open>
  A delivery order of the chunks: the connection may jump back to any earlier chunk and replay
  from there, but skips none. \<open>replay_top\<close> is the number of chunks seen.
\<close>

fun replay_ok :: "nat \<Rightarrow> nat list \<Rightarrow> bool" where
  "replay_ok n [] = True"
| "replay_ok n (j # js) = (j \<le> n \<and> replay_ok (max n (Suc j)) js)"

fun replay_top :: "nat \<Rightarrow> nat list \<Rightarrow> nat" where
  "replay_top n [] = n"
| "replay_top n (j # js) = replay_top (max n (Suc j)) js"

lemma chunk_offset_mono: "i \<le> j \<Longrightarrow> chunk_offset ds i \<le> chunk_offset ds j"
proof -
  assume "i \<le> j"
  then have "take j ds = take i ds @ take (j - i) (drop i ds)"
    by (metis le_add_diff_inverse take_add)
  then show ?thesis by (simp add: chunk_offset_def)
qed

lemma chunk_offset_Suc: "j < length ds \<Longrightarrow> chunk_offset ds (Suc j) = chunk_offset ds j + length (ds ! j)"
  by (simp add: chunk_offset_def take_Suc_conv_app_nth)

lemma chunk_offset_le: "chunk_offset ds j \<le> length (concat ds)"
  by (metis append_take_drop_id chunk_offset_def concat_append le_add1 length_append)

lemma word_of_nat_le_64: "a < 2 ^ 64 \<Longrightarrow> b < 2 ^ 64 \<Longrightarrow> (of_nat a :: u64) \<le> of_nat b \<longleftrightarrow> a \<le> b"
  by (simp add: word_le_nat_alt unat_of_nat take_bit_nat_eq_self)

lemma unat_of_nat_64: "a < 2 ^ 64 \<Longrightarrow> unat (of_nat a :: u64) = a"
  by (simp add: unat_of_nat take_bit_nat_eq_self)

text \<open>The chunk that is next extends the output, an earlier one changes nothing.\<close>

lemma add_chunk_next:
  assumes len: "length (concat ds) < 2 ^ 64" and j: "j \<le> n" "j < length ds" "n \<le> length ds"
    and out: "ru_output r = concat (take n ds)"
  shows "\<exists>r'. add_chunk (chunk_of rid ds j) r = Inr r' \<and>
              ru_output r' = concat (take (max n (Suc j)) ds)"
proof -
  have n: "length (ru_output r) = chunk_offset ds n" "chunk_offset ds n < 2 ^ 64"
    using len chunk_offset_le [of ds n] by (simp_all add: out chunk_offset_def)
  have jn: "chunk_offset ds j \<le> chunk_offset ds n" "chunk_offset ds j < 2 ^ 64"
    using chunk_offset_mono [OF j(1), of ds] n by simp_all
  have e: "chunk_offset ds j + length (ds ! j) = chunk_offset ds (Suc j)"
    "chunk_offset ds (Suc j) < 2 ^ 64"
    using chunk_offset_Suc [OF j(2)] chunk_offset_le [of ds "Suc j"] len by simp_all
  have off: "oc_offset (chunk_of rid ds j) = of_nat (chunk_offset ds j)"
    "oc_data (chunk_of rid ds j) = ds ! j" by (simp_all add: chunk_of_def)
  have end_eq: "oc_offset (chunk_of rid ds j) + of_nat (length (oc_data (chunk_of rid ds j)))
      = (of_nat (chunk_offset ds (Suc j)) :: u64)"
    by (metis off e(1) of_nat_add)
  have not_gap: "\<not> oc_offset (chunk_of rid ds j) > out_len r"
    unfolding off out_len_def n(1) not_less using word_of_nat_le_64 jn n(2) by simp
  show ?thesis
  proof (cases "j < n")
    case True
    then have "chunk_offset ds (Suc j) \<le> chunk_offset ds n" by (intro chunk_offset_mono) simp
    then have "(of_nat (chunk_offset ds (Suc j)) :: u64) \<le> out_len r"
      unfolding out_len_def n(1) using word_of_nat_le_64 e(2) n(2) by simp
    moreover have "max n (Suc j) = n" using True by simp
    ultimately show ?thesis
      using not_gap by (intro exI [of _ r]) (simp add: add_chunk_def Let_def end_eq out)
  next
    case False
    with j have jn': "j = n" by simp
    show ?thesis
    proof (cases "ds ! j = []")
      case True
      then have "(of_nat (chunk_offset ds (Suc j)) :: u64) \<le> out_len r"
        unfolding out_len_def n(1) using e jn' by simp
      with not_gap True jn' j(2) show ?thesis
        by (intro exI [of _ r])
          (simp add: add_chunk_def Let_def end_eq [unfolded jn'] out take_Suc_conv_app_nth)
    next
      case False
      then have "chunk_offset ds n < chunk_offset ds (Suc j)" using e(1) jn' by (cases "ds ! n") auto
      then have "\<not> (of_nat (chunk_offset ds (Suc j)) :: u64) \<le> out_len r"
        unfolding out_len_def n(1) using word_of_nat_le_64 [OF e(2) n(2)] by simp
      moreover have "out_len r = oc_offset (chunk_of rid ds j)"
        using off(1) jn' by (simp add: out_len_def n(1))
      ultimately show ?thesis
        using not_gap off end_eq [unfolded off, unfolded jn'] jn' j(2) n(1)
        by (simp add: add_chunk_def Let_def out out_len_def take_Suc_conv_app_nth)
    qed
  qed
qed

lemma feed_chunks_replay:
  assumes "length (concat ds) < 2 ^ 64"
  shows "replay_ok n js \<Longrightarrow> \<forall>j \<in> set js. j < length ds \<Longrightarrow> n \<le> length ds \<Longrightarrow>
    ru_output r = concat (take n ds) \<Longrightarrow>
    \<exists>r'. feed_chunks (map (chunk_of rid ds) js) r = Inr r' \<and>
         ru_output r' = concat (take (replay_top n js) ds)"
proof (induction js arbitrary: n r)
  case (Cons j js)
  then obtain r1 where r1: "add_chunk (chunk_of rid ds j) r = Inr r1"
    "ru_output r1 = concat (take (max n (Suc j)) ds)"
    using add_chunk_next [OF assms, of j n r rid] by auto
  have "max n (Suc j) \<le> length ds" using Cons.prems by auto
  then show ?case using Cons.IH [OF _ _ _ r1(2)] Cons.prems r1(1) by auto
qed simp

text \<open>
  Replays never corrupt the output: for every delivery order a reconnecting runner can
  produce (each chunk at most one beyond those seen, earlier ones repeated at will) the
  reassembled output is exactly the concatenation of the chunks seen, and no gap is reported.
\<close>

lemma output_replay_exact:
  assumes "length (concat ds) < 2 ^ 64" "replay_ok 0 js" "\<forall>j \<in> set js. j < length ds"
  shows "\<exists>r. feed_chunks (map (chunk_of rid ds) js) (new_run rid nid sr) = Inr r \<and>
             ru_output r = concat (take (replay_top 0 js) ds)"
  using feed_chunks_replay [OF assms(1), of 0 js "new_run rid nid sr" rid] assms(2,3) by simp

end
