(* ===== verification/RunnerHubSystem.thy ===== *)
theory RunnerHubSystem
  imports RunnerRun
begin

text \<open>
  The hub as a transition system, at the grain of its critical sections: the goroutines of
  different connections, the dispatchers and the consumers interleave between any two of them.
  The properties of the hub are stated over the reachable states and over single operations.
\<close>

inductive hub_step :: "'s store_ops \<Rightarrow> u32 \<Rightarrow> 's hub \<Rightarrow> 's hub \<Rightarrow> bool"
  for st :: "'s store_ops" and proto :: u32 where
  step_accept: "hub_step st proto h (snd (hub_accept allowed c nid h))"
| step_register: "has_room (length (rg_active reg)) (node_locked h nid) \<Longrightarrow>
    hub_step st proto h (snd (register_locked proto c nid reg fin h))"
| step_begin: "hub_step st proto h (snd (upstream_begin c nid m h))"
| step_heartbeat: "hub_step st proto h (snd (apply_msg st nid (RmHeartbeat hb) h))"
| step_event: "a < length (h_heap h) \<Longrightarrow> hub_step st proto h (update_run a (add_event ev) h)"
| step_chunk: "a < length (h_heap h) \<Longrightarrow> add_chunk c (h_heap h ! a) = Inr r' \<Longrightarrow>
    hub_step st proto h (update_run a (\<lambda>_. r') h)"
| step_gap: "a < length (h_heap h) \<Longrightarrow> hub_step st proto h (fail_run a e h)"
| step_mark: "so_mark st (h_store h) rid = (s', res) \<Longrightarrow> hub_step st proto h (h\<lparr>h_store := s'\<rparr>)"
| step_deliver: "a < length (h_heap h) \<Longrightarrow> hub_step st proto h (deliver_result a rr h)"
| step_commit: "hub_step st proto h (upstream_commit c nid m dup h)"
| step_write: "hub_step st proto h (snd (conn_write c nid sent h))"
| step_detach: "hub_step st proto h (hub_detach c nid h)"
| step_dispatch: "(\<And>n. node_of h nid = Some n \<Longrightarrow> has_room 1 n) \<Longrightarrow>
    hub_step st proto h (snd (dispatch_locked allowed h nid sr))"
| step_cancel: "(\<And>n. node_of h nid = Some n \<Longrightarrow> has_room 1 n) \<Longrightarrow>
    hub_step st proto h (snd (hub_cancel allowed h nid rid))"
| step_next: "a < length (h_heap h) \<Longrightarrow> hub_step st proto h (update_run a (\<lambda>r. snd (run_next r)) h)"
| step_stop: "hub_step st proto h (hub_stop h)"

inductive hub_reach :: "'s store_ops \<Rightarrow> u32 \<Rightarrow> 's hub \<Rightarrow> 's hub \<Rightarrow> bool"
  for st :: "'s store_ops" and proto :: u32 and h0 :: "'s hub" where
  reach_start: "hub_reach st proto h0 h0"
| reach_step: "hub_reach st proto h0 h \<Longrightarrow> hub_step st proto h h' \<Longrightarrow> hub_reach st proto h0 h'"

section \<open>The invariant is reachable\<close>

lemma fail_run_wf_any:
  assumes "hub_wf h"
  shows "hub_wf (fail_run a e h)"
proof -
  define rid where "rid = ru_id (h_heap h ! a)"
  define h1 where "h1 = (if map_of (h_runs h) rid = Some a then drop_run rid h else h)"
  have "map_of (h_runs h1) r \<noteq> Some a" for r
    using hub_wfD(6) [OF assms, of r a] by (auto simp: h1_def rid_def)
  moreover have "hub_wf h1" using assms by (simp add: h1_def drop_run_wf)
  ultimately have "hub_wf (update_run a f h1)" for f by (intro update_run_wf) simp_all
  then show ?thesis
    unfolding fail_run_def Let_def rid_def [symmetric] h1_def [symmetric] by simp
qed

lemma run_next_sel [simp]:
  "ru_id (snd (run_next r)) = ru_id r" "ru_node (snd (run_next r)) = ru_node r"
  "ru_finished (snd (run_next r)) = ru_finished r" "ru_result (snd (run_next r)) = ru_result r"
  "ru_err (snd (run_next r)) = ru_err r"
  by (simp_all add: run_next_def split: list.splits)

lemma hub_step_wf: "hub_step st proto h h' \<Longrightarrow> hub_wf h \<Longrightarrow> hub_wf h'"
proof (induction rule: hub_step.induct)
  case (step_event a h ev)
  then show ?case by (intro update_same_wf) simp_all
next
  case (step_chunk a h c r')
  then show ?case using add_chunk_sel [OF step_chunk(2)] by (intro update_same_wf) simp_all
next
  case (step_next a h)
  then show ?case by (intro update_same_wf) simp_all
next
  case (step_dispatch h nid allowed sr)
  then show ?case by (intro dispatch_locked_wf)
next
  case (step_cancel h nid allowed rid)
  then show ?case by (intro hub_cancel_wf)
qed (simp_all add: hub_accept_wf register_locked_wf upstream_begin_wf apply_msg_wf fail_run_wf_any
    store_wf deliver_result_wf upstream_commit_wf conn_write_wf hub_detach_wf hub_stop_wf)

lemma new_hub_wf: "hub_wf (new_hub boot s)"
  by (simp add: hub_wf_def new_hub_def)

lemma hub_reach_inv: "hub_reach st proto h0 h \<Longrightarrow> hub_wf h0 \<Longrightarrow> hub_wf h"
  by (induction rule: hub_reach.induct) (auto intro: hub_step_wf)

text \<open>
  From a new hub every interleaving of its critical sections keeps the tables consistent: a
  tracked run is listed under its own id, is a live handle of its own and is not finished, and
  every node's queue is numbered in strictly increasing order up to the node's counter.
\<close>

lemma hub_tables_consistent:
  assumes "hub_reach st proto (new_hub boot s) h"
  shows "hub_wf h \<and> inj_on (map_of (h_runs h)) (dom (map_of (h_runs h)))
    \<and> (\<forall>(i, n) \<in> set (h_nodes h). \<forall>m \<in> set (nd_queue n). 0 < bm_seq m \<and> bm_seq m \<le> nd_next n)"
proof -
  have wf: "hub_wf h" using hub_reach_inv [OF assms new_hub_wf] .
  moreover have "inj_on (map_of (h_runs h)) (dom (map_of (h_runs h)))"
    using runs_inj [OF wf] by (force intro: inj_onI)
  moreover have "queue_good n" if "(i, n) \<in> set (h_nodes h)" for i n
    using wf that by (fastforce simp: hub_wf_def node_ok_def)
  ultimately show ?thesis
    by (auto simp: queue_good_def hubq.queue_ok_def seqs_ok_def)
qed

section \<open>A finished run stays as it is\<close>

text \<open>What the waiter of a run sees.\<close>

definition outcome :: "run \<Rightarrow> (run_result \<times> string) option \<times> run_error option" where
  "outcome r = (ru_result r, ru_err r)"

definition frozen :: "run list \<Rightarrow> run list \<Rightarrow> bool" where
  "frozen hp hp' \<longleftrightarrow> length hp \<le> length hp' \<and>
     (\<forall>a < length hp. ru_finished (hp ! a) \<longrightarrow>
        ru_finished (hp' ! a) \<and> outcome (hp' ! a) = outcome (hp ! a))"

lemma frozen_refl [simp]: "frozen hp hp"
  by (simp add: frozen_def)

lemma frozen_trans: "frozen x y \<Longrightarrow> frozen y z \<Longrightarrow> frozen x z"
  by (simp add: frozen_def)

lemma frozen_update:
  "(ru_finished (h_heap h ! a) \<Longrightarrow> ru_finished (f (h_heap h ! a)) \<and> outcome (f (h_heap h ! a)) = outcome (h_heap h ! a))
   \<Longrightarrow> frozen (h_heap h) (h_heap (update_run a f h))"
  by (simp add: frozen_def update_run_heap)

lemma finish_frozen: "ru_finished r \<Longrightarrow> finish_run x y r = r"
  by (simp add: finish_run_def)

lemma frozen_finish: "frozen (h_heap h) (h_heap (update_run a (finish_run x y) h))"
  by (rule frozen_update) (simp add: finish_frozen)

lemma frozen_finish_all: "frozen (h_heap h) (h_heap (finish_all e es h))"
  by (simp add: frozen_def finish_all_heap finish_frozen)

lemma hub_step_frozen: "hub_step st proto h h' \<Longrightarrow> frozen (h_heap h) (h_heap h')"
proof (induction rule: hub_step.induct)
  case (step_accept h allowed c nid)
  then show ?case by (simp add: hub_accept_def)
next
  case (step_register reg h nid c fin)
  then show ?case
    by (simp add: register_locked_def Let_def lose_runs_alt frozen_finish_all)
next
  case (step_begin h c nid m)
  then show ?case by (simp add: upstream_begin_def split: option.splits runner_payload.splits)
next
  case (step_heartbeat h nid hb)
  then show ?case by (simp add: apply_msg_def split: option.splits)
next
  case (step_event a h ev)
  then show ?case by (intro frozen_update) (simp add: add_event_def)
next
  case (step_chunk a h c r')
  then show ?case
    using add_chunk_sel [OF step_chunk(2)] by (intro frozen_update) (simp add: outcome_def)
next
  case (step_gap a h e)
  then show ?case
    using frozen_finish [of "drop_run (ru_id (h_heap h ! a)) h"] frozen_finish [of h]
    by (simp add: fail_run_def Let_def)
next
  case (step_mark h rid s' res)
  then show ?case by simp
next
  case (step_deliver a h rr)
  then show ?case
    using frozen_finish [of "drop_run (ru_id (h_heap h ! a)) h"] frozen_finish [of h]
    by (simp add: deliver_result_def Let_def)
next
  case (step_commit h c nid m dup)
  then show ?case by (simp add: upstream_commit_def Let_def split: option.splits)
next
  case (step_write h c nid sent)
  then show ?case by (simp add: conn_write_def Let_def split: option.splits)
next
  case (step_detach h c nid)
  then show ?case by (simp add: hub_detach_def Let_def split: option.splits)
next
  case (step_dispatch h nid allowed sr)
  then show ?case
    by (simp add: dispatch_locked_def Let_def frozen_def nth_append split: option.splits)
next
  case (step_cancel h nid allowed rid)
  then show ?case by (simp add: hub_cancel_def split: option.splits)
next
  case (step_next a h)
  then show ?case by (intro frozen_update) (simp add: outcome_def)
next
  case (step_stop h)
  then show ?case by (simp add: hub_stop_alt frozen_finish_all)
qed

lemma hub_reach_frozen: "hub_reach st proto h h' \<Longrightarrow> frozen (h_heap h) (h_heap h')"
  by (induction rule: hub_reach.induct) (auto intro: frozen_trans hub_step_frozen)

text \<open>
  A run finishes at most once: whatever happens after it finished (late results, replays,
  a lost runner, the hub stopping), the result and the error its waiter sees never change.
\<close>

lemma run_outcome_final:
  assumes "hub_reach st proto h h'" "a < length (h_heap h)" "ru_finished (h_heap h ! a)"
  shows "ru_finished (h_heap h' ! a) \<and> ru_result (h_heap h' ! a) = ru_result (h_heap h ! a)
    \<and> ru_err (h_heap h' ! a) = ru_err (h_heap h ! a)"
  using hub_reach_frozen [OF assms(1)] assms(2,3) by (auto simp: frozen_def outcome_def)

end
