(* ===== verification/RunnerHubProps.thy ===== *)
theory RunnerHubProps
  imports RunnerHubSystem
begin

text \<open>
  What single operations of the hub promise: isolation of nodes, idempotence of a replayed
  message, at-most-once finalization, the effect of a registration and of a dispatch.
\<close>

section \<open>A runner only reaches its own runs\<close>

text \<open>What a node other than \<open>nid\<close> can observe of its part of the hub.\<close>

definition same_for_others :: "string \<Rightarrow> 's hub \<Rightarrow> 's hub \<Rightarrow> bool" where
  "same_for_others nid h h' \<longleftrightarrow> length (h_heap h') = length (h_heap h)
     \<and> (\<forall>a < length (h_heap h). ru_node (h_heap h' ! a) = ru_node (h_heap h ! a))
     \<and> (\<forall>a < length (h_heap h). ru_node (h_heap h ! a) \<noteq> nid \<longrightarrow>
          h_heap h' ! a = h_heap h ! a \<and>
          (\<forall>r. map_of (h_runs h') r = Some a \<longleftrightarrow> map_of (h_runs h) r = Some a))
     \<and> (\<forall>i. i \<noteq> nid \<longrightarrow> node_of h' i = node_of h i)"

lemma same_refl [simp]: "same_for_others nid h h"
  by (simp add: same_for_others_def)

lemma same_trans:
  "same_for_others nid h h1 \<Longrightarrow> same_for_others nid h1 h2 \<Longrightarrow> same_for_others nid h h2"
  by (simp add: same_for_others_def)

lemma same_put_node: "nd_id n = nid \<Longrightarrow> same_for_others nid h (put_node n h)"
  by (simp add: same_for_others_def)

lemma same_conns [simp]: "same_for_others nid h (h\<lparr>h_conns := cs\<rparr>)"
  by (simp add: same_for_others_def node_of_def)

lemma same_store [simp]: "same_for_others nid h (h\<lparr>h_store := s\<rparr>)"
  by (simp add: same_for_others_def node_of_def)

lemma same_update_run:
  "ru_node (h_heap h ! a) = nid \<Longrightarrow> ru_node (f (h_heap h ! a)) = nid \<Longrightarrow>
   same_for_others nid h (update_run a f h)"
  by (auto simp: same_for_others_def update_run_heap)

lemma same_drop_run:
  "map_of (h_runs h) r = Some a \<Longrightarrow> ru_node (h_heap h ! a) = nid \<Longrightarrow>
   same_for_others nid h (drop_run r h)"
  by (auto simp: same_for_others_def split: if_splits)

lemma same_fail_run: "ru_node (h_heap h ! a) = nid \<Longrightarrow> same_for_others nid h (fail_run a e h)"
  unfolding fail_run_def Let_def
  by (auto intro: same_trans [OF same_drop_run same_update_run] same_update_run)

lemma same_deliver: "ru_node (h_heap h ! a) = nid \<Longrightarrow> same_for_others nid h (deliver_result a r h)"
  unfolding deliver_result_def Let_def
  by (auto intro: same_trans [OF same_drop_run same_update_run] same_update_run)

lemma same_apply_result: "same_for_others nid h (snd (apply_result st nid res h))"
  unfolding apply_result_def Let_def
  by (auto split: option.splits prod.splits intro: same_trans [OF same_store same_deliver])

lemma same_apply_msg:
  assumes "hub_wf h"
  shows "same_for_others nid h (snd (apply_msg st nid p h))"
  using hub_wfD(4) [OF assms, of nid] add_chunk_sel(2)
  by (auto simp: apply_msg_def run_for_Some same_apply_result split: runner_payload.splits option.splits sum.splits
      intro!: same_put_node same_update_run same_fail_run)

lemma same_upstream_begin: "hub_wf h \<Longrightarrow> same_for_others nid h (snd (upstream_begin c nid m h))"
  using hub_wfD(4) [of h nid]
  by (auto simp: upstream_begin_def split: option.splits runner_payload.splits intro!: same_put_node)

lemma same_upstream_commit: "hub_wf h \<Longrightarrow> same_for_others nid h (upstream_commit c nid m dup h)"
  using hub_wfD(4) [of h nid]
  by (auto simp: upstream_commit_def Let_def split: option.splits
      intro!: same_put_node intro: same_trans [OF same_put_node same_conns])

lemma same_upstream:
  assumes "hub_wf h"
  shows "same_for_others nid h (snd (handle_upstream st c nid m h))"
proof -
  obtain r h1 where b: "upstream_begin c nid m h = (r, h1)" by (cases "upstream_begin c nid m h")
  obtain e h2 where a: "apply_msg st nid (rm_payload m) h1 = (e, h2)"
    by (cases "apply_msg st nid (rm_payload m) h1")
  have 1: "same_for_others nid h h1" "hub_wf h1"
    using same_upstream_begin [OF assms, of nid c m] upstream_begin_wf [OF assms, of c nid m] b by simp_all
  have 2: "same_for_others nid h1 h2" "hub_wf h2"
    using same_apply_msg [OF 1(2), of nid st "rm_payload m"] apply_msg_wf [OF 1(2), of st nid "rm_payload m"] a
    by simp_all
  show ?thesis
    using a b same_upstream_commit [OF 1(2)] same_upstream_commit [OF 2(2)] 1 2
    by (cases r; cases e) (auto simp: handle_upstream_def intro: same_trans)
qed

text \<open>
  A runner cannot touch another runner's work: whatever message arrives on a connection of
  \<open>nid\<close>, the handles of runs that execute elsewhere, their tracking and the other nodes'
  registry entries are exactly as before.
\<close>

lemma upstream_isolated:
  assumes "hub_wf h"
  shows "same_for_others nid h (snd (handle_upstream st c nid m h))"
  using assms by (rule same_upstream)

section \<open>Replays\<close>

lemma put_node_same: "node_of h (nd_id n) = Some n \<Longrightarrow> put_node n h = h"
  by (simp add: put_node_def node_of_def update_triv)

lemma put_node_twice: "put_node n (put_node n h) = put_node n h"
  by (rule put_node_same) simp

lemma update_run_same: "a < length (h_heap h) \<Longrightarrow> f (h_heap h ! a) = h_heap h ! a \<Longrightarrow> update_run a f h = h"
  by (simp add: update_run_def list_update_same_conv)

lemma update_run_twice:
  "a < length (h_heap h) \<Longrightarrow> f (f (h_heap h ! a)) = f (h_heap h ! a) \<Longrightarrow>
   update_run a f (update_run a f h) = update_run a f h"
  by (rule update_run_same) (simp_all add: update_run_heap)

lemma add_event_idem: "add_event ev (add_event ev r) = add_event ev r"
  by (simp add: add_event_def)

lemma add_chunk_idem:
  assumes "add_chunk c r = Inr r'" "length (ru_output r) + length (oc_data c) < 2 ^ 64"
  shows "add_chunk c r' = Inr r'"
proof (cases "oc_offset c + of_nat (length (oc_data c)) \<le> out_len r")
  case True
  with assms show ?thesis by (auto simp: add_chunk_def Let_def split: if_splits)
next
  case False
  let ?o = "unat (oc_offset c)" and ?n = "length (oc_data c)" and ?h = "length (ru_output r)"
  have ol: "unat (out_len r) = ?h" using assms(2) by (simp add: out_len_def unat_of_nat_64)
  have le: "oc_offset c \<le> out_len r" using assms(1) by (auto simp: add_chunk_def Let_def split: if_splits)
  then have oh: "?o \<le> ?h" by (simp add: word_le_nat_alt ol)
  have sum: "oc_offset c + of_nat ?n = (of_nat (?o + ?n) :: u64)" by simp
  have lt: "?o + ?n < 2 ^ 64" using oh assms(2) by simp
  with False have hn: "?h < ?o + ?n"
    unfolding sum word_le_nat_alt ol using unat_of_nat_64 [OF lt] by simp
  have sub: "unat (out_len r - oc_offset c) = ?h - ?o"
    using le by (simp add: unat_sub ol)
  have r': "r' = r\<lparr>ru_output := ru_output r @ drop (?h - ?o) (oc_data c)\<rparr>"
    using assms(1) False le sub by (auto simp: add_chunk_def Let_def split: if_splits)
  then have len: "length (ru_output r') = ?o + ?n" using oh hn by simp
  then have "out_len r' = oc_offset c + of_nat ?n" by (simp add: out_len_def)
  moreover have "oc_offset c \<le> out_len r'"
    unfolding out_len_def len word_le_nat_alt unat_of_nat_64 [OF lt] by simp
  ultimately show ?thesis by (simp add: add_chunk_def Let_def not_less)
qed

lemma fail_run_untracked:
  "hub_wf h \<Longrightarrow> map_of (h_runs h) rid = Some a \<Longrightarrow> map_of (h_runs (fail_run a e h)) rid = None"
  using hub_wfD(6) [of h rid a] by (simp add: fail_run_def Let_def)

lemma deliver_untracked:
  "hub_wf h \<Longrightarrow> map_of (h_runs h) rid = Some a \<Longrightarrow> map_of (h_runs (deliver_result a res h)) rid = None"
  using hub_wfD(6) [of h rid a] by (simp add: deliver_result_def Let_def)

text \<open>Applying a message to a hub whose handles have room for its bytes.\<close>

definition fits :: "'s hub \<Rightarrow> runner_payload \<Rightarrow> bool" where
  "fits h p \<longleftrightarrow> (case p of RmRunOutput c \<Rightarrow>
      list_all (\<lambda>r. length (ru_output r) + length (oc_data c) < 2 ^ 64) (h_heap h) | _ \<Rightarrow> True)"

lemma fail_run_store [simp]: "h_store (fail_run a e h) = h_store h"
  by (simp add: fail_run_def Let_def)

lemma deliver_store [simp]: "h_store (deliver_result a res h) = h_store h"
  by (simp add: deliver_result_def Let_def)

context finalized_store
begin

lemma apply_result_done:
  assumes "hub_wf h" "apply_result st nid res h = (None, h1)"
  shows "h1 = h \<and> (\<exists>a. map_of (h_runs h) (rr_run res) = Some a \<and> ru_node (h_heap h ! a) \<noteq> nid)
       \<or> map_of (h_runs h1) (rr_run res) = None \<and> rr_run res \<in> fin (h_store h1)"
proof -
  obtain s' b where m: "so_mark st (h_store h) (rr_run res) = (s', b)" by (cases "so_mark st (h_store h) (rr_run res)")
  show ?thesis
    using assms(2) m mark_done [of "h_store h" "rr_run res" s']
      deliver_untracked [OF store_wf [OF assms(1)], of s' "rr_run res"]
    by (auto simp: apply_result_def Let_def split: option.splits if_splits)
qed

lemma apply_result_settled:
  assumes "map_of (h_runs h) (rr_run res) = None" "rr_run res \<in> fin (h_store h)"
    and "apply_result st nid res h = (None, h')"
  shows "h' = h"
proof -
  obtain s' b where m: "so_mark st (h_store h) (rr_run res) = (s', b)" by (cases "so_mark st (h_store h) (rr_run res)")
  have "b = None \<or> s' = h_store h"
    using mark_cases [OF m] mark_again [of "h_store h" "rr_run res" s'] m assms(2) by auto
  then show ?thesis using assms(1,3) m by (auto simp: apply_result_def Let_def split: option.splits)
qed

lemma replay_apply_result:
  assumes "hub_wf h" "apply_result st nid res h = (None, h1)" "apply_result st nid res h1 = (None, h2)"
  shows "h2 = h1"
  using apply_result_done [OF assms(1,2)] assms(2,3) apply_result_settled by auto

lemma replay_apply_msg:
  assumes wf: "hub_wf h" and "fits h p"
    and 1: "apply_msg st nid p h = (None, h1)" and 2: "apply_msg st nid p h1 = (None, h2)"
  shows "h2 = h1"
proof (cases p)
  case (RmHeartbeat hb)
  then show ?thesis using 1 2 hub_wfD(4) [OF wf, of nid]
    by (auto simp: apply_msg_def put_node_twice split: option.splits)
next
  case (RmRunEvent ev)
  show ?thesis
  proof (cases "run_for h nid (ev_run ev)")
    case (Some a)
    then have a: "map_of (h_runs h) (ev_run ev) = Some a" "ru_node (h_heap h ! a) = nid"
      by (auto simp: run_for_Some)
    from hub_wfD(5) [OF wf a(1)] have lt: "a < length (h_heap h)" .
    have "run_for h1 nid (ev_run ev) = Some a" "h1 = update_run a (add_event ev) h"
      using 1 Some RmRunEvent a lt by (auto simp: apply_msg_def run_for_Some update_run_heap)
    then show ?thesis
      using 2 RmRunEvent lt by (simp add: apply_msg_def update_run_twice add_event_idem)
  qed (use 1 2 RmRunEvent in \<open>auto simp: apply_msg_def\<close>)
next
  case (RmRunOutput c)
  show ?thesis
  proof (cases "run_for h nid (oc_run c)")
    case (Some a)
    then have a: "map_of (h_runs h) (oc_run c) = Some a" "ru_node (h_heap h ! a) = nid"
      by (auto simp: run_for_Some)
    from hub_wfD(5) [OF wf a(1)] have lt: "a < length (h_heap h)" .
    show ?thesis
    proof (cases "add_chunk c (h_heap h ! a)")
      case (Inl e)
      then have "h1 = fail_run a e h" using 1 Some RmRunOutput by (simp add: apply_msg_def)
      then have "run_for h1 nid (oc_run c) = None"
        using fail_run_untracked [OF wf a(1)] by (simp add: run_for_def)
      then show ?thesis using 2 RmRunOutput by (simp add: apply_msg_def)
    next
      case (Inr r')
      have h1: "h1 = update_run a (\<lambda>_. r') h" using 1 Some Inr RmRunOutput by (simp add: apply_msg_def)
      have at: "h_heap h1 ! a = r'" using lt by (simp add: h1 update_run_heap)
      have run: "run_for h1 nid (oc_run c) = Some a"
        using a lt add_chunk_sel(2) [OF Inr] by (simp add: h1 run_for_Some update_run_heap)
      have room: "length (ru_output (h_heap h ! a)) + length (oc_data c) < 2 ^ 64"
        using assms(2) lt RmRunOutput by (simp add: fits_def list_all_length)
      have again: "add_chunk c r' = Inr r'" by (rule add_chunk_idem [OF Inr room])
      have "h2 = update_run a (\<lambda>_. r') h1" using 2 RmRunOutput run at again by (simp add: apply_msg_def)
      then show ?thesis using lt by (simp add: h1 update_run_twice)
    qed
  qed (use 1 2 RmRunOutput in \<open>auto simp: apply_msg_def\<close>)
qed (use assms replay_apply_result in \<open>auto simp: apply_msg_def\<close>)

end

text \<open>
  A replayed message is harmless: when a message was applied and, its acknowledgement being
  lost, is applied a second time, the second application changes nothing, for the database store
  the backend runs with.
\<close>

lemma replay_harmless:
  assumes "hub_wf h" "fits h p"
    and "apply_msg db_store nid p h = (None, h1)" "apply_msg db_store nid p h1 = (None, h2)"
  shows "h2 = h1"
  using assms by (rule db.replay_apply_msg)

section \<open>Finalized runs\<close>

text \<open>The calls on a hub, as whole operations.\<close>

datatype hub_call =
    CallAccept "string \<Rightarrow> bool" nat string
  | CallRegister "string \<Rightarrow> bool" nat string register
  | CallUpstream nat string runner_msg
  | CallWrite nat string u64
  | CallDetach nat string
  | CallDispatch "string \<Rightarrow> bool" string start_run
  | CallCancel "string \<Rightarrow> bool" string string
  | CallStop

fun do_call :: "'s store_ops \<Rightarrow> (start_run \<Rightarrow> nat) \<Rightarrow> u32 \<Rightarrow> hub_call \<Rightarrow> 's hub \<Rightarrow> 's hub" where
  "do_call st sz proto (CallAccept allowed c nid) h = snd (hub_accept allowed c nid h)"
| "do_call st sz proto (CallRegister allowed c nid reg) h = snd (hub_register st proto allowed c nid reg h)"
| "do_call st sz proto (CallUpstream c nid m) h = snd (handle_upstream st c nid m h)"
| "do_call st sz proto (CallWrite c nid sent) h = snd (conn_write c nid sent h)"
| "do_call st sz proto (CallDetach c nid) h = hub_detach c nid h"
| "do_call st sz proto (CallDispatch allowed nid sr) h = snd (dispatch st sz allowed h nid sr)"
| "do_call st sz proto (CallCancel allowed nid rid) h = snd (hub_cancel allowed h nid rid)"
| "do_call st sz proto CallStop h = hub_stop h"

text \<open>A run id that is settled: finalized, untracked, with no handle beyond the first \<open>n\<close>.\<close>

definition settled :: "string set \<Rightarrow> nat \<Rightarrow> string \<Rightarrow> 's hub \<Rightarrow> bool" where
  "settled done n rid h \<longleftrightarrow> rid \<in> done \<and> map_of (h_runs h) rid = None \<and> n \<le> length (h_heap h)
     \<and> (\<forall>a < length (h_heap h). n \<le> a \<longrightarrow> ru_id (h_heap h ! a) \<noteq> rid)"

text \<open>An operation that tracks no new run and renames no handle.\<close>

definition no_new_runs :: "'s hub \<Rightarrow> 's hub \<Rightarrow> bool" where
  "no_new_runs h h' \<longleftrightarrow> length (h_heap h') = length (h_heap h)
     \<and> (\<forall>a < length (h_heap h). ru_id (h_heap h' ! a) = ru_id (h_heap h ! a))
     \<and> (\<forall>r. map_of (h_runs h) r = None \<longrightarrow> map_of (h_runs h') r = None)"

lemma no_new_refl [simp]: "no_new_runs h h"
  by (simp add: no_new_runs_def)

lemma no_new_trans: "no_new_runs h h1 \<Longrightarrow> no_new_runs h1 h2 \<Longrightarrow> no_new_runs h h2"
  by (simp add: no_new_runs_def)

lemma no_new_sel [simp]:
  "no_new_runs h (put_node n h)" "no_new_runs h (h\<lparr>h_conns := cs\<rparr>)" "no_new_runs h (h\<lparr>h_store := s\<rparr>)"
  by (simp_all add: no_new_runs_def)

lemma no_new_drop [simp]: "no_new_runs h (drop_run r h)"
  by (simp add: no_new_runs_def)

lemma no_new_update: "ru_id (f (h_heap h ! a)) = ru_id (h_heap h ! a) \<Longrightarrow> no_new_runs h (update_run a f h)"
  by (simp add: no_new_runs_def update_run_heap)

lemma no_new_stop: "no_new_runs h (hub_stop h)"
  by (simp add: no_new_runs_def hub_stop_alt finish_all_heap)

lemma no_new_lose: "no_new_runs h (lose_runs nid known h)"
  by (auto simp: no_new_runs_def lose_runs_alt finish_all_heap map_of_eq_None_iff)

lemma no_new_register: "no_new_runs h (snd (hub_register st proto allowed c nid reg h))"
  by (auto simp: hub_register_def register_locked_def Let_def intro: no_new_trans [OF no_new_lose no_new_sel(1)])

lemma no_new_fail: "no_new_runs h (fail_run a e h)"
  unfolding fail_run_def Let_def
  by (auto intro: no_new_trans [OF no_new_drop no_new_update] no_new_update)

lemma no_new_deliver: "no_new_runs h (deliver_result a res h)"
  unfolding deliver_result_def Let_def
  by (auto intro: no_new_trans [OF no_new_drop no_new_update] no_new_update)

lemma no_new_apply: "no_new_runs h (snd (apply_msg st nid p h))"
  unfolding apply_msg_def apply_result_def Let_def
  by (auto split: runner_payload.splits option.splits sum.splits prod.splits
      intro: no_new_update no_new_fail no_new_trans [OF no_new_sel(3) no_new_deliver] simp: add_chunk_sel(1))

lemma no_new_begin: "no_new_runs h (snd (upstream_begin c nid m h))"
  by (auto simp: upstream_begin_def split: option.splits runner_payload.splits)

lemma no_new_commit: "no_new_runs h (upstream_commit c nid m dup h)"
  by (auto simp: upstream_commit_def Let_def split: option.splits intro: no_new_trans [OF no_new_sel(1,2)])

lemma no_new_upstream: "no_new_runs h (snd (handle_upstream st c nid m h))"
proof -
  obtain r h1 where b: "upstream_begin c nid m h = (r, h1)" by (cases "upstream_begin c nid m h")
  obtain e h2 where a: "apply_msg st nid (rm_payload m) h1 = (e, h2)"
    by (cases "apply_msg st nid (rm_payload m) h1")
  have "no_new_runs h h1" "no_new_runs h1 h2"
    using no_new_begin [of h c nid m] no_new_apply [of h1 st nid "rm_payload m"] a b by simp_all
  then show ?thesis
    using a b no_new_commit by (cases r; cases e) (auto simp: handle_upstream_def
        intro: no_new_trans [OF _ no_new_commit] no_new_trans)
qed

lemma no_new_write: "no_new_runs h (snd (conn_write c nid sent h))"
  by (auto simp: conn_write_def Let_def split: option.splits)

lemma no_new_detach: "no_new_runs h (hub_detach c nid h)"
  by (auto simp: hub_detach_def Let_def split: option.splits intro: no_new_trans [OF no_new_sel(2,1)])

lemma no_new_cancel: "no_new_runs h (snd (hub_cancel allowed h nid rid))"
  by (auto simp: hub_cancel_def split: option.splits)

lemma no_new_accept: "no_new_runs h (snd (hub_accept allowed c nid h))"
  by (auto simp: hub_accept_def)

lemma settled_no_new: "settled F n rid h \<Longrightarrow> no_new_runs h h' \<Longrightarrow> F \<subseteq> F' \<Longrightarrow> settled F' n rid h'"
  by (auto simp: settled_def no_new_runs_def)

lemma store_same:
  "h_store (lose_runs nid known h) = h_store h" "h_store (hub_stop h) = h_store h"
  "h_store (hub_detach c nid h) = h_store h" "h_store (snd (hub_cancel allowed h nid rid)) = h_store h"
  "h_store (snd (conn_write c nid sent h)) = h_store h"
  "h_store (snd (hub_accept allowed c nid h)) = h_store h"
  "h_store (snd (upstream_begin c nid m h)) = h_store h"
  "h_store (upstream_commit c nid m dup h) = h_store h"
  "h_store (snd (hub_register st proto allowed c nid reg h)) = h_store h"
  by (simp_all add: lose_runs_alt hub_stop_alt hub_detach_def hub_cancel_def conn_write_def
      hub_accept_def upstream_begin_def upstream_commit_def hub_register_def register_locked_def Let_def
      split: option.splits runner_payload.splits)

context finalized_store
begin

lemma apply_store_mono: "fin (h_store h) \<subseteq> fin (h_store (snd (apply_msg st nid p h)))"
  using mark_mono
  by (fastforce simp: apply_msg_def apply_result_def Let_def
      split: runner_payload.splits option.splits sum.splits prod.splits)

lemma upstream_store_mono: "fin (h_store h) \<subseteq> fin (h_store (snd (handle_upstream st c nid m h)))"
proof -
  obtain r h1 where b: "upstream_begin c nid m h = (r, h1)" by (cases "upstream_begin c nid m h")
  obtain e h2 where a: "apply_msg st nid (rm_payload m) h1 = (e, h2)"
    by (cases "apply_msg st nid (rm_payload m) h1")
  have "h_store h1 = h_store h" "fin (h_store h1) \<subseteq> fin (h_store h2)"
    using store_same(7) [of c nid m h] apply_store_mono [of h1 nid "rm_payload m"] a b by simp_all
  then show ?thesis
    using a b by (cases r; cases e) (auto simp: handle_upstream_def store_same)
qed

lemma settled_dispatch:
  assumes "settled (fin (h_store h)) n rid h"
  shows "settled (fin (h_store (snd (dispatch st sz allowed h nid sr)))) n rid
           (snd (dispatch st sz allowed h nid sr))"
proof (cases "sr_run sr = rid")
  case True
  then have "dispatch_check st sz h sr \<noteq> None"
    using assms is_sound [of "h_store h" rid False] by (auto simp: dispatch_check_def settled_def split: option.splits bool.splits)
  with assms show ?thesis by (auto simp: dispatch_def)
next
  case False
  with assms show ?thesis
    by (auto simp: dispatch_def dispatch_locked_def Let_def settled_def alist_simps nth_append less_Suc_eq
        split: option.splits)
qed

lemma settled_call:
  "settled (fin (h_store h)) n rid h \<Longrightarrow>
   settled (fin (h_store (do_call st sz proto c h))) n rid (do_call st sz proto c h)"
  by (cases c)
    (simp_all add: settled_dispatch settled_no_new [OF _ no_new_accept] settled_no_new [OF _ no_new_register]
      settled_no_new [OF _ no_new_upstream] settled_no_new [OF _ no_new_write] settled_no_new [OF _ no_new_detach]
      settled_no_new [OF _ no_new_cancel] settled_no_new [OF _ no_new_stop] store_same upstream_store_mono)

lemma settled_calls:
  "settled (fin (h_store h)) n rid h \<Longrightarrow>
   settled (fin (h_store (fold (do_call st sz proto) cs h))) n rid (fold (do_call st sz proto) cs h)"
  by (induction cs arbitrary: h) (auto intro: settled_call)

lemma result_settles:
  assumes "hub_wf h" "apply_result st nid res h = (None, h1)"
    and "\<And>a. map_of (h_runs h) (rr_run res) = Some a \<Longrightarrow> ru_node (h_heap h ! a) = nid"
  shows "settled (fin (h_store h1)) (length (h_heap h1)) (rr_run res) h1"
  using apply_result_done [OF assms(1,2)] assms(2,3) by (auto simp: settled_def apply_result_def)

end

text \<open>
  A run id is finalized at most once: once the owner's result was applied, no later sequence
  of calls (dispatches of the same id, replayed results, registrations, reconnects) tracks that
  id again, creates another handle for it or forgets that it is finalized.
\<close>

lemma finalized_once:
  assumes "hub_wf h" "apply_result db_store nid res h = (None, h1)"
    and "active_run h (rr_run res) nid \<noteq> None"
  shows "let h2 = fold (do_call db_store sz proto) cs h1 in
    rr_run res \<in> set (db_rows (h_store h2)) \<and> map_of (h_runs h2) (rr_run res) = None
    \<and> (\<forall>a < length (h_heap h2). length (h_heap h1) \<le> a \<longrightarrow> ru_id (h_heap h2 ! a) \<noteq> rr_run res)"
proof -
  have "settled (set (db_rows (h_store h1))) (length (h_heap h1)) (rr_run res) h1"
    by (rule db.result_settles [OF assms(1,2)])
      (use assms(3) in \<open>auto simp: active_run_def Let_def split: if_splits\<close>)
  from db.settled_calls [OF this, of sz proto cs] show ?thesis
    by (simp add: settled_def Let_def)
qed

section \<open>Registration\<close>

lemma queued_cancels_enqueue [simp]:
  "queued_cancels (node_enqueue (BmCancelRun i) n) = queued_cancels n @ [i]"
  by (simp add: queued_cancels_def node_enqueue_def List.map_filter_def)

lemma cancel_untracked_cancels:
  "set q = set (queued_cancels n) \<Longrightarrow>
   set (queued_cancels (cancel_untracked tr fin q refs n)) =
     set (queued_cancels n) \<union> {i \<in> ref_run ` set refs. i \<noteq> [] \<and> i \<notin> set tr \<and> i \<notin> set fin}"
proof (induction tr fin q refs n rule: cancel_untracked.induct)
  case (2 tr fin q r rs n)
  show ?case
  proof (cases "ref_run r \<in> set tr \<or> ref_run r \<in> set fin \<or> ref_run r \<in> set q \<or> ref_run r = []")
    case True
    with 2 show ?thesis by (auto simp: Let_def)
  next
    case False
    with 2 show ?thesis by (auto simp: Let_def)
  qed
qed simp

lemma cancel_untracked_sel:
  "nd_conn (cancel_untracked tr fin q refs n) = nd_conn n \<and>
   nd_online (cancel_untracked tr fin q refs n) = nd_online n \<and>
   nd_high (cancel_untracked tr fin q refs n) = nd_high n \<and>
   nd_id (cancel_untracked tr fin q refs n) = nd_id n"
  by (induction tr fin q refs n rule: cancel_untracked.induct) (simp_all add: Let_def node_enqueue_def)

lemma rebind_sel [simp]:
  "nd_conn (rebind_node h c reg n) = Some c" "nd_online (rebind_node h c reg n)"
  "nd_id (rebind_node h c reg n) = nd_id n"
  by (simp_all add: rebind_node_def Let_def node_trim_def)

lemma lose_runs_map:
  "hub_wf h \<Longrightarrow>
   map_of (h_runs (lose_runs nid known h)) r =
     (case map_of (h_runs h) r of None \<Rightarrow> None
      | Some a \<Rightarrow> if ru_node (h_heap h ! a) = nid \<and> r \<notin> set known then None else Some a)"
  using hub_wfD(1) [of h]
  by (auto simp: lose_runs_alt map_of_filter_wf lost_entry_def split: option.splits)

lemma lose_runs_heap:
  assumes "hub_wf h" "map_of (h_runs h) r = Some a"
  shows "h_heap (lose_runs nid known h) ! a =
    (if ru_node (h_heap h ! a) = nid \<and> r \<notin> set known
     then finish_run None (Some RunLost) (h_heap h ! a) else h_heap h ! a)"
proof -
  have "a \<in> snd ` set (filter (lost_entry h nid known) (h_runs h)) \<longleftrightarrow> lost_entry h nid known (r, a)"
  proof
    assume "a \<in> snd ` set (filter (lost_entry h nid known) (h_runs h))"
    then obtain r' where r': "(r', a) \<in> set (h_runs h)" "lost_entry h nid known (r', a)" by auto
    then have "map_of (h_runs h) r' = Some a" using hub_wfD(1) [OF assms(1)] by (simp add: alist_wf_def)
    then have "r' = r" using runs_inj [OF assms(1) _ assms(2)] by blast
    with r' show "lost_entry h nid known (r, a)" by simp
  next
    assume "lost_entry h nid known (r, a)"
    then show "a \<in> snd ` set (filter (lost_entry h nid known) (h_runs h))"
      using map_of_SomeD [OF assms(2)] by (force intro: image_eqI [of _ _ "(r, a)"])
  qed
  then show ?thesis
    using finish_all_heap [OF hub_wfD(5) [OF assms]]
    by (simp add: lose_runs_alt lost_entry_def)
qed

text \<open>
  What an accepted registration does to the runs of the node: exactly the runs the runner
  neither executes, nor still has a result for, nor is yet to receive are lost, and end with
  \<open>ErrRunLost\<close>; every other run of any node keeps its handle untouched; and exactly the runs the
  runner executes that the hub neither tracks nor knows as finalized get a cancellation queued
  (besides those that were queued).
\<close>

lemma register_effect:
  assumes "hub_wf h" "rs_accepted (fst (hub_register st proto allowed c nid reg h))"
  shows "let h' = snd (hub_register st proto allowed c nid reg h);
             n1 = rebind_node h c reg (node_locked h nid);
             lost = (\<lambda>r a. ru_node (h_heap h ! a) = nid \<and> r \<notin> set (known_runs reg n1))
    in (\<forall>r. map_of (h_runs h') r = (case map_of (h_runs h) r of None \<Rightarrow> None
            | Some a \<Rightarrow> if lost r a then None else Some a))
     \<and> (\<forall>(r, a) \<in> set (h_runs h). h_heap h' ! a =
            (if lost r a then finish_run None (Some RunLost) (h_heap h ! a) else h_heap h ! a))
     \<and> (case node_of h' nid of None \<Rightarrow> False
        | Some n \<Rightarrow> nd_online n \<and> nd_conn n = Some c \<and>
            set (queued_cancels n) = set (queued_cancels n1) \<union>
              {i \<in> ref_run ` set (rg_active reg). i \<noteq> [] \<and> map_of (h_runs h) i = None \<and>
                 so_is st (h_store h) i = Some False})"
proof -
  define n1 where "n1 = rebind_node h c reg (node_locked h nid)"
  define h1 where "h1 = lose_runs nid (known_runs reg n1) h"
  define n2 where "n2 = cancel_untracked (map fst (h_runs h1)) (finalized_refs st h (rg_active reg))
      (queued_cancels n1) (rg_active reg) n1"
  have h': "snd (hub_register st proto allowed c nid reg h) = put_node n2 h1"
    using assms(2) by (simp add: hub_register_def register_locked_def register_reject_def Let_def
        n1_def h1_def n2_def split: if_splits)
  have id: "nd_id n2 = nid"
    using node_locked_ok [OF assms(1)] cancel_untracked_sel by (simp add: n2_def n1_def)
  have mem: "map_of (h_runs h) r = Some a" if "(r, a) \<in> set (h_runs h)" for r a
    using that hub_wfD(1) [OF assms(1)] by (simp add: alist_wf_def)
  have tracked: "i \<in> set (map fst (h_runs h1)) \<longleftrightarrow> map_of (h_runs h) i \<noteq> None"
    if "i \<in> ref_run ` set (rg_active reg)" for i
  proof -
    have "i \<in> set (known_runs reg n1)" using that by (auto simp: known_runs_def)
    then show ?thesis
      using lose_runs_map [OF assms(1), of nid "known_runs reg n1" i]
      unfolding set_keys_dom h1_def by (simp split: option.splits)
  qed
  have final: "i \<in> set (finalized_refs st h (rg_active reg)) \<longleftrightarrow> so_is st (h_store h) i \<noteq> Some False"
    if "i \<in> ref_run ` set (rg_active reg)" for i
    using that by (auto simp: finalized_refs_def)
  have "set (queued_cancels n2) = set (queued_cancels n1) \<union>
      {i \<in> ref_run ` set (rg_active reg). i \<noteq> [] \<and> map_of (h_runs h) i = None \<and>
         so_is st (h_store h) i = Some False}"
    unfolding n2_def cancel_untracked_cancels [OF refl]
    using tracked final by blast
  moreover have "nd_conn n2 = Some c" "nd_online n2"
    using cancel_untracked_sel by (simp_all add: n2_def n1_def)
  ultimately show ?thesis
    unfolding h' Let_def n1_def [symmetric]
    using id lose_runs_map [OF assms(1), of nid "known_runs reg n1"]
      lose_runs_heap [OF assms(1) mem, of _ _ nid "known_runs reg n1"]
    by (auto simp: h1_def)
qed

section \<open>Dispatching\<close>

text \<open>
  A dispatch either fails and leaves the hub as it was, or tracks a fresh handle under the
  id of the run, owned by the online, allowed node, and appends its StartRun to that node's
  queue with the next sequence number; the queues of all other nodes stay.
\<close>

lemma dispatch_effect:
  "case dispatch st sz allowed h nid sr of
     (Inl e, h') \<Rightarrow> h' = h
   | (Inr a, h') \<Rightarrow>
       a = length (h_heap h) \<and> h_heap h' = h_heap h @ [new_run (sr_run sr) nid sr]
       \<and> map_of (h_runs h) (sr_run sr) = None
       \<and> map_of (h_runs h') = (map_of (h_runs h))(sr_run sr \<mapsto> a)
       \<and> sr_run sr \<noteq> [] \<and> length (sr_prompt sr) \<le> max_prompt_size
       \<and> so_is st (h_store h) (sr_run sr) = Some False \<and> \<not> h_closed h \<and> allowed nid
       \<and> (case node_of h nid of None \<Rightarrow> False
          | Some n \<Rightarrow> nd_online n \<and> node_of h' (nd_id n) = Some (n\<lparr>nd_next := nd_next n + 1,
              nd_queue := nd_queue n @ [\<lparr>bm_seq = nd_next n + 1, bm_payload = BmStartRun sr\<rparr>]\<rparr>)
              \<and> (\<forall>i. i = nd_id n \<or> node_of h' i = node_of h i))"
proof (cases "dispatch_check st sz h sr")
  case None
  then have ok: "sr_run sr \<noteq> []" "length (sr_prompt sr) \<le> max_prompt_size"
      "so_is st (h_store h) (sr_run sr) = Some False"
    by (auto simp: dispatch_check_def split: if_splits option.splits bool.splits)
  obtain r h' where d: "dispatch_locked allowed h nid sr = (r, h')" by (cases "dispatch_locked allowed h nid sr")
  then have "dispatch st sz allowed h nid sr = (r, h')" using None by (simp add: dispatch_def)
  moreover have "node_of (h\<lparr>h_heap := x, h_runs := y\<rparr>) = node_of h" for x y
    by (simp add: node_of_def fun_eq_iff)
  ultimately show ?thesis
    using d ok
    by (auto simp: dispatch_locked_def Let_def node_enqueue_def fun_eq_iff alist_simps
        split: sum.splits option.splits if_splits)
qed (simp add: dispatch_def)

section \<open>Bounded texts\<close>

lemma back_to_start_le: "back_to_start s m \<le> m"
  by (induction m) auto

lemma back_to_start_rune: "back_to_start s m = 0 \<or> rune_start (s ! back_to_start s m)"
  by (induction m) auto

lemma back_to_start_max: "k \<le> m \<Longrightarrow> rune_start (s ! k) \<Longrightarrow> k \<le> back_to_start s m"
  by (induction m) (auto simp: le_Suc_eq)

text \<open>
  Truncation is the longest prefix within the limit that ends between two runes: nothing
  is cut when the text fits, the flag says whether it was cut, and no longer prefix ends at a
  rune boundary.
\<close>

lemma truncate_at_longest:
  "let (t, cut) = truncate_at s limit in
   t = take (length t) s \<and> length t \<le> limit \<and> cut = (length s > limit)
   \<and> (if cut then length t = 0 \<or> rune_start (s ! length t) else t = s)
   \<and> (\<forall>k \<in> {length t<..limit}. k < length s \<longrightarrow> cut \<and> \<not> rune_start (s ! k))"
proof (cases "length s \<le> limit")
  case True
  then show ?thesis by (simp add: truncate_at_def)
next
  case False
  then have "length (take (back_to_start s limit) s) = back_to_start s limit"
    using back_to_start_le [of s limit] by simp
  moreover have "\<not> rune_start (s ! k)" if "back_to_start s limit < k" "k \<le> limit" for k
    using back_to_start_max [of k limit s] that by linarith
  ultimately show ?thesis
    using False back_to_start_le [of s limit] back_to_start_rune [of s limit]
    by (auto simp: truncate_at_def)
qed

end
