(* ===== verification/RunnerClient.thy ===== *)
theory RunnerClient
  imports RunnerProto
begin

text \<open>
  The runner side of the connection (\<open>runner/lib/conn/client.go\<close>, \<open>runner/lib/runs/table.go\<close>): the
  table of executing runs, the bounded queue of unacknowledged upstream messages, heartbeats, the
  registration it sends, the handling of downstream messages and the serial executor of each run.
  \<open>psize\<close> (\<open>proto.Size\<close>) and \<open>enc\<close> (whether \<open>proto.Marshal\<close> succeeds) belong to the protobuf
  library and are arguments. A sender that has to wait is a result of its own; \<open>cl_space\<close> counts
  how often the channel it waits on was closed.
\<close>

section \<open>The table of runs (table.go)\<close>

type_synonym run_table = "(string \<times> run_ref) list"

definition table_begin :: "run_ref \<Rightarrow> run_table \<Rightarrow> bool \<times> run_table" where
  "table_begin ref t =
     (if map_of t (ref_run ref) \<noteq> None then (False, t)
      else (True, AList.update (ref_run ref) ref t))"

definition table_end :: "string \<Rightarrow> run_table \<Rightarrow> run_table" where
  "table_end rid t = AList.delete rid t"

definition table_len :: "run_table \<Rightarrow> nat" where
  "table_len t = length t"

definition table_active :: "run_table \<Rightarrow> run_ref list" where
  "table_active t = sort_key ref_run (map snd t)"

section \<open>The client\<close>

datatype exec_call = ExecStart start_run | ExecCancel string

record client =
  cl_node :: string
  cl_version :: string
  cl_boot :: string
  cl_max_runs :: u32
  cl_max_queued :: nat
  cl_max_bytes :: int
  cl_queue :: "runner_msg list"
  cl_bytes :: int
  cl_next :: u64
  cl_space :: nat
  cl_last_backend :: u64
  cl_backend_boot :: string
  cl_ack_dirty :: bool
  cl_attached :: bool
  cl_runs :: run_table
  cl_workers :: "(string \<times> exec_call list) list"

definition default_max_queued :: nat where "default_max_queued = 4096"
definition default_max_queued_bytes :: int where "default_max_queued_bytes = 64 * 2 ^ 20"
definition max_output_chunk_size :: nat where "max_output_chunk_size = 2 ^ 20"
definition max_upstream_message_size :: nat where "max_upstream_message_size = 12 * 2 ^ 20"

text \<open>\<open>New\<close>: a limit that is not positive gets its default.\<close>

definition new_client :: "string \<Rightarrow> string \<Rightarrow> string \<Rightarrow> u32 \<Rightarrow> int \<Rightarrow> int \<Rightarrow> client" where
  "new_client nid version boot runs max_queued max_bytes =
     \<lparr>cl_node = nid, cl_version = version, cl_boot = boot, cl_max_runs = runs,
      cl_max_queued = (if max_queued \<le> 0 then default_max_queued else nat max_queued),
      cl_max_bytes = (if max_bytes \<le> 0 then default_max_queued_bytes else max_bytes),
      cl_queue = [], cl_bytes = 0, cl_next = 0, cl_space = 0, cl_last_backend = 0,
      cl_backend_boot = [], cl_ack_dirty = False, cl_attached = False, cl_runs = [],
      cl_workers = []\<rparr>"

section \<open>The upstream queue\<close>

definition append_msg :: "(runner_msg \<Rightarrow> nat) \<Rightarrow> runner_payload \<Rightarrow> client \<Rightarrow> client" where
  "append_msg psize p c =
     (let m = \<lparr>rm_seq = cl_next c + 1, rm_payload = p\<rparr> in
      c\<lparr>cl_next := cl_next c + 1, cl_queue := cl_queue c @ [m],
        cl_bytes := cl_bytes c + int (psize m)\<rparr>)"

definition trim_client :: "(runner_msg \<Rightarrow> nat) \<Rightarrow> u64 \<Rightarrow> client \<Rightarrow> client" where
  "trim_client psize acked c =
     (let gone = takeWhile (\<lambda>m. rm_seq m \<le> acked) (cl_queue c) in
      if gone = [] then c
      else c\<lparr>cl_queue := drop (length gone) (cl_queue c),
             cl_bytes := cl_bytes c - (\<Sum>m\<leftarrow>gone. int (psize m)),
             cl_space := cl_space c + 1\<rparr>)"

datatype enqueue_result = EnqOk | EnqBlocked nat | EnqTooLarge | EnqInvalid

text \<open>One turn of the loop of \<open>enqueue\<close>; a blocked sender comes back after \<open>cl_space\<close> moved.\<close>

definition client_enqueue ::
  "(runner_msg \<Rightarrow> nat) \<Rightarrow> (runner_payload \<Rightarrow> bool) \<Rightarrow> runner_payload \<Rightarrow> client \<Rightarrow> enqueue_result \<times> client" where
  "client_enqueue psize enc p c =
     (let size = psize \<lparr>rm_seq = 0, rm_payload = p\<rparr> in
      if \<not> enc p then (EnqInvalid, c)
      else if size > max_upstream_message_size then (EnqTooLarge, c)
      else if cl_queue c = [] \<or>
              (length (cl_queue c) < cl_max_queued c \<and> cl_bytes c + int size \<le> cl_max_bytes c)
        then (EnqOk, append_msg psize p c)
      else (EnqBlocked (cl_space c), c))"

definition client_event ::
  "(runner_msg \<Rightarrow> nat) \<Rightarrow> (runner_payload \<Rightarrow> bool) \<Rightarrow> run_event \<Rightarrow> client \<Rightarrow> enqueue_result \<times> client" where
  "client_event psize enc ev c = client_enqueue psize enc (RmRunEvent ev) c"

definition client_output ::
  "(runner_msg \<Rightarrow> nat) \<Rightarrow> (runner_payload \<Rightarrow> bool) \<Rightarrow> output_chunk \<Rightarrow> client \<Rightarrow> enqueue_result \<times> client" where
  "client_output psize enc chunk c =
     (if length (oc_data chunk) > max_output_chunk_size then (EnqTooLarge, c)
      else client_enqueue psize enc (RmRunOutput chunk) c)"

text \<open>The run leaves the table only once its result is queued.\<close>

definition client_result ::
  "(runner_msg \<Rightarrow> nat) \<Rightarrow> (runner_payload \<Rightarrow> bool) \<Rightarrow> run_result \<Rightarrow> client \<Rightarrow> enqueue_result \<times> client" where
  "client_result psize enc res c =
     (case client_enqueue psize enc (RmRunResult res) c of
        (EnqOk, c') \<Rightarrow> (EnqOk, c'\<lparr>cl_runs := table_end (rr_run res) (cl_runs c')\<rparr>)
      | (e, c') \<Rightarrow> (e, c'))"

text \<open>
  \<open>sendHeartbeat\<close>: a fresh heartbeat supersedes the queued ones. \<open>quotas\<close> and \<open>health\<close> are what the
  options' callbacks report.
\<close>

definition heartbeat_of :: "string list \<Rightarrow> string \<Rightarrow> client \<Rightarrow> heartbeat" where
  "heartbeat_of quotas health c =
     \<lparr>hb_quotas = quotas, hb_active_runs = of_nat (table_len (cl_runs c)),
      hb_max_runs = cl_max_runs c, hb_health_error = health\<rparr>"

definition send_heartbeat ::
  "(runner_msg \<Rightarrow> nat) \<Rightarrow> (runner_payload \<Rightarrow> bool) \<Rightarrow> string list \<Rightarrow> string \<Rightarrow> client \<Rightarrow> client" where
  "send_heartbeat psize enc quotas health c =
     (let p = RmHeartbeat (heartbeat_of quotas health c) in
      if \<not> enc p \<or> psize \<lparr>rm_seq = 0, rm_payload = p\<rparr> > max_upstream_message_size then c
      else
        let c1 = c\<lparr>cl_queue := filter (\<lambda>m. \<not> is_heartbeat m) (cl_queue c),
                   cl_bytes := cl_bytes c - (\<Sum>m\<leftarrow>filter is_heartbeat (cl_queue c). int (psize m))\<rparr>
        in if length (cl_queue c1) \<ge> cl_max_queued c1 then c1 else append_msg psize p c1)"

section \<open>Registering\<close>

definition completed_refs :: "client \<Rightarrow> run_ref list" where
  "completed_refs c = List.map_filter
     (\<lambda>m. case rm_payload m of
        RmRunResult r \<Rightarrow> Some \<lparr>ref_run = rr_run r, ref_chat = rr_chat r, ref_attempt = rr_attempt r,
                              ref_wf_node = rr_wf_node r, ref_token = rr_token r\<rparr>
      | _ \<Rightarrow> None) (cl_queue c)"

definition build_register :: "u32 \<Rightarrow> (string \<times> string list) list \<Rightarrow> client \<Rightarrow> register" where
  "build_register proto clis c =
     (let completed = completed_refs c; done = map ref_run completed in
      \<lparr>rg_node = cl_node c, rg_version = cl_version c, rg_protocol = proto, rg_clis = clis,
       rg_active = filter (\<lambda>r. ref_run r \<notin> set done) (table_active (cl_runs c)),
       rg_completed = completed, rg_last_acked = cl_last_backend c, rg_boot = cl_boot c,
       rg_seen_backend_boot = cl_backend_boot c\<rparr>)"

text \<open>What \<open>session\<close> makes of the backend's answer.\<close>

datatype handshake = HandshakeOk | HandshakeNotResult | HandshakeRejected | HandshakeProtocol

definition check_register_result :: "u32 \<Rightarrow> backend_msg \<Rightarrow> handshake" where
  "check_register_result proto m =
     (case bm_payload m of
        BmRegisterResult res \<Rightarrow>
          if \<not> rs_accepted res then HandshakeRejected
          else if rs_protocol res \<noteq> proto then HandshakeProtocol
          else HandshakeOk
      | _ \<Rightarrow> HandshakeNotResult)"

definition client_attach :: "(runner_msg \<Rightarrow> nat) \<Rightarrow> register_result \<Rightarrow> client \<Rightarrow> client" where
  "client_attach psize res c =
     (let c1 = (if rs_boot res \<noteq> cl_backend_boot c
                then c\<lparr>cl_backend_boot := rs_boot res, cl_last_backend := 0\<rparr> else c);
          c2 = trim_client psize (rs_last_acked res) c1
      in c2\<lparr>cl_attached := True, cl_ack_dirty := (cl_last_backend c2 > 0)\<rparr>)"

definition client_detach :: "client \<Rightarrow> client" where
  "client_detach c = c\<lparr>cl_attached := False\<rparr>"

text \<open>The reconnect delay after a session: doubled up to the maximum, reset once accepted.\<close>

definition next_delay :: "nat \<Rightarrow> nat \<Rightarrow> bool \<Rightarrow> nat \<Rightarrow> nat" where
  "next_delay lo hi accepted delay = (let d = (if accepted then lo else delay) * 2 in if d > hi then hi else d)"

section \<open>Sending\<close>

text \<open>One round of \<open>writeLoop\<close>: what is sent, and the new \<open>sent\<close> mark.\<close>

definition client_write :: "u64 \<Rightarrow> client \<Rightarrow> (runner_msg list \<times> u64) \<times> client" where
  "client_write sent c =
     (let out = filter (\<lambda>m. rm_seq m > sent) (cl_queue c);
          acks = (if cl_ack_dirty c then [\<lparr>rm_seq = 0, rm_payload = RmAck (cl_last_backend c)\<rparr>] else [])
      in ((out @ acks, if out = [] then sent else rm_seq (last out)), c\<lparr>cl_ack_dirty := False\<rparr>))"

section \<open>Receiving\<close>

text \<open>
  \<open>dispatch\<close>: the call joins the run's worker queue; the worker exists as long as the run has an
  entry. \<open>worker_next\<close> is one turn of the worker: the call it makes next, or its exit.
\<close>

definition client_dispatch :: "string \<Rightarrow> exec_call \<Rightarrow> client \<Rightarrow> client" where
  "client_dispatch rid call c =
     (let pending = (case map_of (cl_workers c) rid of Some q \<Rightarrow> q | None \<Rightarrow> []) in
      c\<lparr>cl_workers := AList.update rid (pending @ [call]) (cl_workers c)\<rparr>)"

definition worker_next :: "string \<Rightarrow> client \<Rightarrow> exec_call option \<times> client" where
  "worker_next rid c =
     (case map_of (cl_workers c) rid of
        Some (call # q) \<Rightarrow> (Some call, c\<lparr>cl_workers := AList.update rid q (cl_workers c)\<rparr>)
      | _ \<Rightarrow> (None, c\<lparr>cl_workers := AList.delete rid (cl_workers c)\<rparr>))"

definition start_ref :: "start_run \<Rightarrow> run_ref" where
  "start_ref sr = \<lparr>ref_run = sr_run sr, ref_chat = sr_chat sr, ref_attempt = sr_attempt sr,
     ref_wf_node = sr_wf_node sr, ref_token = sr_token sr\<rparr>"

definition client_handle :: "backend_msg \<Rightarrow> client \<Rightarrow> client" where
  "client_handle m c =
     (case bm_payload m of
        BmStartRun sr \<Rightarrow>
          (case table_begin (start_ref sr) (cl_runs c) of
             (False, _) \<Rightarrow> c
           | (True, t) \<Rightarrow> client_dispatch (sr_run sr) (ExecStart sr) (c\<lparr>cl_runs := t\<rparr>))
      | BmCancelRun rid \<Rightarrow> client_dispatch rid (ExecCancel rid) c
      | _ \<Rightarrow> c)"

text \<open>One turn of \<open>readLoop\<close>; False ends the session. It is the only reader of the stream.\<close>

definition client_read :: "(runner_msg \<Rightarrow> nat) \<Rightarrow> backend_msg \<Rightarrow> client \<Rightarrow> bool \<times> client" where
  "client_read psize m c =
     (case bm_payload m of
        BmAck a \<Rightarrow> (True, trim_client psize a c)
      | BmRegisterResult _ \<Rightarrow> (False, c)
      | _ \<Rightarrow>
          if bm_seq m = 0 then (False, c)
          else
            let dup = bm_seq m \<le> cl_last_backend c;
                c1 = (if dup then c else client_handle m c);
                c2 = (if dup then c1 else c1\<lparr>cl_last_backend := bm_seq m\<rparr>)
            in (True, c2\<lparr>cl_ack_dirty := True\<rparr>))"

end
