(* ===== verification/RunnerClientProps.thy ===== *)
theory RunnerClientProps
  imports RunnerClient
begin

text \<open>
  The client's invariant (queue numbering, byte accounting, bounds, at most one heartbeat), that
  messages only leave the queue when acknowledged or superseded, and the order of executor calls.
\<close>

interpretation cliq: outbox cl_queue cl_next rm_seq "\<lambda>p s. \<lparr>rm_seq = s, rm_payload = p\<rparr>"
    "append_msg psize" "trim_client psize" for psize
  by unfold_locales
    (auto simp: append_msg_def trim_client_def Let_def takeWhile_eq_Nil_iff dropWhile_eq_self_iff [THEN iffD2]
      dropWhile_eq_drop [symmetric])

section \<open>The invariant\<close>

definition plain_payload :: "runner_payload \<Rightarrow> bool" where
  "plain_payload p = (case p of RmRegister _ \<Rightarrow> False | RmAck _ \<Rightarrow> False | _ \<Rightarrow> True)"

definition client_ok :: "(runner_msg \<Rightarrow> nat) \<Rightarrow> client \<Rightarrow> bool" where
  "client_ok psize c \<longleftrightarrow> seqs_ok (cl_next c) (map rm_seq (cl_queue c))
     \<and> cl_bytes c = (\<Sum>m\<leftarrow>cl_queue c. int (psize m))
     \<and> 0 < cl_max_queued c \<and> length (cl_queue c) \<le> cl_max_queued c
     \<and> length (filter is_heartbeat (cl_queue c)) \<le> 1
     \<and> alist_wf (cl_runs c) \<and> (\<forall>(k, r) \<in> set (cl_runs c). ref_run r = k)
     \<and> alist_wf (cl_workers c) \<and> (\<forall>m \<in> set (cl_queue c). plain_payload (rm_payload m))"

lemma client_okD:
  assumes "client_ok psize c"
  shows "cliq.queue_ok c" "cl_bytes c = (\<Sum>m\<leftarrow>cl_queue c. int (psize m))" "0 < cl_max_queued c"
    "length (cl_queue c) \<le> cl_max_queued c" "length (filter is_heartbeat (cl_queue c)) \<le> 1"
    "alist_wf (cl_runs c)" "map_of (cl_runs c) k = Some r \<Longrightarrow> ref_run r = k" "alist_wf (cl_workers c)"
  using assms by (auto simp: client_ok_def cliq.queue_ok_def dest: map_of_SomeD)

lemma new_client_ok: "client_ok psize (new_client nid v b runs mq mb)"
  by (simp add: client_ok_def new_client_def default_max_queued_def)

lemma is_heartbeat_simps [simp]:
  "is_heartbeat \<lparr>rm_seq = s, rm_payload = RmHeartbeat hb\<rparr>"
  "\<not> is_heartbeat \<lparr>rm_seq = s, rm_payload = RmRunEvent ev\<rparr>"
  "\<not> is_heartbeat \<lparr>rm_seq = s, rm_payload = RmRunOutput oc\<rparr>"
  "\<not> is_heartbeat \<lparr>rm_seq = s, rm_payload = RmRunResult rr\<rparr>"
  by (simp_all add: is_heartbeat_def)

lemma append_ok:
  assumes "client_ok psize c" "cl_next c \<noteq> - 1" "length (cl_queue c) < cl_max_queued c" "plain_payload p"
    and "is_heartbeat \<lparr>rm_seq = 0, rm_payload = p\<rparr> \<Longrightarrow> filter is_heartbeat (cl_queue c) = []"
  shows "client_ok psize (append_msg psize p c)"
proof -
  let ?m = "\<lparr>rm_seq = cl_next c + 1, rm_payload = p\<rparr>"
  have "is_heartbeat ?m = is_heartbeat \<lparr>rm_seq = 0, rm_payload = p\<rparr>"
    by (simp add: is_heartbeat_def)
  then have "length (filter is_heartbeat (cl_queue c @ [?m])) \<le> 1"
    using assms(1,5) by (cases "is_heartbeat ?m") (simp_all add: client_ok_def)
  moreover have "seqs_ok (cl_next c + 1) (map rm_seq (cl_queue c @ [?m]))"
    using assms(1,2) seqs_ok_snoc by (simp add: client_ok_def)
  ultimately show ?thesis
    using assms(1,3,4) by (simp add: client_ok_def append_msg_def Let_def)
qed

lemma sum_list_takeWhile_drop:
  "(\<Sum>m\<leftarrow>xs. f m) = (\<Sum>m\<leftarrow>takeWhile P xs. f m) + (\<Sum>m\<leftarrow>dropWhile P xs. (f m :: int))"
  by (induction xs) auto

lemma trim_queue: "cl_queue (trim_client psize a c) = dropWhile (\<lambda>m. rm_seq m \<le> a) (cl_queue c)"
  by (rule cliq.trim_msgs)

lemma trim_bytes:
  "cl_bytes (trim_client psize a c) =
     cl_bytes c - (\<Sum>m\<leftarrow>takeWhile (\<lambda>m. rm_seq m \<le> a) (cl_queue c). int (psize m))"
  by (auto simp: trim_client_def Let_def)

lemma trim_sel [simp]:
  "cl_next (trim_client psize a c) = cl_next c" "cl_max_queued (trim_client psize a c) = cl_max_queued c"
  "cl_runs (trim_client psize a c) = cl_runs c" "cl_workers (trim_client psize a c) = cl_workers c"
  "cl_last_backend (trim_client psize a c) = cl_last_backend c"
  "cl_max_bytes (trim_client psize a c) = cl_max_bytes c"
  "cl_boot (trim_client psize a c) = cl_boot c" "cl_node (trim_client psize a c) = cl_node c"
  "cl_backend_boot (trim_client psize a c) = cl_backend_boot c"
  by (simp_all add: trim_client_def Let_def)

lemma dropWhile_shorter: "length (dropWhile P xs) \<le> length xs" "length (filter Q (dropWhile P xs)) \<le> length (filter Q xs)"
  by (induction xs) auto

lemma trim_ok: "client_ok psize c \<Longrightarrow> client_ok psize (trim_client psize a c)"
  using cliq.queue_ok_trim [of c psize a] dropWhile_shorter(1) [of "\<lambda>m. rm_seq m \<le> a" "cl_queue c"]
    dropWhile_shorter(2) [of is_heartbeat "\<lambda>m. rm_seq m \<le> a" "cl_queue c"]
    sum_list_takeWhile_drop [of "\<lambda>m. int (psize m)" "cl_queue c" "\<lambda>m. rm_seq m \<le> a"]
  by (auto simp: client_ok_def cliq.queue_ok_def trim_queue trim_bytes dest: set_dropWhileD)

lemma enqueue_cases:
  obtains (ok) "client_enqueue psize enc p c = (EnqOk, append_msg psize p c)" "enc p"
      "cl_queue c = [] \<or> length (cl_queue c) < cl_max_queued c"
  | (refused) e where "client_enqueue psize enc p c = (e, c)" "e \<noteq> EnqOk"
proof -
  obtain e c' where r: "client_enqueue psize enc p c = (e, c')" by (cases "client_enqueue psize enc p c")
  have "c' = append_msg psize p c \<and> enc p \<and> (cl_queue c = [] \<or> length (cl_queue c) < cl_max_queued c)"
    if "e = EnqOk"
    using r that by (auto simp: client_enqueue_def Let_def split: if_splits)
  moreover have "c' = c" if "e \<noteq> EnqOk"
    using r that by (auto simp: client_enqueue_def Let_def split: if_splits)
  ultimately show thesis using r ok refused by (cases "e = EnqOk") auto
qed

lemma enqueue_ok:
  assumes "client_ok psize c" "cl_next c \<noteq> - 1" "\<not> is_heartbeat \<lparr>rm_seq = 0, rm_payload = p\<rparr>"
    "plain_payload p"
  shows "client_ok psize (snd (client_enqueue psize enc p c))"
proof (cases rule: enqueue_cases [of psize enc p c])
  case ok
  then have "length (cl_queue c) < cl_max_queued c" using client_okD(3) [OF assms(1)] by auto
  with ok assms show ?thesis by (auto intro!: append_ok)
qed (use assms in simp)

lemma table_end_ok: "client_ok psize c \<Longrightarrow> client_ok psize (c\<lparr>cl_runs := table_end r (cl_runs c)\<rparr>)"
  by (auto simp: client_ok_def table_end_def AList.delete_eq alist_wf_filter)

lemma client_result_ok:
  assumes "client_ok psize c" "cl_next c \<noteq> - 1"
  shows "client_ok psize (snd (client_result psize enc res c))"
  using enqueue_ok [OF assms, of "RmRunResult res" enc]
  by (auto simp: client_result_def plain_payload_def split: prod.splits enqueue_result.splits intro: table_end_ok)

lemma sum_list_filter_split:
  "(\<Sum>m\<leftarrow>xs. f m) = (\<Sum>m\<leftarrow>filter P xs. f m) + (\<Sum>m\<leftarrow>filter (\<lambda>m. \<not> P m) xs. (f m :: int))"
  by (induction xs) auto

lemma heartbeat_ok:
  assumes "client_ok psize c" "cl_next c \<noteq> - 1"
  shows "client_ok psize (send_heartbeat psize enc q hl c)"
proof -
  let ?c1 = "c\<lparr>cl_queue := filter (\<lambda>m. \<not> is_heartbeat m) (cl_queue c),
      cl_bytes := cl_bytes c - (\<Sum>m\<leftarrow>filter is_heartbeat (cl_queue c). int (psize m))\<rparr>"
  have "seqs_ok (cl_next c) (map rm_seq (filter (\<lambda>m. \<not> is_heartbeat m) (cl_queue c)))"
    using assms(1) by (auto simp: client_ok_def elim!: seqs_ok_subseq intro: subseq_map subseq_filter_left)
  then have "client_ok psize ?c1"
    using assms(1) sum_list_filter_split [of "\<lambda>m. int (psize m)" "cl_queue c" is_heartbeat]
      le_trans [OF length_filter_le, of "cl_queue c" "cl_max_queued c"]
    by (simp add: client_ok_def)
  then show ?thesis
    using assms by (auto simp: send_heartbeat_def Let_def plain_payload_def intro!: append_ok)
qed

lemma attach_ok: "client_ok psize c \<Longrightarrow> client_ok psize (client_attach psize res c)"
proof -
  assume ok: "client_ok psize c"
  let ?c1 = "if rs_boot res \<noteq> cl_backend_boot c
    then c\<lparr>cl_backend_boot := rs_boot res, cl_last_backend := 0\<rparr> else c"
  have "client_ok psize (trim_client psize (rs_last_acked res) ?c1)"
    using ok by (intro trim_ok) (simp add: client_ok_def)
  then show ?thesis unfolding client_attach_def Let_def by (simp add: client_ok_def)
qed

lemma dispatch_ok: "client_ok psize c \<Longrightarrow> client_ok psize (client_dispatch rid call c)"
  by (simp add: client_dispatch_def Let_def client_ok_def alist_wf_update)

lemma worker_ok: "client_ok psize c \<Longrightarrow> client_ok psize (snd (worker_next rid c))"
  by (auto simp: worker_next_def client_ok_def alist_wf_update alist_wf_delete split: option.splits list.splits)

lemma begin_ok:
  assumes "client_ok psize c" "table_begin ref (cl_runs c) = (b, t)"
  shows "client_ok psize (c\<lparr>cl_runs := t\<rparr>)"
proof -
  have "\<forall>(k, r) \<in> set (AList.update (ref_run ref) ref (cl_runs c)). ref_run r = k"
    if "\<forall>(k, r) \<in> set (cl_runs c). ref_run r = k"
    using that set_alist_update [of "ref_run ref" ref "cl_runs c"] by fastforce
  with assms show ?thesis
    by (auto simp: table_begin_def client_ok_def alist_wf_update split: if_splits)
qed

lemma handle_ok:
  assumes "client_ok psize c"
  shows "client_ok psize (client_handle m c)"
proof (cases "bm_payload m")
  case (BmStartRun sr)
  obtain b t where t: "table_begin (start_ref sr) (cl_runs c) = (b, t)"
    by (cases "table_begin (start_ref sr) (cl_runs c)")
  with begin_ok [OF assms t] assms BmStartRun show ?thesis
    by (cases b) (simp_all add: client_handle_def dispatch_ok)
qed (use assms in \<open>simp_all add: client_handle_def dispatch_ok\<close>)

lemma read_ok: "client_ok psize c \<Longrightarrow> client_ok psize (snd (client_read psize m c))"
proof -
  assume ok: "client_ok psize c"
  have upd: "client_ok psize (x\<lparr>cl_last_backend := a, cl_ack_dirty := d\<rparr>)"
    "client_ok psize (x\<lparr>cl_ack_dirty := d\<rparr>)" if "client_ok psize x" for x a d
    using that by (simp_all add: client_ok_def)
  show ?thesis
    using ok by (auto simp: client_read_def Let_def upd trim_ok handle_ok split: backend_payload.splits)
qed

section \<open>Calls on the client\<close>

datatype client_call =
    CcEvent run_event | CcOutput output_chunk | CcResult run_result
  | CcHeartbeat "string list" string | CcAttach register_result | CcDetach
  | CcWrite u64 | CcRead backend_msg | CcWorker string

fun do_client :: "(runner_msg \<Rightarrow> nat) \<Rightarrow> (runner_payload \<Rightarrow> bool) \<Rightarrow> client_call \<Rightarrow> client \<Rightarrow> client" where
  "do_client psize enc (CcEvent ev) c = snd (client_event psize enc ev c)"
| "do_client psize enc (CcOutput oc) c = snd (client_output psize enc oc c)"
| "do_client psize enc (CcResult rr) c = snd (client_result psize enc rr c)"
| "do_client psize enc (CcHeartbeat q hl) c = send_heartbeat psize enc q hl c"
| "do_client psize enc (CcAttach res) c = client_attach psize res c"
| "do_client psize enc CcDetach c = client_detach c"
| "do_client psize enc (CcWrite sent) c = snd (client_write sent c)"
| "do_client psize enc (CcRead m) c = snd (client_read psize m c)"
| "do_client psize enc (CcWorker rid) c = snd (worker_next rid c)"

lemma call_ok:
  assumes "client_ok psize c" "cl_next c \<noteq> - 1"
  shows "client_ok psize (do_client psize enc call c)"
  using assms
  by (cases call)
    (auto simp: client_event_def client_output_def client_detach_def client_write_def Let_def enqueue_ok plain_payload_def
      client_result_ok heartbeat_ok attach_ok read_ok worker_ok,
     simp_all add: client_ok_def)

text \<open>Every call raises the counter by at most one.\<close>

lemma next_append: "cl_next (append_msg psize p c) = cl_next c + 1"
  by (simp add: append_msg_def Let_def)

lemma next_enqueue: "cl_next (snd (client_enqueue psize enc p c)) \<in> {cl_next c, cl_next c + 1}"
  by (cases rule: enqueue_cases [of psize enc p c]) (simp_all add: next_append)

lemma next_handle: "cl_next (client_handle m c) = cl_next c"
  by (auto simp: client_handle_def client_dispatch_def Let_def split: backend_payload.splits prod.splits bool.splits)

lemma next_call: "cl_next (do_client psize enc call c) \<in> {cl_next c, cl_next c + 1}"
proof (cases call)
  case (CcResult rr)
  then show ?thesis
    using next_enqueue [of psize enc "RmRunResult rr" c]
    by (auto simp: client_result_def split: prod.splits enqueue_result.splits)
qed (use next_enqueue [of psize enc _ c] in
   \<open>auto simp: client_event_def client_output_def client_detach_def client_write_def client_attach_def
      client_read_def worker_next_def send_heartbeat_def Let_def next_append next_handle
      split: backend_payload.splits option.splits list.splits\<close>)

lemma calls_ok:
  "client_ok psize c \<Longrightarrow> unat (cl_next c) + length calls < 2 ^ 64 \<Longrightarrow>
   client_ok psize (fold (do_client psize enc) calls c)"
proof (induction calls arbitrary: c)
  case (Cons call calls)
  have n: "cl_next c \<noteq> - 1"
    using Cons.prems(2) by (auto simp: unsigned_minus_1_eq_mask mask_eq_exp_minus_1)
  have "unat (cl_next (do_client psize enc call c)) \<le> Suc (unat (cl_next c))"
    using next_call [of psize enc call c] n by (auto simp: unat_add_1)
  with Cons call_ok [OF Cons.prems(1) n, of enc call] show ?case by simp
qed simp

text \<open>
  The queue accounting never drifts: after any sequence of calls on a new client the byte
  counter is the sum of the sizes of the queued messages, the queue holds at most the configured
  number of messages and at most one heartbeat, and its numbers increase strictly up to the
  counter.
\<close>

lemma client_accounting:
  assumes "length calls < 2 ^ 64"
  shows "let c = fold (do_client psize enc) calls (new_client nid v boot runs mq mb) in
    cl_bytes c = (\<Sum>m\<leftarrow>cl_queue c. int (psize m)) \<and> length (cl_queue c) \<le> cl_max_queued c
    \<and> length (filter is_heartbeat (cl_queue c)) \<le> 1
    \<and> sorted_wrt (<) (map rm_seq (cl_queue c)) \<and> (\<forall>m \<in> set (cl_queue c). rm_seq m \<le> cl_next c)"
  using calls_ok [OF new_client_ok, of nid v boot runs mq mb calls psize enc] assms
  by (simp add: client_ok_def seqs_ok_def new_client_def Let_def)

section \<open>Nothing is lost before it is acknowledged\<close>

text \<open>The acknowledgement a call carries.\<close>

definition acked_by :: "client_call \<Rightarrow> u64 option" where
  "acked_by call = (case call of
     CcAttach res \<Rightarrow> Some (rs_last_acked res)
   | CcRead m \<Rightarrow> (case bm_payload m of BmAck a \<Rightarrow> Some a | _ \<Rightarrow> None)
   | _ \<Rightarrow> None)"

lemma in_dropWhile: "x \<in> set xs \<Longrightarrow> \<not> P x \<Longrightarrow> x \<in> set (dropWhile P xs)"
  by (induction xs) auto

lemma queue_append: "m \<in> set (cl_queue c) \<Longrightarrow> m \<in> set (cl_queue (append_msg psize p c))"
  by (simp add: append_msg_def Let_def)

lemma queue_enqueue: "m \<in> set (cl_queue c) \<Longrightarrow> m \<in> set (cl_queue (snd (client_enqueue psize enc p c)))"
  by (cases rule: enqueue_cases [of psize enc p c]) (simp_all add: queue_append)

lemma queue_handle [simp]: "cl_queue (client_handle m c) = cl_queue c"
  by (auto simp: client_handle_def client_dispatch_def Let_def split: backend_payload.splits prod.splits bool.splits)

lemma queue_call:
  assumes "m \<in> set (cl_queue c)" "\<not> is_heartbeat m"
  shows "m \<in> set (cl_queue (do_client psize enc call c)) \<or> (\<exists>a. acked_by call = Some a \<and> rm_seq m \<le> a)"
proof (cases call)
  case (CcResult rr)
  then show ?thesis
    using queue_enqueue [OF assms(1), of psize enc "RmRunResult rr"]
    by (auto simp: client_result_def split: prod.splits enqueue_result.splits)
next
  case (CcRead b)
  then show ?thesis
    using assms by (auto simp: client_read_def Let_def acked_by_def trim_queue in_dropWhile split: backend_payload.splits)
next
  case (CcAttach res)
  then show ?thesis
    using assms by (auto simp: client_attach_def Let_def acked_by_def trim_queue in_dropWhile)
qed (use assms queue_enqueue [OF assms(1), of psize enc] in
   \<open>auto simp: client_event_def client_output_def client_detach_def client_write_def
      worker_next_def send_heartbeat_def Let_def queue_append split: option.splits list.splits\<close>)

text \<open>
  Once queued, an event, an output chunk or a result stays queued, and is sent again on every
  connection, until the backend acknowledges its number: only heartbeats are ever superseded.
\<close>

lemma queued_until_acked:
  assumes "m \<in> set (cl_queue c)" "\<not> is_heartbeat m"
    and "\<forall>call \<in> set calls. \<forall>a \<in> set_option (acked_by call). a < rm_seq m"
  shows "let c' = fold (do_client psize enc) calls c in
    m \<in> set (cl_queue c') \<and> (rm_seq m > 0 \<longrightarrow> m \<in> set (fst (fst (client_write 0 c'))))"
proof -
  have "m \<in> set (cl_queue (fold (do_client psize enc) calls c))"
    using assms(1,3)
  proof (induction calls arbitrary: c)
    case (Cons call calls)
    have "m \<in> set (cl_queue (do_client psize enc call c))"
      using queue_call [OF Cons.prems(1) assms(2), of psize enc call] Cons.prems(2) by auto
    with Cons show ?case by simp
  qed simp
  then show ?thesis by (simp add: client_write_def Let_def)
qed

end
