(* ===== verification/RunnerLink.thy ===== *)
theory RunnerLink
  imports RunnerHubProps RunnerClientProps
begin

text \<open>
  The two ends together: one hub, one runner and the connections between them, with messages in
  flight, connections that break and are re-established, and restarts of either process. The
  hub's sections and the client's are interleaved freely; wires are first-in first-out.
\<close>

section \<open>The linked system\<close>

datatype phase = Idle | Registering nat register | Replied register_result | Up

text \<open>
  \<open>lk_up\<close> and \<open>lk_down\<close> are the wires of the connection the hub has bound; \<open>lk_live\<close> says whether the
  hub still reads it. \<open>lk_sent_up\<close> and \<open>lk_sent_down\<close> are the \<open>sent\<close> marks of the two writers.
  \<open>lk_log\<close> records the messages other than heartbeats the runner process had queued when it first
  registered with this hub process and has queued since, \<open>lk_applied\<close> what the hub processed of them.
\<close>

record 's link =
  lk_hub :: "'s hub"
  lk_cl :: client
  lk_phase :: phase
  lk_conn :: nat
  lk_live :: bool
  lk_up :: "runner_msg list"
  lk_down :: "backend_msg list"
  lk_sent_up :: u64
  lk_sent_down :: u64
  lk_log :: "runner_msg list"
  lk_applied :: "runner_msg list"

definition local_call :: "client_call \<Rightarrow> bool" where
  "local_call call = (case call of CcAttach _ \<Rightarrow> False | CcDetach \<Rightarrow> False | CcWrite _ \<Rightarrow> False
     | CcRead _ \<Rightarrow> False | _ \<Rightarrow> True)"

definition new_msgs :: "client \<Rightarrow> client \<Rightarrow> runner_msg list" where
  "new_msgs c c' = filter (\<lambda>m. \<not> is_heartbeat m \<and> cl_next c < rm_seq m) (cl_queue c')"

text \<open>The messages a handled message adds to the processed ones.\<close>

definition processed :: "u64 \<Rightarrow> 's hub \<Rightarrow> string \<Rightarrow> runner_msg \<Rightarrow> runner_msg list" where
  "processed old h nid m =
     (if \<not> is_heartbeat m \<and> (case node_of h nid of Some n \<Rightarrow> old < nd_high n | None \<Rightarrow> False) then [m] else [])"

definition high_of :: "'s hub \<Rightarrow> string \<Rightarrow> u64" where
  "high_of h nid = (case node_of h nid of Some n \<Rightarrow> nd_high n | None \<Rightarrow> 0)"

definition boot_of :: "'s hub \<Rightarrow> string \<Rightarrow> string" where
  "boot_of h nid = (case node_of h nid of Some n \<Rightarrow> nd_boot n | None \<Rightarrow> [])"

definition new_link :: "'s hub \<Rightarrow> client \<Rightarrow> 's link" where
  "new_link h c = \<lparr>lk_hub = h, lk_cl = c, lk_phase = Idle, lk_conn = 0, lk_live = False, lk_up = [],
     lk_down = [], lk_sent_up = 0, lk_sent_down = 0, lk_log = [], lk_applied = []\<rparr>"

inductive link_step ::
  "'s store_ops \<Rightarrow> (start_run \<Rightarrow> nat) \<Rightarrow> (runner_msg \<Rightarrow> nat) \<Rightarrow> (runner_payload \<Rightarrow> bool) \<Rightarrow> u32 \<Rightarrow> string
   \<Rightarrow> 's link \<Rightarrow> 's link \<Rightarrow> bool"
  for st sz psize enc proto nid where
  client_local: "local_call call \<Longrightarrow> cl_next (lk_cl l) \<noteq> - 1 \<Longrightarrow> c' = do_client psize enc call (lk_cl l) \<Longrightarrow>
    link_step st sz psize enc proto nid l
      (l\<lparr>lk_cl := c', lk_log := lk_log l @ new_msgs (lk_cl l) c'\<rparr>)"
| client_writes: "lk_phase l = Up \<Longrightarrow> client_write (lk_sent_up l) (lk_cl l) = ((out, sent), c') \<Longrightarrow>
    link_step st sz psize enc proto nid l (l\<lparr>lk_cl := c', lk_up := lk_up l @ out, lk_sent_up := sent\<rparr>)"
| client_connects: "lk_phase l = Idle \<Longrightarrow> map_of (h_conns (lk_hub l)) k = None \<Longrightarrow>
    link_step st sz psize enc proto nid l
      (l\<lparr>lk_phase := Registering k (build_register proto clis (lk_cl l))\<rparr>)"
| hub_registers: "lk_phase l = Registering k reg \<Longrightarrow> hub_accept allowed k nid (lk_hub l) = (True, h1) \<Longrightarrow>
    has_room (length (rg_active reg)) (node_locked h1 nid) \<Longrightarrow>
    hub_register st proto allowed k nid reg h1 = (res, h2) \<Longrightarrow> rs_accepted res \<Longrightarrow>
    link_step st sz psize enc proto nid l
      (l\<lparr>lk_hub := h2, lk_phase := Replied res, lk_conn := k, lk_live := True, lk_up := [],
         lk_down := [], lk_sent_up := 0, lk_sent_down := 0,
         lk_log := (if boot_of (lk_hub l) nid = rg_boot reg then lk_log l
                    else filter (\<lambda>m. \<not> is_heartbeat m) (cl_queue (lk_cl l))),
         lk_applied := (if boot_of (lk_hub l) nid = rg_boot reg then lk_applied l else [])\<rparr>)"
| client_attaches: "lk_phase l = Replied res \<Longrightarrow>
    link_step st sz psize enc proto nid l
      (l\<lparr>lk_cl := client_attach psize res (lk_cl l), lk_phase := Up\<rparr>)"
| hub_writes: "conn_write (lk_conn l) nid (lk_sent_down l) (lk_hub l) = (Some (out, sent), h') \<Longrightarrow>
    link_step st sz psize enc proto nid l (l\<lparr>lk_hub := h', lk_down := lk_down l @ out, lk_sent_down := sent\<rparr>)"
| hub_reads: "lk_live l \<Longrightarrow> lk_up l = m # rest \<Longrightarrow>
    handle_upstream st (lk_conn l) nid m (lk_hub l) = (err, h') \<Longrightarrow>
    link_step st sz psize enc proto nid l
      (l\<lparr>lk_hub := h', lk_up := rest, lk_live := (err = None),
         lk_applied := lk_applied l @ processed (high_of (lk_hub l) nid) h' nid m\<rparr>)"
| hub_late_apply: "h' = snd (apply_msg st nid p (lk_hub l)) \<Longrightarrow>
    link_step st sz psize enc proto nid l (l\<lparr>lk_hub := h'\<rparr>)"
| client_reads: "lk_phase l = Up \<Longrightarrow> lk_down l = m # rest \<Longrightarrow>
    client_read psize m (lk_cl l) = (ok, c') \<Longrightarrow>
    link_step st sz psize enc proto nid l
      (l\<lparr>lk_cl := c', lk_down := rest, lk_phase := (if ok then Up else Idle)\<rparr>)"
| client_drops: "link_step st sz psize enc proto nid l
      (l\<lparr>lk_cl := client_detach (lk_cl l), lk_phase := Idle\<rparr>)"
| hub_drops: "link_step st sz psize enc proto nid l (l\<lparr>lk_hub := hub_detach k nid (lk_hub l)\<rparr>)"
| hub_dispatches: "(\<And>n. node_of (lk_hub l) i = Some n \<Longrightarrow> has_room 1 n) \<Longrightarrow>
    link_step st sz psize enc proto nid l
      (l\<lparr>lk_hub := snd (dispatch st sz allowed (lk_hub l) i sr)\<rparr>)"
| hub_cancels: "(\<And>n. node_of (lk_hub l) i = Some n \<Longrightarrow> has_room 1 n) \<Longrightarrow>
    link_step st sz psize enc proto nid l
      (l\<lparr>lk_hub := snd (hub_cancel allowed (lk_hub l) i rid)\<rparr>)"
| hub_stops: "link_step st sz psize enc proto nid l (l\<lparr>lk_hub := hub_stop (lk_hub l)\<rparr>)"
| other_runner: "i \<noteq> nid \<Longrightarrow> k \<noteq> lk_conn l \<Longrightarrow>
    link_step st sz psize enc proto nid l (l\<lparr>lk_hub := snd (handle_upstream st k i m (lk_hub l))\<rparr>)"
| runner_restarts: "boot \<noteq> boot_of (lk_hub l) nid \<Longrightarrow> boot \<noteq> [] \<Longrightarrow>
    link_step st sz psize enc proto nid l
      (l\<lparr>lk_cl := new_client nid v boot runs mq mb, lk_phase := Idle\<rparr>)"
| hub_restarts: "boot \<noteq> cl_backend_boot (lk_cl l) \<Longrightarrow>
    link_step st sz psize enc proto nid l
      (l\<lparr>lk_hub := new_hub boot (h_store (lk_hub l)), lk_phase := Idle, lk_live := False, lk_up := [],
         lk_down := []\<rparr>)"

inductive link_reach ::
  "'s store_ops \<Rightarrow> (start_run \<Rightarrow> nat) \<Rightarrow> (runner_msg \<Rightarrow> nat) \<Rightarrow> (runner_payload \<Rightarrow> bool) \<Rightarrow> u32 \<Rightarrow> string
   \<Rightarrow> 's link \<Rightarrow> 's link \<Rightarrow> bool"
  for st sz psize enc proto nid l0 where
  link_start: "link_reach st sz psize enc proto nid l0 l0"
| link_next: "link_reach st sz psize enc proto nid l0 l \<Longrightarrow> link_step st sz psize enc proto nid l l' \<Longrightarrow>
    link_reach st sz psize enc proto nid l0 l'"

section \<open>Where a run is\<close>

text \<open>The acknowledged backend number, as far as it speaks about this hub process.\<close>

definition eff_last :: "'s link \<Rightarrow> u64" where
  "eff_last l = (if cl_backend_boot (lk_cl l) = h_boot (lk_hub l) then cl_last_backend (lk_cl l) else 0)"

definition tracked :: "'s hub \<Rightarrow> string \<Rightarrow> string \<Rightarrow> bool" where
  "tracked h nid r \<longleftrightarrow> run_for h nid r \<noteq> None"

definition start_queued :: "u64 \<Rightarrow> node \<Rightarrow> string \<Rightarrow> bool" where
  "start_queued seen n r \<longleftrightarrow>
     (\<exists>m \<in> set (nd_queue n). seen < bm_seq m \<and>
        (case bm_payload m of BmStartRun sr \<Rightarrow> sr_run sr = r | _ \<Rightarrow> False))"

definition executing :: "client \<Rightarrow> string \<Rightarrow> bool" where
  "executing c r \<longleftrightarrow> map_of (cl_runs c) r \<noteq> None"

definition result_queued :: "u64 \<Rightarrow> client \<Rightarrow> string \<Rightarrow> bool" where
  "result_queued high c r \<longleftrightarrow>
     (\<exists>m \<in> set (cl_queue c). high < rm_seq m \<and>
        (case rm_payload m of RmRunResult rr \<Rightarrow> rr_run rr = r | _ \<Rightarrow> False))"

text \<open>A tracked run is on its way to the runner, executing there, or its result is on its way back.\<close>

definition accounted :: "'s link \<Rightarrow> node \<Rightarrow> string \<Rightarrow> bool" where
  "accounted l n r \<longleftrightarrow> start_queued (eff_last l) n r \<or> executing (lk_cl l) r
     \<or> result_queued (nd_high n) (lk_cl l) r"

end
