(* ===== verification/RunnerLinkInv.thy ===== *)
theory RunnerLinkInv
  imports RunnerLink
begin

text \<open>
  The invariant of the linked system and its preservation: first what each hub operation shows of
  the registry entry of one node, then the parts of the invariant, then the steps.
\<close>

section \<open>What the operations change for one node\<close>

lemma tracked_alt: "tracked h nid r \<longleftrightarrow> (\<exists>a. map_of (h_runs h) r = Some a \<and> ru_node (h_heap h ! a) = nid)"
  by (auto simp: tracked_def run_for_Some)

text \<open>Operations that leave the node's protocol state alone and start nothing.\<close>

definition quiet :: "string \<Rightarrow> nat \<Rightarrow> 's hub \<Rightarrow> 's hub \<Rightarrow> bool" where
  "quiet nid k h h' \<longleftrightarrow> h_boot h' = h_boot h \<and> (\<forall>r. tracked h' nid r \<longrightarrow> tracked h nid r)
     \<and> (\<forall>c. map_of (h_conns h') k = Some c \<longrightarrow> map_of (h_conns h) k = Some c)
     \<and> (case node_of h nid of None \<Rightarrow> node_of h' nid = None
        | Some n \<Rightarrow> \<exists>n'. node_of h' nid = Some n' \<and> nd_queue n' = nd_queue n \<and> nd_next n' = nd_next n
            \<and> nd_boot n' = nd_boot n \<and> nd_high n' = nd_high n)"

lemma quiet_refl [simp]: "quiet nid k h h"
  by (simp add: quiet_def split: option.split)

lemma quiet_trans: "quiet nid k h h1 \<Longrightarrow> quiet nid k h1 h2 \<Longrightarrow> quiet nid k h h2"
  by (auto simp: quiet_def split: option.splits)

lemma quiet_store [simp]: "quiet nid k h (h\<lparr>h_store := s\<rparr>)"
  by (auto simp: quiet_def tracked_alt node_of_def split: option.split)

lemma quiet_update_run:
  "a < length (h_heap h) \<Longrightarrow> ru_node (f (h_heap h ! a)) = ru_node (h_heap h ! a) \<Longrightarrow> hub_wf h \<Longrightarrow>
   quiet nid k h (update_run a f h)"
  using hub_wfD(5) by (fastforce simp: quiet_def tracked_alt update_run_heap split: option.split)

lemma quiet_drop_run: "quiet nid k h (drop_run r h)"
  by (auto simp: quiet_def tracked_alt split: option.splits if_splits)

lemma quiet_put_node:
  "node_of h nid = Some n \<Longrightarrow> nd_id n' = nid \<Longrightarrow> nd_queue n' = nd_queue n \<Longrightarrow> nd_next n' = nd_next n \<Longrightarrow>
   nd_boot n' = nd_boot n \<Longrightarrow> nd_high n' = nd_high n \<Longrightarrow> quiet nid k h (put_node n' h)"
  by (simp add: quiet_def tracked_alt)

lemma update_any_node:
  "ru_node (f (h_heap h ! a)) = ru_node (h_heap h ! a) \<Longrightarrow>
   ru_node (h_heap (update_run a f h) ! b) = ru_node (h_heap h ! b)"
  by (cases "a < length (h_heap h)"; cases "b = a") (simp_all add: update_run_def list_update_beyond)

lemma quiet_update:
  "ru_node (f (h_heap h ! a)) = ru_node (h_heap h ! a) \<Longrightarrow> quiet nid k h (update_run a f h)"
  by (auto simp: quiet_def tracked_alt update_any_node split: option.split)

lemma quiet_fail: "quiet nid k h (fail_run a e h)"
  unfolding fail_run_def Let_def
  by (auto intro: quiet_trans [OF quiet_drop_run quiet_update] quiet_update)

lemma quiet_deliver: "quiet nid k h (deliver_result a res h)"
  unfolding deliver_result_def Let_def
  by (auto intro: quiet_trans [OF quiet_drop_run quiet_update] quiet_update)

lemma quiet_apply_result: "quiet nid k h (snd (apply_result st nid' res h))"
  unfolding apply_result_def Let_def
  by (auto split: option.splits prod.splits intro: quiet_trans [OF quiet_store quiet_deliver])

lemma quiet_apply:
  assumes "hub_wf h"
  shows "quiet nid k h (snd (apply_msg st nid p h))"
  using hub_wfD(4) [OF assms, of nid]
  by (auto simp: apply_msg_def quiet_apply_result add_chunk_sel(2) split: runner_payload.splits option.splits sum.splits
      intro!: quiet_put_node quiet_update quiet_fail)

lemma quiet_detach: "hub_wf h \<Longrightarrow> quiet nid k h (hub_detach c nid h)"
proof -
  assume wf: "hub_wf h"
  have 1: "quiet nid k h (h\<lparr>h_conns := AList.delete c (h_conns h)\<rparr>)"
    by (auto simp: quiet_def tracked_alt node_of_def alist_simps split: option.split if_splits)
  then show ?thesis
    using hub_wfD(4) [OF wf, of nid]
    by (auto simp: hub_detach_def Let_def node_of_def split: option.splits
        intro!: quiet_trans [OF 1] quiet_put_node)
qed

lemma quiet_stop: "quiet nid k h (hub_stop h)"
  by (auto simp: quiet_def hub_stop_alt tracked_alt node_of_def split: option.split)

text \<open>Operations on behalf of another node.\<close>

lemma tracked_same_others:
  assumes "hub_wf h" "hub_wf h'" "same_for_others i h h'" "i \<noteq> nid"
  shows "tracked h' nid r \<longleftrightarrow> tracked h nid r"
  using assms hub_wfD(5) [OF assms(1), of r] hub_wfD(5) [OF assms(2), of r]
  by (fastforce simp: tracked_alt same_for_others_def)

lemma conns_begin: "h_conns (snd (upstream_begin c i m h)) = h_conns h"
  by (auto simp: upstream_begin_def split: option.splits runner_payload.splits)

lemma conns_fail: "h_conns (fail_run a e h) = h_conns h"
  by (simp add: fail_run_def Let_def)

lemma conns_deliver: "h_conns (deliver_result a r h) = h_conns h"
  by (simp add: deliver_result_def Let_def)

lemma conns_apply: "h_conns (snd (apply_msg st i p h)) = h_conns h"
  by (auto simp: apply_msg_def apply_result_def Let_def conns_fail conns_deliver
      split: option.splits runner_payload.splits sum.splits prod.splits)

lemma conns_commit: "k \<noteq> c \<Longrightarrow> map_of (h_conns (upstream_commit c i m dup h)) k = map_of (h_conns h) k"
  by (auto simp: upstream_commit_def Let_def alist_simps split: option.splits)

lemma conns_upstream:
  assumes "k \<noteq> c"
  shows "map_of (h_conns (snd (handle_upstream st c i m h))) k = map_of (h_conns h) k"
proof -
  obtain r h1 where b: "upstream_begin c i m h = (r, h1)" by (cases "upstream_begin c i m h")
  obtain e h2 where a: "apply_msg st i (rm_payload m) h1 = (e, h2)"
    by (cases "apply_msg st i (rm_payload m) h1")
  have "h_conns h1 = h_conns h" "h_conns h2 = h_conns h1"
    using conns_begin [of c i m h] conns_apply [of st i "rm_payload m" h1] a b by simp_all
  then show ?thesis
    using a b by (cases r; cases e) (auto simp: handle_upstream_def conns_commit [OF assms])
qed

lemma boot_apply: "h_boot (snd (apply_msg st i p h)) = h_boot h"
  by (auto simp: apply_msg_def apply_result_def fail_run_def deliver_result_def Let_def
      split: option.splits runner_payload.splits sum.splits prod.splits)

lemma boot_upstream: "h_boot (snd (handle_upstream st c i m h)) = h_boot h"
proof -
  obtain r h1 where b: "upstream_begin c i m h = (r, h1)" by (cases "upstream_begin c i m h")
  obtain e h2 where a: "apply_msg st i (rm_payload m) h1 = (e, h2)"
    by (cases "apply_msg st i (rm_payload m) h1")
  have "h_boot (snd (upstream_begin c i m h)) = h_boot h"
    by (auto simp: upstream_begin_def split: option.splits runner_payload.splits)
  moreover have "h_boot (upstream_commit c i m d x) = h_boot x" for d and x :: "'a hub"
    by (auto simp: upstream_commit_def Let_def split: option.splits)
  ultimately show ?thesis
    using a b boot_apply [of st i "rm_payload m" h1] by (cases r; cases e) (auto simp: handle_upstream_def)
qed

lemma quiet_other:
  assumes "hub_wf h" "i \<noteq> nid" "k \<noteq> c"
  shows "quiet nid k h (snd (handle_upstream st c i m h))"
proof -
  let ?h = "snd (handle_upstream st c i m h)"
  have same: "same_for_others i h ?h" by (rule same_upstream [OF assms(1)])
  then have "node_of ?h nid = node_of h nid" using assms(2) by (simp add: same_for_others_def)
  then show ?thesis
    using tracked_same_others [OF assms(1) handle_upstream_wf [OF assms(1)] same assms(2)]
      conns_upstream [OF assms(3), of st i m h] boot_upstream [of st c i m h]
    by (auto simp: quiet_def split: option.split)
qed

section \<open>A handled message\<close>

text \<open>The three things handling a message of the node's own connection can do to its entry.\<close>

lemma apply_error_quiet:
  assumes "apply_msg st nid p h = (Some e, h')"
  shows "node_of h' nid = node_of h nid"
  using assms
  by (auto simp: apply_msg_def apply_result_def Let_def node_of_def
      split: option.splits runner_payload.splits sum.splits prod.splits if_splits)

lemma apply_result_untracks:
  assumes "hub_wf h" "apply_result st nid res h = (None, h')"
  shows "\<not> tracked h' nid (rr_run res)"
proof -
  obtain s' b where m: "so_mark st (h_store h) (rr_run res) = (s', b)" by (cases "so_mark st (h_store h) (rr_run res)")
  show ?thesis
    using assms(2) m deliver_untracked [OF store_wf [OF assms(1)], of s' "rr_run res"]
    by (auto simp: apply_result_def Let_def tracked_alt split: option.splits if_splits)
qed

datatype upstream_effect = EffAck u64 | EffNone | EffProgress

definition upstream_effect_ok ::
  "string \<Rightarrow> nat \<Rightarrow> runner_msg \<Rightarrow> upstream_error option \<Rightarrow> 's hub \<Rightarrow> 's hub \<Rightarrow> node \<Rightarrow> node \<Rightarrow> upstream_effect \<Rightarrow> bool" where
  "upstream_effect_ok nid k m err h h' n n' eff \<longleftrightarrow>
     h_boot h' = h_boot h \<and> node_of h' nid = Some n' \<and> nd_next n' = nd_next n \<and> nd_boot n' = nd_boot n
     \<and> (\<forall>r. tracked h' nid r \<longrightarrow> tracked h nid r)
     \<and> (\<forall>c. map_of (h_conns h') k = Some c \<longrightarrow>
           map_of (h_conns h) k = Some c \<or> cn_ack_seq c = nd_high n')
     \<and> (case eff of
          EffAck a \<Rightarrow> rm_payload m = RmAck a \<and> err = None \<and> nd_high n' = nd_high n
            \<and> nd_queue n' = dropWhile (\<lambda>x. bm_seq x \<le> a) (nd_queue n)
        | EffNone \<Rightarrow> nd_high n' = nd_high n \<and> nd_queue n' = nd_queue n
            \<and> (err = None \<longrightarrow> rm_seq m \<noteq> 0 \<and> rm_seq m \<le> nd_high n)
        | EffProgress \<Rightarrow> err = None \<and> nd_high n < rm_seq m \<and> nd_high n' = rm_seq m
            \<and> nd_queue n' = nd_queue n
            \<and> (case rm_payload m of RmRunResult rr \<Rightarrow> \<not> tracked h' nid (rr_run rr) | RmAck _ \<Rightarrow> False | _ \<Rightarrow> True))"

lemma commit_view:
  assumes "node_of h nid = Some n" "nd_id n = nid"
    and n': "n' = (if \<not> dup \<and> nd_conn n = Some k then n\<lparr>nd_high := rm_seq m\<rparr> else n)"
    and h': "h' = upstream_commit k nid m dup h"
  shows "node_of h' nid = Some n'" "h_boot h' = h_boot h" "tracked h' nid r = tracked h nid r"
    "map_of (h_conns h') k = Some c \<Longrightarrow> cn_ack_seq c = nd_high n'"
proof -
  have id: "nd_id n' = nid" using assms(2) by (simp add: n')
  have c: "h' = (case map_of (h_conns h) k of None \<Rightarrow> put_node n' h
      | Some x \<Rightarrow> (put_node n' h)\<lparr>h_conns := AList.update k
            (x\<lparr>cn_ack_seq := nd_high n', cn_ack_dirty := True\<rparr>) (h_conns h)\<rparr>)"
    using assms(1) by (simp add: h' upstream_commit_def Let_def n' split: option.split)
  have 1: "node_of (put_node n' h) nid = Some n'" by (simp add: id)
  show "node_of h' nid = Some n'"
    using 1 by (simp add: c node_of_def split: option.split)
  show "h_boot h' = h_boot h" "tracked h' nid r = tracked h nid r"
    by (simp_all add: c tracked_alt split: option.split)
  show "map_of (h_conns h') k = Some c \<Longrightarrow> cn_ack_seq c = nd_high n'"
    by (auto simp: c alist_simps split: option.splits)
qed

lemma apply_keeps_conn:
  assumes "hub_wf h" "node_of h nid = Some n" "node_of (snd (apply_msg st nid p h)) nid = Some n2"
  shows "nd_conn n2 = nd_conn n"
  using assms hub_wfD(4) [OF assms(1,2)]
  by (auto simp: apply_msg_def apply_result_def fail_run_def deliver_result_def Let_def node_of_def [of "h\<lparr>h_store := _\<rparr>"]
      node_of_def [of h]
      split: runner_payload.splits option.splits sum.splits prod.splits if_splits)

lemma upstream_effect_cases:
  assumes wf: "hub_wf h" and n: "node_of h nid = Some n"
    and up: "handle_upstream st k nid m h = (err, h')"
  obtains n' eff where "upstream_effect_ok nid k m err h h' n n' eff"
proof -
  have id: "nd_id n = nid" using hub_wfD(4) [OF wf n] by simp
  consider (error) e where "upstream_begin k nid m h = (CheckError e, h)"
    | (ack) a where "rm_payload m = RmAck a" "upstream_begin k nid m h = (CheckAck a, put_node (node_trim a n) h)"
    | (msg) "upstream_begin k nid m h = (CheckMessage (rm_seq m \<le> nd_high n), h)" "rm_seq m \<noteq> 0"
        "nd_conn n = Some k" "\<forall>a. rm_payload m \<noteq> RmAck a"
    using n by (cases "rm_payload m"; cases "nd_conn n = Some k"; cases "rm_seq m = 0")
      (auto simp: upstream_begin_def)
  then show thesis
  proof cases
    case error
    then have "h' = h" "err \<noteq> None" using up by (auto simp: handle_upstream_def)
    then show thesis using n by (intro that [of n EffNone]) (auto simp: upstream_effect_ok_def)
  next
    case ack
    then have "h' = put_node (node_trim a n) h" "err = None" using up by (auto simp: handle_upstream_def)
    then show thesis using n id ack
      by (intro that [of "node_trim a n" "EffAck a"])
        (auto simp: upstream_effect_ok_def tracked_alt node_trim_def)
  next
    case msg
    show thesis
    proof (cases "rm_seq m \<le> nd_high n")
      case True
      then have "h' = upstream_commit k nid m True h" "err = None"
        using up msg by (auto simp: handle_upstream_def)
      then show thesis
        using msg True commit_view [OF n id refl refl, where dup = True and k = k and m = m]
        by (intro that [of n EffNone]) (auto simp: upstream_effect_ok_def)
    next
      case False
      obtain e h2 where a: "apply_msg st nid (rm_payload m) h = (e, h2)"
        by (cases "apply_msg st nid (rm_payload m) h")
      have q: "quiet nid k h h2" using quiet_apply [OF wf, of nid k st "rm_payload m"] a by simp
      then obtain n2 where n2: "node_of h2 nid = Some n2" "nd_queue n2 = nd_queue n" "nd_next n2 = nd_next n"
        "nd_boot n2 = nd_boot n" "nd_high n2 = nd_high n"
        using n by (auto simp: quiet_def)
      have wf2: "hub_wf h2" using apply_msg_wf [OF wf, of st nid "rm_payload m"] a by simp
      show thesis
      proof (cases e)
        case (Some e')
        then have "h' = h2" "err = Some e'" using up msg False a by (auto simp: handle_upstream_def)
        then show thesis using n2 q
          by (intro that [of n2 EffNone]) (auto simp: upstream_effect_ok_def quiet_def)
      next
        case None
        then have h': "h' = upstream_commit k nid m False h2" "err = None"
          using up msg False a by (auto simp: handle_upstream_def)
        have conn2: "nd_conn n2 = Some k"
          using apply_keeps_conn [OF wf n, of st "rm_payload m" n2] n2 a msg(3) by simp
        note view = commit_view [OF n2(1) conjunct1 [OF hub_wfD(4) [OF wf2 n2(1)]] refl h'(1)]
        have "\<not> tracked h' nid (rr_run rr)" if "rm_payload m = RmRunResult rr" for rr
          using apply_result_untracks [OF wf, of st nid rr h2] a None that
          by (simp add: view(3) apply_msg_def)
        then show thesis
          using view h'(2) n2 q False conn2 msg(4)
          by (intro that [of "n2\<lparr>nd_high := rm_seq m\<rparr>" EffProgress])
            (auto simp: upstream_effect_ok_def quiet_def split: runner_payload.split)
      qed
    qed
  qed
qed

section \<open>A registration\<close>

lemma cancel_untracked_grows:
  "has_room (length refs) n \<Longrightarrow>
   set (nd_queue n) \<subseteq> set (nd_queue (cancel_untracked tr fin q refs n)) \<and>
   nd_next n \<le> nd_next (cancel_untracked tr fin q refs n) \<and>
   nd_boot (cancel_untracked tr fin q refs n) = nd_boot n"
proof (induction tr fin q refs n rule: cancel_untracked.induct)
  case (2 tr fin q r rs n)
  have room: "has_room (length rs) n" "has_room (length rs) (node_enqueue p n)" for p
    using 2(3) has_room_enqueue by (simp_all add: has_room_def)
  have "nd_next n \<le> nd_next (node_enqueue p n)" "set (nd_queue n) \<subseteq> set (nd_queue (node_enqueue p n))"
    "nd_boot (node_enqueue p n) = nd_boot n" for p
    using word_less_add_1 [of "nd_next n"] has_room_neq [of "length (r # rs)" n] 2(3)
    by (auto simp: node_enqueue_def intro: less_imp_le)
  then show ?case
    using 2(1) [OF refl _ room(1)] 2(2) [OF refl _ room(2)]
    by (simp add: Let_def) (meson order.trans)
qed simp

definition known_ids :: "register \<Rightarrow> string set" where
  "known_ids reg = ref_run ` set (rg_active reg) \<union> ref_run ` set (rg_completed reg)"

lemma queued_start_iff: "r \<in> set (queued_start_runs n) \<longleftrightarrow>
   (\<exists>m \<in> set (nd_queue n). case bm_payload m of BmStartRun sr \<Rightarrow> sr_run sr = r | _ \<Rightarrow> False)"
  unfolding queued_start_runs_def in_map_filter by (intro bex_cong) (auto split: backend_payload.splits)

lemma rebind_view:
  "nd_high (rebind_node h k reg n) = (if nd_boot n = rg_boot reg then nd_high n else 0)"
  "nd_boot (rebind_node h k reg n) = rg_boot reg" "nd_next (rebind_node h k reg n) = nd_next n"
  "nd_queue (rebind_node h k reg n) = (if nd_boot n \<noteq> rg_boot reg then []
     else if rg_seen_backend_boot reg = h_boot h then dropWhile (\<lambda>m. bm_seq m \<le> rg_last_acked reg) (nd_queue n)
     else nd_queue n)"
  by (simp_all add: rebind_node_def Let_def node_trim_def)

lemma register_view:
  assumes wf: "hub_wf h" and room: "has_room (length (rg_active reg)) (node_locked h nid)"
    and reg: "hub_register st proto allowed k nid reg h = (res, h')" "rs_accepted res"
  obtains n where "node_of h' nid = Some n" "nd_boot n = rg_boot reg" "h_boot h' = h_boot h"
    "h_conns h' = h_conns h" "rs_last_acked res = nd_high n" "rs_boot res = h_boot h"
    "nd_high n = (if boot_of h nid = rg_boot reg then high_of h nid else 0)"
    "\<And>n0. node_of h nid = Some n0 \<Longrightarrow> nd_next n0 \<le> nd_next n"
    "\<And>r. tracked h' nid r \<Longrightarrow> tracked h nid r"
    "\<And>r. tracked h' nid r \<Longrightarrow> boot_of h nid \<noteq> rg_boot reg \<Longrightarrow> r \<in> known_ids reg"
    "\<And>n0 r seen. node_of h nid = Some n0 \<Longrightarrow> nd_boot n0 = rg_boot reg \<Longrightarrow> start_queued seen n0 r \<Longrightarrow>
       (rg_seen_backend_boot reg = h_boot h \<longrightarrow> rg_last_acked reg \<le> seen) \<Longrightarrow> start_queued seen n r"
    "\<And>a r. map_of (h_runs h) r = Some a \<Longrightarrow> r \<in> known_ids reg \<Longrightarrow>
       map_of (h_runs h') r = Some a \<and> h_heap h' ! a = h_heap h ! a"
    "\<And>n0 a r seen. node_of h nid = Some n0 \<Longrightarrow> nd_boot n0 = rg_boot reg \<Longrightarrow> start_queued seen n0 r \<Longrightarrow>
       (rg_seen_backend_boot reg = h_boot h \<longrightarrow> rg_last_acked reg \<le> seen) \<Longrightarrow>
       map_of (h_runs h) r = Some a \<Longrightarrow> map_of (h_runs h') r = Some a \<and> h_heap h' ! a = h_heap h ! a"
proof -
  define n1 where "n1 = rebind_node h k reg (node_locked h nid)"
  define h1 where "h1 = lose_runs nid (known_runs reg n1) h"
  define n2 where "n2 = cancel_untracked (map fst (h_runs h1)) (finalized_refs st h (rg_active reg))
      (queued_cancels n1) (rg_active reg) n1"
  have h': "h' = put_node n2 h1" and res: "res = \<lparr>rs_accepted = True, rs_reason = None, rs_protocol = proto,
      rs_last_acked = nd_high n2, rs_boot = h_boot h\<rparr>"
    using reg by (auto simp: hub_register_def register_locked_def register_reject_def Let_def
        n1_def h1_def n2_def split: if_splits)
  have id: "nd_id n2 = nid"
    using node_locked_ok [OF wf] cancel_untracked_sel by (simp add: n2_def n1_def)
  have "has_room (length (rg_active reg)) n1"
    using room by (simp add: n1_def has_room_def rebind_view)
  from cancel_untracked_grows [OF this] have grow: "set (nd_queue n1) \<subseteq> set (nd_queue n2)"
    "nd_next n1 \<le> nd_next n2" "nd_boot n2 = nd_boot n1" by (simp_all add: n2_def)
  have high: "nd_high n2 = nd_high n1" using cancel_untracked_sel by (simp add: n2_def)
  have runs: "map_of (h_runs h') r = (case map_of (h_runs h) r of None \<Rightarrow> None
      | Some a \<Rightarrow> if ru_node (h_heap h ! a) = nid \<and> r \<notin> set (known_runs reg n1) then None else Some a)" for r
    using lose_runs_map [OF wf] by (simp add: h' h1_def)
  have heap: "ru_node (h_heap h' ! a) = ru_node (h_heap h ! a)" if "map_of (h_runs h) r = Some a" for a r
    using lose_runs_heap [OF wf that] by (simp add: h' h1_def)
  have kept: "map_of (h_runs h') r = Some a \<and> h_heap h' ! a = h_heap h ! a"
    if "map_of (h_runs h) r = Some a" "r \<in> set (known_runs reg n1)" for r a
    using lose_runs_heap [OF wf that(1)] that runs [of r] by (simp add: h' h1_def)
  have known: "set (known_runs reg n1) = known_ids reg \<union> set (queued_start_runs n1)"
    by (auto simp: known_runs_def known_ids_def)
  have track: "tracked h nid r \<and> r \<in> set (known_runs reg n1)" if "tracked h' nid r" for r
    using that runs [of r] heap [of r] by (auto simp: tracked_alt split: option.splits if_splits)
  have lock: "node_locked h nid = n0" if "node_of h nid = Some n0" for n0
    using that by (simp add: node_locked_def)
  have start: "start_queued seen n1 r" if "node_of h nid = Some n0" "nd_boot n0 = rg_boot reg"
    "start_queued seen n0 r" "rg_seen_backend_boot reg = h_boot h \<longrightarrow> rg_last_acked reg \<le> seen" for n0 r seen
  proof -
    from that(3) obtain m where m: "m \<in> set (nd_queue n0)" "seen < bm_seq m"
      "case bm_payload m of BmStartRun sr \<Rightarrow> sr_run sr = r | _ \<Rightarrow> False"
      by (auto simp: start_queued_def)
    have "m \<in> set (nd_queue n1)"
      using m that(2,4) lock [OF that(1)]
      by (auto simp: n1_def rebind_view intro!: in_dropWhile dest: order.strict_trans1)
    with m show ?thesis by (auto simp: start_queued_def)
  qed
  show thesis
  proof (rule that [of n2])
    show "node_of h' nid = Some n2" by (simp add: h' id)
    show "nd_boot n2 = rg_boot reg" by (simp add: grow n1_def rebind_view)
    show "h_boot h' = h_boot h" "h_conns h' = h_conns h" by (simp_all add: h' h1_def lose_runs_alt)
    show "rs_last_acked res = nd_high n2" "rs_boot res = h_boot h" by (simp_all add: res)
    show "nd_high n2 = (if boot_of h nid = rg_boot reg then high_of h nid else 0)"
      by (auto simp: high n1_def rebind_view node_locked_def boot_of_def high_of_def empty_node_def split: option.split)
    show "nd_next n0 \<le> nd_next n2" if "node_of h nid = Some n0" for n0
      using grow(2) lock [OF that] by (simp add: n1_def rebind_view)
    show "tracked h nid r" if "tracked h' nid r" for r using track [OF that] by simp
    show "r \<in> known_ids reg" if "tracked h' nid r" "boot_of h nid \<noteq> rg_boot reg" for r
    proof -
      have "nd_boot (node_locked h nid) \<noteq> rg_boot reg"
        using that(2) by (simp add: boot_of_def node_locked_def empty_node_def split: option.splits)
      then have "queued_start_runs n1 = []" by (simp add: queued_start_runs_def map_filter_simps n1_def rebind_view)
      with track [OF that(1)] known show ?thesis by simp
    qed
    show "start_queued seen n2 r" if "node_of h nid = Some n0" "nd_boot n0 = rg_boot reg"
      "start_queued seen n0 r" "rg_seen_backend_boot reg = h_boot h \<longrightarrow> rg_last_acked reg \<le> seen" for n0 r seen
      using start [OF that] grow(1) by (auto simp: start_queued_def)
    show "map_of (h_runs h') r = Some a \<and> h_heap h' ! a = h_heap h ! a"
      if "map_of (h_runs h) r = Some a" "r \<in> known_ids reg" for a r
      using kept that known by simp
    show "map_of (h_runs h') r = Some a \<and> h_heap h' ! a = h_heap h ! a"
      if "node_of h nid = Some n0" "nd_boot n0 = rg_boot reg"
        "start_queued seen n0 r" "rg_seen_backend_boot reg = h_boot h \<longrightarrow> rg_last_acked reg \<le> seen"
        "map_of (h_runs h) r = Some a" for n0 a r seen
    proof -
      have "r \<in> set (queued_start_runs n1)"
        using start [OF that(1-4)] by (auto simp: start_queued_def queued_start_iff)
      then show ?thesis using kept [OF that(5)] known by simp
    qed
  qed
qed

end
