(* ===== verification/RunnerLinkProof.thy ===== *)
theory RunnerLinkProof
  imports RunnerLinkInv
begin

text \<open>
  The invariant of the linked system: the wires carry their queues in order and without holes,
  acknowledgements never run ahead, every tracked run is accounted for, and what the hub
  processed is a prefix of what the runner queued. Each step keeps it.
\<close>

section \<open>The invariant\<close>

definition up_inv :: "runner_msg list \<Rightarrow> u64 \<Rightarrow> u64 \<Rightarrow> u64 \<Rightarrow> client \<Rightarrow> runner_msg list \<Rightarrow> bool" where
  "up_inv up sent high seen c log \<longleftrightarrow>
     sorted_wrt (<) (filter (\<lambda>s. s \<noteq> 0) (map rm_seq up)) \<and> sent \<le> cl_next c
     \<and> (\<forall>m \<in> set up. rm_seq m \<le> sent \<and> (case rm_payload m of RmAck a \<Rightarrow> a \<le> seen | _ \<Rightarrow> True)
          \<and> (rm_seq m \<noteq> 0 \<longrightarrow> is_heartbeat m \<or> m \<in> set log))
     \<and> (\<forall>m \<in> set (cl_queue c). \<not> is_heartbeat m \<longrightarrow> high < rm_seq m \<longrightarrow> rm_seq m \<le> sent \<longrightarrow> m \<in> set up)"

definition down_inv :: "backend_msg list \<Rightarrow> u64 \<Rightarrow> u64 \<Rightarrow> node \<Rightarrow> bool" where
  "down_inv down sent seen n \<longleftrightarrow>
     sorted_wrt (<) (filter (\<lambda>s. s \<noteq> 0) (map bm_seq down)) \<and> sent \<le> nd_next n
     \<and> (\<forall>m \<in> set down. bm_seq m \<le> sent \<and> (case bm_payload m of BmAck a \<Rightarrow> bm_seq m = 0 \<and> a \<le> nd_high n | _ \<Rightarrow> True))
     \<and> (\<forall>m \<in> set (nd_queue n). seen < bm_seq m \<longrightarrow> bm_seq m \<le> sent \<longrightarrow> m \<in> set down)"

definition log_inv :: "runner_msg list \<Rightarrow> runner_msg list \<Rightarrow> u64 \<Rightarrow> client \<Rightarrow> bool" where
  "log_inv log applied high c \<longleftrightarrow> sorted_wrt (<) (map rm_seq log)
     \<and> (\<forall>m \<in> set log. \<not> is_heartbeat m \<and> rm_seq m \<le> cl_next c \<and> (high < rm_seq m \<longrightarrow> m \<in> set (cl_queue c)))
     \<and> (\<forall>m \<in> set (cl_queue c). \<not> is_heartbeat m \<longrightarrow> m \<in> set log)
     \<and> applied = filter (\<lambda>m. rm_seq m \<le> high) log"

definition node_inv :: "string \<Rightarrow> 's link \<Rightarrow> node \<Rightarrow> bool" where
  "node_inv nid l n \<longleftrightarrow> nd_high n \<le> cl_next (lk_cl l) \<and> eff_last l \<le> nd_next n
     \<and> (lk_live l \<longrightarrow> up_inv (lk_up l) (lk_sent_up l) (nd_high n) (eff_last l) (lk_cl l) (lk_log l))
     \<and> (\<forall>x. map_of (h_conns (lk_hub l)) (lk_conn l) = Some x \<longrightarrow> cn_ack_dirty x \<longrightarrow> cn_ack_seq x \<le> nd_high n)
     \<and> (\<forall>r. tracked (lk_hub l) nid r \<longrightarrow> accounted l n r)
     \<and> log_inv (lk_log l) (lk_applied l) (nd_high n) (lk_cl l)"

definition bound_inv :: "string \<Rightarrow> 's link \<Rightarrow> bool" where
  "bound_inv nid l \<longleftrightarrow> (\<exists>n. node_of (lk_hub l) nid = Some n \<and> nd_boot n = cl_boot (lk_cl l)
     \<and> down_inv (lk_down l) (lk_sent_down l) (eff_last l) n)"

definition phase_inv :: "string \<Rightarrow> 's link \<Rightarrow> bool" where
  "phase_inv nid l \<longleftrightarrow> (case lk_phase l of
     Idle \<Rightarrow> True
   | Registering k reg \<Rightarrow>
       rg_boot reg = cl_boot (lk_cl l) \<and> rg_last_acked reg = cl_last_backend (lk_cl l)
       \<and> rg_seen_backend_boot reg = cl_backend_boot (lk_cl l)
       \<and> (\<forall>r \<in> known_ids reg. executing (lk_cl l) r \<or> result_queued 0 (lk_cl l) r)
       \<and> (\<forall>n r. node_of (lk_hub l) nid = Some n \<longrightarrow> nd_boot n = cl_boot (lk_cl l) \<longrightarrow>
            tracked (lk_hub l) nid r \<longrightarrow> r \<in> known_ids reg \<or> start_queued (eff_last l) n r)
   | Replied res \<Rightarrow> rs_boot res = h_boot (lk_hub l) \<and> rs_last_acked res \<le> high_of (lk_hub l) nid \<and> bound_inv nid l
   | Up \<Rightarrow> cl_backend_boot (lk_cl l) = h_boot (lk_hub l) \<and> bound_inv nid l)"

definition seen_inv :: "string \<Rightarrow> 's link \<Rightarrow> bool" where
  "seen_inv nid l \<longleftrightarrow> eff_last l \<noteq> 0 \<longrightarrow> boot_of (lk_hub l) nid = cl_boot (lk_cl l)"

definition link_inv :: "(runner_msg \<Rightarrow> nat) \<Rightarrow> string \<Rightarrow> 's link \<Rightarrow> bool" where
  "link_inv psize nid l \<longleftrightarrow> hub_wf (lk_hub l) \<and> client_ok psize (lk_cl l) \<and> cl_boot (lk_cl l) \<noteq> []
     \<and> (\<forall>n. node_of (lk_hub l) nid = Some n \<longrightarrow> nd_boot n = cl_boot (lk_cl l) \<longrightarrow> node_inv nid l n)
     \<and> phase_inv nid l \<and> seen_inv nid l"

lemma link_invI:
  assumes "hub_wf (lk_hub l)" "client_ok psize (lk_cl l)" "cl_boot (lk_cl l) \<noteq> []"
    "\<And>n. node_of (lk_hub l) nid = Some n \<Longrightarrow> nd_boot n = cl_boot (lk_cl l) \<Longrightarrow> node_inv nid l n"
    "phase_inv nid l" "seen_inv nid l"
  shows "link_inv psize nid l"
  using assms by (simp add: link_inv_def)

lemma link_invD:
  assumes "link_inv psize nid l"
  shows "hub_wf (lk_hub l)" "client_ok psize (lk_cl l)" "cl_boot (lk_cl l) \<noteq> []"
    "node_of (lk_hub l) nid = Some n \<Longrightarrow> nd_boot n = cl_boot (lk_cl l) \<Longrightarrow> node_inv nid l n"
    "phase_inv nid l" "seen_inv nid l"
  using assms by (simp_all add: link_inv_def)

lemma seen_inv_same:
  "seen_inv nid l \<Longrightarrow> eff_last l' = eff_last l \<Longrightarrow> boot_of (lk_hub l') nid = boot_of (lk_hub l) nid \<Longrightarrow>
   cl_boot (lk_cl l') = cl_boot (lk_cl l) \<Longrightarrow> seen_inv nid l'"
  by (simp add: seen_inv_def)

lemma seen_inv_bound:
  "node_of (lk_hub l) nid = Some n \<Longrightarrow> nd_boot n = cl_boot (lk_cl l) \<Longrightarrow> seen_inv nid l"
  by (simp add: seen_inv_def boot_of_def)

lemma queue_seq:
  "client_ok psize c \<Longrightarrow> m \<in> set (cl_queue c) \<Longrightarrow> 0 < rm_seq m \<and> rm_seq m \<le> cl_next c"
  by (simp add: client_ok_def seqs_ok_def)

lemma queue_sorted: "client_ok psize c \<Longrightarrow> sorted_wrt (<) (map rm_seq (cl_queue c))"
  by (simp add: client_ok_def seqs_ok_def)

lemma node_seq:
  "hub_wf h \<Longrightarrow> node_of h nid = Some n \<Longrightarrow> m \<in> set (nd_queue n) \<Longrightarrow> 0 < bm_seq m \<and> bm_seq m \<le> nd_next n"
  using node_ok_of by (fastforce simp: queue_good_def hubq.queue_ok_def seqs_ok_def)

lemma node_plain: "hub_wf h \<Longrightarrow> node_of h nid = Some n \<Longrightarrow> m \<in> set (nd_queue n) \<Longrightarrow> plain_down (bm_payload m)"
  using node_ok_of by (fastforce simp: queue_good_def)

lemma node_sorted: "hub_wf h \<Longrightarrow> node_of h nid = Some n \<Longrightarrow> sorted_wrt (<) (map bm_seq (nd_queue n))"
  using node_ok_of by (fastforce simp: queue_good_def hubq.queue_ok_def seqs_ok_def)

text \<open>The head of a wire comes first.\<close>

lemma head_first:
  assumes "sorted_wrt (<) (filter (\<lambda>s. s \<noteq> (0::u64)) (map f (m # rest)))" "f m \<noteq> 0" "x \<in> set (m # rest)" "f x \<noteq> 0"
  shows "f m < f x \<or> x = m"
  using assms by (auto simp: sorted_wrt_append)

lemma sorted_tail:
  "sorted_wrt (<) (filter P (map f (m # rest))) \<Longrightarrow> sorted_wrt (<) (filter P (map f rest))"
  by (auto split: if_splits)

lemma sorted_map_filter: "sorted_wrt (<) (map f xs) \<Longrightarrow> sorted_wrt (<) (map f (filter P xs))"
  by (rule sorted_wrt_subseq [of _ "map f xs"]) (auto intro: subseq_map subseq_filter_left)

section \<open>Steps of the client\<close>

text \<open>What an executor's call or a heartbeat does to the client.\<close>

definition client_grows :: "client \<Rightarrow> client \<Rightarrow> bool" where
  "client_grows c c' \<longleftrightarrow> (\<forall>m \<in> set (cl_queue c). \<not> is_heartbeat m \<longrightarrow> m \<in> set (cl_queue c'))
     \<and> (\<forall>m \<in> set (cl_queue c'). m \<in> set (cl_queue c) \<or> cl_next c < rm_seq m)
     \<and> cl_next c \<le> cl_next c' \<and> cl_last_backend c' = cl_last_backend c \<and> cl_boot c' = cl_boot c
     \<and> cl_backend_boot c' = cl_backend_boot c
     \<and> (\<forall>r. executing c r \<longrightarrow> executing c' r \<or> result_queued (cl_next c) c' r)"

lemma grows_refl [simp]: "client_grows c c"
  by (simp add: client_grows_def)

lemma grows_append: "cl_next c \<noteq> - 1 \<Longrightarrow> client_grows c (append_msg psize p c)"
  using word_less_add_1 [of "cl_next c"]
  by (auto simp: client_grows_def append_msg_def Let_def executing_def intro: less_imp_le)

lemma grows_enqueue: "cl_next c \<noteq> - 1 \<Longrightarrow> client_grows c (snd (client_enqueue psize enc p c))"
  by (cases rule: enqueue_cases [of psize enc p c]) (simp_all add: grows_append)

lemma grows_result:
  assumes "cl_next c \<noteq> - 1"
  shows "client_grows c (snd (client_result psize enc rr c))"
proof (cases rule: enqueue_cases [of psize enc "RmRunResult rr" c])
  case ok
  have n: "cl_next c < cl_next c + 1" using word_less_add_1 [OF assms] .
  have "result_queued (cl_next c) (append_msg psize (RmRunResult rr) c\<lparr>cl_runs := t\<rparr>) (rr_run rr)" for t
    using n by (simp add: result_queued_def append_msg_def Let_def)
  moreover have "executing (append_msg psize (RmRunResult rr) c\<lparr>cl_runs := table_end (rr_run rr) (cl_runs c)\<rparr>) r"
    if "executing c r" "r \<noteq> rr_run rr" for r
    using that by (simp add: executing_def table_end_def alist_simps)
  moreover have "cl_runs (append_msg psize p c) = cl_runs c" for p by (simp add: append_msg_def Let_def)
  ultimately show ?thesis
    using ok(1) grows_append [OF assms, of psize "RmRunResult rr"]
    by (fastforce simp: client_result_def client_grows_def)
next
  case (refused e)
  then show ?thesis by (cases e) (simp_all add: client_result_def)
qed

lemma grows_heartbeat: "cl_next c \<noteq> - 1 \<Longrightarrow> client_grows c (send_heartbeat psize enc q hl c)"
  using word_less_add_1 [of "cl_next c"]
  by (auto simp: send_heartbeat_def Let_def client_grows_def append_msg_def executing_def intro: less_imp_le)

lemma grows_worker: "client_grows c (snd (worker_next rid c))"
  by (auto simp: worker_next_def client_grows_def executing_def split: option.splits list.splits)

lemma local_grows: "local_call call \<Longrightarrow> cl_next c \<noteq> - 1 \<Longrightarrow> client_grows c (do_client psize enc call c)"
  by (cases call)
    (simp_all add: local_call_def client_event_def client_output_def grows_enqueue grows_result grows_heartbeat
      grows_worker)

lemma result_queued_grows:
  "client_grows c c' \<Longrightarrow> result_queued high c r \<Longrightarrow> result_queued high c' r"
proof -
  assume g: "client_grows c c'" and "result_queued high c r"
  then obtain m where m: "m \<in> set (cl_queue c)" "high < rm_seq m"
    "case rm_payload m of RmRunResult rr \<Rightarrow> rr_run rr = r | _ \<Rightarrow> False" by (auto simp: result_queued_def)
  then have "\<not> is_heartbeat m" by (auto simp: is_heartbeat_def split: runner_payload.splits)
  with g m show ?thesis by (auto simp: client_grows_def result_queued_def)
qed

lemma result_queued_le: "result_queued high c r \<Longrightarrow> high' \<le> high \<Longrightarrow> result_queued high' c r"
  unfolding result_queued_def by (blast intro: order.strict_trans1)

lemma executing_grows:
  assumes "client_grows c c'" "executing c r" "high \<le> cl_next c"
  shows "executing c' r \<or> result_queued high c' r"
  using assms result_queued_le by (fastforce simp: client_grows_def)

lemma up_inv_grows:
  assumes "up_inv up sent high seen c log" "client_grows c c'" "set log \<subseteq> set log'"
  shows "up_inv up sent high seen c' log'"
  unfolding up_inv_def
proof (intro conjI ballI impI)
  fix m assume m: "m \<in> set (cl_queue c')" "\<not> is_heartbeat m" "high < rm_seq m" "rm_seq m \<le> sent"
  have "\<not> cl_next c < rm_seq m" using m(4) assms(1) by (auto simp: up_inv_def)
  then show "m \<in> set up" using m assms by (auto simp: up_inv_def client_grows_def)
qed (use assms in \<open>auto simp: up_inv_def client_grows_def\<close>)

lemma log_inv_grows:
  assumes "log_inv log applied high c" "client_grows c c'" "high \<le> cl_next c"
    and "client_ok psize c'"
  shows "log_inv (log @ new_msgs c c') applied high c'"
  unfolding log_inv_def
proof (intro conjI ballI impI)
  show "sorted_wrt (<) (map rm_seq (log @ new_msgs c c'))"
  proof -
    have "sorted_wrt (<) (map rm_seq (new_msgs c c'))"
      unfolding new_msgs_def by (rule sorted_map_filter [OF queue_sorted [OF assms(4)]])
    moreover have "rm_seq x < rm_seq y" if "x \<in> set log" "y \<in> set (new_msgs c c')" for x y
      using that assms(1) by (auto simp: log_inv_def new_msgs_def intro: order.strict_trans1)
    ultimately show ?thesis using assms(1) by (auto simp: log_inv_def sorted_wrt_append)
  qed
next
  fix m assume m: "m \<in> set (log @ new_msgs c c')"
  show "\<not> is_heartbeat m" using m assms(1) by (auto simp: log_inv_def new_msgs_def)
  show "rm_seq m \<le> cl_next c'"
  proof (cases "m \<in> set log")
    case True
    then have "rm_seq m \<le> cl_next c" using assms(1) by (simp add: log_inv_def)
    then show ?thesis using assms(2) by (auto simp: client_grows_def)
  qed (use m queue_seq [OF assms(4)] in \<open>auto simp: new_msgs_def\<close>)
  show "m \<in> set (cl_queue c')" if "high < rm_seq m"
    using m that assms(1,2) by (auto simp: log_inv_def new_msgs_def client_grows_def)
next
  fix m assume "m \<in> set (cl_queue c')" "\<not> is_heartbeat m"
  then show "m \<in> set (log @ new_msgs c c')"
    using assms(1,2) by (auto simp: log_inv_def new_msgs_def client_grows_def)
next
  have "filter (\<lambda>m. rm_seq m \<le> high) (new_msgs c c') = []"
    using assms(3) by (auto simp: new_msgs_def filter_empty_conv)
  then show "applied = filter (\<lambda>m. rm_seq m \<le> high) (log @ new_msgs c c')"
    using assms(1) by (simp add: log_inv_def)
qed

lemma step_local:
  assumes inv: "link_inv psize nid l" and call: "local_call call" "cl_next (lk_cl l) \<noteq> - 1"
    and c': "c' = do_client psize enc call (lk_cl l)"
  shows "link_inv psize nid (l\<lparr>lk_cl := c', lk_log := lk_log l @ new_msgs (lk_cl l) c'\<rparr>)"
    (is "link_inv psize nid ?l")
proof -
  note d = link_invD [OF inv]
  have g: "client_grows (lk_cl l) c'" unfolding c' by (rule local_grows [OF call])
  have ok: "client_ok psize c'" unfolding c' by (rule call_ok [OF d(2) call(2)])
  have e: "eff_last ?l = eff_last l" using g by (simp add: eff_last_def client_grows_def)
  have boot: "cl_boot c' = cl_boot (lk_cl l)" "cl_last_backend c' = cl_last_backend (lk_cl l)"
    "cl_backend_boot c' = cl_backend_boot (lk_cl l)" using g by (simp_all add: client_grows_def)
  show ?thesis
  proof (rule link_invI)
    fix n assume n: "node_of (lk_hub ?l) nid = Some n" "nd_boot n = cl_boot (lk_cl ?l)"
    with d(4) boot have ni: "node_inv nid l n" by simp
    have hn: "nd_high n \<le> cl_next (lk_cl l)" using ni by (simp add: node_inv_def)
    have "cl_next (lk_cl l) \<le> cl_next c'" using g by (simp add: client_grows_def)
    moreover have "accounted ?l n r" if "accounted l n r" for r
      using that e result_queued_grows [OF g] executing_grows [OF g _ hn] by (auto simp: accounted_def)
    ultimately show "node_inv nid ?l n"
      using ni hn up_inv_grows [OF _ g] log_inv_grows [OF _ g hn ok]
      by (auto simp: node_inv_def e intro: order.trans)
  next
    have "executing c' r \<or> result_queued 0 c' r" if "executing (lk_cl l) r \<or> result_queued 0 (lk_cl l) r" for r
      using that executing_grows [OF g, of r 0] result_queued_grows [OF g] by auto
    then show "phase_inv nid ?l"
      using d(5) boot by (auto simp: phase_inv_def bound_inv_def e split: phase.splits)
    show "seen_inv nid ?l" by (rule seen_inv_same [OF d(6) e]) (simp_all add: boot)
  qed (use d ok boot in simp_all)
qed

text \<open>The writer.\<close>

lemma sorted_last: "sorted_wrt (<) (map f ys) \<Longrightarrow> m \<in> set ys \<Longrightarrow> (f m :: u64) \<le> f (last ys)"
  by (cases ys rule: rev_cases) (auto simp: sorted_wrt_append intro: less_imp_le)

lemma last_filter_sorted:
  assumes "sorted_wrt (<) (map f xs)" "filter (\<lambda>m. (sent::u64) < f m) xs \<noteq> []"
  shows "sent < f (last (filter (\<lambda>m. sent < f m) xs))"
    "m \<in> set (filter (\<lambda>m. sent < f m) xs) \<Longrightarrow> f m \<le> f (last (filter (\<lambda>m. sent < f m) xs))"
  using last_in_set [OF assms(2)] sorted_last [OF sorted_map_filter [OF assms(1)]] by auto

lemma sent_grows:
  assumes "sorted_wrt (<) (map f xs)"
  shows "(sent::u64) \<le> (if filter (\<lambda>m. sent < f m) xs = [] then sent else f (last (filter (\<lambda>m. sent < f m) xs)))"
  using last_filter_sorted(1) [OF assms, of sent] by (auto intro: less_imp_le)

lemma step_client_write:
  assumes inv: "link_inv psize nid l" and up: "lk_phase l = Up"
    and w: "client_write (lk_sent_up l) (lk_cl l) = ((out, sent), c')"
  shows "link_inv psize nid (l\<lparr>lk_cl := c', lk_up := lk_up l @ out, lk_sent_up := sent\<rparr>)"
    (is "link_inv psize nid ?l")
proof -
  note d = link_invD [OF inv]
  let ?c = "lk_cl l" and ?s = "lk_sent_up l"
  let ?q = "filter (\<lambda>m. ?s < rm_seq m) (cl_queue ?c)"
  have c': "c' = ?c\<lparr>cl_ack_dirty := False\<rparr>" and sent: "sent = (if ?q = [] then ?s else rm_seq (last ?q))"
    and out: "\<exists>acks. out = ?q @ acks \<and> (\<forall>m \<in> set acks. rm_seq m = 0 \<and> rm_payload m = RmAck (cl_last_backend ?c))"
    using w by (auto simp: client_write_def Let_def)
  from out obtain acks where acks: "out = ?q @ acks"
    "\<forall>m \<in> set acks. rm_seq m = 0 \<and> rm_payload m = RmAck (cl_last_backend ?c)" by blast
  have srt: "sorted_wrt (<) (map rm_seq (cl_queue ?c))" by (rule queue_sorted [OF d(2)])
  have ge: "?s \<le> sent" unfolding sent by (rule sent_grows [OF srt])
  have qle: "rm_seq m \<le> sent" if "m \<in> set ?q" for m
    using last_filter_sorted(2) [OF srt _ that] that unfolding sent by (cases "?q = []") auto
  have e: "eff_last ?l = eff_last l" "eff_last l = cl_last_backend ?c"
    using d(5) up by (simp_all add: eff_last_def c' phase_inv_def)
  have up': "up_inv (lk_up l @ out) sent high (eff_last l) c' (lk_log l)"
    if u: "up_inv (lk_up l) ?s high (eff_last l) ?c (lk_log l)" and lg: "log_inv (lk_log l) ap high ?c" for high ap
    unfolding up_inv_def
  proof (intro conjI ballI impI)
    have "filter (\<lambda>s. s \<noteq> 0) (map rm_seq out) = map rm_seq ?q"
    proof -
      have "filter (\<lambda>s. s \<noteq> 0) (map rm_seq acks) = []" using acks(2) by (auto simp: filter_empty_conv)
      moreover have "filter (\<lambda>s. s \<noteq> 0) (map rm_seq ?q) = map rm_seq ?q"
        by (rule filter_True) (use queue_seq [OF d(2)] in force)
      ultimately show ?thesis by (simp add: acks(1))
    qed
    moreover have "sorted_wrt (<) (map rm_seq ?q)" by (rule sorted_map_filter [OF srt])
    moreover have "x < y" if "x \<in> set (filter (\<lambda>s. s \<noteq> 0) (map rm_seq (lk_up l)))" "y \<in> set (map rm_seq ?q)" for x y
    proof -
      have "x \<le> ?s" using that(1) u by (auto simp: up_inv_def)
      moreover have "?s < y" using that(2) by auto
      ultimately show ?thesis by simp
    qed
    ultimately show "sorted_wrt (<) (filter (\<lambda>s. s \<noteq> 0) (map rm_seq (lk_up l @ out)))"
      using u by (auto simp: up_inv_def sorted_wrt_append)
    show "sent \<le> cl_next c'"
    proof (cases "?q = []")
      case False
      then have "last ?q \<in> set (cl_queue ?c)" using last_in_set [of ?q] by simp
      then show ?thesis using queue_seq [OF d(2)] False by (simp add: sent c')
    qed (use u in \<open>simp add: sent c' up_inv_def\<close>)
  next
    fix m assume m: "m \<in> set (lk_up l @ out)"
    have "rm_seq m \<le> sent \<and> (case rm_payload m of RmAck a \<Rightarrow> a \<le> eff_last l | _ \<Rightarrow> True) \<and>
        (rm_seq m \<noteq> 0 \<longrightarrow> is_heartbeat m \<or> m \<in> set (lk_log l))"
    proof -
      consider "m \<in> set (lk_up l)" | "m \<in> set ?q" | "m \<in> set acks" using m by (auto simp: acks(1))
      then show ?thesis
      proof cases
        case 1
        with u have "rm_seq m \<le> ?s" by (simp add: up_inv_def)
        with ge have "rm_seq m \<le> sent" by (rule order.trans [rotated])
        with 1 u show ?thesis by (simp add: up_inv_def)
      next
        case 2
        have "plain_payload (rm_payload m)" using 2 d(2) by (simp add: client_ok_def)
        then have "case rm_payload m of RmAck a \<Rightarrow> a \<le> eff_last l | _ \<Rightarrow> True"
          by (auto simp: plain_payload_def split: runner_payload.splits)
        then show ?thesis using 2 qle [OF 2] lg by (auto simp: log_inv_def)
      next
        case 3
        then show ?thesis using acks(2) e(2) by simp
      qed
    qed
    then show "rm_seq m \<le> sent" "case rm_payload m of RmAck a \<Rightarrow> a \<le> eff_last l | _ \<Rightarrow> True"
      "rm_seq m \<noteq> 0 \<Longrightarrow> is_heartbeat m \<or> m \<in> set (lk_log l)" by simp_all
  next
    fix m assume m: "m \<in> set (cl_queue c')" "\<not> is_heartbeat m" "high < rm_seq m" "rm_seq m \<le> sent"
    then show "m \<in> set (lk_up l @ out)"
      using u by (cases "rm_seq m \<le> ?s") (auto simp: up_inv_def c' acks(1))
  qed
  have ok: "client_ok psize c'" using d(2) by (simp add: c' client_ok_def)
  show ?thesis
  proof (rule link_invI)
    fix n assume n: "node_of (lk_hub ?l) nid = Some n" "nd_boot n = cl_boot (lk_cl ?l)"
    with d(4) have ni: "node_inv nid l n" by (simp add: c')
    then have acc: "accounted ?l n r = accounted l n r" for r
      using e by (simp add: accounted_def executing_def result_queued_def c')
    have lg: "log_inv (lk_log l) (lk_applied l) (nd_high n) (lk_cl l)" using ni by (simp add: node_inv_def)
    have "log_inv (lk_log l) (lk_applied l) (nd_high n) c'" using lg by (simp add: log_inv_def c')
    then show "node_inv nid ?l n"
      using ni up' [OF _ lg] unfolding node_inv_def e(1) acc by (simp add: c')
  next
    show "phase_inv nid ?l"
      using d(5) up unfolding phase_inv_def bound_inv_def e(1) by (simp add: c')
    show "seen_inv nid ?l" by (rule seen_inv_same [OF d(6) e(1)]) (simp_all add: c')
  qed (use d ok in \<open>simp_all add: c'\<close>)
qed

text \<open>The acknowledgements the client receives trim only what the hub processed.\<close>

lemma accounted_trim:
  assumes "accounted l n r" "a \<le> nd_high n" "lk_hub l' = lk_hub l"
    "eff_last l' = eff_last l" "cl_runs (lk_cl l') = cl_runs (lk_cl l)"
    "cl_queue (lk_cl l') = dropWhile (\<lambda>m. rm_seq m \<le> a) (cl_queue (lk_cl l))"
  shows "accounted l' n r"
proof -
  have "result_queued (nd_high n) (lk_cl l') r" if "result_queued (nd_high n) (lk_cl l) r"
  proof -
    from that obtain m where m: "m \<in> set (cl_queue (lk_cl l))" "nd_high n < rm_seq m"
      "case rm_payload m of RmRunResult rr \<Rightarrow> rr_run rr = r | _ \<Rightarrow> False" by (auto simp: result_queued_def)
    have "\<not> rm_seq m \<le> a" using m(2) assms(2) by simp
    then have "m \<in> set (cl_queue (lk_cl l'))" using m(1) assms(6) by (simp add: in_dropWhile)
    with m show ?thesis by (auto simp: result_queued_def)
  qed
  with assms show ?thesis by (auto simp: accounted_def executing_def)
qed

lemma node_inv_trim:
  assumes "node_inv nid l n" "a \<le> nd_high n" "lk_hub l' = lk_hub l" "lk_up l' = lk_up l"
    "lk_sent_up l' = lk_sent_up l" "lk_log l' = lk_log l" "lk_applied l' = lk_applied l"
    "lk_conn l' = lk_conn l" "lk_live l' = lk_live l" "cl_next (lk_cl l') = cl_next (lk_cl l)"
    "eff_last l' = eff_last l" "cl_runs (lk_cl l') = cl_runs (lk_cl l)"
    "cl_queue (lk_cl l') = dropWhile (\<lambda>m. rm_seq m \<le> a) (cl_queue (lk_cl l))"
  shows "node_inv nid l' n"
proof -
  have q: "m \<in> set (cl_queue (lk_cl l))" if "m \<in> set (cl_queue (lk_cl l'))" for m
    using that assms(13) by (auto dest: set_dropWhileD)
  have k: "m \<in> set (cl_queue (lk_cl l'))" if "m \<in> set (cl_queue (lk_cl l))" "nd_high n < rm_seq m" for m
  proof -
    have "\<not> rm_seq m \<le> a" using that(2) assms(2) by simp
    with that(1) assms(13) show ?thesis by (simp add: in_dropWhile)
  qed
  have "up_inv (lk_up l) (lk_sent_up l) (nd_high n) (eff_last l) (lk_cl l') (lk_log l)"
    if "up_inv (lk_up l) (lk_sent_up l) (nd_high n) (eff_last l) (lk_cl l) (lk_log l)"
    using that q assms(10) by (simp add: up_inv_def)
  moreover have "log_inv (lk_log l) (lk_applied l) (nd_high n) (lk_cl l)"
    using assms(1) by (simp add: node_inv_def)
  then have "log_inv (lk_log l) (lk_applied l) (nd_high n) (lk_cl l')"
    unfolding log_inv_def assms(10) using q k by blast
  moreover have "accounted l' n r" if "accounted l n r" for r
    by (rule accounted_trim [OF that assms(2,3,11,12,13)])
  moreover note assms(1) [unfolded node_inv_def]
  ultimately show ?thesis
    unfolding node_inv_def assms(3-11) by blast
qed

lemma step_attach:
  assumes inv: "link_inv psize nid l" and ph: "lk_phase l = Replied res"
  shows "link_inv psize nid (l\<lparr>lk_cl := client_attach psize res (lk_cl l), lk_phase := Up\<rparr>)"
    (is "link_inv psize nid ?l")
proof -
  note d = link_invD [OF inv]
  let ?c = "lk_cl l" and ?c' = "client_attach psize res (lk_cl l)"
  have r: "rs_boot res = h_boot (lk_hub l)" "rs_last_acked res \<le> high_of (lk_hub l) nid" "bound_inv nid l"
    using d(5) ph by (simp_all add: phase_inv_def)
  have sel: "cl_queue ?c' = dropWhile (\<lambda>m. rm_seq m \<le> rs_last_acked res) (cl_queue ?c)"
    "cl_next ?c' = cl_next ?c" "cl_runs ?c' = cl_runs ?c" "cl_boot ?c' = cl_boot ?c"
    "cl_backend_boot ?c' = h_boot (lk_hub l)"
    "cl_last_backend ?c' = eff_last l"
    using r(1) by (simp_all add: client_attach_def Let_def trim_queue eff_last_def)
  have e: "eff_last ?l = eff_last l" using sel by (simp add: eff_last_def [of ?l])
  show ?thesis
  proof (rule link_invI)
    fix n assume n: "node_of (lk_hub ?l) nid = Some n" "nd_boot n = cl_boot (lk_cl ?l)"
    with d(4) sel have ni: "node_inv nid l n" by simp
    have "rs_last_acked res \<le> nd_high n" using r(2) n(1) by (simp add: high_of_def)
    from node_inv_trim [OF ni this, of ?l] show "node_inv nid ?l n" using sel e by simp
  next
    show "phase_inv nid ?l"
      using r(3) sel e by (simp add: phase_inv_def bound_inv_def)
    show "seen_inv nid ?l" by (rule seen_inv_same [OF d(6) e]) (simp_all add: sel)
  qed (use d sel attach_ok in simp_all)
qed

lemma down_inv_tail:
  assumes "down_inv (m # rest) sent seen n" "seen \<le> seen'" "bm_seq m \<le> seen'"
  shows "down_inv rest sent seen' n"
proof -
  have "x \<in> set rest" if "x \<in> set (nd_queue n)" "seen' < bm_seq x" "bm_seq x \<le> sent" for x
  proof -
    have "seen < bm_seq x" using assms(2) that(2) by (rule order.strict_trans1)
    then have "x \<in> set (m # rest)" using assms(1) that by (simp add: down_inv_def)
    moreover have "x \<noteq> m" using assms(3) that(2) by auto
    ultimately show ?thesis by simp
  qed
  moreover have "sorted_wrt (<) (filter (\<lambda>s. s \<noteq> 0) (map bm_seq rest))"
    using assms(1) unfolding down_inv_def by (blast intro: sorted_tail)
  ultimately show ?thesis using assms(1) by (simp add: down_inv_def)
qed

lemma down_inv_ack:
  assumes "hub_wf h" "node_of h nid = Some n" "down_inv (m # rest) sent seen n" "bm_seq m = 0"
  shows "down_inv rest sent seen n"
proof -
  have "x \<in> set rest" if "x \<in> set (nd_queue n)" "x \<in> set (m # rest)" for x
    using node_seq [OF assms(1,2) that(1)] that(2) assms(4) by auto
  moreover have "sorted_wrt (<) (filter (\<lambda>s. s \<noteq> 0) (map bm_seq rest))"
    using assms(3) unfolding down_inv_def by (blast intro: sorted_tail)
  ultimately show ?thesis using assms(3) by (simp add: down_inv_def) blast
qed

text \<open>A dispatch that arrives is executing; no other dispatch is overtaken.\<close>

lemma handle_executing: "executing c r \<Longrightarrow> executing (client_handle m c) r"
  by (auto simp: client_handle_def client_dispatch_def Let_def executing_def table_begin_def alist_simps
      split: backend_payload.splits)

lemma handle_starts: "bm_payload m = BmStartRun sr \<Longrightarrow> executing (client_handle m c) (sr_run sr)"
  by (auto simp: client_handle_def client_dispatch_def Let_def executing_def table_begin_def start_ref_def alist_simps)

lemma handle_sel [simp]:
  "cl_boot (client_handle m c) = cl_boot c" "cl_backend_boot (client_handle m c) = cl_backend_boot c"
  "cl_next (client_handle m c) = cl_next c" "cl_last_backend (client_handle m c) = cl_last_backend c"
  by (auto simp: client_handle_def client_dispatch_def Let_def split: backend_payload.splits prod.splits bool.splits)

lemma up_inv_client:
  "up_inv up sent high seen c log \<Longrightarrow> cl_queue c' = cl_queue c \<Longrightarrow> cl_next c' = cl_next c \<Longrightarrow> seen \<le> seen' \<Longrightarrow>
   up_inv up sent high seen' c' log"
  by (auto simp: up_inv_def split: runner_payload.splits intro: order.trans)

lemma log_inv_client:
  "cl_queue c' = cl_queue c \<Longrightarrow> cl_next c' = cl_next c \<Longrightarrow> log_inv log ap high c' = log_inv log ap high c"
  by (simp add: log_inv_def)

lemma node_inv_client:
  assumes "node_inv nid l n" "lk_hub l' = lk_hub l" "lk_up l' = lk_up l" "lk_live l' = lk_live l"
    "lk_sent_up l' = lk_sent_up l" "lk_log l' = lk_log l" "lk_applied l' = lk_applied l"
    "lk_conn l' = lk_conn l" "cl_next (lk_cl l') = cl_next (lk_cl l)" "cl_queue (lk_cl l') = cl_queue (lk_cl l)"
    "eff_last l \<le> eff_last l'" "eff_last l' \<le> nd_next n"
    "\<And>r. accounted l n r \<Longrightarrow> accounted l' n r"
  shows "node_inv nid l' n"
proof -
  have "up_inv (lk_up l) (lk_sent_up l) (nd_high n) (eff_last l') (lk_cl l') (lk_log l)"
    if "up_inv (lk_up l) (lk_sent_up l) (nd_high n) (eff_last l) (lk_cl l) (lk_log l)"
    by (rule up_inv_client [OF that assms(10,9,11)])
  moreover have "log_inv (lk_log l) (lk_applied l) (nd_high n) (lk_cl l')"
    using assms(1) log_inv_client [OF assms(10,9)] by (simp add: node_inv_def)
  moreover have "accounted l' n r" if "tracked (lk_hub l) nid r" for r
    using that assms(1,13) by (simp add: node_inv_def)
  ultimately show ?thesis
    using assms(1,12) by (simp add: node_inv_def assms(2-9))
qed

lemma client_read_cases:
  assumes "client_read psize m c = (ok, c')"
  obtains (ack) a where "bm_payload m = BmAck a" "c' = trim_client psize a c" "ok"
    | (stop) "c' = c" "\<not> ok"
    | (dup) "bm_seq m \<noteq> 0" "bm_seq m \<le> cl_last_backend c" "c' = c\<lparr>cl_ack_dirty := True\<rparr>" "ok"
    | (new) "bm_seq m \<noteq> 0" "\<not> bm_seq m \<le> cl_last_backend c" "ok"
        "c' = client_handle m c\<lparr>cl_last_backend := bm_seq m, cl_ack_dirty := True\<rparr>"
proof (cases "bm_payload m")
  case (BmAck a)
  then show thesis using assms by (intro ack [of a]) (auto simp: client_read_def)
next
  case (BmRegisterResult r)
  then show thesis using assms by (intro stop) (auto simp: client_read_def)
next
  case (BmStartRun sr)
  then show thesis using assms stop dup new by (simp add: client_read_def Let_def split: if_splits)
next
  case (BmCancelRun r)
  then show thesis using assms stop dup new by (simp add: client_read_def Let_def split: if_splits)
qed

lemma step_client_read:
  assumes inv: "link_inv psize nid l" and ph: "lk_phase l = Up" and dn: "lk_down l = m # rest"
    and rd: "client_read psize m (lk_cl l) = (ok, c')"
  shows "link_inv psize nid (l\<lparr>lk_cl := c', lk_down := rest, lk_phase := (if ok then Up else Idle)\<rparr>)"
    (is "link_inv psize nid ?l")
proof -
  note d = link_invD [OF inv]
  let ?c = "lk_cl l"
  have boot: "cl_backend_boot ?c = h_boot (lk_hub l)" using d(5) ph by (simp add: phase_inv_def)
  have last: "eff_last l = cl_last_backend ?c" using boot by (simp add: eff_last_def)
  obtain n where n: "node_of (lk_hub l) nid = Some n" "nd_boot n = cl_boot ?c"
    and dinv: "down_inv (m # rest) (lk_sent_down l) (eff_last l) n"
    using d(5) ph dn by (auto simp: phase_inv_def bound_inv_def)
  have ni: "node_inv nid l n" by (rule d(4) [OF n])
  have okc: "client_ok psize c'" using read_ok [OF d(2), of m] rd by simp
  from rd show ?thesis
  proof (cases rule: client_read_cases)
    case (ack a)
    have a: "bm_seq m = 0" "a \<le> nd_high n" using dinv ack(1) by (auto simp: down_inv_def)
    have sel: "cl_boot c' = cl_boot ?c" "cl_backend_boot c' = cl_backend_boot ?c"
      "cl_last_backend c' = cl_last_backend ?c" by (simp_all add: ack(2))
    have e: "eff_last ?l = eff_last l" using sel by (simp add: eff_last_def)
    have "node_inv nid ?l n"
      by (rule node_inv_trim [OF ni a(2)]) (simp_all add: e, simp_all add: ack(2) trim_queue)
    then show ?thesis
      using n down_inv_ack [OF d(1) n(1) dinv a(1)] d boot sel okc ack(3) e
      by (intro link_invI seen_inv_bound [of _ nid n]) (auto simp: phase_inv_def bound_inv_def)
  next
    case stop
    have e: "eff_last ?l = eff_last l" using stop by (simp add: eff_last_def)
    have "node_inv nid ?l n"
      by (rule node_inv_client [OF ni]) (use ni e in \<open>simp_all add: stop node_inv_def accounted_def\<close>)
    then show ?thesis using n d stop by (intro link_invI seen_inv_bound [of _ nid n]) (auto simp: phase_inv_def)
  next
    case dup
    have e: "eff_last ?l = eff_last l" using dup by (simp add: eff_last_def)
    have "node_inv nid ?l n"
      by (rule node_inv_client [OF ni])
        (use ni e in \<open>simp_all add: node_inv_def accounted_def executing_def result_queued_def, simp_all add: dup\<close>)
    then show ?thesis
      using n d boot okc dup e down_inv_tail [OF dinv order.refl] last
      by (intro link_invI seen_inv_bound [of _ nid n]) (auto simp: phase_inv_def bound_inv_def)
  next
    case new
    have e: "eff_last ?l = bm_seq m" using new boot by (simp add: eff_last_def)
    have le: "eff_last l \<le> bm_seq m" using new(2) last by (simp add: not_le less_imp_le)
    have sent: "bm_seq m \<le> lk_sent_down l" "lk_sent_down l \<le> nd_next n" using dinv by (auto simp: down_inv_def)
    have acc: "accounted ?l n r" if "accounted l n r" for r
    proof -
      have ex: "executing c' r" if "executing ?c r"
        using handle_executing [OF that, of m] by (simp add: new executing_def)
      have rq: "result_queued (nd_high n) c' r = result_queued (nd_high n) ?c r"
        by (simp add: result_queued_def new)
      have "start_queued (bm_seq m) n r \<or> executing c' r" if "start_queued (eff_last l) n r"
      proof -
        from that obtain x where x: "x \<in> set (nd_queue n)" "eff_last l < bm_seq x"
          "case bm_payload x of BmStartRun sr \<Rightarrow> sr_run sr = r | _ \<Rightarrow> False" by (auto simp: start_queued_def)
        show ?thesis
        proof (cases "bm_seq m < bm_seq x")
          case True
          with x show ?thesis by (auto simp: start_queued_def)
        next
          case False
          then have "bm_seq x \<le> lk_sent_down l" using sent(1) by simp
          then have "x \<in> set (m # rest)" using dinv x(1,2) by (simp add: down_inv_def)
          moreover have "bm_seq x \<noteq> 0" using node_seq [OF d(1) n(1) x(1)] by auto
          ultimately have "x = m"
            using head_first [of bm_seq m rest x] dinv new(1) False by (auto simp: down_inv_def)
          then have "executing c' r"
            using x(3) handle_starts [of m _ ?c] by (auto simp: new executing_def split: backend_payload.splits)
          then show ?thesis ..
        qed
      qed
      with that ex rq show ?thesis by (auto simp: accounted_def e)
    qed
    have "node_inv nid ?l n"
      by (rule node_inv_client [OF ni _ _ _ _ _ _ _ _ _ _ _ acc])
        (use le sent e new in \<open>simp_all\<close>)
    then show ?thesis
      using n d boot okc new e down_inv_tail [OF dinv le order.refl]
      by (intro link_invI seen_inv_bound [of _ nid n]) (auto simp: phase_inv_def bound_inv_def)
  qed
qed
end
