(* ===== verification/RunnerLinkSafe.thy ===== *)
theory RunnerLinkSafe
  imports RunnerLinkProof
begin

text \<open>
  The steps of the hub keep the invariant of the linked system; what follows for the runs and the
  messages of one runner.
\<close>

section \<open>Steps that are quiet for the node\<close>

lemma accounted_hub:
  assumes "accounted l n r" "lk_cl l' = lk_cl l" "eff_last l' = eff_last l"
    "set (nd_queue n) \<subseteq> set (nd_queue n')" "nd_high n' = nd_high n"
  shows "accounted l' n' r"
  using assms by (auto simp: accounted_def start_queued_def)

lemma down_inv_node:
  "nd_queue n' = nd_queue n \<Longrightarrow> nd_next n' = nd_next n \<Longrightarrow> nd_high n' = nd_high n \<Longrightarrow>
   down_inv down sent seen n' = down_inv down sent seen n"
  by (simp add: down_inv_def split: backend_payload.split)

lemma step_quiet:
  assumes inv: "link_inv psize nid l" and q: "quiet nid (lk_conn l) (lk_hub l) h'" and wf: "hub_wf h'"
  shows "link_inv psize nid (l\<lparr>lk_hub := h'\<rparr>)" (is "link_inv psize nid ?l")
proof -
  note d = link_invD [OF inv]
  have boot: "h_boot h' = h_boot (lk_hub l)" using q by (simp add: quiet_def)
  have tr: "tracked h' nid r \<Longrightarrow> tracked (lk_hub l) nid r" for r using q by (simp add: quiet_def)
  have cn: "map_of (h_conns h') (lk_conn l) = Some c \<Longrightarrow> map_of (h_conns (lk_hub l)) (lk_conn l) = Some c" for c
    using q by (simp add: quiet_def)
  have e: "eff_last ?l = eff_last l" using boot by (simp add: eff_last_def)
  have bwd: "\<exists>n. node_of (lk_hub l) nid = Some n \<and> nd_queue n' = nd_queue n \<and> nd_next n' = nd_next n
      \<and> nd_boot n' = nd_boot n \<and> nd_high n' = nd_high n" if "node_of h' nid = Some n'" for n'
    using q that by (auto simp: quiet_def split: option.splits)
  have fwd: "\<exists>n'. node_of h' nid = Some n' \<and> nd_queue n' = nd_queue n \<and> nd_next n' = nd_next n
      \<and> nd_boot n' = nd_boot n \<and> nd_high n' = nd_high n" if "node_of (lk_hub l) nid = Some n" for n
    using q that by (auto simp: quiet_def)
  have high: "high_of h' nid = high_of (lk_hub l) nid"
    using q by (auto simp: quiet_def high_of_def split: option.splits)
  have bnd: "bound_inv nid ?l" if "bound_inv nid l"
  proof -
    from that obtain n where n: "node_of (lk_hub l) nid = Some n" "nd_boot n = cl_boot (lk_cl l)"
      "down_inv (lk_down l) (lk_sent_down l) (eff_last l) n" by (auto simp: bound_inv_def)
    from fwd [OF n(1)] obtain n' where n': "node_of h' nid = Some n'" "nd_queue n' = nd_queue n"
      "nd_next n' = nd_next n" "nd_boot n' = nd_boot n" "nd_high n' = nd_high n" by blast
    have "down_inv (lk_down l) (lk_sent_down l) (eff_last l) n'"
      using n(3) by (simp only: down_inv_node [OF n'(2,3,5)])
    then show ?thesis using n n' by (simp add: bound_inv_def e)
  qed
  show ?thesis
  proof (rule link_invI)
    fix n' assume n': "node_of (lk_hub ?l) nid = Some n'" "nd_boot n' = cl_boot (lk_cl ?l)"
    then obtain n where n: "node_of (lk_hub l) nid = Some n" "nd_queue n' = nd_queue n"
      "nd_next n' = nd_next n" "nd_boot n' = nd_boot n" "nd_high n' = nd_high n"
      using bwd [of n'] by auto
    have ni: "node_inv nid l n" using d(4) n n' by simp
    have "accounted ?l n' r" if "tracked h' nid r" for r
    proof -
      have "accounted l n r" using ni tr [OF that] by (simp add: node_inv_def)
      then show ?thesis by (rule accounted_hub) (simp_all add: e n)
    qed
    then show "node_inv nid ?l n'"
      using ni cn by (simp add: node_inv_def e n)
  next
    show "phase_inv nid ?l"
    proof (cases "lk_phase l")
      case (Registering k reg)
      have "r \<in> known_ids reg \<or> start_queued (eff_last l) n' r"
        if "node_of h' nid = Some n'" "nd_boot n' = cl_boot (lk_cl l)" "tracked h' nid r" for n' r
      proof -
        from bwd [OF that(1)]
        obtain n where n: "node_of (lk_hub l) nid = Some n" "nd_queue n' = nd_queue n" "nd_boot n' = nd_boot n"
          by auto
        then have "r \<in> known_ids reg \<or> start_queued (eff_last l) n r"
          using d(5) Registering that tr by (simp add: phase_inv_def)
        with n show ?thesis by (simp add: start_queued_def)
      qed
      then show ?thesis using d(5) Registering by (simp add: phase_inv_def e)
    qed (use d(5) bnd boot high in \<open>simp_all add: phase_inv_def\<close>)
    have "boot_of h' nid = boot_of (lk_hub l) nid"
      using q by (auto simp: quiet_def boot_of_def split: option.splits)
    then show "seen_inv nid ?l" by (intro seen_inv_same [OF d(6) e]) simp_all
  qed (use d wf in simp_all)
qed

section \<open>A message joins the node's queue\<close>

definition enqueued :: "string \<Rightarrow> nat \<Rightarrow> backend_payload \<Rightarrow> 's hub \<Rightarrow> 's hub \<Rightarrow> bool" where
  "enqueued nid k p h h' \<longleftrightarrow> h_boot h' = h_boot h \<and> h_conns h' = h_conns h
     \<and> (\<exists>n. node_of h nid = Some n \<and> nd_next n \<noteq> - 1 \<and> node_of h' nid = Some (node_enqueue p n))
     \<and> (\<forall>r. tracked h' nid r \<longrightarrow> tracked h nid r \<or>
          (case p of BmStartRun sr \<Rightarrow> sr_run sr = r | _ \<Rightarrow> False))"

lemma step_enqueued:
  assumes inv: "link_inv psize nid l" and q: "enqueued nid (lk_conn l) p (lk_hub l) h'" and wf: "hub_wf h'"
  shows "link_inv psize nid (l\<lparr>lk_hub := h'\<rparr>)" (is "link_inv psize nid ?l")
proof -
  note d = link_invD [OF inv]
  obtain n where n: "node_of (lk_hub l) nid = Some n" "nd_next n \<noteq> - 1" "node_of h' nid = Some (node_enqueue p n)"
    and boot: "h_boot h' = h_boot (lk_hub l)" and conns: "h_conns h' = h_conns (lk_hub l)"
    using q by (auto simp: enqueued_def)
  have tr: "tracked h' nid r \<Longrightarrow> tracked (lk_hub l) nid r \<or> (case p of BmStartRun sr \<Rightarrow> sr_run sr = r | _ \<Rightarrow> False)" for r
    using q by (auto simp: enqueued_def)
  let ?n = "node_enqueue p n"
  have e: "eff_last ?l = eff_last l" using boot by (simp add: eff_last_def)
  have sel: "nd_boot ?n = nd_boot n" "nd_high ?n = nd_high n" "nd_next ?n = nd_next n + 1"
    "nd_queue ?n = nd_queue n @ [\<lparr>bm_seq = nd_next n + 1, bm_payload = p\<rparr>]"
    by (simp_all add: node_enqueue_def)
  have lt: "nd_next n < nd_next n + 1" by (rule word_less_add_1 [OF n(2)])
  have started: "start_queued seen ?n r" if "seen \<le> nd_next n" "case p of BmStartRun sr \<Rightarrow> sr_run sr = r | _ \<Rightarrow> False" for seen r
    using that lt by (auto simp: start_queued_def sel split: backend_payload.splits)
  have kept: "start_queued seen ?n r" if "start_queued seen n r" for seen r
    using that by (auto simp: start_queued_def sel)
  have dn: "down_inv (lk_down l) (lk_sent_down l) (eff_last l) ?n"
    if "down_inv (lk_down l) (lk_sent_down l) (eff_last l) n"
  proof -
    have "lk_sent_down l < nd_next n + 1" using that lt by (auto simp: down_inv_def)
    with that lt show ?thesis by (auto simp: down_inv_def sel split: backend_payload.splits)
  qed
  show ?thesis
  proof (rule link_invI)
    fix n' assume n': "node_of (lk_hub ?l) nid = Some n'" "nd_boot n' = cl_boot (lk_cl ?l)"
    then have n'_eq: "n' = ?n" using n(3) by simp
    have ni: "node_inv nid l n" using d(4) [OF n(1)] n' n'_eq sel by simp
    then have le: "eff_last l \<le> nd_next n" by (simp add: node_inv_def)
    have "accounted ?l ?n r" if "tracked h' nid r" for r
    proof (cases "tracked (lk_hub l) nid r")
      case True
      then have "accounted l n r" using ni by (simp add: node_inv_def)
      then show ?thesis by (rule accounted_hub) (auto simp: e sel)
    next
      case False
      then show ?thesis using tr [OF that] started [OF le] by (simp add: accounted_def e)
    qed
    then show "node_inv nid ?l n'"
      using ni le lt by (simp add: node_inv_def e n'_eq sel conns)
  next
    show "phase_inv nid ?l"
    proof (cases "lk_phase l")
      case (Registering k reg)
      have "r \<in> known_ids reg \<or> start_queued (eff_last l) ?n r"
        if "nd_boot n = cl_boot (lk_cl l)" "tracked h' nid r" for r
      proof (cases "tracked (lk_hub l) nid r")
        case True
        then show ?thesis using d(5) Registering n that kept by (auto simp: phase_inv_def)
      next
        case False
        have "eff_last l \<le> nd_next n" using d(4) [OF n(1) that(1)] by (simp add: node_inv_def)
        then show ?thesis using tr [OF that(2)] False started by blast
      qed
      then show ?thesis using d(5) Registering n sel by (simp add: phase_inv_def e)
    next
      case (Replied res)
      then show ?thesis using d(5) n sel dn boot by (simp add: phase_inv_def bound_inv_def e high_of_def)
    next
      case Up
      then show ?thesis using d(5) n sel dn boot by (simp add: phase_inv_def bound_inv_def e)
    qed (simp add: phase_inv_def)
    show "seen_inv nid ?l" by (rule seen_inv_same [OF d(6) e]) (simp_all add: boot_of_def n sel)
  qed (use d wf in simp_all)
qed
section \<open>The hub's writer\<close>

lemma step_hub_write:
  assumes inv: "link_inv psize nid l"
    and w: "conn_write (lk_conn l) nid (lk_sent_down l) (lk_hub l) = (Some (out, sent), h')"
  shows "link_inv psize nid (l\<lparr>lk_hub := h', lk_down := lk_down l @ out, lk_sent_down := sent\<rparr>)"
    (is "link_inv psize nid ?l")
proof -
  note d = link_invD [OF inv]
  let ?s = "lk_sent_down l" and ?k = "lk_conn l"
  obtain n x where n: "node_of (lk_hub l) nid = Some n" and x: "map_of (h_conns (lk_hub l)) ?k = Some x"
    and h': "h' = lk_hub l\<lparr>h_conns := AList.update ?k (x\<lparr>cn_ack_dirty := False\<rparr>) (h_conns (lk_hub l))\<rparr>"
    and o: "out = filter (\<lambda>m. ?s < bm_seq m) (nd_queue n) @
      (if cn_ack_dirty x then [\<lparr>bm_seq = 0, bm_payload = BmAck (cn_ack_seq x)\<rparr>] else [])"
    and sent: "sent = (if filter (\<lambda>m. ?s < bm_seq m) (nd_queue n) = [] then ?s
      else bm_seq (last (filter (\<lambda>m. ?s < bm_seq m) (nd_queue n))))"
    using w by (auto simp: conn_write_def Let_def split: option.splits if_splits)
  let ?q = "filter (\<lambda>m. ?s < bm_seq m) (nd_queue n)"
  have node: "node_of h' = node_of (lk_hub l)" by (simp add: h' node_of_def fun_eq_iff)
  have tr: "tracked h' = tracked (lk_hub l)" by (simp add: h' tracked_alt fun_eq_iff)
  have boot: "h_boot h' = h_boot (lk_hub l)" by (simp add: h')
  have e: "eff_last ?l = eff_last l" by (simp add: eff_last_def boot)
  have wf: "hub_wf h'" using conn_write_wf [OF d(1), of ?k nid ?s] w by simp
  note srt = node_sorted [OF d(1) n]
  have qle: "bm_seq m \<le> sent" if "m \<in> set ?q" for m
    using last_filter_sorted(2) [OF srt _ that] that unfolding sent by (cases "?q = []") auto
  have ge: "?s \<le> sent" unfolding sent by (rule sent_grows [OF srt])
  have dn: "down_inv (lk_down l @ out) sent (eff_last l) n"
    if dv: "down_inv (lk_down l) ?s (eff_last l) n" and ack: "cn_ack_dirty x \<longrightarrow> cn_ack_seq x \<le> nd_high n"
    unfolding down_inv_def
  proof (intro conjI ballI impI)
    have fo: "filter (\<lambda>s. s \<noteq> 0) (map bm_seq out) = map bm_seq ?q"
    proof -
      have "filter (\<lambda>s. s \<noteq> 0) (map bm_seq ?q) = map bm_seq ?q"
        by (rule filter_True) (use node_seq [OF d(1) n] in force)
      then show ?thesis by (simp add: o)
    qed
    have "a < b" if "a \<in> set (map bm_seq (lk_down l))" "b \<in> set (map bm_seq ?q)" for a b
    proof -
      have "a \<le> ?s" using that(1) dv by (auto simp: down_inv_def)
      moreover have "?s < b" using that(2) by auto
      ultimately show ?thesis by simp
    qed
    then show "sorted_wrt (<) (filter (\<lambda>s. s \<noteq> 0) (map bm_seq (lk_down l @ out)))"
      using dv fo sorted_map_filter [OF srt] by (auto simp: down_inv_def sorted_wrt_append)
    show "sent \<le> nd_next n"
    proof (cases "?q = []")
      case False
      then have "last ?q \<in> set (nd_queue n)" using last_in_set [of ?q] by simp
      then show ?thesis using node_seq [OF d(1) n] False by (simp add: sent)
    qed (use dv in \<open>simp add: sent down_inv_def\<close>)
  next
    fix m assume m: "m \<in> set (lk_down l @ out)"
    then consider "m \<in> set (lk_down l)" | "m \<in> set ?q"
      | "m = \<lparr>bm_seq = 0, bm_payload = BmAck (cn_ack_seq x)\<rparr>" "cn_ack_dirty x"
      by (auto simp: o split: if_splits)
    then have "bm_seq m \<le> sent \<and> (case bm_payload m of BmAck a \<Rightarrow> bm_seq m = 0 \<and> a \<le> nd_high n | _ \<Rightarrow> True)"
    proof cases
      case 1
      then have "bm_seq m \<le> ?s" using dv by (simp add: down_inv_def)
      with ge have "bm_seq m \<le> sent" by (rule order.trans [rotated])
      with 1 dv show ?thesis by (simp add: down_inv_def)
    next
      case 2
      then show ?thesis
        using qle [OF 2] node_plain [OF d(1) n, of m] by (auto simp: plain_down_def split: backend_payload.splits)
    next
      case 3
      then show ?thesis using ack by simp
    qed
    then show "bm_seq m \<le> sent" "case bm_payload m of BmAck a \<Rightarrow> bm_seq m = 0 \<and> a \<le> nd_high n | _ \<Rightarrow> True"
      by simp_all
  next
    fix m assume "m \<in> set (nd_queue n)" "eff_last l < bm_seq m" "bm_seq m \<le> sent"
    then show "m \<in> set (lk_down l @ out)"
      using dv by (cases "bm_seq m \<le> ?s") (auto simp: down_inv_def o)
  qed
  have bnd: "bound_inv nid ?l" if "bound_inv nid l"
  proof -
    have dv: "nd_boot n = cl_boot (lk_cl l)" "down_inv (lk_down l) ?s (eff_last l) n"
      using that n by (auto simp: bound_inv_def)
    then have "cn_ack_dirty x \<longrightarrow> cn_ack_seq x \<le> nd_high n" using d(4) [OF n] x by (simp add: node_inv_def)
    with dn dv n show ?thesis by (simp add: bound_inv_def e node)
  qed
  show ?thesis
  proof (rule link_invI)
    fix n' assume n': "node_of (lk_hub ?l) nid = Some n'" "nd_boot n' = cl_boot (lk_cl ?l)"
    then have ni: "node_inv nid l n'" using d(4) by (simp add: node)
    have "accounted ?l n' r = accounted l n' r" for r by (simp add: accounted_def e)
    moreover have "\<not> cn_ack_dirty y" if "map_of (h_conns h') ?k = Some y" for y
      using that by (auto simp: h' alist_simps)
    ultimately show "node_inv nid ?l n'" using ni unfolding node_inv_def e by (simp add: tr)
  next
    show "phase_inv nid ?l"
      using d(5) bnd by (auto simp: phase_inv_def e node tr boot high_of_def split: phase.splits)
    show "seen_inv nid ?l" by (rule seen_inv_same [OF d(6) e]) (simp_all add: boot_of_def node)
  qed (use d wf in simp_all)
qed

section \<open>The hub handles a message\<close>

lemma up_inv_tail:
  assumes u: "up_inv (m # rest) sent high seen c log" and h: "high \<le> high'"
    and skip: "\<And>x. x \<in> set (cl_queue c) \<Longrightarrow> \<not> is_heartbeat x \<Longrightarrow> high' < rm_seq x \<Longrightarrow> x \<noteq> m"
  shows "up_inv rest sent high' seen c log"
proof -
  have "x \<in> set rest" if "x \<in> set (cl_queue c)" "\<not> is_heartbeat x" "high' < rm_seq x" "rm_seq x \<le> sent" for x
  proof -
    have "high < rm_seq x" using h that(3) by (rule order.strict_trans1)
    then have "x \<in> set (m # rest)" using u that by (simp add: up_inv_def)
    with skip [OF that(1-3)] show ?thesis by simp
  qed
  moreover have "sorted_wrt (<) (filter (\<lambda>s. s \<noteq> 0) (map rm_seq rest))"
    using u unfolding up_inv_def by (blast intro: sorted_tail)
  ultimately show ?thesis using u by (simp add: up_inv_def)
qed

text \<open>No message that is not a heartbeat is overtaken on the wire.\<close>

lemma none_overtaken:
  assumes ok: "client_ok psize c" and u: "up_inv (m # rest) sent high seen c log" and m: "rm_seq m \<noteq> 0"
    and x: "x \<in> set (cl_queue c)" "\<not> is_heartbeat x" "high < rm_seq x" "rm_seq x \<le> rm_seq m"
  shows "x = m"
proof -
  have "rm_seq m \<le> sent" using u by (simp add: up_inv_def)
  with x(4) have "rm_seq x \<le> sent" by (rule order.trans)
  then have "x \<in> set (m # rest)" using u x by (simp add: up_inv_def)
  moreover have "rm_seq x \<noteq> 0" using queue_seq [OF ok x(1)] by auto
  moreover have "sorted_wrt (<) (filter (\<lambda>s. s \<noteq> 0) (map rm_seq (m # rest)))" using u unfolding up_inv_def by blast
  ultimately have "rm_seq m < rm_seq x \<or> x = m" using head_first [of rm_seq m rest x] m by simp
  with x(4) show ?thesis by auto
qed

lemma filter_le_extend:
  assumes "sorted_wrt (<) (map f xs)" "high < s" "\<And>x. x \<in> set xs \<Longrightarrow> high < f x \<Longrightarrow> f x \<le> (s::u64) \<Longrightarrow> x = m"
    and "f m = s"
  shows "filter (\<lambda>x. f x \<le> s) xs = filter (\<lambda>x. f x \<le> high) xs @ (if m \<in> set xs then [m] else [])"
  using assms(1,3)
proof (induction xs)
  case (Cons x xs)
  have le: "f x \<le> s" if "f x \<le> high" using that assms(2) by simp
  show ?case
  proof (cases "f x \<le> high")
    case True
    then have "x \<noteq> m" using assms(2,4) by auto
    with True le Cons show ?thesis by auto
  next
    case False
    then have big: "high < f y" if "y \<in> set (x # xs)" for y using that Cons.prems(1) by (auto simp: not_le)
    have none: "filter (\<lambda>x. f x \<le> high) (x # xs) = []" using big by (auto simp: filter_empty_conv not_le)
    show ?thesis
    proof (cases "f x \<le> s")
      case True
      then have xm: "x = m" using Cons.prems(2) big by simp
      have "s < f y" if "y \<in> set xs" for y using that Cons.prems(1) assms(4) xm by auto
      then have "filter (\<lambda>x. f x \<le> s) xs = []" by (auto simp: filter_empty_conv not_le)
      with none True xm show ?thesis by simp
    next
      case F: False
      have "s < f y" if "y \<in> set (x # xs)" for y using that Cons.prems(1) F by (auto simp: not_le)
      then have "filter (\<lambda>x. f x \<le> s) (x # xs) = []" "m \<notin> set (x # xs)"
        using assms(4) by (auto simp: filter_empty_conv not_le)
      with none show ?thesis by simp
    qed
  qed
qed simp

text \<open>The phase part survives any change that only trims acknowledged dispatches.\<close>

lemma phase_inv_trimmed:
  assumes ph: "phase_inv nid l" and l': "lk_cl l' = lk_cl l" "lk_phase l' = lk_phase l"
      "lk_down l' = lk_down l" "lk_sent_down l' = lk_sent_down l"
    and n: "node_of (lk_hub l) nid = Some n" "node_of (lk_hub l') nid = Some n'"
    and b: "h_boot (lk_hub l') = h_boot (lk_hub l)" "nd_boot n' = nd_boot n" "nd_next n' = nd_next n"
    and tr: "\<And>r. tracked (lk_hub l') nid r \<Longrightarrow> tracked (lk_hub l) nid r"
    and high: "nd_boot n = cl_boot (lk_cl l) \<Longrightarrow> nd_high n \<le> nd_high n'"
    and q: "set (nd_queue n') \<subseteq> set (nd_queue n)"
    and keep: "\<And>r. nd_boot n = cl_boot (lk_cl l) \<Longrightarrow> start_queued (eff_last l) n r \<Longrightarrow> start_queued (eff_last l) n' r"
  shows "phase_inv nid l'"
proof -
  have e: "eff_last l' = eff_last l" by (simp add: eff_last_def l' b)
  have bnd: "bound_inv nid l'" if "bound_inv nid l"
  proof -
    have dv: "nd_boot n = cl_boot (lk_cl l)" "down_inv (lk_down l) (lk_sent_down l) (eff_last l) n"
      using that n by (auto simp: bound_inv_def)
    have "down_inv (lk_down l) (lk_sent_down l) (eff_last l) n'"
      unfolding down_inv_def
    proof (intro conjI ballI impI)
      fix m assume "m \<in> set (lk_down l)"
      then show "case bm_payload m of BmAck a \<Rightarrow> bm_seq m = 0 \<and> a \<le> nd_high n' | _ \<Rightarrow> True"
        using dv(2) high [OF dv(1)] by (auto simp: down_inv_def split: backend_payload.splits intro: order.trans)
    qed (use dv(2) q in \<open>auto simp: down_inv_def b(3)\<close>)
    then show ?thesis using dv(1) n b by (simp add: bound_inv_def e l')
  qed
  have hb: "high_of (lk_hub l) nid \<le> high_of (lk_hub l') nid" if "bound_inv nid l"
    using that high n by (auto simp: bound_inv_def high_of_def)
  show ?thesis
  proof (cases "lk_phase l")
    case (Registering k reg)
    then show ?thesis using ph n b tr keep by (auto simp: phase_inv_def l' e)
  next
    case (Replied res)
    then have "rs_last_acked res \<le> high_of (lk_hub l) nid" "bound_inv nid l" using ph by (simp_all add: phase_inv_def)
    then show ?thesis using Replied ph bnd hb b order.trans by (fastforce simp: phase_inv_def l')
  qed (use ph bnd b in \<open>simp_all add: phase_inv_def l'\<close>)
qed

lemma step_hub_read:
  assumes inv: "link_inv psize nid l" and live: "lk_live l" and up: "lk_up l = m # rest"
    and hd: "handle_upstream st (lk_conn l) nid m (lk_hub l) = (err, h')"
  shows "link_inv psize nid
      (l\<lparr>lk_hub := h', lk_up := rest, lk_live := (err = None),
         lk_applied := lk_applied l @ processed (high_of (lk_hub l) nid) h' nid m\<rparr>)"
    (is "link_inv psize nid ?l")
proof (cases "node_of (lk_hub l) nid")
  case None
  then have "h' = lk_hub l" "err \<noteq> None"
    using hd by (auto simp: handle_upstream_def upstream_begin_def)
  then show ?thesis
    using inv None by (auto simp: link_inv_def phase_inv_def bound_inv_def eff_last_def seen_inv_def split: phase.splits)
next
  case (Some n)
  note d = link_invD [OF inv]
  let ?c = "lk_cl l"
  obtain n' eff where ef: "upstream_effect_ok nid (lk_conn l) m err (lk_hub l) h' n n' eff"
    using upstream_effect_cases [OF d(1) Some hd] .
  have v: "h_boot h' = h_boot (lk_hub l)" "node_of h' nid = Some n'" "nd_next n' = nd_next n" "nd_boot n' = nd_boot n"
    using ef by (simp_all add: upstream_effect_ok_def)
  have tr: "tracked h' nid r \<Longrightarrow> tracked (lk_hub l) nid r" for r using ef by (simp add: upstream_effect_ok_def)
  have e: "eff_last ?l = eff_last l" by (simp add: eff_last_def v)
  have wf: "hub_wf h'" using handle_upstream_wf [OF d(1), of st "lk_conn l" nid m] hd by simp
  have high: "nd_high n \<le> nd_high n'"
    using ef by (cases eff) (auto simp: upstream_effect_ok_def intro: less_imp_le)
  have q: "set (nd_queue n') \<subseteq> set (nd_queue n)"
    using ef by (cases eff) (auto simp: upstream_effect_ok_def dest: set_dropWhileD)
  have upi: "up_inv (m # rest) (lk_sent_up l) (nd_high n) (eff_last l) ?c (lk_log l)"
    if "nd_boot n = cl_boot ?c" using d(4) [OF Some that] live up by (simp add: node_inv_def)
  have keep: "start_queued (eff_last l) n' r" if "nd_boot n = cl_boot ?c" "start_queued (eff_last l) n r" for r
  proof (cases eff)
    case (EffAck a)
    then have a: "rm_payload m = RmAck a" "nd_queue n' = dropWhile (\<lambda>x. bm_seq x \<le> a) (nd_queue n)"
      using ef by (simp_all add: upstream_effect_ok_def)
    have "a \<le> eff_last l" using upi [OF that(1)] a(1) by (auto simp: up_inv_def)
    from that(2) obtain x where x: "x \<in> set (nd_queue n)" "eff_last l < bm_seq x"
      "case bm_payload x of BmStartRun sr \<Rightarrow> sr_run sr = r | _ \<Rightarrow> False" by (auto simp: start_queued_def)
    have "\<not> bm_seq x \<le> a" using \<open>a \<le> eff_last l\<close> x(2) by simp
    with x(1) a(2) have "x \<in> set (nd_queue n')" by (simp add: in_dropWhile)
    with x show ?thesis by (auto simp: start_queued_def)
  qed (use that ef in \<open>simp_all add: upstream_effect_ok_def start_queued_def\<close>)
  have conns: "cn_ack_seq x \<le> nd_high n'"
    if "nd_boot n = cl_boot ?c" "map_of (h_conns h') (lk_conn l) = Some x" "cn_ack_dirty x" for x
  proof (cases "map_of (h_conns (lk_hub l)) (lk_conn l) = Some x")
    case True
    then have "cn_ack_seq x \<le> nd_high n" using d(4) [OF Some that(1)] that(3) by (simp add: node_inv_def)
    with high show ?thesis by (rule order.trans [rotated])
  next
    case False
    then show ?thesis using ef that(2) by (auto simp: upstream_effect_ok_def)
  qed
  have main: "node_inv nid ?l n'" if bt: "nd_boot n = cl_boot ?c"
  proof -
    note ni = d(4) [OF Some bt]
    note u = upi [OF bt]
    have lg: "log_inv (lk_log l) (lk_applied l) (nd_high n) ?c" using ni by (simp add: node_inv_def)
    have hn: "nd_high n' \<le> cl_next ?c"
    proof (cases eff)
      case EffProgress
      then have "nd_high n' = rm_seq m" using ef by (simp add: upstream_effect_ok_def)
      moreover have "rm_seq m \<le> lk_sent_up l" "lk_sent_up l \<le> cl_next ?c" using u by (simp_all add: up_inv_def)
      ultimately show ?thesis by simp
    qed (use ni ef in \<open>simp_all add: node_inv_def upstream_effect_ok_def\<close>)
    have not_m: "x \<noteq> m" if "x \<in> set (cl_queue ?c)" "nd_high n' < rm_seq x" "err = None" for x
    proof (cases eff)
      case (EffAck a)
      have "plain_payload (rm_payload x)" using d(2) that(1) by (simp add: client_ok_def)
      with EffAck ef show ?thesis by (auto simp: upstream_effect_ok_def plain_payload_def)
    qed (use that ef in \<open>auto simp: upstream_effect_ok_def\<close>)
    have up': "up_inv rest (lk_sent_up l) (nd_high n') (eff_last l) ?c (lk_log l)" if "err = None"
      by (rule up_inv_tail [OF u high]) (use not_m that in blast)
    have acc: "accounted ?l n' r" if t: "tracked h' nid r" for r
    proof -
      have "accounted l n r" using ni tr [OF t] by (simp add: node_inv_def)
      then consider "start_queued (eff_last l) n r" | "executing ?c r" | "result_queued (nd_high n) ?c r"
        by (auto simp: accounted_def)
      then show ?thesis
      proof cases
        case 3
        then obtain x where x: "x \<in> set (cl_queue ?c)" "nd_high n < rm_seq x"
          "case rm_payload x of RmRunResult rr \<Rightarrow> rr_run rr = r | _ \<Rightarrow> False" by (auto simp: result_queued_def)
        have hb: "\<not> is_heartbeat x" using x(3) by (auto simp: is_heartbeat_def split: runner_payload.splits)
        have "nd_high n' < rm_seq x"
        proof (rule ccontr)
          assume "\<not> nd_high n' < rm_seq x"
          then have le: "rm_seq x \<le> nd_high n'" by simp
          then have eff: "eff = EffProgress"
            using ef x(2) by (cases eff) (auto simp: upstream_effect_ok_def)
          then have s: "nd_high n' = rm_seq m" "rm_seq m \<noteq> 0" using ef by (auto simp: upstream_effect_ok_def)
          have "x = m" using none_overtaken [OF d(2) u s(2) x(1) hb x(2)] le s(1) by simp
          then show False using x(3) ef eff t by (auto simp: upstream_effect_ok_def split: runner_payload.splits)
        qed
        with x show ?thesis by (auto simp: accounted_def result_queued_def)
      qed (use keep [OF bt] in \<open>auto simp: accounted_def e\<close>)
    qed
    have proc: "processed (high_of (lk_hub l) nid) h' nid m =
        (if \<not> is_heartbeat m \<and> nd_high n < nd_high n' then [m] else [])"
      by (simp add: processed_def v high_of_def Some)
    have log: "log_inv (lk_log l) (lk_applied l @ processed (high_of (lk_hub l) nid) h' nid m) (nd_high n') ?c"
    proof -
      have ap: "lk_applied l @ processed (high_of (lk_hub l) nid) h' nid m
          = filter (\<lambda>x. rm_seq x \<le> nd_high n') (lk_log l)"
      proof (cases "nd_high n < nd_high n'")
        case True
        then have "eff = EffProgress" using ef by (cases eff) (auto simp: upstream_effect_ok_def)
        then have s: "nd_high n' = rm_seq m" "rm_seq m \<noteq> 0" using ef by (auto simp: upstream_effect_ok_def)
        have eqm: "x = m" if x: "x \<in> set (lk_log l)" "nd_high n < rm_seq x" "rm_seq x \<le> nd_high n'" for x
        proof -
          have "x \<in> set (cl_queue ?c)" "\<not> is_heartbeat x" using lg x(1,2) by (simp_all add: log_inv_def)
          then show ?thesis using none_overtaken [OF d(2) u s(2) _ _ x(2)] x(3) s(1) by simp
        qed
        have "sorted_wrt (<) (map rm_seq (lk_log l))" using lg by (simp add: log_inv_def)
        from filter_le_extend [OF this True eqm s(1) [symmetric]]
        have "filter (\<lambda>x. rm_seq x \<le> nd_high n') (lk_log l) =
            filter (\<lambda>x. rm_seq x \<le> nd_high n) (lk_log l) @ (if m \<in> set (lk_log l) then [m] else [])"
          .
        moreover have "m \<in> set (lk_log l) \<longleftrightarrow> \<not> is_heartbeat m"
          using u s(2) lg by (auto simp: up_inv_def log_inv_def)
        ultimately show ?thesis using lg True by (simp add: log_inv_def proc)
      next
        case False
        then have "nd_high n' = nd_high n" using high by simp
        then show ?thesis using lg by (simp add: log_inv_def proc)
      qed
      show ?thesis
        unfolding ap using lg high unfolding log_inv_def by (auto intro: order.strict_trans1)
    qed
    have el: "eff_last l \<le> nd_next n'" using ni by (simp add: node_inv_def v)
    have "eff_last ?l \<le> nd_next n'" "\<And>r. tracked (lk_hub ?l) nid r \<Longrightarrow> accounted ?l n' r"
      using el e acc by simp_all
    moreover have "lk_live ?l \<Longrightarrow>
      up_inv (lk_up ?l) (lk_sent_up ?l) (nd_high n') (eff_last ?l) (lk_cl ?l) (lk_log ?l)"
      unfolding e using up' by simp
    moreover have "log_inv (lk_log ?l) (lk_applied ?l) (nd_high n') (lk_cl ?l)" using log by simp
    moreover have "nd_high n' \<le> cl_next (lk_cl ?l)" using hn by simp
    moreover have "cn_ack_seq x \<le> nd_high n'"
      if "map_of (h_conns (lk_hub ?l)) (lk_conn ?l) = Some x" "cn_ack_dirty x" for x
      using conns [OF bt] that by simp
    ultimately show ?thesis unfolding node_inv_def by (intro conjI allI impI)
  qed
  show ?thesis
  proof (rule link_invI)
    fix n2 assume n2: "node_of (lk_hub ?l) nid = Some n2" "nd_boot n2 = cl_boot (lk_cl ?l)"
    then show "node_inv nid ?l n2" using main v by simp
  next
    show "phase_inv nid ?l"
      by (rule phase_inv_trimmed [OF d(5) _ _ _ _ Some, of ?l n']) (use v tr high q keep in simp_all)
    show "seen_inv nid ?l" by (rule seen_inv_same [OF d(6) e]) (simp_all add: boot_of_def v Some)
  qed (use d wf in simp_all)
qed

section \<open>Connecting and registering\<close>

lemma completed_iff: "r \<in> ref_run ` set (completed_refs c) \<longleftrightarrow>
   (\<exists>m \<in> set (cl_queue c). case rm_payload m of RmRunResult rr \<Rightarrow> rr_run rr = r | _ \<Rightarrow> False)"
proof
  assume "r \<in> ref_run ` set (completed_refs c)"
  then obtain m ref where m: "m \<in> set (cl_queue c)" "ref_run ref = r"
    "(case rm_payload m of RmRunResult rr \<Rightarrow> Some \<lparr>ref_run = rr_run rr, ref_chat = rr_chat rr,
        ref_attempt = rr_attempt rr, ref_wf_node = rr_wf_node rr, ref_token = rr_token rr\<rparr>
      | _ \<Rightarrow> None) = Some ref"
    by (auto simp: completed_refs_def in_map_filter)
  then have "case rm_payload m of RmRunResult rr \<Rightarrow> rr_run rr = r | _ \<Rightarrow> False"
    by (auto split: runner_payload.splits)
  with m(1) show "\<exists>m \<in> set (cl_queue c). case rm_payload m of RmRunResult rr \<Rightarrow> rr_run rr = r | _ \<Rightarrow> False" ..
next
  assume "\<exists>m \<in> set (cl_queue c). case rm_payload m of RmRunResult rr \<Rightarrow> rr_run rr = r | _ \<Rightarrow> False"
  then obtain m where mq: "m \<in> set (cl_queue c)"
    and mr: "case rm_payload m of RmRunResult rr \<Rightarrow> rr_run rr = r | _ \<Rightarrow> False" by blast
  obtain rr where m: "m \<in> set (cl_queue c)" "rm_payload m = RmRunResult rr" "rr_run rr = r"
    using mq mr by (cases "rm_payload m") auto
  let ?ref = "\<lparr>ref_run = rr_run rr, ref_chat = rr_chat rr, ref_attempt = rr_attempt rr,
     ref_wf_node = rr_wf_node rr, ref_token = rr_token rr\<rparr>"
  have "?ref \<in> set (completed_refs c)"
    unfolding completed_refs_def in_map_filter using m by (intro bexI [of _ m]) simp_all
  with m(3) show "r \<in> ref_run ` set (completed_refs c)" by force
qed

lemma active_iff:
  assumes "client_ok psize c"
  shows "r \<in> ref_run ` set (table_active (cl_runs c)) \<longleftrightarrow> executing c r"
proof
  assume "r \<in> ref_run ` set (table_active (cl_runs c))"
  then obtain k ref where "(k, ref) \<in> set (cl_runs c)" "ref_run ref = r" by (auto simp: table_active_def)
  then show "executing c r" using assms by (force simp: client_ok_def executing_def alist_wf_def)
next
  assume "executing c r"
  then obtain ref where "map_of (cl_runs c) r = Some ref" by (auto simp: executing_def)
  then have "(r, ref) \<in> set (cl_runs c)" "ref_run ref = r"
    using client_okD(7) [OF assms] by (auto dest: map_of_SomeD)
  then show "r \<in> ref_run ` set (table_active (cl_runs c))" by (force simp: table_active_def)
qed

lemma known_build:
  assumes "client_ok psize c"
  shows "r \<in> known_ids (build_register proto clis c) \<longleftrightarrow> executing c r \<or> result_queued 0 c r"
proof -
  have "result_queued 0 c r \<longleftrightarrow> r \<in> ref_run ` set (completed_refs c)"
    unfolding completed_iff result_queued_def using queue_seq [OF assms] by blast
  moreover have "r \<in> known_ids (build_register proto clis c) \<longleftrightarrow>
      r \<in> ref_run ` set (table_active (cl_runs c)) \<or> r \<in> ref_run ` set (completed_refs c)"
    by (auto simp: known_ids_def build_register_def Let_def)
  ultimately show ?thesis using active_iff [OF assms] by simp
qed

lemma step_connect:
  assumes inv: "link_inv psize nid l" and ph: "lk_phase l = Idle"
  shows "link_inv psize nid (l\<lparr>lk_phase := Registering k (build_register proto clis (lk_cl l))\<rparr>)"
    (is "link_inv psize nid ?l")
proof -
  note d = link_invD [OF inv]
  have e: "eff_last ?l = eff_last l" by (simp add: eff_last_def)
  have acc: "accounted ?l n r = accounted l n r" for n r by (simp add: accounted_def e)
  let ?reg = "build_register proto clis (lk_cl l)"
  have "r \<in> known_ids ?reg \<or> start_queued (eff_last l) n r"
    if "node_of (lk_hub l) nid = Some n" "nd_boot n = cl_boot (lk_cl l)" "tracked (lk_hub l) nid r" for n r
  proof -
    have "accounted l n r" using d(4) [OF that(1,2)] that(3) by (simp add: node_inv_def)
    then show ?thesis
      using known_build [OF d(2)] result_queued_le [of "nd_high n" "lk_cl l" r 0] by (auto simp: accounted_def)
  qed
  then have "phase_inv nid ?l"
    using known_build [OF d(2)] by (simp add: phase_inv_def e) (simp add: build_register_def Let_def)
  moreover have "node_inv nid ?l n" if "node_inv nid l n" for n
    using that by (simp add: node_inv_def acc e)
  moreover have "seen_inv nid ?l" using d(6) by (simp add: seen_inv_def e)
  ultimately show ?thesis using d by (intro link_invI) simp_all
qed

lemma step_registered:
  assumes inv: "link_inv psize nid l" and ph: "lk_phase l = Registering k reg"
    and ac: "hub_accept allowed k nid (lk_hub l) = (True, h1)"
    and room: "has_room (length (rg_active reg)) (node_locked h1 nid)"
    and rg: "hub_register st proto allowed k nid reg h1 = (res, h2)" "rs_accepted res"
  shows "link_inv psize nid
      (l\<lparr>lk_hub := h2, lk_phase := Replied res, lk_conn := k, lk_live := True, lk_up := [],
         lk_down := [], lk_sent_up := 0, lk_sent_down := 0,
         lk_log := (if boot_of (lk_hub l) nid = rg_boot reg then lk_log l
                    else filter (\<lambda>m. \<not> is_heartbeat m) (cl_queue (lk_cl l))),
         lk_applied := (if boot_of (lk_hub l) nid = rg_boot reg then lk_applied l else [])\<rparr>)"
    (is "link_inv psize nid ?l")
proof -
  note d = link_invD [OF inv]
  let ?c = "lk_cl l" and ?same = "boot_of (lk_hub l) nid = cl_boot (lk_cl l)"
  have h1: "h1 = lk_hub l\<lparr>h_conns := AList.update k
      \<lparr>cn_node = nid, cn_ack_dirty = False, cn_ack_seq = 0\<rparr> (h_conns (lk_hub l))\<rparr>"
    using ac by (auto simp: hub_accept_def split: if_splits)
  have node: "node_of h1 = node_of (lk_hub l)" by (simp add: h1 node_of_def fun_eq_iff)
  have tr: "tracked h1 = tracked (lk_hub l)" by (simp add: h1 tracked_alt fun_eq_iff)
  have b1: "h_boot h1 = h_boot (lk_hub l)" "boot_of h1 nid = boot_of (lk_hub l) nid"
    "high_of h1 nid = high_of (lk_hub l) nid" by (simp_all add: h1 boot_of_def high_of_def node_of_def)
  have wf1: "hub_wf h1" using hub_accept_wf [OF d(1), of allowed k nid] ac by simp
  have wf2: "hub_wf h2" using hub_register_wf [OF wf1 room, of st proto allowed k] rg by simp
  have p: "rg_boot reg = cl_boot ?c" "rg_last_acked reg = cl_last_backend ?c"
    "rg_seen_backend_boot reg = cl_backend_boot ?c"
    "\<And>r. r \<in> known_ids reg \<Longrightarrow> executing ?c r \<or> result_queued 0 ?c r"
    using d(5) ph by (simp_all add: phase_inv_def)
  obtain n where n: "node_of h2 nid = Some n" "nd_boot n = rg_boot reg"
      "h_boot h2 = h_boot h1" "h_conns h2 = h_conns h1" "rs_last_acked res = nd_high n" "rs_boot res = h_boot h1"
      "nd_high n = (if boot_of h1 nid = rg_boot reg then high_of h1 nid else 0)"
    and nx: "\<And>n0. node_of h1 nid = Some n0 \<Longrightarrow> nd_next n0 \<le> nd_next n"
    and t2: "\<And>r. tracked h2 nid r \<Longrightarrow> tracked h1 nid r"
    and t3: "\<And>r. tracked h2 nid r \<Longrightarrow> boot_of h1 nid \<noteq> rg_boot reg \<Longrightarrow> r \<in> known_ids reg"
    and sq: "\<And>n0 r seen. node_of h1 nid = Some n0 \<Longrightarrow> nd_boot n0 = rg_boot reg \<Longrightarrow> start_queued seen n0 r \<Longrightarrow>
       (rg_seen_backend_boot reg = h_boot h1 \<longrightarrow> rg_last_acked reg \<le> seen) \<Longrightarrow> start_queued seen n r"
    by (rule register_view [OF wf1 room rg], rule that) assumption+
  have e: "eff_last ?l = eff_last l" by (simp add: eff_last_def n(3) b1)
  have seen: "rg_last_acked reg \<le> eff_last l" if "rg_seen_backend_boot reg = h_boot h1"
    using that p b1 by (simp add: eff_last_def)
  have old: "\<exists>n0. node_of (lk_hub l) nid = Some n0 \<and> nd_boot n0 = cl_boot ?c \<and> node_inv nid l n0
      \<and> nd_high n = nd_high n0 \<and> nd_next n0 \<le> nd_next n" if "?same"
  proof -
    from that obtain n0 where n0: "node_of (lk_hub l) nid = Some n0" "nd_boot n0 = cl_boot ?c"
      using d(3) by (auto simp: boot_of_def split: option.splits)
    with d(4) [OF n0] nx [of n0] n(7) that b1 p(1) show ?thesis by (auto simp: node high_of_def)
  qed
  have main: "node_inv nid ?l n"
  proof -
    have qpos: "\<not> rm_seq m \<le> 0" if "m \<in> set (cl_queue ?c)" for m using queue_seq [OF d(2) that] by auto
    have hn: "nd_high n \<le> cl_next ?c"
      using old n(7) b1 p(1) by (cases ?same) (auto simp: node_inv_def)
    have en: "eff_last l \<le> nd_next n"
    proof (cases ?same)
      case True
      with old show ?thesis by (auto simp: node_inv_def intro: order.trans)
    next
      case False
      then show ?thesis using d(6) by (simp add: seen_inv_def)
    qed
    have up: "up_inv [] 0 (nd_high n) (eff_last l) ?c lg" for lg
      using qpos by (simp add: up_inv_def)
    have acc: "accounted ?l n r" if t: "tracked h2 nid r" for r
    proof (cases ?same)
      case True
      then obtain n0 where n0: "node_of (lk_hub l) nid = Some n0" "nd_boot n0 = cl_boot ?c"
        "node_inv nid l n0" "nd_high n = nd_high n0" using old by blast
      have "accounted l n0 r" using n0(3) t2 [OF t] by (simp add: node_inv_def tr)
      moreover have "start_queued (eff_last l) n r" if "start_queued (eff_last l) n0 r"
        by (rule sq [OF _ _ that]) (use n0 p node seen in simp_all)
      ultimately show ?thesis by (auto simp: accounted_def e n0(4))
    next
      case False
      then have "r \<in> known_ids reg" "nd_high n = 0" using t3 [OF t] n(7) b1 p(1) by simp_all
      then show ?thesis using p(4) by (auto simp: accounted_def)
    qed
    have lg: "log_inv (lk_log ?l) (lk_applied ?l) (nd_high n) ?c"
    proof (cases ?same)
      case True
      then show ?thesis using old p(1) by (auto simp: node_inv_def)
    next
      case False
      then have 0: "nd_high n = 0" using n(7) b1 p(1) by simp
      have "filter (\<lambda>m. rm_seq m \<le> 0) (filter (\<lambda>m. \<not> is_heartbeat m) (cl_queue ?c)) = []"
        using qpos by (auto simp: filter_empty_conv)
      then show ?thesis
        using False p(1) sorted_map_filter [OF queue_sorted [OF d(2)], of "\<lambda>m. \<not> is_heartbeat m"] queue_seq [OF d(2)]
        by (simp add: log_inv_def 0)
    qed
    have cn: "\<not> cn_ack_dirty x" if "map_of (h_conns h2) k = Some x" for x
      using that by (auto simp: n(4) h1 alist_simps)
    show ?thesis
      unfolding node_inv_def e using hn en up acc lg cn by simp
  qed
  have dn: "down_inv [] 0 seen n" for seen
    using node_seq [OF wf2 n(1)] by (force simp: down_inv_def)
  show ?thesis
  proof (rule link_invI)
    fix n' assume "node_of (lk_hub ?l) nid = Some n'"
    then show "node_inv nid ?l n'" using main n(1) by simp
  next
    show "phase_inv nid ?l"
      using n p(1) b1 dn by (simp add: phase_inv_def bound_inv_def high_of_def)
    show "seen_inv nid ?l" by (rule seen_inv_bound [of _ _ n]) (simp_all add: n p(1))
  qed (use d wf2 in simp_all)
qed

section \<open>Dispatching, cancelling, restarting\<close>

lemma tracked_new_run:
  assumes "hub_wf h" "map_of (h_runs h) r0 = None"
  shows "tracked (h\<lparr>h_heap := h_heap h @ [new_run r0 i sr],
      h_runs := AList.update r0 (length (h_heap h)) (h_runs h)\<rparr>) nid r
    \<longleftrightarrow> (if r = r0 then i = nid else tracked h nid r)"
  using hub_wfD(5) [OF assms(1), of r] by (auto simp: tracked_alt alist_simps nth_append)

lemma tracked_put_node [simp]: "tracked (put_node n h) = tracked h"
  by (simp add: fun_eq_iff tracked_alt)

lemma step_dispatch_locked:
  assumes inv: "link_inv psize nid l" and room: "\<And>n. node_of (lk_hub l) i = Some n \<Longrightarrow> has_room 1 n"
  shows "link_inv psize nid (l\<lparr>lk_hub := snd (dispatch_locked allowed (lk_hub l) i sr)\<rparr>)"
proof -
  note d = link_invD [OF inv]
  let ?h = "lk_hub l"
  have wf: "hub_wf (snd (dispatch_locked allowed ?h i sr))" by (rule dispatch_locked_wf [OF d(1) room])
  show ?thesis
  proof (cases "snd (dispatch_locked allowed ?h i sr) = ?h")
    case True
    then show ?thesis using inv by simp
  next
    case False
    then obtain n where n: "node_of ?h i = Some n" and fresh: "map_of (h_runs ?h) (sr_run sr) = None"
      and h': "snd (dispatch_locked allowed ?h i sr) = put_node (node_enqueue (BmStartRun sr) n)
         (?h\<lparr>h_heap := h_heap ?h @ [new_run (sr_run sr) i sr],
             h_runs := AList.update (sr_run sr) (length (h_heap ?h)) (h_runs ?h)\<rparr>)"
      by (auto simp: dispatch_locked_def Let_def split: option.splits if_splits)
    have id: "nd_id n = i" using hub_wfD(4) [OF d(1) n] by simp
    have nx: "nd_next n \<noteq> - 1" using has_room_neq [OF room [OF n]] by simp
    note t = tracked_new_run [OF d(1) fresh, of i sr nid]
    have nd: "node_of (?h\<lparr>h_heap := x, h_runs := y\<rparr>) = node_of ?h" for x y
      by (simp add: node_of_def fun_eq_iff)
    show ?thesis
    proof (cases "i = nid")
      case True
      have "enqueued nid (lk_conn l) (BmStartRun sr) ?h (snd (dispatch_locked allowed ?h i sr))"
        unfolding h' using n nx True t id by (auto simp: enqueued_def nd)
      then show ?thesis by (rule step_enqueued [OF inv _ wf])
    next
      case False
      have "quiet nid (lk_conn l) ?h (snd (dispatch_locked allowed ?h i sr))"
        unfolding h' using False t id by (auto simp: quiet_def nd split: option.split)
      then show ?thesis by (rule step_quiet [OF inv _ wf])
    qed
  qed
qed

lemma step_cancel_run:
  assumes inv: "link_inv psize nid l" and room: "\<And>n. node_of (lk_hub l) i = Some n \<Longrightarrow> has_room 1 n"
  shows "link_inv psize nid (l\<lparr>lk_hub := snd (hub_cancel allowed (lk_hub l) i rid)\<rparr>)"
proof -
  note d = link_invD [OF inv]
  let ?h = "lk_hub l"
  have wf: "hub_wf (snd (hub_cancel allowed ?h i rid))" by (rule hub_cancel_wf [OF d(1) room])
  show ?thesis
  proof (cases "snd (hub_cancel allowed ?h i rid) = ?h")
    case True
    then show ?thesis using inv by simp
  next
    case False
    then obtain n where n: "node_of ?h i = Some n"
      and h': "snd (hub_cancel allowed ?h i rid) = put_node (node_enqueue (BmCancelRun rid) n) ?h"
      by (auto simp: hub_cancel_def split: option.splits if_splits)
    have id: "nd_id n = i" using hub_wfD(4) [OF d(1) n] by simp
    have nx: "nd_next n \<noteq> - 1" using has_room_neq [OF room [OF n]] by simp
    show ?thesis
    proof (cases "i = nid")
      case True
      have "enqueued nid (lk_conn l) (BmCancelRun rid) ?h (snd (hub_cancel allowed ?h i rid))"
        unfolding h' using n nx True id by (auto simp: enqueued_def)
      then show ?thesis by (rule step_enqueued [OF inv _ wf])
    next
      case False
      have "quiet nid (lk_conn l) ?h (snd (hub_cancel allowed ?h i rid))"
        unfolding h' using False id by (auto simp: quiet_def split: option.split)
      then show ?thesis by (rule step_quiet [OF inv _ wf])
    qed
  qed
qed

lemma step_drop:
  assumes inv: "link_inv psize nid l"
  shows "link_inv psize nid (l\<lparr>lk_cl := client_detach (lk_cl l), lk_phase := Idle\<rparr>)" (is "link_inv psize nid ?l")
proof -
  note d = link_invD [OF inv]
  have e: "eff_last ?l = eff_last l" by (simp add: eff_last_def client_detach_def)
  have "node_inv nid ?l n" if "node_inv nid l n" for n
    by (rule node_inv_client [OF that])
      (use that e in \<open>simp_all add: node_inv_def accounted_def executing_def result_queued_def client_detach_def\<close>)
  moreover have "seen_inv nid ?l" by (rule seen_inv_same [OF d(6) e]) (simp_all add: client_detach_def)
  ultimately show ?thesis
    using d by (intro link_invI) (simp_all add: client_detach_def phase_inv_def client_ok_def)
qed

lemma step_runner_restart:
  assumes inv: "link_inv psize nid l" and b: "boot \<noteq> boot_of (lk_hub l) nid" "boot \<noteq> []"
  shows "link_inv psize nid (l\<lparr>lk_cl := new_client nid v boot runs mq mb, lk_phase := Idle\<rparr>)" (is "link_inv psize nid ?l")
proof -
  have boot: "cl_boot (new_client nid v boot runs mq mb) = boot" "cl_last_backend (new_client nid v boot runs mq mb) = 0"
    by (simp_all add: new_client_def)
  have "nd_boot n \<noteq> boot" if "node_of (lk_hub l) nid = Some n" for n using b(1) that by (simp add: boot_of_def)
  moreover have "seen_inv nid ?l" by (simp add: seen_inv_def eff_last_def boot)
  ultimately show ?thesis
    using link_invD(1) [OF inv] b(2) boot new_client_ok by (intro link_invI) (auto simp: phase_inv_def)
qed

lemma step_hub_restart:
  assumes inv: "link_inv psize nid l" and b: "boot \<noteq> cl_backend_boot (lk_cl l)"
  shows "link_inv psize nid (l\<lparr>lk_hub := new_hub boot s, lk_phase := Idle, lk_live := False, lk_up := [], lk_down := []\<rparr>)"
    (is "link_inv psize nid ?l")
proof -
  have "node_of (new_hub boot s) nid = None" by (simp add: node_of_def new_hub_def)
  moreover have "seen_inv nid ?l" using b by (simp add: seen_inv_def eff_last_def new_hub_def)
  ultimately show ?thesis
    using link_invD(2,3) [OF inv] new_hub_wf by (intro link_invI) (auto simp: phase_inv_def)
qed

lemma link_step_inv: "link_step st sz psize enc proto nid l l' \<Longrightarrow> link_inv psize nid l \<Longrightarrow> link_inv psize nid l'"
proof (induction rule: link_step.induct)
  case (hub_dispatches l i allowed sr)
  show ?case
  proof (cases "dispatch_check st sz (lk_hub l) sr")
    case None
    then show ?thesis
      using step_dispatch_locked [OF hub_dispatches(2,1)] by (simp add: dispatch_def)
  qed (use hub_dispatches(2) in \<open>simp add: dispatch_def\<close>)
next
  case (hub_late_apply h' p l)
  note d = link_invD [OF hub_late_apply(2)]
  show ?case unfolding hub_late_apply(1)
    by (rule step_quiet [OF hub_late_apply(2) quiet_apply [OF d(1)] apply_msg_wf [OF d(1)]])
next
  case (hub_drops l k)
  note d = link_invD [OF hub_drops]
  show ?case by (rule step_quiet [OF hub_drops quiet_detach [OF d(1)] hub_detach_wf [OF d(1)]])
next
  case (hub_stops l)
  note d = link_invD [OF hub_stops]
  show ?case by (rule step_quiet [OF hub_stops quiet_stop hub_stop_wf [OF d(1)]])
next
  case (other_runner i k l m)
  note d = link_invD [OF other_runner(3)]
  show ?case
    by (rule step_quiet [OF other_runner(3) quiet_other [OF d(1) other_runner(1)] handle_upstream_wf [OF d(1)]])
      (use other_runner(2) in simp)
qed (blast intro: step_local step_client_write step_connect step_registered step_attach step_hub_write step_hub_read
    step_client_read step_drop step_cancel_run step_runner_restart step_hub_restart)+

lemma new_link_inv: "cb \<noteq> [] \<Longrightarrow> link_inv psize nid (new_link (new_hub hb s) (new_client nid v cb runs mq mb))"
  by (rule link_invI)
    (simp_all add: new_link_def new_hub_wf new_client_ok phase_inv_def seen_inv_def eff_last_def,
     simp_all add: new_hub_def node_of_def new_client_def)

definition start_link :: "string \<Rightarrow> 's \<Rightarrow> string \<Rightarrow> string \<Rightarrow> string \<Rightarrow> u32 \<Rightarrow> int \<Rightarrow> int \<Rightarrow> 's link" where
  "start_link hb s nid v cb runs mq mb = new_link (new_hub hb s) (new_client nid v cb runs mq mb)"

lemma link_reach_inv:
  "link_reach st sz psize enc proto nid (start_link hb s nid v cb runs mq mb) l \<Longrightarrow> cb \<noteq> [] \<Longrightarrow> link_inv psize nid l"
  by (induction rule: link_reach.induct) (auto simp: start_link_def intro: new_link_inv link_step_inv)

section \<open>What follows\<close>

text \<open>
  C15. No run is forgotten while its runner process lives: in every reachable state of the linked
  system in which the node's registration is that of the present runner process, each run the hub
  tracks for the node is still on its way (its dispatch is queued and not yet received), or is
  executing on the runner, or its result is queued there and not yet processed by the hub.
\<close>

theorem tracked_run_accounted:
  assumes "link_reach st sz psize enc proto nid (start_link hb s nid v cb runs mq mb) l" "cb \<noteq> []"
    and "node_of (lk_hub l) nid = Some n" "nd_boot n = cl_boot (lk_cl l)"
    and "tracked (lk_hub l) nid r"
  shows "start_queued (eff_last l) n r \<or> executing (lk_cl l) r \<or> result_queued (nd_high n) (lk_cl l) r"
  using link_invD(4) [OF link_reach_inv [OF assms(1,2)] assms(3,4)] assms(5)
  by (simp add: node_inv_def accounted_def)

text \<open>
  C16. A reconnect loses no run: when the same runner process registers again, every run the hub
  tracks for it stays tracked under the same handle, and the handle is not touched. Only a restart
  of the runner ends its runs with \<open>ErrRunLost\<close>.
\<close>

theorem reconnect_loses_no_run:
  assumes "link_reach st sz psize enc proto nid (start_link hb s nid v cb runs mq mb) l" "cb \<noteq> []"
    and "lk_phase l = Registering k reg" "boot_of (lk_hub l) nid = cl_boot (lk_cl l)"
    and "hub_accept allowed k nid (lk_hub l) = (True, h1)"
    and "has_room (length (rg_active reg)) (node_locked h1 nid)"
    and "hub_register st proto allowed k nid reg h1 = (res, h2)" "rs_accepted res"
    and "map_of (h_runs (lk_hub l)) r = Some a" "ru_node (h_heap (lk_hub l) ! a) = nid"
  shows "map_of (h_runs h2) r = Some a \<and> h_heap h2 ! a = h_heap (lk_hub l) ! a"
proof -
  note inv = link_reach_inv [OF assms(1,2)]
  note d = link_invD [OF inv]
  have h1: "h1 = lk_hub l\<lparr>h_conns := AList.update k
      \<lparr>cn_node = nid, cn_ack_dirty = False, cn_ack_seq = 0\<rparr> (h_conns (lk_hub l))\<rparr>"
    using assms(5) by (auto simp: hub_accept_def split: if_splits)
  have wf1: "hub_wf h1" using hub_accept_wf [OF d(1), of allowed k nid] assms(5) by simp
  obtain n where n: "node_of (lk_hub l) nid = Some n" "nd_boot n = cl_boot (lk_cl l)"
    using assms(4) d(3) by (auto simp: boot_of_def split: option.splits)
  have p: "rg_boot reg = cl_boot (lk_cl l)" "rg_last_acked reg = cl_last_backend (lk_cl l)"
    "rg_seen_backend_boot reg = cl_backend_boot (lk_cl l)"
    using d(5) assms(3) by (simp_all add: phase_inv_def)
  have "tracked (lk_hub l) nid r" using assms(9,10) by (auto simp: tracked_alt)
  then have known: "r \<in> known_ids reg \<or> start_queued (eff_last l) n r"
    using d(5) assms(3) n by (simp add: phase_inv_def)
  have 1: "map_of (h_runs h1) r = Some a" "node_of h1 nid = Some n" "h_heap h1 = h_heap (lk_hub l)"
    "h_boot h1 = h_boot (lk_hub l)" using assms(9) n by (simp_all add: h1 node_of_def)
  have seen: "rg_seen_backend_boot reg = h_boot h1 \<longrightarrow> rg_last_acked reg \<le> eff_last l"
    using p 1 by (simp add: eff_last_def)
  have nb: "nd_boot n = rg_boot reg" using n p by simp
  from known have "map_of (h_runs h2) r = Some a \<and> h_heap h2 ! a = h_heap h1 ! a"
  proof
    assume k: "r \<in> known_ids reg"
    show ?thesis by (rule register_view [OF wf1 assms(6-8)]) (use k 1 in blast)
  next
    assume q: "start_queued (eff_last l) n r"
    show ?thesis by (rule register_view [OF wf1 assms(6-8)]) (use q 1 nb seen in blast)
  qed
  then show ?thesis by (simp add: 1)
qed

lemma sorted_split_le:
  "sorted_wrt (<) (map f xs) \<Longrightarrow> xs = filter (\<lambda>x. f x \<le> (h::u64)) xs @ filter (\<lambda>x. h < f x) xs"
proof (induction xs)
  case (Cons x xs)
  show ?case
  proof (cases "f x \<le> h")
    case True
    with Cons show ?thesis by (simp add: not_less)
  next
    case False
    then have "h < f y" if "y \<in> set (x # xs)" for y using that Cons.prems by (auto simp: not_le)
    then have "filter (\<lambda>x. f x \<le> h) (x # xs) = []" "filter (\<lambda>x. h < f x) (x # xs) = x # xs"
      by (auto simp: filter_empty_conv not_le intro!: filter_True)
    then show ?thesis by simp
  qed
qed simp


end
