(* ===== verification/RunnerExamples.thy ===== *)
theory RunnerExamples
  imports RunnerLinkSafe
begin

text \<open>
  Concrete runs of the hub, the client and the linked system, evaluated, at which the
  properties of the runner components apply.
\<close>

definition ex_sr :: start_run where
  "ex_sr = \<lparr>sr_run = ''r1'', sr_chat = ''c'', sr_agent = ''a'', sr_prompt = ''hi'', sr_attempt = 1,
     sr_wf_node = [], sr_token = [], sr_user = ''u'', sr_rest = []\<rparr>"

definition ex_event :: run_event where
  "ex_event = \<lparr>ev_run = ''r1'', ev_index = 1, ev_rest = []\<rparr>"

definition ex_result :: run_result where
  "ex_result = \<lparr>rr_run = ''r1'', rr_output_size = 0, rr_error = [], rr_chat = ''c'', rr_attempt = 1,
     rr_wf_node = [], rr_token = [], rr_rest = []\<rparr>"

text \<open>A runner connects, registers, attaches and is dispatched a run.\<close>

definition ex0 :: "string list link" where
  "ex0 = start_link ''B'' [] ''n1'' ''v'' ''R'' 4 0 0"

definition ex1 :: "string list link" where
  "ex1 = ex0\<lparr>lk_phase := Registering 1 (build_register 1 [] (lk_cl ex0))\<rparr>"

definition ex_register :: "nat \<Rightarrow> register \<Rightarrow> string list link \<Rightarrow> string list link" where
  "ex_register k reg l =
     (let h1 = snd (hub_accept (\<lambda>_. True) k ''n1'' (lk_hub l));
          r = hub_register memory_store 1 (\<lambda>_. True) k ''n1'' reg h1
      in l\<lparr>lk_hub := snd r, lk_phase := Replied (fst r), lk_conn := k, lk_live := True, lk_up := [],
         lk_down := [], lk_sent_up := 0, lk_sent_down := 0,
         lk_log := (if boot_of (lk_hub l) ''n1'' = rg_boot reg then lk_log l
                    else filter (\<lambda>m. \<not> is_heartbeat m) (cl_queue (lk_cl l))),
         lk_applied := (if boot_of (lk_hub l) ''n1'' = rg_boot reg then lk_applied l else [])\<rparr>)"

definition ex2 :: "string list link" where
  "ex2 = ex_register 1 (build_register 1 [] (lk_cl ex1)) ex1"

definition ex_attach :: "string list link \<Rightarrow> string list link" where
  "ex_attach l = (case lk_phase l of
     Replied res \<Rightarrow> l\<lparr>lk_cl := client_attach (\<lambda>_. 10) res (lk_cl l), lk_phase := Up\<rparr> | _ \<Rightarrow> l)"

definition ex3 :: "string list link" where "ex3 = ex_attach ex2"

definition ex4 :: "string list link" where
  "ex4 = ex3\<lparr>lk_hub := snd (dispatch_locked (\<lambda>_. True) (lk_hub ex3) ''n1'' ex_sr)\<rparr>"

text \<open>The runner reports an event, which crosses the wire.\<close>

definition ex5 :: "string list link" where
  "ex5 = (let c' = append_msg (\<lambda>_. 10) (RmRunEvent ex_event) (lk_cl ex3)
     in ex3\<lparr>lk_cl := c', lk_log := lk_log ex3 @ new_msgs (lk_cl ex3) c'\<rparr>)"

definition ex6 :: "string list link" where
  "ex6 = (let w = client_write (lk_sent_up ex5) (lk_cl ex5)
     in ex5\<lparr>lk_cl := snd w, lk_up := lk_up ex5 @ fst (fst w), lk_sent_up := snd (fst w)\<rparr>)"

definition ex7 :: "string list link" where
  "ex7 = (let r = handle_upstream memory_store (lk_conn ex6) ''n1'' (hd (lk_up ex6)) (lk_hub ex6)
     in ex6\<lparr>lk_hub := snd r, lk_up := tl (lk_up ex6), lk_live := (fst r = None),
         lk_applied := lk_applied ex6 @
           processed (high_of (lk_hub ex6) ''n1'') (snd r) ''n1'' (hd (lk_up ex6))\<rparr>)"

text \<open>The connection breaks while the run is on its way and the runner registers again.\<close>

definition ex8 :: "string list link" where
  "ex8 = ex4\<lparr>lk_cl := client_detach (lk_cl ex4), lk_phase := Idle\<rparr>"

definition ex9 :: "string list link" where
  "ex9 = ex8\<lparr>lk_phase := Registering 2 (build_register 1 [] (lk_cl ex8))\<rparr>"

abbreviation ex_step :: "string list link \<Rightarrow> string list link \<Rightarrow> bool" where
  "ex_step \<equiv> link_step memory_store (\<lambda>_. 10) (\<lambda>_. 10) (\<lambda>_. True) 1 ''n1''"

abbreviation ex_reach :: "string list link \<Rightarrow> bool" where
  "ex_reach \<equiv> link_reach memory_store (\<lambda>_. 10) (\<lambda>_. 10) (\<lambda>_. True) 1 ''n1''
     (start_link ''B'' [] ''n1'' ''v'' ''R'' 4 0 0)"

lemma ex_register_step:
  assumes "lk_phase l = Registering k reg" "fst (hub_accept (\<lambda>_. True) k ''n1'' (lk_hub l))"
    "has_room (length (rg_active reg)) (node_locked (snd (hub_accept (\<lambda>_. True) k ''n1'' (lk_hub l))) ''n1'')"
    "rs_accepted (fst (hub_register memory_store 1 (\<lambda>_. True) k ''n1'' reg
        (snd (hub_accept (\<lambda>_. True) k ''n1'' (lk_hub l)))))"
  shows "ex_step l (ex_register k reg l)"
  unfolding ex_register_def Let_def
  by (rule hub_registers [OF assms(1) _ assms(3) _ assms(4)]) (use assms(2) in \<open>simp_all add: prod_eq_iff\<close>)

lemma ex_reach0: "ex_reach ex0"
  unfolding ex0_def by (rule link_start)

lemma ex_reach1: "ex_reach ex1"
  by (rule link_next [OF ex_reach0], unfold ex1_def, rule client_connects)
    (simp_all add: ex0_def start_link_def new_link_def new_hub_def)

lemma ex_room: "has_room k n" if "nd_next n = 0" "k < 2 ^ 64"
  using that by (simp add: has_room_def)

lemma ex_reach2: "ex_reach ex2"
proof -
  have "nd_next (node_locked (snd (hub_accept (\<lambda>_. True) 1 ''n1'' (lk_hub ex1))) ''n1'') = 0"
    "rg_active (build_register 1 [] (lk_cl ex1)) = []" by code_simp+
  then have "has_room (length (rg_active (build_register 1 [] (lk_cl ex1))))
      (node_locked (snd (hub_accept (\<lambda>_. True) 1 ''n1'' (lk_hub ex1))) ''n1'')"
    by (simp add: ex_room)
  moreover have "fst (hub_accept (\<lambda>_. True) 1 ''n1'' (lk_hub ex1))" by code_simp
  moreover have "rs_accepted (fst (hub_register memory_store 1 (\<lambda>_. True) 1 ''n1''
      (build_register 1 [] (lk_cl ex1)) (snd (hub_accept (\<lambda>_. True) 1 ''n1'' (lk_hub ex1)))))" by code_simp
  moreover have "lk_phase ex1 = Registering 1 (build_register 1 [] (lk_cl ex1))" by (simp add: ex1_def)
  ultimately show ?thesis
    unfolding ex2_def by (intro link_next [OF ex_reach1] ex_register_step)
qed

lemma ex_phase2: "lk_phase ex2 = Replied (fst (hub_register memory_store 1 (\<lambda>_. True) 1 ''n1''
    (build_register 1 [] (lk_cl ex1)) (snd (hub_accept (\<lambda>_. True) 1 ''n1'' (lk_hub ex1)))))"
  by (simp add: ex2_def ex_register_def Let_def)

lemma ex_reach3: "ex_reach ex3"
  unfolding ex3_def ex_attach_def ex_phase2 phase.case
  by (rule link_next [OF ex_reach2], rule client_attaches, rule ex_phase2)

text \<open>The hub of these states, written out.\<close>

lemma ex2_hub: "lk_hub ex2 = \<lparr>h_boot = ''B'', h_closed = False, h_store = [],
   h_nodes = [(''n1'', \<lparr>nd_id = ''n1'', nd_online = True, nd_gen = 1, nd_version = ''v'', nd_protocol = 1,
      nd_boot = ''R'', nd_max_runs = 0, nd_clis = [], nd_quotas = [], nd_health = [], nd_conn = Some 1,
      nd_next = 0, nd_queue = [], nd_high = 0\<rparr>)],
   h_runs = [], h_heap = [], h_conns = [(1, \<lparr>cn_node = ''n1'', cn_ack_dirty = False, cn_ack_seq = 0\<rparr>)]\<rparr>"
  by (simp add: ex2_def ex_register_def Let_def ex1_def ex0_def start_link_def new_link_def new_hub_def new_client_def
     hub_accept_def hub_register_def register_locked_def build_register_def completed_refs_def map_filter_simps
     rebind_node_def node_locked_def node_of_def empty_node_def lose_runs_def known_runs_def queued_start_runs_def
     queued_cancels_def put_node_def table_active_def finalized_refs_def)

lemma ex3_hub: "lk_hub ex3 = lk_hub ex2" by (simp add: ex3_def ex_attach_def ex_phase2)

lemma ex_next3: "map_option nd_next (node_of (lk_hub ex3) ''n1'') = Some 0"
  by (simp add: ex3_hub ex2_hub node_of_def)

text \<open>The size limits are far away.\<close>

lemma ex_small: "dispatch memory_store (\<lambda>_. 10) al h nid ex_sr = dispatch_locked al h nid ex_sr"
  if "h_store h = []"
  using that by (simp add: dispatch_def dispatch_check_def ex_sr_def max_prompt_size_def
      max_control_message_size_def memory_store_def mem_is_def)

lemma ex4_tables: "lk_hub ex4 = (lk_hub ex2)\<lparr> h_nodes := [(''n1'', \<lparr>nd_id = ''n1'', nd_online = True, nd_gen = 1, nd_version = ''v'', nd_protocol = 1,
      nd_boot = ''R'', nd_max_runs = 0, nd_clis = [], nd_quotas = [], nd_health = [], nd_conn = Some 1,
      nd_next = 1, nd_queue = [\<lparr>bm_seq = 1, bm_payload = BmStartRun ex_sr\<rparr>], nd_high = 0\<rparr>)],
   h_runs := [(''r1'', 0)], h_heap := [new_run ''r1'' ''n1'' ex_sr]\<rparr>"
  by (simp add: ex4_def ex3_hub ex2_hub dispatch_locked_def node_of_def put_node_def node_enqueue_def Let_def) (simp add: ex_sr_def)

lemma ex_reach4: "ex_reach ex4"
proof -
  have "h_store (lk_hub ex3) = []" by (simp add: ex3_hub ex2_hub)
  then show ?thesis
    using ex_next3 unfolding ex4_def
    by (subst ex_small [symmetric]) (auto intro!: link_next [OF ex_reach3] hub_dispatches simp: ex_room)
qed

lemma ex3_client: "cl_next (lk_cl ex3) = 0" "cl_queue (lk_cl ex3) = []" "\<not> cl_ack_dirty (lk_cl ex3)"
proof -
  have "cl_next (lk_cl ex3) = 0" "length (cl_queue (lk_cl ex3)) = 0" "\<not> cl_ack_dirty (lk_cl ex3)" by code_simp+
  then show "cl_next (lk_cl ex3) = 0" "cl_queue (lk_cl ex3) = []" "\<not> cl_ack_dirty (lk_cl ex3)" by simp_all
qed

lemma ex3_link: "lk_phase ex3 = Up" "lk_live ex3" "lk_up ex3 = []" "lk_sent_up ex3 = 0" "lk_applied ex3 = []"
  by (simp_all add: ex3_def ex_attach_def ex_phase2) (simp_all add: ex2_def ex_register_def Let_def ex1_def ex0_def
      start_link_def new_link_def)

definition ex_msg :: runner_msg where "ex_msg = \<lparr>rm_seq = 1, rm_payload = RmRunEvent ex_event\<rparr>"

lemma ex_reach5: "ex_reach ex5"
proof -
  have "do_client (\<lambda>_. 10) (\<lambda>_. True) (CcEvent ex_event) (lk_cl ex3) =
      append_msg (\<lambda>_. 10) (RmRunEvent ex_event) (lk_cl ex3)"
    by (simp add: client_event_def client_enqueue_def ex3_client max_upstream_message_size_def)
  then show ?thesis
    using ex3_client unfolding ex5_def Let_def
    by (intro link_next [OF ex_reach3] client_local [of "CcEvent ex_event"]) (simp_all add: local_call_def)
qed

lemma ex6_link: "lk_up ex6 = [ex_msg]" "lk_live ex6" "lk_phase ex6 = Up"
  by (simp_all add: ex6_def ex5_def Let_def ex3_link client_write_def append_msg_def ex3_client ex_msg_def)

lemma ex_reach6: "ex_reach ex6"
proof -
  have "lk_phase ex5 = Up" by (simp add: ex5_def Let_def ex3_link)
  then show ?thesis
    unfolding ex6_def Let_def
    by (intro link_next [OF ex_reach5] client_writes) (simp_all add: prod_eq_iff)
qed

lemma ex_reach7: "ex_reach ex7"
  unfolding ex7_def Let_def
  by (intro link_next [OF ex_reach6] hub_reads) (simp_all add: prod_eq_iff ex6_link)

lemma ex_reach9: "ex_reach ex9"
proof -
  have "ex_reach ex8" unfolding ex8_def by (rule link_next [OF ex_reach4], rule client_drops)
  moreover have "map_of (h_conns (lk_hub ex4)) 2 = None" by (simp add: ex4_tables ex2_hub)
  ultimately show ?thesis
    unfolding ex9_def by (intro link_next [OF \<open>ex_reach ex8\<close>] client_connects) (simp_all add: ex8_def)
qed

section \<open>The linked system at these states\<close>

lemma ex4_client: "lk_cl ex4 = lk_cl ex3"
  by (simp add: ex4_def)

lemma ex3_ids: "cl_boot (lk_cl ex3) = ''R''" "cl_node (lk_cl ex3) = ''n1''" "rg_active (build_register 1 [] (lk_cl ex3)) = []"
proof -
  have "cl_boot (lk_cl ex3) = ''R'' \<and> cl_node (lk_cl ex3) = ''n1''
    \<and> length (rg_active (build_register 1 [] (lk_cl ex3))) = 0" by code_simp
  then show "cl_boot (lk_cl ex3) = ''R''" "cl_node (lk_cl ex3) = ''n1''"
    "rg_active (build_register 1 [] (lk_cl ex3)) = []" by simp_all
qed

lemma ex4_boot: "boot_of (lk_hub ex4) ''n1'' = ''R'' \<and> cl_boot (lk_cl ex4) = ''R''"
  by (simp add: ex4_tables ex2_hub ex4_client ex3_ids boot_of_def node_of_def)

lemma ex4_run: "map_of (h_runs (lk_hub ex4)) ''r1'' = Some 0 \<and> ru_node (h_heap (lk_hub ex4) ! 0) = ''n1''"
  by (simp add: ex4_tables new_run_def)

theorem tracked_run_accounted_witness:
  "\<exists>n. node_of (lk_hub ex4) ''n1'' = Some n \<and> tracked (lk_hub ex4) ''n1'' ''r1'' \<and>
     (start_queued (eff_last ex4) n ''r1'' \<or> executing (lk_cl ex4) ''r1'' \<or> result_queued (nd_high n) (lk_cl ex4) ''r1'')"
proof -
  obtain n where n: "node_of (lk_hub ex4) ''n1'' = Some n" "nd_boot n = ''R''"
    using ex4_boot by (auto simp: boot_of_def split: option.splits)
  have t: "tracked (lk_hub ex4) ''n1'' ''r1''" using ex4_run by (simp add: tracked_alt)
  show ?thesis
    using tracked_run_accounted [OF ex_reach4 _ n(1) _ t] n t ex4_boot by auto
qed

theorem reconnect_loses_no_run_witness:
  "let h1 = snd (hub_accept (\<lambda>_. True) 2 ''n1'' (lk_hub ex9));
       h2 = snd (hub_register memory_store 1 (\<lambda>_. True) 2 ''n1'' (build_register 1 [] (lk_cl ex8)) h1)
   in map_of (h_runs h2) ''r1'' = Some 0 \<and> h_heap h2 ! 0 = h_heap (lk_hub ex9) ! 0"
proof -
  have hub: "lk_hub ex9 = lk_hub ex4" "cl_boot (lk_cl ex9) = cl_boot (lk_cl ex4)"
    "rg_active (build_register 1 [] (lk_cl ex8)) = rg_active (build_register 1 [] (lk_cl ex4))"
    by (simp_all add: ex9_def ex8_def client_detach_def build_register_def completed_refs_def Let_def)
  have "fst (hub_accept (\<lambda>_. True) 2 ''n1'' (lk_hub ex4))"
    "nd_next (node_locked (snd (hub_accept (\<lambda>_. True) 2 ''n1'' (lk_hub ex4))) ''n1'') = 1"
    "length (rg_active (build_register 1 [] (lk_cl ex4))) = 0"
    by (simp_all add: hub_accept_def node_locked_def node_of_def ex4_tables ex2_hub ex4_client ex3_ids)
  then have room: "has_room (length (rg_active (build_register 1 [] (lk_cl ex8))))
      (node_locked (snd (hub_accept (\<lambda>_. True) 2 ''n1'' (lk_hub ex9))) ''n1'')"
    and ac: "hub_accept (\<lambda>_. True) 2 ''n1'' (lk_hub ex9) = (True, snd (hub_accept (\<lambda>_. True) 2 ''n1'' (lk_hub ex9)))"
    by (simp_all add: hub has_room_def prod_eq_iff)
  have acc: "rs_accepted (fst (hub_register memory_store 1 (\<lambda>_. True) 2 ''n1'' (build_register 1 [] (lk_cl ex8))
      (snd (hub_accept (\<lambda>_. True) 2 ''n1'' (lk_hub ex9)))))"
  proof -
    have "cl_node (lk_cl ex4) = ''n1''" by (simp add: ex4_client ex3_ids)
    then have "rg_node (build_register 1 [] (lk_cl ex8)) = ''n1''" "rg_protocol (build_register 1 [] (lk_cl ex8)) = 1"
      by (simp_all add: build_register_def Let_def ex8_def client_detach_def)
    then show ?thesis by (simp add: hub_register_def register_locked_def Let_def)
  qed
  have ph: "lk_phase ex9 = Registering 2 (build_register 1 [] (lk_cl ex8))" by (simp add: ex9_def)
  show ?thesis
    unfolding Let_def
    by (rule reconnect_loses_no_run [OF ex_reach9 _ ph _ ac room surjective_pairing acc])
      (use ex4_boot ex4_run hub in auto)
qed


section \<open>The hub at concrete states\<close>

definition hb_register :: register where
  "hb_register = \<lparr>rg_node = ''n1'', rg_version = [], rg_protocol = 1, rg_clis = [], rg_active = [],
     rg_completed = [], rg_last_acked = 0, rg_boot = ''R'', rg_seen_backend_boot = []\<rparr>"

definition hb1 :: "finalized_db hub" where
  "hb1 = snd (hub_accept (\<lambda>_. True) 1 ''n1'' (new_hub ''B'' \<lparr>db_up = True, db_rows = []\<rparr>))"

definition hb2 :: "finalized_db hub" where
  "hb2 = snd (register_locked 1 1 ''n1'' hb_register [] hb1)"

definition hb3 :: "finalized_db hub" where
  "hb3 = snd (dispatch_locked (\<lambda>_. True) hb2 ''n1'' ex_sr)"

definition hb4 :: "finalized_db hub" where
  "hb4 = deliver_result 0 ex_result hb3"

abbreviation hb_reach :: "finalized_db hub \<Rightarrow> bool" where
  "hb_reach \<equiv> hub_reach db_store 1 (new_hub ''B'' \<lparr>db_up = True, db_rows = []\<rparr>)"

lemma hb_reach1: "hb_reach hb1"
  unfolding hb1_def by (rule reach_step [OF reach_start step_accept])

lemma hb_reach2: "hb_reach hb2"
proof -
  have "nd_next (node_locked hb1 ''n1'') = 0" by code_simp
  then have "has_room (length (rg_active hb_register)) (node_locked hb1 ''n1'')"
    by (simp add: has_room_def hb_register_def)
  then show ?thesis unfolding hb2_def by (intro reach_step [OF hb_reach1] hub_step.step_register)
qed

lemma hb_reach3: "hb_reach hb3"
proof -
  have "map_option nd_next (node_of hb2 ''n1'') = Some 0" by code_simp
  then show ?thesis
    unfolding hb3_def by (intro reach_step [OF hb_reach2] step_dispatch) (auto simp: ex_room)
qed

lemma hb_wf3: "hub_wf hb3"
  using hub_reach_inv [OF hb_reach3 new_hub_wf] .

lemma hb3_run: "length (h_heap hb3) = 1" "map_of (h_runs hb3) ''r1'' = Some 0" "ru_node (h_heap hb3 ! 0) = ''n1''"
  by code_simp+

theorem hub_tables_consistent_witness:
  "hub_wf hb3 \<and> inj_on (map_of (h_runs hb3)) (dom (map_of (h_runs hb3)))"
  using hub_tables_consistent [OF hb_reach3] by blast

theorem run_outcome_final_witness:
  "ru_result (h_heap (hub_stop hb4) ! 0) = ru_result (h_heap hb4 ! 0)"
proof -
  have "length (h_heap hb4) = length (h_heap hb3)" by (simp add: hb4_def deliver_result_def Let_def)
  moreover have "ru_finished (h_heap hb4 ! 0)"
    using hb3_run(1) by (simp add: hb4_def deliver_result_def Let_def update_run_heap)
  ultimately have "0 < length (h_heap hb4) \<and> ru_finished (h_heap hb4 ! 0)" using hb3_run(1) by simp
  then have "0 < length (h_heap hb4)" "ru_finished (h_heap hb4 ! 0)" by simp_all
  moreover have "hub_reach db_store 1 hb4 (hub_stop hb4)" by (rule reach_step [OF reach_start step_stop])
  ultimately show ?thesis using run_outcome_final by blast
qed

theorem upstream_isolated_witness:
  "same_for_others ''n2'' hb3 (snd (handle_upstream db_store 2 ''n2'' ex_msg hb3))"
  by (rule upstream_isolated [OF hb_wf3])

theorem replay_harmless_witness:
  "let h1 = snd (apply_msg db_store ''n1'' (RmRunEvent ex_event) hb3);
       h2 = snd (apply_msg db_store ''n1'' (RmRunEvent ex_event) h1) in h2 = h1"
  unfolding Let_def
  by (rule replay_harmless [OF hb_wf3, of "RmRunEvent ex_event" "''n1''"])
    (simp_all add: fits_def apply_msg_def)

theorem finalized_once_witness:
  "let h1 = snd (apply_result db_store ''n1'' ex_result hb3);
       h2 = fold (do_call db_store (\<lambda>_. 10) 1) [CallDispatch (\<lambda>_. True) ''n1'' ex_sr, CallStop] h1
   in ''r1'' \<in> set (db_rows (h_store h2)) \<and> map_of (h_runs h2) ''r1'' = None"
proof -
  have rid: "rr_run ex_result = ''r1''" by (simp add: ex_result_def)
  have "fst (apply_result db_store ''n1'' ex_result hb3) = None" by code_simp
  then have r: "apply_result db_store ''n1'' ex_result hb3 = (None, snd (apply_result db_store ''n1'' ex_result hb3))"
    by (simp add: prod_eq_iff)
  have "active_run hb3 (rr_run ex_result) ''n1'' \<noteq> None"
    using hb3_run by (simp add: active_run_def rid Let_def)
  from finalized_once [OF hb_wf3 r this,
      of "\<lambda>_. 10" 1 "[CallDispatch (\<lambda>_. True) ''n1'' ex_sr, CallStop]"]
  show ?thesis unfolding Let_def rid by blast
qed

theorem register_effect_witness:
  "let h' = snd (hub_register db_store 1 (\<lambda>_. True) 1 ''n1'' hb_register hb3) in
   map_of (h_runs h') ''r1'' = (if ''r1'' \<in> set (known_runs hb_register
       (rebind_node hb3 1 hb_register (node_locked hb3 ''n1''))) then Some 0 else None)"
proof -
  have "rs_accepted (fst (hub_register db_store 1 (\<lambda>_. True) 1 ''n1'' hb_register hb3))"
    by (simp add: hub_register_def register_locked_def Let_def hb_register_def)
  from register_effect [OF hb_wf3 this] show ?thesis
    using hb3_run by (simp add: Let_def)
qed

theorem truncate_at_longest_witness:
  "truncate_at ''abc'' 2 = (''ab'', True) \<and> fst (truncate_at ''abc'' 2) = take 2 ''abc''"
proof -
  have "truncate_at ''abc'' 2 = (''ab'', True)" by code_simp
  with truncate_at_longest [of "''abc''" 2] show ?thesis by (simp add: Let_def)
qed

theorem output_replay_exact_witness:
  "\<exists>r. feed_chunks (map (chunk_of ''r1'' [''ab'', ''c'']) [0, 1, 0, 1]) (new_run ''r1'' ''n1'' ex_sr) = Inr r
     \<and> ru_output r = ''abc''"
proof -
  have "length (concat [''ab'', ''c'']) < 2 ^ 64" "replay_ok 0 [0, 1, 0, 1]"
    "\<forall>j \<in> set [0, 1, 0, 1]. j < length [''ab'', ''c'']"
    "concat (take (replay_top 0 [0, 1, 0, 1]) [''ab'', ''c'']) = ''abc''" by simp_all
  with output_replay_exact [OF this(1-3), of "''r1''" "''n1''" ex_sr] show ?thesis by metis
qed

theorem client_accounting_witness:
  "let c = fold (do_client (\<lambda>_. 10) (\<lambda>_. True)) [CcEvent ex_event] (new_client ''n1'' ''v'' ''R'' 4 0 0) in
   cl_bytes c = (\<Sum>m\<leftarrow>cl_queue c. 10) \<and> length (cl_queue c) \<le> cl_max_queued c"
  using client_accounting [of "[CcEvent ex_event]" "\<lambda>_. 10" "\<lambda>_. True" "''n1''" "''v''" "''R''" 4 0 0]
  by (simp add: Let_def)

theorem queued_until_acked_witness:
  "ex_msg \<in> set (cl_queue (fold (do_client (\<lambda>_. 10) (\<lambda>_. True)) [CcDetach] (lk_cl ex5)))"
proof -
  have "ex_msg \<in> set (cl_queue (lk_cl ex5))"
    by (simp add: ex5_def Let_def append_msg_def ex3_client ex_msg_def)
  then show ?thesis
    using queued_until_acked [of ex_msg "lk_cl ex5" "[CcDetach]" "\<lambda>_. 10" "\<lambda>_. True"]
    by (simp add: Let_def ex_msg_def acked_by_def)
qed

end
