(* ===== verification/GoText.thy ===== *)
theory GoText
  imports Prelude
begin

text \<open>
  The functions of Go's \<open>strings\<close> and \<open>strconv\<close> packages that the program uses on texts.
  Strings are byte sequences, one character per byte.
\<close>

section \<open>Trimming\<close>

text \<open>The UTF-8 encodings of the code points \<open>unicode.IsSpace\<close> accepts.\<close>

definition go_spaces :: "string list" where
  "go_spaces =
    [[CHR 0x09], [CHR 0x0A], [CHR 0x0B], [CHR 0x0C], [CHR 0x0D], [CHR 0x20], [CHR 0xC2, CHR 0x85],
     [CHR 0xC2, CHR 0xA0], [CHR 0xE1, CHR 0x9A, CHR 0x80], [CHR 0xE2, CHR 0x80, CHR 0xA8],
     [CHR 0xE2, CHR 0x80, CHR 0xA9], [CHR 0xE2, CHR 0x80, CHR 0xAF], [CHR 0xE2, CHR 0x81, CHR 0x9F],
     [CHR 0xE3, CHR 0x80, CHR 0x80], [CHR 0xE2, CHR 0x80, CHR 0x80], [CHR 0xE2, CHR 0x80, CHR 0x81],
     [CHR 0xE2, CHR 0x80, CHR 0x82], [CHR 0xE2, CHR 0x80, CHR 0x83], [CHR 0xE2, CHR 0x80, CHR 0x84],
     [CHR 0xE2, CHR 0x80, CHR 0x85], [CHR 0xE2, CHR 0x80, CHR 0x86], [CHR 0xE2, CHR 0x80, CHR 0x87],
     [CHR 0xE2, CHR 0x80, CHR 0x88], [CHR 0xE2, CHR 0x80, CHR 0x89], [CHR 0xE2, CHR 0x80, CHR 0x8A]]"

text \<open>A space that starts the text, and the text behind it.\<close>

definition cut_space :: "string list \<Rightarrow> string \<Rightarrow> string option" where
  "cut_space sps s = find_map (\<lambda>w. if w \<noteq> [] \<and> take (length w) s = w then Some (drop (length w) s) else None) sps"

lemma cut_space_shorter: "cut_space sps s = Some t \<Longrightarrow> length t < length s"
  by (auto simp: cut_space_def dest!: find_map_Some split: if_splits)
    (metis append_take_drop_id append_eq_conv_conj diff_less length_0_conv length_drop length_greater_0_conv
      take_eq_Nil)

function strip_spaces :: "string list \<Rightarrow> string \<Rightarrow> string" where
  "strip_spaces sps s = (case cut_space sps s of None \<Rightarrow> s | Some t \<Rightarrow> strip_spaces sps t)"
  by pat_completeness auto
termination
  by (relation "measure (\<lambda>(_, s). length s)") (auto dest: cut_space_shorter)

declare strip_spaces.simps [simp del]

text \<open>\<open>strings.TrimSpace\<close>; a suffix is stripped by reading the text and the encodings backwards.\<close>

definition trim_space :: "string \<Rightarrow> string" where
  "trim_space s = rev (strip_spaces (map rev go_spaces) (rev (strip_spaces go_spaces s)))"

lemma strip_spaces_id: "cut_space sps s = None \<Longrightarrow> strip_spaces sps s = s"
  by (subst strip_spaces.simps) simp

section \<open>Searching\<close>

text \<open>\<open>strings.CutPrefix\<close>; the text up to and behind the first byte \<open>c\<close>.\<close>

definition cut_prefix :: "string \<Rightarrow> string \<Rightarrow> string option" where
  "cut_prefix p s = (if take (length p) s = p then Some (drop (length p) s) else None)"

definition cut_at :: "char \<Rightarrow> string \<Rightarrow> (string \<times> string) option" where
  "cut_at c s = (case dropWhile (\<lambda>x. x \<noteq> c) s of
     [] \<Rightarrow> None | _ # r \<Rightarrow> Some (takeWhile (\<lambda>x. x \<noteq> c) s, r))"

lemma cut_at_Some:
  "cut_at c s = Some (u, r) \<Longrightarrow> s = u @ c # r \<and> c \<notin> set u"
proof (induction s arbitrary: u)
  case Nil
  then show ?case by (simp add: cut_at_def)
next
  case (Cons x s)
  show ?case
  proof (cases "x = c")
    case True
    with Cons.prems show ?thesis by (simp add: cut_at_def)
  next
    case False
    with Cons.prems obtain u' where "u = x # u'" "cut_at c s = Some (u', r)"
      by (auto simp: cut_at_def split: list.splits)
    with Cons.IH False show ?thesis by simp
  qed
qed

lemma cut_at_None: "cut_at c s = None \<longleftrightarrow> c \<notin> set s"
proof (cases "cut_at c s")
  case None
  then have "dropWhile (\<lambda>x. x \<noteq> c) s = []" by (simp only: cut_at_def split: list.splits) simp
  then have "\<forall>x \<in> set s. x \<noteq> c" by (simp only: dropWhile_eq_Nil_conv)
  with None show ?thesis by auto
next
  case (Some p)
  then have "s = fst p @ c # snd p" using cut_at_Some [of c s "fst p" "snd p"] by simp
  then have "c \<in> set s" by (metis in_set_conv_decomp)
  with Some show ?thesis by simp
qed

section \<open>Decimal numbers\<close>

definition digit_char :: "nat \<Rightarrow> char" where "digit_char d = char_of (48 + d)"

definition digit_value :: "char \<Rightarrow> nat" where "digit_value c = of_char c - 48"

definition is_digit :: "char \<Rightarrow> bool" where
  "is_digit c \<longleftrightarrow> 48 \<le> (of_char c :: nat) \<and> (of_char c :: nat) \<le> 57"

fun nat_text :: "nat \<Rightarrow> string" where
  "nat_text n = (if n < 10 then [digit_char n] else nat_text (n div 10) @ [digit_char (n mod 10)])"

declare nat_text.simps [simp del]

text \<open>\<open>strconv.Itoa\<close>.\<close>

definition itoa :: "int \<Rightarrow> string" where
  "itoa i = (if i < 0 then CHR ''-'' # nat_text (nat (- i)) else nat_text (nat i))"

definition digits_value :: "string \<Rightarrow> nat" where
  "digits_value s = foldl (\<lambda>n c. n * 10 + digit_value c) 0 s"

text \<open>\<open>strconv.Atoi\<close> on a 64-bit platform; None is a syntax or range error.\<close>

definition atoi :: "string \<Rightarrow> int option" where
  "atoi s =
     (let neg = (case s of c # _ \<Rightarrow> c = CHR ''-'' | [] \<Rightarrow> False);
          ds = (case s of c # r \<Rightarrow> if c = CHR ''-'' \<or> c = CHR ''+'' then r else s | [] \<Rightarrow> []);
          v = int (digits_value ds)
      in if ds = [] \<or> \<not> list_all is_digit ds then None
         else if neg then (if v \<le> 2 ^ 63 then Some (- v) else None)
         else if v < 2 ^ 63 then Some v else None)"

text \<open>The same by integer arithmetic, which evaluates faster.\<close>

lemma digit_char_code [code]: "digit_char d = (if d < 10 then ''0123456789'' ! d else char_of (48 + d))"
proof (cases "d < 10")
  case True
  then have "d \<in> {0, 1, 2, 3, 4, 5, 6, 7, 8, 9}" by auto
  then show ?thesis by (auto simp: digit_char_def char_of_def bit_0)
qed (simp add: digit_char_def)

lemma digit_value_code [code]: "digit_value c = nat (of_char c - 48)"
proof -
  have "(of_char c :: int) = int (of_char c)" by (metis of_nat_of_char)
  then show ?thesis by (simp add: digit_value_def nat_diff_distrib)
qed

lemma is_digit_code [code]: "is_digit c \<longleftrightarrow> (let n = (of_char c :: int) in 48 \<le> n \<and> n \<le> 57)"
proof -
  have "(of_char c :: int) = int (of_char c)" by (metis of_nat_of_char)
  then show ?thesis by (simp only: is_digit_def Let_def) linarith
qed

lemma digits_value_int: "int (digits_value s) = foldl (\<lambda>n c. n * 10 + int (digit_value c)) 0 s"
proof -
  have "int (foldl (\<lambda>n c. n * 10 + digit_value c) k s) = foldl (\<lambda>n c. n * 10 + int (digit_value c)) (int k) s" for k
    by (induction s arbitrary: k) simp_all
  from this [of 0] show ?thesis by (simp add: digits_value_def)
qed

lemma atoi_code [code]:
  "atoi s =
     (let neg = (case s of c # _ \<Rightarrow> c = CHR ''-'' | [] \<Rightarrow> False);
          ds = (case s of c # r \<Rightarrow> if c = CHR ''-'' \<or> c = CHR ''+'' then r else s | [] \<Rightarrow> [])
      in if ds = [] \<or> \<not> list_all is_digit ds then None
         else let v = foldl (\<lambda>n c. n * 10 + int (digit_value c)) 0 ds in
           if neg then (if v \<le> 9223372036854775808 then Some (- v) else None)
           else if v < 9223372036854775808 then Some v else None)"
proof -
  have "(2::int) ^ 63 = 9223372036854775808" by simp
  then show ?thesis by (simp only: atoi_def Let_def digits_value_int)
qed

lemma digit_char_value: "d < 10 \<Longrightarrow> digit_value (digit_char d) = d"
  by (simp add: digit_value_def digit_char_def)

lemma digit_char_digit: "d < 10 \<Longrightarrow> is_digit (digit_char d)"
  by (simp add: is_digit_def digit_char_def)

lemma nat_text_digits: "list_all is_digit (nat_text n) \<and> digits_value (nat_text n) = n \<and> nat_text n \<noteq> []"
proof (induction n rule: nat_text.induct)
  case (1 n)
  then show ?case
    by (subst (1 2 3) nat_text.simps)
      (simp add: digits_value_def digit_char_value digit_char_digit)
qed

lemma nat_text_no_sign: "nat_text n = c # r \<Longrightarrow> c \<noteq> CHR ''-'' \<and> c \<noteq> CHR ''+''"
  using nat_text_digits [of n] by (auto simp: is_digit_def)

text \<open>What is printed is read back.\<close>

lemma atoi_itoa: "- (2 ^ 63) \<le> i \<Longrightarrow> i < 2 ^ 63 \<Longrightarrow> atoi (itoa i) = Some i"
  using nat_text_digits [of "nat i"] nat_text_digits [of "nat (- i)"]
  by (auto simp: itoa_def atoi_def Let_def dest: nat_text_no_sign split: list.splits)

end
