(* ===== verification/WfTypes.thy ===== *)
theory WfTypes
  imports GoText
begin

text \<open>
  The workflow language (\<open>pkg/workflowspec/types.go\<close>, \<open>definition.go\<close>, \<open>model_pairing.go\<close>): node
  types, node results and the parsed definition, one record per Go struct. A pointer field is an
  option, a string enumeration is a datatype whose last constructor holds any other text. Go
  \<open>int\<close>s are integers: the code compares them and counts with them up to the declared limits.
\<close>

datatype node_type = NtAgent | NtCommand | NtLlm | NtWorkflow | NtHuman | NtFunction | NtOther string

fun node_type_text :: "node_type \<Rightarrow> string" where
  "node_type_text NtAgent = ''agent''"
| "node_type_text NtCommand = ''command''"
| "node_type_text NtLlm = ''llm''"
| "node_type_text NtWorkflow = ''workflow''"
| "node_type_text NtHuman = ''human''"
| "node_type_text NtFunction = ''function''"
| "node_type_text (NtOther s) = s"

record fanout_spec =
  fo_items :: string
  fo_max_parallel :: "int option"
  fo_output :: string

text \<open>\<open>NoStatus\<close> is the empty string a runner may leave in a result.\<close>

datatype node_status = NoStatus | StPending | StRunning | StSucceeded | StSkipped | StFailed | StOther string

fun status_text :: "node_status \<Rightarrow> string" where
  "status_text NoStatus = []"
| "status_text StPending = ''PENDING''"
| "status_text StRunning = ''RUNNING''"
| "status_text StSucceeded = ''SUCCEEDED''"
| "status_text StSkipped = ''SKIPPED''"
| "status_text StFailed = ''FAILED''"
| "status_text (StOther s) = s"

datatype skip_reason = NoReason | SrConditionFalse | SrCascadedFailure | SrNeverActivated | SrOther string

fun reason_text :: "skip_reason \<Rightarrow> string" where
  "reason_text NoReason = []"
| "reason_text SrConditionFalse = ''CONDITION_FALSE''"
| "reason_text SrCascadedFailure = ''CASCADED_FAILURE''"
| "reason_text SrNeverActivated = ''NEVER_ACTIVATED''"
| "reason_text (SrOther s) = s"

text \<open>The conversions from a text, as they are made when a persisted result is read.\<close>

definition status_of :: "string \<Rightarrow> node_status" where
  "status_of s =
     (if s = [] then NoStatus else if s = ''PENDING'' then StPending else if s = ''RUNNING'' then StRunning
      else if s = ''SUCCEEDED'' then StSucceeded else if s = ''SKIPPED'' then StSkipped
      else if s = ''FAILED'' then StFailed else StOther s)"

definition reason_of :: "string \<Rightarrow> skip_reason" where
  "reason_of s =
     (if s = [] then NoReason else if s = ''CONDITION_FALSE'' then SrConditionFalse
      else if s = ''CASCADED_FAILURE'' then SrCascadedFailure
      else if s = ''NEVER_ACTIVATED'' then SrNeverActivated else SrOther s)"

lemma status_text_of [simp]: "status_text (status_of s) = s"
  by (simp add: status_of_def)

lemma reason_text_of [simp]: "reason_text (reason_of s) = s"
  by (simp add: reason_of_def)

text \<open>The values the program itself uses are read back; only a text of another origin is \<open>Other\<close>.\<close>

lemma status_of_text: "(\<And>t. st \<noteq> StOther t) \<Longrightarrow> status_of (status_text st) = st"
  by (cases st) (simp_all add: status_of_def)

lemma reason_of_text: "(\<And>t. sr \<noteq> SrOther t) \<Longrightarrow> reason_of (reason_text sr) = sr"
  by (cases sr) (simp_all add: reason_of_def)

record node_result =
  nr_status :: node_status
  nr_reason :: skip_reason
  nr_exit :: int
  nr_output :: string
  nr_artifacts :: "(string \<times> string) list"
  nr_error :: "string option"
  nr_agent_name :: string
  nr_cli :: string
  nr_model :: string
  nr_loops :: "(string \<times> int) list option"

definition zero_result :: node_result where
  "zero_result = \<lparr>nr_status = NoStatus, nr_reason = NoReason, nr_exit = 0, nr_output = [],
     nr_artifacts = [], nr_error = None, nr_agent_name = [], nr_cli = [], nr_model = [],
     nr_loops = None\<rparr>"

record mount_dirs =
  md_readonly :: "string list"
  md_readwrite :: "string list"

record loop_spec =
  lo_id :: string
  lo_nodes :: "string list"
  lo_parent :: string
  lo_max :: int
  lo_exhausted :: string

record node_dep =
  dp_node :: string
  dp_when :: string
  dp_counts :: string
  dp_resets :: string

record node_spec =
  ns_id :: string
  ns_type :: node_type
  ns_prompt :: string
  ns_depends :: "node_dep list"
  ns_working_dir :: string
  ns_timeout :: string
  ns_join :: string
  ns_on_skip :: string
  ns_on_fail :: string
  ns_agent :: string
  ns_session_policy :: string
  ns_model :: string
  ns_entry :: bool
  ns_system_prompt :: string
  ns_command :: string
  ns_output_file :: string
  ns_sandbox :: "bool option"
  ns_exit_codes :: "int list"
  ns_options :: "string list"
  ns_function :: string
  ns_workflow :: string
  ns_fanout :: "fanout_spec option"
  ns_required :: "string list"
  ns_max_retries :: "int option"

text \<open>The Go zero value with an identifier and a type, from which examples are built.\<close>

definition blank_node :: "string \<Rightarrow> node_type \<Rightarrow> node_spec" where
  "blank_node i t = \<lparr>ns_id = i, ns_type = t, ns_prompt = [], ns_depends = [], ns_working_dir = [],
     ns_timeout = [], ns_join = [], ns_on_skip = [], ns_on_fail = [], ns_agent = [],
     ns_session_policy = [], ns_model = [], ns_entry = False, ns_system_prompt = [],
     ns_command = [], ns_output_file = [], ns_sandbox = None, ns_exit_codes = [], ns_options = [],
     ns_function = [], ns_workflow = [], ns_fanout = None, ns_required = [], ns_max_retries = None\<rparr>"

record pair_target =
  pt_cli :: string
  pt_model :: string

record pair_entry =
  pe_actor :: pair_target
  pe_reviewer :: "pair_target list"

record pairing_spec =
  mp_id :: string
  mp_actors :: "string list"
  mp_reviewer :: string
  mp_pairs :: "pair_entry list"

record wf_def =
  wd_name :: string
  wd_tmp_dir :: string
  wd_session_dir :: string
  wd_run_dirs :: "string list"
  wd_mounts :: mount_dirs
  wd_max_exec :: int
  wd_loops :: "loop_spec list"
  wd_nodes :: "node_spec list"
  wd_no_human :: bool
  wd_schedule :: string
  wd_runner :: string
  wd_pairings :: "pairing_spec list"

definition blank_def :: "string \<Rightarrow> loop_spec list \<Rightarrow> node_spec list \<Rightarrow> wf_def" where
  "blank_def nm ls ns = \<lparr>wd_name = nm, wd_tmp_dir = [], wd_session_dir = [], wd_run_dirs = [],
     wd_mounts = \<lparr>md_readonly = [], md_readwrite = []\<rparr>, wd_max_exec = 0, wd_loops = ls,
     wd_nodes = ns, wd_no_human = False, wd_schedule = [], wd_runner = [], wd_pairings = []\<rparr>"

section \<open>Methods of a node\<close>

definition allows_fail :: "node_spec \<Rightarrow> bool" where
  "allows_fail n \<longleftrightarrow> ns_on_fail n = ''run'' \<or> ns_join n = ''always''"

definition allows_skip :: "node_spec \<Rightarrow> bool" where
  "allows_skip n \<longleftrightarrow> ns_on_skip n = ''run'' \<or> ns_join n = ''always''"

definition session_policy_inherit :: "node_spec \<Rightarrow> bool" where
  "session_policy_inherit n \<longleftrightarrow> ns_session_policy n \<noteq> ''fresh''"

text \<open>\<open>parse\<close> is \<open>time.ParseDuration\<close>, in nanoseconds.\<close>

definition timeout_duration :: "(string \<Rightarrow> int option) \<Rightarrow> node_spec \<Rightarrow> int" where
  "timeout_duration parse n =
     (if ns_timeout n = [] then 0 else case parse (ns_timeout n) of Some d \<Rightarrow> d | None \<Rightarrow> 0)"

text \<open>A Go map built from a list by its keys: the last entry of a key wins.\<close>

definition last_by :: "('a \<Rightarrow> 'k) \<Rightarrow> 'a list \<Rightarrow> 'k \<Rightarrow> 'a option" where
  "last_by key xs k = find (\<lambda>x. key x = k) (rev xs)"

abbreviation node_by_id :: "wf_def \<Rightarrow> string \<Rightarrow> node_spec option" where
  "node_by_id d \<equiv> last_by ns_id (wd_nodes d)"

abbreviation loop_by_id :: "wf_def \<Rightarrow> string \<Rightarrow> loop_spec option" where
  "loop_by_id d \<equiv> last_by lo_id (wd_loops d)"

lemma last_by_SomeD: "last_by key xs k = Some x \<Longrightarrow> x \<in> set xs \<and> key x = k"
  by (auto simp: last_by_def dest: find_SomeD)

lemma last_by_None: "last_by key xs k = None \<longleftrightarrow> k \<notin> key ` set xs"
  by (auto simp: last_by_def find_None)

lemma last_by_distinct: "distinct (map key xs) \<Longrightarrow> x \<in> set xs \<Longrightarrow> last_by key xs (key x) = Some x"
  by (cases "last_by key xs (key x)")
    (auto simp: last_by_None distinct_map dest: last_by_SomeD inj_onD)

end
