(* ===== verification/WfExpr.thy ===== *)
theory WfExpr
  imports WfTypes
begin

text \<open>
  Placeholders and \<open>when\<close> conditions (\<open>pkg/workflowspec/expr.go\<close>). The regular expression of a
  condition is written out as a scanner: its character classes do not overlap, so the only choice
  its matcher has is the operator, and it takes the first alternative behind which a literal
  follows.
\<close>

section \<open>Placeholders\<close>

lemma cut_prefix_Some: "cut_prefix p s = Some r \<longleftrightarrow> s = p @ r"
  by (auto simp: cut_prefix_def) (metis append_take_drop_id)

lemma placeholder_shorter:
  "cut_prefix ''${'' s = Some r \<Longrightarrow> cut_at x r = Some (u, t) \<Longrightarrow> length t < length s"
  by (auto simp: cut_prefix_Some dest!: cut_at_Some)

function interpolate :: "(string \<Rightarrow> string option) \<Rightarrow> string \<Rightarrow> string" where
  "interpolate resolve [] = []"
| "interpolate resolve (c # s) =
     (case cut_prefix ''${'' (c # s) of
        None \<Rightarrow> c # interpolate resolve s
      | Some r \<Rightarrow>
          (case cut_at (CHR ''}'') r of
             None \<Rightarrow> c # s
           | Some (key, rest) \<Rightarrow>
               (case resolve key of Some v \<Rightarrow> v | None \<Rightarrow> ''${'' @ key @ ''}'') @ interpolate resolve rest))"
  by pat_completeness auto
termination
  by (relation "measure (\<lambda>(_, s). length s)") (auto dest: placeholder_shorter)

text \<open>The reference: the text as a sequence of plain bytes and closed placeholders.\<close>

datatype token = TokByte char | TokKey string

function tokens :: "string \<Rightarrow> token list" where
  "tokens [] = []"
| "tokens (c # s) =
     (case cut_prefix ''${'' (c # s) of
        Some r \<Rightarrow> (case cut_at (CHR ''}'') r of
            Some (key, rest) \<Rightarrow> TokKey key # tokens rest
          | None \<Rightarrow> map TokByte (c # s))
      | None \<Rightarrow> TokByte c # tokens s)"
  by pat_completeness auto
termination
  by (relation "measure length") (auto dest: placeholder_shorter)

fun token_text :: "token \<Rightarrow> string" where
  "token_text (TokByte c) = [c]"
| "token_text (TokKey k) = ''${'' @ k @ ''}''"

fun token_value :: "(string \<Rightarrow> string option) \<Rightarrow> token \<Rightarrow> string" where
  "token_value resolve (TokByte c) = [c]"
| "token_value resolve (TokKey k) = (case resolve k of Some v \<Rightarrow> v | None \<Rightarrow> ''${'' @ k @ ''}'')"

declare interpolate.simps(2) [simp del] tokens.simps(2) [simp del]

lemma concat_map_singles: "concat (map (\<lambda>c. [c]) s) = s"
  by (induction s) auto

lemma tokens_text: "concat (map token_text (tokens s)) = s"
proof (induction s rule: tokens.induct)
  case (2 c s)
  then show ?case
    by (subst tokens.simps)
      (auto split: option.splits simp: comp_def concat_map_singles cut_prefix_Some dest: cut_at_Some)
qed simp

lemma interpolate_value: "interpolate resolve s = concat (map (token_value resolve) (tokens s))"
proof (induction s rule: tokens.induct)
  case (2 c s)
  then show ?case
    by (subst tokens.simps, subst interpolate.simps)
      (auto split: option.splits simp: comp_def concat_map_singles)
qed simp

lemma tokens_keys: "TokKey k \<in> set (tokens s) \<Longrightarrow> CHR ''}'' \<notin> set k"
proof (induction s rule: tokens.induct)
  case (2 c s)
  show ?case
  proof (cases "cut_prefix ''${'' (c # s)")
    case None
    then show ?thesis using "2.IH"(1) "2.prems" by (simp add: tokens.simps)
  next
    case (Some r)
    show ?thesis
    proof (cases "cut_at (CHR ''}'') r")
      case None
      then show ?thesis using "2.prems" Some by (auto simp: tokens.simps)
    next
      case p: (Some p)
      then have "CHR ''}'' \<notin> set (fst p)" using cut_at_Some [of _ r "fst p" "snd p"] by simp
      then show ?thesis
        using "2.IH"(2) [OF Some p prod.collapse] "2.prems" Some p by (auto simp: tokens.simps split: prod.splits)
    qed
  qed
qed simp

text \<open>
  Expanding placeholders: the text splits, whatever the resolver knows, into bytes and closed
  placeholders, whose concatenation is the text; each placeholder becomes the resolver's value,
  which is not scanned again, or stays as it is written. So a resolver that knows none of the
  keys leaves the text untouched.
\<close>

lemma interpolate_tokens:
  "concat (map token_text (tokens s)) = s
   \<and> (\<forall>resolve. interpolate resolve s = concat (map (token_value resolve) (tokens s)))
   \<and> interpolate (\<lambda>_. None) s = s"
proof -
  have "token_value (\<lambda>_. None) = token_text" by (rule ext) (rename_tac t, case_tac t; simp)
  then show ?thesis by (simp add: interpolate_value tokens_text)
qed

section \<open>The form of a condition\<close>

definition re_space :: "char \<Rightarrow> bool" where
  "re_space c \<longleftrightarrow> (of_char c :: nat) \<in> {9, 10, 12, 13, 32}"

definition path_char :: "char \<Rightarrow> bool" where
  "path_char c \<longleftrightarrow> (let n = (of_char c :: nat) in
     (65 \<le> n \<and> n \<le> 90) \<or> (97 \<le> n \<and> n \<le> 122) \<or> (48 \<le> n \<and> n \<le> 57)
      \<or> c = CHR ''_'' \<or> c = CHR ''-'' \<or> c = CHR ''.'' \<or> c = CHR ''['' \<or> c = CHR '']'')"

text \<open>The same as tests on the character and on integers, which evaluate faster.\<close>

lemma char_code_eq: "(of_char d :: nat) = k \<Longrightarrow> c = d \<longleftrightarrow> (of_char c :: nat) = k"
  by (metis of_char_eq_iff)

lemma re_space_code [code]: "re_space c \<longleftrightarrow> list_ex (\<lambda>d. c = d) [CHR 0x09, CHR 0x0A, CHR 0x0C, CHR 0x0D, CHR 0x20]"
proof -
  have "c = CHR 0x09 \<longleftrightarrow> (of_char c :: nat) = 9" "c = CHR 0x0A \<longleftrightarrow> (of_char c :: nat) = 10"
    "c = CHR 0x0C \<longleftrightarrow> (of_char c :: nat) = 12" "c = CHR 0x0D \<longleftrightarrow> (of_char c :: nat) = 13"
    "c = CHR 0x20 \<longleftrightarrow> (of_char c :: nat) = 32"
    by (rule char_code_eq; simp)+
  then show ?thesis by (simp only: re_space_def list_ex_iff list.set insert_iff empty_iff bex_simps simp_thms)
qed

lemma path_char_code [code]:
  "path_char c \<longleftrightarrow> (let n = (of_char c :: int) in
     if n \<le> 90 then (if n \<le> 57 then 48 \<le> n \<or> n = 45 \<or> n = 46 else 65 \<le> n)
     else if n \<le> 122 then 97 \<le> n \<or> n = 95 \<or> n = 91 \<or> n = 93 else False)"
proof -
  have n: "(of_char c :: int) = int (of_char c)" by (metis of_nat_of_char)
  have eq: "c = CHR ''_'' \<longleftrightarrow> (of_char c :: nat) = 95" "c = CHR ''-'' \<longleftrightarrow> (of_char c :: nat) = 45"
    "c = CHR ''.'' \<longleftrightarrow> (of_char c :: nat) = 46" "c = CHR ''['' \<longleftrightarrow> (of_char c :: nat) = 91"
    "c = CHR '']'' \<longleftrightarrow> (of_char c :: nat) = 93"
    by (rule char_code_eq; simp)+
  show ?thesis unfolding path_char_def Let_def eq n by (simp add: linorder_not_le)
qed

definition expr_ops :: "string list" where
  "expr_ops = [''=='', ''!='', ''>='', ''<='', ''>'', ''<'']"

text \<open>What follows the operator: spaces, a literal that holds no line feed, spaces.\<close>

definition expr_literal :: "string \<Rightarrow> string option" where
  "expr_literal s =
     (let l = rev (dropWhile re_space (rev (dropWhile re_space s)))
      in if l = [] \<or> CHR 0x0A \<in> set l then None else Some l)"

definition expr_match :: "string \<Rightarrow> (string \<times> string \<times> string) option" where
  "expr_match e =
     (let s = dropWhile re_space e;
          path = takeWhile path_char s;
          r = dropWhile re_space (dropWhile path_char s)
      in if path = [] then None
         else find_map (\<lambda>op. case cut_prefix op r of
                None \<Rightarrow> None
              | Some t \<Rightarrow> map_option (\<lambda>l. (path, op, l)) (expr_literal t)) expr_ops)"

text \<open>\<open>ParseExprTarget\<close>, with the path split as \<open>ResolveNodeValue\<close> splits it.\<close>

definition node_path :: "string \<Rightarrow> (string \<times> string) option" where
  "node_path path =
     (let parts = split_on (CHR ''.'') path in
      if length parts < 3 \<or> hd parts \<noteq> ''nodes'' then None
      else Some (parts ! 1, join_with (CHR ''.'') (drop 2 parts)))"

definition parse_expr_target :: "string \<Rightarrow> (string \<times> string) option" where
  "parse_expr_target e = (case expr_match e of None \<Rightarrow> None | Some (path, _, _) \<Rightarrow> node_path path)"

section \<open>Evaluation\<close>

datatype expr_error =
    BadExpression string | EmptyLiteral string | BadPath string | NotSettled string
  | NoLoopName string | SkippedWithoutLoops string skip_reason | NoLoopSnapshot string
  | NotInLoop string string | UnknownField string string | UnorderedText string string
  | BadOperator string

definition parse_literal :: "string \<Rightarrow> expr_error + string" where
  "parse_literal raw =
     (if raw = [] then Inl (EmptyLiteral raw)
      else if length raw \<ge> 2 \<and> hd raw = last raw \<and> (hd raw = CHR 0x27 \<or> hd raw = CHR 0x22)
        then Inr (butlast (tl raw))
      else Inr raw)"

definition compare_ordered :: "string \<Rightarrow> int \<Rightarrow> int \<Rightarrow> expr_error + bool" where
  "compare_ordered op a b =
     (if op = ''=='' then Inr (a = b)
      else if op = ''!='' then Inr (a \<noteq> b)
      else if op = ''>'' then Inr (a > b)
      else if op = ''>='' then Inr (a \<ge> b)
      else if op = ''<'' then Inr (a < b)
      else if op = ''<='' then Inr (a \<le> b)
      else Inl (BadOperator op))"

text \<open>The result map of the engine: settled results by node id.\<close>

type_synonym results = "(string \<times> node_result) list"

definition loop_field :: "string \<Rightarrow> node_result \<Rightarrow> string \<Rightarrow> string \<Rightarrow> expr_error + string" where
  "loop_field nid res path loop =
     (if loop = [] then Inl (NoLoopName path)
      else (case nr_loops res of
        None \<Rightarrow> if nr_status res = StSkipped then Inl (SkippedWithoutLoops nid (nr_reason res))
                else Inl (NoLoopSnapshot nid)
      | Some m \<Rightarrow> (case map_of m loop of None \<Rightarrow> Inl (NotInLoop nid loop) | Some n \<Rightarrow> Inr (itoa n))))"

text \<open>Fields of the definition: the first node of that id that has the field.\<close>

definition spec_field :: "wf_def option \<Rightarrow> string \<Rightarrow> string \<Rightarrow> string option" where
  "spec_field defn nid field =
     (case defn of None \<Rightarrow> None
      | Some d \<Rightarrow> find_map (\<lambda>n.
          if ns_id n \<noteq> nid then None
          else if field = ''output_file'' then Some (ns_output_file n)
          else if field = ''agent_id'' then Some (ns_agent n)
          else if field = ''type'' then Some (node_type_text (ns_type n))
          else None) (wd_nodes d))"

definition resolve_node_value :: "string \<Rightarrow> results \<Rightarrow> wf_def option \<Rightarrow> expr_error + string" where
  "resolve_node_value path ups defn =
     (case node_path path of
        None \<Rightarrow> Inl (BadPath path)
      | Some (nid, field) \<Rightarrow>
          (case map_of ups nid of
             None \<Rightarrow> Inl (NotSettled nid)
           | Some res \<Rightarrow>
               if field = ''status'' then Inr (status_text (nr_status res))
               else if field = ''exit_code'' then Inr (itoa (nr_exit res))
               else if field = ''output'' then Inr (nr_output res)
               else if field = ''skip_reason'' then Inr (reason_text (nr_reason res))
               else if field = ''error'' then Inr (case nr_error res of Some e \<Rightarrow> e | None \<Rightarrow> [])
               else (case cut_prefix ''loop_iteration.'' field of
                   Some loop \<Rightarrow> loop_field nid res path loop
                 | None \<Rightarrow> (case spec_field defn nid field of
                       Some v \<Rightarrow> Inr v | None \<Rightarrow> Inl (UnknownField field nid)))))"

definition compare_values :: "string \<Rightarrow> string \<Rightarrow> string \<Rightarrow> expr_error + bool" where
  "compare_values op left lit =
     (case (atoi (trim_space left), atoi (trim_space lit)) of
        (Some a, Some b) \<Rightarrow> compare_ordered op a b
      | _ \<Rightarrow> if op = ''=='' then Inr (trim_space left = trim_space lit)
             else if op = ''!='' then Inr (trim_space left \<noteq> trim_space lit)
             else Inl (UnorderedText op left))"

text \<open>\<open>None\<close> for the results is the syntax-check mode.\<close>

definition evaluate_expr :: "string \<Rightarrow> results option \<Rightarrow> wf_def option \<Rightarrow> expr_error + bool" where
  "evaluate_expr e ups defn =
     (case expr_match e of
        None \<Rightarrow> Inl (BadExpression e)
      | Some (path, op, raw) \<Rightarrow>
          (case ups of
             None \<Rightarrow> (case parse_literal raw of Inl x \<Rightarrow> Inl x | Inr _ \<Rightarrow> Inr True)
           | Some m \<Rightarrow>
               (case resolve_node_value path m defn of
                  Inl x \<Rightarrow> Inl x
                | Inr left \<Rightarrow> (case parse_literal raw of
                      Inl x \<Rightarrow> Inl x | Inr lit \<Rightarrow> compare_values op left lit))))"

section \<open>What the syntax check promises\<close>

lemma expr_match_op: "expr_match e = Some (path, op, raw) \<Longrightarrow> op \<in> set expr_ops \<and> raw \<noteq> []"
  by (auto simp: expr_match_def expr_literal_def Let_def dest!: find_map_Some split: option.splits if_splits)

lemma compare_ordered_ops: "op \<in> set expr_ops \<Longrightarrow> \<exists>b. compare_ordered op x y = Inr b"
  by (auto simp: expr_ops_def compare_ordered_def)

lemma compare_values_error:
  "compare_values op left lit = Inl x \<Longrightarrow> op \<in> set expr_ops
   \<Longrightarrow> x = UnorderedText op left \<and> op \<notin> {''=='', ''!=''}"
  using compare_ordered_ops [of op]
  by (auto simp: compare_values_def split: option.splits if_splits) (metis Inl_Inr_False)+

text \<open>The errors a checked condition can still meet when it is evaluated.\<close>

definition runtime_error :: "string \<Rightarrow> results \<Rightarrow> wf_def option \<Rightarrow> expr_error \<Rightarrow> bool" where
  "runtime_error e ups defn x \<longleftrightarrow>
     (\<exists>path op raw. expr_match e = Some (path, op, raw) \<and>
        (resolve_node_value path ups defn = Inl x
         \<or> (\<exists>left. resolve_node_value path ups defn = Inr left \<and> x = UnorderedText op left
              \<and> op \<notin> {''=='', ''!=''})))"

lemma checked_runtime:
  assumes "evaluate_expr e None d0 = Inr b"
  shows "evaluate_expr e (Some ups) defn = Inl x \<Longrightarrow> runtime_error e ups defn x"
proof -
  assume x: "evaluate_expr e (Some ups) defn = Inl x"
  from assms obtain path op raw lit where m: "expr_match e = Some (path, op, raw)" "parse_literal raw = Inr lit"
    by (auto simp: evaluate_expr_def split: option.splits sum.splits)
  show "runtime_error e ups defn x"
  proof (cases "resolve_node_value path ups defn")
    case (Inl y)
    then show ?thesis using m x by (auto simp: evaluate_expr_def runtime_error_def)
  next
    case (Inr left)
    then have "compare_values op left lit = Inl x" using m x by (simp add: evaluate_expr_def)
    then show ?thesis
      using m Inr compare_values_error [of op left lit] expr_match_op [of e path op raw]
      by (auto simp: runtime_error_def)
  qed
qed

end
