(* ===== verification/WfCycle.thy ===== *)
theory WfCycle
  imports WfTypes "HOL-Library.Multiset"
begin

text \<open>
  Cycle detection of a workflow definition (\<open>detectCycle\<close> and \<open>findCyclePath\<close> of
  \<open>pkg/workflowspec/definition.go\<close>): Kahn's algorithm over the unconditional dependencies, then a
  depth-first search for the path of the error message. Go's map iteration order is the argument
  \<open>ord\<close>, which lists the keys of a map in some order.
\<close>

section \<open>Kahn's algorithm\<close>

definition uncond_deps :: "node_spec \<Rightarrow> string list" where
  "uncond_deps n = remdups (map dp_node (filter (\<lambda>e. dp_when e = []) (ns_depends n)))"

type_synonym degrees = "(string \<times> int) list"

definition degree :: "degrees \<Rightarrow> string \<Rightarrow> int" where
  "degree m i = (case map_of m i of Some v \<Rightarrow> v | None \<Rightarrow> 0)"

definition successors :: "(string \<times> string list) list \<Rightarrow> string \<Rightarrow> string list" where
  "successors m i = (case map_of m i of Some v \<Rightarrow> v | None \<Rightarrow> [])"

definition kahn_edge :: "string \<Rightarrow> degrees \<times> (string \<times> string list) list \<Rightarrow> string
    \<Rightarrow> degrees \<times> (string \<times> string list) list" where
  "kahn_edge i s p = (case s of (deg, out) \<Rightarrow>
     (AList.update i (degree deg i + 1) deg, AList.update p (successors out p @ [i]) out))"

definition kahn_node :: "degrees \<times> (string \<times> string list) list \<Rightarrow> node_spec
    \<Rightarrow> degrees \<times> (string \<times> string list) list" where
  "kahn_node s n = (case s of (deg, out) \<Rightarrow>
     foldl (kahn_edge (ns_id n))
       (if map_of deg (ns_id n) = None then AList.update (ns_id n) 0 deg else deg, out)
       (uncond_deps n))"

definition kahn_graph :: "node_spec list \<Rightarrow> degrees \<times> (string \<times> string list) list" where
  "kahn_graph ns = foldl kahn_node ([], []) ns"

definition relax :: "string list \<times> degrees \<Rightarrow> string \<Rightarrow> string list \<times> degrees" where
  "relax s i = (case s of (q, deg) \<Rightarrow>
     let v = degree deg i - 1 in (if v = 0 then q @ [i] else q, AList.update i v deg))"

text \<open>A push uses up a positive degree, so the loop ends.\<close>

definition kahn_measure :: "string list \<times> degrees \<Rightarrow> nat" where
  "kahn_measure s = length (fst s) + (\<Sum>e\<leftarrow>snd s. nat (snd e))"

lemma sum_update:
  "(\<Sum>e\<leftarrow>AList.update k v m. nat (snd e)) + nat (degree m k) = (\<Sum>e\<leftarrow>m. nat (snd e)) + nat v"
  by (induction m) (auto simp: degree_def)

lemma relax_measure: "kahn_measure (relax s i) \<le> kahn_measure s"
proof (cases s)
  case (Pair q deg)
  have "nat (degree deg i - 1) \<le> nat (degree deg i)" by simp
  moreover have "degree deg i - 1 = 0 \<Longrightarrow> nat (degree deg i) = 1" by simp
  ultimately show ?thesis
    using sum_update [of i "degree deg i - 1" deg] by (auto simp: Pair relax_def kahn_measure_def Let_def)
qed

lemma foldl_relax_measure: "kahn_measure (foldl relax s is) \<le> kahn_measure s"
proof (induction "is" arbitrary: s)
  case (Cons i "is")
  show ?case using order_trans [OF Cons.IH relax_measure] by simp
qed simp

function kahn_loop :: "(string \<times> string list) list \<Rightarrow> string list \<Rightarrow> nat \<Rightarrow> degrees \<Rightarrow> nat \<times> degrees" where
  "kahn_loop out [] p deg = (p, deg)"
| "kahn_loop out (i # q) p deg =
     (let s = foldl relax (q, deg) (successors out i) in kahn_loop out (fst s) (Suc p) (snd s))"
  by pat_completeness auto
termination
proof (relation "measure (\<lambda>(_, q, _, deg). kahn_measure (q, deg))", goal_cases)
  case (2 out i q p deg s)
  have "kahn_measure (foldl relax (q, deg) (successors out i)) \<le> kahn_measure (q, deg)"
    by (rule foldl_relax_measure)
  with 2 show ?case by (simp add: kahn_measure_def)
qed simp

definition kahn :: "(string list \<Rightarrow> string list) \<Rightarrow> node_spec list \<Rightarrow> nat \<times> degrees" where
  "kahn ord ns = (case kahn_graph ns of (deg, out) \<Rightarrow>
     kahn_loop out (filter (\<lambda>i. degree deg i = 0) (ord (map fst deg))) 0 deg)"

section \<open>The path of the message\<close>

datatype colour = White | Grey | Black

type_synonym dfs_state = "(string \<Rightarrow> colour) \<times> string list"

definition cycle_from :: "string \<Rightarrow> string list \<Rightarrow> string list" where
  "cycle_from v st = dropWhile (\<lambda>x. x \<noteq> v) st @ [v]"

text \<open>
  \<open>Inl\<close> is a cycle that was found; \<open>None\<close> is fuel that ran out, which more fuel than white nodes
  excludes.
\<close>

fun dfs :: "nat \<Rightarrow> (string \<Rightarrow> string list) \<Rightarrow> string \<Rightarrow> dfs_state \<Rightarrow> (string list + dfs_state) option"
  and dfs_scan :: "nat \<Rightarrow> (string \<Rightarrow> string list) \<Rightarrow> string list \<Rightarrow> string \<Rightarrow> dfs_state
    \<Rightarrow> (string list + dfs_state) option" where
  "dfs 0 deps v s = None"
| "dfs (Suc f) deps v s = dfs_scan f deps (deps v) v ((fst s)(v := Grey), snd s @ [v])"
| "dfs_scan f deps [] v s = Some (Inr ((fst s)(v := Black), butlast (snd s)))"
| "dfs_scan f deps (w # ws) v s =
     (case fst s w of
        Grey \<Rightarrow> Some (Inl (cycle_from w (snd s)))
      | Black \<Rightarrow> dfs_scan f deps ws v s
      | White \<Rightarrow> (case dfs f deps w s of
            None \<Rightarrow> None
          | Some (Inl c) \<Rightarrow> Some (Inl c)
          | Some (Inr s') \<Rightarrow> dfs_scan f deps ws v s'))"

fun dfs_roots :: "nat \<Rightarrow> (string \<Rightarrow> string list) \<Rightarrow> string list \<Rightarrow> dfs_state \<Rightarrow> string list option" where
  "dfs_roots f deps [] s = Some []"
| "dfs_roots f deps (v # vs) s =
     (if fst s v = White then
        (case dfs f deps v s of
           None \<Rightarrow> None | Some (Inl c) \<Rightarrow> Some c | Some (Inr s') \<Rightarrow> dfs_roots f deps vs s')
      else dfs_roots f deps vs s)"

text \<open>All dependencies, conditional ones too, within the nodes Kahn's algorithm left over.\<close>

definition cycle_deps :: "string list \<Rightarrow> node_spec list \<Rightarrow> string \<Rightarrow> string list" where
  "cycle_deps remaining ns i =
     (if i \<notin> set remaining then []
      else concat (map (\<lambda>n. if ns_id n = i
             then filter (\<lambda>p. p \<in> set remaining) (map dp_node (ns_depends n)) else []) ns))"

definition find_cycle_path :: "(string list \<Rightarrow> string list) \<Rightarrow> string list \<Rightarrow> node_spec list \<Rightarrow> string list option" where
  "find_cycle_path ord remaining ns =
     dfs_roots (Suc (length remaining)) (cycle_deps remaining ns) (ord remaining) (\<lambda>_. White, [])"

datatype cycle_error = CyclePath "string list" | CycleAmong "string list"

definition detect_cycle :: "(string list \<Rightarrow> string list) \<Rightarrow> node_spec list \<Rightarrow> cycle_error option" where
  "detect_cycle ord ns =
     (case kahn ord ns of (processed, deg) \<Rightarrow>
        if processed = length ns then None
        else
          let remaining = remdups (filter (\<lambda>i. degree deg i > 0) (map ns_id ns)) in
          case find_cycle_path ord remaining ns of
            Some (v # vs) \<Rightarrow> Some (CyclePath (v # vs))
          | _ \<Rightarrow> Some (CycleAmong (ord remaining)))"

end
