(* ===== verification/WfCycleProps.thy ===== *)
theory WfCycleProps
  imports WfCycle
begin

text \<open>
  Kahn's algorithm accepts exactly the definitions whose unconditional dependencies are acyclic,
  and the path of the error message is a closed walk along dependencies.
\<close>

section \<open>Finite relations without cycles\<close>

lemma pred_closed_cycle:
  assumes "finite R" "R \<noteq> {}" "\<And>i. i \<in> R \<Longrightarrow> \<exists>x \<in> R. (x, i) \<in> E"
  shows "\<exists>i. (i, i) \<in> E\<^sup>+"
proof (rule ccontr)
  assume "\<not> ?thesis"
  then have "acyclic (E \<inter> R \<times> R)" by (meson acyclic_def trancl_mono Int_lower1)
  moreover have "finite (E \<inter> R \<times> R)" using assms(1) by simp
  ultimately have "wf (E \<inter> R \<times> R)" by (rule finite_acyclic_wf [rotated])
  with assms(2) obtain m where "m \<in> R" "\<And>y. (y, m) \<in> E \<inter> R \<times> R \<Longrightarrow> y \<notin> R"
    by (metis ex_in_conv wfE_min)
  with assms(3) show False by blast
qed

text \<open>Adding a vertex whose predecessors are all old cannot close a cycle.\<close>

lemma no_cycle_extend:
  assumes "\<forall>i \<in> P. \<forall>x. (x, i) \<in> E \<longrightarrow> x \<in> P" "\<forall>i \<in> P. (i, i) \<notin> E\<^sup>+"
    "\<forall>x. (x, v) \<in> E \<longrightarrow> x \<in> P" "v \<notin> P"
  shows "(v, v) \<notin> E\<^sup>+"
proof
  assume "(v, v) \<in> E\<^sup>+"
  then obtain x where x: "(v, x) \<in> E\<^sup>*" "(x, v) \<in> E" by (meson tranclD2)
  have "w \<in> P" if "(w, y) \<in> E\<^sup>*" "y \<in> P" for w y
    using that by (induction rule: converse_rtrancl_induct) (use assms(1) in auto)
  with x assms(3) have "v \<in> P" by blast
  with assms(4) show False by simp
qed

section \<open>The graph\<close>

definition edges :: "node_spec list \<Rightarrow> (string \<times> string) set" where
  "edges ns = {(p, i). \<exists>n \<in> set ns. ns_id n = i \<and> p \<in> set (uncond_deps n)}"

lemma finite_edges: "finite (edges ns)"
proof -
  have "edges ns = (\<Union>n \<in> set ns. (\<lambda>p. (p, ns_id n)) ` set (uncond_deps n))" by (auto simp: edges_def)
  then show ?thesis by simp
qed

lemma degree_update [simp]: "degree (AList.update i v m) j = (if j = i then v else degree m j)"
  by (simp add: degree_def map_of_update)

lemma successors_update [simp]: "successors (AList.update i v m) j = (if j = i then v else successors m j)"
  by (simp add: successors_def map_of_update)

lemma foldl_kahn_edge:
  assumes "distinct ps"
  shows "degree (fst (foldl (kahn_edge i) s ps)) j = degree (fst s) j + (if j = i then int (length ps) else 0)"
    "successors (snd (foldl (kahn_edge i) s ps)) q =
       successors (snd s) q @ (if q \<in> set ps then [i] else [])"
  using assms
  by (induction ps arbitrary: s) (auto simp: kahn_edge_def split: prod.splits)

lemma kahn_edge_keys:
  "map_of (fst s) i \<noteq> None \<Longrightarrow> dom (map_of (fst (foldl (kahn_edge i) s ps))) = dom (map_of (fst s))"
proof (induction ps arbitrary: s)
  case (Cons p ps)
  have "dom (map_of (fst (kahn_edge i s p))) = dom (map_of (fst s))"
    using Cons.prems by (auto simp: kahn_edge_def update_conv' split: prod.splits)
  moreover from this Cons.prems have "map_of (fst (kahn_edge i s p)) i \<noteq> None" by (auto simp: dom_def)
  ultimately show ?case using Cons.IH by simp
qed simp

lemma kahn_node_graph:
  assumes "map_of (fst s) (ns_id n) = None"
  shows "degree (fst (kahn_node s n)) j = (if j = ns_id n then int (length (uncond_deps n)) else degree (fst s) j)"
    "successors (snd (kahn_node s n)) q = successors (snd s) q @ (if q \<in> set (uncond_deps n) then [ns_id n] else [])"
    "dom (map_of (fst (kahn_node s n))) = insert (ns_id n) (dom (map_of (fst s)))"
proof -
  have d: "distinct (uncond_deps n)" by (simp add: uncond_deps_def)
  obtain deg out where s: "s = (deg, out)" by fastforce
  have z: "degree deg (ns_id n) = 0" using assms by (simp add: s degree_def)
  show "degree (fst (kahn_node s n)) j = (if j = ns_id n then int (length (uncond_deps n)) else degree (fst s) j)"
    "successors (snd (kahn_node s n)) q = successors (snd s) q @ (if q \<in> set (uncond_deps n) then [ns_id n] else [])"
    using assms z by (auto simp: s kahn_node_def foldl_kahn_edge [OF d])
  show "dom (map_of (fst (kahn_node s n))) = insert (ns_id n) (dom (map_of (fst s)))"
    using assms by (simp add: s kahn_node_def kahn_edge_keys update_conv') 
qed

lemma kahn_graph_correct:
  assumes "distinct (map ns_id ns)"
  shows "dom (map_of (fst (kahn_graph ns))) = ns_id ` set ns
    \<and> (\<forall>n \<in> set ns. degree (fst (kahn_graph ns)) (ns_id n) = int (length (uncond_deps n)))
    \<and> (\<forall>q. successors (snd (kahn_graph ns)) q = map ns_id (filter (\<lambda>n. q \<in> set (uncond_deps n)) ns))"
  using assms
proof (induction ns rule: rev_induct)
  case Nil
  then show ?case by (simp add: kahn_graph_def successors_def)
next
  case (snoc n ns)
  then have IH: "dom (map_of (fst (kahn_graph ns))) = ns_id ` set ns"
    "\<forall>n \<in> set ns. degree (fst (kahn_graph ns)) (ns_id n) = int (length (uncond_deps n))"
    "\<forall>q. successors (snd (kahn_graph ns)) q = map ns_id (filter (\<lambda>n. q \<in> set (uncond_deps n)) ns)"
    by auto
  have step: "kahn_graph (ns @ [n]) = kahn_node (kahn_graph ns) n" by (simp add: kahn_graph_def)
  have new: "ns_id n \<notin> ns_id ` set ns" using snoc.prems by auto
  then have "map_of (fst (kahn_graph ns)) (ns_id n) = None" using IH(1) by (metis domIff)
  note g = kahn_node_graph [OF this]
  show ?case unfolding step g using IH new by (auto simp: image_iff)
qed

section \<open>The loop\<close>

lemma foldl_relax:
  assumes "distinct is" "set is \<inter> set (fst s) = {}"
  shows "degree (snd (foldl relax s is)) j = degree (snd s) j - (if j \<in> set is then 1 else 0)
    \<and> set (fst (foldl relax s is)) = set (fst s) \<union> {i \<in> set is. degree (snd s) i = 1}
    \<and> (distinct (fst s) \<longrightarrow> distinct (fst (foldl relax s is)))"
  using assms
proof (induction "is" arbitrary: s)
  case (Cons i "is")
  obtain q deg where s: "s = (q, deg)" by fastforce
  have "set is \<inter> set (fst (relax s i)) = {}" using Cons.prems by (auto simp: s relax_def Let_def)
  with Cons.IH [of "relax s i"] Cons.prems show ?case by (auto simp: s relax_def Let_def)
qed simp

lemma foldl_relax_dom:
  "dom (map_of (snd (foldl relax s is))) = dom (map_of (snd s)) \<union> set is"
proof (induction "is" arbitrary: s)
  case (Cons i "is")
  have "dom (map_of (snd (relax s i))) = insert i (dom (map_of (snd s)))"
    by (cases s) (auto simp: relax_def Let_def update_conv')
  with Cons.IH show ?case by simp
qed simp

definition dep_graph :: "string set \<Rightarrow> (string \<times> string) set \<Rightarrow> (string \<times> string list) list \<Rightarrow> bool" where
  "dep_graph N E out \<longleftrightarrow> finite N \<and> E \<subseteq> N \<times> N
     \<and> (\<forall>x. set (successors out x) = {i. (x, i) \<in> E} \<and> distinct (successors out x))"

lemma dep_graphD:
  assumes "dep_graph N E out"
  shows "finite N" "(x, i) \<in> E \<Longrightarrow> x \<in> N \<and> i \<in> N" "set (successors out x) = {i. (x, i) \<in> E}"
    "distinct (successors out x)"
  using assms by (auto simp: dep_graph_def)

text \<open>
  At the head of the loop \<open>P\<close> is the set of processed nodes: degrees count the unprocessed
  predecessors, the queue holds the unprocessed nodes without any, and no processed node lies on
  a cycle.
\<close>

definition kahn_inv :: "string set \<Rightarrow> (string \<times> string) set \<Rightarrow> string set \<Rightarrow> string list \<Rightarrow> degrees \<Rightarrow> bool" where
  "kahn_inv N E P q deg \<longleftrightarrow> P \<subseteq> N \<and> distinct q \<and> set q \<subseteq> N \<and> set q \<inter> P = {}
     \<and> (\<forall>i \<in> N. degree deg i = int (card {x. (x, i) \<in> E \<and> x \<notin> P}))
     \<and> (\<forall>i \<in> N. degree deg i = 0 \<longleftrightarrow> i \<in> P \<union> set q)
     \<and> (\<forall>i \<in> P. (i, i) \<notin> E\<^sup>+)"

lemma finite_preds: "dep_graph N E out \<Longrightarrow> finite {x. (x, i) \<in> E \<and> x \<notin> P}"
  by (rule finite_subset [of _ N]) (auto dest: dep_graphD)

lemma kahn_inv_preds:
  assumes G: "dep_graph N E out" and I: "kahn_inv N E P q deg" and i: "i \<in> P \<union> set q" "(x, i) \<in> E"
  shows "x \<in> P"
proof -
  from I i have "i \<in> N" "degree deg i = 0" by (auto simp: kahn_inv_def)
  with I have "card {x. (x, i) \<in> E \<and> x \<notin> P} = 0" by (auto simp: kahn_inv_def)
  with finite_preds [OF G] i show ?thesis by auto
qed

lemma degree_step:
  assumes G: "dep_graph N E out" and "v \<notin> P"
  shows "int (card {x. (x, i) \<in> E \<and> x \<notin> insert v P}) =
    int (card {x. (x, i) \<in> E \<and> x \<notin> P}) - (if (v, i) \<in> E then 1 else 0)"
proof (cases "(v, i) \<in> E")
  case True
  then have v: "v \<in> {x. (x, i) \<in> E \<and> x \<notin> P}" using assms by simp
  have "{x. (x, i) \<in> E \<and> x \<notin> insert v P} = {x. (x, i) \<in> E \<and> x \<notin> P} - {v}" by auto
  then have "card {x. (x, i) \<in> E \<and> x \<notin> insert v P} = card {x. (x, i) \<in> E \<and> x \<notin> P} - 1"
    using v finite_preds [OF G] by simp
  moreover have "card {x. (x, i) \<in> E \<and> x \<notin> P} > 0" using v finite_preds [OF G, of i P] by (auto simp: card_gt_0_iff)
  ultimately show ?thesis using True by simp
next
  case False
  then have "{x. (x, i) \<in> E \<and> x \<notin> insert v P} = {x. (x, i) \<in> E \<and> x \<notin> P}" by auto
  with False show ?thesis by simp
qed

lemma kahn_inv_step:
  assumes G: "dep_graph N E out" and I: "kahn_inv N E P (v # q) deg"
  defines "s \<equiv> foldl relax (q, deg) (successors out v)"
  shows "kahn_inv N E (insert v P) (fst s) (snd s)"
proof -
  have v: "v \<notin> P" "v \<in> N" using I by (auto simp: kahn_inv_def)
  have dj: "set (successors out v) \<inter> set q = {}"
    using kahn_inv_preds [OF G I] v(1) by (auto simp: dep_graphD(3) [OF G])
  note f = foldl_relax [OF dep_graphD(4) [OF G], of v "(q, deg)", folded s_def, unfolded fst_conv snd_conv, OF dj]
  have deg: "degree (snd s) i = degree deg i - (if (v, i) \<in> E then 1 else 0)" for i
    using f [of i] by (simp add: dep_graphD(3) [OF G])
  have q: "set (fst s) = set q \<union> {i. (v, i) \<in> E \<and> degree deg i = 1}" using f [of v] by (auto simp: dep_graphD(3) [OF G])
  have selfless: "(v, v) \<notin> E" using kahn_inv_preds [OF G I, of v v] v by auto
  have cyc: "(v, v) \<notin> E\<^sup>+"
    by (rule no_cycle_extend [of P]) (use I kahn_inv_preds [OF G I] v in \<open>auto simp: kahn_inv_def\<close>)
  have cnt: "degree (snd s) i = int (card {x. (x, i) \<in> E \<and> x \<notin> insert v P})" if "i \<in> N" for i
    using that I deg [of i] unfolding degree_step [OF G v(1)] by (simp add: kahn_inv_def)
  have zero: "degree (snd s) i = 0 \<longleftrightarrow> i \<in> insert v P \<union> set (fst s)" if i: "i \<in> N" for i
  proof (cases "(v, i) \<in> E")
    case True
    with kahn_inv_preds [OF G I, of i v] v(1) have "i \<notin> P \<union> set (v # q)" by blast
    with i I True show ?thesis by (auto simp: deg q kahn_inv_def)
  next
    case False
    with i I show ?thesis by (auto simp: deg q kahn_inv_def)
  qed
  have "distinct (fst s)" using f [of v] I by (auto simp: kahn_inv_def)
  moreover have "set (fst s) \<subseteq> N" using I q by (auto simp: kahn_inv_def dest: dep_graphD(2) [OF G])
  moreover have "set (fst s) \<inter> insert v P = {}"
    using I q selfless kahn_inv_preds [OF G I, of _ v] v(1) by (auto simp: kahn_inv_def)
  ultimately show ?thesis
    using I v cyc cnt zero unfolding kahn_inv_def by auto
qed

lemma kahn_loop_inv:
  "dep_graph N E m \<Longrightarrow> kahn_inv N E P q deg \<Longrightarrow> p = card P \<Longrightarrow>
   \<exists>P'. fst (kahn_loop m q p deg) = card P' \<and> kahn_inv N E P' [] (snd (kahn_loop m q p deg))"
proof (induction m q p deg arbitrary: P rule: kahn_loop.induct)
  case (1 m p deg)
  then show ?case by auto
next
  case (2 m v q p deg)
  have P: "finite P" "v \<notin> P" using "2.prems" dep_graphD(1) by (auto simp: kahn_inv_def intro: finite_subset)
  have "kahn_inv N E (insert v P) (fst (foldl relax (q, deg) (successors m v)))
      (snd (foldl relax (q, deg) (successors m v)))"
    using kahn_inv_step [of N E m P v q deg] "2.prems" by simp
  from "2.IH" [OF refl "2.prems"(1) this] P "2.prems"(3) show ?case by (simp add: Let_def)
qed

lemma kahn_inv_final:
  assumes G: "dep_graph N E out" and I: "kahn_inv N E P [] deg"
  shows "card P = card N \<longleftrightarrow> acyclic E"
    "i \<in> N \<Longrightarrow> degree deg i > 0 \<longleftrightarrow> i \<notin> P"
    "i \<in> N \<Longrightarrow> i \<notin> P \<Longrightarrow> \<exists>x \<in> N - P. (x, i) \<in> E"
proof -
  have PN: "P \<subseteq> N" using assms by (simp add: kahn_inv_def)
  show pos: "degree deg i > 0 \<longleftrightarrow> i \<notin> P" if "i \<in> N" for i
  proof -
    have "degree deg i \<ge> 0" using assms that by (simp add: kahn_inv_def)
    moreover have "\<forall>i \<in> N. degree deg i = 0 \<longleftrightarrow> i \<in> P"
      using assms unfolding kahn_inv_def by (elim conjE) (simp only: list.set Un_empty_right)
    then have "degree deg i = 0 \<longleftrightarrow> i \<in> P" using that by blast
    ultimately show ?thesis by linarith
  qed
  show pred: "\<exists>x \<in> N - P. (x, i) \<in> E" if "i \<in> N" "i \<notin> P" for i
  proof -
    have "card {x. (x, i) \<in> E \<and> x \<notin> P} > 0" using pos [OF that(1)] that assms by (auto simp: kahn_inv_def)
    then obtain x where "(x, i) \<in> E" "x \<notin> P" by (metis (mono_tags) Collect_empty_eq card.empty less_irrefl)
    then show ?thesis using dep_graphD(2) [OF G] by blast
  qed
  show "card P = card N \<longleftrightarrow> acyclic E"
  proof
    assume "card P = card N"
    then have P: "P = N" using PN dep_graphD(1) [OF G] by (simp add: card_subset_eq)
    show "acyclic E"
    proof (unfold acyclic_def, rule allI, rule notI)
      fix x assume c: "(x, x) \<in> E\<^sup>+"
      then have "x \<in> N" by (meson dep_graphD(2) [OF G] tranclD)
      with c assms P show False by (simp add: kahn_inv_def)
    qed
  next
    assume a: "acyclic E"
    have "N - P = {}"
    proof (rule ccontr)
      assume "N - P \<noteq> {}"
      then have "\<exists>i. (i, i) \<in> E\<^sup>+"
        by (intro pred_closed_cycle [of "N - P"]) (use dep_graphD(1) [OF G] pred in auto)
      with a show False by (simp add: acyclic_def)
    qed
    with PN have "P = N" by blast
    then show "card P = card N" by simp
  qed
qed

section \<open>The search for the path\<close>

definition closed_walk :: "(string \<Rightarrow> string list) \<Rightarrow> string list \<Rightarrow> bool" where
  "closed_walk deps c \<longleftrightarrow> 2 \<le> length c \<and> hd c = last c \<and> successively (\<lambda>a b. b \<in> set (deps a)) c"

definition dfs_ok :: "(string \<Rightarrow> string list) \<Rightarrow> string set \<Rightarrow> dfs_state \<Rightarrow> bool" where
  "dfs_ok deps R s \<longleftrightarrow> {x. fst s x = Grey} = set (snd s) \<and> distinct (snd s)
     \<and> successively (\<lambda>a b. b \<in> set (deps a)) (snd s)
     \<and> (\<forall>x. fst s x \<noteq> White \<longrightarrow> x \<in> R)
     \<and> (\<forall>b. fst s b = Black \<longrightarrow> (\<forall>d \<in> set (deps b). fst s d = Black))
     \<and> (\<forall>b. fst s b = Black \<longrightarrow> (b, b) \<notin> {(p, i). p \<in> set (deps i)}\<^sup>+)"

definition whites :: "string set \<Rightarrow> dfs_state \<Rightarrow> nat" where
  "whites R s = card {x \<in> R. fst s x = White}"

text \<open>What a finished call did to the colours: nothing turns white, what was not white stays.\<close>

definition coloured :: "dfs_state \<Rightarrow> dfs_state \<Rightarrow> bool" where
  "coloured s s' \<longleftrightarrow> (\<forall>x. fst s x = Black \<longrightarrow> fst s' x = Black) \<and> (\<forall>x. fst s' x = White \<longrightarrow> fst s x = White)"

lemma coloured_trans: "coloured s t \<Longrightarrow> coloured t u \<Longrightarrow> coloured s u"
  unfolding coloured_def by blast

lemma whites_mono: "finite R \<Longrightarrow> coloured s s' \<Longrightarrow> whites R s' \<le> whites R s"
  unfolding whites_def by (rule card_mono) (auto simp: coloured_def)

lemma cycle_from_closed:
  assumes "w \<in> set st" "successively (\<lambda>a b. b \<in> set (deps a)) st" "w \<in> set (deps (last st))"
  shows "closed_walk deps (cycle_from w st)"
proof -
  obtain us vs where st: "st = us @ w # vs" "w \<notin> set us" using split_list_first [OF assms(1)] by blast
  then have c: "cycle_from w st = w # vs @ [w]" by (simp add: cycle_from_def dropWhile_append)
  have "successively (\<lambda>a b. b \<in> set (deps a)) (w # vs)" "last (w # vs) = last st"
    using assms(2) st by (simp_all add: successively_append_iff)
  then have "successively (\<lambda>a b. b \<in> set (deps a)) ((w # vs) @ [w])"
    using assms(3) by (simp add: successively_append_iff del: append_Cons)
  then show ?thesis by (simp add: closed_walk_def c)
qed

lemma dfs_push:
  assumes "dfs_ok deps R s" "fst s v = White" "v \<in> R" "snd s = [] \<or> v \<in> set (deps (last (snd s)))"
  shows "dfs_ok deps R ((fst s)(v := Grey), snd s @ [v])"
proof -
  have "v \<notin> {x. fst s x = Grey}" using assms(2) by simp
  then have "v \<notin> set (snd s)" using assms(1) unfolding dfs_ok_def by metis
  with assms show ?thesis by (auto simp: dfs_ok_def successively_append_iff set_eq_iff)
qed

lemma dfs_pop:
  assumes "dfs_ok deps R s" "snd s \<noteq> []" "last (snd s) = v" "\<forall>d \<in> set (deps v). fst s d = Black"
  shows "dfs_ok deps R ((fst s)(v := Black), butlast (snd s))"
proof -
  obtain st where st: "snd s = st @ [v]" using assms(2,3) by (metis append_butlast_last_id)
  have "fst s v = Grey" using assms(1) st by (auto simp: dfs_ok_def set_eq_iff)
  moreover from this have "v \<in> R" using assms(1) by (simp add: dfs_ok_def)
  moreover have "(v, v) \<notin> {(p, i). p \<in> set (deps i)}\<^sup>+"
    by (rule no_cycle_extend [of "{b. fst s b = Black}"])
      (use assms(1,4) \<open>fst s v = Grey\<close> in \<open>auto simp: dfs_ok_def\<close>)
  ultimately show ?thesis
    using assms(1,4) st by (auto simp: dfs_ok_def successively_append_iff set_eq_iff)
qed

definition dfs_post :: "(string \<Rightarrow> string list) \<Rightarrow> string set \<Rightarrow> string \<Rightarrow> dfs_state \<Rightarrow> string list
    \<Rightarrow> (string list + dfs_state) option \<Rightarrow> bool" where
  "dfs_post deps R v s st r \<longleftrightarrow>
     (\<exists>c. r = Some (Inl c) \<and> closed_walk deps c)
     \<or> (\<exists>s'. r = Some (Inr s') \<and> dfs_ok deps R s' \<and> coloured s s' \<and> fst s' v = Black \<and> snd s' = st)"

lemma dfs_correct:
  assumes "finite R" "\<forall>v. set (deps v) \<subseteq> R"
  shows "dfs_ok deps R s \<Longrightarrow> fst s v = White \<Longrightarrow> v \<in> R \<Longrightarrow> snd s = [] \<or> v \<in> set (deps (last (snd s)))
      \<Longrightarrow> whites R s < f \<Longrightarrow> dfs_post deps R v s (snd s) (dfs f deps v s)"
    and "dfs_ok deps R s \<Longrightarrow> snd s \<noteq> [] \<Longrightarrow> last (snd s) = v \<Longrightarrow> set ws \<subseteq> set (deps v)
      \<Longrightarrow> \<forall>d \<in> set (deps v) - set ws. fst s d = Black \<Longrightarrow> whites R s < f
      \<Longrightarrow> dfs_post deps R v s (butlast (snd s)) (dfs_scan f deps ws v s)"
  using assms
proof (induction f deps v s and f deps ws v s rule: dfs_dfs_scan.induct)
  case (1 deps v s)
  then show ?case by simp
next
  case (2 f deps v s)
  let ?s = "((fst s)(v := Grey), snd s @ [v])"
  have "{x \<in> R. fst s x = White} = insert v {x \<in> R. fst ?s x = White}" using "2.prems" by auto
  then have "whites R ?s < f" using "2.prems"(1-5) \<open>finite R\<close> by (simp add: whites_def)
  then have "dfs_post deps R v ?s (snd s) (dfs_scan f deps (deps v) v ?s)"
    using "2.IH" [OF dfs_push [OF "2.prems"(1-4)]] "2.prems" by simp
  moreover have "coloured s ?s" using "2.prems"(2) by (auto simp: coloured_def)
  ultimately show ?case by (auto simp: dfs_post_def dest: coloured_trans)
next
  case (3 f deps v s)
  have "dfs_ok deps R ((fst s)(v := Black), butlast (snd s))" using dfs_pop [of deps R s v] 3 by simp
  then show ?case by (auto simp: dfs_post_def coloured_def)
next
  case (4 f deps w ws v s)
  have w: "w \<in> set (deps (last (snd s)))" using "4.prems" by auto
  show ?case
  proof (cases "fst s w")
    case Grey
    then have "w \<in> set (snd s)" using "4.prems"(1) by (auto simp: dfs_ok_def)
    with w "4.prems"(1) have "closed_walk deps (cycle_from w (snd s))"
      by (intro cycle_from_closed) (auto simp: dfs_ok_def)
    with Grey show ?thesis by (simp add: dfs_post_def)
  next
    case Black
    then have "\<forall>d \<in> set (deps v) - set ws. fst s d = Black" using "4.prems"(5) by auto
    then have "dfs_post deps R v s (butlast (snd s)) (dfs_scan f deps ws v s)"
      using "4.IH"(3) [OF Black "4.prems"(1-3)] "4.prems" by simp
    with Black show ?thesis by simp
  next
    case White
    have "w \<in> R" using w "4.prems" by auto
    with "4.IH"(1) White "4.prems" w have d: "dfs_post deps R w s (snd s) (dfs f deps w s)" by simp
    show ?thesis
    proof (cases "\<exists>c. dfs f deps w s = Some (Inl c)")
      case True
      with d White show ?thesis by (auto simp: dfs_post_def)
    next
      case False
      with d obtain s' where s': "dfs f deps w s = Some (Inr s')" "dfs_ok deps R s'" "coloured s s'"
        "fst s' w = Black" "snd s' = snd s" by (auto simp: dfs_post_def)
      have "dfs_post deps R v s' (butlast (snd s')) (dfs_scan f deps ws v s')"
      proof (rule "4.IH"(2) [OF White s'(1) refl])
        show "\<forall>d \<in> set (deps v) - set ws. fst s' d = Black"
          using "4.prems"(5) s'(3,4) by (auto simp: coloured_def)
        show "whites R s' < f" using whites_mono [OF \<open>finite R\<close> s'(3)] "4.prems" by simp
      qed (use s' "4.prems" in auto)
      with s' White show ?thesis by (auto simp: dfs_post_def dest: coloured_trans)
    qed
  qed
qed

lemma dfs_roots_correct:
  assumes "finite R" "\<forall>v. set (deps v) \<subseteq> R"
  shows "dfs_ok deps R s \<Longrightarrow> snd s = [] \<Longrightarrow> set vs \<subseteq> R \<Longrightarrow> whites R s < f \<Longrightarrow>
    (\<exists>c. dfs_roots f deps vs s = Some c \<and> closed_walk deps c)
    \<or> (dfs_roots f deps vs s = Some [] \<and>
       (\<exists>s'. dfs_ok deps R s' \<and> snd s' = [] \<and> coloured s s' \<and> (\<forall>v \<in> set vs. fst s' v = Black)))"
proof (induction vs arbitrary: s)
  case Nil
  then have "dfs_ok deps R s \<and> snd s = [] \<and> coloured s s \<and> (\<forall>v \<in> set []. fst s v = Black)"
    by (simp add: coloured_def)
  then have "\<exists>s'. dfs_ok deps R s' \<and> snd s' = [] \<and> coloured s s' \<and> (\<forall>v \<in> set []. fst s' v = Black)" by (rule exI)
  then show ?case by simp
next
  case (Cons v vs)
  show ?case
  proof (cases "fst s v = White")
    case False
    have "fst s v \<noteq> Grey" using Cons.prems by (auto simp: dfs_ok_def)
    with False have "fst s v = Black" by (cases "fst s v") auto
    with Cons.IH [of s] Cons.prems False show ?thesis by (auto simp: coloured_def)
  next
    case True
    have d: "dfs_post deps R v s (snd s) (dfs f deps v s)"
      by (rule dfs_correct(1) [OF assms]) (use Cons.prems True in auto)
    show ?thesis
    proof (cases "\<exists>c. dfs f deps v s = Some (Inl c)")
      case c: True
      with d True show ?thesis by (auto simp: dfs_post_def)
    next
      case False
      with d obtain s' where s': "dfs f deps v s = Some (Inr s')" "dfs_ok deps R s'" "coloured s s'"
        "fst s' v = Black" "snd s' = snd s" by (auto simp: dfs_post_def)
      have "whites R s' < f" using whites_mono [OF assms(1) s'(3)] Cons.prems by simp
      from Cons.IH [OF s'(2) _ _ this] s'(5) Cons.prems
      have IH: "(\<exists>c. dfs_roots f deps vs s' = Some c \<and> closed_walk deps c)
        \<or> (dfs_roots f deps vs s' = Some [] \<and>
           (\<exists>t. dfs_ok deps R t \<and> snd t = [] \<and> coloured s' t \<and> (\<forall>v \<in> set vs. fst t v = Black)))" by simp
      have eq: "dfs_roots f deps (v # vs) s = dfs_roots f deps vs s'" using True s'(1) by simp
      have "coloured s t \<and> (\<forall>u \<in> set (v # vs). fst t u = Black)"
        if "coloured s' t" "\<forall>v \<in> set vs. fst t v = Black" for t
      proof -
        have "fst t v = Black" using that(1) s'(4) unfolding coloured_def by blast
        with that coloured_trans [OF s'(3) that(1)] show ?thesis by simp
      qed
      note step = this
      from IH show ?thesis
      proof
        assume "\<exists>c. dfs_roots f deps vs s' = Some c \<and> closed_walk deps c"
        with eq show ?thesis by simp
      next
        assume "dfs_roots f deps vs s' = Some [] \<and>
           (\<exists>t. dfs_ok deps R t \<and> snd t = [] \<and> coloured s' t \<and> (\<forall>v \<in> set vs. fst t v = Black))"
        then obtain t where t: "dfs_roots f deps vs s' = Some []" "dfs_ok deps R t" "snd t = []"
          "coloured s' t" "\<forall>v \<in> set vs. fst t v = Black" by blast
        with eq step [OF t(4,5)]
        have "dfs_roots f deps (v # vs) s = Some [] \<and> (dfs_ok deps R t \<and> snd t = [] \<and> coloured s t
          \<and> (\<forall>u \<in> set (v # vs). fst t u = Black))" by simp
        then show ?thesis by blast
      qed
    qed
  qed
qed

text \<open>If every node has a dependency within the searched set, the search finds a cycle.\<close>

lemma dfs_finds:
  assumes "finite R" "\<forall>v. set (deps v) \<subseteq> R" "\<forall>v \<in> R. deps v \<noteq> []" "set vs = R" "R \<noteq> {}" "card R < f"
  shows "\<exists>c. dfs_roots f deps vs (\<lambda>_. White, []) = Some c \<and> closed_walk deps c"
proof -
  have ok: "dfs_ok deps R (\<lambda>_. White, [])" by (simp add: dfs_ok_def)
  have "whites R (\<lambda>_. White, []) < f" using assms(6) by (simp add: whites_def)
  from dfs_roots_correct [OF assms(1,2) ok snd_conv eq_refl [OF assms(4)] this]
  have "(\<exists>c. dfs_roots f deps vs (\<lambda>_. White, []) = Some c \<and> closed_walk deps c)
    \<or> (\<exists>s'. dfs_ok deps R s' \<and> (\<forall>v \<in> set vs. fst s' v = Black))"
  proof
    assume "dfs_roots f deps vs (\<lambda>_. White, []) = Some [] \<and>
       (\<exists>s'. dfs_ok deps R s' \<and> snd s' = [] \<and> coloured (\<lambda>_. White, []) s' \<and> (\<forall>v \<in> set vs. fst s' v = Black))"
    then show ?thesis by (elim conjE exE) (intro disjI2 exI conjI)
  qed simp
  then show ?thesis
  proof
    assume "\<exists>s'. dfs_ok deps R s' \<and> (\<forall>v \<in> set vs. fst s' v = Black)"
    then obtain s' where ok: "dfs_ok deps R s'" "\<forall>v \<in> R. fst s' v = Black" using assms(4) by auto
    have "\<exists>i. (i, i) \<in> {(p, i). p \<in> set (deps i)}\<^sup>+"
    proof (rule pred_closed_cycle [OF assms(1,5)])
      fix i assume "i \<in> R"
      with assms(3) have h: "hd (deps i) \<in> set (deps i)" by simp
      moreover from this assms(2) have "hd (deps i) \<in> R" by blast
      ultimately show "\<exists>x \<in> R. (x, i) \<in> {(p, i). p \<in> set (deps i)}" by auto
    qed
    then obtain i where i: "(i, i) \<in> {(p, i). p \<in> set (deps i)}\<^sup>+" ..
    from tranclD [OF i] obtain j where "i \<in> set (deps j)" by blast
    with assms(2) have "i \<in> R" by blast
    with ok have "(i, i) \<notin> {(p, i). p \<in> set (deps i)}\<^sup>+" unfolding dfs_ok_def by blast
    with i show ?thesis by contradiction
  qed
qed

section \<open>Cycle detection\<close>

definition iter_order :: "(string list \<Rightarrow> string list) \<Rightarrow> bool" where
  "iter_order ord \<longleftrightarrow> (\<forall>xs. mset (ord xs) = mset xs)"

lemma iter_orderD: "iter_order ord \<Longrightarrow> set (ord xs) = set xs \<and> (distinct (ord xs) \<longleftrightarrow> distinct xs)"
  by (metis iter_order_def mset_eq_setD mset_eq_imp_distinct_iff)

definition deps_known :: "node_spec list \<Rightarrow> bool" where
  "deps_known ns \<longleftrightarrow> (\<forall>n \<in> set ns. dp_node ` set (ns_depends n) \<subseteq> ns_id ` set ns)"

lemma uncond_deps_subset: "set (uncond_deps n) \<subseteq> dp_node ` set (ns_depends n)"
  by (auto simp: uncond_deps_def)

lemma alist_wf_kahn_edge: "alist_wf (fst s) \<Longrightarrow> alist_wf (fst (foldl (kahn_edge i) s ps))"
proof (induction ps arbitrary: s)
  case (Cons p ps)
  have "alist_wf (fst (kahn_edge i s p))" using Cons.prems by (auto simp: kahn_edge_def split: prod.splits)
  with Cons.IH show ?case by simp
qed simp

lemma alist_wf_kahn_graph: "alist_wf (fst (kahn_graph ns))"
proof -
  have "alist_wf (fst s) \<Longrightarrow> alist_wf (fst (foldl kahn_node s ns))" for s
  proof (induction ns arbitrary: s)
    case (Cons n ns)
    obtain deg out where s: "s = (deg, out)" by fastforce
    have "alist_wf (fst (kahn_node s n))"
      using Cons.prems by (auto simp: s kahn_node_def intro!: alist_wf_kahn_edge)
    with Cons.IH show ?case by simp
  qed simp
  then show ?thesis by (simp add: kahn_graph_def)
qed

lemma kahn_start:
  assumes "distinct (map ns_id ns)" "deps_known ns" "iter_order ord"
  shows "dep_graph (ns_id ` set ns) (edges ns) (snd (kahn_graph ns))"
    "kahn_inv (ns_id ` set ns) (edges ns) {}
       (filter (\<lambda>i. degree (fst (kahn_graph ns)) i = 0) (ord (map fst (fst (kahn_graph ns)))))
       (fst (kahn_graph ns))"
proof -
  note g = kahn_graph_correct [OF assms(1)]
  have keys: "set (map fst (fst (kahn_graph ns))) = ns_id ` set ns" "distinct (map fst (fst (kahn_graph ns)))"
    using g alist_wf_kahn_graph [of ns] by (auto simp: dom_map_of_conv_image_fst alist_wf_def)
  have sub: "edges ns \<subseteq> ns_id ` set ns \<times> ns_id ` set ns"
    using assms(2) uncond_deps_subset by (fastforce simp: edges_def deps_known_def)
  have "distinct (successors (snd (kahn_graph ns)) q)" for q
    using g assms(1) by (simp add: distinct_map_filter)
  with sub g show "dep_graph (ns_id ` set ns) (edges ns) (snd (kahn_graph ns))"
    by (auto simp: dep_graph_def edges_def)
  have deg: "degree (fst (kahn_graph ns)) i = int (card {x. (x, i) \<in> edges ns})" if i: "i \<in> ns_id ` set ns" for i
  proof -
    from i obtain n where n: "n \<in> set ns" "i = ns_id n" by blast
    have "{x. (x, i) \<in> edges ns} = set (uncond_deps n)"
      using n assms(1) by (auto simp: edges_def distinct_map dest: inj_onD)
    moreover have "distinct (uncond_deps n)" by (simp add: uncond_deps_def)
    ultimately show ?thesis using g n by (simp add: distinct_card)
  qed
  show "kahn_inv (ns_id ` set ns) (edges ns) {}
       (filter (\<lambda>i. degree (fst (kahn_graph ns)) i = 0) (ord (map fst (fst (kahn_graph ns)))))
       (fst (kahn_graph ns))"
    using keys iter_orderD [OF assms(3)] deg by (simp add: kahn_inv_def)
qed

text \<open>What is left when the loop ends.\<close>

lemma kahn_result:
  assumes "distinct (map ns_id ns)" "deps_known ns" "iter_order ord"
  shows "fst (kahn ord ns) = length ns \<longleftrightarrow> acyclic (edges ns)"
    "\<forall>i \<in> ns_id ` set ns. degree (snd (kahn ord ns)) i > 0 \<longrightarrow>
       (\<exists>x \<in> ns_id ` set ns. (x, i) \<in> edges ns \<and> degree (snd (kahn ord ns)) x > 0)"
    "fst (kahn ord ns) \<noteq> length ns \<Longrightarrow> \<exists>i \<in> ns_id ` set ns. degree (snd (kahn ord ns)) i > 0"
proof -
  note G = kahn_start(1) [OF assms]
  obtain P where P: "fst (kahn ord ns) = card P" "kahn_inv (ns_id ` set ns) (edges ns) P [] (snd (kahn ord ns))"
    using kahn_loop_inv [OF G kahn_start(2) [OF assms] card.empty [symmetric]]
    unfolding kahn_def case_prod_beta by blast
  note fin = kahn_inv_final [OF G P(2)]
  have card: "card (ns_id ` set ns) = length ns" using assms(1) by (metis distinct_card length_map set_map)
  show "fst (kahn ord ns) = length ns \<longleftrightarrow> acyclic (edges ns)" using fin(1) P(1) card by simp
  show "\<forall>i \<in> ns_id ` set ns. degree (snd (kahn ord ns)) i > 0 \<longrightarrow>
       (\<exists>x \<in> ns_id ` set ns. (x, i) \<in> edges ns \<and> degree (snd (kahn ord ns)) x > 0)"
    using fin(2,3) by (metis DiffE)
  assume "fst (kahn ord ns) \<noteq> length ns"
  moreover have "P \<subseteq> ns_id ` set ns" using P(2) by (simp add: kahn_inv_def)
  ultimately have "P \<noteq> ns_id ` set ns" using card P(1) by auto
  with \<open>P \<subseteq> ns_id ` set ns\<close> obtain i where "i \<in> ns_id ` set ns" "i \<notin> P" by blast
  with fin(2) show "\<exists>i \<in> ns_id ` set ns. degree (snd (kahn ord ns)) i > 0" by blast
qed

text \<open>
  C17. Cycle detection is exact: for a definition with distinct node ids and known dependencies
  \<open>detectCycle\<close> reports nothing if and only if no node depends on itself through unconditional
  dependencies, whatever order Go iterates its maps in.
\<close>

theorem detect_cycle_exact:
  assumes "distinct (map ns_id ns)" "deps_known ns" "iter_order ord"
  shows "detect_cycle ord ns = None \<longleftrightarrow> acyclic (edges ns)"
proof -
  have "detect_cycle ord ns = None \<longleftrightarrow> fst (kahn ord ns) = length ns"
    by (auto simp: detect_cycle_def Let_def split: prod.splits option.splits list.splits)
  with kahn_result(1) [OF assms] show ?thesis by simp
qed

text \<open>
  The message names a real cycle: when \<open>detectCycle\<close> reports an error, it is a path, not the
  fallback, of at least two entries that ends where it starts and whose consecutive nodes are
  dependencies of one another.
\<close>

lemma cycle_path_real:
  assumes "distinct (map ns_id ns)" "deps_known ns" "iter_order ord" "detect_cycle ord ns = Some e"
  shows "\<exists>c. e = CyclePath c \<and>
    closed_walk (\<lambda>i. concat (map (\<lambda>n. if ns_id n = i then map dp_node (ns_depends n) else []) ns)) c"
proof -
  define remaining where "remaining = remdups (filter (\<lambda>i. degree (snd (kahn ord ns)) i > 0) (map ns_id ns))"
  let ?deps = "cycle_deps remaining ns"
  have ne: "fst (kahn ord ns) \<noteq> length ns" using assms(4) by (auto simp: detect_cycle_def split: prod.splits)
  have "?deps v \<noteq> []" if "v \<in> set remaining" for v
  proof -
    from that kahn_result(2) [OF assms(1-3)] obtain x where x: "x \<in> set remaining" "(x, v) \<in> edges ns"
      unfolding remaining_def by auto
    then obtain n where "n \<in> set ns" "ns_id n = v" "x \<in> set (uncond_deps n)"
      by (auto simp: edges_def)
    with uncond_deps_subset [of n] x that have "x \<in> set (?deps v)" by (auto simp: cycle_deps_def)
    then show ?thesis by auto
  qed
  moreover have "set (?deps v) \<subseteq> set remaining" for v by (auto simp: cycle_deps_def)
  moreover have "set remaining \<noteq> {}" using kahn_result(3) [OF assms(1-3) ne] by (auto simp: remaining_def)
  moreover have "card (set remaining) < Suc (length remaining)" by (simp add: card_length less_Suc_eq_le)
  ultimately obtain c where c: "find_cycle_path ord remaining ns = Some c" "closed_walk ?deps c"
    using dfs_finds [of "set remaining" ?deps "ord remaining" "Suc (length remaining)"] iter_orderD [OF assms(3)]
    by (auto simp: find_cycle_path_def)
  then have "c \<noteq> []" by (auto simp: closed_walk_def)
  then have "e = CyclePath c" using c(1) assms(4) ne
    by (auto simp: detect_cycle_def Let_def remaining_def split: prod.splits list.splits)
  moreover have "closed_walk (\<lambda>i. concat (map (\<lambda>n. if ns_id n = i then map dp_node (ns_depends n) else []) ns)) c"
    using c(2) unfolding closed_walk_def
    by (auto elim!: successively_mono simp: cycle_deps_def split: if_splits)
  ultimately show ?thesis by blast
qed

end
