(* ===== verification/WfLoops.thy ===== *)
theory WfLoops
  imports WfTypes
begin

text \<open>
  The static checks of the loop metadata (\<open>validateLoops\<close> of
  \<open>pkg/workflowspec/definition.go\<close>) and what a definition that passes them looks like. \<open>None\<close> is
  the absence of an error.
\<close>

datatype loop_error =
    LoopIdEmpty | LoopDuplicate string | LoopNoNodes string | LoopUnknownNode string string
  | LoopDuplicateNode string string | LoopNegative string | LoopUnlimitedFallback string
  | LoopUnknownFallback string string | LoopUnknownParent string string
  | LoopParentCycle string string | LoopNotInParent string string string
  | LoopsShare string string string | EdgeBothLoops string string | EdgeUnknownCounts string string
  | EdgeCountsOutside string string string | EdgeUnknownResets string string
  | EdgeResetsOutside string string | LoopUncounted string | FallbackInLoop string string string
  | ChainEndless string

fun loop_nodes_check :: "string set \<Rightarrow> string \<Rightarrow> string list \<Rightarrow> string list \<Rightarrow> loop_error option" where
  "loop_nodes_check ids lid seen [] = None"
| "loop_nodes_check ids lid seen (i # rest) =
     (if i \<notin> ids then Some (LoopUnknownNode lid i)
      else if i \<in> set seen then Some (LoopDuplicateNode lid i)
      else loop_nodes_check ids lid (i # seen) rest)"

definition loop_limits_check :: "string set \<Rightarrow> loop_spec \<Rightarrow> loop_error option" where
  "loop_limits_check ids l =
     (if lo_max l < 0 then Some (LoopNegative (lo_id l))
      else if lo_max l = 0 \<and> lo_exhausted l \<noteq> [] then Some (LoopUnlimitedFallback (lo_id l))
      else if lo_exhausted l \<noteq> [] \<and> lo_exhausted l \<notin> ids
        then Some (LoopUnknownFallback (lo_id l) (lo_exhausted l))
      else None)"

fun loop_heads :: "string set \<Rightarrow> string list \<Rightarrow> loop_spec list \<Rightarrow> loop_error option" where
  "loop_heads ids seen [] = None"
| "loop_heads ids seen (l # ls) =
     (if lo_id l = [] then Some LoopIdEmpty
      else if lo_id l \<in> set seen then Some (LoopDuplicate (lo_id l))
      else if lo_nodes l = [] then Some (LoopNoNodes (lo_id l))
      else (case loop_nodes_check ids (lo_id l) [] (lo_nodes l) of
          Some e \<Rightarrow> Some e
        | None \<Rightarrow> (case loop_limits_check ids l of
              Some e \<Rightarrow> Some e
            | None \<Rightarrow> loop_heads ids (lo_id l # seen) ls)))"

text \<open>The walk up the parents of a loop; the result is the loop at which it came back.\<close>

function parent_walk :: "loop_spec list \<Rightarrow> string list \<Rightarrow> string \<Rightarrow> string option" where
  "parent_walk ls seen cur =
     (if cur = [] then None
      else if cur \<in> set seen then Some cur
      else (case last_by lo_id ls cur of
          Some l \<Rightarrow> parent_walk ls (cur # seen) (lo_parent l)
        | None \<Rightarrow> None))"
  by pat_completeness auto
termination
proof (relation "measure (\<lambda>(ls, seen, _). length (filter (\<lambda>l. lo_id l \<notin> set seen) ls))", goal_cases)
  case (2 ls seen cur l)
  then have l: "l \<in> set ls" "lo_id l = cur" by (auto dest: last_by_SomeD)
  have "length (filter (\<lambda>k. lo_id k \<notin> set (cur # seen)) ls) < length (filter (\<lambda>k. lo_id k \<notin> set seen) ls)"
    using l 2(2)
  proof (induction ls)
    case (Cons k ks)
    have "length (filter (\<lambda>k. lo_id k \<notin> set (cur # seen)) ks) \<le> length (filter (\<lambda>k. lo_id k \<notin> set seen) ks)"
      by (induction ks) auto
    with Cons show ?case by auto
  qed simp
  then show ?case by simp
qed simp

declare parent_walk.simps [simp del]

definition parent_check :: "loop_spec list \<Rightarrow> loop_spec \<Rightarrow> loop_error option" where
  "parent_check ls l =
     (if lo_parent l = [] then None
      else (case last_by lo_id ls (lo_parent l) of
          None \<Rightarrow> Some (LoopUnknownParent (lo_id l) (lo_parent l))
        | Some p \<Rightarrow>
            (case parent_walk ls [lo_id l] (lo_parent l) of
               Some c \<Rightarrow> Some (LoopParentCycle (lo_id l) c)
             | None \<Rightarrow>
                 (case find (\<lambda>i. i \<notin> set (lo_nodes p)) (lo_nodes l) of
                    Some i \<Rightarrow> Some (LoopNotInParent (lo_id l) i (lo_id p))
                  | None \<Rightarrow> None))))"

text \<open>
  \<open>loopInChain\<close> has no guard against a cycle of parents, so its walk carries fuel; that it never
  runs out where the code calls it is proved below.
\<close>

fun in_chain :: "loop_spec list \<Rightarrow> nat \<Rightarrow> string \<Rightarrow> string \<Rightarrow> bool option" where
  "in_chain ls 0 cur target = None"
| "in_chain ls (Suc f) cur target =
     (if cur = [] then Some False
      else if cur = target then Some True
      else (case last_by lo_id ls cur of
          Some l \<Rightarrow> in_chain ls f (lo_parent l) target
        | None \<Rightarrow> Some False))"

definition loop_in_chain :: "loop_spec list \<Rightarrow> loop_spec \<Rightarrow> string \<Rightarrow> bool option" where
  "loop_in_chain ls l target = in_chain ls (Suc (length ls)) (lo_parent l) target"

definition loops_related :: "loop_spec list \<Rightarrow> loop_spec \<Rightarrow> loop_spec \<Rightarrow> bool option" where
  "loops_related ls a b =
     (case loop_in_chain ls a (lo_id b) of
        None \<Rightarrow> None | Some True \<Rightarrow> Some True | Some False \<Rightarrow> loop_in_chain ls b (lo_id a))"

definition share_check :: "loop_spec list \<Rightarrow> loop_spec \<Rightarrow> loop_spec \<Rightarrow> loop_error option" where
  "share_check ls a b =
     (case loops_related ls a b of
        None \<Rightarrow> Some (ChainEndless (lo_id a))
      | Some True \<Rightarrow> None
      | Some False \<Rightarrow> map_option (LoopsShare (lo_id a) (lo_id b))
          (find (\<lambda>i. i \<in> set (lo_nodes b)) (lo_nodes a)))"

fun shares_check :: "loop_spec list \<Rightarrow> loop_spec list \<Rightarrow> loop_error option" where
  "shares_check all [] = None"
| "shares_check all (a # ls) =
     (case find_map (share_check all a) ls of Some e \<Rightarrow> Some e | None \<Rightarrow> shares_check all ls)"

definition loop_contains_node :: "loop_spec \<Rightarrow> string \<Rightarrow> bool" where
  "loop_contains_node l i \<longleftrightarrow> list_ex (\<lambda>k. k = i) (lo_nodes l)"

definition edge_check :: "loop_spec list \<Rightarrow> node_spec \<Rightarrow> node_dep \<Rightarrow> loop_error option" where
  "edge_check ls n e =
     (if dp_counts e \<noteq> [] \<and> dp_resets e \<noteq> [] then Some (EdgeBothLoops (ns_id n) (dp_node e))
      else
        let counts =
          (if dp_counts e = [] then None
           else (case last_by lo_id ls (dp_counts e) of
               None \<Rightarrow> Some (EdgeUnknownCounts (ns_id n) (dp_counts e))
             | Some l \<Rightarrow>
                 if loop_contains_node l (dp_node e) \<and> loop_contains_node l (ns_id n) then None
                 else Some (EdgeCountsOutside (ns_id n) (lo_id l) (dp_node e))));
          resets =
          (if dp_resets e = [] then None
           else (case last_by lo_id ls (dp_resets e) of
               None \<Rightarrow> Some (EdgeUnknownResets (ns_id n) (dp_resets e))
             | Some l \<Rightarrow> if loop_contains_node l (ns_id n) then None
                 else Some (EdgeResetsOutside (ns_id n) (lo_id l))))
        in (case counts of Some x \<Rightarrow> Some x | None \<Rightarrow> resets))"

definition counted_check :: "node_spec list \<Rightarrow> loop_spec \<Rightarrow> loop_error option" where
  "counted_check ns l =
     (if list_ex (\<lambda>n. list_ex (\<lambda>e. dp_counts e = lo_id l) (ns_depends n)) ns then None
      else Some (LoopUncounted (lo_id l)))"

text \<open>The owner of a node is the last loop that lists it.\<close>

definition fallback_check :: "loop_spec list \<Rightarrow> loop_spec \<Rightarrow> loop_error option" where
  "fallback_check ls l =
     (if lo_exhausted l = [] then None
      else map_option (\<lambda>k. FallbackInLoop (lo_id l) (lo_exhausted l) (lo_id k))
        (find (\<lambda>k. lo_exhausted l \<in> set (lo_nodes k)) (rev ls)))"

definition validate_loops :: "wf_def \<Rightarrow> loop_error option" where
  "validate_loops d =
     (let ls = wd_loops d; ns = wd_nodes d in
      first_error
        [loop_heads (ns_id ` set ns) [] ls,
         find_map (parent_check ls) ls,
         shares_check ls ls,
         find_map (\<lambda>n. find_map (edge_check ls n) (ns_depends n)) ns,
         find_map (counted_check ns) ls,
         find_map (fallback_check ls) ls])"

section \<open>What the checks establish\<close>

text \<open>The parent relation: a loop that names a parent has an edge from it.\<close>

definition parents :: "loop_spec list \<Rightarrow> (string \<times> string) set" where
  "parents ls = {(lo_parent l, lo_id l) | l. l \<in> set ls \<and> lo_parent l \<noteq> []}"

lemma parents_nonempty: "(p, i) \<in> parents ls \<Longrightarrow> p \<noteq> []"
  by (auto simp: parents_def)

lemma loop_nodes_check_None:
  "loop_nodes_check ids lid seen is = None \<Longrightarrow> set is \<subseteq> ids \<and> distinct is \<and> set is \<inter> set seen = {}"
proof (induction "is" arbitrary: seen)
  case (Cons i "is")
  then have "i \<in> ids" "i \<notin> set seen" "loop_nodes_check ids lid (i # seen) is = None" by (auto split: if_splits)
  with Cons.IH [of "i # seen"] show ?case by auto
qed simp

lemma loop_heads_None:
  "loop_heads ids seen ls = None \<Longrightarrow>
   distinct (map lo_id ls) \<and> lo_id ` set ls \<inter> set seen = {} \<and>
   (\<forall>l \<in> set ls. lo_id l \<noteq> [] \<and> lo_nodes l \<noteq> [] \<and> set (lo_nodes l) \<subseteq> ids \<and> distinct (lo_nodes l)
      \<and> loop_limits_check ids l = None)"
proof (induction ls arbitrary: seen)
  case (Cons l ls)
  then have "loop_nodes_check ids (lo_id l) [] (lo_nodes l) = None" "loop_limits_check ids l = None"
    "loop_heads ids (lo_id l # seen) ls = None" "lo_id l \<noteq> []" "lo_id l \<notin> set seen" "lo_nodes l \<noteq> []"
    by (auto split: if_splits option.splits)
  with Cons.IH [of "lo_id l # seen"] loop_nodes_check_None [of ids "lo_id l" "[]" "lo_nodes l"]
  show ?case by auto
qed simp

lemma parent_unique:
  "distinct (map lo_id ls) \<Longrightarrow> (p, lo_id l) \<in> parents ls \<Longrightarrow> l \<in> set ls \<Longrightarrow> p = lo_parent l \<and> p \<noteq> []"
  by (auto simp: parents_def distinct_map dest: inj_onD)

lemma parent_walk_None:
  "parent_walk ls seen cur = None \<Longrightarrow> distinct (map lo_id ls) \<Longrightarrow> cur \<noteq> [] \<Longrightarrow>
   (x, cur) \<in> (parents ls)\<^sup>* \<Longrightarrow> x \<notin> set seen"
proof (induction ls seen cur rule: parent_walk.induct)
  case (1 ls seen cur)
  from "1.prems"(1,3) have c: "cur \<notin> set seen"
    by (subst (asm) parent_walk.simps) (auto split: if_splits)
  show ?case
  proof (cases "x = cur")
    case False
    with "1.prems"(4) obtain p where p: "(x, p) \<in> (parents ls)\<^sup>*" "(p, cur) \<in> parents ls"
      by (meson rtranclE)
    then obtain l where l: "l \<in> set ls" "cur = lo_id l" "p = lo_parent l" "p \<noteq> []"
      by (auto simp: parents_def)
    then have f: "last_by lo_id ls cur = Some l" using "1.prems"(2) by (simp add: last_by_distinct)
    have "parent_walk ls (cur # seen) (lo_parent l) = None"
      using "1.prems"(1,3) c f by (subst (asm) parent_walk.simps) simp
    from "1.IH" [OF "1.prems"(3) c f this "1.prems"(2)] l p show ?thesis by simp
  qed (use c in simp)
qed

lemma parents_acyclic:
  assumes "distinct (map lo_id ls)" "find_map (parent_check ls) ls = None"
  shows "acyclic (parents ls)"
proof (unfold acyclic_def, intro allI notI)
  fix i assume "(i, i) \<in> (parents ls)\<^sup>+"
  then obtain p where p: "(i, p) \<in> (parents ls)\<^sup>*" "(p, i) \<in> parents ls" by (meson tranclD2)
  then obtain l where l: "l \<in> set ls" "i = lo_id l" "p = lo_parent l" "p \<noteq> []" by (auto simp: parents_def)
  then have "parent_walk ls [i] p = None"
    using assms(2) by (fastforce simp: find_map_None parent_check_def split: option.splits)
  from parent_walk_None [OF this assms(1) l(4) p(1)] show False by simp
qed

text \<open>Without cycles the fuel of the chain walk is enough.\<close>

lemma in_chain_total:
  assumes "distinct (map lo_id ls)" "acyclic (parents ls)"
  shows "card {l \<in> set ls. (lo_id l, cur) \<in> (parents ls)\<^sup>*} < f \<Longrightarrow>
    in_chain ls f cur t = Some (t \<noteq> [] \<and> cur \<noteq> [] \<and> (t, cur) \<in> (parents ls)\<^sup>*)"
proof (induction f arbitrary: cur)
  case (Suc f)
  have anc: "\<exists>l \<in> set ls. lo_id l = c \<and> (t', lo_parent l) \<in> (parents ls)\<^sup>* \<and> lo_parent l \<noteq> []"
    if "(t', c) \<in> (parents ls)\<^sup>*" "t' \<noteq> c" for t' c
  proof -
    from that obtain p where "(t', p) \<in> (parents ls)\<^sup>*" "(p, c) \<in> parents ls" by (meson rtranclE)
    then show ?thesis unfolding parents_def by blast
  qed
  consider "cur = []" | "cur \<noteq> []" "cur = t" | "cur \<noteq> []" "cur \<noteq> t" "last_by lo_id ls cur = None"
    | l where "cur \<noteq> []" "cur \<noteq> t" "last_by lo_id ls cur = Some l" by (meson not_Some_eq)
  then show ?case
  proof cases
    case 3
    then have "(t, cur) \<notin> (parents ls)\<^sup>*" using anc by (force simp: last_by_None)
    with 3 show ?thesis by simp
  next
    case (4 l)
    then have l: "l \<in> set ls" "cur = lo_id l" by (auto dest: last_by_SomeD)
    show ?thesis
    proof (cases "lo_parent l = []")
      case True
      have "(t, cur) \<notin> (parents ls)\<^sup>*"
      proof
        assume "(t, cur) \<in> (parents ls)\<^sup>*"
        with anc 4 obtain k where "k \<in> set ls" "lo_id k = cur" "lo_parent k \<noteq> []" by blast
        with l True assms(1) show False by (auto simp: distinct_map dest: inj_onD)
      qed
      moreover have "in_chain ls f [] t = Some False"
      proof -
        have "l \<in> {k \<in> set ls. (lo_id k, cur) \<in> (parents ls)\<^sup>*}" using l by simp
        then have "0 < card {k \<in> set ls. (lo_id k, cur) \<in> (parents ls)\<^sup>*}"
          by (subst card_gt_0_iff) (rule conjI, blast, simp)
        with Suc.prems have "0 < f" by linarith
        then show ?thesis by (cases f) simp_all
      qed
      ultimately show ?thesis using 4 True by simp
    next
      case False
      then have e: "(lo_parent l, cur) \<in> parents ls" using l by (auto simp: parents_def)
      have sub: "{k \<in> set ls. (lo_id k, lo_parent l) \<in> (parents ls)\<^sup>*} \<subseteq> {k \<in> set ls. (lo_id k, cur) \<in> (parents ls)\<^sup>*}"
        using e by (auto intro: rtrancl_into_rtrancl)
      moreover have "l \<notin> {k \<in> set ls. (lo_id k, lo_parent l) \<in> (parents ls)\<^sup>*}"
        using assms(2) e l by (auto simp: acyclic_def dest: rtrancl_into_trancl1)
      moreover have "l \<in> {k \<in> set ls. (lo_id k, cur) \<in> (parents ls)\<^sup>*}" using l by simp
      ultimately have "{k \<in> set ls. (lo_id k, lo_parent l) \<in> (parents ls)\<^sup>*} \<subset> {k \<in> set ls. (lo_id k, cur) \<in> (parents ls)\<^sup>*}"
        by blast
      then have "card {k \<in> set ls. (lo_id k, lo_parent l) \<in> (parents ls)\<^sup>*}
          < card {k \<in> set ls. (lo_id k, cur) \<in> (parents ls)\<^sup>*}"
        by (rule psubset_card_mono [rotated]) simp
      with Suc.prems have "card {k \<in> set ls. (lo_id k, lo_parent l) \<in> (parents ls)\<^sup>*} < f" by linarith
      from Suc.IH [OF this] have "in_chain ls f (lo_parent l) t =
        Some (t \<noteq> [] \<and> lo_parent l \<noteq> [] \<and> (t, lo_parent l) \<in> (parents ls)\<^sup>*)" .
      moreover have "(t, lo_parent l) \<in> (parents ls)\<^sup>* \<longleftrightarrow> (t, cur) \<in> (parents ls)\<^sup>*"
      proof
        assume "(t, cur) \<in> (parents ls)\<^sup>*"
        with anc 4 obtain k where "k \<in> set ls" "lo_id k = cur" "(t, lo_parent k) \<in> (parents ls)\<^sup>*" by blast
        with l assms(1) show "(t, lo_parent l) \<in> (parents ls)\<^sup>*" by (auto simp: distinct_map dest: inj_onD)
      qed (use e in \<open>auto intro: rtrancl_into_rtrancl\<close>)
      moreover have "t \<noteq> []" if "(t, cur) \<in> (parents ls)\<^sup>*"
        using that 4(2) by (metis converse_rtranclE parents_nonempty)
      ultimately show ?thesis using 4 False by auto
    qed
  qed (use Suc in auto)
qed simp

lemma loop_in_chain_iff:
  assumes "distinct (map lo_id ls)" "acyclic (parents ls)" "l \<in> set ls" "t \<noteq> []"
  shows "loop_in_chain ls l t = Some ((t, lo_id l) \<in> (parents ls)\<^sup>+)"
proof -
  have "card {k \<in> set ls. (lo_id k, lo_parent l) \<in> (parents ls)\<^sup>*} \<le> card (set ls)" by (intro card_mono) auto
  also have "\<dots> < Suc (length ls)" by (simp add: card_length less_Suc_eq_le)
  finally have "loop_in_chain ls l t = Some (lo_parent l \<noteq> [] \<and> (t, lo_parent l) \<in> (parents ls)\<^sup>*)"
    unfolding loop_in_chain_def using in_chain_total [OF assms(1,2), of "lo_parent l" "Suc (length ls)" t] assms(4)
    by (simp del: in_chain.simps)
  moreover have "lo_parent l \<noteq> [] \<and> (t, lo_parent l) \<in> (parents ls)\<^sup>* \<longleftrightarrow> (t, lo_id l) \<in> (parents ls)\<^sup>+"
  proof
    assume "lo_parent l \<noteq> [] \<and> (t, lo_parent l) \<in> (parents ls)\<^sup>*"
    then show "(t, lo_id l) \<in> (parents ls)\<^sup>+"
      using assms(3) by (intro rtrancl_into_trancl1) (auto simp: parents_def)
  next
    assume "(t, lo_id l) \<in> (parents ls)\<^sup>+"
    then obtain p where "(t, p) \<in> (parents ls)\<^sup>*" "(p, lo_id l) \<in> parents ls" by (meson tranclD2)
    with parent_unique [OF assms(1) _ assms(3)] show "lo_parent l \<noteq> [] \<and> (t, lo_parent l) \<in> (parents ls)\<^sup>*"
      by blast
  qed
  ultimately show ?thesis by simp
qed

lemma loops_related_iff:
  assumes "distinct (map lo_id ls)" "acyclic (parents ls)" "a \<in> set ls" "b \<in> set ls" "lo_id a \<noteq> []" "lo_id b \<noteq> []"
  shows "loops_related ls a b = Some ((lo_id b, lo_id a) \<in> (parents ls)\<^sup>+ \<or> (lo_id a, lo_id b) \<in> (parents ls)\<^sup>+)"
  using loop_in_chain_iff [OF assms(1,2)] assms(3-6) by (simp add: loops_related_def split: bool.splits)

lemma shares_check_None:
  "shares_check all ls = None \<Longrightarrow> distinct ls \<Longrightarrow> a \<in> set ls \<Longrightarrow> b \<in> set ls \<Longrightarrow> a \<noteq> b \<Longrightarrow>
   share_check all a b = None \<or> share_check all b a = None"
  by (induction ls) (auto simp: find_map_None split: option.splits)

lemma child_nodes:
  assumes "distinct (map lo_id ls)" "find_map (parent_check ls) ls = None" "(p, c) \<in> parents ls"
  shows "\<exists>a \<in> set ls. \<exists>b \<in> set ls. lo_id a = p \<and> lo_id b = c \<and> set (lo_nodes b) \<subseteq> set (lo_nodes a)"
proof -
  from assms(3) obtain b where b: "b \<in> set ls" "c = lo_id b" "p = lo_parent b" "p \<noteq> []" by (auto simp: parents_def)
  with assms(2) have "parent_check ls b = None" by (simp add: find_map_None)
  with b obtain a where a: "last_by lo_id ls p = Some a" "find (\<lambda>i. i \<notin> set (lo_nodes a)) (lo_nodes b) = None"
    by (auto simp: parent_check_def split: option.splits)
  with b last_by_SomeD [OF a(1)] show ?thesis by (auto simp: find_None)
qed

lemma descendant_nodes:
  assumes "distinct (map lo_id ls)" "find_map (parent_check ls) ls = None" "(lo_id a, i) \<in> (parents ls)\<^sup>+"
    "a \<in> set ls" "b \<in> set ls" "lo_id b = i"
  shows "set (lo_nodes b) \<subseteq> set (lo_nodes a)"
  using assms(3,5,6)
proof (induction arbitrary: b rule: trancl_induct)
  case (base y)
  with child_nodes [OF assms(1,2) base(1)] assms(1,4) show ?case
    by (metis last_by_distinct option.inject)
next
  case (step y z)
  from child_nodes [OF assms(1,2) step(2)] obtain k where "k \<in> set ls" "lo_id k = y" "set (lo_nodes b) \<subseteq> set (lo_nodes k)"
    using assms(1) step.prems by (metis last_by_distinct option.inject)
  with step.IH show ?case by blast
qed

lemmas validate_loops_parts = validate_loops_def Let_def first_error_None

lemma validate_loops_None:
  assumes "validate_loops d = None"
  shows "distinct (map lo_id (wd_loops d))" "find_map (parent_check (wd_loops d)) (wd_loops d) = None"
    "shares_check (wd_loops d) (wd_loops d) = None"
    "\<forall>l \<in> set (wd_loops d). lo_id l \<noteq> [] \<and> set (lo_nodes l) \<subseteq> ns_id ` set (wd_nodes d)
       \<and> loop_limits_check (ns_id ` set (wd_nodes d)) l = None \<and> fallback_check (wd_loops d) l = None
       \<and> counted_check (wd_nodes d) l = None"
    "\<forall>n \<in> set (wd_nodes d). \<forall>e \<in> set (ns_depends n). edge_check (wd_loops d) n e = None"
  using assms loop_heads_None [of "ns_id ` set (wd_nodes d)" "[]" "wd_loops d"]
  unfolding validate_loops_parts by (simp_all add: find_map_None)

text \<open>
  C18. Validated loops are nested scopes: their parent relation has no cycle, two loops that share
  a node are ancestor and descendant and the descendant's nodes are nodes of the ancestor, the
  target of an exhausted loop is a node outside all loops and its loop has a quota, and a counting
  edge has both its ends inside the loop it counts.
\<close>

theorem validated_loops_nest:
  assumes "validate_loops d = None"
  shows "acyclic (parents (wd_loops d))
    \<and> (\<forall>a \<in> set (wd_loops d). \<forall>b \<in> set (wd_loops d). a \<noteq> b \<longrightarrow> set (lo_nodes a) \<inter> set (lo_nodes b) \<noteq> {} \<longrightarrow>
        ((lo_id a, lo_id b) \<in> (parents (wd_loops d))\<^sup>+ \<and> set (lo_nodes b) \<subseteq> set (lo_nodes a))
        \<or> ((lo_id b, lo_id a) \<in> (parents (wd_loops d))\<^sup>+ \<and> set (lo_nodes a) \<subseteq> set (lo_nodes b)))
    \<and> (\<forall>l \<in> set (wd_loops d). lo_exhausted l \<noteq> [] \<longrightarrow> 0 < lo_max l \<and> lo_exhausted l \<in> ns_id ` set (wd_nodes d)
        \<and> (\<forall>k \<in> set (wd_loops d). lo_exhausted l \<notin> set (lo_nodes k)))
    \<and> (\<forall>n \<in> set (wd_nodes d). \<forall>e \<in> set (ns_depends n). dp_counts e \<noteq> [] \<longrightarrow>
        (\<exists>l \<in> set (wd_loops d). lo_id l = dp_counts e \<and> {dp_node e, ns_id n} \<subseteq> set (lo_nodes l)))"
    (is "?acyclic \<and> ?nested \<and> ?fallback \<and> ?edges")
proof (intro conjI)
  note v = validate_loops_None [OF assms]
  show ac: ?acyclic by (rule parents_acyclic [OF v(1,2)])
  show ?nested
  proof (intro ballI impI)
    fix a b assume ab: "a \<in> set (wd_loops d)" "b \<in> set (wd_loops d)" "a \<noteq> b" "set (lo_nodes a) \<inter> set (lo_nodes b) \<noteq> {}"
    have "distinct (wd_loops d)" using v(1) by (simp add: distinct_map)
    from shares_check_None [OF v(3) this ab(1-3)] have
      "(lo_id b, lo_id a) \<in> (parents (wd_loops d))\<^sup>+ \<or> (lo_id a, lo_id b) \<in> (parents (wd_loops d))\<^sup>+"
      using loops_related_iff [OF v(1) ac] v(4) ab
      by (auto simp: share_check_def find_None split: option.splits bool.splits)
    then show "((lo_id a, lo_id b) \<in> (parents (wd_loops d))\<^sup>+ \<and> set (lo_nodes b) \<subseteq> set (lo_nodes a))
        \<or> ((lo_id b, lo_id a) \<in> (parents (wd_loops d))\<^sup>+ \<and> set (lo_nodes a) \<subseteq> set (lo_nodes b))"
      using descendant_nodes [OF v(1,2)] ab(1,2) by blast
  qed
  show ?fallback
    using v(4) by (force simp: loop_limits_check_def fallback_check_def find_None split: if_splits)
  show ?edges
  proof (intro ballI impI)
    fix n e assume "n \<in> set (wd_nodes d)" "e \<in> set (ns_depends n)" "dp_counts e \<noteq> []"
    with v(5) have "edge_check (wd_loops d) n e = None" by blast
    with \<open>dp_counts e \<noteq> []\<close> obtain l where "last_by lo_id (wd_loops d) (dp_counts e) = Some l"
      "loop_contains_node l (dp_node e)" "loop_contains_node l (ns_id n)"
      by (auto simp: edge_check_def Let_def split: if_splits option.splits)
    then show "\<exists>l \<in> set (wd_loops d). lo_id l = dp_counts e \<and> {dp_node e, ns_id n} \<subseteq> set (lo_nodes l)"
      by (auto simp: loop_contains_node_def list_ex_iff dest: last_by_SomeD)
  qed
qed

text \<open>
  The validation returns: the walks up the parents have no guard against a cycle of their own,
  but they only start once the parents have been checked, so on no definition do they go on
  forever.
\<close>

lemma validate_loops_returns: "validate_loops d \<noteq> Some (ChainEndless i)"
proof -
  let ?ls = "wd_loops d" and ?ids = "ns_id ` set (wd_nodes d)"
  have nodes: "loop_nodes_check ids l seen is \<noteq> Some (ChainEndless i)" for ids l seen "is"
    by (induction "is" arbitrary: seen) auto
  have heads: "loop_heads ids seen ls \<noteq> Some (ChainEndless i)" for ids seen ls
    by (induction ls arbitrary: seen) (auto simp: nodes loop_limits_check_def split: option.splits)
  have par: "parent_check ?ls l \<noteq> Some (ChainEndless i)" for l
    by (auto simp: parent_check_def split: option.splits)
  have edge: "edge_check ?ls n e \<noteq> Some (ChainEndless i)" for n e
    by (auto simp: edge_check_def Let_def split: option.splits)
  have shares: "shares_check ?ls ?ls \<noteq> Some (ChainEndless i)"
    if h: "loop_heads ?ids [] ?ls = None" and p: "find_map (parent_check ?ls) ?ls = None"
  proof -
    note hd = loop_heads_None [OF h]
    note rel = loops_related_iff [OF _ parents_acyclic [OF _ p]]
    have ab: "share_check ?ls a b \<noteq> Some (ChainEndless i)" if "a \<in> set ?ls" "b \<in> set ?ls" for a b
      using rel [of a b] hd that by (auto simp: share_check_def split: bool.splits)
    have "shares_check ?ls ks \<noteq> Some (ChainEndless i)" if "set ks \<subseteq> set ?ls" for ks
      using that
    proof (induction ks)
      case (Cons a ks)
      then have "find_map (share_check ?ls a) ks \<noteq> Some (ChainEndless i)" using ab by (auto dest!: find_map_Some)
      with Cons show ?case by (auto split: option.splits)
    qed simp
    then show ?thesis by simp
  qed
  show ?thesis
    using heads shares
    by (auto simp: validate_loops_def Let_def par edge counted_check_def fallback_check_def
        split: option.splits if_splits dest!: find_map_Some)
qed

end
