(* ===== verification/WfPairing.thy ===== *)
theory WfPairing
  imports WfTypes
begin

text \<open>
  Heterogeneous model pairing (\<open>pkg/workflowspec/model_pairing.go\<close>): the structural checks, the
  coverage of the actors' targets, and the lookups the scheduler makes at run time.
\<close>

datatype pairing_error =
    PairIdEmpty | PairDuplicate string | PairNoActors string | PairUnknownActor string string
  | PairActorType string string | PairSelf string string | PairReviewerActs string string string
  | PairTwice string string | PairOwned string string string | PairNoReviewer string
  | PairUnknownReviewer string string | PairReviewerType string string
  | PairTwoGroups string string string | PairNoEntries string | PairIncompleteActor string
  | PairDuplicateActor string pair_target | PairEmptyList string pair_target
  | PairIncompleteReviewer string pair_target | CoverUnknownAgent string string string
  | CoverMissing string string pair_target

definition incomplete :: "pair_target \<Rightarrow> bool" where
  "incomplete t \<longleftrightarrow> pt_cli t = [] \<or> pt_model t = []"

text \<open>The first group that names the node as its reviewer.\<close>

definition reviewer_group :: "pairing_spec list \<Rightarrow> string \<Rightarrow> string option" where
  "reviewer_group gs i =
     (if i = [] then None else map_option mp_id (find (\<lambda>g. mp_reviewer g = i) gs))"

type_synonym owners = "((string \<times> string) \<times> string) list"

definition actor_check :: "wf_def \<Rightarrow> pairing_spec \<Rightarrow> string \<Rightarrow> owners \<Rightarrow> pairing_error option" where
  "actor_check d g a own =
     (case node_by_id d a of
        None \<Rightarrow> Some (PairUnknownActor (mp_id g) a)
      | Some n \<Rightarrow>
          if ns_type n \<noteq> NtAgent then Some (PairActorType (mp_id g) a)
          else if a = mp_reviewer g then Some (PairSelf (mp_id g) a)
          else (case reviewer_group (wd_pairings d) a of
              Some o' \<Rightarrow> if o' \<noteq> mp_id g then Some (PairReviewerActs a o' (mp_id g)) else
                (case map_of own (a, mp_reviewer g) of
                   Some o2 \<Rightarrow> Some (if o2 = mp_id g then PairTwice o2 a else PairOwned a o2 (mp_id g))
                 | None \<Rightarrow> None)
            | None \<Rightarrow>
                (case map_of own (a, mp_reviewer g) of
                   Some o2 \<Rightarrow> Some (if o2 = mp_id g then PairTwice o2 a else PairOwned a o2 (mp_id g))
                 | None \<Rightarrow> None)))"

fun actors_check :: "wf_def \<Rightarrow> pairing_spec \<Rightarrow> string list \<Rightarrow> owners \<Rightarrow> pairing_error + owners" where
  "actors_check d g [] own = Inr own"
| "actors_check d g (a # as) own =
     (case actor_check d g a own of
        Some e \<Rightarrow> Inl e
      | None \<Rightarrow> actors_check d g as (((a, mp_reviewer g), mp_id g) # own))"

fun entries_check :: "string \<Rightarrow> pair_target list \<Rightarrow> pair_entry list \<Rightarrow> pairing_error option" where
  "entries_check gid seen [] = None"
| "entries_check gid seen (p # ps) =
     (if incomplete (pe_actor p) then Some (PairIncompleteActor gid)
      else if pe_actor p \<in> set seen then Some (PairDuplicateActor gid (pe_actor p))
      else if pe_reviewer p = [] then Some (PairEmptyList gid (pe_actor p))
      else if list_ex incomplete (pe_reviewer p) then Some (PairIncompleteReviewer gid (pe_actor p))
      else entries_check gid (pe_actor p # seen) ps)"

definition reviewer_check :: "wf_def \<Rightarrow> pairing_spec \<Rightarrow> (string \<times> string) list \<Rightarrow> pairing_error option" where
  "reviewer_check d g revs =
     (if mp_reviewer g = [] then Some (PairNoReviewer (mp_id g))
      else (case node_by_id d (mp_reviewer g) of
          None \<Rightarrow> Some (PairUnknownReviewer (mp_id g) (mp_reviewer g))
        | Some n \<Rightarrow>
            if ns_type n \<noteq> NtAgent then Some (PairReviewerType (mp_id g) (mp_reviewer g))
            else map_option (\<lambda>o'. PairTwoGroups (mp_reviewer g) o' (mp_id g)) (map_of revs (mp_reviewer g))))"

fun groups_check :: "wf_def \<Rightarrow> string list \<Rightarrow> (string \<times> string) list \<Rightarrow> owners \<Rightarrow> pairing_spec list
    \<Rightarrow> pairing_error option" where
  "groups_check d ids revs own [] = None"
| "groups_check d ids revs own (g # gs) =
     (if mp_id g = [] then Some PairIdEmpty
      else if mp_id g \<in> set ids then Some (PairDuplicate (mp_id g))
      else if mp_actors g = [] then Some (PairNoActors (mp_id g))
      else (case actors_check d g (mp_actors g) own of
          Inl e \<Rightarrow> Some e
        | Inr own' \<Rightarrow>
            (case reviewer_check d g revs of
               Some e \<Rightarrow> Some e
             | None \<Rightarrow>
                 if mp_pairs g = [] then Some (PairNoEntries (mp_id g))
                 else (case entries_check (mp_id g) [] (mp_pairs g) of
                     Some e \<Rightarrow> Some e
                   | None \<Rightarrow> groups_check d (mp_id g # ids) ((mp_reviewer g, mp_id g) # revs) own' gs))))"

definition validate_pairings :: "wf_def \<Rightarrow> pairing_error option" where
  "validate_pairings d = groups_check d [] [] [] (wd_pairings d)"

text \<open>Group and actor target of every pair that lists the target as its own reviewer.\<close>

definition pairing_warnings :: "wf_def \<Rightarrow> (string \<times> pair_target) list" where
  "pairing_warnings d =
     concat (map (\<lambda>g. concat (map (\<lambda>p. map (\<lambda>_. (mp_id g, pe_actor p))
       (filter (\<lambda>t. t = pe_actor p) (pe_reviewer p))) (mp_pairs g))) (wd_pairings d))"

text \<open>\<open>clis\<close> maps an agent to its ordered target list.\<close>

definition cover_check :: "wf_def \<Rightarrow> (string \<Rightarrow> pair_target list option) \<Rightarrow> pairing_spec \<Rightarrow> string
    \<Rightarrow> pairing_error option" where
  "cover_check d clis g a =
     (case node_by_id d a of
        None \<Rightarrow> None
      | Some n \<Rightarrow>
          if ns_agent n = [] then None
          else (case clis (ns_agent n) of
              None \<Rightarrow> Some (CoverUnknownAgent (mp_id g) a (ns_agent n))
            | Some ts \<Rightarrow> map_option (CoverMissing (mp_id g) a)
                (find (\<lambda>t. t \<notin> pe_actor ` set (mp_pairs g)) ts)))"

definition validate_coverage :: "wf_def \<Rightarrow> (string \<Rightarrow> pair_target list option) \<Rightarrow> pairing_error option" where
  "validate_coverage d clis = find_map (\<lambda>g. find_map (cover_check d clis g) (mp_actors g)) (wd_pairings d)"

definition pairing_group_for_reviewer :: "wf_def \<Rightarrow> string \<Rightarrow> pairing_spec option" where
  "pairing_group_for_reviewer d i = find (\<lambda>g. mp_reviewer g = i) (wd_pairings d)"

definition reviewer_candidates :: "pairing_spec \<Rightarrow> pair_target \<Rightarrow> pair_target list option" where
  "reviewer_candidates g t = map_option pe_reviewer (find (\<lambda>p. pe_actor p = t) (mp_pairs g))"

section \<open>Validated pairings\<close>

lemma actors_check_Inr:
  "actors_check d g as own = Inr own' \<Longrightarrow>
   \<forall>a \<in> set as. a \<noteq> mp_reviewer g \<and> (\<exists>n. node_by_id d a = Some n \<and> ns_type n = NtAgent)
     \<and> (\<forall>o'. reviewer_group (wd_pairings d) a = Some o' \<longrightarrow> o' = mp_id g)"
proof (induction as arbitrary: own)
  case (Cons a as)
  then have "actor_check d g a own = None" "actors_check d g as (((a, mp_reviewer g), mp_id g) # own) = Inr own'"
    by (auto split: option.splits)
  with Cons.IH show ?case by (auto simp: actor_check_def split: option.splits if_splits)
qed simp

lemma entries_check_None:
  "entries_check gid seen ps = None \<Longrightarrow>
   \<forall>p \<in> set ps. \<not> incomplete (pe_actor p) \<and> pe_reviewer p \<noteq> [] \<and> \<not> list_ex incomplete (pe_reviewer p)"
  by (induction ps arbitrary: seen) (auto split: if_splits)

definition group_ok :: "wf_def \<Rightarrow> pairing_spec \<Rightarrow> bool" where
  "group_ok d g \<longleftrightarrow> mp_reviewer g \<noteq> []
     \<and> (\<forall>a \<in> set (mp_actors g). a \<noteq> mp_reviewer g \<and> (\<exists>n. node_by_id d a = Some n \<and> ns_type n = NtAgent)
          \<and> (\<forall>o'. reviewer_group (wd_pairings d) a = Some o' \<longrightarrow> o' = mp_id g))
     \<and> (\<forall>p \<in> set (mp_pairs g). pe_reviewer p \<noteq> [] \<and> \<not> list_ex incomplete (pe_reviewer p))"

lemma groups_check_None:
  "groups_check d ids revs own gs = None \<Longrightarrow>
   distinct (map mp_id gs) \<and> mp_id ` set gs \<inter> set ids = {} \<and> distinct (map mp_reviewer gs)
     \<and> mp_reviewer ` set gs \<inter> fst ` set revs = {} \<and> (\<forall>g \<in> set gs. group_ok d g)"
proof (induction gs arbitrary: ids revs own)
  case (Cons g gs)
  then obtain own' where a: "mp_id g \<notin> set ids" "actors_check d g (mp_actors g) own = Inr own'"
    "reviewer_check d g revs = None" "entries_check (mp_id g) [] (mp_pairs g) = None"
    "groups_check d (mp_id g # ids) ((mp_reviewer g, mp_id g) # revs) own' gs = None"
    by (auto split: if_splits sum.splits option.splits)
  have "mp_reviewer g \<noteq> []" "mp_reviewer g \<notin> fst ` set revs"
    using a(3) by (auto simp: reviewer_check_def map_of_eq_None_iff split: if_splits option.splits)
  with Cons.IH [OF a(5)] actors_check_Inr [OF a(2)] entries_check_None [OF a(4)] a(1)
  show ?case by (auto simp: group_ok_def)
qed simp

text \<open>
  C24. A covered pairing never leaves its reviewer without a choice: when the structural checks and
  the coverage check pass, then for every actor of a group whose agent is known statically, every
  target that agent may run on has an ordered candidate list, which is not empty and whose targets
  are complete; the reviewer belongs to that group only and acts in no group.
\<close>

theorem paired_reviewer_has_candidates:
  assumes "validate_pairings d = None" "validate_coverage d clis = None" "g \<in> set (wd_pairings d)"
    "a \<in> set (mp_actors g)" "node_by_id d a = Some n" "ns_agent n \<noteq> []"
  shows "\<exists>ts. clis (ns_agent n) = Some ts \<and> (\<forall>t \<in> set ts. \<exists>rs. reviewer_candidates g t = Some rs \<and> rs \<noteq> []
      \<and> list_all (\<lambda>r. \<not> incomplete r) rs)
    \<and> pairing_group_for_reviewer d (mp_reviewer g) = Some g
    \<and> (\<forall>k \<in> set (wd_pairings d). mp_reviewer g \<notin> set (mp_actors k))"
proof -
  note v = groups_check_None [OF assms(1) [unfolded validate_pairings_def]]
  have g: "group_ok d g" using v assms(3) by blast
  have "cover_check d clis g a = None" using assms(2-4) by (auto simp: validate_coverage_def find_map_None)
  then obtain ts where ts: "clis (ns_agent n) = Some ts" "\<forall>t \<in> set ts. t \<in> pe_actor ` set (mp_pairs g)"
    using assms(5,6) by (auto simp: cover_check_def find_None split: option.splits)
  have cand: "\<exists>rs. reviewer_candidates g t = Some rs \<and> rs \<noteq> [] \<and> list_all (\<lambda>r. \<not> incomplete r) rs" if "t \<in> set ts" for t
  proof -
    from ts(2) that have "find (\<lambda>p. pe_actor p = t) (mp_pairs g) \<noteq> None" by (auto simp: find_None)
    then obtain p where p: "find (\<lambda>p. pe_actor p = t) (mp_pairs g) = Some p" by blast
    with find_SomeD [OF p] g show ?thesis
      by (auto simp: reviewer_candidates_def group_ok_def list_ex_iff list_all_iff)
  qed
  have uniq: "pairing_group_for_reviewer d (mp_reviewer g) = Some g"
  proof (cases "pairing_group_for_reviewer d (mp_reviewer g)")
    case None
    with assms(3) show ?thesis by (auto simp: pairing_group_for_reviewer_def find_None)
  next
    case (Some k)
    then have "k \<in> set (wd_pairings d)" "mp_reviewer k = mp_reviewer g"
      by (auto simp: pairing_group_for_reviewer_def dest: find_SomeD)
    with v assms(3) have "k = g" by (auto simp: distinct_map dest: inj_onD)
    with Some show ?thesis by simp
  qed
  have "mp_reviewer g \<notin> set (mp_actors k)" if k: "k \<in> set (wd_pairings d)" for k
  proof
    assume r: "mp_reviewer g \<in> set (mp_actors k)"
    have kg: "group_ok d k" using v k by blast
    have "reviewer_group (wd_pairings d) (mp_reviewer g) = Some (mp_id g)"
      using uniq g by (simp add: reviewer_group_def pairing_group_for_reviewer_def group_ok_def)
    with kg r have "mp_id g = mp_id k" by (auto simp: group_ok_def)
    with v k assms(3) have "k = g" by (auto simp: distinct_map dest: inj_onD)
    with kg r show False by (auto simp: group_ok_def)
  qed
  with ts(1) cand uniq show ?thesis by blast
qed

end
