(* ===== verification/WfValidate.thy ===== *)
theory WfValidate
  imports GoPath WfExpr WfCycleProps WfLoops WfPairing
begin

text \<open>
  The validation of a parsed definition (\<open>Validate\<close>, \<open>ValidateScheduleRunner\<close>,
  \<open>ValidateWithAgents\<close> of \<open>pkg/workflowspec/definition.go\<close>), check by check in the order of the
  code. Arguments: \<open>pd\<close> is \<open>time.ParseDuration\<close>; \<open>fires\<close> is what the cron library says of a schedule
  (\<open>None\<close> when it does not parse, otherwise whether it fires again); \<open>ord\<close> is the iteration order of
  Go maps.
\<close>

datatype node_fault =
    AgentIdMissing | AgentPrompt | BadSessionPolicy | PromptMissing | CommandMissing | EmptyOption
  | FunctionMissing | WorkflowMissing | WorkflowPrompt | WorkflowOutput | FanoutItems
  | FanoutParallel int | BadType string | WorkflowElsewhere | FanoutElsewhere | FunctionElsewhere
  | ExitCodesElsewhere | ExitCodeRange int | ExitCodeTwice int | BadJoin string | EntryElsewhere
  | BadOnSkip string | BadOnFail string | BadTimeout string | RetriesElsewhere | RetriesNegative
  | OutputsElsewhere | EmptyOutput

datatype wf_error =
    NameEmpty | NoNodes | NegativeMaxExec | MountNotAbs string string | NodeIdEmpty
  | NodeDuplicate string | NodeFault string node_fault | SelfDependency string
  | UnknownDependency string string | BadWhen string string expr_error | CycleError cycle_error
  | LoopError loop_error | FallbackHumanDepends string | HumanForbidden string
  | ScheduleNeedsNoHuman | BadSchedule string | ScheduleNever string | PairingError pairing_error
  | NoEntryNode | RunnerRequired | RunnerMismatch string string | UnknownAgent string string

definition type_check :: "node_spec \<Rightarrow> node_fault option" where
  "type_check n =
     (case ns_type n of
        NtAgent \<Rightarrow>
          if ns_agent n = [] then Some AgentIdMissing
          else if ns_prompt n \<noteq> [] then Some AgentPrompt
          else if ns_session_policy n \<notin> {[], ''inherit'', ''fresh''} then Some BadSessionPolicy
          else None
      | NtLlm \<Rightarrow> if ns_prompt n = [] then Some PromptMissing else None
      | NtCommand \<Rightarrow> if ns_command n = [] then Some CommandMissing else None
      | NtHuman \<Rightarrow>
          if ns_prompt n = [] then Some PromptMissing
          else if list_ex (\<lambda>x. x = []) (ns_options n) then Some EmptyOption else None
      | NtFunction \<Rightarrow> if ns_function n = [] then Some FunctionMissing else None
      | NtWorkflow \<Rightarrow>
          if ns_workflow n = [] then Some WorkflowMissing
          else if ns_prompt n \<noteq> [] then Some WorkflowPrompt
          else if ns_output_file n \<noteq> [] then Some WorkflowOutput
          else (case ns_fanout n of
              None \<Rightarrow> None
            | Some f \<Rightarrow>
                if fo_items f = [] then Some FanoutItems
                else (case fo_max_parallel f of
                    Some k \<Rightarrow> if k \<le> 0 then Some (FanoutParallel k) else None
                  | None \<Rightarrow> None))
      | NtOther t \<Rightarrow> Some (BadType t))"

fun exit_codes_check :: "int list \<Rightarrow> int list \<Rightarrow> node_fault option" where
  "exit_codes_check seen [] = None"
| "exit_codes_check seen (c # cs) =
     (if c < 0 \<or> c > 255 then Some (ExitCodeRange c)
      else if c \<in> set seen then Some (ExitCodeTwice c)
      else exit_codes_check (c # seen) cs)"

definition fields_check :: "node_spec \<Rightarrow> node_fault option" where
  "fields_check n =
     first_error
       [if ns_workflow n \<noteq> [] \<and> ns_type n \<noteq> NtWorkflow then Some WorkflowElsewhere else None,
        if ns_fanout n \<noteq> None \<and> ns_type n \<noteq> NtWorkflow then Some FanoutElsewhere else None,
        if ns_function n \<noteq> [] \<and> ns_type n \<noteq> NtFunction then Some FunctionElsewhere else None,
        if ns_exit_codes n = [] then None
        else if ns_type n \<noteq> NtCommand then Some ExitCodesElsewhere
        else exit_codes_check [] (ns_exit_codes n),
        if ns_join n \<in> {[], ''always''} then None else Some (BadJoin (ns_join n)),
        if ns_entry n \<and> ns_type n \<noteq> NtAgent then Some EntryElsewhere else None,
        if ns_on_skip n \<in> {[], ''run'', ''skip''} then None else Some (BadOnSkip (ns_on_skip n)),
        if ns_on_fail n \<in> {[], ''run'', ''skip''} then None else Some (BadOnFail (ns_on_fail n))]"

definition limits_check :: "(string \<Rightarrow> int option) \<Rightarrow> node_spec \<Rightarrow> node_fault option" where
  "limits_check pd n =
     first_error
       [if ns_timeout n \<noteq> [] \<and> pd (ns_timeout n) = None then Some (BadTimeout (ns_timeout n)) else None,
        (case ns_max_retries n of
           None \<Rightarrow> None
         | Some k \<Rightarrow> if ns_type n \<noteq> NtAgent then Some RetriesElsewhere
                     else if k < 0 then Some RetriesNegative else None),
        if ns_required n = [] then None
        else if ns_type n \<noteq> NtAgent then Some OutputsElsewhere
        else if list_ex (\<lambda>s. trim_space s = []) (ns_required n) then Some EmptyOutput else None]"

definition node_check :: "(string \<Rightarrow> int option) \<Rightarrow> node_spec \<Rightarrow> node_fault option" where
  "node_check pd n = first_error [type_check n, fields_check n, limits_check pd n]"

fun nodes_check :: "(string \<Rightarrow> int option) \<Rightarrow> string list \<Rightarrow> node_spec list \<Rightarrow> wf_error option" where
  "nodes_check pd seen [] = None"
| "nodes_check pd seen (n # ns) =
     (if ns_id n = [] then Some NodeIdEmpty
      else if ns_id n \<in> set seen then Some (NodeDuplicate (ns_id n))
      else (case node_check pd n of
          Some f \<Rightarrow> Some (NodeFault (ns_id n) f)
        | None \<Rightarrow> nodes_check pd (ns_id n # seen) ns))"

definition dep_check :: "wf_def \<Rightarrow> node_spec \<Rightarrow> node_dep \<Rightarrow> wf_error option" where
  "dep_check d n e =
     (if dp_node e = ns_id n \<and> dp_when e = [] then Some (SelfDependency (ns_id n))
      else if dp_node e \<notin> ns_id ` set (wd_nodes d) then Some (UnknownDependency (ns_id n) (dp_node e))
      else if dp_when e = [] then None
      else (case evaluate_expr (dp_when e) None (Some d) of
          Inl x \<Rightarrow> Some (BadWhen (ns_id n) (dp_when e) x)
        | Inr _ \<Rightarrow> None))"

definition mounts_check :: "string \<Rightarrow> string list \<Rightarrow> wf_error option" where
  "mounts_check kind dirs = map_option (MountNotAbs kind) (find (\<lambda>p. \<not> path_is_abs p) dirs)"

definition validate_human_nodes :: "wf_def \<Rightarrow> wf_error option" where
  "validate_human_nodes d =
     map_option (\<lambda>n. FallbackHumanDepends (ns_id n))
       (find (\<lambda>n. ns_type n = NtHuman \<and> ns_depends n \<noteq> [] \<and>
          list_ex (\<lambda>l. lo_exhausted l \<noteq> [] \<and> lo_exhausted l = ns_id n) (wd_loops d)) (wd_nodes d))"

definition validate_schedule :: "(string \<Rightarrow> bool option) \<Rightarrow> wf_def \<Rightarrow> wf_error option" where
  "validate_schedule fires d =
     (case (if wd_no_human d then find (\<lambda>n. ns_type n = NtHuman) (wd_nodes d) else None) of
        Some n \<Rightarrow> Some (HumanForbidden (ns_id n))
      | None \<Rightarrow>
          if wd_schedule d = [] then None
          else if \<not> wd_no_human d then Some ScheduleNeedsNoHuman
          else (case fires (wd_schedule d) of
              None \<Rightarrow> Some (BadSchedule (wd_schedule d))
            | Some again \<Rightarrow> if again then None else Some (ScheduleNever (wd_schedule d))))"

definition validate_schedule_runner :: "string \<Rightarrow> wf_def \<Rightarrow> wf_error option" where
  "validate_schedule_runner own d =
     (if wd_schedule d = [] then None
      else if own = [] \<and> wd_runner d = [] then Some RunnerRequired
      else if own \<noteq> [] \<and> wd_runner d \<noteq> [] \<and> wd_runner d \<noteq> own then Some (RunnerMismatch (wd_runner d) own)
      else None)"

definition entry_check :: "wf_def \<Rightarrow> wf_error option" where
  "entry_check d =
     (let agents = filter (\<lambda>n. ns_type n = NtAgent) (wd_nodes d)
      in if length agents > 0 \<and> length (filter ns_entry agents) = 0 then Some NoEntryNode else None)"

definition validate ::
  "(string \<Rightarrow> int option) \<Rightarrow> (string \<Rightarrow> bool option) \<Rightarrow> (string list \<Rightarrow> string list) \<Rightarrow> wf_def \<Rightarrow> wf_error option" where
  "validate pd fires ord d =
     first_error
       [if wd_name d = [] then Some NameEmpty else None,
        if wd_nodes d = [] then Some NoNodes else None,
        if wd_max_exec d < 0 then Some NegativeMaxExec else None,
        mounts_check ''readonly'' (md_readonly (wd_mounts d)),
        mounts_check ''readwrite'' (md_readwrite (wd_mounts d)),
        nodes_check pd [] (wd_nodes d),
        find_map (\<lambda>n. find_map (dep_check d n) (ns_depends n)) (wd_nodes d),
        map_option CycleError (detect_cycle ord (wd_nodes d)),
        map_option LoopError (validate_loops d),
        validate_human_nodes d,
        validate_schedule fires d,
        map_option PairingError (validate_pairings d),
        entry_check d]"

text \<open>Agents of the pool: id and target list; \<open>None\<close> is a nil entry. A later entry replaces an
  earlier one of the same id.\<close>

definition agent_clis :: "(string \<times> pair_target list) option list \<Rightarrow> string \<Rightarrow> pair_target list option" where
  "agent_clis pool i =
     (if i = [] then None
      else map_option snd (last_by fst (List.map_filter (\<lambda>x. x) pool) i))"

definition validate_with_agents ::
  "(string \<Rightarrow> int option) \<Rightarrow> (string \<Rightarrow> bool option) \<Rightarrow> (string list \<Rightarrow> string list)
   \<Rightarrow> (string \<times> pair_target list) option list \<Rightarrow> wf_def \<Rightarrow> wf_error option" where
  "validate_with_agents pd fires ord pool d =
     first_error
       [validate pd fires ord d,
        find_map (\<lambda>n. if ns_type n = NtAgent \<and> ns_agent n \<noteq> [] \<and> agent_clis pool (ns_agent n) = None
           then Some (UnknownAgent (ns_id n) (ns_agent n)) else None) (wd_nodes d),
        if wd_pairings d = [] then None
        else map_option PairingError (validate_coverage d (agent_clis pool))]"

section \<open>A validated definition\<close>

lemma nodes_check_None:
  "nodes_check pd seen ns = None \<Longrightarrow> distinct (map ns_id ns) \<and> ns_id ` set ns \<inter> set seen = {}
     \<and> (\<forall>n \<in> set ns. ns_id n \<noteq> [] \<and> node_check pd n = None)"
proof (induction ns arbitrary: seen)
  case (Cons n ns)
  then have "ns_id n \<noteq> []" "ns_id n \<notin> set seen" "node_check pd n = None" "nodes_check pd (ns_id n # seen) ns = None"
    by (auto split: if_splits option.splits)
  with Cons.IH [of "ns_id n # seen"] show ?case by auto
qed simp

lemma node_check_type: "node_check pd n = None \<Longrightarrow> ns_type n \<noteq> NtOther t"
proof
  assume "node_check pd n = None" "ns_type n = NtOther t"
  then have "type_check n = None" by (simp only: node_check_def first_error_None) simp
  with \<open>ns_type n = NtOther t\<close> show False by (simp add: type_check_def)
qed

text \<open>What the scheduler relies on.\<close>

definition well_formed :: "(string list \<Rightarrow> string list) \<Rightarrow> wf_def \<Rightarrow> bool" where
  "well_formed ord d \<longleftrightarrow> wd_nodes d \<noteq> [] \<and> distinct (map ns_id (wd_nodes d)) \<and> deps_known (wd_nodes d)
     \<and> detect_cycle ord (wd_nodes d) = None \<and> validate_loops d = None \<and> 0 \<le> wd_max_exec d
     \<and> (\<forall>n \<in> set (wd_nodes d). ns_id n \<noteq> [] \<and> (\<forall>t. ns_type n \<noteq> NtOther t))
     \<and> (\<forall>n \<in> set (wd_nodes d). \<forall>e \<in> set (ns_depends n). dp_when e \<noteq> [] \<longrightarrow>
          (\<exists>b. evaluate_expr (dp_when e) None (Some d) = Inr b))"

lemma validate_None:
  assumes "validate pd fires ord d = None"
  shows "well_formed ord d"
proof -
  have parts: "wd_nodes d \<noteq> []" "0 \<le> wd_max_exec d" "nodes_check pd [] (wd_nodes d) = None"
    "\<forall>n \<in> set (wd_nodes d). \<forall>e \<in> set (ns_depends n). dep_check d n e = None"
    "detect_cycle ord (wd_nodes d) = None" "validate_loops d = None"
    using assms unfolding validate_def first_error_None
    by (auto simp: find_map_None split: if_splits)
  note n = nodes_check_None [OF parts(3)]
  have "\<forall>n \<in> set (wd_nodes d). ns_type n \<noteq> NtOther t" for t
    using n node_check_type by blast
  moreover have "deps_known (wd_nodes d)"
    using parts(4) by (auto simp: deps_known_def dep_check_def split: if_splits)
  moreover have "\<exists>b. evaluate_expr (dp_when e) None (Some d) = Inr b"
    if "n \<in> set (wd_nodes d)" "e \<in> set (ns_depends n)" "dp_when e \<noteq> []" for n e
  proof -
    have "dep_check d n e = None" using parts(4) that by blast
    with that(3) show ?thesis by (auto simp: dep_check_def split: if_splits sum.splits)
  qed
  ultimately show ?thesis using parts n by (auto simp: well_formed_def)
qed

text \<open>
  C25. A definition that validates is one the scheduler can run: node ids are distinct and not
  empty, every dependency names a node, every type is one of the six, the unconditional
  dependencies have no cycle, and every condition is well formed, so that evaluating it against
  any results yields a truth value unless a name does not resolve or a text is compared by order.
\<close>

theorem validated_definition:
  assumes "validate pd fires ord d = None" "iter_order ord"
  shows "distinct (map ns_id (wd_nodes d)) \<and> [] \<notin> ns_id ` set (wd_nodes d)
    \<and> (\<forall>n \<in> set (wd_nodes d). dp_node ` set (ns_depends n) \<subseteq> ns_id ` set (wd_nodes d))
    \<and> (\<forall>n \<in> set (wd_nodes d). \<forall>t. ns_type n \<noteq> NtOther t)
    \<and> acyclic (edges (wd_nodes d))
    \<and> (\<forall>n \<in> set (wd_nodes d). \<forall>e \<in> set (ns_depends n). dp_when e \<noteq> [] \<longrightarrow>
        (\<forall>ups x. evaluate_expr (dp_when e) (Some ups) None = Inl x \<longrightarrow>
           runtime_error (dp_when e) ups None x))"
proof -
  have w: "well_formed ord d" by (rule validate_None [OF assms(1)])
  then have "acyclic (edges (wd_nodes d))"
    using kahn_result(1) [of "wd_nodes d" ord] assms(2)
    by (auto simp: well_formed_def detect_cycle_def Let_def split: prod.splits option.splits list.splits if_splits)
  moreover
  have "runtime_error (dp_when e) ups None x"
    if "n \<in> set (wd_nodes d)" "e \<in> set (ns_depends n)" "dp_when e \<noteq> []"
      "evaluate_expr (dp_when e) (Some ups) None = Inl x" for n e ups x
  proof -
    from w that obtain b where "evaluate_expr (dp_when e) None (Some d) = Inr b"
      unfolding well_formed_def by blast
    from checked_runtime [OF this] that(4) show ?thesis by simp
  qed
  then have "\<forall>n \<in> set (wd_nodes d). \<forall>e \<in> set (ns_depends n). dp_when e \<noteq> [] \<longrightarrow>
        (\<forall>ups x. evaluate_expr (dp_when e) (Some ups) None = Inl x \<longrightarrow>
           runtime_error (dp_when e) ups None x)" by simp
  moreover have "distinct (map ns_id (wd_nodes d)) \<and> [] \<notin> ns_id ` set (wd_nodes d)
    \<and> (\<forall>n \<in> set (wd_nodes d). dp_node ` set (ns_depends n) \<subseteq> ns_id ` set (wd_nodes d))
    \<and> (\<forall>n \<in> set (wd_nodes d). \<forall>t. ns_type n \<noteq> NtOther t)"
    using w by (auto simp: well_formed_def deps_known_def)
  ultimately show ?thesis by simp
qed

end
