(* ===== verification/WfEngine.thy ===== *)
theory WfEngine
  imports WfValidate
begin

text \<open>
  The workflow scheduler (\<open>backend/lib/workflow/engine.go\<close>). The variables \<open>Execute\<close> shares under
  its mutex are the record \<open>eng\<close>; each critical section is a function on it, and a run is a
  sequence of the steps of \<open>wf_step\<close>: the scheduling loop launches the ready queue, a worker reads
  its snapshot, and a worker settles its node, skipped or with whatever its runner returned.
  \<open>evaluateDownstream\<close> calls itself without a bound, so it carries fuel and returns \<open>None\<close> when the
  fuel is not enough. \<open>Execute\<close> validates the definition first, so node and loop ids are distinct.
\<close>

section \<open>Readiness\<close>

datatype node_action = ActionRun | ActionSkip

record edge_flags =
  ef_false :: bool
  ef_cascaded :: bool
  ef_failed :: bool

definition is_status_query :: "string \<Rightarrow> bool" where
  "is_status_query e = (case parse_expr_target e of
     Some (_, field) \<Rightarrow> field = ''status'' \<or> field = ''skip_reason'' | None \<Rightarrow> False)"

text \<open>A condition whose evaluation fails counts as false.\<close>

definition condition_holds :: "string \<Rightarrow> results \<Rightarrow> bool" where
  "condition_holds e m = (case evaluate_expr e (Some m) None of Inr b \<Rightarrow> b | Inl _ \<Rightarrow> False)"

definition no_flags :: edge_flags where
  "no_flags = \<lparr>ef_false = False, ef_cascaded = False, ef_failed = False\<rparr>"

definition edge_readiness :: "results \<Rightarrow> node_dep \<Rightarrow> edge_flags" where
  "edge_readiness ups e =
     (if dp_when e \<noteq> [] then
        (if (case map_of ups (dp_node e) of Some r \<Rightarrow> nr_status r = StSkipped | None \<Rightarrow> False)
            \<and> \<not> is_status_query (dp_when e) then no_flags\<lparr>ef_false := True\<rparr>
         else no_flags\<lparr>ef_false := \<not> condition_holds (dp_when e) ups\<rparr>)
      else (case map_of ups (dp_node e) of
          None \<Rightarrow> no_flags
        | Some r \<Rightarrow> (case nr_status r of
              StFailed \<Rightarrow> no_flags\<lparr>ef_failed := True\<rparr>
            | StSkipped \<Rightarrow> if nr_reason r = SrCascadedFailure then no_flags\<lparr>ef_cascaded := True\<rparr>
                           else no_flags\<lparr>ef_false := True\<rparr>
            | _ \<Rightarrow> no_flags)))"

text \<open>The same with the tests in the order the code makes them.\<close>

lemma edge_readiness_code [code]:
  "edge_readiness ups e =
     (if dp_when e \<noteq> [] then
        (if (case map_of ups (dp_node e) of Some r \<Rightarrow> nr_status r = StSkipped | None \<Rightarrow> False)
         then (if is_status_query (dp_when e) then no_flags\<lparr>ef_false := \<not> condition_holds (dp_when e) ups\<rparr>
               else no_flags\<lparr>ef_false := True\<rparr>)
         else no_flags\<lparr>ef_false := \<not> condition_holds (dp_when e) ups\<rparr>)
      else (case map_of ups (dp_node e) of
          None \<Rightarrow> no_flags
        | Some r \<Rightarrow> (case nr_status r of
              StFailed \<Rightarrow> no_flags\<lparr>ef_failed := True\<rparr>
            | StSkipped \<Rightarrow> if nr_reason r = SrCascadedFailure then no_flags\<lparr>ef_cascaded := True\<rparr>
                           else no_flags\<lparr>ef_false := True\<rparr>
            | _ \<Rightarrow> no_flags)))"
  by (simp add: edge_readiness_def)

definition evaluate_readiness :: "node_spec \<Rightarrow> results \<Rightarrow> node_action \<times> skip_reason" where
  "evaluate_readiness n ups =
     (let fs = map (edge_readiness ups) (ns_depends n) in
      if (list_ex ef_failed fs \<or> list_ex ef_cascaded fs) \<and> \<not> allows_fail n then (ActionSkip, SrCascadedFailure)
      else if list_ex ef_false fs \<and> \<not> allows_skip n then (ActionSkip, SrConditionFalse)
      else (ActionRun, NoReason))"

section \<open>The shared state\<close>

type_synonym tallies = "(string \<times> int) list"

definition tally :: "tallies \<Rightarrow> string \<Rightarrow> int" where
  "tally m k = (case map_of m k of Some v \<Rightarrow> v | None \<Rightarrow> 0)"

text \<open>A worker that was launched, and one that has read its snapshot of the results.\<close>

datatype worker = Launched int | Ready int results tallies

datatype event_kind = EvStarted | EvFinished | EvSkipped

record wf_event =
  we_kind :: event_kind
  we_node :: string
  we_status :: node_status
  we_reason :: skip_reason

record eng =
  en_results :: results
  en_queue :: "string list"
  en_running :: "(string \<times> worker) list"
  en_counts :: tallies
  en_iters :: tallies
  en_replaying :: bool
  en_breached :: bool
  en_events :: "wf_event list"

definition settled :: "eng \<Rightarrow> string \<Rightarrow> bool" where
  "settled s i \<longleftrightarrow> map_of (en_results s) i \<noteq> None"

definition is_running :: "eng \<Rightarrow> string \<Rightarrow> bool" where
  "is_running s i \<longleftrightarrow> map_of (en_running s) i \<noteq> None"

definition is_pending :: "eng \<Rightarrow> string \<Rightarrow> bool" where
  "is_pending s i \<longleftrightarrow> is_running s i \<or> i \<in> set (en_queue s)"

definition has_status :: "eng \<Rightarrow> string \<Rightarrow> node_status \<Rightarrow> bool" where
  "has_status s i st = (case map_of (en_results s) i of Some r \<Rightarrow> nr_status r = st | None \<Rightarrow> False)"

definition emit :: "event_kind \<Rightarrow> string \<Rightarrow> node_status \<Rightarrow> skip_reason \<Rightarrow> eng \<Rightarrow> eng" where
  "emit k i st rs s = s\<lparr>en_events := en_events s @ [\<lparr>we_kind = k, we_node = i, we_status = st, we_reason = rs\<rparr>]\<rparr>"

definition set_result :: "string \<Rightarrow> node_result \<Rightarrow> eng \<Rightarrow> eng" where
  "set_result i r s = s\<lparr>en_results := AList.update i r (en_results s)\<rparr>"

definition skip_result :: "skip_reason \<Rightarrow> node_result" where
  "skip_result rs = zero_result\<lparr>nr_status := StSkipped, nr_reason := rs\<rparr>"

definition mark_skipped :: "string \<Rightarrow> skip_reason \<Rightarrow> eng \<Rightarrow> eng" where
  "mark_skipped i rs s = emit EvSkipped i StSkipped rs (set_result i (skip_result rs) s)"

section \<open>Admission\<close>

definition max_executions :: "wf_def \<Rightarrow> int" where
  "max_executions d = (if wd_max_exec d \<le> 0 then 100 else wd_max_exec d)"

definition enqueue :: "wf_def \<Rightarrow> string \<Rightarrow> eng \<Rightarrow> bool \<times> eng" where
  "enqueue d i s =
     (if is_running s i \<or> i \<in> set (en_queue s) \<or> tally (en_counts s) i \<ge> max_executions d then (False, s)
      else (True, s\<lparr>en_queue := en_queue s @ [i]\<rparr>))"

definition child_loops :: "loop_spec list \<Rightarrow> string \<Rightarrow> string list" where
  "child_loops ls i = map lo_id (filter (\<lambda>l. lo_parent l \<noteq> [] \<and> lo_parent l = i) ls)"

text \<open>
  The recursion over child loops; the depth of a validated forest of loops is at most the number
  of loops, which is the fuel it is given (see \<open>reset_descendants_exact\<close>).
\<close>

fun reset_loops :: "loop_spec list \<Rightarrow> nat \<Rightarrow> string list \<Rightarrow> tallies \<Rightarrow> tallies" where
  "reset_loops ls f [] m = m"
| "reset_loops ls 0 (c # cs) m = m"
| "reset_loops ls (Suc f) (c # cs) m =
     reset_loops ls (Suc f) cs (reset_loops ls f (child_loops ls c) (AList.update c 0 m))"

definition reset_descendants :: "wf_def \<Rightarrow> string \<Rightarrow> tallies \<Rightarrow> tallies" where
  "reset_descendants d i m = reset_loops (wd_loops d) (length (wd_loops d)) (child_loops (wd_loops d) i) m"

definition dependents :: "wf_def \<Rightarrow> string \<Rightarrow> node_spec list" where
  "dependents d i = concat (map (\<lambda>n. map (\<lambda>_. n) (filter (\<lambda>e. dp_node e = i) (ns_depends n))) (wd_nodes d))"

definition breach_result :: "string \<Rightarrow> node_result" where
  "breach_result l = zero_result\<lparr>nr_status := StFailed, nr_error := Some (''loop exhausted: '' @ l)\<rparr>"

text \<open>The stale results of the conditional successors of a settled target are dropped.\<close>

definition drop_stale :: "wf_def \<Rightarrow> string \<Rightarrow> results \<Rightarrow> results" where
  "drop_stale d t m =
     fold (\<lambda>n m. if list_ex (\<lambda>e. dp_node e = t \<and> dp_when e \<noteq> []) (ns_depends n)
                 then AList.delete (ns_id n) m else m) (dependents d t) m"

text \<open>
  \<open>admitViaEdge\<close>; the flag says that its last action is to evaluate the downstream of the target,
  which was failed for want of a fallback and had never settled.
\<close>

definition breach :: "wf_def \<Rightarrow> string \<Rightarrow> string \<Rightarrow> eng \<Rightarrow> eng \<times> bool" where
  "breach d l t s =
     (let s1 = emit EvFinished t StFailed NoReason (set_result t (breach_result l) (s\<lparr>en_breached := True\<rparr>))
      in if settled s t then (s1\<lparr>en_results := drop_stale d t (en_results s1)\<rparr>, False) else (s1, True))"

definition admit_via_edge :: "wf_def \<Rightarrow> node_dep \<Rightarrow> string \<Rightarrow> eng \<Rightarrow> eng \<times> bool" where
  "admit_via_edge d e t s =
     (if en_replaying s \<and> settled s t then (s, False)
      else if dp_resets e \<noteq> [] then
        (snd (enqueue d t (s\<lparr>en_iters := reset_descendants d (dp_resets e)
             (AList.update (dp_resets e) 0 (en_iters s))\<rparr>)), False)
      else if dp_counts e = [] then (snd (enqueue d t s), False)
      else (case loop_by_id d (dp_counts e) of
          None \<Rightarrow> (snd (enqueue d t s), False)
        | Some l \<Rightarrow>
            if is_pending s t then (s, False)
            else if lo_max l > 0 \<and> tally (en_iters s) (lo_id l) \<ge> lo_max l then
              (if lo_exhausted l \<noteq> [] then (snd (enqueue d (lo_exhausted l) s), False)
               else breach d (lo_id l) t s)
            else (case enqueue d t s of
                (True, s1) \<Rightarrow> (s1\<lparr>en_iters := reset_descendants d (lo_id l)
                    (AList.update (lo_id l) (tally (en_iters s1) (lo_id l) + 1) (en_iters s1))\<rparr>, False)
              | (False, s1) \<Rightarrow> (s1, False))))"

section \<open>Evaluating the dependents of a settled node\<close>

definition cond_edges :: "node_spec \<Rightarrow> node_dep list" where
  "cond_edges n = filter (\<lambda>e. dp_when e \<noteq> []) (ns_depends n)"

definition uncond_edges :: "node_spec \<Rightarrow> node_dep list" where
  "uncond_edges n = filter (\<lambda>e. dp_when e = []) (ns_depends n)"

definition edge_matches :: "eng \<Rightarrow> string \<Rightarrow> bool \<Rightarrow> node_dep \<Rightarrow> bool" where
  "edge_matches s i parent_skipped e \<longleftrightarrow>
     dp_node e = i \<and> (\<not> parent_skipped \<or> is_status_query (dp_when e))
     \<and> condition_holds (dp_when e) (en_results s)"

lemma edge_matches_code [code]:
  "edge_matches s i parent_skipped e =
     (if dp_node e = i then
        (if parent_skipped then (if is_status_query (dp_when e) then condition_holds (dp_when e) (en_results s) else False)
         else condition_holds (dp_when e) (en_results s))
      else False)"
  by (simp add: edge_matches_def)

definition skip_dependent :: "node_spec \<Rightarrow> skip_reason \<Rightarrow> eng \<Rightarrow> eng \<times> bool" where
  "skip_dependent n rs s =
     (if has_status s (ns_id n) StSkipped then (s, False) else (mark_skipped (ns_id n) rs s, True))"

text \<open>One turn of the loop over the dependents; the flag asks for the downstream of the dependent.\<close>

definition eval_dependent :: "wf_def \<Rightarrow> string \<Rightarrow> bool \<Rightarrow> bool \<Rightarrow> node_spec \<Rightarrow> eng \<Rightarrow> eng \<times> bool" where
  "eval_dependent d i dead parent_skipped n s =
     (if dead \<and> settled s (ns_id n) then (s, False)
      else (case find (edge_matches s i parent_skipped) (cond_edges n) of
          Some e \<Rightarrow> admit_via_edge d e (ns_id n) s
        | None \<Rightarrow>
            (case find (\<lambda>e. dp_node e = i) (uncond_edges n) of
               Some e \<Rightarrow>
                 if list_all (\<lambda>e. settled s (dp_node e)) (uncond_edges n)
                    \<or> (ns_join n = ''always'' \<and> has_status s i StSucceeded)
                 then (case evaluate_readiness n (en_results s) of
                     (ActionSkip, rs) \<Rightarrow> skip_dependent n rs s
                   | (ActionRun, _) \<Rightarrow> admit_via_edge d e (ns_id n) s)
                 else (s, False)
             | None \<Rightarrow>
                 if uncond_edges n = [] \<and> list_all (\<lambda>e. settled s (dp_node e)) (cond_edges n)
                 then skip_dependent n SrConditionFalse s
                 else (s, False))))"

definition dead_branch :: "eng \<Rightarrow> string \<Rightarrow> bool" where
  "dead_branch s i = (case map_of (en_results s) i of
     Some r \<Rightarrow> nr_status r = StSkipped \<and> nr_reason r = SrConditionFalse | None \<Rightarrow> False)"

fun evaluate_downstream :: "wf_def \<Rightarrow> nat \<Rightarrow> string \<Rightarrow> eng \<Rightarrow> eng option"
  and eval_dependents :: "wf_def \<Rightarrow> nat \<Rightarrow> string \<Rightarrow> bool \<Rightarrow> bool \<Rightarrow> node_spec list \<Rightarrow> eng \<Rightarrow> eng option" where
  "evaluate_downstream d 0 i s = None"
| "evaluate_downstream d (Suc f) i s =
     eval_dependents d f i (dead_branch s i) (has_status s i StSkipped) (dependents d i) s"
| "eval_dependents d f i dead sk [] s = Some s"
| "eval_dependents d f i dead sk (n # ns) s =
     (case eval_dependent d i dead sk n s of
        (s1, False) \<Rightarrow> eval_dependents d f i dead sk ns s1
      | (s1, True) \<Rightarrow>
          (case evaluate_downstream d f (ns_id n) s1 of
             None \<Rightarrow> None
           | Some s2 \<Rightarrow> eval_dependents d f i dead sk ns s2))"

section \<open>The start of a run\<close>

definition fallback_targets :: "wf_def \<Rightarrow> string list" where
  "fallback_targets d = filter (\<lambda>i. i \<noteq> []) (map lo_exhausted (wd_loops d))"

definition engine_init :: "results \<Rightarrow> tallies \<Rightarrow> tallies \<Rightarrow> eng" where
  "engine_init seeds iters counts =
     \<lparr>en_results = seeds, en_queue = [], en_running = [], en_counts = counts, en_iters = iters,
      en_replaying = (seeds \<noteq> []), en_breached = False, en_events = []\<rparr>"

definition is_root :: "wf_def \<Rightarrow> node_spec \<Rightarrow> bool" where
  "is_root d n \<longleftrightarrow> ns_id n \<notin> set (fallback_targets d) \<and> ns_depends n = []"

definition engine_start :: "wf_def \<Rightarrow> eng" where
  "engine_start d = fold (\<lambda>n s. snd (enqueue d (ns_id n) s)) (filter (is_root d) (wd_nodes d)) (engine_init [] [] [])"

fun replay_seeds :: "wf_def \<Rightarrow> nat \<Rightarrow> string list \<Rightarrow> eng \<Rightarrow> eng option" where
  "replay_seeds d f [] s = Some s"
| "replay_seeds d f (i # is) s =
     (case evaluate_downstream d f i s of None \<Rightarrow> None | Some s' \<Rightarrow> replay_seeds d f is s')"

definition activate :: "wf_def \<Rightarrow> string \<Rightarrow> eng \<Rightarrow> eng" where
  "activate d i s =
     (if node_by_id d i = None then s
      else snd (enqueue d i (s\<lparr>en_results := AList.delete i (en_results s)\<rparr>)))"

text \<open>A run that starts from seeds: \<open>order\<close> is the order in which Go iterates the seed map.\<close>

definition engine_resume ::
  "wf_def \<Rightarrow> nat \<Rightarrow> results \<Rightarrow> tallies \<Rightarrow> tallies \<Rightarrow> string list \<Rightarrow> string list \<Rightarrow> eng option" where
  "engine_resume d f seeds iters counts order act =
     map_option (\<lambda>s. fold (activate d) act (s\<lparr>en_replaying := False\<rparr>))
       (replay_seeds d f order (engine_init seeds iters counts))"

section \<open>The scheduling loop and the workers\<close>

definition launch_one :: "string \<Rightarrow> eng \<Rightarrow> eng" where
  "launch_one i s =
     (let k = tally (en_counts s) i + 1 in
      s\<lparr>en_running := AList.update i (Launched k) (en_running s), en_counts := AList.update i k (en_counts s)\<rparr>)"

definition launch :: "eng \<Rightarrow> eng" where
  "launch s = fold launch_one (en_queue s) (s\<lparr>en_queue := []\<rparr>)"

definition idle :: "eng \<Rightarrow> bool" where
  "idle s \<longleftrightarrow> en_queue s = [] \<and> en_running s = []"

text \<open>\<open>snapshotNodeLoops\<close>, and the runner's result made well formed.\<close>

definition node_loops :: "wf_def \<Rightarrow> string \<Rightarrow> tallies \<Rightarrow> (string \<times> int) list option" where
  "node_loops d i iters =
     (let ls = concat (map (\<lambda>l. map (\<lambda>_. lo_id l) (filter (\<lambda>k. k = i) (lo_nodes l))) (wd_loops d))
      in if ls = [] then None else Some (map (\<lambda>l. (l, tally iters l)) ls))"

definition normalize_result :: "node_result option \<Rightarrow> string option \<Rightarrow> node_result" where
  "normalize_result res err =
     (let r = (case res of Some r \<Rightarrow> r | None \<Rightarrow> zero_result) in
      case err of
        Some x \<Rightarrow> r\<lparr>nr_status := StFailed, nr_error := Some x\<rparr>
      | None \<Rightarrow>
          let r1 = (if nr_status r = NoStatus then r\<lparr>nr_status := StSucceeded\<rparr> else r) in
          if nr_status r1 = StFailed \<and> nr_error r1 = None
          then r1\<lparr>nr_error := Some (''node failed with exit code '' @ itoa (nr_exit r1))\<rparr> else r1)"

definition stop_worker :: "string \<Rightarrow> eng \<Rightarrow> eng" where
  "stop_worker i s = s\<lparr>en_running := AList.delete i (en_running s)\<rparr>"

text \<open>A worker copies the results; if its node is to run it says so before it calls the runner.\<close>

definition worker_snapshot :: "node_spec \<Rightarrow> int \<Rightarrow> eng \<Rightarrow> eng" where
  "worker_snapshot n k s =
     (let s1 = s\<lparr>en_running := AList.update (ns_id n) (Ready k (en_results s) (en_iters s)) (en_running s)\<rparr>
      in if fst (evaluate_readiness n (en_results s)) = ActionRun
         then emit EvStarted (ns_id n) StRunning NoReason s1 else s1)"

definition settle_skip :: "string \<Rightarrow> skip_reason \<Rightarrow> eng \<Rightarrow> eng" where
  "settle_skip i rs s = emit EvSkipped i StSkipped rs (stop_worker i (set_result i (skip_result rs) s))"

definition settle_result :: "wf_def \<Rightarrow> string \<Rightarrow> node_result \<Rightarrow> eng \<Rightarrow> eng" where
  "settle_result d i r s =
     emit EvFinished i (nr_status r) NoReason
       (stop_worker i (set_result i (r\<lparr>nr_loops := node_loops d i (en_iters s)\<rparr>) s))"

inductive wf_step :: "wf_def \<Rightarrow> eng \<Rightarrow> eng \<Rightarrow> bool" for d where
  step_launch: "en_queue s \<noteq> [] \<Longrightarrow> wf_step d s (launch s)"
| step_snapshot: "map_of (en_running s) i = Some (Launched k) \<Longrightarrow> node_by_id d i = Some n
    \<Longrightarrow> wf_step d s (worker_snapshot n k s)"
| step_skip: "map_of (en_running s) i = Some (Ready k ups its) \<Longrightarrow> node_by_id d i = Some n
    \<Longrightarrow> evaluate_readiness n ups = (ActionSkip, rs)
    \<Longrightarrow> evaluate_downstream d f i (settle_skip i rs s) = Some s' \<Longrightarrow> wf_step d s s'"
| step_finish: "map_of (en_running s) i = Some (Ready k ups its) \<Longrightarrow> node_by_id d i = Some n
    \<Longrightarrow> evaluate_readiness n ups = (ActionRun, rs) \<Longrightarrow> r = normalize_result res err
    \<Longrightarrow> evaluate_downstream d f i (settle_result d i r s) = Some s' \<Longrightarrow> wf_step d s s'"

inductive_cases wf_stepE: "wf_step d s s'"

abbreviation wf_reach :: "wf_def \<Rightarrow> eng \<Rightarrow> eng \<Rightarrow> bool" where
  "wf_reach d \<equiv> (wf_step d)\<^sup>*\<^sup>*"

section \<open>The end of a run\<close>

definition downstream_ids :: "wf_def \<Rightarrow> string \<Rightarrow> string list" where
  "downstream_ids d i = map ns_id (dependents d i)"

text \<open>The recursive marking of orphans, as the walk over the nodes still to visit.\<close>

function sweep :: "wf_def \<Rightarrow> string list \<Rightarrow> eng \<Rightarrow> eng" where
  "sweep d [] s = s"
| "sweep d (i # is) s =
     (if settled s i then sweep d is s
      else sweep d (downstream_ids d i @ is) (mark_skipped i SrNeverActivated s))"
  by pat_completeness auto

lemma settled_mark_skipped: "settled (mark_skipped i rs s) j \<longleftrightarrow> j = i \<or> settled s j"
  by (simp add: settled_def mark_skipped_def emit_def set_result_def map_of_update)

definition unsettled :: "wf_def \<Rightarrow> string list \<Rightarrow> eng \<Rightarrow> string set" where
  "unsettled d is s = {i \<in> ns_id ` set (wd_nodes d) \<union> set is. \<not> settled s i}"

lemma set_dependents: "set (dependents d i) \<subseteq> set (wd_nodes d)"
  by (auto simp: dependents_def)

termination sweep
proof (relation "measures [\<lambda>(d, is, s). card (unsettled d is s), \<lambda>(d, is, s). length is]", goal_cases)
  case (2 d i "is" s)
  have "unsettled d is s \<subseteq> unsettled d (i # is) s" by (auto simp: unsettled_def)
  moreover have "finite (unsettled d (i # is) s)" by (simp add: unsettled_def)
  ultimately have "card (unsettled d is s) \<le> card (unsettled d (i # is) s)" by (metis card_mono)
  then show ?case by auto
next
  case (3 d i "is" s)
  have "unsettled d (downstream_ids d i @ is) (mark_skipped i SrNeverActivated s) \<subseteq> unsettled d (i # is) s - {i}"
    using set_dependents [of d i] by (auto simp: unsettled_def settled_mark_skipped downstream_ids_def)
  moreover have "i \<in> unsettled d (i # is) s" using 3 by (simp add: unsettled_def)
  moreover have "finite (unsettled d (i # is) s)" by (simp add: unsettled_def)
  ultimately have "card (unsettled d (downstream_ids d i @ is) (mark_skipped i SrNeverActivated s)) < card (unsettled d (i # is) s)"
    by (metis (no_types, lifting) card_Diff1_less card_mono finite_Diff le_less_trans)
  then show ?case by simp
qed simp

definition sweep_orphans :: "wf_def \<Rightarrow> eng \<Rightarrow> eng" where
  "sweep_orphans d s = sweep d (fallback_targets d) s"

datatype run_status = RunCompleted | RunFailed | RunCanceled

definition failure_handled :: "wf_def \<Rightarrow> results \<Rightarrow> string \<Rightarrow> bool" where
  "failure_handled d m i \<longleftrightarrow>
     list_ex (\<lambda>n. list_ex (\<lambda>e. dp_when e \<noteq> [] \<and> dp_node e = i) (ns_depends n)
        \<and> (case map_of m (ns_id n) of Some r \<Rightarrow> nr_status r = StSucceeded | None \<Rightarrow> False)) (wd_nodes d)"

definition node_spoils :: "wf_def \<Rightarrow> results \<Rightarrow> node_spec \<Rightarrow> bool" where
  "node_spoils d m n =
     (case map_of m (ns_id n) of
        None \<Rightarrow> True
      | Some r \<Rightarrow> (nr_status r = StSkipped \<and> nr_reason r = SrCascadedFailure)
          \<or> (nr_status r = StFailed \<and> \<not> failure_handled d m (ns_id n)))"

definition settle_global_status :: "wf_def \<Rightarrow> results \<Rightarrow> run_status" where
  "settle_global_status d m = (if list_ex (node_spoils d m) (wd_nodes d) then RunFailed else RunCompleted)"

text \<open>\<open>lower\<close> is \<open>strings.ToLower\<close>.\<close>

definition is_human_abort_reply :: "(string \<Rightarrow> string) \<Rightarrow> string \<Rightarrow> string list \<Rightarrow> bool" where
  "is_human_abort_reply lower output options \<longleftrightarrow>
     (let t = trim_space (lower output) in
      if t = [] then False
      else if t \<in> {''abort'', ''abort workflow'', ''cancel'', ''cancelled'', ''canceled''} then True
      else list_ex (\<lambda>opt. let o' = trim_space (lower opt) in
             (sublist ''abort'' o' \<or> sublist ''cancel'' o') \<and> t = o') options)"

datatype run_error_text =
    NoRunError | CtxError | QuotaBreached | NodeFailed string string | UnhandledFailure | AbortedAt string

definition run_outcome :: "wf_def \<Rightarrow> bool \<Rightarrow> eng \<Rightarrow> run_status \<times> run_error_text" where
  "run_outcome d cancelled s =
     (if cancelled then (RunCanceled, CtxError)
      else
        let st = settle_global_status d (en_results s);
            st1 = (if en_breached s \<and> st = RunCompleted then RunFailed else st);
            failed = find_map (\<lambda>n. case map_of (en_results s) (ns_id n) of
                Some r \<Rightarrow> (if nr_status r = StFailed then map_option (NodeFailed (ns_id n)) (nr_error r) else None)
              | None \<Rightarrow> None) (wd_nodes d)
        in (st1, if en_breached s then QuotaBreached
                 else if st1 = RunFailed then (case failed of Some x \<Rightarrow> x | None \<Rightarrow> UnhandledFailure)
                 else NoRunError))"

definition abort_target :: "(string \<Rightarrow> string) \<Rightarrow> wf_def \<Rightarrow> eng \<Rightarrow> string option" where
  "abort_target lower d s =
     find_map (\<lambda>l. if lo_exhausted l = [] then None
        else (case node_by_id d (lo_exhausted l) of
            Some n \<Rightarrow> (if ns_type n \<noteq> NtHuman then None
              else (case map_of (en_results s) (lo_exhausted l) of
                  Some r \<Rightarrow> if is_human_abort_reply lower (nr_output r) (ns_options n) then Some (lo_exhausted l) else None
                | None \<Rightarrow> None))
          | None \<Rightarrow> None)) (wd_loops d)"

text \<open>What \<open>Execute\<close> returns once its workers are done.\<close>

definition run_settle :: "(string \<Rightarrow> string) \<Rightarrow> wf_def \<Rightarrow> bool \<Rightarrow> eng \<Rightarrow> (run_status \<times> run_error_text) \<times> eng" where
  "run_settle lower d cancelled s =
     (let s1 = sweep_orphans d s; out = run_outcome d cancelled s1 in
      (if cancelled then out
       else (case abort_target lower d s1 of Some i \<Rightarrow> (RunCanceled, AbortedAt i) | None \<Rightarrow> out), s1))"

end
