(* ===== verification/WfEngineInv.thy ===== *)
theory WfEngineInv
  imports WfEngine
begin

text \<open>
  Invariants of the scheduler: what one evaluation of dependents may change, the caps on
  executions and on loop iterations, and the bound on the length of a run.
\<close>

section \<open>The parts of the state an operation touches\<close>

named_theorems eng_frames \<open>fields an operation of the scheduler leaves alone\<close>

lemma emit_fields [eng_frames]:
  "en_results (emit k i st rs s) = en_results s" "en_queue (emit k i st rs s) = en_queue s"
  "en_running (emit k i st rs s) = en_running s" "en_counts (emit k i st rs s) = en_counts s"
  "en_iters (emit k i st rs s) = en_iters s" "en_replaying (emit k i st rs s) = en_replaying s"
  "en_breached (emit k i st rs s) = en_breached s"
  by (simp_all add: emit_def)

lemma set_result_fields [eng_frames]:
  "en_results (set_result i r s) = AList.update i r (en_results s)" "en_queue (set_result i r s) = en_queue s"
  "en_running (set_result i r s) = en_running s" "en_counts (set_result i r s) = en_counts s"
  "en_iters (set_result i r s) = en_iters s" "en_replaying (set_result i r s) = en_replaying s"
  "en_breached (set_result i r s) = en_breached s"
  by (simp_all add: set_result_def)

lemma mark_skipped_fields [eng_frames]:
  "en_results (mark_skipped i rs s) = AList.update i (skip_result rs) (en_results s)"
  "en_queue (mark_skipped i rs s) = en_queue s" "en_running (mark_skipped i rs s) = en_running s"
  "en_counts (mark_skipped i rs s) = en_counts s" "en_iters (mark_skipped i rs s) = en_iters s"
  "en_replaying (mark_skipped i rs s) = en_replaying s" "en_breached (mark_skipped i rs s) = en_breached s"
  by (simp_all add: mark_skipped_def eng_frames)

lemma skip_dependent_fields [eng_frames]:
  "en_queue (fst (skip_dependent n rs s)) = en_queue s" "en_running (fst (skip_dependent n rs s)) = en_running s"
  "en_counts (fst (skip_dependent n rs s)) = en_counts s" "en_iters (fst (skip_dependent n rs s)) = en_iters s"
  "en_replaying (fst (skip_dependent n rs s)) = en_replaying s" "en_breached (fst (skip_dependent n rs s)) = en_breached s"
  by (simp_all add: skip_dependent_def eng_frames)

lemma breach_fields [eng_frames]:
  "en_queue (fst (breach d l t s)) = en_queue s" "en_running (fst (breach d l t s)) = en_running s"
  "en_counts (fst (breach d l t s)) = en_counts s" "en_iters (fst (breach d l t s)) = en_iters s"
  "en_replaying (fst (breach d l t s)) = en_replaying s" "en_breached (fst (breach d l t s))"
  by (simp_all add: breach_def Let_def eng_frames)

lemma enqueue_fields [eng_frames]:
  "en_results (snd (enqueue d i s)) = en_results s" "en_running (snd (enqueue d i s)) = en_running s"
  "en_counts (snd (enqueue d i s)) = en_counts s" "en_iters (snd (enqueue d i s)) = en_iters s"
  "en_replaying (snd (enqueue d i s)) = en_replaying s" "en_breached (snd (enqueue d i s)) = en_breached s"
  by (simp_all add: enqueue_def)

lemma enqueue_queue:
  "en_queue (snd (enqueue d i s)) = en_queue s @ (if fst (enqueue d i s) then [i] else [])"
  by (simp add: enqueue_def)

lemma enqueue_fst:
  "fst (enqueue d i s) \<longleftrightarrow> \<not> is_running s i \<and> i \<notin> set (en_queue s) \<and> tally (en_counts s) i < max_executions d"
  by (auto simp: enqueue_def)

text \<open>The dispatch of one dependent, by what it does to the state.\<close>

lemma tally_update [simp]: "tally (AList.update k v m) j = (if j = k then v else tally m j)"
  by (simp add: tally_def map_of_update)

lemma tally_Nil [simp]: "tally [] k = 0"
  by (simp add: tally_def)

lemma reset_loops_cases: "tally (reset_loops ls f cs m) k = tally m k \<or> tally (reset_loops ls f cs m) k = 0"
proof (induction ls f cs m rule: reset_loops.induct)
  case (3 ls f c cs m)
  then show ?case by (auto split: if_splits)
qed simp_all

lemma reset_descendants_cases:
  "tally (reset_descendants d i m) k = tally m k \<or> tally (reset_descendants d i m) k = 0"
  unfolding reset_descendants_def by (rule reset_loops_cases)

text \<open>A predicate that every turn of the loop keeps is kept by the whole evaluation.\<close>

definition turn_keeps :: "wf_def \<Rightarrow> (eng \<Rightarrow> bool) \<Rightarrow> bool" where
  "turn_keeps d P \<longleftrightarrow>
     (\<forall>i dead sk n s. n \<in> set (dependents d i) \<longrightarrow> P s \<longrightarrow> P (fst (eval_dependent d i dead sk n s)))"

lemma evaluate_keeps:
  "turn_keeps d P \<Longrightarrow> P s \<Longrightarrow> evaluate_downstream d f i s = Some s' \<Longrightarrow> P s'"
  "turn_keeps d P \<Longrightarrow> P s \<Longrightarrow> set ns \<subseteq> set (dependents d i)
    \<Longrightarrow> eval_dependents d f i dead sk ns s = Some s' \<Longrightarrow> P s'"
proof (induction d f i s and d f i dead sk ns s arbitrary: s' and s' rule: evaluate_downstream_eval_dependents.induct)
  case (2 d f i s)
  then show ?case by simp
next
  case (4 d f i dead sk n ns s)
  have P1: "P (fst (eval_dependent d i dead sk n s))" using "4.prems" by (simp add: turn_keeps_def)
  obtain s1 b where e: "eval_dependent d i dead sk n s = (s1, b)" by fastforce
  show ?case
  proof (cases b)
    case False
    with "4.IH"(3) [OF e [symmetric]] e P1 "4.prems" show ?thesis by simp
  next
    case True
    with "4.prems"(4) e obtain s2 where s2: "evaluate_downstream d f (ns_id n) s1 = Some s2"
      "eval_dependents d f i dead sk ns s2 = Some s'" by (auto split: option.splits)
    have "P s2" using "4.IH"(1) [OF e [symmetric]] e True P1 s2(1) "4.prems"(1) by simp
    with "4.IH"(2) [OF e [symmetric]] e True s2 "4.prems" show ?thesis by simp
  qed
qed simp_all

text \<open>What one turn does, as the calls it ends in.\<close>

lemma eval_dependent_cases:
  obtains (same) "eval_dependent d i dead sk n s = (s, False)"
  | (skip) rs where "eval_dependent d i dead sk n s = skip_dependent n rs s"
  | (admit) e where "e \<in> set (ns_depends n)" "eval_dependent d i dead sk n s = admit_via_edge d e (ns_id n) s"
      "dp_node e = i" "\<not> (dead \<and> settled s (ns_id n))"
proof (cases "dead \<and> settled s (ns_id n)")
  case True
  then show thesis by (intro same) (simp add: eval_dependent_def)
next
  case live: False
  show thesis
  proof (cases "find (edge_matches s i sk) (cond_edges n)")
    case (Some e)
    then have "e \<in> set (ns_depends n)" "dp_node e = i"
      by (auto simp: cond_edges_def edge_matches_def dest!: find_SomeD)
    then show thesis using live Some by (intro admit) (auto simp: eval_dependent_def)
  next
    case nomatch: None
    show thesis
    proof (cases "find (\<lambda>e. dp_node e = i) (uncond_edges n)")
      case None
      then show thesis using live nomatch by (cases "uncond_edges n = [] \<and> list_all (\<lambda>e. settled s (dp_node e)) (cond_edges n)")
          (auto simp: eval_dependent_def intro: same skip)
    next
      case (Some e)
      then have e: "e \<in> set (ns_depends n)" "dp_node e = i" by (auto simp: uncond_edges_def dest!: find_SomeD)
      obtain act rs where r: "evaluate_readiness n (en_results s) = (act, rs)" by fastforce
      show thesis
      proof (cases "list_all (\<lambda>e. settled s (dp_node e)) (uncond_edges n) \<or> (ns_join n = ''always'' \<and> has_status s i StSucceeded)")
        case False
        then show thesis using live nomatch Some by (intro same) (auto simp: eval_dependent_def)
      next
        case True
        show thesis
        proof (cases act)
          case ActionRun
          then show thesis using live nomatch Some True r e by (intro admit [of e]) (auto simp: eval_dependent_def)
        next
          case ActionSkip
          then show thesis using live nomatch Some True r by (intro skip [of rs]) (auto simp: eval_dependent_def)
        qed
      qed
    qed
  qed
qed

lemma admit_cases:
  obtains (same) "admit_via_edge d e t s = (s, False)"
  | (plain) m where "admit_via_edge d e t s = (snd (enqueue d t (s\<lparr>en_iters := m\<rparr>)), False)"
      "\<And>k. tally m k = tally (en_iters s) k \<or> tally m k = 0"
  | (counted) l where "loop_by_id d (dp_counts e) = Some l" "\<not> (0 < lo_max l \<and> lo_max l \<le> tally (en_iters s) (lo_id l))"
      "fst (enqueue d t s)" "\<not> is_pending s t"
      "admit_via_edge d e t s = ((snd (enqueue d t s))\<lparr>en_iters := reset_descendants d (lo_id l)
         (AList.update (lo_id l) (tally (en_iters s) (lo_id l) + 1) (en_iters s))\<rparr>, False)"
  | (fallback) l where "loop_by_id d (dp_counts e) = Some l" "lo_exhausted l \<noteq> []" "0 < lo_max l"
      "lo_max l \<le> tally (en_iters s) (lo_id l)"
      "admit_via_edge d e t s = (snd (enqueue d (lo_exhausted l) s), False)"
  | (breached) l where "loop_by_id d (dp_counts e) = Some l" "lo_exhausted l = []" "0 < lo_max l"
      "lo_max l \<le> tally (en_iters s) (lo_id l)" "admit_via_edge d e t s = breach d (lo_id l) t s"
proof (cases "en_replaying s \<and> settled s t")
  case True
  then show thesis by (intro same) (simp add: admit_via_edge_def)
next
  case nr: False
  show thesis
  proof (cases "dp_resets e \<noteq> []")
    case True
    show thesis
    proof (rule plain)
      show "admit_via_edge d e t s = (snd (enqueue d t (s\<lparr>en_iters := reset_descendants d (dp_resets e)
             (AList.update (dp_resets e) 0 (en_iters s))\<rparr>)), False)"
        using nr True by (auto simp: admit_via_edge_def)
      show "tally (reset_descendants d (dp_resets e) (AList.update (dp_resets e) 0 (en_iters s))) k = tally (en_iters s) k
        \<or> tally (reset_descendants d (dp_resets e) (AList.update (dp_resets e) 0 (en_iters s))) k = 0" for k
        using reset_descendants_cases [of d "dp_resets e" "AList.update (dp_resets e) 0 (en_iters s)" k] by (auto split: if_splits)
    qed
  next
    case nres: False
    show thesis
    proof (cases "dp_counts e = [] \<or> loop_by_id d (dp_counts e) = None")
      case True
      show thesis by (rule plain [of "en_iters s"]) (use nr nres True in \<open>auto simp: admit_via_edge_def\<close>)
    next
      case False
      then obtain l where l: "loop_by_id d (dp_counts e) = Some l" "dp_counts e \<noteq> []" by blast
      show thesis
      proof (cases "is_pending s t")
        case True
        then show thesis using nr nres l by (intro same) (auto simp: admit_via_edge_def)
      next
        case np: False
        show thesis
        proof (cases "0 < lo_max l \<and> lo_max l \<le> tally (en_iters s) (lo_id l)")
          case True
          then show thesis
            using nr nres l np by (cases "lo_exhausted l = []") (auto simp: admit_via_edge_def intro: fallback [of l] breached [of l])
        next
          case free: False
          show thesis
          proof (cases "enqueue d t s")
            case (Pair b s1)
            show thesis
            proof (cases b)
              case True
              moreover have "en_iters s1 = en_iters s" using enqueue_fields(4) [of d t s] Pair by simp
              ultimately show thesis
                using nr nres l np free Pair by (intro counted [of l]) (auto simp: admit_via_edge_def)
            next
              case False
              moreover have "s1 = s" using Pair False by (auto simp: enqueue_def split: if_splits)
              ultimately show thesis
                using nr nres l np free Pair by (intro same) (auto simp: admit_via_edge_def)
            qed
          qed
        qed
      qed
    qed
  qed
qed

section \<open>The caps\<close>

abbreviation node_ids :: "wf_def \<Rightarrow> string set" where
  "node_ids d \<equiv> ns_id ` set (wd_nodes d)"

definition caps_ok :: "wf_def \<Rightarrow> eng \<Rightarrow> bool" where
  "caps_ok d s \<longleftrightarrow> distinct (en_queue s) \<and> alist_wf (en_running s)
     \<and> (\<forall>i \<in> set (en_queue s). i \<in> node_ids d \<and> \<not> is_running s i \<and> tally (en_counts s) i < max_executions d)
     \<and> (\<forall>i. is_running s i \<longrightarrow> i \<in> node_ids d)
     \<and> (\<forall>i. tally (en_counts s) i \<le> max_executions d)"

definition loops_ok :: "wf_def \<Rightarrow> eng \<Rightarrow> bool" where
  "loops_ok d s \<longleftrightarrow> (\<forall>l \<in> set (wd_loops d). 0 < lo_max l \<longrightarrow> tally (en_iters s) (lo_id l) \<le> lo_max l)"

definition eng_ok :: "wf_def \<Rightarrow> eng \<Rightarrow> bool" where
  "eng_ok d s \<longleftrightarrow> caps_ok d s \<and> loops_ok d s"

lemma caps_frame:
  "en_queue s' = en_queue s \<Longrightarrow> en_running s' = en_running s \<Longrightarrow> en_counts s' = en_counts s
   \<Longrightarrow> caps_ok d s' = caps_ok d s"
  by (simp add: caps_ok_def is_running_def)

lemma caps_enqueue:
  assumes "caps_ok d s" "i \<in> node_ids d"
  shows "caps_ok d (snd (enqueue d i s))"
  using assms by (auto simp: enqueue_def caps_ok_def is_running_def)

lemma loops_frame: "en_iters s' = en_iters s \<Longrightarrow> loops_ok d s' = loops_ok d s"
  by (simp add: loops_ok_def)

lemma loops_lowered:
  assumes "loops_ok d s" "\<And>k. tally (en_iters s') k = tally (en_iters s) k \<or> tally (en_iters s') k = 0"
  shows "loops_ok d s'"
  unfolding loops_ok_def
proof (intro ballI impI)
  fix l assume "l \<in> set (wd_loops d)" "0 < lo_max l"
  with assms(1) have "tally (en_iters s) (lo_id l) \<le> lo_max l" by (simp add: loops_ok_def)
  with assms(2) [of "lo_id l"] \<open>0 < lo_max l\<close> show "tally (en_iters s') (lo_id l) \<le> lo_max l" by auto
qed

lemma fallback_known:
  assumes "validate_loops d = None" "loop_by_id d c = Some l" "lo_exhausted l \<noteq> []"
  shows "lo_exhausted l \<in> node_ids d"
proof -
  have "l \<in> set (wd_loops d)" using assms(2) by (auto dest: last_by_SomeD)
  with validate_loops_None(4) [OF assms(1)] have "loop_limits_check (node_ids d) l = None" by blast
  with assms(3) show ?thesis by (auto simp: loop_limits_check_def split: if_splits)
qed

lemma admit_ok:
  assumes "validate_loops d = None" "eng_ok d s" "t \<in> node_ids d"
  shows "eng_ok d (fst (admit_via_edge d e t s))"
proof (cases rule: admit_cases [of d e t s])
  case same
  then show ?thesis using assms(2) by simp
next
  case (plain m)
  have "caps_ok d (s\<lparr>en_iters := m\<rparr>)" using assms(2) caps_frame [of "s\<lparr>en_iters := m\<rparr>" s] by (simp add: eng_ok_def)
  moreover have "loops_ok d (snd (enqueue d t (s\<lparr>en_iters := m\<rparr>)))"
    by (rule loops_lowered [of d s]) (use assms(2) plain(2) in \<open>auto simp: eng_ok_def eng_frames\<close>)
  ultimately show ?thesis using plain(1) assms(3) by (simp add: eng_ok_def caps_enqueue)
next
  case (counted l)
  have l: "l \<in> set (wd_loops d)" using counted(1) by (auto dest: last_by_SomeD)
  have uniq: "k = l" if "k \<in> set (wd_loops d)" "lo_id k = lo_id l" for k
    using that l validate_loops_None(1) [OF assms(1)] by (auto simp: distinct_map dest: inj_onD)
  let ?m = "AList.update (lo_id l) (tally (en_iters s) (lo_id l) + 1) (en_iters s)"
  have up: "loops_ok d (s\<lparr>en_iters := ?m\<rparr>)"
    unfolding loops_ok_def
  proof (intro ballI impI)
    fix k assume k: "k \<in> set (wd_loops d)" "0 < lo_max k"
    show "tally (en_iters (s\<lparr>en_iters := ?m\<rparr>)) (lo_id k) \<le> lo_max k"
    proof (cases "lo_id k = lo_id l")
      case True
      with uniq k have "k = l" by blast
      with k counted(2) show ?thesis by simp
    next
      case False
      with assms(2) k show ?thesis by (simp add: eng_ok_def loops_ok_def)
    qed
  qed
  have "loops_ok d (fst (admit_via_edge d e t s))"
  proof (rule loops_lowered [OF up])
    fix k show "tally (en_iters (fst (admit_via_edge d e t s))) k = tally (en_iters (s\<lparr>en_iters := ?m\<rparr>)) k
      \<or> tally (en_iters (fst (admit_via_edge d e t s))) k = 0"
      using reset_descendants_cases [of d "lo_id l" ?m k] unfolding counted(5) by simp
  qed
  moreover have "caps_ok d (fst (admit_via_edge d e t s))"
    using caps_enqueue [of d s t] assms(2,3) counted(5)
      caps_frame [of "fst (admit_via_edge d e t s)" "snd (enqueue d t s)"] by (simp add: eng_ok_def)
  ultimately show ?thesis by (simp add: eng_ok_def)
next
  case (fallback l)
  then show ?thesis
    using assms caps_enqueue [of d s "lo_exhausted l"] fallback_known [OF assms(1) fallback(1,2)]
      loops_frame [of "snd (enqueue d (lo_exhausted l) s)" s] by (simp add: eng_ok_def eng_frames)
next
  case (breached l)
  then show ?thesis
    using assms(2) caps_frame [of "fst (breach d (lo_id l) t s)" s] loops_frame [of "fst (breach d (lo_id l) t s)" s]
    by (simp add: eng_ok_def eng_frames)
qed

lemma turn_keeps_ok: "validate_loops d = None \<Longrightarrow> turn_keeps d (eng_ok d)"
  unfolding turn_keeps_def
proof (intro allI impI)
  fix i dead sk n s assume a: "validate_loops d = None" "n \<in> set (dependents d i)" "eng_ok d s"
  have n: "n \<in> set (wd_nodes d)" using a(2) set_dependents by blast
  show "eng_ok d (fst (eval_dependent d i dead sk n s))"
  proof (cases rule: eval_dependent_cases [of d i dead sk n s])
    case (skip rs)
    then show ?thesis
      using a(3) caps_frame [of "fst (skip_dependent n rs s)" s] loops_frame [of "fst (skip_dependent n rs s)" s]
      by (simp add: eng_ok_def eng_frames)
  next
    case (admit e)
    then show ?thesis using admit_ok [OF a(1,3)] n by simp
  qed (use a in simp)
qed

lemmas evaluate_ok = evaluate_keeps(1) [OF turn_keeps_ok]

section \<open>The caps hold in every run\<close>

lemma fold_launch:
  assumes "distinct is"
  shows "en_results (fold launch_one is s) = en_results s" "en_queue (fold launch_one is s) = en_queue s"
    "en_iters (fold launch_one is s) = en_iters s" "en_breached (fold launch_one is s) = en_breached s"
    "tally (en_counts (fold launch_one is s)) j = tally (en_counts s) j + (if j \<in> set is then 1 else 0)"
    "map_of (en_running (fold launch_one is s)) j =
       (if j \<in> set is then Some (Launched (tally (en_counts s) j + 1)) else map_of (en_running s) j)"
    "en_replaying (fold launch_one is s) = en_replaying s"
  using assms
  by (induction "is" arbitrary: s) (auto simp: launch_one_def Let_def map_of_update)

lemma fold_launch_wf: "alist_wf (en_running s) \<Longrightarrow> alist_wf (en_running (fold launch_one is s))"
proof (induction "is" arbitrary: s)
  case (Cons i "is")
  have "alist_wf (en_running (launch_one i s))" using Cons.prems by (auto simp: launch_one_def Let_def)
  with Cons.IH show ?case by simp
qed simp

lemma launch_fields:
  assumes "distinct (en_queue s)"
  shows "en_results (launch s) = en_results s" "en_queue (launch s) = []"
    "en_iters (launch s) = en_iters s" "en_breached (launch s) = en_breached s"
    "tally (en_counts (launch s)) j = tally (en_counts s) j + (if j \<in> set (en_queue s) then 1 else 0)"
    "map_of (en_running (launch s)) j =
       (if j \<in> set (en_queue s) then Some (Launched (tally (en_counts s) j + 1)) else map_of (en_running s) j)"
    "alist_wf (en_running s) \<Longrightarrow> alist_wf (en_running (launch s))"
    "en_replaying (launch s) = en_replaying s"
  unfolding launch_def using fold_launch [OF assms, of "s\<lparr>en_queue := []\<rparr>"] fold_launch_wf [of "s\<lparr>en_queue := []\<rparr>"] by simp_all

lemma launch_ok: "eng_ok d s \<Longrightarrow> eng_ok d (launch s)"
proof -
  assume a: "eng_ok d s"
  then have q: "distinct (en_queue s)" by (simp add: eng_ok_def caps_ok_def)
  have "loops_ok d (launch s)" using a by (simp add: eng_ok_def loops_ok_def launch_fields [OF q])
  moreover have "caps_ok d (launch s)"
    using a by (auto simp: eng_ok_def caps_ok_def is_running_def launch_fields [OF q] split: if_splits)
  ultimately show ?thesis by (simp add: eng_ok_def)
qed

lemma stop_worker_fields [eng_frames]:
  "en_results (stop_worker i s) = en_results s" "en_queue (stop_worker i s) = en_queue s"
  "en_running (stop_worker i s) = AList.delete i (en_running s)" "en_counts (stop_worker i s) = en_counts s"
  "en_iters (stop_worker i s) = en_iters s" "en_replaying (stop_worker i s) = en_replaying s"
  "en_breached (stop_worker i s) = en_breached s"
  by (simp_all add: stop_worker_def)

lemma settle_fields [eng_frames]:
  "en_queue (settle_skip i rs s) = en_queue s" "en_running (settle_skip i rs s) = AList.delete i (en_running s)"
  "en_counts (settle_skip i rs s) = en_counts s" "en_iters (settle_skip i rs s) = en_iters s"
  "en_results (settle_skip i rs s) = AList.update i (skip_result rs) (en_results s)"
  "en_replaying (settle_skip i rs s) = en_replaying s" "en_breached (settle_skip i rs s) = en_breached s"
  "en_queue (settle_result d i r s) = en_queue s" "en_running (settle_result d i r s) = AList.delete i (en_running s)"
  "en_counts (settle_result d i r s) = en_counts s" "en_iters (settle_result d i r s) = en_iters s"
  "en_results (settle_result d i r s) = AList.update i (r\<lparr>nr_loops := node_loops d i (en_iters s)\<rparr>) (en_results s)"
  "en_replaying (settle_result d i r s) = en_replaying s" "en_breached (settle_result d i r s) = en_breached s"
  by (simp_all add: settle_skip_def settle_result_def eng_frames)

lemma snapshot_fields [eng_frames]:
  "en_queue (worker_snapshot n k s) = en_queue s" "en_counts (worker_snapshot n k s) = en_counts s"
  "en_iters (worker_snapshot n k s) = en_iters s" "en_results (worker_snapshot n k s) = en_results s"
  "en_replaying (worker_snapshot n k s) = en_replaying s" "en_breached (worker_snapshot n k s) = en_breached s"
  "en_running (worker_snapshot n k s) = AList.update (ns_id n) (Ready k (en_results s) (en_iters s)) (en_running s)"
  by (simp_all add: worker_snapshot_def Let_def eng_frames)

lemma stopped_ok:
  assumes "eng_ok d s" "en_queue s' = en_queue s" "en_running s' = AList.delete i (en_running s)"
    "en_counts s' = en_counts s" "en_iters s' = en_iters s"
  shows "eng_ok d s'"
  using assms by (auto simp: eng_ok_def caps_ok_def loops_ok_def is_running_def map_of_delete_if)

lemma snapshot_ok:
  assumes "eng_ok d s" "map_of (en_running s) (ns_id n) \<noteq> None"
  shows "eng_ok d (worker_snapshot n k s)"
  using assms
  by (auto simp: eng_ok_def caps_ok_def loops_ok_def is_running_def eng_frames map_of_update)

lemma node_by_id_id: "node_by_id d i = Some n \<Longrightarrow> ns_id n = i \<and> n \<in> set (wd_nodes d)"
  by (auto dest: last_by_SomeD)

lemma node_by_id_in: "node_by_id d i = Some n \<Longrightarrow> i \<in> node_ids d"
  using node_by_id_id by blast

lemma wf_step_ok:
  assumes "validate_loops d = None"
  shows "wf_step d s s' \<Longrightarrow> eng_ok d s \<Longrightarrow> eng_ok d s'"
proof (induction rule: wf_step.induct)
  case (step_launch s)
  then show ?case by (simp add: launch_ok)
next
  case (step_snapshot s i k n)
  then show ?case using snapshot_ok [of d s n k] node_by_id_id [of d i n] by auto
next
  case (step_skip s i k ups its n rs f s')
  have "eng_ok d (settle_skip i rs s)" by (rule stopped_ok [OF step_skip.prems]) (simp_all add: eng_frames)
  with evaluate_ok [OF assms] step_skip show ?case by blast
next
  case (step_finish s i k ups its n rs r res err f s')
  have "eng_ok d (settle_result d i r s)" by (rule stopped_ok [OF step_finish.prems]) (simp_all add: eng_frames)
  with evaluate_ok [OF assms] step_finish show ?case by blast
qed

lemma max_executions_pos: "0 < max_executions d"
  by (simp add: max_executions_def)

lemma fold_enqueue_ok:
  "set ns \<subseteq> set (wd_nodes d) \<Longrightarrow> eng_ok d s \<Longrightarrow> eng_ok d (fold (\<lambda>n s. snd (enqueue d (ns_id n) s)) ns s)"
proof (induction ns arbitrary: s)
  case (Cons n ns)
  have "eng_ok d (snd (enqueue d (ns_id n) s))"
    using Cons.prems caps_enqueue [of d s "ns_id n"] loops_frame [of "snd (enqueue d (ns_id n) s)" s]
    by (simp add: eng_ok_def eng_frames)
  with Cons show ?case by simp
qed simp

lemma engine_start_ok: "eng_ok d (engine_start d)"
  unfolding engine_start_def
  by (rule fold_enqueue_ok)
    (auto simp: eng_ok_def caps_ok_def loops_ok_def engine_init_def is_running_def max_executions_pos less_imp_le)

lemma activate_ok: "eng_ok d s \<Longrightarrow> eng_ok d (activate d i s)"
proof (cases "node_by_id d i")
  case (Some n)
  assume a: "eng_ok d s"
  let ?s = "s\<lparr>en_results := AList.delete i (en_results s)\<rparr>"
  have "eng_ok d ?s" using a caps_frame [of ?s s] loops_frame [of ?s s] by (simp add: eng_ok_def)
  moreover have "i \<in> node_ids d" using node_by_id_id [OF Some] by auto
  ultimately show ?thesis
    using Some caps_enqueue [of d ?s i] loops_frame [of "snd (enqueue d i ?s)" ?s]
    by (simp add: activate_def eng_ok_def eng_frames)
qed (simp add: activate_def)

lemma replay_seeds_keeps:
  "turn_keeps d P \<Longrightarrow> P s \<Longrightarrow> replay_seeds d f is s = Some s' \<Longrightarrow> P s'"
proof (induction "is" arbitrary: s)
  case (Cons i "is")
  then obtain s1 where "evaluate_downstream d f i s = Some s1" "replay_seeds d f is s1 = Some s'"
    by (auto split: option.splits)
  with Cons evaluate_keeps(1) [of d P s f i s1] show ?case by blast
qed simp

lemma engine_resume_ok:
  assumes "validate_loops d = None" "engine_resume d f seeds iters counts order act = Some s"
    "\<And>i. tally counts i \<le> max_executions d" "\<And>l. l \<in> set (wd_loops d) \<Longrightarrow> 0 < lo_max l \<Longrightarrow> tally iters (lo_id l) \<le> lo_max l"
  shows "eng_ok d s"
proof -
  have "eng_ok d (engine_init seeds iters counts)"
    using assms(3,4) by (auto simp: eng_ok_def caps_ok_def loops_ok_def engine_init_def is_running_def)
  moreover from assms(2) obtain s1 where s1: "replay_seeds d f order (engine_init seeds iters counts) = Some s1"
    "s = fold (activate d) act (s1\<lparr>en_replaying := False\<rparr>)" by (auto simp: engine_resume_def)
  ultimately have "eng_ok d s1" using replay_seeds_keeps [OF turn_keeps_ok [OF assms(1)]] by blast
  then have "eng_ok d (s1\<lparr>en_replaying := False\<rparr>)"
    using caps_frame [of "s1\<lparr>en_replaying := False\<rparr>" s1] loops_frame [of "s1\<lparr>en_replaying := False\<rparr>" s1]
    by (simp add: eng_ok_def)
  then have "eng_ok d (fold (activate d) act (s1\<lparr>en_replaying := False\<rparr>))" for act
    by (induction act rule: rev_induct) (simp_all add: activate_ok)
  with s1(2) show ?thesis by simp
qed

lemma reach_ok:
  assumes "validate_loops d = None" "wf_reach d s0 s" "eng_ok d s0"
  shows "eng_ok d s"
  using assms(2,3) by (induction rule: rtranclp_induct) (auto intro: wf_step_ok [OF assms(1)])

text \<open>
  C6. The circuit breakers hold: in every state of a run that starts fresh, or from a snapshot
  within the limits, no node was launched more often than the execution cap, no loop with a quota
  has counted more iterations than it allows, and no node is queued twice or queued while it runs.
\<close>

theorem scheduler_caps:
  assumes "validate_loops d = None"
    "s0 = engine_start d \<or>
     (\<exists>f seeds iters counts order act. engine_resume d f seeds iters counts order act = Some s0
        \<and> (\<forall>i. tally counts i \<le> max_executions d)
        \<and> (\<forall>l \<in> set (wd_loops d). 0 < lo_max l \<longrightarrow> tally iters (lo_id l) \<le> lo_max l))"
    "wf_reach d s0 s"
  shows "(\<forall>i. tally (en_counts s) i \<le> max_executions d)
    \<and> (\<forall>l \<in> set (wd_loops d). 0 < lo_max l \<longrightarrow> tally (en_iters s) (lo_id l) \<le> lo_max l)
    \<and> distinct (en_queue s) \<and> distinct (map fst (en_running s))
    \<and> set (en_queue s) \<inter> fst ` set (en_running s) = {}"
proof -
  have "eng_ok d s0" using assms(2) engine_start_ok engine_resume_ok [OF assms(1)] by blast
  from reach_ok [OF assms(1,3) this] have ok: "caps_ok d s" "loops_ok d s" by (simp_all add: eng_ok_def)
  have "i \<notin> fst ` set (en_running s)" if "i \<in> set (en_queue s)" for i
    using ok(1) that by (auto simp: caps_ok_def is_running_def map_of_eq_None_iff)
  with ok show ?thesis by (auto simp: caps_ok_def loops_ok_def alist_wf_def)
qed

section \<open>A run is finite\<close>

text \<open>What is left to do: launches still allowed, and the steps of the workers that are up.\<close>

fun worker_steps :: "worker \<Rightarrow> nat" where
  "worker_steps (Launched _) = 2"
| "worker_steps (Ready _ _ _) = 1"

definition node_work :: "wf_def \<Rightarrow> eng \<Rightarrow> string \<Rightarrow> nat" where
  "node_work d s i = 3 * nat (max_executions d - tally (en_counts s) i)
     + (case map_of (en_running s) i of Some w \<Rightarrow> worker_steps w | None \<Rightarrow> 0)"

definition run_measure :: "wf_def \<Rightarrow> eng \<Rightarrow> nat" where
  "run_measure d s = (\<Sum>i \<in> node_ids d. node_work d s i)"

lemma run_measure_less:
  "i \<in> node_ids d \<Longrightarrow> node_work d s' i < node_work d s i \<Longrightarrow> (\<And>j. j \<in> node_ids d \<Longrightarrow> node_work d s' j \<le> node_work d s j)
   \<Longrightarrow> run_measure d s' < run_measure d s"
  unfolding run_measure_def by (rule sum_strict_mono_ex1) auto

lemma run_measure_frame:
  "en_running s' = en_running s \<Longrightarrow> en_counts s' = en_counts s \<Longrightarrow> run_measure d s' = run_measure d s"
  by (simp add: run_measure_def node_work_def)

lemma admit_frame:
  "en_running (fst (admit_via_edge d e t s)) = en_running s \<and> en_counts (fst (admit_via_edge d e t s)) = en_counts s"
  by (cases rule: admit_cases [of d e t s]) (simp_all add: eng_frames)

lemma evaluate_frame:
  assumes "evaluate_downstream d f i s = Some s'"
  shows "en_running s' = en_running s \<and> en_counts s' = en_counts s"
proof (rule evaluate_keeps(1) [OF _ _ assms])
  show "turn_keeps d (\<lambda>x :: eng. en_running x = en_running s \<and> en_counts x = en_counts s)"
    unfolding turn_keeps_def
  proof (intro allI impI)
    fix i dead sk n and x :: eng assume "en_running x = en_running s \<and> en_counts x = en_counts s"
    then show "en_running (fst (eval_dependent d i dead sk n x)) = en_running s
        \<and> en_counts (fst (eval_dependent d i dead sk n x)) = en_counts s"
      by (cases rule: eval_dependent_cases [of d i dead sk n x]) (simp_all add: eng_frames admit_frame)
  qed
qed simp

lemma run_measure_stop:
  assumes "map_of (en_running s) i = Some w" "i \<in> node_ids d"
    "en_running s' = AList.delete i (en_running s)" "en_counts s' = en_counts s"
  shows "run_measure d s' < run_measure d s"
proof (rule run_measure_less [OF assms(2)])
  show "node_work d s' i < node_work d s i"
    using assms by (cases w) (simp_all add: node_work_def map_of_delete_if)
  show "node_work d s' j \<le> node_work d s j" for j using assms by (simp add: node_work_def map_of_delete_if)
qed

lemma wf_step_measure:
  assumes "wf_step d s s'" "eng_ok d s"
  shows "run_measure d s' < run_measure d s"
  using assms
proof (induction rule: wf_step.induct)
  case (step_launch s)
  then have q: "distinct (en_queue s)"
    and k: "\<And>i. i \<in> set (en_queue s) \<Longrightarrow> i \<in> node_ids d \<and> map_of (en_running s) i = None \<and> tally (en_counts s) i < max_executions d"
    by (auto simp: eng_ok_def caps_ok_def is_running_def)
  obtain j where j: "j \<in> set (en_queue s)" using step_launch.hyps by (cases "en_queue s") auto
  have launched: "node_work d (launch s) i < node_work d s i" if "i \<in> set (en_queue s)" for i
  proof -
    have "nat (max_executions d - tally (en_counts s) i) = Suc (nat (max_executions d - (tally (en_counts s) i + 1)))"
      using k [OF that] by linarith
    then show ?thesis using k [OF that] that by (simp add: node_work_def launch_fields [OF q])
  qed
  have "node_work d (launch s) i \<le> node_work d s i" for i
    using launched [of i] by (cases "i \<in> set (en_queue s)") (simp_all add: node_work_def launch_fields [OF q])
  with k [OF j] launched [OF j] show ?case by (intro run_measure_less [of j]) auto
next
  case (step_snapshot s i k n)
  then have n: "ns_id n = i" "i \<in> node_ids d" using node_by_id_id [of d i n] by auto
  have work: "node_work d (worker_snapshot n k s) j = (if j = i then node_work d s i - 1 else node_work d s j)" for j
    using n(1) step_snapshot.hyps(1) by (simp add: node_work_def eng_frames map_of_update)
  have "0 < node_work d s i" using step_snapshot.hyps(1) by (simp add: node_work_def)
  then show ?case by (intro run_measure_less [OF n(2)]) (simp_all add: work)
next
  case (step_skip s i k ups its n rs f s')
  have "run_measure d (settle_skip i rs s) < run_measure d s"
    by (rule run_measure_stop [OF step_skip.hyps(1) node_by_id_in [OF step_skip.hyps(2)]]) (simp_all add: eng_frames)
  then show ?case using evaluate_frame [OF step_skip.hyps(4)] run_measure_frame [of s' "settle_skip i rs s" d] by simp
next
  case (step_finish s i k ups its n rs r res err f s')
  have "run_measure d (settle_result d i r s) < run_measure d s"
    by (rule run_measure_stop [OF step_finish.hyps(1) node_by_id_in [OF step_finish.hyps(2)]]) (simp_all add: eng_frames)
  then show ?case using evaluate_frame [OF step_finish.hyps(5)] run_measure_frame [of s' "settle_result d i r s" d] by simp
qed

lemma fold_enqueue_fields:
  "en_running (fold (\<lambda>n s. snd (enqueue d (ns_id n) s)) ns s) = en_running s"
  "en_counts (fold (\<lambda>n s. snd (enqueue d (ns_id n) s)) ns s) = en_counts s"
  "en_results (fold (\<lambda>n s. snd (enqueue d (ns_id n) s)) ns s) = en_results s"
  "en_iters (fold (\<lambda>n s. snd (enqueue d (ns_id n) s)) ns s) = en_iters s"
  "en_breached (fold (\<lambda>n s. snd (enqueue d (ns_id n) s)) ns s) = en_breached s"
  "en_replaying (fold (\<lambda>n s. snd (enqueue d (ns_id n) s)) ns s) = en_replaying s"
  by (induction ns arbitrary: s) (simp_all add: eng_frames)

lemma engine_start_fields:
  "en_running (engine_start d) = []" "en_counts (engine_start d) = []" "en_results (engine_start d) = []"
  "en_iters (engine_start d) = []" "\<not> en_breached (engine_start d)" "\<not> en_replaying (engine_start d)"
  by (simp_all add: engine_start_def fold_enqueue_fields engine_init_def)


end
