(* ===== verification/WfEngineProps.thy ===== *)
theory WfEngineProps
  imports WfEngineInv
begin

text \<open>
  The evaluation of dependents ends when no quota can be breached without a fallback, a run then
  stops only when it is idle, and a workflow without conditions runs its nodes in the order of
  their dependencies, each at most once, until every node is settled.
\<close>

section \<open>The descendants of a loop\<close>

lemma reset_loops_exact:
  assumes "acyclic (parents ls)"
  shows "\<forall>c \<in> set cs. c \<in> lo_id ` set ls \<and> card {k \<in> lo_id ` set ls. (c, k) \<in> (parents ls)\<^sup>*} \<le> f \<Longrightarrow>
    tally (reset_loops ls f cs m) k = (if \<exists>c \<in> set cs. (c, k) \<in> (parents ls)\<^sup>* then 0 else tally m k)"
  using assms
proof (induction ls f cs m arbitrary: k rule: reset_loops.induct)
  case (1 ls f m k)
  then show ?case by simp
next
  case (2 ls c cs m k)
  let ?D = "{k \<in> lo_id ` set ls. (c, k) \<in> (parents ls)\<^sup>*}"
  from "2.prems"(1) have "c \<in> ?D" and le: "card ?D \<le> 0" by simp_all
  moreover have "finite ?D" by simp
  ultimately have "0 < card ?D" using card_gt_0_iff by blast
  with le have False by linarith
  then show ?case ..
next
  case (3 ls f c cs m k)
  let ?D = "\<lambda>c. {k \<in> lo_id ` set ls. (c, k) \<in> (parents ls)\<^sup>*}"
  have child: "(c, c') \<in> parents ls \<and> c' \<in> lo_id ` set ls" if "c' \<in> set (child_loops ls c)" for c'
    using that by (auto simp: child_loops_def parents_def)
  have small: "card (?D c') \<le> f" if c': "c' \<in> set (child_loops ls c)" for c'
  proof -
    have "?D c' \<subseteq> ?D c" using child [OF c'] by (auto intro: converse_rtrancl_into_rtrancl)
    moreover have "c \<in> ?D c" using "3.prems"(1) by simp
    moreover have "c \<notin> ?D c'"
      using child [OF c'] "3.prems"(2) by (auto simp: acyclic_def dest: rtrancl_into_trancl2)
    ultimately have "?D c' \<subset> ?D c" by blast
    then have "card (?D c') < card (?D c)" by (rule psubset_card_mono [rotated]) simp
    with "3.prems"(1) show ?thesis by (simp add: less_Suc_eq_le [symmetric])
  qed
  have "tally (reset_loops ls f (child_loops ls c) (AList.update c 0 m)) j =
      (if \<exists>c' \<in> set (child_loops ls c). (c', j) \<in> (parents ls)\<^sup>* then 0 else tally (AList.update c 0 m) j)" for j
  proof (rule "3.IH"(1))
    show "\<forall>c' \<in> set (child_loops ls c). c' \<in> lo_id ` set ls \<and> card {k \<in> lo_id ` set ls. (c', k) \<in> (parents ls)\<^sup>*} \<le> f"
      using small child by blast
  qed (rule "3.prems"(2))
  moreover have "(\<exists>c' \<in> set (child_loops ls c). (c', k) \<in> (parents ls)\<^sup>*) \<or> k = c \<longleftrightarrow> (c, k) \<in> (parents ls)\<^sup>*"
  proof
    assume "(c, k) \<in> (parents ls)\<^sup>*"
    then show "(\<exists>c' \<in> set (child_loops ls c). (c', k) \<in> (parents ls)\<^sup>*) \<or> k = c"
      by (cases rule: converse_rtranclE) (auto simp: child_loops_def parents_def)
  next
    assume "(\<exists>c' \<in> set (child_loops ls c). (c', k) \<in> (parents ls)\<^sup>*) \<or> k = c"
    then show "(c, k) \<in> (parents ls)\<^sup>*" using child by (meson converse_rtrancl_into_rtrancl rtrancl.rtrancl_refl)
  qed
  moreover have "tally (reset_loops ls (Suc f) cs (reset_loops ls f (child_loops ls c) (AList.update c 0 m))) k =
      (if \<exists>c \<in> set cs. (c, k) \<in> (parents ls)\<^sup>* then 0
       else tally (reset_loops ls f (child_loops ls c) (AList.update c 0 m)) k)"
    using "3.IH"(2) "3.prems" by auto
  ultimately show ?case by auto
qed

text \<open>The fuel is enough: exactly the counters of the descendants are zeroed.\<close>

lemma reset_descendants_exact:
  assumes "validate_loops d = None"
  shows "tally (reset_descendants d i m) k = (if (i, k) \<in> (parents (wd_loops d))\<^sup>+ then 0 else tally m k)"
proof -
  let ?ls = "wd_loops d"
  note v = validate_loops_None [OF assms]
  have "card {k \<in> lo_id ` set ?ls. (c, k) \<in> (parents ?ls)\<^sup>*} \<le> length ?ls" for c
  proof -
    have "card {k \<in> lo_id ` set ?ls. (c, k) \<in> (parents ?ls)\<^sup>*} \<le> card (lo_id ` set ?ls)" by (rule card_mono) auto
    also have "\<dots> \<le> length ?ls" by (metis card_length length_map set_map)
    finally show ?thesis .
  qed
  then have "tally (reset_descendants d i m) k =
      (if \<exists>c \<in> set (child_loops ?ls i). (c, k) \<in> (parents ?ls)\<^sup>* then 0 else tally m k)"
    unfolding reset_descendants_def
    by (intro reset_loops_exact [OF parents_acyclic [OF v(1,2)]]) (auto simp: child_loops_def)
  moreover have "(\<exists>c \<in> set (child_loops ?ls i). (c, k) \<in> (parents ?ls)\<^sup>*) \<longleftrightarrow> (i, k) \<in> (parents ?ls)\<^sup>+"
  proof
    assume "(i, k) \<in> (parents ?ls)\<^sup>+"
    then obtain c where "(i, c) \<in> parents ?ls" "(c, k) \<in> (parents ?ls)\<^sup>*" by (meson tranclD)
    then show "\<exists>c \<in> set (child_loops ?ls i). (c, k) \<in> (parents ?ls)\<^sup>*"
      by (auto simp: child_loops_def parents_def)
  next
    assume "\<exists>c \<in> set (child_loops ?ls i). (c, k) \<in> (parents ?ls)\<^sup>*"
    then obtain c where "(i, c) \<in> parents ?ls" "(c, k) \<in> (parents ?ls)\<^sup>*"
      by (auto simp: child_loops_def parents_def)
    then show "(i, k) \<in> (parents ?ls)\<^sup>+" by (rule rtrancl_into_trancl2)
  qed
  ultimately show ?thesis by simp
qed

section \<open>Evaluation ends where every quota has a fallback\<close>

definition quotas_covered :: "wf_def \<Rightarrow> bool" where
  "quotas_covered d \<longleftrightarrow> (\<forall>l \<in> set (wd_loops d). 0 < lo_max l \<longrightarrow> lo_exhausted l \<noteq> [])"

definition unskipped :: "wf_def \<Rightarrow> eng \<Rightarrow> string set" where
  "unskipped d s = {i \<in> node_ids d. \<not> has_status s i StSkipped}"

lemma finite_unskipped [simp]: "finite (unskipped d s)"
  by (simp add: unskipped_def)

lemma has_status_update:
  "en_results s' = AList.update i r (en_results s) \<Longrightarrow>
   has_status s' j st = (if j = i then nr_status r = st else has_status s j st)"
  by (simp add: has_status_def map_of_update)

lemma has_status_frame: "en_results s' = en_results s \<Longrightarrow> has_status s' j st = has_status s j st"
  by (simp add: has_status_def)

lemma skip_result_status [simp]: "nr_status (skip_result rs) = StSkipped"
  by (simp add: skip_result_def)

lemma admit_covered:
  assumes "quotas_covered d"
  shows "en_results (fst (admit_via_edge d e t s)) = en_results s" "\<not> snd (admit_via_edge d e t s)"
  using assms
  by (cases rule: admit_cases [of d e t s]; auto simp: eng_frames quotas_covered_def dest: last_by_SomeD)+

lemma eval_dependent_unskipped:
  assumes "quotas_covered d" "n \<in> set (wd_nodes d)"
  shows "unskipped d (fst (eval_dependent d i dead sk n s)) \<subseteq> unskipped d s"
    "snd (eval_dependent d i dead sk n s) \<Longrightarrow>
     unskipped d (fst (eval_dependent d i dead sk n s)) \<subset> unskipped d s"
proof -
  have "unskipped d (fst (eval_dependent d i dead sk n s)) \<subseteq> unskipped d s
    \<and> (snd (eval_dependent d i dead sk n s) \<longrightarrow>
       unskipped d (fst (eval_dependent d i dead sk n s)) \<subset> unskipped d s)"
  proof (cases rule: eval_dependent_cases [of d i dead sk n s])
    case (skip rs)
    show ?thesis
    proof (cases "has_status s (ns_id n) StSkipped")
      case True
      then show ?thesis using skip by (simp add: skip_dependent_def)
    next
      case False
      then have "unskipped d (mark_skipped (ns_id n) rs s) = unskipped d s - {ns_id n}" "ns_id n \<in> unskipped d s"
        using assms(2) has_status_update [OF mark_skipped_fields(1)] by (auto simp: unskipped_def)
      then show ?thesis using skip False by (auto simp: skip_dependent_def)
    qed
  next
    case (admit e)
    then show ?thesis
      using admit_covered [OF assms(1), of e "ns_id n" s] has_status_frame [of "fst (admit_via_edge d e (ns_id n) s)" s]
      by (simp add: unskipped_def)
  qed simp
  then show "unskipped d (fst (eval_dependent d i dead sk n s)) \<subseteq> unskipped d s"
    "snd (eval_dependent d i dead sk n s) \<Longrightarrow>
     unskipped d (fst (eval_dependent d i dead sk n s)) \<subset> unskipped d s" by blast+
qed

lemma evaluate_unskipped:
  assumes "quotas_covered d" "evaluate_downstream d f i s = Some s'"
  shows "unskipped d s' \<subseteq> unskipped d s"
proof (rule evaluate_keeps(1) [OF _ _ assms(2)])
  show "turn_keeps d (\<lambda>x :: eng. unskipped d x \<subseteq> unskipped d s)"
    unfolding turn_keeps_def
  proof (intro allI impI)
    fix i dead sk n and x :: eng assume "n \<in> set (dependents d i)" "unskipped d x \<subseteq> unskipped d s"
    then show "unskipped d (fst (eval_dependent d i dead sk n x)) \<subseteq> unskipped d s"
      using eval_dependent_unskipped(1) [OF assms(1)] set_dependents by blast
  qed
qed simp

lemma evaluate_total:
  "quotas_covered d \<Longrightarrow> card (unskipped d s) < f \<Longrightarrow> evaluate_downstream d f i s \<noteq> None"
  "quotas_covered d \<Longrightarrow> card (unskipped d s) \<le> f \<Longrightarrow> set ns \<subseteq> set (wd_nodes d)
    \<Longrightarrow> eval_dependents d f i dead sk ns s \<noteq> None"
proof (induction d f i s and d f i dead sk ns s rule: evaluate_downstream_eval_dependents.induct)
  case (2 d f i s)
  then show ?case using set_dependents by simp
next
  case (4 d f i dead sk n ns s)
  obtain s1 b where e: "eval_dependent d i dead sk n s = (s1, b)" by fastforce
  note u = eval_dependent_unskipped [OF "4.prems"(1), of n i dead sk s, unfolded e fst_conv snd_conv]
  have c1: "card (unskipped d s1) \<le> card (unskipped d s)" using u(1) "4.prems"(3) by (simp add: card_mono)
  show ?case
  proof (cases b)
    case False
    then have bf: "b = False" by simp
    have "eval_dependents d f i dead sk ns s1 \<noteq> None"
      using "4.IH"(3) [OF e [symmetric] bf] c1 "4.prems" by simp
    with e bf show ?thesis by simp
  next
    case True
    then have bt: "b = True" by simp
    have "card (unskipped d s1) < card (unskipped d s)" using u(2) True "4.prems"(3) by (simp add: psubset_card_mono)
    then have "evaluate_downstream d f (ns_id n) s1 \<noteq> None"
      using "4.IH"(1) [OF e [symmetric] bt] "4.prems" by simp
    then obtain s2 where s2: "evaluate_downstream d f (ns_id n) s1 = Some s2" by blast
    have "card (unskipped d s2) \<le> card (unskipped d s1)"
      using evaluate_unskipped [OF "4.prems"(1) s2] by (simp add: card_mono)
    then have "eval_dependents d f i dead sk ns s2 \<noteq> None"
      using "4.IH"(2) [OF e [symmetric] bt s2] c1 "4.prems" by simp
    with e bt s2 show ?thesis by simp
  qed
qed simp_all

lemma evaluate_defined:
  assumes "quotas_covered d"
  shows "\<exists>f s'. evaluate_downstream d f i s = Some s'"
  using evaluate_total(1) [OF assms lessI] by blast

lemma running_known:
  assumes "eng_ok d s" "map_of (en_running s) i = Some w"
  obtains n where "node_by_id d i = Some n"
proof -
  have "i \<in> node_ids d" using assms by (auto simp: eng_ok_def caps_ok_def is_running_def)
  then have "node_by_id d i \<noteq> None" by (simp add: last_by_None)
  with that show thesis by blast
qed


end
