(* ===== verification/WfPlain.thy ===== *)
theory WfPlain
  imports WfEngineInv
begin

text \<open>
  Workflows without conditions, loops or early joins: the scheduler runs the nodes in the order of
  their dependencies, each at most once, and settles all of them.
\<close>

section \<open>The definitions considered\<close>

definition plain :: "wf_def \<Rightarrow> bool" where
  "plain d \<longleftrightarrow> wd_loops d = [] \<and> (\<forall>n \<in> set (wd_nodes d). ns_join n \<noteq> ''always'' \<and>
     (\<forall>e \<in> set (ns_depends n). dp_when e = [] \<and> dp_counts e = [] \<and> dp_resets e = []))"

definition deps_done :: "eng \<Rightarrow> node_spec \<Rightarrow> bool" where
  "deps_done s n \<longleftrightarrow> (\<forall>e \<in> set (ns_depends n). settled s (dp_node e))"

definition may_run :: "eng \<Rightarrow> node_spec \<Rightarrow> bool" where
  "may_run s n \<longleftrightarrow> fst (evaluate_readiness n (en_results s)) = ActionRun"

lemma plainD:
  assumes "plain d" "n \<in> set (wd_nodes d)"
  shows "cond_edges n = []" "uncond_edges n = ns_depends n" "ns_join n \<noteq> ''always''"
  using assms by (auto simp: plain_def cond_edges_def uncond_edges_def filter_empty_conv intro: filter_True)

lemma plain_admit:
  assumes "plain d" "n \<in> set (wd_nodes d)" "e \<in> set (ns_depends n)" "\<not> en_replaying s"
  shows "admit_via_edge d e t s = (snd (enqueue d t s), False)"
proof -
  have "dp_counts e = []" "dp_resets e = []" using assms(1-3) by (auto simp: plain_def)
  with assms(4) show ?thesis by (simp add: admit_via_edge_def)
qed

lemma may_run_cong:
  assumes "plain d" "n \<in> set (wd_nodes d)"
    "\<And>e. e \<in> set (ns_depends n) \<Longrightarrow> map_of (en_results s') (dp_node e) = map_of (en_results s) (dp_node e)"
  shows "may_run s' n = may_run s n"
proof -
  have "map (edge_readiness (en_results s')) (ns_depends n) = map (edge_readiness (en_results s)) (ns_depends n)"
  proof (rule map_cong [OF refl])
    fix e assume e: "e \<in> set (ns_depends n)"
    then have "dp_when e = []" using assms(1,2) by (auto simp: plain_def)
    with assms(3) [OF e] show "edge_readiness (en_results s') e = edge_readiness (en_results s) e"
      by (simp add: edge_readiness_def)
  qed
  then show ?thesis by (simp only: may_run_def evaluate_readiness_def)
qed

lemma in_dependents: "n \<in> set (dependents d i) \<longleftrightarrow> n \<in> set (wd_nodes d) \<and> (\<exists>e \<in> set (ns_depends n). dp_node e = i)"
  by (auto simp: dependents_def)

section \<open>The invariant\<close>

definition node_inv :: "eng \<Rightarrow> node_spec \<Rightarrow> bool" where
  "node_inv s n \<longleftrightarrow>
     (is_pending s (ns_id n) \<longrightarrow> deps_done s n \<and> \<not> settled s (ns_id n) \<and> may_run s n)
   \<and> (settled s (ns_id n) \<longrightarrow> deps_done s n)
   \<and> (tally (en_counts s) (ns_id n) = 0 \<or>
       tally (en_counts s) (ns_id n) = 1 \<and> (is_running s (ns_id n) \<or> settled s (ns_id n)))
   \<and> (ns_id n \<in> set (en_queue s) \<longrightarrow> tally (en_counts s) (ns_id n) = 0)
   \<and> (is_running s (ns_id n) \<longrightarrow> tally (en_counts s) (ns_id n) = 1)
   \<and> (settled s (ns_id n) \<longrightarrow> tally (en_counts s) (ns_id n) = 0 \<longrightarrow>
        has_status s (ns_id n) StSkipped \<and> \<not> may_run s n)"

definition plain_inv :: "wf_def \<Rightarrow> eng \<Rightarrow> bool" where
  "plain_inv d s \<longleftrightarrow> \<not> en_replaying s \<and> \<not> en_breached s \<and> (\<forall>n \<in> set (wd_nodes d). node_inv s n)"

text \<open>Every node whose dependencies are settled has been looked at, but those still to visit.\<close>

definition covered :: "wf_def \<Rightarrow> eng \<Rightarrow> node_spec set \<Rightarrow> bool" where
  "covered d s X \<longleftrightarrow> (\<forall>n \<in> set (wd_nodes d). deps_done s n \<longrightarrow> n \<in> X \<or> settled s (ns_id n) \<or> is_pending s (ns_id n))"

definition all_fresh :: "eng \<Rightarrow> node_spec set \<Rightarrow> bool" where
  "all_fresh s ns \<longleftrightarrow> (\<forall>n \<in> ns. tally (en_counts s) (ns_id n) = 0)"

lemma plain_invD: "plain_inv d s \<Longrightarrow> n \<in> set (wd_nodes d) \<Longrightarrow> node_inv s n"
  by (simp add: plain_inv_def)

text \<open>A node whose dependencies are settled settles.\<close>

lemma settle_inv:
  assumes p: "plain d" "distinct (map ns_id (wd_nodes d))" "plain_inv d s" "n \<in> set (wd_nodes d)"
    and n: "deps_done s n" "\<not> settled s (ns_id n)" "ns_id n \<notin> set (en_queue s)"
    and eqs: "en_results s' = AList.update (ns_id n) r (en_results s)" "en_queue s' = en_queue s"
      "en_counts s' = en_counts s" "\<And>j. is_running s' j \<longleftrightarrow> is_running s j \<and> j \<noteq> ns_id n"
      "en_replaying s' = en_replaying s" "en_breached s' = en_breached s"
    and how: "tally (en_counts s) (ns_id n) = 1 \<or> (nr_status r = StSkipped \<and> \<not> may_run s n)"
  shows "plain_inv d s'" "settled s' (ns_id n)" "all_fresh s' (set (dependents d (ns_id n)))"
    "covered d s X \<Longrightarrow> covered d s' (set (dependents d (ns_id n)) \<union> X)"
proof -
  let ?i = "ns_id n"
  have inj: "m = n" if "m \<in> set (wd_nodes d)" "ns_id m = ?i" for m
    using that p(2,4) by (auto simp: distinct_map dest: inj_onD)
  have set': "settled s' j \<longleftrightarrow> j = ?i \<or> settled s j" for j by (simp add: settled_def eqs map_of_update)
  have st': "has_status s' j t = (if j = ?i then nr_status r = t else has_status s j t)" for j t
    by (simp add: has_status_def eqs map_of_update)
  have pend': "is_pending s' j \<longleftrightarrow> is_pending s j \<and> j \<noteq> ?i" for j
    using n(3) by (auto simp: is_pending_def eqs)
  have done': "deps_done s m \<Longrightarrow> deps_done s' m" for m by (auto simp: deps_done_def set')
  have run': "may_run s' m = may_run s m" if "m \<in> set (wd_nodes d)" "deps_done s m" for m
  proof (rule may_run_cong [OF p(1) that(1)])
    fix e assume "e \<in> set (ns_depends m)"
    with that(2) n(2) have "dp_node e \<noteq> ?i" by (auto simp: deps_done_def)
    then show "map_of (en_results s') (dp_node e) = map_of (en_results s) (dp_node e)"
      by (simp add: eqs map_of_update)
  qed
  have "node_inv s' m" if m: "m \<in> set (wd_nodes d)" for m
  proof -
    note old = plain_invD [OF p(3) m]
    show ?thesis
    proof (cases "m = n")
      case True
      then have "node_inv s n" using old by simp
      then have c: "tally (en_counts s) ?i = 0 \<or> tally (en_counts s) ?i = 1" by (auto simp: node_inv_def)
      have "may_run s' n = may_run s n" by (rule run' [OF p(4) n(1)])
      with c how done' [OF n(1)] n(3) show ?thesis
        unfolding True node_inv_def by (auto simp: set' st' pend' eqs)
    next
      case False
      then have ne: "ns_id m \<noteq> ?i" using inj [OF m] by blast
      have "deps_done s m \<Longrightarrow> may_run s' m = may_run s m" by (rule run' [OF m])
      with old ne done' [of m] show ?thesis unfolding node_inv_def by (auto simp: set' st' pend' eqs)
    qed
  qed
  then show "plain_inv d s'" using p(3) by (simp add: plain_inv_def eqs)
  show "settled s' ?i" by (simp add: set')
  show "all_fresh s' (set (dependents d ?i))"
    unfolding all_fresh_def
  proof
    fix m assume "m \<in> set (dependents d ?i)"
    then have m: "m \<in> set (wd_nodes d)" "\<not> deps_done s m"
      using n(2) by (simp_all add: in_dependents deps_done_def) metis
    with plain_invD [OF p(3) m(1)] show "tally (en_counts s') (ns_id m) = 0"
      by (auto simp: node_inv_def is_pending_def eqs)
  qed
  assume cov: "covered d s X"
  show "covered d s' (set (dependents d ?i) \<union> X)"
    unfolding covered_def
  proof (intro ballI impI)
    fix m assume m: "m \<in> set (wd_nodes d)" and dn: "deps_done s' m"
    show "m \<in> set (dependents d ?i) \<union> X \<or> settled s' (ns_id m) \<or> is_pending s' (ns_id m)"
    proof (cases "deps_done s m")
      case True
      with cov m show ?thesis by (auto simp: covered_def set' pend')
    next
      case False
      with dn have "\<exists>e \<in> set (ns_depends m). dp_node e = ?i" by (auto simp: deps_done_def set')
      with m show ?thesis by (simp add: in_dependents)
    qed
  qed
qed

section \<open>One turn and one evaluation\<close>

lemma enqueue_inv:
  assumes "plain_inv d s" "n \<in> set (wd_nodes d)" "distinct (map ns_id (wd_nodes d))"
    "deps_done s n" "\<not> settled s (ns_id n)" "may_run s n" "tally (en_counts s) (ns_id n) = 0"
  shows "plain_inv d (snd (enqueue d (ns_id n) s))" "is_pending (snd (enqueue d (ns_id n) s)) (ns_id n)"
    "covered d s (insert n X) \<Longrightarrow> covered d (snd (enqueue d (ns_id n) s)) X"
proof -
  let ?s = "snd (enqueue d (ns_id n) s)"
  have inj: "m = n" if "m \<in> set (wd_nodes d)" "ns_id m = ns_id n" for m
    using that assms(2,3) by (auto simp: distinct_map dest: inj_onD)
  have q: "set (en_queue ?s) = insert (ns_id n) (set (en_queue s))"
    using plain_invD [OF assms(1,2)] assms(7) max_executions_pos [of d]
    by (auto simp: enqueue_def node_inv_def)
  have pend: "is_pending ?s j \<longleftrightarrow> j = ns_id n \<or> is_pending s j" for j
    by (auto simp: is_pending_def is_running_def eng_frames q)
  have same: "settled ?s = settled s" "deps_done ?s = deps_done s" "may_run ?s = may_run s"
    "has_status ?s = has_status s" "is_running ?s = is_running s"
    by (simp_all add: fun_eq_iff settled_def deps_done_def may_run_def has_status_def is_running_def eng_frames)
  have "node_inv ?s m" if m: "m \<in> set (wd_nodes d)" for m
    using plain_invD [OF assms(1) m] inj [OF m] assms(4-7)
    unfolding node_inv_def same pend q by (auto simp: eng_frames)
  then show "plain_inv d ?s" using assms(1) by (simp add: plain_inv_def eng_frames)
  show "is_pending ?s (ns_id n)" by (simp add: pend)
  show "covered d s (insert n X) \<Longrightarrow> covered d ?s X" by (auto simp: covered_def same pend)
qed

lemma covered_drop:
  "covered d s (insert n X) \<Longrightarrow> \<not> deps_done s n \<or> settled s (ns_id n) \<or> is_pending s (ns_id n) \<Longrightarrow> covered d s X"
  by (auto simp: covered_def)

lemma plain_turn:
  assumes "plain d" "distinct (map ns_id (wd_nodes d))" "plain_inv d s" "n \<in> set (dependents d i)"
    "tally (en_counts s) (ns_id n) = 0" "covered d s (insert n X)" "eval_dependent d i dead sk n s = (s', b)"
  shows "plain_inv d s' \<and> en_counts s' = en_counts s \<and>
    (if b then covered d s' (set (dependents d (ns_id n)) \<union> X) \<and> all_fresh s' (set (dependents d (ns_id n)))
     else covered d s' X)"
proof (cases "dead \<and> settled s (ns_id n) \<or> \<not> deps_done s n")
  case True
  have n: "n \<in> set (wd_nodes d)" using assms(4) by (simp add: in_dependents)
  have "eval_dependent d i dead sk n s = (s, False)"
  proof (cases "dead \<and> settled s (ns_id n)")
    case False
    with True have "\<not> list_all (\<lambda>e. settled s (dp_node e)) (ns_depends n)" by (simp add: deps_done_def list_all_iff)
    moreover from this have "ns_depends n \<noteq> []" by (cases "ns_depends n") simp_all
    ultimately show ?thesis using plainD [OF assms(1) n] by (simp add: eval_dependent_def split: option.split)
  qed (simp add: eval_dependent_def)
  with assms(7) have "s' = s \<and> \<not> b" by simp
  with covered_drop [OF assms(6)] assms(3) True show ?thesis by auto
next
  case live: False
  have n: "n \<in> set (wd_nodes d)" using assms(4) by (simp add: in_dependents)
  note inv = plain_invD [OF assms(3) n]
  have nr: "\<not> en_replaying s" using assms(3) by (simp add: plain_inv_def)
  have "\<exists>e \<in> set (ns_depends n). dp_node e = i" using assms(4) by (simp add: in_dependents)
  then have "find (\<lambda>e. dp_node e = i) (ns_depends n) \<noteq> None" by (simp add: find_None)
  then obtain e where e: "find (\<lambda>e. dp_node e = i) (ns_depends n) = Some e" by blast
  then have e_in: "e \<in> set (ns_depends n)" by (auto dest: find_SomeD)
  obtain act rs where r: "evaluate_readiness n (en_results s) = (act, rs)" by fastforce
  have all: "list_all (\<lambda>e. settled s (dp_node e)) (ns_depends n)" using live by (simp add: deps_done_def list_all_iff)
  have ev: "eval_dependent d i dead sk n s =
      (case act of ActionSkip \<Rightarrow> skip_dependent n rs s | ActionRun \<Rightarrow> admit_via_edge d e (ns_id n) s)"
    using live e all plainD [OF assms(1) n] r
    by (cases act) (simp_all add: eval_dependent_def del: de_Morgan_conj)
  show ?thesis
  proof (cases act)
    case ActionRun
    then have run: "may_run s n" using r by (simp add: may_run_def)
    have "\<not> settled s (ns_id n)" using inv run assms(5) by (auto simp: node_inv_def)
    note q = enqueue_inv [OF assms(3) n assms(2) _ this run assms(5)]
    have "s' = snd (enqueue d (ns_id n) s)" "\<not> b"
      using ev ActionRun assms(7) plain_admit [OF assms(1) n e_in nr] by auto
    with q(1) q(3) [OF _ assms(6)] live show ?thesis by (simp add: eng_frames)
  next
    case ActionSkip
    then have run: "\<not> may_run s n" using r by (simp add: may_run_def)
    have np: "\<not> is_pending s (ns_id n)" using inv run by (auto simp: node_inv_def)
    show ?thesis
    proof (cases "settled s (ns_id n)")
      case True
      then have "has_status s (ns_id n) StSkipped" using inv assms(5) by (simp add: node_inv_def)
      then have "s' = s" "\<not> b" using ev ActionSkip assms(7) by (auto simp: skip_dependent_def)
      with covered_drop [OF assms(6)] True assms(3) show ?thesis by simp
    next
      case False
      then have "\<not> has_status s (ns_id n) StSkipped" by (simp add: has_status_def settled_def)
      then have s': "s' = mark_skipped (ns_id n) rs s" "b" using ev ActionSkip assms(7) by (auto simp: skip_dependent_def)
      have q: "ns_id n \<notin> set (en_queue s)" "\<not> is_running s (ns_id n)" using np by (auto simp: is_pending_def)
      have "is_running s' j \<longleftrightarrow> is_running s j \<and> j \<noteq> ns_id n" for j
        using q(2) by (auto simp: s' is_running_def eng_frames)
      note st = settle_inv [OF assms(1-3) n _ False q(1), of s' "skip_result rs", unfolded s' eng_frames,
          OF _ refl refl refl this [unfolded s' eng_frames] refl refl]
      have sk: "nr_status (skip_result rs) = StSkipped" by (simp add: skip_result_def)
      have cov: "covered d s' (set (dependents d (ns_id n)) \<union> insert n X)" "plain_inv d s'"
          "settled s' (ns_id n)" "all_fresh s' (set (dependents d (ns_id n)))"
        using st [OF _ disjI2 [OF conjI [OF sk run]]] live assms(6) unfolding s' by blast+
      have "covered d s' (set (dependents d (ns_id n)) \<union> X)"
        by (rule covered_drop [of _ _ n]) (use cov(1,3) in \<open>simp_all add: Un_insert_right\<close>)
      with cov s'(2) show ?thesis by (simp add: s'(1) eng_frames)
    qed
  qed
qed

lemma all_fresh_cong: "en_counts s' = en_counts s \<Longrightarrow> all_fresh s' X = all_fresh s X"
  by (simp add: all_fresh_def)

lemma plain_evaluate:
  "plain d \<Longrightarrow> distinct (map ns_id (wd_nodes d)) \<Longrightarrow> plain_inv d s \<Longrightarrow> all_fresh s (set (dependents d i))
    \<Longrightarrow> covered d s (set (dependents d i) \<union> X) \<Longrightarrow> evaluate_downstream d f i s = Some s'
    \<Longrightarrow> plain_inv d s' \<and> en_counts s' = en_counts s \<and> covered d s' X"
  "plain d \<Longrightarrow> distinct (map ns_id (wd_nodes d)) \<Longrightarrow> plain_inv d s \<Longrightarrow> set ns \<subseteq> set (dependents d i)
    \<Longrightarrow> all_fresh s (set ns) \<Longrightarrow> covered d s (set ns \<union> X) \<Longrightarrow> eval_dependents d f i dead sk ns s = Some s'
    \<Longrightarrow> plain_inv d s' \<and> en_counts s' = en_counts s \<and> covered d s' X"
proof (induction d f i s and d f i dead sk ns s arbitrary: s' X and s' X rule: evaluate_downstream_eval_dependents.induct)
  case (2 d f i s)
  have "eval_dependents d f i (dead_branch s i) (has_status s i StSkipped) (dependents d i) s = Some s'"
    using "2.prems"(6) by simp
  from "2.IH" [OF "2.prems"(1-3) subset_refl "2.prems"(4,5) this] show ?case .
next
  case (4 d f i dead sk n ns s)
  obtain s1 b where e: "eval_dependent d i dead sk n s = (s1, b)" by fastforce
  have sub: "n \<in> set (dependents d i)" "set ns \<subseteq> set (dependents d i)" using "4.prems"(4) by simp_all
  have fr: "tally (en_counts s) (ns_id n) = 0" "all_fresh s (set ns)" using "4.prems"(5) by (simp_all add: all_fresh_def)
  have cov: "covered d s (insert n (set ns \<union> X))" using "4.prems"(6) by simp
  note t = plain_turn [OF "4.prems"(1-3) sub(1) fr(1) cov e]
  have fr1: "all_fresh s1 (set ns)" using t fr(2) all_fresh_cong [of s1 s] by simp
  show ?case
  proof (cases b)
    case False
    then have bf: "b = False" by simp
    have r: "eval_dependents d f i dead sk ns s1 = Some s'" using "4.prems"(7) e bf by simp
    have "plain_inv d s1" "covered d s1 (set ns \<union> X)" using t bf by simp_all
    from "4.IH"(3) [OF e [symmetric] bf "4.prems"(1,2) this(1) sub(2) fr1 this(2) r] t show ?thesis by simp
  next
    case True
    then have bt: "b = True" by simp
    from "4.prems"(7) e bt obtain s2 where s2: "evaluate_downstream d f (ns_id n) s1 = Some s2"
      and r: "eval_dependents d f i dead sk ns s2 = Some s'" by (auto split: option.splits)
    have "plain_inv d s1" "all_fresh s1 (set (dependents d (ns_id n)))"
      "covered d s1 (set (dependents d (ns_id n)) \<union> (set ns \<union> X))" using t bt by simp_all
    from "4.IH"(1) [OF e [symmetric] bt "4.prems"(1,2) this s2]
    have s2': "plain_inv d s2" "en_counts s2 = en_counts s1" "covered d s2 (set ns \<union> X)" by simp_all
    have "all_fresh s2 (set ns)" using fr1 all_fresh_cong [OF s2'(2)] by simp
    from "4.IH"(2) [OF e [symmetric] bt s2 "4.prems"(1,2) s2'(1) sub(2) this s2'(3) r] s2'(2) t
    show ?thesis by simp
  qed
qed simp_all

section \<open>The steps\<close>

definition plain_ok :: "wf_def \<Rightarrow> eng \<Rightarrow> bool" where
  "plain_ok d s \<longleftrightarrow> plain_inv d s \<and> covered d s {}"

lemma frame_ok:
  assumes "plain_ok d s" "en_results s' = en_results s" "en_counts s' = en_counts s" "en_queue s' = en_queue s"
    "is_running s' = is_running s" "en_replaying s' = en_replaying s" "en_breached s' = en_breached s"
  shows "plain_ok d s'"
proof -
  have "settled s' = settled s" "deps_done s' = deps_done s" "may_run s' = may_run s"
    "has_status s' = has_status s" "is_pending s' = is_pending s"
    by (simp_all add: fun_eq_iff settled_def deps_done_def may_run_def has_status_def is_pending_def assms)
  with assms show ?thesis by (simp add: plain_ok_def plain_inv_def covered_def node_inv_def)
qed

lemma launch_plain:
  assumes "plain_ok d s" "distinct (en_queue s)"
  shows "plain_ok d (launch s)"
proof -
  let ?s = "launch s"
  note l = launch_fields [OF assms(2)]
  have same: "settled ?s = settled s" "deps_done ?s = deps_done s" "may_run ?s = may_run s" "has_status ?s = has_status s"
    by (simp_all add: fun_eq_iff settled_def deps_done_def may_run_def has_status_def l)
  have run: "is_running ?s j \<longleftrightarrow> is_pending s j" for j by (auto simp: is_running_def is_pending_def l)
  have pend: "is_pending ?s j \<longleftrightarrow> is_pending s j" for j using run [of j] by (simp add: is_pending_def [of ?s] l)
  have "en_breached ?s = en_breached s" "en_replaying ?s = en_replaying s" by (simp_all add: l)
  moreover have "node_inv ?s n" if n: "n \<in> set (wd_nodes d)" for n
  proof -
    have "node_inv s n" using assms(1) n by (simp add: plain_ok_def plain_inv_def)
    then show ?thesis
      unfolding node_inv_def same pend run by (auto simp: l is_pending_def)
  qed
  ultimately have "plain_inv d ?s" using assms(1) by (simp add: plain_ok_def plain_inv_def)
  moreover have "covered d ?s {}" using assms(1) by (simp add: plain_ok_def covered_def same pend)
  ultimately show ?thesis by (simp add: plain_ok_def)
qed

lemma settle_plain:
  assumes "plain d" "distinct (map ns_id (wd_nodes d))" "plain_ok d s" "n \<in> set (wd_nodes d)"
    "is_running s (ns_id n)" "ns_id n \<notin> set (en_queue s)"
    "en_results s1 = AList.update (ns_id n) r (en_results s)" "en_queue s1 = en_queue s"
    "en_counts s1 = en_counts s" "en_running s1 = AList.delete (ns_id n) (en_running s)"
    "en_replaying s1 = en_replaying s" "en_breached s1 = en_breached s"
    "evaluate_downstream d f (ns_id n) s1 = Some s'"
  shows "plain_ok d s'"
proof -
  have inv: "plain_inv d s" and cov: "covered d s {}" using assms(3) by (simp_all add: plain_ok_def)
  have n: "deps_done s n" "\<not> settled s (ns_id n)" "tally (en_counts s) (ns_id n) = 1"
    using plain_invD [OF inv assms(4)] assms(5) by (auto simp: node_inv_def is_pending_def)
  have run: "is_running s1 j \<longleftrightarrow> is_running s j \<and> j \<noteq> ns_id n" for j
    by (simp add: is_running_def assms(10) map_of_delete_if)
  note st = settle_inv [OF assms(1,2) inv assms(4) n(1,2) assms(6-9) run assms(11,12) disjI1 [OF n(3)]]
  from plain_evaluate(1) [OF assms(1,2) st(1,3) st(4) [OF cov] assms(13)] show ?thesis by (simp add: plain_ok_def)
qed

lemma wf_step_plain:
  assumes "plain d" "distinct (map ns_id (wd_nodes d))" "wf_step d s s'" "eng_ok d s" "plain_ok d s"
  shows "plain_ok d s'"
  using assms(3-5)
proof (induction rule: wf_step.induct)
  case (step_launch s)
  then show ?case by (simp add: launch_plain eng_ok_def caps_ok_def)
next
  case (step_snapshot s i k n)
  then have "ns_id n = i" using node_by_id_id by blast
  then have "is_running (worker_snapshot n k s) = is_running s"
    using step_snapshot.hyps(1) by (auto simp: fun_eq_iff is_running_def eng_frames map_of_update)
  then show ?case by (intro frame_ok [OF step_snapshot.prems(2)]) (simp_all add: eng_frames)
next
  case (step_skip s i k ups its n rs f s')
  then have n: "ns_id n = i" "n \<in> set (wd_nodes d)" using node_by_id_id by blast+
  have run: "is_running s (ns_id n)" using step_skip.hyps(1) n by (simp add: is_running_def)
  have "ns_id n \<notin> set (en_queue s)" using step_skip.prems(1) run by (auto simp: eng_ok_def caps_ok_def)
  from settle_plain [OF assms(1,2) step_skip.prems(2) n(2) run this, of "settle_skip i rs s" "skip_result rs" f s'] step_skip.hyps n
  show ?case by (simp add: eng_frames)
next
  case (step_finish s i k ups its n rs r res err f s')
  then have n: "ns_id n = i" "n \<in> set (wd_nodes d)" using node_by_id_id by blast+
  have run: "is_running s (ns_id n)" using step_finish.hyps(1) n by (simp add: is_running_def)
  have "ns_id n \<notin> set (en_queue s)" using step_finish.prems(1) run by (auto simp: eng_ok_def caps_ok_def)
  from settle_plain [OF assms(1,2) step_finish.prems(2) n(2) run this, of "settle_result d i r s" _ f s'] step_finish.hyps n
  show ?case by (simp add: eng_frames)
qed

lemma enqueue_all_queue:
  "en_counts s = [] \<Longrightarrow> en_running s = [] \<Longrightarrow>
   set (en_queue (fold (\<lambda>n s. snd (enqueue d (ns_id n) s)) ns s)) = set (en_queue s) \<union> ns_id ` set ns"
proof (induction ns arbitrary: s)
  case (Cons n ns)
  have "set (en_queue (snd (enqueue d (ns_id n) s))) = insert (ns_id n) (set (en_queue s))"
    using Cons.prems max_executions_pos [of d] by (auto simp: enqueue_def is_running_def)
  with Cons show ?case by (simp add: eng_frames)
qed simp

lemma engine_start_plain:
  assumes "plain d" "distinct (map ns_id (wd_nodes d))"
  shows "plain_ok d (engine_start d)"
proof -
  let ?s = "engine_start d"
  note st = engine_start_fields [of d]
  have root: "is_root d n \<longleftrightarrow> ns_depends n = []" for n
    using assms(1) by (simp add: is_root_def fallback_targets_def plain_def)
  have q: "set (en_queue ?s) = ns_id ` {n \<in> set (wd_nodes d). ns_depends n = []}"
    unfolding engine_start_def by (subst enqueue_all_queue) (auto simp: engine_init_def root)
  have none: "\<not> settled ?s j" "\<not> is_running ?s j" for j by (simp_all add: settled_def is_running_def st)
  have pend: "is_pending ?s (ns_id n) \<longleftrightarrow> ns_depends n = []" if "n \<in> set (wd_nodes d)" for n
    using that assms(2) q none(2) by (auto simp: is_pending_def distinct_map dest: inj_onD)
  have closed: "deps_done ?s n \<longleftrightarrow> ns_depends n = []" for n
    by (cases "ns_depends n") (auto simp: deps_done_def none)
  have run: "may_run ?s n" if "ns_depends n = []" for n using that by (simp add: may_run_def evaluate_readiness_def)
  have "plain_inv d ?s"
    using st none pend run closed by (auto simp: plain_inv_def node_inv_def)
  moreover have "covered d ?s {}" using pend closed by (simp add: covered_def)
  ultimately show ?thesis by (simp add: plain_ok_def)
qed

lemma reach_plain:
  assumes "plain d" "distinct (map ns_id (wd_nodes d))" "validate_loops d = None" "wf_reach d (engine_start d) s"
  shows "plain_ok d s"
  using assms(4)
proof (induction rule: rtranclp_induct)
  case base
  then show ?case by (rule engine_start_plain [OF assms(1,2)])
next
  case (step s s')
  have "eng_ok d s" by (rule reach_ok [OF assms(3) step.hyps(1) engine_start_ok])
  with wf_step_plain [OF assms(1,2) step.hyps(2)] step.IH show ?case by blast
qed

text \<open>Nothing pending and nothing left to visit: the settled nodes are closed under the order.\<close>

lemma idle_settles:
  assumes "plain d" "deps_known (wd_nodes d)" "acyclic (edges (wd_nodes d))" "covered d s {}" "idle s"
  shows "n \<in> set (wd_nodes d) \<Longrightarrow> settled s (ns_id n)"
proof -
  have np: "\<not> is_pending s i" for i using assms(5) by (simp add: idle_def is_pending_def is_running_def)
  have wf: "wf (edges (wd_nodes d))" by (rule finite_acyclic_wf [OF finite_edges assms(3)])
  have "\<forall>n \<in> set (wd_nodes d). ns_id n = i \<longrightarrow> settled s i" for i
    using wf
  proof (induction i rule: wf_induct_rule)
    case (less i)
    show ?case
    proof (intro ballI impI)
      fix n assume n: "n \<in> set (wd_nodes d)" "ns_id n = i"
      have "settled s (dp_node e)" if e: "e \<in> set (ns_depends n)" for e
      proof -
        have "(dp_node e, i) \<in> edges (wd_nodes d)"
          using e n assms(1) by (auto simp: edges_def uncond_deps_def plain_def)
        from less [OF this] have known: "\<forall>n \<in> set (wd_nodes d). ns_id n = dp_node e \<longrightarrow> settled s (dp_node e)" .
        have "dp_node ` set (ns_depends n) \<subseteq> node_ids d" using assms(2) n(1) unfolding deps_known_def by (rule bspec)
        then have "dp_node e \<in> node_ids d" using e by (rule subsetD [OF _ imageI])
        then obtain m where "dp_node e = ns_id m" "m \<in> set (wd_nodes d)" by (rule imageE)
        with bspec [OF known, of m] show ?thesis by simp
      qed
      then have "deps_done s n" by (simp add: deps_done_def)
      with assms(4) n np show "settled s i" by (auto simp: covered_def)
    qed
  qed
  then show "n \<in> set (wd_nodes d) \<Longrightarrow> settled s (ns_id n)" by blast
qed

lemma well_formed_acyclic: "well_formed ord d \<Longrightarrow> iter_order ord \<Longrightarrow> acyclic (edges (wd_nodes d))"
  using kahn_result(1) [of "wd_nodes d" ord]
  by (auto simp: well_formed_def detect_cycle_def Let_def split: prod.splits option.splits list.splits if_splits)

text \<open>
  C5. A workflow without conditions, loops or early joins runs in the order of its dependencies,
  however its workers interleave and whatever they return: a node is queued or running only once
  every node it depends on has settled and its readiness says to run it, no node is launched
  twice, a node that settled without being launched was skipped because its readiness says so, and
  when the scheduler is idle every node has settled.
\<close>

theorem plain_workflow_order:
  assumes "well_formed ord d" "iter_order ord" "plain d" "wf_reach d (engine_start d) s"
  shows "(\<forall>n \<in> set (wd_nodes d).
      tally (en_counts s) (ns_id n) \<le> 1
      \<and> (is_pending s (ns_id n) \<longrightarrow> deps_done s n \<and> \<not> settled s (ns_id n) \<and> may_run s n)
      \<and> (settled s (ns_id n) \<longrightarrow> deps_done s n \<and>
          (tally (en_counts s) (ns_id n) = 1 \<or> has_status s (ns_id n) StSkipped \<and> \<not> may_run s n)))
    \<and> (idle s \<longrightarrow> (\<forall>n \<in> set (wd_nodes d). settled s (ns_id n)))"
proof -
  have w: "distinct (map ns_id (wd_nodes d))" "validate_loops d = None" "deps_known (wd_nodes d)"
    using assms(1) by (simp_all add: well_formed_def)
  have ok: "plain_inv d s" "covered d s {}"
    using reach_plain [OF assms(3) w(1,2) assms(4)] by (simp_all add: plain_ok_def)
  have "\<forall>n \<in> set (wd_nodes d). idle s \<longrightarrow> settled s (ns_id n)"
    using idle_settles [OF assms(3) w(3) well_formed_acyclic [OF assms(1,2)] ok(2)] by blast
  moreover have "\<forall>n \<in> set (wd_nodes d). node_inv s n" using ok(1) by (simp add: plain_inv_def)
  ultimately show ?thesis by (auto simp: node_inv_def)
qed

end
