(* ===== verification/WfExamples.thy ===== *)
theory WfExamples
  imports WfEngineProps WfPlain
begin

text \<open>
  Concrete workflow definitions and runs, evaluated, to which the properties of the workflow
  components apply. A definition is kept folded while a run is evaluated: the collection
  \<open>ex_simps\<close> reads its fields.
\<close>

section \<open>Definitions\<close>

definition after :: "string \<Rightarrow> node_dep" where
  "after i = \<lparr>dp_node = i, dp_when = [], dp_counts = [], dp_resets = []\<rparr>"

definition edge_if :: "string \<Rightarrow> string \<Rightarrow> string \<Rightarrow> node_dep" where
  "edge_if i w c = \<lparr>dp_node = i, dp_when = w, dp_counts = c, dp_resets = []\<rparr>"

definition command :: "string \<Rightarrow> node_dep list \<Rightarrow> node_spec" where
  "command i es = (blank_node i NtCommand)\<lparr>ns_command := ''true'', ns_depends := es\<rparr>"

text \<open>A diamond.\<close>

definition ex_diamond :: wf_def where
  "ex_diamond = blank_def ''diamond'' []
     [command ''a'' [], command ''b'' [after ''a''], command ''c'' [after ''a''],
      command ''d'' [after ''b'', after ''c'']]"

text \<open>Two nested loops that share a fallback.\<close>

definition ex_nested :: wf_def where
  "ex_nested = blank_def ''nested''
     [\<lparr>lo_id = ''O'', lo_nodes = [''p'', ''q'', ''r''], lo_parent = [], lo_max = 2, lo_exhausted = ''z''\<rparr>,
      \<lparr>lo_id = ''I'', lo_nodes = [''q'', ''r''], lo_parent = ''O'', lo_max = 3, lo_exhausted = ''z''\<rparr>]
     [command ''a'' [],
      (command ''p'' [after ''a'', edge_if ''q'' ''nodes.q.exit_code == 1'' ''O''])\<lparr>ns_on_skip := ''run''\<rparr>,
      (command ''q'' [after ''p'', edge_if ''r'' ''nodes.r.exit_code == 2'' ''I''])\<lparr>ns_on_skip := ''run''\<rparr>,
      command ''r'' [edge_if ''q'' ''nodes.q.exit_code == 0'' []],
      command ''z'' []]"

definition no_pd :: "string \<Rightarrow> int option" where "no_pd s = None"

definition no_cron :: "string \<Rightarrow> bool option" where "no_cron s = None"

definition as_given :: "string list \<Rightarrow> string list" where "as_given xs = xs"

lemma iter_order_as_given: "iter_order as_given"
  by (simp add: iter_order_def as_given_def)

lemma ex_diamond_valid: "validate no_pd no_cron as_given ex_diamond = None"
  by code_simp

lemma ex_nested_valid: "validate no_pd no_cron as_given ex_nested = None"
  by code_simp

lemma ex_nested_loops: "validate_loops ex_nested = None"
  using validate_None [OF ex_nested_valid] by (simp add: well_formed_def)

section \<open>Playing a run\<close>

text \<open>One node runs to its end, alone: its worker reads its snapshot, its runner returns \<open>r\<close>.\<close>

definition run_node :: "wf_def \<Rightarrow> string \<Rightarrow> node_result \<Rightarrow> eng \<Rightarrow> eng option" where
  "run_node d i r s =
     (case (map_of (en_running s) i, node_by_id d i) of
        (Some (Launched k), Some n) \<Rightarrow>
          (case evaluate_readiness n (en_results s) of
             (ActionRun, _) \<Rightarrow> evaluate_downstream d 3 i (settle_result d i (normalize_result (Some r) None) (worker_snapshot n k s))
           | (ActionSkip, rs) \<Rightarrow> evaluate_downstream d 3 i (settle_skip i rs (worker_snapshot n k s)))
      | _ \<Rightarrow> None)"

definition launch_ready :: "eng \<Rightarrow> eng" where
  "launch_ready s = (if en_queue s = [] then s else launch s)"

fun play :: "wf_def \<Rightarrow> (string \<times> node_result) list \<Rightarrow> eng \<Rightarrow> eng option" where
  "play d [] s = Some (launch_ready s)"
| "play d ((i, r) # xs) s = (case run_node d i r (launch_ready s) of None \<Rightarrow> None | Some s' \<Rightarrow> play d xs s')"

lemma run_node_reach:
  assumes "run_node d i r s = Some s'"
  shows "wf_reach d s s'"
proof -
  obtain k n where kn: "map_of (en_running s) i = Some (Launched k)" "node_by_id d i = Some n"
    using assms by (auto simp: run_node_def split: option.splits worker.splits)
  obtain act rs where a: "evaluate_readiness n (en_results s) = (act, rs)" by fastforce
  let ?s = "worker_snapshot n k s"
  have "ns_id n = i" using node_by_id_id [OF kn(2)] by simp
  then have up: "map_of (en_running ?s) i = Some (Ready k (en_results s) (en_iters s))"
    by (simp add: eng_frames map_of_update)
  have "wf_step d ?s s'"
  proof (cases act)
    case ActionRun
    then show ?thesis
      using assms kn a by (intro step_finish [OF up kn(2) _ refl]) (auto simp: run_node_def)
  next
    case ActionSkip
    then show ?thesis
      using assms kn a by (intro step_skip [OF up kn(2)]) (auto simp: run_node_def)
  qed
  with step_snapshot [OF kn] show ?thesis by (meson converse_rtranclp_into_rtranclp r_into_rtranclp)
qed

lemma launch_ready_reach: "wf_reach d s (launch_ready s)"
  by (auto simp: launch_ready_def intro: step_launch)

lemma play_reach: "play d xs s = Some s' \<Longrightarrow> wf_reach d s s'"
proof (induction d xs s rule: play.induct)
  case (1 d s)
  then show ?case using launch_ready_reach by auto
next
  case (2 d i r xs s)
  then obtain s1 where "run_node d i r (launch_ready s) = Some s1" "play d xs s1 = Some s'"
    by (auto split: option.splits)
  with "2.IH" run_node_reach launch_ready_reach show ?case by (meson rtranclp_trans)
qed

definition ok :: node_result where "ok = zero_result\<lparr>nr_status := StSucceeded\<rparr>"

section \<open>Evaluating a run\<close>

named_theorems ex_simps \<open>the example definitions, by their fields\<close>

text \<open>A condition on an exit code, and one on an output.\<close>

lemma exit_condition:
  assumes "expr_match c = Some (p, op, l)" "node_path p = Some (i, ''exit_code'')" "parse_literal l = Inr v"
  shows "condition_holds c m = (case map_of m i of None \<Rightarrow> False
       | Some r \<Rightarrow> (case compare_values op (itoa (nr_exit r)) v of Inr b \<Rightarrow> b | Inl _ \<Rightarrow> False))"
    "\<not> is_status_query c"
  using assms
  by (simp_all add: condition_holds_def evaluate_expr_def resolve_node_value_def is_status_query_def
      parse_expr_target_def split: option.splits sum.splits)

lemma output_condition:
  assumes "expr_match c = Some (p, op, l)" "node_path p = Some (i, ''output'')" "parse_literal l = Inr v"
  shows "condition_holds c m = (case map_of m i of None \<Rightarrow> False
       | Some r \<Rightarrow> (case compare_values op (nr_output r) v of Inr b \<Rightarrow> b | Inl _ \<Rightarrow> False))"
    "\<not> is_status_query c"
  using assms
  by (simp_all add: condition_holds_def evaluate_expr_def resolve_node_value_def is_status_query_def
      parse_expr_target_def split: option.splits sum.splits)

lemma after_simps [ex_simps]:
  "dp_node (after i) = i" "dp_when (after i) = []" "dp_counts (after i) = []" "dp_resets (after i) = []"
  by (simp_all add: after_def)

lemma edge_if_simps [ex_simps]:
  "dp_node (edge_if i w c) = i" "dp_when (edge_if i w c) = w" "dp_counts (edge_if i w c) = c" "dp_resets (edge_if i w c) = []"
  by (simp_all add: edge_if_def)

lemma command_simps [ex_simps]:
  "ns_id (command i es) = i" "ns_depends (command i es) = es" "ns_join (command i es) = []"
  "ns_on_skip (command i es) = []" "ns_on_fail (command i es) = []"
  by (simp_all add: command_def blank_node_def)

lemma ok_simps [ex_simps]:
  "nr_status ok = StSucceeded" "nr_exit ok = 0" "nr_reason ok = NoReason" "nr_error ok = None" "nr_output ok = []"
  by (simp_all add: ok_def zero_result_def)

lemma blank_def_simps [ex_simps]:
  "wd_nodes (blank_def nm ls ns) = ns" "wd_loops (blank_def nm ls ns) = ls" "max_executions (blank_def nm ls ns) = 100"
  by (simp_all add: blank_def_def max_executions_def)

lemma compare_exit [ex_simps]:
  "compare_values ''=='' (itoa 0) ''0'' = Inr True" "compare_values ''=='' (itoa 0) ''1'' = Inr False"
  "compare_values ''=='' (itoa 1) ''1'' = Inr True" "compare_values ''=='' [] ''again'' = Inr False"
  by code_simp+

lemmas run_simps = engine_start_def engine_init_def is_root_def fallback_targets_def enqueue_def
  is_running_def tally_def launch_ready_def launch_def launch_one_def Let_def run_node_def worker_snapshot_def
  evaluate_readiness_def edge_readiness_def no_flags_def allows_skip_def allows_fail_def emit_def
  settle_result_def normalize_result_def set_result_def stop_worker_def has_status_def dead_branch_def
  node_loops_def eval_dependent_def dependents_def cond_edges_def uncond_edges_def settled_def
  admit_via_edge_def edge_matches_def is_pending_def reset_descendants_def child_loops_def last_by_def
  settle_skip_def skip_dependent_def mark_skipped_def skip_result_def numeral_eq_Suc idle_def
  breach_def breach_result_def drop_stale_def engine_resume_def activate_def

text \<open>A loop of one node, one iteration and a fallback.\<close>

definition exit_w :: string where "exit_w = ''nodes.w.exit_code == 1''"

definition w_node :: node_spec where
  "w_node = (command ''w'' [after ''a'', edge_if ''w'' exit_w ''L''])\<lparr>ns_on_skip := ''run''\<rparr>"

definition ex_loop :: wf_def where
  "ex_loop = blank_def ''loop''
     [\<lparr>lo_id = ''L'', lo_nodes = [''w''], lo_parent = [], lo_max = 1, lo_exhausted = ''z''\<rparr>]
     [command ''a'' [], w_node, command ''z'' []]"

lemma ex_loop_valid: "validate no_pd no_cron as_given ex_loop = None"
  by code_simp

lemma ex_loop_loops: "validate_loops ex_loop = None"
  using validate_None [OF ex_loop_valid] by (simp add: well_formed_def)

lemma exit_w_form:
  "expr_match exit_w = Some (''nodes.w.exit_code'', ''=='', ''1'')" "node_path ''nodes.w.exit_code'' = Some (''w'', ''exit_code'')"
  "parse_literal ''1'' = Inr ''1''"
  by code_simp+

lemma exit_w_simps [ex_simps]: "exit_w \<noteq> []"
  by (simp add: exit_w_def)

lemmas exit_w_holds [ex_simps] = exit_condition [OF exit_w_form]

lemma w_node_simps [ex_simps]:
  "ns_id w_node = ''w''" "ns_depends w_node = [after ''a'', edge_if ''w'' exit_w ''L'']" "ns_join w_node = []"
  "ns_on_skip w_node = ''run''" "ns_on_fail w_node = []"
  by (simp_all add: w_node_def command_def blank_node_def)

lemma ex_loop_simps [ex_simps]:
  "wd_nodes ex_loop = [command ''a'' [], w_node, command ''z'' []]" "max_executions ex_loop = 100"
  "wd_loops ex_loop = [\<lparr>lo_id = ''L'', lo_nodes = [''w''], lo_parent = [], lo_max = 1, lo_exhausted = ''z''\<rparr>]"
  by (simp_all add: ex_loop_def ex_simps)

lemma ex_loop_round:
  "\<exists>s. play ex_loop [(''a'', ok), (''w'', ok\<lparr>nr_exit := 1\<rparr>)] (engine_start ex_loop) = Some s
     \<and> tally (en_iters s) ''L'' = 1 \<and> tally (en_counts s) ''w'' = 2 \<and> is_running s ''w''"
  by (simp add: run_simps ex_simps)

section \<open>The properties at these definitions\<close>

text \<open>An actor whose agent may run on two targets, and its reviewer.\<close>

definition agent :: "string \<Rightarrow> node_dep list \<Rightarrow> node_spec" where
  "agent i es = (blank_node i NtAgent)\<lparr>ns_agent := i, ns_entry := True, ns_depends := es\<rparr>"

definition target :: "string \<Rightarrow> pair_target" where
  "target c = \<lparr>pt_cli = c, pt_model = ''m''\<rparr>"

definition ex_group :: pairing_spec where
  "ex_group = \<lparr>mp_id = ''g'', mp_actors = [''a''], mp_reviewer = ''r'',
     mp_pairs = [\<lparr>pe_actor = target ''x'', pe_reviewer = [target ''y'', target ''x'']\<rparr>,
                 \<lparr>pe_actor = target ''y'', pe_reviewer = [target ''x'']\<rparr>]\<rparr>"

definition ex_paired :: wf_def where
  "ex_paired = (blank_def ''paired'' [] [agent ''a'' [], agent ''r'' [after ''a'']])\<lparr>wd_pairings := [ex_group]\<rparr>"

definition ex_clis :: "string \<Rightarrow> pair_target list option" where
  "ex_clis = agent_clis [Some (''a'', [target ''x'', target ''y'']), Some (''r'', [target ''y'']), None]"

theorem paired_reviewer_has_candidates_witness:
  "reviewer_candidates ex_group (target ''x'') \<noteq> None
   \<and> pairing_group_for_reviewer ex_paired ''r'' = Some ex_group"
proof -
  have v: "validate_pairings ex_paired = None" "validate_coverage ex_paired ex_clis = None" by code_simp+
  have g: "ex_group \<in> set (wd_pairings ex_paired)" "''a'' \<in> set (mp_actors ex_group)" "mp_reviewer ex_group = ''r''"
    by (simp_all add: ex_paired_def ex_group_def)
  have n: "node_by_id ex_paired ''a'' = Some (agent ''a'' [])" "ns_agent (agent ''a'' []) = ''a''"
    by code_simp+
  have c: "ex_clis ''a'' = Some [target ''x'', target ''y'']" by code_simp
  from paired_reviewer_has_candidates [OF v g(1,2) n(1)] n(2) g(3) c show ?thesis by force
qed

definition ex_ring :: "node_spec list" where
  "ex_ring = [command ''a'' [after ''c''], command ''b'' [after ''a''], command ''c'' [after ''b'', after ''b'']]"

lemma ex_ring_shape: "distinct (map ns_id ex_ring)" "deps_known ex_ring"
  by code_simp+

theorem detect_cycle_exact_witness: "\<not> acyclic (edges ex_ring)"
proof -
  have "detect_cycle as_given ex_ring \<noteq> None" by code_simp
  with detect_cycle_exact [OF ex_ring_shape iter_order_as_given] show ?thesis by simp
qed

theorem cycle_path_real_witness:
  "\<exists>c. detect_cycle as_given ex_ring = Some (CyclePath c) \<and>
     closed_walk (\<lambda>i. concat (map (\<lambda>n. if ns_id n = i then map dp_node (ns_depends n) else []) ex_ring)) c"
proof -
  have "detect_cycle as_given ex_ring \<noteq> None" by code_simp
  then obtain e where e: "detect_cycle as_given ex_ring = Some e" by blast
  with cycle_path_real [OF ex_ring_shape iter_order_as_given e] show ?thesis by blast
qed

theorem validated_loops_nest_witness:
  "acyclic (parents (wd_loops ex_nested)) \<and> (''O'', ''I'') \<in> parents (wd_loops ex_nested)"
proof
  show "acyclic (parents (wd_loops ex_nested))" using validated_loops_nest [OF ex_nested_loops] by blast
  show "(''O'', ''I'') \<in> parents (wd_loops ex_nested)"
    unfolding parents_def ex_nested_def blank_def_def by force
qed

theorem validated_definition_witness:
  "acyclic (edges (wd_nodes ex_nested)) \<and> [] \<notin> ns_id ` set (wd_nodes ex_nested)"
  using validated_definition [OF ex_nested_valid iter_order_as_given] by blast

theorem scheduler_caps_witness:
  "\<exists>s. wf_reach ex_loop (engine_start ex_loop) s \<and> tally (en_iters s) ''L'' = 1 \<and> tally (en_counts s) ''w'' = 2
     \<and> (\<forall>i. tally (en_counts s) i \<le> 100) \<and> distinct (en_queue s)"
proof -
  obtain s where s: "play ex_loop [(''a'', ok), (''w'', ok\<lparr>nr_exit := 1\<rparr>)] (engine_start ex_loop) = Some s"
    "tally (en_iters s) ''L'' = 1" "tally (en_counts s) ''w'' = 2" using ex_loop_round by blast
  note r = play_reach [OF s(1)]
  from scheduler_caps [OF ex_loop_loops disjI1 [OF refl] r] s(2,3) r show ?thesis
    unfolding ex_loop_simps(2) by blast
qed



lemma ex_diamond_simps [ex_simps]:
  "wd_nodes ex_diamond = [command ''a'' [], command ''b'' [after ''a''], command ''c'' [after ''a''],
      command ''d'' [after ''b'', after ''c'']]" "wd_loops ex_diamond = []" "max_executions ex_diamond = 100"
  by (simp_all add: ex_diamond_def ex_simps)

lemma ex_diamond_done:
  "\<exists>s. play ex_diamond [(''a'', ok), (''c'', ok), (''b'', ok\<lparr>nr_status := StFailed\<rparr>)] (engine_start ex_diamond) = Some s
     \<and> idle s \<and> has_status s ''d'' StSkipped \<and> tally (en_counts s) ''d'' = 0"
  by (simp add: run_simps ex_simps)

theorem plain_workflow_order_witness:
  "\<exists>s. wf_reach ex_diamond (engine_start ex_diamond) s \<and> idle s
     \<and> (\<forall>n \<in> set (wd_nodes ex_diamond). settled s (ns_id n)) \<and> has_status s ''d'' StSkipped \<and> tally (en_counts s) ''d'' = 0"
proof -
  obtain s where s: "play ex_diamond [(''a'', ok), (''c'', ok), (''b'', ok\<lparr>nr_status := StFailed\<rparr>)] (engine_start ex_diamond) = Some s"
    "idle s" "has_status s ''d'' StSkipped" "tally (en_counts s) ''d'' = 0" using ex_diamond_done by blast
  have p: "plain ex_diamond" by (simp add: plain_def ex_simps)
  note r = play_reach [OF s(1)]
  from plain_workflow_order [OF validate_None [OF ex_diamond_valid] iter_order_as_given p r] s(2-4) r
  show ?thesis by blast
qed

end
