(* ===== verification/WfFaults.thy ===== *)
theory WfFaults
  imports WfExamples
begin

text \<open>
  Three validated workflow definitions on which the scheduler does not do what its documentation
  says: an evaluation that never returns, a resumed run that cannot complete, and an early join.
\<close>

section \<open>An evaluation without end\<close>

text \<open>Two edges that count the same loop, whose quota has no fallback.\<close>

definition exit_x :: string where "exit_x = ''nodes.x.exit_code == 0''"

definition a_node :: node_spec where
  "a_node = command ''a'' [after ''x'', edge_if ''a'' exit_x ''L'', edge_if ''a'' exit_x ''L'']"

definition ex_endless :: wf_def where
  "ex_endless = blank_def ''endless''
     [\<lparr>lo_id = ''L'', lo_nodes = [''a''], lo_parent = [], lo_max = 1, lo_exhausted = []\<rparr>]
     [command ''x'' [], a_node]"

lemma exit_x_form:
  "expr_match exit_x = Some (''nodes.x.exit_code'', ''=='', ''0'')" "node_path ''nodes.x.exit_code'' = Some (''x'', ''exit_code'')"
  "parse_literal ''0'' = Inr ''0''"
  by code_simp+

lemma exit_x_simps [ex_simps]: "exit_x \<noteq> []"
  by (simp add: exit_x_def)

lemmas exit_x_holds [ex_simps] = exit_condition [OF exit_x_form]

lemma a_node_simps [ex_simps]:
  "ns_id a_node = ''a''" "ns_depends a_node = [after ''x'', edge_if ''a'' exit_x ''L'', edge_if ''a'' exit_x ''L'']"
  "ns_join a_node = []" "ns_on_skip a_node = []" "ns_on_fail a_node = []"
  by (simp_all add: a_node_def ex_simps)

lemma ex_endless_simps [ex_simps]:
  "wd_nodes ex_endless = [command ''x'' [], a_node]"
  "wd_loops ex_endless = [\<lparr>lo_id = ''L'', lo_nodes = [''a''], lo_parent = [], lo_max = 1, lo_exhausted = []\<rparr>]"
  "max_executions ex_endless = 100"
  by (simp_all add: ex_endless_def ex_simps)

lemma ex_endless_valid: "validate no_pd no_cron as_given ex_endless = None"
  by code_simp

definition spent :: "eng \<Rightarrow> bool" where
  "spent s \<longleftrightarrow> has_status s ''a'' StSucceeded \<or> has_status s ''a'' StFailed"

text \<open>The first edge fails the settled target and drops its result, the second fails it again.\<close>

lemma endless:
  assumes "map_of (en_results s) ''x'' = Some r" "nr_exit r = 0" "1 \<le> tally (en_iters s) ''L''"
    "\<not> is_pending s ''a''" "\<not> en_replaying s" "spent s"
  shows "evaluate_downstream ex_endless f ''a'' s = None"
  using assms
proof (induction f arbitrary: s)
  case (Suc f)
  let ?e = "edge_if ''a'' exit_x ''L''"
  have deps: "dependents ex_endless ''a'' = [a_node, a_node]" by (simp add: dependents_def ex_simps)
  have live: "\<not> dead_branch s ''a''" "\<not> has_status s ''a'' StSkipped"
    using Suc.prems(6) by (auto simp: spent_def dead_branch_def has_status_def split: option.splits)
  have turn: "eval_dependent ex_endless ''a'' False False a_node t = breach ex_endless ''L'' ''a'' t"
    if "map_of (en_results t) ''x'' = Some r" "1 \<le> tally (en_iters t) ''L''" "\<not> is_pending t ''a''" "\<not> en_replaying t" for t
    using that Suc.prems(2)
    by (simp add: eval_dependent_def ex_simps cond_edges_def edge_matches_def admit_via_edge_def last_by_def)
  define s1 where "s1 = fst (breach ex_endless ''L'' ''a'' s)"
  define s2 where "s2 = fst (breach ex_endless ''L'' ''a'' s1)"
  have st: "settled s ''a''"
    using Suc.prems(6) by (auto simp: spent_def has_status_def settled_def split: option.splits)
  have b1: "breach ex_endless ''L'' ''a'' s = (s1, False)" using st by (simp add: s1_def breach_def Let_def)
  have r1: "map_of (en_results s1) ''a'' = None" "map_of (en_results s1) ''x'' = Some r"
    using st Suc.prems(1) by (simp_all add: s1_def breach_def Let_def drop_stale_def deps ex_simps eng_frames map_of_update map_of_delete_if)
  then have b2: "breach ex_endless ''L'' ''a'' s1 = (s2, True)" by (simp add: s2_def breach_def Let_def settled_def)
  have f1: "1 \<le> tally (en_iters s1) ''L''" "\<not> is_pending s1 ''a''" "\<not> en_replaying s1"
    using Suc.prems(3-5) by (simp_all add: s1_def eng_frames is_pending_def is_running_def)
  have f2: "1 \<le> tally (en_iters s2) ''L''" "\<not> is_pending s2 ''a''" "\<not> en_replaying s2"
    using f1 by (simp_all add: s2_def eng_frames is_pending_def is_running_def)
  have "map_of (en_results s2) ''x'' = Some r" "spent s2"
    using r1 by (simp_all add: s2_def breach_def Let_def settled_def eng_frames map_of_update spent_def has_status_def breach_result_def zero_result_def)
  from Suc.IH [OF this(1) Suc.prems(2) f2 this(2)]
  have "evaluate_downstream ex_endless f ''a'' s2 = None" .
  then show ?case
    using turn [OF Suc.prems(1,3,4,5)] turn [OF r1(2) f1]
    by (simp add: deps live b1 b2 ex_simps)
qed simp

text \<open>
  C31. The evaluation of dependents can fail to return: the definition \<open>ex_endless\<close> validates, a
  run of it reaches a state in which the worker of \<open>a\<close> has only to settle its node, and then no
  depth of recursion is enough for \<open>evaluateDownstream\<close>, so the process that runs every workflow
  exhausts its stack.
\<close>

theorem evaluation_never_returns:
  "validate no_pd no_cron as_given ex_endless = None
   \<and> (\<exists>s k ups its. wf_reach ex_endless (engine_start ex_endless) s
        \<and> map_of (en_running s) ''a'' = Some (Ready k ups its)
        \<and> (\<forall>f. evaluate_downstream ex_endless f ''a''
              (settle_result ex_endless ''a'' (normalize_result (Some ok) None) s) = None))"
proof -
  have "\<exists>s. play ex_endless [(''x'', ok), (''a'', ok)] (engine_start ex_endless) = Some s
      \<and> map_of (en_running s) ''a'' = Some (Launched 2) \<and> tally (en_iters s) ''L'' = 1 \<and> en_queue s = []
      \<and> \<not> en_replaying s \<and> (\<exists>r. map_of (en_results s) ''x'' = Some r \<and> nr_exit r = 0)"
    by (simp add: run_simps ex_simps)
  then obtain s r where s: "play ex_endless [(''x'', ok), (''a'', ok)] (engine_start ex_endless) = Some s"
    "map_of (en_running s) ''a'' = Some (Launched 2)" "tally (en_iters s) ''L'' = 1" "en_queue s = []"
    "\<not> en_replaying s" "map_of (en_results s) ''x'' = Some r" "nr_exit r = 0" by blast
  have n: "node_by_id ex_endless ''a'' = Some a_node" by (simp add: last_by_def ex_simps)
  let ?s = "worker_snapshot a_node 2 s"
  have reach: "wf_reach ex_endless (engine_start ex_endless) ?s"
    using play_reach [OF s(1)] step_snapshot [OF s(2) n] by (rule rtranclp.rtrancl_into_rtrancl)
  have up: "map_of (en_running ?s) ''a'' = Some (Ready 2 (en_results s) (en_iters s))"
    by (simp add: eng_frames ex_simps map_of_update)
  have "evaluate_downstream ex_endless f ''a'' (settle_result ex_endless ''a'' (normalize_result (Some ok) None) ?s) = None" for f
    using s
    by (intro endless [of _ r])
      (simp_all add: eng_frames map_of_update map_of_delete_if is_pending_def is_running_def ex_simps spent_def
        has_status_def normalize_result_def Let_def)
  with ex_endless_valid reach up show ?thesis by blast
qed

section \<open>A resumed run that cannot complete\<close>

text \<open>A human in a loop of one iteration: an answer other than \<open>again\<close> ends the loop.\<close>

definition exit_w0 :: string where "exit_w0 = ''nodes.w.exit_code == 0''"

definition says_again :: string where "says_again = ''nodes.h.output == again''"

definition work_node :: node_spec where
  "work_node = (command ''w'' [after ''a'', edge_if ''h'' says_again []])\<lparr>ns_on_skip := ''run''\<rparr>"

definition ask_node :: node_spec where
  "ask_node = (blank_node ''h'' NtHuman)\<lparr>ns_prompt := ''?'', ns_depends := [edge_if ''w'' exit_w0 ''L'']\<rparr>"

definition ex_ask :: wf_def where
  "ex_ask = blank_def ''ask''
     [\<lparr>lo_id = ''L'', lo_nodes = [''w'', ''h''], lo_parent = [], lo_max = 1, lo_exhausted = []\<rparr>]
     [command ''a'' [], work_node, ask_node]"

lemma ex_ask_valid: "validate no_pd no_cron as_given ex_ask = None"
  by code_simp

lemma exit_w0_form:
  "expr_match exit_w0 = Some (''nodes.w.exit_code'', ''=='', ''0'')" "node_path ''nodes.w.exit_code'' = Some (''w'', ''exit_code'')"
  "parse_literal ''0'' = Inr ''0''"
  by code_simp+

lemma says_again_form:
  "expr_match says_again = Some (''nodes.h.output'', ''=='', ''again'')" "node_path ''nodes.h.output'' = Some (''h'', ''output'')"
  "parse_literal ''again'' = Inr ''again''"
  by code_simp+

lemma ask_conditions [ex_simps]: "exit_w0 \<noteq> []" "says_again \<noteq> []"
  by (simp_all add: exit_w0_def says_again_def)

lemmas exit_w0_holds [ex_simps] = exit_condition [OF exit_w0_form]

lemmas says_again_holds [ex_simps] = output_condition [OF says_again_form]

lemma compare_done [ex_simps]: "compare_values ''=='' ''done'' ''again'' = Inr False"
  by code_simp

lemma ask_node_simps [ex_simps]:
  "ns_id work_node = ''w''" "ns_depends work_node = [after ''a'', edge_if ''h'' says_again []]"
  "ns_join work_node = []" "ns_on_skip work_node = ''run''" "ns_on_fail work_node = []"
  "ns_id ask_node = ''h''" "ns_depends ask_node = [edge_if ''w'' exit_w0 ''L'']"
  "ns_join ask_node = []" "ns_on_skip ask_node = []" "ns_on_fail ask_node = []"
  by (simp_all add: work_node_def ask_node_def command_def blank_node_def)

lemma ex_ask_simps [ex_simps]:
  "wd_nodes ex_ask = [command ''a'' [], work_node, ask_node]" "max_executions ex_ask = 100"
  "wd_loops ex_ask = [\<lparr>lo_id = ''L'', lo_nodes = [''w'', ''h''], lo_parent = [], lo_max = 1, lo_exhausted = []\<rparr>]"
  by (simp_all add: ex_ask_def ex_simps)

text \<open>A breach is never taken back.\<close>

lemma evaluate_breached:
  assumes "evaluate_downstream d f i s = Some s'" "en_breached s"
  shows "en_breached s'"
proof (rule evaluate_keeps(1) [of d en_breached, OF _ assms(2,1)])
  show "turn_keeps d en_breached"
    unfolding turn_keeps_def
  proof (intro allI impI)
    fix i dead sk n and s :: eng assume b: "en_breached s"
    show "en_breached (fst (eval_dependent d i dead sk n s))"
    proof (cases rule: eval_dependent_cases [of d i dead sk n s])
      case (admit e)
      then show ?thesis using b by (cases rule: admit_cases [of d e "ns_id n" s]) (simp_all add: eng_frames)
    qed (simp_all add: b eng_frames)
  qed
qed

lemma launch_breached: "en_breached (launch s) = en_breached s"
proof -
  have "en_breached (fold launch_one is t) = en_breached t" for "is" t
    by (induction "is" arbitrary: t) (simp_all add: launch_one_def Let_def)
  then show ?thesis by (simp add: launch_def)
qed

lemma reach_breached: "wf_reach d s s' \<Longrightarrow> en_breached s \<Longrightarrow> en_breached s'"
proof (induction rule: rtranclp_induct)
  case (step t u)
  then have "en_breached t" by blast
  with step.hyps(2) show ?case
    by (cases rule: wf_step.cases) (auto simp: launch_breached eng_frames dest: evaluate_breached)
qed

lemma sweep_breached: "en_breached (sweep d is s) = en_breached s"
  by (induction d "is" s rule: sweep.induct) (simp_all add: eng_frames)

lemma breached_outcome:
  assumes "en_breached s"
  shows "fst (fst (run_settle lower d False s)) \<noteq> RunCompleted"
proof -
  have "en_breached (sweep_orphans d s)" using assms by (simp add: sweep_orphans_def sweep_breached)
  then have "fst (run_outcome d False (sweep_orphans d s)) \<noteq> RunCompleted"
    by (simp add: run_outcome_def Let_def)
  then show ?thesis by (simp add: run_settle_def Let_def split: option.splits)
qed

text \<open>What is restored: the results of the nodes that are not suspended, and both counters.\<close>

definition resumed :: "string list \<Rightarrow> eng \<Rightarrow> eng option" where
  "resumed ids s = engine_resume ex_ask 3 (AList.delete ''h'' (en_results s)) (en_iters s) (en_counts s) ids [''h'']"


section \<open>An early join\<close>

text \<open>The diamond whose join is declared \<open>always\<close>, and written with the two options it stands for.\<close>

definition join_node :: "bool \<Rightarrow> node_spec" where
  "join_node early = (command ''d'' [after ''b'', after ''c''])
     \<lparr>ns_join := if early then ''always'' else [], ns_on_skip := if early then [] else ''run'',
      ns_on_fail := if early then [] else ''run''\<rparr>"

definition ex_join :: "bool \<Rightarrow> wf_def" where
  "ex_join early = blank_def ''join'' []
     [command ''a'' [], command ''b'' [after ''a''], command ''c'' [after ''a''], join_node early]"

lemma ex_join_valid:
  "validate no_pd no_cron as_given (ex_join True) = None" "validate no_pd no_cron as_given (ex_join False) = None"
  by code_simp+

lemma join_node_simps [ex_simps]:
  "ns_id (join_node e) = ''d''" "ns_depends (join_node e) = [after ''b'', after ''c'']"
  "ns_join (join_node e) = (if e then ''always'' else [])" "ns_on_skip (join_node e) = (if e then [] else ''run'')"
  "ns_on_fail (join_node e) = (if e then [] else ''run'')"
  by (simp_all add: join_node_def command_def blank_node_def)

lemma ex_join_simps [ex_simps]:
  "wd_nodes (ex_join e) = [command ''a'' [], command ''b'' [after ''a''], command ''c'' [after ''a''], join_node e]"
  "max_executions (ex_join e) = 100" "wd_loops (ex_join e) = []"
  by (simp_all add: ex_join_def ex_simps)

text \<open>
  \<open>join: always\<close> is more than \<open>on_skip: run\<close> with \<open>on_fail: run\<close>, for which the definition
  language documents it as sugar: the joining node is launched as soon as one of its parents
  succeeds, while another still runs, and once more when that one has settled; with the two options
  instead it never is launched before all its parents have settled, nor twice.
\<close>

lemma join_always_runs_early:
  "(\<exists>s. wf_reach (ex_join True) (engine_start (ex_join True)) s \<and> is_running s ''d'' \<and> is_running s ''c'')
   \<and> (\<exists>s. wf_reach (ex_join True) (engine_start (ex_join True)) s \<and> tally (en_counts s) ''d'' = 2)
   \<and> {s. wf_reach (ex_join False) (engine_start (ex_join False)) s \<and> is_pending s ''d''} \<subseteq> {s. settled s ''b'' \<and> settled s ''c''}
   \<and> {tally (en_counts s) ''d'' |s. wf_reach (ex_join False) (engine_start (ex_join False)) s} \<subseteq> {0, 1}"
proof -
  let ?d = "ex_join False"
  have "\<exists>s. play (ex_join True) [(''a'', ok), (''b'', ok)] (engine_start (ex_join True)) = Some s \<and> is_running s ''d'' \<and> is_running s ''c''"
    by (simp add: run_simps ex_simps)
  moreover have "\<exists>s. play (ex_join True) [(''a'', ok), (''b'', ok), (''d'', ok), (''c'', ok)] (engine_start (ex_join True)) = Some s
      \<and> tally (en_counts s) ''d'' = 2"
    by (simp add: run_simps ex_simps)
  moreover have p: "plain ?d" by (simp add: plain_def ex_simps)
  have w: "distinct (map ns_id (wd_nodes ?d))" "validate_loops ?d = None"
    using validate_None [OF ex_join_valid(2)] by (simp_all add: well_formed_def)
  have "node_inv s (join_node False)" if "wf_reach ?d (engine_start ?d) s" for s
    using reach_plain [OF p w that] by (simp add: plain_ok_def plain_inv_def ex_simps)
  then have "(is_pending s ''d'' \<longrightarrow> settled s ''b'' \<and> settled s ''c'') \<and> tally (en_counts s) ''d'' \<in> {0, 1}"
    if "wf_reach ?d (engine_start ?d) s" for s
    using that by (auto simp: node_inv_def deps_done_def ex_simps)
  ultimately show ?thesis using play_reach by blast
qed

end
