(* ===== verification/GoJson.thy ===== *)
theory GoJson
  imports GoText
begin

text \<open>
  What the program relies on of Go's \<open>encoding/json\<close> and \<open>unicode/utf8\<close>: a text written to JSON
  has every byte that is not part of a UTF-8 sequence replaced by U+FFFD, a nil map is written like
  an empty one, and an object read into a map keeps the last member of each key. A database column
  that holds JSON is the document it encodes, or the empty text.
\<close>

section \<open>UTF-8\<close>

text \<open>The continuation bytes a sequence may have behind its first byte.\<close>

definition byte_in :: "nat \<Rightarrow> nat \<Rightarrow> char \<Rightarrow> bool" where
  "byte_in lo hi c \<longleftrightarrow> lo \<le> of_char c \<and> of_char c \<le> hi"

lemma byte_in_code [code]:
  "byte_in lo hi c \<longleftrightarrow> int lo \<le> of_char c \<and> of_char c \<le> int hi"
  by (metis byte_in_def of_nat_of_char of_nat_le_iff)

definition second_byte :: "nat \<Rightarrow> char \<Rightarrow> bool" where
  "second_byte b c =
     (if b = 0xE0 then byte_in 0xA0 0xBF c
      else if b = 0xED then byte_in 0x80 0x9F c
      else if b = 0xF0 then byte_in 0x90 0xBF c
      else if b = 0xF4 then byte_in 0x80 0x8F c
      else byte_in 0x80 0xBF c)"

text \<open>How many bytes the sequence has that its first byte announces; 0 for an invalid one.\<close>

definition announced :: "nat \<Rightarrow> nat" where
  "announced b = (if b < 0x80 then 1 else if b < 0xC2 then 0 else if b < 0xE0 then 2
     else if b < 0xF0 then 3 else if b < 0xF5 then 4 else 0)"

text \<open>\<open>utf8.DecodeRune\<close>, the size only: 0 where it returns \<open>RuneError\<close> with size 1.\<close>

fun rune_size :: "string \<Rightarrow> nat" where
  "rune_size [] = 0"
| "rune_size (c # r) =
     (let b = of_char c; k = announced b; cont = take (k - 1) r in
      if k = 0 then 0
      else if k = 1 then 1
      else if length cont = k - 1 \<and> second_byte b (hd cont) \<and> list_all (byte_in 0x80 0xBF) (tl cont) then k
      else 0)"

definition replacement :: string where "replacement = [CHR 0xEF, CHR 0xBF, CHR 0xBD]"

function valid_utf8 :: "string \<Rightarrow> string" where
  "valid_utf8 [] = []"
| "valid_utf8 (c # r) =
     (let k = rune_size (c # r) in
      if k = 0 then replacement @ valid_utf8 r else take k (c # r) @ valid_utf8 (drop k (c # r)))"
  by pat_completeness auto
termination
  by (relation "measure length") auto

declare valid_utf8.simps(2) [simp del] rune_size.simps(2) [simp del]

text \<open>Texts that are UTF-8 already.\<close>

definition is_utf8 :: "string \<Rightarrow> bool" where "is_utf8 s \<longleftrightarrow> valid_utf8 s = s"

lemma rune_size_ascii: "(of_char c :: nat) < 0x80 \<Longrightarrow> rune_size (c # r) = 1"
  by (simp add: rune_size.simps(2) announced_def Let_def)

lemma is_utf8_ascii: "list_all (\<lambda>c. (of_char c :: nat) < 0x80) s \<Longrightarrow> is_utf8 s"
  by (induction s) (simp_all add: is_utf8_def valid_utf8.simps(2) Let_def rune_size_ascii)

lemma is_utf8_Nil [simp]: "is_utf8 []"
  by (simp add: is_utf8_def)

section \<open>Columns\<close>

datatype 'a column = Blank | Doc 'a

type_synonym 'a go_map = "(string \<times> 'a) list option"

text \<open>\<open>json.Marshal\<close> of a map behind the test for nil; \<open>f\<close> is what writing does to a member.\<close>

definition encode_map :: "('a \<Rightarrow> 'a) \<Rightarrow> 'a go_map \<Rightarrow> (string \<times> 'a) list column" where
  "encode_map f m = (case m of None \<Rightarrow> Doc [] | Some kvs \<Rightarrow> Doc (map (\<lambda>(k, v). (valid_utf8 k, f v)) kvs))"

definition read_members :: "(string \<times> 'a) list \<Rightarrow> (string \<times> 'a) list" where
  "read_members kvs = foldl (\<lambda>m (k, v). AList.update k v m) [] kvs"

text \<open>\<open>json.Unmarshal\<close> into a map behind the test for the empty text.\<close>

definition decode_map :: "(string \<times> 'a) list column \<Rightarrow> (string \<times> 'a) list" where
  "decode_map c = (case c of Blank \<Rightarrow> [] | Doc kvs \<Rightarrow> read_members kvs)"

lemma update_new: "k \<notin> fst ` set m \<Longrightarrow> AList.update k v m = m @ [(k, v)]"
  by (induction m) auto

lemma foldl_update_distinct:
  "distinct (map fst (m @ kvs)) \<Longrightarrow> foldl (\<lambda>m (k, v). AList.update k v m) m kvs = m @ kvs"
proof (induction kvs arbitrary: m)
  case (Cons e kvs)
  obtain k v where e: "e = (k, v)" by fastforce
  from Cons.prems have "AList.update k v m = m @ [(k, v)]" by (simp add: e update_new)
  with Cons.IH [of "m @ [(k, v)]"] Cons.prems show ?case by (simp add: e)
qed simp

lemma read_members_distinct: "alist_wf kvs \<Longrightarrow> read_members kvs = kvs"
  using foldl_update_distinct [of "[]" kvs] by (simp add: read_members_def alist_wf_def)

lemma alist_wf_read_members: "alist_wf (read_members kvs)"
proof -
  have "alist_wf m \<Longrightarrow> alist_wf (foldl (\<lambda>m (k, v). AList.update k v m) m kvs)" for m
    by (induction kvs arbitrary: m) (auto simp: alist_wf_update)
  then show ?thesis by (simp add: read_members_def)
qed

lemma alist_wf_decode: "alist_wf (decode_map c)"
  by (cases c) (simp_all add: decode_map_def alist_wf_read_members)

text \<open>A map whose texts are UTF-8 is read back as it was.\<close>

lemma decode_encode:
  assumes "alist_wf m" "\<And>k v. (k, v) \<in> set m \<Longrightarrow> is_utf8 k \<and> f v = v"
  shows "decode_map (encode_map f (Some m)) = m"
proof -
  have "map (\<lambda>(k, v). (valid_utf8 k, f v)) m = m"
    using assms(2) by (intro map_idI) (auto simp: is_utf8_def)
  with assms(1) show ?thesis by (simp add: encode_map_def decode_map_def read_members_distinct)
qed

lemma decode_encode_nil [simp]: "decode_map (encode_map f None) = []"
  by (simp add: decode_map_def encode_map_def read_members_def)

section \<open>Texts in JSON\<close>

definition hex_digit :: "nat \<Rightarrow> char" where
  "hex_digit d = ''0123456789abcdef'' ! d"

text \<open>
  How a string is written: quotes, backslashes and control characters are escaped, and so are the
  characters that HTML gives a meaning and the two line separators of Unicode.
\<close>

definition json_char :: "char \<Rightarrow> string" where
  "json_char c =
     (let b = of_char c :: nat in
      if c = CHR 0x22 \<or> c = CHR 0x5C then [CHR 0x5C, c]
      else if b = 8 then [CHR 0x5C, CHR ''b''] else if b = 12 then [CHR 0x5C, CHR ''f'']
      else if b = 10 then [CHR 0x5C, CHR ''n''] else if b = 13 then [CHR 0x5C, CHR ''r'']
      else if b = 9 then [CHR 0x5C, CHR ''t'']
      else if b < 0x20 \<or> c \<in> {CHR ''<'', CHR ''>'', CHR ''&''}
        then [CHR 0x5C, CHR ''u'', CHR ''0'', CHR ''0'', hex_digit (b div 16), hex_digit (b mod 16)]
      else [c])"

fun json_body :: "string \<Rightarrow> string" where
  "json_body (a # b # c # r) =
     (if a = CHR 0xE2 \<and> b = CHR 0x80 \<and> c = CHR 0xA8 then CHR 0x5C # ''u2028'' @ json_body r
      else if a = CHR 0xE2 \<and> b = CHR 0x80 \<and> c = CHR 0xA9 then CHR 0x5C # ''u2029'' @ json_body r
      else json_char a @ json_body (b # c # r))"
| "json_body (a # r) = json_char a @ json_body r"
| "json_body [] = []"

definition json_string :: "string \<Rightarrow> string" where
  "json_string s = CHR 0x22 # json_body s @ [CHR 0x22]"

text \<open>Texts that stand in JSON as they are.\<close>

definition json_plain :: "string \<Rightarrow> bool" where
  "json_plain s \<longleftrightarrow> list_all (\<lambda>c. json_char c = [c] \<and> (of_char c :: nat) < 0x80) s"

lemma json_body_plain: "json_plain s \<Longrightarrow> json_body s = s"
  by (induction s rule: json_body.induct) (auto simp: json_plain_def)

lemma is_utf8_plain: "json_plain s \<Longrightarrow> is_utf8 s"
  by (rule is_utf8_ascii) (auto simp: json_plain_def list_all_iff)

end
