(* ===== verification/WfPersist.thy ===== *)
theory WfPersist
  imports WfEngine GoJson
begin

text \<open>
  What a run leaves in its store and how it is driven on from there: the persisted form of the node
  results (\<open>backend/lib/workflow/persistence.go\<close>), the identifiers of the questions a run puts to
  the user (\<open>persistence.go\<close>, \<open>quota_suspend.go\<close>, matched in \<open>api/workflow_persist.go\<close>), the context
  that restores a run (\<open>buildResumeContext\<close> in \<open>human.go\<close>) and the one that runs a failed run again
  (\<open>redrive.go\<close>).
\<close>

section \<open>Node states\<close>

record persisted_state =
  ps_status :: string
  ps_exit :: int
  ps_output :: string
  ps_output_path :: string
  ps_skip :: string
  ps_error :: string
  ps_loops :: "(string \<times> int) list option"
  ps_cli :: string
  ps_model :: string

type_synonym persisted = "(string \<times> persisted_state) list"

text \<open>A map is copied member by member; nil stays nil.\<close>

definition copy_int_map :: "tallies option \<Rightarrow> tallies option" where
  "copy_int_map m = map_option read_members m"

definition to_persisted_state :: "node_result \<Rightarrow> persisted_state" where
  "to_persisted_state r =
     \<lparr>ps_status = status_text (nr_status r), ps_exit = nr_exit r, ps_output = nr_output r, ps_output_path = [],
      ps_skip = reason_text (nr_reason r), ps_error = (case nr_error r of None \<Rightarrow> [] | Some e \<Rightarrow> e),
      ps_loops = copy_int_map (nr_loops r), ps_cli = nr_cli r, ps_model = nr_model r\<rparr>"

text \<open>A nil result has no state.\<close>

definition to_persisted_states :: "(string \<times> node_result option) list \<Rightarrow> persisted" where
  "to_persisted_states m =
     List.map_filter (\<lambda>(i, r). case r of None \<Rightarrow> None | Some r \<Rightarrow> Some (i, to_persisted_state r)) m"

definition from_persisted_state :: "persisted_state \<Rightarrow> node_result" where
  "from_persisted_state p =
     \<lparr>nr_status = status_of (ps_status p), nr_reason = reason_of (ps_skip p), nr_exit = ps_exit p,
      nr_output = ps_output p, nr_artifacts = [], nr_error = (if ps_error p = [] then None else Some (ps_error p)),
      nr_agent_name = [], nr_cli = ps_cli p, nr_model = ps_model p, nr_loops = copy_int_map (ps_loops p)\<rparr>"

definition from_persisted_states :: "persisted \<Rightarrow> results" where
  "from_persisted_states m = map (\<lambda>(i, p). (i, from_persisted_state p)) m"

section \<open>Statuses and suspension columns\<close>

text \<open>The engine spells a cancelled run with one L, the store with two.\<close>

fun run_status_text :: "run_status \<Rightarrow> string" where
  "run_status_text RunCompleted = ''COMPLETED''"
| "run_status_text RunFailed = ''FAILED''"
| "run_status_text RunCanceled = ''CANCELED''"

definition persist_status :: "run_status \<Rightarrow> string" where
  "persist_status st = (if st = RunCanceled then ''CANCELLED'' else run_status_text st)"

record suspended_info =
  si_message :: string
  si_iteration :: int

type_synonym suspensions = "(string \<times> suspended_info) list"

text \<open>The previous node when it is still suspended, else the first of the suspended nodes by id.\<close>

definition compat_suspended_columns :: "string \<Rightarrow> suspensions \<Rightarrow> string \<times> string" where
  "compat_suspended_columns prev m =
     (case (if prev \<noteq> [] then map_of m prev else None) of
        Some info \<Rightarrow> (prev, si_message info)
      | None \<Rightarrow>
          (case sort (map fst m) of
             [] \<Rightarrow> ([], [])
           | i # _ \<Rightarrow> (i, (case map_of m i of Some info \<Rightarrow> si_message info | None \<Rightarrow> []))))"

section \<open>Message identifiers\<close>

definition human_message_id :: "string \<Rightarrow> string \<Rightarrow> int \<Rightarrow> string" where
  "human_message_id run node k =
     (if k > 1 then ''wf-'' @ run @ ''-'' @ node @ ''-'' @ itoa k else ''wf-'' @ run @ ''-'' @ node)"

definition quota_message_id :: "string \<Rightarrow> string \<Rightarrow> int \<Rightarrow> int \<Rightarrow> string" where
  "quota_message_id run node k sq =
     (let base = human_message_id run (node @ ''-quota'') k
      in if sq > 1 then base @ ''-'' @ itoa sq else base)"

text \<open>\<open>strings.LastIndex\<close>.\<close>

fun last_index :: "string \<Rightarrow> string \<Rightarrow> nat option" where
  "last_index sub [] = (if sub = [] then Some 0 else None)"
| "last_index sub (c # s) =
     (case last_index sub s of
        Some k \<Rightarrow> Some (Suc k)
      | None \<Rightarrow> if take (length sub) (c # s) = sub then Some 0 else None)"

definition matches_quota_message_id :: "string \<Rightarrow> string \<Rightarrow> bool" where
  "matches_quota_message_id msg target =
     (case last_index (''-'' @ target) msg of
        None \<Rightarrow> False
      | Some i \<Rightarrow>
          let tail = drop (i + 1 + length target) msg in
          tail = [] \<or>
          list_all (\<lambda>g. atoi g \<noteq> None)
            (split_on (CHR ''-'') (case cut_prefix ''-'' tail of Some t \<Rightarrow> t | None \<Rightarrow> tail)))"

section \<open>Snapshots\<close>

text \<open>Created and updated times are left out: nothing reads them from a snapshot.\<close>

record run_snapshot =
  sn_run :: string
  sn_session :: string
  sn_status :: string
  sn_dag :: string
  sn_dir :: string
  sn_input :: string
  sn_states :: persisted
  sn_loops :: "tallies option"
  sn_counts :: "tallies option"
  sn_node :: string
  sn_message :: string
  sn_suspended :: "suspensions option"
  sn_parent :: string
  sn_cross :: bool

text \<open>\<open>snapshotStates\<close> in \<open>Execute\<close>: what has settled and is not running again, and the counters.\<close>

record capture =
  cp_states :: persisted
  cp_loops :: "tallies option"
  cp_counts :: "tallies option"

definition capture_states :: "eng \<Rightarrow> capture" where
  "capture_states s =
     \<lparr>cp_states = filter (\<lambda>(i, _). \<not> is_running s i)
        (to_persisted_states (map (\<lambda>(i, r). (i, Some r)) (en_results s))),
      cp_loops = copy_int_map (Some (en_iters s)), cp_counts = copy_int_map (Some (en_counts s))\<rparr>"

text \<open>
  The snapshot a node leaves when it suspends the run: \<open>run\<close> has the fields that do not change,
  \<open>waiters\<close> are all nodes that wait now, this one among them.
\<close>

definition suspension_snapshot ::
  "run_snapshot \<Rightarrow> string \<Rightarrow> string \<Rightarrow> suspensions \<Rightarrow> capture \<Rightarrow> run_snapshot" where
  "suspension_snapshot run node msg waiters cap =
     run\<lparr>sn_status := ''WAITING_HUMAN'',
       sn_states := filter (\<lambda>(i, _). i \<noteq> node \<and> i \<notin> fst ` set waiters) (cp_states cap),
       sn_loops := cp_loops cap, sn_counts := cp_counts cap, sn_node := node, sn_message := msg,
       sn_suspended := Some waiters\<rparr>"

section \<open>Driving a run on\<close>

text \<open>The part of a \<open>RunContext\<close> that a resume fills from the snapshot.\<close>

record run_context =
  rc_run :: string
  rc_session :: string
  rc_parent :: string
  rc_dir :: string
  rc_input :: string
  rc_dag :: string
  rc_cross :: bool
  rc_seeds :: results
  rc_seed_loops :: "tallies option"
  rc_seed_counts :: "tallies option"
  rc_reuse :: "(string \<times> string) list"
  rc_replies :: "(string \<times> string) list"
  rc_activate :: "string list"

definition suspended_map :: "run_snapshot \<Rightarrow> suspensions" where
  "suspended_map sn = (case sn_suspended sn of None \<Rightarrow> [] | Some m \<Rightarrow> m)"

definition reuse_ids :: "run_snapshot \<Rightarrow> (string \<times> string) list" where
  "reuse_ids sn =
     List.map_filter (\<lambda>(i, info). if si_message info = [] then None else Some (i, si_message info)) (suspended_map sn)"

definition build_resume_context :: "run_snapshot \<Rightarrow> string \<Rightarrow> run_context" where
  "build_resume_context sn reply =
     (let multi = suspended_map sn \<noteq> []; one = \<not> multi \<and> sn_node sn \<noteq> [];
          answered = (sn_node sn \<noteq> [] \<and> reply \<noteq> [])
      in \<lparr>rc_run = sn_run sn, rc_session = sn_session sn, rc_parent = sn_parent sn, rc_dir = sn_dir sn,
          rc_input = sn_input sn, rc_dag = sn_dag sn, rc_cross = sn_cross sn,
          rc_seeds = filter (\<lambda>(i, _). i \<noteq> sn_node sn \<and> i \<notin> fst ` set (suspended_map sn))
             (from_persisted_states (sn_states sn)),
          rc_seed_loops = copy_int_map (sn_loops sn), rc_seed_counts = copy_int_map (sn_counts sn),
          rc_reuse = (if one \<and> sn_message sn \<noteq> [] then AList.update (sn_node sn) (sn_message sn) (reuse_ids sn) else reuse_ids sn),
          rc_replies = (if answered then [(sn_node sn, reply)] else []),
          rc_activate = (if multi then map fst (suspended_map sn) else if one then [sn_node sn] else [])\<rparr>)"

text \<open>The results a failed run keeps when it is driven again.\<close>

definition redrive_keeps :: "node_result \<Rightarrow> bool" where
  "redrive_keeps r \<longleftrightarrow> nr_status r = StSucceeded \<or> (nr_status r = StSkipped \<and> nr_reason r = SrConditionFalse)"

definition redrive_context :: "run_snapshot \<Rightarrow> run_context" where
  "redrive_context sn =
     (let rc = build_resume_context sn [] in rc\<lparr>rc_seeds := filter (\<lambda>(_, r). redrive_keeps r) (rc_seeds rc)\<rparr>)"

text \<open>
  \<open>Execute\<close> on such a context: from the seeds when there are any, else from the roots with the
  restored counters. \<open>order\<close> is the order in which Go iterates the seeds.
\<close>

definition tallies_of :: "tallies option \<Rightarrow> tallies" where
  "tallies_of m = (case m of None \<Rightarrow> [] | Some kvs \<Rightarrow> kvs)"

definition start_from :: "wf_def \<Rightarrow> nat \<Rightarrow> string list \<Rightarrow> run_context \<Rightarrow> eng option" where
  "start_from d f order rc =
     (let iters = tallies_of (rc_seed_loops rc); counts = tallies_of (rc_seed_counts rc) in
      if rc_seeds rc \<noteq> [] then engine_resume d f (rc_seeds rc) iters counts order (rc_activate rc)
      else Some (fold (\<lambda>n s. snd (enqueue d (ns_id n) s)) (filter (is_root d) (wd_nodes d)) (engine_init [] iters counts)))"

section \<open>Properties\<close>

lemma copy_int_map_wf: "(\<And>kvs. m = Some kvs \<Longrightarrow> alist_wf kvs) \<Longrightarrow> copy_int_map m = m"
  by (cases m) (simp_all add: copy_int_map_def read_members_distinct)

end
