(* ===== verification/WfStore.thy ===== *)
theory WfStore
  imports WfPersist GoPath
begin

text \<open>
  The store of workflow runs: the repository (\<open>backend/lib/dbmodels/workflow_run.go\<close>), which keeps
  a row for each run and moves the long texts of the row to files of the session, and the adapter
  through which the engine uses it (\<open>backend/lib/api/workflow_persist.go\<close>). The table is the list of
  rows by run id, with the meaning the queries have in SQL; \<open>now\<close> is the clock, and \<open>like\<close>, SQL's
  LIKE with the escape character backslash, is a parameter of the one query that uses it.
\<close>

section \<open>Node states and columns\<close>

record node_state =
  ds_status :: string
  ds_exit :: int
  ds_output :: string
  ds_output_path :: string
  ds_skip :: string
  ds_error :: string
  ds_cli :: string
  ds_model :: string

type_synonym node_states = "(string \<times> node_state) list"

definition json_state :: "node_state \<Rightarrow> node_state" where
  "json_state s =
     \<lparr>ds_status = valid_utf8 (ds_status s), ds_exit = ds_exit s, ds_output = valid_utf8 (ds_output s),
      ds_output_path = valid_utf8 (ds_output_path s), ds_skip = valid_utf8 (ds_skip s),
      ds_error = valid_utf8 (ds_error s), ds_cli = valid_utf8 (ds_cli s), ds_model = valid_utf8 (ds_model s)\<rparr>"

definition json_info :: "suspended_info \<Rightarrow> suspended_info" where
  "json_info i = i\<lparr>si_message := valid_utf8 (si_message i)\<rparr>"

definition encode_node_states :: "node_states option \<Rightarrow> node_states column" where
  "encode_node_states m = encode_map json_state m"

definition decode_node_states :: "node_states column \<Rightarrow> node_states" where
  "decode_node_states c = decode_map c"

definition encode_int_map :: "tallies option \<Rightarrow> tallies column" where
  "encode_int_map m = encode_map id m"

definition decode_int_map :: "tallies column \<Rightarrow> tallies" where
  "decode_int_map c = decode_map c"

definition encode_suspended :: "suspensions option \<Rightarrow> suspensions column" where
  "encode_suspended m = encode_map json_info m"

definition decode_suspended :: "suspensions column \<Rightarrow> suspensions" where
  "decode_suspended c = decode_map c"

text \<open>A row; the specification and the input are not columns, only the paths of their files are.\<close>

record run_row =
  rr_run :: string
  rr_session :: string
  rr_status :: string
  rr_dag :: string
  rr_dag_path :: string
  rr_states :: "node_states column"
  rr_loops :: "tallies column"
  rr_counts :: "tallies column"
  rr_node :: string
  rr_message :: string
  rr_suspended :: "suspensions column"
  rr_parent :: string
  rr_dir :: string
  rr_cross :: bool
  rr_input :: string
  rr_input_path :: string
  rr_updated :: int

definition zero_row :: run_row where
  "zero_row = \<lparr>rr_run = [], rr_session = [], rr_status = [], rr_dag = [], rr_dag_path = [], rr_states = Blank,
     rr_loops = Blank, rr_counts = Blank, rr_node = [], rr_message = [], rr_suspended = Blank, rr_parent = [],
     rr_dir = [], rr_cross = False, rr_input = [], rr_input_path = [], rr_updated = 0\<rparr>"

section \<open>Files of a session\<close>

text \<open>
  A session store: its root, the files in it, and whether it can be reached. A write replaces the
  whole file or fails without a trace; that it is left out when the file is the same does not show.
\<close>

record file_store =
  fs_root :: string
  fs_files :: "string \<Rightarrow> string option"
  fs_up :: bool

datatype repo_error = StoreDown | BadRunId string | BadNodeId string | FileMissing string | RowMissing

definition store_write :: "string \<Rightarrow> string \<Rightarrow> file_store \<Rightarrow> file_store option" where
  "store_write p data st = (if fs_up st then Some (st\<lparr>fs_files := (fs_files st)(p \<mapsto> data)\<rparr>) else None)"

definition store_read :: "file_store \<Rightarrow> string \<Rightarrow> repo_error + string" where
  "store_read st p =
     (if \<not> fs_up st then Inl StoreDown
      else case fs_files st p of Some data \<Rightarrow> Inr data | None \<Rightarrow> Inl (FileMissing p))"

definition unsafe_name :: "string \<Rightarrow> bool" where
  "unsafe_name n \<longleftrightarrow> n = ''.'' \<or> n = ''..'' \<or> slash \<in> set n \<or> CHR 0x5C \<in> set n"

definition is_within_dir :: "string \<Rightarrow> string \<Rightarrow> bool" where
  "is_within_dir dir p =
     (case path_rel (path_clean dir) (path_clean p) of
        None \<Rightarrow> False
      | Some rel \<Rightarrow> rel = ''.'' \<or> (rel \<noteq> ''..'' \<and> cut_prefix ''../'' rel = None))"

section \<open>Off-loading\<close>

definition log_name :: "string \<Rightarrow> string" where "log_name i = path_clean i @ ''.log''"

fun offload_states :: "string \<Rightarrow> node_states \<Rightarrow> file_store \<Rightarrow> file_store \<times> (repo_error + node_states)" where
  "offload_states dir [] st = (st, Inr [])"
| "offload_states dir ((i, s) # ss) st =
     (if ds_output s = [] then
        (case offload_states dir ss st of
           (st1, Inr out) \<Rightarrow> (st1, Inr ((i, s) # out)) | (st1, Inl x) \<Rightarrow> (st1, Inl x))
      else if unsafe_name (path_clean i) then (st, Inl (BadNodeId i))
      else (case store_write (path_join [dir, log_name i]) (ds_output s) st of
          None \<Rightarrow> (st, Inl StoreDown)
        | Some st1 \<Rightarrow>
            (case offload_states dir ss st1 of
               (st2, Inr out) \<Rightarrow> (st2, Inr ((i, s\<lparr>ds_output_path := path_join [dir, log_name i], ds_output := []\<rparr>) # out))
             | (st2, Inl x) \<Rightarrow> (st2, Inl x))))"

text \<open>A text that goes to a file of its own when there is one; the path is empty when there is none.\<close>

definition offload_text :: "string \<Rightarrow> string \<Rightarrow> file_store \<Rightarrow> (string \<times> file_store) option" where
  "offload_text p data st =
     (if data = [] then Some ([], st) else map_option (\<lambda>st1. (p, st1)) (store_write p data st))"

definition run_files :: "file_store \<Rightarrow> string \<Rightarrow> string" where
  "run_files st run = path_join [fs_root st, ''workflows'', path_clean run]"

definition write_offloaded ::
  "file_store \<Rightarrow> string \<Rightarrow> string \<Rightarrow> string \<Rightarrow> node_states
    \<Rightarrow> file_store \<times> (repo_error + string \<times> string \<times> node_states)" where
  "write_offloaded st run dag input states =
     (if unsafe_name (path_clean run) then (st, Inl (BadRunId run))
      else (let dir = run_files st run in
        (case offload_text (path_join [dir, ''dag_spec.yaml'']) dag st of
           None \<Rightarrow> (st, Inl StoreDown)
         | Some (dag_path, st1) \<Rightarrow>
             (case offload_text (path_join [dir, ''input.txt'']) input st1 of
                None \<Rightarrow> (st1, Inl StoreDown)
              | Some (in_path, st2) \<Rightarrow>
                  (case offload_states (path_join [dir, ''nodes'']) states st2 of
                     (st3, Inl x) \<Rightarrow> (st3, Inl x)
                   | (st3, Inr out) \<Rightarrow> (st3, Inr (dag_path, in_path, out)))))))"

section \<open>Hydration\<close>

definition hydrate_text :: "file_store \<Rightarrow> string \<Rightarrow> string \<Rightarrow> repo_error + string" where
  "hydrate_text st p old = (if p = [] then Inr old else store_read st p)"

fun hydrate_states :: "file_store \<Rightarrow> string \<Rightarrow> node_states \<Rightarrow> repo_error + node_states" where
  "hydrate_states st dir [] = Inr []"
| "hydrate_states st dir ((i, s) # ss) =
     (let rest = hydrate_states st dir ss in
      if ds_output_path s = [] then map_sum id (\<lambda>out. (i, s) # out) rest
      else if dir \<noteq> [] \<and> \<not> is_within_dir dir (ds_output_path s) then
        map_sum id (\<lambda>out. (i, s\<lparr>ds_output_path := []\<rparr>) # out) rest
      else (case store_read st (ds_output_path s) of
          Inl x \<Rightarrow> Inl x
        | Inr data \<Rightarrow> map_sum id (\<lambda>out. (i, s\<lparr>ds_output := data\<rparr>) # out) rest))"

definition hydrate_column :: "file_store \<Rightarrow> string \<Rightarrow> node_states column \<Rightarrow> repo_error + node_states column" where
  "hydrate_column st dag_path c =
     (if c = Blank then Inr c
      else (let states = decode_node_states c;
                dir = (if dag_path = [] then [] else path_join [path_dir dag_path, ''nodes''])
            in (case hydrate_states st dir states of
                  Inl x \<Rightarrow> Inl x
                | Inr out \<Rightarrow> Inr (if list_all (\<lambda>(_, s). ds_output_path s = []) states then c
                                 else encode_node_states (Some out)))))"

definition hydrate_run :: "file_store \<Rightarrow> run_row \<Rightarrow> bool \<Rightarrow> repo_error + run_row" where
  "hydrate_run st r full =
     (case hydrate_text st (rr_dag_path r) (rr_dag r) of
        Inl x \<Rightarrow> Inl x
      | Inr dag \<Rightarrow>
          (case hydrate_text st (rr_input_path r) (rr_input r) of
             Inl x \<Rightarrow> Inl x
           | Inr input \<Rightarrow>
               (case (if full then hydrate_column st (rr_dag_path r) (rr_states r) else Inr (rr_states r)) of
                  Inl x \<Rightarrow> Inl x
                | Inr c \<Rightarrow> Inr (r\<lparr>rr_dag := dag, rr_input := input, rr_states := c\<rparr>))))"

section \<open>The repository\<close>

text \<open>The table, and the store of each session, which the session may lack.\<close>

record repo =
  rp_rows :: "(string \<times> run_row) list"
  rp_stores :: "string \<Rightarrow> file_store option"

definition set_store :: "string \<Rightarrow> file_store \<Rightarrow> repo \<Rightarrow> repo" where
  "set_store session st p = p\<lparr>rp_stores := (rp_stores p)(session \<mapsto> st)\<rparr>"

text \<open>Saving a row writes all its columns and the time.\<close>

definition db_save :: "int \<Rightarrow> run_row \<Rightarrow> repo \<Rightarrow> repo" where
  "db_save now r p =
     p\<lparr>rp_rows := AList.update (rr_run r) (r\<lparr>rr_dag := [], rr_input := [], rr_updated := now\<rparr>) (rp_rows p)\<rparr>"

definition save_run :: "int \<Rightarrow> run_row \<Rightarrow> repo \<Rightarrow> repo \<times> repo_error option" where
  "save_run now r p =
     (case rp_stores p (rr_session r) of
        None \<Rightarrow> (p, Some StoreDown)
      | Some st \<Rightarrow>
          (case write_offloaded st (rr_run r) (rr_dag r) (rr_input r) (decode_node_states (rr_states r)) of
             (st1, Inl x) \<Rightarrow> (set_store (rr_session r) st1 p, Some x)
           | (st1, Inr (dag_path, in_path, states)) \<Rightarrow>
               (db_save now
                  (r\<lparr>rr_dag_path := if dag_path = [] then rr_dag_path r else dag_path,
                     rr_input_path := if in_path = [] then rr_input_path r else in_path,
                     rr_states := encode_node_states (Some states)\<rparr>)
                  (set_store (rr_session r) st1 p), None)))"

text \<open>An UPDATE of the rows a condition selects.\<close>

definition update_rows :: "int \<Rightarrow> (run_row \<Rightarrow> bool) \<Rightarrow> (run_row \<Rightarrow> run_row) \<Rightarrow> repo \<Rightarrow> repo" where
  "update_rows now sel f p =
     p\<lparr>rp_rows := map (\<lambda>(i, r). (i, if sel r then (f r)\<lparr>rr_updated := now\<rparr> else r)) (rp_rows p)\<rparr>"

definition update_run_status :: "int \<Rightarrow> string \<Rightarrow> string \<Rightarrow> repo \<Rightarrow> repo" where
  "update_run_status now run status p = update_rows now (\<lambda>r. rr_run r = run) (\<lambda>r. r\<lparr>rr_status := status\<rparr>) p"

definition reset_all_running :: "int \<Rightarrow> repo \<Rightarrow> repo" where
  "reset_all_running now p =
     update_rows now (\<lambda>r. rr_status r = ''RUNNING'') (\<lambda>r. r\<lparr>rr_status := ''FAILED''\<rparr>) p"

definition get_run_row :: "string \<Rightarrow> repo \<Rightarrow> run_row option" where
  "get_run_row run p = map_of (rp_rows p) run"

definition hydrate :: "repo \<Rightarrow> run_row \<Rightarrow> repo_error + run_row" where
  "hydrate p r = (case rp_stores p (rr_session r) of None \<Rightarrow> Inl StoreDown | Some st \<Rightarrow> hydrate_run st r True)"

definition hydrated :: "repo \<Rightarrow> run_row option \<Rightarrow> repo_error + run_row option" where
  "hydrated p r = (case r of None \<Rightarrow> Inr None | Some r \<Rightarrow> map_sum id Some (hydrate p r))"

definition repo_get_run :: "string \<Rightarrow> repo \<Rightarrow> repo_error + run_row option" where
  "repo_get_run run p = hydrated p (get_run_row run p)"

text \<open>The rows a condition selects; most recent first; the first of them, which GORM finds by run id.\<close>

definition rows_where :: "(run_row \<Rightarrow> bool) \<Rightarrow> repo \<Rightarrow> run_row list" where
  "rows_where sel p = filter sel (map snd (rp_rows p))"

definition by_recency :: "run_row list \<Rightarrow> run_row list" where
  "by_recency rs = sort_key (\<lambda>r. - rr_updated r) rs"

definition first_row :: "run_row list \<Rightarrow> run_row option" where
  "first_row rs = (case rs of [] \<Rightarrow> None | r # _ \<Rightarrow> Some r)"

definition waiting_in :: "string \<Rightarrow> run_row \<Rightarrow> bool" where
  "waiting_in session r \<longleftrightarrow> rr_session r = session \<and> rr_status r = ''WAITING_HUMAN''"

definition list_runs :: "string \<Rightarrow> repo \<Rightarrow> run_row list" where
  "list_runs session p = by_recency (rows_where (\<lambda>r. rr_session r = session) p)"

definition find_waiting_row :: "string \<Rightarrow> repo \<Rightarrow> repo_error + run_row option" where
  "find_waiting_row session p =
     hydrated p (first_row (by_recency (sort_key rr_run (rows_where (waiting_in session) p))))"

fun hydrate_all :: "repo \<Rightarrow> run_row list \<Rightarrow> repo_error + run_row list" where
  "hydrate_all p [] = Inr []"
| "hydrate_all p (r # rs) =
     (case hydrate p r of Inl x \<Rightarrow> Inl x | Inr h \<Rightarrow> map_sum id ((#) h) (hydrate_all p rs))"

definition find_waiting_rows :: "string \<Rightarrow> repo \<Rightarrow> repo_error + run_row list" where
  "find_waiting_rows session p = hydrate_all p (by_recency (rows_where (waiting_in session) p))"

definition has_running_run :: "string \<Rightarrow> repo \<Rightarrow> bool" where
  "has_running_run session p \<longleftrightarrow>
     length (rows_where (\<lambda>r. rr_session r = session \<and> rr_status r = ''RUNNING'') p) > 0"

text \<open>The wildcards of LIKE and its escape character, escaped.\<close>

definition escape_like :: "string \<Rightarrow> string" where
  "escape_like s = concat (map (\<lambda>c. if c \<in> {CHR 0x5C, CHR ''%'', CHR ''_''} then [CHR 0x5C, c] else [c]) s)"

definition info_text :: "suspended_info \<Rightarrow> string" where
  "info_text i = CHR 0x7B # json_string ''message_id'' @ CHR '':'' # json_string (si_message i) @ CHR '','' #
     json_string ''iteration'' @ CHR '':'' # itoa (si_iteration i) @ [CHR 0x7D]"

definition suspended_text :: "suspensions column \<Rightarrow> string" where
  "suspended_text c = (case c of
     Blank \<Rightarrow> []
   | Doc m \<Rightarrow> CHR 0x7B # join_with (CHR '','') (map (\<lambda>(i, info). json_string i @ CHR '':'' # info_text info) m) @ [CHR 0x7D])"

definition message_pattern :: "string \<Rightarrow> string" where
  "message_pattern msg = CHR ''%'' # json_string ''message_id'' @ CHR '':'' # CHR 0x22 # escape_like msg @ [CHR 0x22, CHR ''%'']"

definition find_waiting_by_message :: "(string \<Rightarrow> string \<Rightarrow> bool) \<Rightarrow> string \<Rightarrow> repo \<Rightarrow> repo_error + run_row option" where
  "find_waiting_by_message like msg p =
     (case first_row (sort_key rr_run (rows_where (\<lambda>r. rr_message r = msg \<and> rr_status r = ''WAITING_HUMAN'') p)) of
        Some r \<Rightarrow> hydrated p (Some r)
      | None \<Rightarrow>
          hydrated p (first_row (sort_key rr_run
            (rows_where (\<lambda>r. rr_status r = ''WAITING_HUMAN'' \<and> like (message_pattern msg) (suspended_text (rr_suspended r))) p))))"

definition repo_refresh_suspension ::
  "int \<Rightarrow> string \<Rightarrow> node_states \<Rightarrow> tallies option \<Rightarrow> tallies option \<Rightarrow> suspensions option \<Rightarrow> repo
    \<Rightarrow> repo \<times> repo_error option" where
  "repo_refresh_suspension now run states loops counts susp p =
     (case get_run_row run p of
        None \<Rightarrow> (p, Some RowMissing)
      | Some row \<Rightarrow>
          (case rp_stores p (rr_session row) of
             None \<Rightarrow> (p, Some StoreDown)
           | Some st \<Rightarrow>
               (case write_offloaded st run [] [] states of
                  (st1, Inl x) \<Rightarrow> (set_store (rr_session row) st1 p, Some x)
                | (st1, Inr (_, _, out)) \<Rightarrow>
                    (let cols = compat_suspended_columns (rr_node row) (case susp of None \<Rightarrow> [] | Some m \<Rightarrow> m)
                     in (update_rows now (\<lambda>r. rr_run r = run)
                           (\<lambda>r. r\<lparr>rr_states := encode_node_states (Some out), rr_loops := encode_int_map loops,
                                  rr_counts := encode_int_map counts, rr_suspended := encode_suspended susp,
                                  rr_node := fst cols, rr_message := snd cols\<rparr>)
                           (set_store (rr_session row) st1 p), None)))))"

section \<open>The store the engine uses\<close>

definition to_db_state :: "persisted_state \<Rightarrow> node_state" where
  "to_db_state s = \<lparr>ds_status = ps_status s, ds_exit = ps_exit s, ds_output = ps_output s,
     ds_output_path = ps_output_path s, ds_skip = ps_skip s, ds_error = ps_error s, ds_cli = ps_cli s, ds_model = ps_model s\<rparr>"

definition to_db_states :: "persisted \<Rightarrow> node_states" where
  "to_db_states m = map (\<lambda>(i, s). (i, to_db_state s)) m"

definition from_db_state :: "node_state \<Rightarrow> persisted_state" where
  "from_db_state s = \<lparr>ps_status = ds_status s, ps_exit = ds_exit s, ps_output = ds_output s,
     ps_output_path = ds_output_path s, ps_skip = ds_skip s, ps_error = ds_error s, ps_loops = None,
     ps_cli = ds_cli s, ps_model = ds_model s\<rparr>"

definition row_snapshot :: "run_row \<Rightarrow> run_snapshot" where
  "row_snapshot r =
     \<lparr>sn_run = rr_run r, sn_session = rr_session r, sn_status = rr_status r, sn_dag = rr_dag r, sn_dir = rr_dir r,
      sn_input = rr_input r, sn_states = map (\<lambda>(i, s). (i, from_db_state s)) (decode_node_states (rr_states r)),
      sn_loops = Some (decode_int_map (rr_loops r)), sn_counts = Some (decode_int_map (rr_counts r)),
      sn_node = rr_node r, sn_message = rr_message r, sn_suspended = Some (decode_suspended (rr_suspended r)),
      sn_parent = rr_parent r, sn_cross = rr_cross r\<rparr>"

definition store_start_run :: "int \<Rightarrow> run_snapshot \<Rightarrow> repo \<Rightarrow> repo \<times> repo_error option" where
  "store_start_run now sn p =
     save_run now (zero_row\<lparr>rr_run := sn_run sn, rr_session := sn_session sn, rr_status := ''RUNNING'',
       rr_dag := sn_dag sn, rr_states := Doc [], rr_dir := sn_dir sn, rr_input := sn_input sn,
       rr_parent := sn_parent sn, rr_cross := sn_cross sn\<rparr>) p"

definition waiting_row :: "run_snapshot \<Rightarrow> run_row" where
  "waiting_row sn = zero_row\<lparr>rr_run := sn_run sn, rr_session := sn_session sn, rr_status := ''WAITING_HUMAN'',
     rr_dag := sn_dag sn, rr_states := encode_node_states (Some (to_db_states (sn_states sn))),
     rr_loops := encode_int_map (sn_loops sn), rr_counts := encode_int_map (sn_counts sn), rr_node := sn_node sn,
     rr_message := sn_message sn, rr_suspended := encode_suspended (sn_suspended sn), rr_parent := sn_parent sn,
     rr_dir := sn_dir sn, rr_input := sn_input sn, rr_cross := sn_cross sn\<rparr>"

definition mark_waiting_human :: "int \<Rightarrow> run_snapshot \<Rightarrow> repo \<Rightarrow> repo \<times> repo_error option" where
  "mark_waiting_human now sn p = save_run now (waiting_row sn) p"

text \<open>The statuses of the engine and of the rows are the same texts; a run without a row is left alone.\<close>

definition settle_run :: "int \<Rightarrow> string \<Rightarrow> string \<Rightarrow> persisted \<Rightarrow> repo \<Rightarrow> repo \<times> repo_error option" where
  "settle_run now run status states p =
     (case get_run_row run p of
        None \<Rightarrow> (p, None)
      | Some row \<Rightarrow>
          save_run now (row\<lparr>rr_status := status, rr_states := encode_node_states (Some (to_db_states states))\<rparr>) p)"

definition snapshot_of :: "repo_error + run_row option \<Rightarrow> repo_error + run_snapshot option" where
  "snapshot_of r = map_sum id (map_option row_snapshot) r"

definition get_run :: "string \<Rightarrow> repo \<Rightarrow> repo_error + run_snapshot option" where
  "get_run run p = snapshot_of (repo_get_run run p)"

definition find_waiting_human :: "string \<Rightarrow> repo \<Rightarrow> repo_error + run_snapshot option" where
  "find_waiting_human session p = snapshot_of (find_waiting_row session p)"

definition find_waiting_humans :: "string \<Rightarrow> repo \<Rightarrow> repo_error + run_snapshot list" where
  "find_waiting_humans session p = map_sum id (map row_snapshot) (find_waiting_rows session p)"

definition find_by_message :: "(string \<Rightarrow> string \<Rightarrow> bool) \<Rightarrow> string \<Rightarrow> repo \<Rightarrow> repo_error + run_snapshot option" where
  "find_by_message like msg p = snapshot_of (find_waiting_by_message like msg p)"

definition refresh_suspension ::
  "int \<Rightarrow> string \<Rightarrow> persisted \<Rightarrow> tallies option \<Rightarrow> tallies option \<Rightarrow> suspensions option \<Rightarrow> repo
    \<Rightarrow> repo \<times> repo_error option" where
  "refresh_suspension now run states loops counts susp p =
     repo_refresh_suspension now run (to_db_states states) loops counts susp p"

definition mark_running :: "int \<Rightarrow> string \<Rightarrow> repo \<Rightarrow> repo" where
  "mark_running now run p = update_run_status now run ''RUNNING'' p"

end
