(* ===== verification/WfStoreProps.thy ===== *)
theory WfStoreProps
  imports WfStore
begin

text \<open>
  What the store keeps: a suspended run is read back as it was written, through the files of its
  session and the JSON columns of its row.
\<close>

section \<open>Names and paths of the files of a run\<close>

definition safe_name :: "string \<Rightarrow> bool" where
  "safe_name n \<longleftrightarrow> plain_comp n \<and> CHR 0x5C \<notin> set n"

lemma path_clean_plain: "plain_comp c \<Longrightarrow> path_clean c = c"
proof -
  assume c: "plain_comp c"
  then have "\<not> path_is_abs c" "slash \<notin> set c"
    by (auto simp: plain_comp_def path_is_abs_def split: list.splits)
  with c show ?thesis
    by (simp add: path_clean_def path_comps_def path_print_def split_on_no_sep clean_step_plain)
qed

lemma safe_name_clean:
  assumes "safe_name n"
  shows "path_clean n = n" "\<not> unsafe_name (path_clean n)" "plain_comp n"
  using assms path_clean_plain [of n] by (auto simp: safe_name_def unsafe_name_def plain_comp_def)

lemma plain_log: "plain_comp n \<Longrightarrow> plain_comp (n @ ''.log'')"
  by (auto simp: plain_comp_def)

lemma log_name_safe: "safe_name n \<Longrightarrow> log_name n = n @ ''.log'' \<and> plain_comp (log_name n)"
  by (simp add: log_name_def safe_name_clean plain_log)

text \<open>A directory that is named as \<open>filepath.Join\<close> names it.\<close>

definition clean_dir :: "string \<Rightarrow> bool" where
  "clean_dir d \<longleftrightarrow> d \<noteq> [] \<and> path_is_abs d \<and> path_clean d = d"

lemma clean_dir_join:
  assumes "clean_dir d" "plain_comp c"
  shows "clean_dir (path_join [d, c])"
proof -
  have "path_join [d, c] = path_clean (d @ slash # c)"
    using assms by (auto simp: path_join_def clean_dir_def plain_comp_def)
  then show ?thesis
    using path_join_snoc [of d c] path_join_nonempty [of d "[c]"] assms by (simp add: clean_dir_def)
qed

lemma join_inj:
  assumes "clean_dir d" "plain_comp a" "plain_comp b" "path_join [d, a] = path_join [d, b]"
  shows "a = b"
proof -
  have "path_comps (path_join [d, a]) = path_comps (path_join [d, b])" using assms(4) by simp
  then show ?thesis using assms(1-3) by (simp add: clean_dir_def path_join_snoc)
qed

lemma join_deeper:
  assumes "clean_dir d" "plain_comp a" "plain_comp b" "plain_comp c"
  shows "path_join [path_join [d, a], b] \<noteq> path_join [d, c]"
proof
  assume "path_join [path_join [d, a], b] = path_join [d, c]"
  then have "length (path_comps (path_join [path_join [d, a], b])) = length (path_comps (path_join [d, c]))" by simp
  then show False
    using assms clean_dir_join [OF assms(1,2)] by (simp add: clean_dir_def path_join_snoc)
qed

lemma path_dir_join: "clean_dir d \<Longrightarrow> plain_comp c \<Longrightarrow> path_dir (path_join [d, c]) = d"
  by (simp add: clean_dir_def path_dir_snoc)

lemma within_join:
  assumes "clean_dir d" "plain_comp c"
  shows "is_within_dir d (path_join [d, c])"
proof -
  let ?p = "path_join [d, c]"
  have p: "path_comps ?p = path_comps d @ [c]" "path_is_abs ?p" "path_clean ?p = ?p" "path_is_abs d" "path_clean d = d"
    using assms clean_dir_join [OF assms] by (simp_all add: clean_dir_def path_join_snoc)
  have "d \<noteq> ?p" using p(1) by force
  then have rel: "path_rel d ?p = Some c"
    using p by (simp add: path_rel_def strip_common_append)
  have "cut_prefix ''../'' c = None"
    using assms(2) by (auto simp: plain_comp_def cut_prefix_def) (metis in_set_takeD list.set_intros)
  moreover have "c \<noteq> ''..''" using assms(2) by auto
  ultimately show ?thesis by (simp add: is_within_dir_def p(3,5) rel)
qed

section \<open>Off-loaded states are hydrated\<close>

definition log_path :: "string \<Rightarrow> string \<Rightarrow> string" where
  "log_path dir i = path_join [dir, log_name i]"

definition offloaded :: "string \<Rightarrow> string \<Rightarrow> node_state \<Rightarrow> node_state" where
  "offloaded dir i s = (if ds_output s = [] then s else s\<lparr>ds_output_path := log_path dir i, ds_output := []\<rparr>)"

definition stored :: "string \<Rightarrow> string \<Rightarrow> node_state \<Rightarrow> node_state" where
  "stored dir i s = (if ds_output s = [] then s else s\<lparr>ds_output_path := log_path dir i\<rparr>)"

definition logs :: "string \<Rightarrow> node_states \<Rightarrow> (string \<times> string) list" where
  "logs dir ss = map (\<lambda>(i, s). (log_path dir i, ds_output s)) (filter (\<lambda>(_, s). ds_output s \<noteq> []) ss)"

text \<open>States that can be off-loaded: the ids with an output are names of files.\<close>

definition named :: "node_states \<Rightarrow> bool" where
  "named ss \<longleftrightarrow> list_all (\<lambda>(i, s). ds_output s \<noteq> [] \<longrightarrow> safe_name i) ss"

lemma offload_states_spec:
  assumes "fs_up st" "named ss"
  shows "offload_states dir ss st =
     (st\<lparr>fs_files := fs_files st ++ map_of (rev (logs dir ss))\<rparr>, Inr (map (\<lambda>(i, s). (i, offloaded dir i s)) ss))"
  using assms
proof (induction ss arbitrary: st)
  case Nil
  then show ?case by (simp add: logs_def)
next
  case (Cons e ss)
  obtain i s where e: "e = (i, s)" by fastforce
  have n: "named ss" using Cons.prems(2) by (simp add: named_def)
  show ?case
  proof (cases "ds_output s = []")
    case True
    then show ?thesis by (simp add: e Cons.IH [OF Cons.prems(1) n] logs_def offloaded_def)
  next
    case False
    then have "\<not> unsafe_name (path_clean i)" using Cons.prems(2) safe_name_clean(2) [of i] by (simp add: e named_def)
    moreover define st1 where "st1 = st\<lparr>fs_files := (fs_files st)(log_path dir i \<mapsto> ds_output s)\<rparr>"
    moreover have "offload_states dir ss st1 =
        (st1\<lparr>fs_files := fs_files st1 ++ map_of (rev (logs dir ss))\<rparr>, Inr (map (\<lambda>(i, s). (i, offloaded dir i s)) ss))"
      using Cons.prems(1) by (intro Cons.IH n) (simp add: st1_def)
    ultimately show ?thesis
      using False Cons.prems(1)
      by (simp add: e store_write_def logs_def offloaded_def log_path_def st1_def map_of_append)
  qed
qed

lemma logs_lookup:
  assumes "clean_dir dir" "named ss" "alist_wf ss" "(i, s) \<in> set ss" "ds_output s \<noteq> []"
  shows "map_of (rev (logs dir ss)) (log_path dir i) = Some (ds_output s)"
proof (rule map_of_is_SomeI)
  let ?fs = "filter (\<lambda>(_, s). ds_output s \<noteq> []) ss"
  have keys: "map fst (logs dir ss) = map (log_path dir) (map fst ?fs)"
    by (auto simp: logs_def)
  have safe: "safe_name j" if "j \<in> set (map fst ?fs)" for j
    using that assms(2) by (auto simp: named_def list_all_iff)
  have "inj_on (log_path dir) (set (map fst ?fs))"
  proof (rule inj_onI)
    fix j k assume jk: "j \<in> set (map fst ?fs)" "k \<in> set (map fst ?fs)" "log_path dir j = log_path dir k"
    then have "log_name j = log_name k"
      using join_inj [OF assms(1)] log_name_safe [OF safe] by (metis log_path_def)
    then show "j = k" using log_name_safe [OF safe] jk(1,2) by (metis append_same_eq)
  qed
  moreover have "distinct (map fst ?fs)" using assms(3) by (simp add: alist_wf_def distinct_map_filter)
  ultimately show "distinct (map fst (rev (logs dir ss)))"
    unfolding rev_map [symmetric] distinct_rev keys by (simp only: distinct_map)
  show "(log_path dir i, ds_output s) \<in> set (rev (logs dir ss))"
    using assms(4,5) by (force simp: logs_def)
qed

lemma hydrate_states_spec:
  assumes "fs_up st" "clean_dir dir"
    and "\<And>i s. (i, s) \<in> set ss \<Longrightarrow> if ds_output s = [] then ds_output_path s = []
      else safe_name i \<and> fs_files st (log_path dir i) = Some (ds_output s)"
  shows "hydrate_states st dir (map (\<lambda>(i, s). (i, offloaded dir i s)) ss) = Inr (map (\<lambda>(i, s). (i, stored dir i s)) ss)"
  using assms(3)
proof (induction ss)
  case (Cons e ss)
  obtain i s where e: "e = (i, s)" by fastforce
  have rest: "hydrate_states st dir (map (\<lambda>(i, s). (i, offloaded dir i s)) ss) = Inr (map (\<lambda>(i, s). (i, stored dir i s)) ss)"
    by (rule Cons.IH) (rule Cons.prems, simp)
  show ?case
  proof (cases "ds_output s = []")
    case True
    with Cons.prems [of i s] rest show ?thesis by (simp add: e offloaded_def stored_def)
  next
    case False
    with Cons.prems [of i s] have s: "safe_name i" "fs_files st (log_path dir i) = Some (ds_output s)" by (simp_all add: e)
    have "plain_comp (log_name i)" using log_name_safe [OF s(1)] by blast
    then have "is_within_dir dir (log_path dir i)" "log_path dir i \<noteq> []"
      using within_join [OF assms(2)] assms(2) path_join_nonempty by (simp_all add: log_path_def clean_dir_def)
    with False s assms(1) rest show ?thesis
      by (simp add: e offloaded_def stored_def store_read_def)
  qed
qed simp

section \<open>Saving and reading a run\<close>

text \<open>Texts of one-byte characters; a cleaned path has only characters of the path, slashes and dots.\<close>

definition ascii :: "string \<Rightarrow> bool" where
  "ascii s \<longleftrightarrow> (\<forall>c \<in> set s. (of_char c :: nat) < 0x80)"

lemma ascii_utf8: "ascii s \<Longrightarrow> is_utf8 s"
  by (rule is_utf8_ascii) (simp add: ascii_def list_all_iff)

lemma ascii_append [simp]: "ascii (s @ t) \<longleftrightarrow> ascii s \<and> ascii t"
  by (auto simp: ascii_def)

lemma set_join_with: "set (join_with c ps) \<subseteq> insert c (\<Union> (set ` set ps))"
  by (induction c ps rule: join_with.induct) auto

lemma set_split_on: "p \<in> set (split_on c s) \<Longrightarrow> set p \<subseteq> set s"
proof (induction s arbitrary: p)
  case (Cons x s)
  then show ?case by (cases "split_on c s") (fastforce split: if_splits)+
qed simp

lemma set_comp: "c \<in> set (path_comps p) \<Longrightarrow> set c \<subseteq> insert (CHR ''.'') (set p)"
proof -
  let ?ok = "\<lambda>cs. \<forall>c \<in> set cs. set c \<subseteq> insert (CHR ''.'') (set p)"
  have f: "?ok cs \<Longrightarrow> ?ok st \<Longrightarrow> ?ok (foldl (clean_step r) st cs)" for r st cs
  proof (induction cs arbitrary: st)
    case (Cons c cs)
    from Cons.prems have "?ok (clean_step r st c)" by (cases st) (simp_all add: clean_step_def)
    with Cons show ?case by simp
  qed simp
  have s: "?ok (split_on slash p)" by (intro ballI subset_insertI2) (rule set_split_on)
  have "?ok (foldl (clean_step (path_is_abs p)) [] (split_on slash p))" by (rule f [OF s]) (simp only: list.set ball_simps)
  then show "c \<in> set (path_comps p) \<Longrightarrow> set c \<subseteq> insert (CHR ''.'') (set p)"
    unfolding path_comps_def set_rev by (rule bspec)
qed

lemma set_path_clean: "set (path_clean p) \<subseteq> {slash, CHR ''.''} \<union> set p"
proof -
  have "\<Union> (set ` set (path_comps p)) \<subseteq> insert (CHR ''.'') (set p)" using set_comp by blast
  with set_join_with [of slash "path_comps p"]
  have "set (join_with slash (path_comps p)) \<subseteq> {slash, CHR ''.''} \<union> set p" by blast
  then show ?thesis by (simp add: path_clean_def path_print_def)
qed

lemma ascii_path_join: "(\<And>p. p \<in> set ps \<Longrightarrow> ascii p) \<Longrightarrow> ascii (path_join ps)"
proof -
  assume a: "\<And>p. p \<in> set ps \<Longrightarrow> ascii p"
  let ?ne = "filter (\<lambda>e. e \<noteq> '''') ps"
  have "set (path_join ps) \<subseteq> {slash, CHR ''.''} \<union> \<Union> (set ` set ?ne)"
  proof (cases "?ne = []")
    case False
    have "set (path_join ps) = set (path_clean (join_with slash ?ne))" using False by (simp only: path_join_def Let_def if_False)
    with set_path_clean [of "join_with slash ?ne"] set_join_with [of slash ?ne] show ?thesis by blast
  qed (simp add: path_join_def)
  then have "set (path_join ps) \<subseteq> {slash, CHR ''.''} \<union> \<Union> (set ` set ps)" by auto
  moreover have "(of_char c :: nat) < 0x80" if "c \<in> {slash, CHR ''.''} \<union> \<Union> (set ` set ps)" for c
    using that a by (auto simp: ascii_def)
  ultimately show ?thesis unfolding ascii_def by blast
qed

text \<open>
  A snapshot the store can keep: its names are names of files, its maps have each key once, the
  texts that go to JSON are UTF-8, and the states are as the engine makes them.
\<close>

definition storable_state :: "string \<Rightarrow> persisted_state \<Rightarrow> bool" where
  "storable_state i s \<longleftrightarrow> is_utf8 i \<and> list_all is_utf8 [ps_status s, ps_output s, ps_skip s, ps_error s, ps_cli s, ps_model s]
     \<and> ps_output_path s = [] \<and> (ps_output s \<noteq> [] \<longrightarrow> safe_name i \<and> ascii i)"

definition storable :: "run_snapshot \<Rightarrow> bool" where
  "storable sn \<longleftrightarrow> safe_name (sn_run sn) \<and> ascii (sn_run sn) \<and> sn_dag sn \<noteq> []
     \<and> alist_wf (sn_states sn) \<and> (\<forall>(i, s) \<in> set (sn_states sn). storable_state i s)
     \<and> (\<forall>m \<in> set_option (sn_loops sn) \<union> set_option (sn_counts sn). alist_wf m \<and> (\<forall>(i, _) \<in> set m. is_utf8 i))
     \<and> (\<forall>m \<in> set_option (sn_suspended sn). alist_wf m \<and> (\<forall>(i, info) \<in> set m. is_utf8 i \<and> is_utf8 (si_message info)))"

definition reachable_store :: "file_store \<Rightarrow> bool" where
  "reachable_store st \<longleftrightarrow> fs_up st \<and> clean_dir (fs_root st) \<and> ascii (fs_root st)"

text \<open>What a nil map becomes.\<close>

definition non_nil :: "(string \<times> 'a) list option \<Rightarrow> (string \<times> 'a) list option" where
  "non_nil m = Some (case m of None \<Rightarrow> [] | Some kvs \<Rightarrow> kvs)"

lemma counters_roundtrip:
  "(\<And>m. c = Some m \<Longrightarrow> alist_wf m \<and> (\<forall>(i, _) \<in> set m. is_utf8 i)) \<Longrightarrow> decode_int_map (encode_int_map c) = tallies_of (non_nil c)"
  by (cases c) (auto simp: decode_int_map_def encode_int_map_def non_nil_def tallies_of_def intro!: decode_encode)

lemma suspended_roundtrip:
  assumes "\<And>m. c = Some m \<Longrightarrow> alist_wf m \<and> (\<forall>(i, info) \<in> set m. is_utf8 i \<and> is_utf8 (si_message info))"
  shows "Some (decode_suspended (encode_suspended c)) = non_nil c"
  using assms
  by (cases c) (auto simp: decode_suspended_def encode_suspended_def non_nil_def json_info_def is_utf8_def intro!: decode_encode)

lemma path_join3:
  assumes "clean_dir d" "plain_comp a" "plain_comp b"
  shows "path_join [d, a, b] = path_join [path_join [d, a], b]"
proof -
  have ab: "a \<noteq> []" "b \<noteq> []" "d \<noteq> []" using assms by (auto simp: plain_comp_def clean_dir_def)
  have j: "clean_dir (path_join [d, a])" by (rule clean_dir_join [OF assms(1,2)])
  have "path_comps (d @ slash # (a @ slash # b)) = path_comps ((d @ slash # a) @ slash # b)" by simp
  also have "\<dots> = path_comps d @ [a] @ [b]"
    using path_comps_snoc [of "d @ slash # a" b] path_comps_snoc [of d a] ab assms by simp
  also have "\<dots> = path_comps (path_join [d, a] @ slash # b)"
    using j ab assms by (simp add: path_comps_snoc clean_dir_def path_join_snoc)
  finally have c: "path_comps (d @ slash # (a @ slash # b)) = path_comps (path_join [d, a] @ slash # b)" .
  have "path_is_abs (d @ slash # (a @ slash # b)) = path_is_abs (path_join [d, a] @ slash # b)"
    using j ab assms(1) by (simp add: path_is_abs_append clean_dir_def)
  with c have "path_clean (d @ slash # (a @ slash # b)) = path_clean (path_join [d, a] @ slash # b)"
    by (simp only: path_clean_eq_iff)
  then show ?thesis using ab j by (simp add: path_join_def [of "[d, a, b]"] path_join_def [of "[path_join [d, a], b]"] clean_dir_def)
qed

lemma plain_names [simp]:
  "plain_comp ''workflows''" "plain_comp ''nodes''" "plain_comp ''dag_spec.yaml''" "plain_comp ''input.txt''"
  by (simp_all add: plain_comp_def)

lemma run_files_clean:
  assumes "clean_dir (fs_root st)" "safe_name run"
  shows "clean_dir (run_files st run)"
  using assms by (simp add: run_files_def safe_name_clean path_join3 clean_dir_join)

lemma log_not_file:
  assumes "clean_dir d" "plain_comp c" "named ss"
  shows "path_join [d, c] \<notin> fst ` set (logs (path_join [d, ''nodes'']) ss)"
proof
  assume "path_join [d, c] \<in> fst ` set (logs (path_join [d, ''nodes'']) ss)"
  then obtain i s where "(i, s) \<in> set ss" "ds_output s \<noteq> []" and p: "path_join [d, c] = log_path (path_join [d, ''nodes'']) i"
    by (auto simp: logs_def)
  then have "plain_comp (log_name i)" using assms(3) log_name_safe by (auto simp: named_def list_all_iff)
  from join_deeper [OF assms(1) plain_names(2) this assms(2)] p show False by (metis log_path_def)
qed

text \<open>What the files of a run are called, and what they hold once it is saved.\<close>

definition dag_file :: "file_store \<Rightarrow> string \<Rightarrow> string" where
  "dag_file st run = path_join [run_files st run, ''dag_spec.yaml'']"

definition input_file :: "file_store \<Rightarrow> string \<Rightarrow> string \<Rightarrow> string" where
  "input_file st run input = (if input = [] then [] else path_join [run_files st run, ''input.txt''])"

definition node_logs :: "file_store \<Rightarrow> string \<Rightarrow> string" where
  "node_logs st run = path_join [run_files st run, ''nodes'']"

lemma write_offloaded_spec:
  assumes st: "fs_up st" "clean_dir (fs_root st)" "safe_name run" "dag \<noteq> []" and ss: "named ss" "alist_wf ss"
  obtains st3 where
    "write_offloaded st run dag input ss
       = (st3, Inr (dag_file st run, input_file st run input, map (\<lambda>(i, s). (i, offloaded (node_logs st run) i s)) ss))"
    "fs_up st3" "fs_root st3 = fs_root st" "fs_files st3 (dag_file st run) = Some dag"
    "input \<noteq> [] \<Longrightarrow> fs_files st3 (input_file st run input) = Some input"
    "\<And>i s. (i, s) \<in> set ss \<Longrightarrow> ds_output s \<noteq> [] \<Longrightarrow> fs_files st3 (log_path (node_logs st run) i) = Some (ds_output s)"
proof -
  let ?d = "run_files st run" and ?n = "node_logs st run" and ?dag = "dag_file st run" and ?in = "path_join [run_files st run, ''input.txt'']"
  have d: "clean_dir ?d" "clean_dir ?n" using run_files_clean [OF st(2,3)] by (simp_all add: node_logs_def clean_dir_join)
  define st2 where "st2 = st\<lparr>fs_files := (if input = [] then (fs_files st)(?dag \<mapsto> dag) else (fs_files st)(?dag \<mapsto> dag, ?in \<mapsto> input))\<rparr>"
  define st3 where "st3 = st2\<lparr>fs_files := fs_files st2 ++ map_of (rev (logs ?n ss))\<rparr>"
  have "offload_states ?n ss st2 = (st3, Inr (map (\<lambda>(i, s). (i, offloaded ?n i s)) ss))"
    unfolding st3_def by (rule offload_states_spec [OF _ ss(1)]) (simp add: st2_def st(1))
  then have w: "write_offloaded st run dag input ss = (st3, Inr (?dag, input_file st run input, map (\<lambda>(i, s). (i, offloaded ?n i s)) ss))"
    using st safe_name_clean(2) [OF st(3)]
    by (cases "input = []")
      (simp_all add: write_offloaded_def offload_text_def store_write_def Let_def st2_def dag_file_def input_file_def node_logs_def)
  have none: "map_of (rev (logs ?n ss)) (path_join [?d, c]) = None" if "plain_comp c" for c
    using log_not_file [OF d(1) that ss(1)] by (simp add: map_of_eq_None_iff node_logs_def)
  have "?dag \<noteq> ?in" using join_inj [OF d(1), of "''dag_spec.yaml''" "''input.txt''"] by (auto simp: dag_file_def)
  with none have f: "fs_files st3 ?dag = Some dag" "input \<noteq> [] \<Longrightarrow> fs_files st3 ?in = Some input"
    by (auto simp: st3_def st2_def dag_file_def map_add_def)
  have l: "fs_files st3 (log_path ?n i) = Some (ds_output s)" if "(i, s) \<in> set ss" "ds_output s \<noteq> []" for i s
    using logs_lookup [OF d(2) ss that] by (simp add: st3_def)
  have u: "fs_up st3" "fs_root st3 = fs_root st" by (simp_all add: st3_def st2_def st(1))
  show ?thesis by (rule that [OF w u f(1) _ l]) (simp_all add: input_file_def f(2))
qed

lemma hydrate_run_spec:
  assumes st: "fs_up st3" "clean_dir (run_files st run)" "fs_files st3 (dag_file st run) = Some dag"
    "input \<noteq> [] \<Longrightarrow> fs_files st3 (input_file st run input) = Some input"
    and r: "rr_dag_path r = dag_file st run" "rr_input_path r = input_file st run input" "rr_input r = []"
      "decode_node_states (rr_states r) = map (\<lambda>(i, s). (i, offloaded (node_logs st run) i s)) ss" "rr_states r \<noteq> Blank"
    and ss: "\<And>i s. (i, s) \<in> set ss \<Longrightarrow> if ds_output s = [] then ds_output_path s = []
      else safe_name i \<and> fs_files st3 (log_path (node_logs st run) i) = Some (ds_output s)"
    and again: "decode_node_states (encode_node_states (Some (map (\<lambda>(i, s). (i, stored (node_logs st run) i s)) ss)))
      = map (\<lambda>(i, s). (i, stored (node_logs st run) i s)) ss"
  obtains c where "hydrate_run st3 r True = Inr (r\<lparr>rr_dag := dag, rr_input := input, rr_states := c\<rparr>)"
    "decode_node_states c = map (\<lambda>(i, s). (i, stored (node_logs st run) i s)) ss"
proof -
  let ?n = "node_logs st run"
  have n: "path_join [path_dir (dag_file st run), ''nodes''] = ?n" "clean_dir ?n" "dag_file st run \<noteq> []"
    using st(2) path_dir_join [OF st(2), of "''dag_spec.yaml''"] clean_dir_join path_join_nonempty
    by (simp_all add: dag_file_def node_logs_def clean_dir_def)
  have h: "hydrate_states st3 ?n (map (\<lambda>(i, s). (i, offloaded ?n i s)) ss) = Inr (map (\<lambda>(i, s). (i, stored ?n i s)) ss)"
    by (rule hydrate_states_spec [OF st(1) n(2) ss])
  define c where "c = (if list_all (\<lambda>(_, s). ds_output_path s = []) (decode_node_states (rr_states r)) then rr_states r
     else encode_node_states (Some (map (\<lambda>(i, s). (i, stored ?n i s)) ss)))"
  have col: "hydrate_column st3 (rr_dag_path r) (rr_states r) = Inr c"
    by (simp only: hydrate_column_def r(1,5) n(1,3) if_False Let_def r(4) h sum.case c_def)
  have "decode_node_states c = map (\<lambda>(i, s). (i, stored ?n i s)) ss"
  proof (cases "list_all (\<lambda>(_, s). ds_output_path s = []) (decode_node_states (rr_states r))")
    case True
    have "offloaded ?n i s = stored ?n i s" if "(i, s) \<in> set ss" for i s
    proof (cases "ds_output s = []")
      case False
      with True that have "log_path ?n i = []" by (force simp: r(4) list_all_iff offloaded_def)
      moreover have "log_path ?n i \<noteq> []" using path_join_nonempty n(2) by (simp add: log_path_def clean_dir_def)
      ultimately show ?thesis by simp
    qed (simp add: offloaded_def stored_def)
    then show ?thesis using True by (auto simp: c_def r(4))
  qed (simp add: c_def again)
  moreover have "input \<noteq> [] \<Longrightarrow> input_file st run input \<noteq> []"
    using st(2) path_join_nonempty by (simp add: input_file_def clean_dir_def)
  then have "hydrate_text st3 (rr_input_path r) (rr_input r) = Inr input"
    using st(1,4) r(2,3) by (cases "input = []") (simp_all add: hydrate_text_def store_read_def input_file_def)
  moreover have "hydrate_text st3 (rr_dag_path r) (rr_dag r) = Inr dag"
    using st(1,3) n(3) r(1) by (simp add: hydrate_text_def store_read_def)
  ultimately have "hydrate_run st3 r True = Inr (r\<lparr>rr_dag := dag, rr_input := input, rr_states := c\<rparr>)"
      "decode_node_states c = map (\<lambda>(i, s). (i, stored ?n i s)) ss"
    by (simp_all add: hydrate_run_def col)
  then show ?thesis by (rule that)
qed

lemma node_states_roundtrip:
  assumes "alist_wf ss" "\<And>i s. (i, s) \<in> set ss \<Longrightarrow> is_utf8 i \<and> json_state s = s"
  shows "decode_node_states (encode_node_states (Some ss)) = ss"
  unfolding decode_node_states_def encode_node_states_def
  by (rule decode_encode [OF assms(1)]) (use assms(2) in blast)

lemma alist_wf_values: "alist_wf (map (\<lambda>(i, s). (i, f i s)) ss) = alist_wf ss"
proof -
  have "map fst (map (\<lambda>(i, s). (i, f i s)) ss) = map fst ss" by auto
  then show ?thesis by (simp only: alist_wf_def)
qed

lemma json_state_path:
  assumes "json_state s = s" "is_utf8 q"
  shows "json_state (s\<lparr>ds_output_path := q\<rparr>) = s\<lparr>ds_output_path := q\<rparr>"
    "json_state (s\<lparr>ds_output_path := q, ds_output := []\<rparr>) = s\<lparr>ds_output_path := q, ds_output := []\<rparr>"
  using assms by (cases s, simp add: json_state_def is_utf8_def)+

lemma json_state_id:
  assumes "storable_state i s"
  shows "json_state (to_db_state s) = to_db_state s"
  using assms by (simp add: storable_state_def json_state_def to_db_state_def is_utf8_def)

text \<open>The states of a snapshot, as the repository sees them.\<close>

lemma storable_states:
  assumes "storable sn" "(i, s) \<in> set (to_db_states (sn_states sn))"
  shows "is_utf8 i" "json_state s = s" "ds_output_path s = []" "ds_output s \<noteq> [] \<Longrightarrow> safe_name i \<and> ascii i"
proof -
  obtain q where q: "(i, q) \<in> set (sn_states sn)" "s = to_db_state q"
    using assms(2) by (auto simp: to_db_states_def)
  then have "storable_state i q" using assms(1) by (auto simp: storable_def)
  then show "is_utf8 i" "json_state s = s" "ds_output_path s = []" "ds_output s \<noteq> [] \<Longrightarrow> safe_name i \<and> ascii i"
    using json_state_id q(2) by (simp_all add: storable_state_def) (simp_all add: to_db_state_def)
qed

lemma logs_ascii:
  assumes "storable sn" "reachable_store st" "safe_name i" "ascii i"
  shows "is_utf8 (log_path (node_logs st (sn_run sn)) i)"
proof -
  have a: "ascii c" if "c \<in> {''workflows'', ''nodes'', ''.log''}" for c
    using that by (auto simp: ascii_def)
  have r: "ascii (fs_root st)" "ascii (sn_run sn)" "path_clean (sn_run sn) = sn_run sn"
    using assms by (simp_all add: storable_def reachable_store_def safe_name_clean)
  have "ascii (run_files st (sn_run sn))"
    unfolding run_files_def r(3) using r a by (intro ascii_path_join) auto
  then have "ascii (node_logs st (sn_run sn))"
    unfolding node_logs_def using a by (intro ascii_path_join) auto
  moreover have "ascii (log_name i)" using log_name_safe [OF assms(3)] assms(4) a by simp
  ultimately have "ascii (log_path (node_logs st (sn_run sn)) i)"
    unfolding log_path_def by (intro ascii_path_join) auto
  then show ?thesis by (rule ascii_utf8)
qed

lemma from_db_stored:
  "from_persisted_state (from_db_state (stored dir i (to_db_state s))) = (from_persisted_state s)\<lparr>nr_loops := None\<rparr>"
  by (simp add: from_persisted_state_def from_db_state_def to_db_state_def stored_def copy_int_map_def)


end
