(* ===== verification/WfRestore.thy ===== *)
theory WfRestore
  imports WfFaults WfStoreProps
begin

text \<open>
  Runs that are driven on from their store, evaluated through the whole chain: the engine, the
  snapshot, the files and rows of the repository, the context built from them and the engine again.
  Three of them do not do what the code promises.
\<close>

section \<open>A repository and its runs\<close>

definition home :: file_store where
  "home = \<lparr>fs_root = ''/session'', fs_files = (\<lambda>_. None), fs_up = True\<rparr>"

definition new_repo :: repo where
  "new_repo = \<lparr>rp_rows = [], rp_stores = (\<lambda>_. Some home)\<rparr>"

definition ex_run :: run_snapshot where
  "ex_run = \<lparr>sn_run = ''r1'', sn_session = ''s1'', sn_status = ''RUNNING'', sn_dag = ''dag'', sn_dir = ''/w'',
     sn_input = [], sn_states = [], sn_loops = None, sn_counts = None, sn_node = [], sn_message = [],
     sn_suspended = None, sn_parent = [], sn_cross = False\<rparr>"

definition started :: repo where "started = fst (store_start_run 1 ex_run new_repo)"

text \<open>The repository after \<open>node\<close> has suspended the run, alone, and after it was answered.\<close>

definition suspended_at :: "string \<Rightarrow> eng \<Rightarrow> repo \<Rightarrow> repo" where
  "suspended_at node s p =
     (let msg = human_message_id ''r1'' node 1
      in fst (mark_waiting_human 2 (suspension_snapshot ex_run node msg [(node, \<lparr>si_message = msg, si_iteration = 1\<rparr>)]
           (capture_states s)) p))"

text \<open>The run as it is read once it has settled, and as it is read while it waits.\<close>

definition load :: "repo \<Rightarrow> run_snapshot option" where
  "load p = (case get_run ''r1'' p of Inr sn \<Rightarrow> sn | Inl _ \<Rightarrow> None)"

definition settled_as :: "run_status \<Rightarrow> results \<Rightarrow> repo \<Rightarrow> repo" where
  "settled_as st m p =
     fst (settle_run 9 ''r1'' (persist_status st) (to_persisted_states (map (\<lambda>(i, r). (i, Some r)) m)) p)"

definition failed :: node_result where
  "failed = ok\<lparr>nr_status := StFailed, nr_error := Some ''boom''\<rparr>"

lemma failed_simps [ex_simps]:
  "nr_status failed = StFailed" "nr_exit failed = 0" "nr_reason failed = NoReason" "nr_error failed = Some ''boom''"
  "nr_output failed = []"
  by (simp_all add: failed_def ok_def zero_result_def)

lemmas settle_simps = run_settle_def sweep_orphans_def run_outcome_def settle_global_status_def node_spoils_def
  abort_target_def failure_handled_def fallback_targets_def

section \<open>A failed root\<close>

definition ex_roots :: wf_def where
  "ex_roots = blank_def ''roots'' [] [command ''a'' [], command ''b'' []]"

lemma ex_roots_valid: "validate no_pd no_cron as_given ex_roots = None"
  by code_simp

lemma ex_roots_simps [ex_simps]:
  "wd_nodes ex_roots = [command ''a'' [], command ''b'' []]" "wd_loops ex_roots = []" "max_executions ex_roots = 100"
  by (simp_all add: ex_roots_def ex_simps)

definition roots_results :: results where
  "roots_results = [(''a'', ok\<lparr>nr_loops := None\<rparr>), (''b'', failed\<lparr>nr_loops := None\<rparr>)]"

definition roots_left :: run_snapshot where
  "roots_left = the (load (settled_as RunFailed roots_results started))"

lemma roots_left_context:
  "load (settled_as RunFailed roots_results started) = Some roots_left"
  "rc_seeds (redrive_context roots_left) = [(''a'', ok)]" "rc_activate (redrive_context roots_left) = []"
  "rc_seed_loops (redrive_context roots_left) = Some []" "rc_seed_counts (redrive_context roots_left) = Some []"
  by code_simp+

text \<open>
  A failed run is to be driven again from its failed node, but a root that failed is forgotten
  as soon as another node succeeded: in a run of \<open>ex_roots\<close> in which \<open>a\<close> succeeded and \<open>b\<close> failed,
  what the store hands back seeds \<open>a\<close> alone; the engine starts with nothing to do, never runs \<open>b\<close>,
  and settles as failed again, however often that is repeated.
\<close>

lemma redrive_forgets_failed_root:
  "validate no_pd no_cron as_given ex_roots = None
   \<and> (\<exists>s sn s'. wf_reach ex_roots (engine_start ex_roots) s \<and> idle s \<and> has_status s ''b'' StFailed
        \<and> (\<forall>lower. fst (fst (run_settle lower ex_roots False s)) = RunFailed)
        \<and> load (settled_as RunFailed (en_results s) started) = Some sn
        \<and> start_from ex_roots 3 (map fst (rc_seeds (redrive_context sn))) (redrive_context sn) = Some s'
        \<and> idle s' \<and> has_status s' ''a'' StSucceeded \<and> \<not> settled s' ''b''
        \<and> (\<forall>lower. fst (fst (run_settle lower ex_roots False s')) = RunFailed))"
proof -
  have "\<exists>s. play ex_roots [(''a'', ok), (''b'', failed)] (engine_start ex_roots) = Some s \<and> idle s
      \<and> has_status s ''b'' StFailed \<and> (\<forall>lower. fst (fst (run_settle lower ex_roots False s)) = RunFailed)
      \<and> en_results s = roots_results"
    by (simp add: run_simps ex_simps roots_results_def settle_simps)
  then obtain s where s: "play ex_roots [(''a'', ok), (''b'', failed)] (engine_start ex_roots) = Some s" "idle s"
    "has_status s ''b'' StFailed" "\<forall>lower. fst (fst (run_settle lower ex_roots False s)) = RunFailed"
    "en_results s = roots_results" by blast
  have "\<exists>s'. start_from ex_roots 3 [''a''] (redrive_context roots_left) = Some s' \<and> idle s'
      \<and> has_status s' ''a'' StSucceeded \<and> \<not> settled s' ''b''
      \<and> (\<forall>lower. fst (fst (run_settle lower ex_roots False s')) = RunFailed)"
    by (simp add: start_from_def roots_left_context run_simps ex_simps tallies_of_def settle_simps)
  then obtain s' where s': "start_from ex_roots 3 (map fst (rc_seeds (redrive_context roots_left))) (redrive_context roots_left) = Some s'"
    "idle s'" "has_status s' ''a'' StSucceeded" "\<not> settled s' ''b''"
    "\<forall>lower. fst (fst (run_settle lower ex_roots False s')) = RunFailed"
    by (auto simp: roots_left_context(2))
  have "load (settled_as RunFailed (en_results s) started) = Some roots_left"
    unfolding s(5) by (rule roots_left_context(1))
  with ex_roots_valid play_reach [OF s(1)] s(2-4) s' show ?thesis by blast
qed

section \<open>An answered question\<close>

definition ask :: "string \<Rightarrow> node_dep list \<Rightarrow> node_spec" where
  "ask i es = (blank_node i NtHuman)\<lparr>ns_prompt := ''?'', ns_depends := es\<rparr>"

lemma ask_simps [ex_simps]:
  "ns_id (ask i es) = i" "ns_depends (ask i es) = es" "ns_join (ask i es) = []"
  "ns_on_skip (ask i es) = []" "ns_on_fail (ask i es) = []"
  by (simp_all add: ask_def blank_node_def)

definition ex_gate :: wf_def where
  "ex_gate = blank_def ''gate'' [] [command ''a'' [], ask ''h'' [after ''a''], command ''w'' [after ''h'']]"

lemma ex_gate_valid: "validate no_pd no_cron as_given ex_gate = None"
  by code_simp

lemma ex_gate_simps [ex_simps]:
  "wd_nodes ex_gate = [command ''a'' [], ask ''h'' [after ''a''], command ''w'' [after ''h'']]"
  "wd_loops ex_gate = []" "max_executions ex_gate = 100"
  by (simp_all add: ex_gate_def ex_simps)

definition yes :: node_result where "yes = ok\<lparr>nr_output := ''yes''\<rparr>"

lemma yes_simps [ex_simps]:
  "nr_status yes = StSucceeded" "nr_exit yes = 0" "nr_reason yes = NoReason" "nr_error yes = None" "nr_output yes = ''yes''"
  by (simp_all add: yes_def ok_def zero_result_def)

definition gate_waits :: eng where
  "gate_waits = the (play ex_gate [(''a'', ok)] (engine_start ex_gate))"

definition gate_results :: results where
  "gate_results = [(''a'', ok\<lparr>nr_loops := None\<rparr>), (''h'', yes\<lparr>nr_loops := None\<rparr>), (''w'', failed\<lparr>nr_loops := None\<rparr>)]"

definition gate_repo :: repo where
  "gate_repo = settled_as RunFailed gate_results (mark_running 3 ''r1'' (suspended_at ''h'' gate_waits started))"

definition gate_left :: run_snapshot where "gate_left = the (load gate_repo)"

lemma gate_left_context:
  "load gate_repo = Some gate_left"
  "map_of (from_persisted_states (sn_states gate_left)) ''h'' = Some yes"
  "rc_seeds (redrive_context gate_left) = [(''a'', ok)]" "rc_activate (redrive_context gate_left) = [''h'']"
  "rc_replies (redrive_context gate_left) = []"
  by code_simp+

lemma gate_redriven:
  "map_option (\<lambda>s. (en_queue s, settled s ''h'')) (start_from ex_gate 3 [''a''] (redrive_context gate_left)) = Some ([''h''], False)"
  by code_simp


section \<open>Conditions on the iterations of a loop\<close>

definition first_round :: string where "first_round = ''nodes.w.loop_iteration.L == 0''"

definition ex_rounds :: wf_def where
  "ex_rounds = blank_def ''rounds''
     [\<lparr>lo_id = ''L'', lo_nodes = [''w''], lo_parent = [], lo_max = 1, lo_exhausted = ''z''\<rparr>]
     [command ''a'' [], w_node, command ''z'' [], ask ''h'' [after ''w''], command ''d'' [edge_if ''h'' first_round []]]"

lemma ex_rounds_valid: "validate no_pd no_cron as_given ex_rounds = None"
  by code_simp

lemma ex_rounds_simps [ex_simps]:
  "wd_nodes ex_rounds = [command ''a'' [], w_node, command ''z'' [], ask ''h'' [after ''w''], command ''d'' [edge_if ''h'' first_round []]]"
  "wd_loops ex_rounds = [\<lparr>lo_id = ''L'', lo_nodes = [''w''], lo_parent = [], lo_max = 1, lo_exhausted = ''z''\<rparr>]" "max_executions ex_rounds = 100"
  by (simp_all add: ex_rounds_def ex_simps)

lemma first_round_form:
  "expr_match first_round = Some (''nodes.w.loop_iteration.L'', ''=='', ''0'')"
  "node_path ''nodes.w.loop_iteration.L'' = Some (''w'', ''loop_iteration.L'')" "parse_literal ''0'' = Inr ''0''"
  "cut_prefix ''loop_iteration.'' ''loop_iteration.L'' = Some ''L''"
  by code_simp+

lemma first_round_holds [ex_simps]:
  "first_round \<noteq> []" "\<not> is_status_query first_round"
  "condition_holds first_round m = (case map_of m ''w'' of None \<Rightarrow> False
     | Some r \<Rightarrow> (case nr_loops r of None \<Rightarrow> False | Some ls \<Rightarrow>
         (case map_of ls ''L'' of None \<Rightarrow> False
          | Some n \<Rightarrow> (case compare_values ''=='' (itoa n) ''0'' of Inr b \<Rightarrow> b | Inl _ \<Rightarrow> False))))"
  using first_round_form
  by (auto simp: first_round_def condition_holds_def evaluate_expr_def resolve_node_value_def is_status_query_def loop_field_def
      parse_expr_target_def split: option.splits sum.splits)

definition rounds_waits :: eng where
  "rounds_waits = the (play ex_rounds [(''a'', ok), (''w'', ok)] (engine_start ex_rounds))"

definition rounds_left :: run_snapshot where
  "rounds_left = the (load (suspended_at ''h'' rounds_waits started))"

lemma rounds_left_context:
  "load (suspended_at ''h'' rounds_waits started) = Some rounds_left"
  "map fst (rc_seeds (build_resume_context rounds_left ''yes'')) = [''a'', ''w'']"
  "rc_activate (build_resume_context rounds_left ''yes'') = [''h'']"
  "rc_replies (build_resume_context rounds_left ''yes'') = [(''h'', ''yes'')]"
  by code_simp+

definition rounds_restored :: "string list \<Rightarrow> eng option" where
  "rounds_restored order = start_from ex_rounds 3 order (build_resume_context rounds_left ''yes'')"

lemma rounds_replayed:
  "list_all (\<lambda>order. \<exists>s s'. rounds_restored order = Some s \<and> en_queue s = [''h'']
      \<and> play ex_rounds [(''h'', yes)] s = Some s' \<and> idle s' \<and> has_status s' ''d'' StSkipped)
    [[''a'', ''w''], [''w'', ''a'']]"
proof -
  have "map_option en_queue (rounds_restored order) = Some [''h'']
      \<and> map_option (\<lambda>s. (idle s, has_status s ''d'' StSkipped)) (case rounds_restored order of None \<Rightarrow> None | Some s \<Rightarrow> play ex_rounds [(''h'', yes)] s)
        = Some (True, True)" if "order \<in> {[''a'', ''w''], [''w'', ''a'']}" for order
  proof -
    have "map_option en_queue (rounds_restored [''a'', ''w'']) = Some [''h'']"
      "map_option en_queue (rounds_restored [''w'', ''a'']) = Some [''h'']"
      "map_option (\<lambda>s. (idle s, has_status s ''d'' StSkipped)) (case rounds_restored [''a'', ''w''] of None \<Rightarrow> None | Some s \<Rightarrow> play ex_rounds [(''h'', yes)] s)
        = Some (True, True)"
      "map_option (\<lambda>s. (idle s, has_status s ''d'' StSkipped)) (case rounds_restored [''w'', ''a''] of None \<Rightarrow> None | Some s \<Rightarrow> play ex_rounds [(''h'', yes)] s)
        = Some (True, True)"
      by code_simp+
    then show ?thesis using that by blast
  qed
  then have "\<exists>s s'. rounds_restored order = Some s \<and> en_queue s = [''h''] \<and> play ex_rounds [(''h'', yes)] s = Some s'
      \<and> idle s' \<and> has_status s' ''d'' StSkipped" if "order \<in> {[''a'', ''w''], [''w'', ''a'']}" for order
    using that by (fastforce split: option.splits)
  then show ?thesis by simp
qed

text \<open>
  A restored run can take another branch: in a run of \<open>ex_rounds\<close> that waits for the human, the
  answer \<open>yes\<close> makes the engine run \<open>d\<close>, whose condition asks in which iteration of the loop \<open>w\<close> ran;
  when the run is read back from its store and driven on with the same answer, in whichever order
  the seeds are replayed, \<open>d\<close> is skipped, because the rows have no field for the iterations.
\<close>

lemma restored_run_skips:
  "validate no_pd no_cron as_given ex_rounds = None
   \<and> wf_reach ex_rounds (engine_start ex_rounds) rounds_waits \<and> map_of (en_running rounds_waits) ''h'' = Some (Launched 1)
   \<and> (\<exists>s. run_node ex_rounds ''h'' yes rounds_waits = Some s \<and> en_queue s = [''d''])
   \<and> (\<exists>sn. load (suspended_at ''h'' rounds_waits started) = Some sn
        \<and> list_all (\<lambda>order. \<exists>s s'. start_from ex_rounds 3 order (build_resume_context sn ''yes'') = Some s \<and> en_queue s = [''h'']
              \<and> wf_reach ex_rounds s s' \<and> idle s' \<and> has_status s' ''d'' StSkipped) [[''a'', ''w''], [''w'', ''a'']])"
proof -
  have "\<exists>t. play ex_rounds [(''a'', ok), (''w'', ok)] (engine_start ex_rounds) = Some t \<and> map_of (en_running t) ''h'' = Some (Launched 1)
      \<and> (\<exists>s. run_node ex_rounds ''h'' yes t = Some s \<and> en_queue s = [''d''])"
    by (simp add: run_simps ex_simps)
  then obtain t where t: "play ex_rounds [(''a'', ok), (''w'', ok)] (engine_start ex_rounds) = Some t"
    "map_of (en_running t) ''h'' = Some (Launched 1)" "\<exists>s. run_node ex_rounds ''h'' yes t = Some s \<and> en_queue s = [''d'']" by blast
  have w: "rounds_waits = t" unfolding rounds_waits_def t(1) by (rule option.sel)
  have "list_all (\<lambda>order. \<exists>s s'. start_from ex_rounds 3 order (build_resume_context rounds_left ''yes'') = Some s \<and> en_queue s = [''h'']
      \<and> wf_reach ex_rounds s s' \<and> idle s' \<and> has_status s' ''d'' StSkipped) [[''a'', ''w''], [''w'', ''a'']]"
    using rounds_replayed play_reach unfolding rounds_restored_def list_all_iff by blast
  with ex_rounds_valid play_reach [OF t(1)] t(2,3) rounds_left_context(1) show ?thesis unfolding w by blast
qed

end
