(* ===== verification/WfRegistry.thy ===== *)
theory WfRegistry
  imports WfStore
begin

text \<open>
  The registry of live runs (\<open>Engine\<close> in \<open>backend/lib/workflow/engine.go\<close>, \<open>human.go\<close>): the nodes
  that wait for a reply, the runs that execute and the runs that are being replayed from their
  snapshot, all guarded by one mutex, the cancel functions guarded by another, and what the API does
  with a reply (\<open>backend/lib/api/workflow_persist.go\<close>). A waiter is shared by two maps, so the waiters
  are a heap and the maps hold addresses. A critical section is one function.
\<close>

section \<open>The state\<close>

text \<open>A waiter's channel has room for one reply.\<close>

record human_waiter =
  wt_reply :: "string option"
  wt_node :: string
  wt_message :: string
  wt_iteration :: int
  wt_run :: string

record registry =
  rg_heap :: "human_waiter list"
  rg_by_msg :: "(string \<times> nat) list"
  rg_by_run :: "(string \<times> (string \<times> nat) list) list"
  rg_executing :: "string set"
  rg_sessions :: "(string \<times> string list) list"
  rg_replaying :: "string set"
  rg_replay_run :: "(string \<times> string) list"
  rg_replay_session :: "(string \<times> string) list"
  rg_cancels :: "(string \<times> string list) list"

definition new_engine :: registry where
  "new_engine = \<lparr>rg_heap = [], rg_by_msg = [], rg_by_run = [], rg_executing = {}, rg_sessions = [],
     rg_replaying = {}, rg_replay_run = [], rg_replay_session = [], rg_cancels = []\<rparr>"

text \<open>A missing entry of a map of maps reads as an empty map.\<close>

definition entries :: "(string \<times> 'a list) list \<Rightarrow> string \<Rightarrow> 'a list" where
  "entries m k = (case map_of m k of None \<Rightarrow> [] | Some xs \<Rightarrow> xs)"

text \<open>An entry that becomes empty is removed.\<close>

definition put_entries :: "string \<Rightarrow> 'a list \<Rightarrow> (string \<times> 'a list) list \<Rightarrow> (string \<times> 'a list) list" where
  "put_entries k xs m = (if xs = [] then AList.delete k m else AList.update k xs m)"

section \<open>Runs and sessions\<close>

definition register_run_cancel :: "string \<Rightarrow> string \<Rightarrow> registry \<Rightarrow> registry" where
  "register_run_cancel session run r =
     r\<lparr>rg_cancels := AList.update session (List.insert run (entries (rg_cancels r) session)) (rg_cancels r)\<rparr>"

definition unregister_run_cancel :: "string \<Rightarrow> string \<Rightarrow> registry \<Rightarrow> registry" where
  "unregister_run_cancel session run r =
     (if map_of (rg_cancels r) session = None then r
      else r\<lparr>rg_cancels := put_entries session (remove1 run (entries (rg_cancels r) session)) (rg_cancels r)\<rparr>)"

definition begin_run :: "string \<Rightarrow> string \<Rightarrow> registry \<Rightarrow> registry" where
  "begin_run session run r =
     r\<lparr>rg_executing := insert run (rg_executing r),
       rg_sessions := AList.update session (List.insert run (entries (rg_sessions r) session)) (rg_sessions r)\<rparr>"

definition end_run :: "string \<Rightarrow> string \<Rightarrow> registry \<Rightarrow> registry" where
  "end_run session run r =
     r\<lparr>rg_executing := rg_executing r - {run},
       rg_sessions := (if map_of (rg_sessions r) session = None then rg_sessions r
         else put_entries session (remove1 run (entries (rg_sessions r) session)) (rg_sessions r))\<rparr>"

text \<open>A run that executes and in which no node waits.\<close>

definition is_active :: "registry \<Rightarrow> string \<Rightarrow> bool" where
  "is_active r run \<longleftrightarrow> run \<in> rg_executing r \<and> entries (rg_by_run r) run = []"

definition is_session_executing :: "string \<Rightarrow> registry \<Rightarrow> bool" where
  "is_session_executing session r = list_ex (is_active r) (entries (rg_sessions r) session)"

text \<open>The runs whose cancel function \<open>CancelSession\<close> calls; it returns their number.\<close>

definition cancel_session :: "string \<Rightarrow> registry \<Rightarrow> string list" where
  "cancel_session session r = (if session = [] then [] else filter (is_active r) (entries (rg_cancels r) session))"

section \<open>Waiters\<close>

definition reply_of :: "registry \<Rightarrow> nat \<Rightarrow> string option" where
  "reply_of r a = wt_reply (rg_heap r ! a)"

definition put_reply :: "nat \<Rightarrow> string option \<Rightarrow> registry \<Rightarrow> registry" where
  "put_reply a x r = r\<lparr>rg_heap := (rg_heap r)[a := (rg_heap r ! a)\<lparr>wt_reply := x\<rparr>]\<rparr>"

text \<open>Messages of a run that were marked as being replayed are forgotten with the mark.\<close>

definition clear_replay :: "string \<Rightarrow> registry \<Rightarrow> registry" where
  "clear_replay run r =
     (if run \<notin> rg_replaying r then r
      else let mids = map fst (filter (\<lambda>(_, x). x = run) (rg_replay_run r)) in
        r\<lparr>rg_replaying := rg_replaying r - {run},
          rg_replay_run := filter (\<lambda>(m, _). m \<notin> set mids) (rg_replay_run r),
          rg_replay_session := filter (\<lambda>(m, _). m \<notin> set mids) (rg_replay_session r)\<rparr>)"

text \<open>A node starts to wait, under the message identifier it was given or the derived one.\<close>

definition wait_message :: "string \<Rightarrow> string \<Rightarrow> int \<Rightarrow> (string \<times> string) list \<Rightarrow> string" where
  "wait_message run node k reuse =
     (case map_of reuse node of
        Some m \<Rightarrow> if m \<noteq> [] then m else human_message_id run node k
      | None \<Rightarrow> human_message_id run node k)"

definition register_waiter :: "string \<Rightarrow> string \<Rightarrow> string \<Rightarrow> int \<Rightarrow> registry \<Rightarrow> registry" where
  "register_waiter run node msg k r =
     (let a = length (rg_heap r) in
      clear_replay run
        (r\<lparr>rg_heap := rg_heap r @ [\<lparr>wt_reply = None, wt_node = node, wt_message = msg, wt_iteration = k, wt_run = run\<rparr>],
           rg_by_run := AList.update run (AList.update node a (entries (rg_by_run r) run)) (rg_by_run r),
           rg_by_msg := AList.update msg a (rg_by_msg r)\<rparr>))"

definition deregister_waiter :: "string \<Rightarrow> string \<Rightarrow> string \<Rightarrow> registry \<Rightarrow> registry" where
  "deregister_waiter run node msg r =
     r\<lparr>rg_by_msg := AList.delete msg (rg_by_msg r),
       rg_by_run := (if map_of (rg_by_run r) run = None then rg_by_run r
         else put_entries run (AList.delete node (entries (rg_by_run r) run)) (rg_by_run r))\<rparr>"

text \<open>The nodes of a run that wait, as they are persisted.\<close>

definition waiting_nodes :: "registry \<Rightarrow> string \<Rightarrow> suspensions" where
  "waiting_nodes r run =
     map (\<lambda>(n, a). (n, \<lparr>si_message = wt_message (rg_heap r ! a), si_iteration = wt_iteration (rg_heap r ! a)\<rparr>))
       (entries (rg_by_run r) run)"

section \<open>Delivering a reply\<close>

definition offer :: "nat \<Rightarrow> string \<Rightarrow> registry \<Rightarrow> registry \<times> bool" where
  "offer a x r = (if reply_of r a = None then (put_reply a (Some x) r, True) else (r, False))"

definition deliver_by_message :: "string \<Rightarrow> string \<Rightarrow> registry \<Rightarrow> registry \<times> bool" where
  "deliver_by_message msg x r = (case map_of (rg_by_msg r) msg of Some a \<Rightarrow> offer a x r | None \<Rightarrow> (r, False))"

definition deliver_resume :: "string \<Rightarrow> string \<Rightarrow> registry \<Rightarrow> registry \<times> bool" where
  "deliver_resume run x r = (case entries (rg_by_run r) run of [(_, a)] \<Rightarrow> offer a x r | _ \<Rightarrow> (r, False))"

definition has_active_or_replay_message :: "string \<Rightarrow> string \<Rightarrow> registry \<Rightarrow> bool" where
  "has_active_or_replay_message msg session r \<longleftrightarrow>
     msg \<noteq> [] \<and>
     ((case map_of (rg_by_msg r) msg of
         Some a \<Rightarrow> session = [] \<or> wt_run (rg_heap r ! a) \<in> set (entries (rg_sessions r) session)
       | None \<Rightarrow> False)
      \<or> (case map_of (rg_replay_run r) msg of
           Some run \<Rightarrow> run \<in> rg_replaying r
             \<and> (session = [] \<or> map_of (rg_replay_session r) msg = Some session \<or> run \<in> set (entries (rg_sessions r) session))
         | None \<Rightarrow> False))"

section \<open>Replaying a suspended run\<close>

text \<open>The messages of a snapshot.\<close>

definition snapshot_messages :: "run_snapshot \<Rightarrow> string list" where
  "snapshot_messages sn =
     (if sn_message sn = [] then [] else [sn_message sn])
     @ filter (\<lambda>m. m \<noteq> []) (map (\<lambda>(_, i). si_message i) (suspended_map sn))"

definition begin_replay :: "run_snapshot \<Rightarrow> registry \<Rightarrow> registry" where
  "begin_replay sn r =
     (let mids = snapshot_messages sn in
      r\<lparr>rg_replaying := insert (sn_run sn) (rg_replaying r),
        rg_replay_run := fold (\<lambda>m. AList.update m (sn_run sn)) mids (rg_replay_run r),
        rg_replay_session := (if sn_session sn = [] then rg_replay_session r
          else fold (\<lambda>m. AList.update m (sn_session sn)) mids (rg_replay_session r))\<rparr>)"

definition end_replay :: "run_snapshot \<Rightarrow> registry \<Rightarrow> registry" where
  "end_replay sn r =
     (let mids = snapshot_messages sn in
      r\<lparr>rg_replaying := rg_replaying r - {sn_run sn},
        rg_replay_run := filter (\<lambda>(m, _). m \<notin> set mids) (rg_replay_run r),
        rg_replay_session := filter (\<lambda>(m, _). m \<notin> set mids) (rg_replay_session r)\<rparr>)"

text \<open>The node a message belongs to: None is the refusal of a message no node has.\<close>

definition target_node :: "string \<Rightarrow> run_snapshot \<Rightarrow> string option" where
  "target_node msg sn =
     (if suspended_map sn = [] then Some (sn_node sn)
      else (case find (\<lambda>(_, i). si_message i = msg) (suspended_map sn) of
          Some (n, _) \<Rightarrow> Some n
        | None \<Rightarrow> if sn_message sn \<noteq> msg then None else Some (sn_node sn)))"

datatype resume_outcome = DeliveredLive | ReDriven | Ignored

text \<open>
  Where \<open>ResumeByMessageID\<close> stands: before each critical section and each access to the store,
  waiting for a replay (with the node it will answer, if it knows it), holding a snapshot, driving a
  run, or done. \<open>Late\<close> holds a snapshot that was loaded after such a wait: the replay mark is not
  looked at again.
\<close>

datatype resume_pc =
    Called | Deliver | Guard | AwaitReplay string "string option" | Loading | Loaded run_snapshot string
  | Reloading string | Late run_snapshot string | Replay run_snapshot string | Marked run_snapshot
  | Driving run_snapshot | Settled run_snapshot | Leaving run_snapshot resume_outcome | Finished resume_outcome

text \<open>The second and third guard, under one lock.\<close>

definition claim_run :: "run_snapshot \<Rightarrow> string \<Rightarrow> registry \<Rightarrow> registry \<times> resume_pc" where
  "claim_run sn node r =
     (if sn_run sn \<in> rg_executing r \<or> entries (rg_by_run r) (sn_run sn) \<noteq> [] then (r, Finished Ignored)
      else (begin_replay sn r, Replay sn node))"

definition check_loaded :: "repo_error + run_snapshot option \<Rightarrow> run_snapshot option" where
  "check_loaded x = (case x of
     Inl _ \<Rightarrow> None | Inr None \<Rightarrow> None
   | Inr (Some sn) \<Rightarrow> if sn_status sn = ''WAITING_HUMAN'' then Some sn else None)"

text \<open>
  One step of a call with message \<open>msg\<close> and reply \<open>x\<close>. A wait can also end with an error, and so can
  restoring the definition and the start of \<open>Execute\<close>, which are not modelled here; what the run does
  between its start and its settlement are steps of the engine.
\<close>

inductive resume_step ::
  "(string \<Rightarrow> string \<Rightarrow> bool) \<Rightarrow> string \<Rightarrow> string \<Rightarrow> resume_pc \<times> registry \<times> repo \<Rightarrow> resume_pc \<times> registry \<times> repo \<Rightarrow> bool"
  for like msg x where
  incomplete: "msg = [] \<or> x = [] \<Longrightarrow> resume_step like msg x (Called, r, p) (Finished Ignored, r, p)"
| complete: "msg \<noteq> [] \<Longrightarrow> x \<noteq> [] \<Longrightarrow> resume_step like msg x (Called, r, p) (Deliver, r, p)"
| delivered: "pc = Deliver \<or> pc = AwaitReplay run n \<Longrightarrow> deliver_by_message msg x r = (r', True)
    \<Longrightarrow> resume_step like msg x (pc, r, p) (Finished DeliveredLive, r', p)"
| undelivered: "deliver_by_message msg x r = (r', False) \<Longrightarrow> resume_step like msg x (Deliver, r, p) (Guard, r', p)"
| guard_replay: "map_of (rg_replay_run r) msg = Some run \<Longrightarrow> run \<in> rg_replaying r
    \<Longrightarrow> resume_step like msg x (Guard, r, p) (AwaitReplay run None, r, p)"
| guard_free: "(case map_of (rg_replay_run r) msg of Some run \<Rightarrow> run \<notin> rg_replaying r | None \<Rightarrow> True)
    \<Longrightarrow> resume_step like msg x (Guard, r, p) (Loading, r, p)"
| replay_over: "run \<notin> rg_replaying r \<Longrightarrow> deliver_by_message msg x r = (r', False)
    \<Longrightarrow> resume_step like msg x (AwaitReplay run n, r, p) (case n of None \<Rightarrow> Loading | Some i \<Rightarrow> Reloading i, r', p)"
| replay_timeout: "resume_step like msg x (AwaitReplay run n, r, p) (Finished Ignored, r, p)"
| load_none: "check_loaded (find_by_message like msg p) = None
    \<Longrightarrow> pc = Loading \<or> pc = Reloading i \<Longrightarrow> resume_step like msg x (pc, r, p) (Finished Ignored, r, p)"
| load_other: "check_loaded (find_by_message like msg p) = Some sn \<Longrightarrow> target_node msg sn = None
    \<Longrightarrow> resume_step like msg x (Loading, r, p) (Finished Ignored, r, p)"
| load: "check_loaded (find_by_message like msg p) = Some sn \<Longrightarrow> target_node msg sn = Some n
    \<Longrightarrow> resume_step like msg x (Loading, r, p) (Loaded sn n, r, p)"
| load_again: "check_loaded (find_by_message like msg p) = Some sn
    \<Longrightarrow> resume_step like msg x (Reloading n, r, p) (Late sn n, r, p)"
| found_replaying: "sn_run sn \<in> rg_replaying r
    \<Longrightarrow> resume_step like msg x (Loaded sn n, r, p) (AwaitReplay (sn_run sn) (Some n), r, p)"
| found_free: "sn_run sn \<notin> rg_replaying r \<Longrightarrow> claim_run sn n r = (r', pc)
    \<Longrightarrow> resume_step like msg x (Loaded sn n, r, p) (pc, r', p)"
| late: "claim_run sn n r = (r', pc) \<Longrightarrow> resume_step like msg x (Late sn n, r, p) (pc, r', p)"
| no_definition: "resume_step like msg x (Replay sn n, r, p) (Leaving sn Ignored, r, p)"
| mark: "resume_step like msg x (Replay sn n, r, p) (Marked sn, r, mark_running now (sn_run sn) p)"
| no_start: "resume_step like msg x (Marked sn, r, p) (Leaving sn ReDriven, r, p)"
| drive: "resume_step like msg x (Marked sn, r, p) (Driving sn, begin_run (sn_session sn) (sn_run sn) r, p)"
| settle: "resume_step like msg x (Driving sn, r, p)
    (Settled sn, r, fst (settle_run now (sn_run sn) (persist_status st) states p))"
| stop: "resume_step like msg x (Settled sn, r, p) (Leaving sn ReDriven, end_run (sn_session sn) (sn_run sn) r, p)"
| leave: "resume_step like msg x (Leaving sn out, r, p) (Finished out, end_replay sn r, p)"

section \<open>Routing a reply\<close>

text \<open>
  Which message \<open>tryResumeWorkflow\<close> hands to the engine: the one the reply names when a run of the
  chat waits for it or it is live, else the only interaction the chat waits for.
\<close>

definition owns_message :: "string \<Rightarrow> run_snapshot \<Rightarrow> bool" where
  "owns_message msg sn \<longleftrightarrow> sn_message sn = msg \<or> list_ex (\<lambda>(_, i). si_message i = msg) (suspended_map sn)"

definition waiting_interactions :: "run_snapshot list \<Rightarrow> string list" where
  "waiting_interactions sns =
     concat (map (\<lambda>sn. if suspended_map sn \<noteq> [] then map (\<lambda>(_, i). si_message i) (suspended_map sn)
       else if sn_message sn \<noteq> [] then [sn_message sn] else []) sns)"

definition only_waiting :: "run_snapshot list \<Rightarrow> string option" where
  "only_waiting sns = (case waiting_interactions sns of [m] \<Rightarrow> Some m | _ \<Rightarrow> None)"

definition route_reply :: "(string \<Rightarrow> string \<Rightarrow> bool) \<Rightarrow> string \<Rightarrow> string \<Rightarrow> registry \<Rightarrow> repo \<Rightarrow> string option" where
  "route_reply like chat msg r p =
     (let fallback = (case find_waiting_humans chat p of Inl _ \<Rightarrow> None | Inr sns \<Rightarrow> only_waiting sns) in
      if msg = [] then fallback
      else (case find_by_message like msg p of
          Inl _ \<Rightarrow> None
        | Inr (Some sn) \<Rightarrow> if sn_session sn \<noteq> chat then None else Some msg
        | Inr None \<Rightarrow>
            (case find_waiting_humans chat p of
               Inl _ \<Rightarrow> None
             | Inr sns \<Rightarrow>
                 if list_ex (owns_message msg) sns \<or> has_active_or_replay_message msg chat r then Some msg
                 else only_waiting sns)))"

end
