(* ===== verification/WfRegistryProps.thy ===== *)
theory WfRegistryProps
  imports WfRegistry
begin

text \<open>
  The registry under every interleaving of its critical sections: as long as no two waiting nodes
  are given the same message identifier, a message and the node that asked it find each other. The
  identifiers the engine derives are not always different.
\<close>

named_theorems reg_frames \<open>which fields of the registry an operation leaves alone\<close>

lemma entries_update: "entries (AList.update k xs m) k' = (if k' = k then xs else entries m k')"
  by (simp add: entries_def map_of_update)

lemma entries_put: "entries (put_entries k xs m) k' = (if k' = k then xs else entries m k')"
  by (simp add: entries_def put_entries_def map_of_update map_of_delete_if)

lemma clear_replay_frame [reg_frames]:
  "rg_heap (clear_replay run r) = rg_heap r" "rg_by_msg (clear_replay run r) = rg_by_msg r"
  "rg_by_run (clear_replay run r) = rg_by_run r" "rg_executing (clear_replay run r) = rg_executing r"
  by (simp_all add: clear_replay_def Let_def)

lemma run_frames [reg_frames]:
  "rg_heap (begin_run ses run r) = rg_heap r" "rg_by_msg (begin_run ses run r) = rg_by_msg r" "rg_by_run (begin_run ses run r) = rg_by_run r"
  "rg_heap (end_run ses run r) = rg_heap r" "rg_by_msg (end_run ses run r) = rg_by_msg r" "rg_by_run (end_run ses run r) = rg_by_run r"
  by (simp_all add: begin_run_def end_run_def)

lemma replay_frames [reg_frames]:
  "rg_heap (begin_replay sn r) = rg_heap r" "rg_by_msg (begin_replay sn r) = rg_by_msg r" "rg_by_run (begin_replay sn r) = rg_by_run r"
  "rg_heap (end_replay sn r) = rg_heap r" "rg_by_msg (end_replay sn r) = rg_by_msg r" "rg_by_run (end_replay sn r) = rg_by_run r"
  by (simp_all add: begin_replay_def end_replay_def Let_def)

lemma put_reply_frame [reg_frames]:
  "rg_by_msg (put_reply a x r) = rg_by_msg r" "rg_by_run (put_reply a x r) = rg_by_run r"
  "length (rg_heap (put_reply a x r)) = length (rg_heap r)"
  by (simp_all add: put_reply_def)

lemma put_reply_waiter [reg_frames]:
  "wt_node (rg_heap (put_reply a x r) ! b) = wt_node (rg_heap r ! b)" "wt_run (rg_heap (put_reply a x r) ! b) = wt_run (rg_heap r ! b)"
  "wt_message (rg_heap (put_reply a x r) ! b) = wt_message (rg_heap r ! b)"
proof -
  have "rg_heap (put_reply a x r) ! b = (if b = a \<and> a < length (rg_heap r) then (rg_heap r ! a)\<lparr>wt_reply := x\<rparr> else rg_heap r ! b)"
    by (cases "a < length (rg_heap r)") (simp_all add: put_reply_def nth_list_update list_update_beyond)
  then show "wt_node (rg_heap (put_reply a x r) ! b) = wt_node (rg_heap r ! b)"
    "wt_run (rg_heap (put_reply a x r) ! b) = wt_run (rg_heap r ! b)"
    "wt_message (rg_heap (put_reply a x r) ! b) = wt_message (rg_heap r ! b)" by simp_all
qed

section \<open>A consistent registry\<close>

definition waits :: "registry \<Rightarrow> string \<Rightarrow> string \<Rightarrow> nat \<Rightarrow> bool" where
  "waits r run node a \<longleftrightarrow> map_of (entries (rg_by_run r) run) node = Some a"

text \<open>
  Both maps have the same waiters, each under its own run, node and message; no run has an empty
  entry.
\<close>

definition registry_ok :: "registry \<Rightarrow> bool" where
  "registry_ok r \<longleftrightarrow>
     (\<forall>run. map_of (rg_by_run r) run \<noteq> Some [])
     \<and> (\<forall>run node a. waits r run node a \<longrightarrow> a < length (rg_heap r)
          \<and> wt_run (rg_heap r ! a) = run \<and> wt_node (rg_heap r ! a) = node \<and> map_of (rg_by_msg r) (wt_message (rg_heap r ! a)) = Some a)
     \<and> (\<forall>m a. map_of (rg_by_msg r) m = Some a \<longrightarrow> a < length (rg_heap r)
          \<and> wt_message (rg_heap r ! a) = m \<and> waits r (wt_run (rg_heap r ! a)) (wt_node (rg_heap r ! a)) a)"

text \<open>
  The critical sections. A node registers under a message no other waiting node has, and only once
  at a time; it leaves when it has its reply or is cancelled.
\<close>

inductive reg_step :: "registry \<Rightarrow> registry \<Rightarrow> bool" where
  reg_wait: "map_of (rg_by_msg r) msg = None \<Longrightarrow> map_of (entries (rg_by_run r) run) node = None
    \<Longrightarrow> reg_step r (register_waiter run node msg k r)"
| reg_leave: "waits r run node a \<Longrightarrow> reg_step r (deregister_waiter run node (wt_message (rg_heap r ! a)) r)"
| reg_take: "waits r run node a \<Longrightarrow> reg_step r (put_reply a None r)"
| reg_deliver: "deliver_by_message msg x r = (r', b) \<Longrightarrow> reg_step r r'"
| reg_resume: "deliver_resume run x r = (r', b) \<Longrightarrow> reg_step r r'"
| reg_begin: "reg_step r (begin_run ses run r)"
| reg_end: "reg_step r (end_run ses run r)"
| reg_replay: "reg_step r (begin_replay sn r)"
| reg_replayed: "reg_step r (end_replay sn r)"
| reg_cancel: "reg_step r (register_run_cancel ses run r)"
| reg_uncancel: "reg_step r (unregister_run_cancel ses run r)"

inductive_simps resume_from_loaded: "resume_step like msg x (Loaded sn n, r, p) w"

lemma registry_ok_frame:
  assumes "registry_ok r" "rg_by_msg r' = rg_by_msg r" "rg_by_run r' = rg_by_run r" "length (rg_heap r') = length (rg_heap r)"
    "\<And>a. wt_run (rg_heap r' ! a) = wt_run (rg_heap r ! a) \<and> wt_node (rg_heap r' ! a) = wt_node (rg_heap r ! a)
       \<and> wt_message (rg_heap r' ! a) = wt_message (rg_heap r ! a)"
  shows "registry_ok r'"
  using assms by (simp add: registry_ok_def waits_def)

lemma offer_ok: "registry_ok r \<Longrightarrow> offer a x r = (r', b) \<Longrightarrow> registry_ok r'"
  by (auto simp: offer_def reg_frames intro: registry_ok_frame split: if_splits)

lemma deliver_ok:
  "registry_ok r \<Longrightarrow> deliver_by_message msg x r = (r', b) \<Longrightarrow> registry_ok r'"
  "registry_ok r \<Longrightarrow> deliver_resume run x r = (r', b) \<Longrightarrow> registry_ok r'"
  by (auto simp: deliver_by_message_def deliver_resume_def dest: offer_ok split: option.splits list.splits prod.splits)

lemma register_ok:
  assumes "registry_ok r" "map_of (rg_by_msg r) msg = None" "map_of (entries (rg_by_run r) run) node = None"
  shows "registry_ok (register_waiter run node msg k r)"
proof -
  let ?r = "register_waiter run node msg k r" and ?a = "length (rg_heap r)"
  have heap: "rg_heap ?r ! b = (if b = ?a then \<lparr>wt_reply = None, wt_node = node, wt_message = msg, wt_iteration = k, wt_run = run\<rparr> else rg_heap r ! b)"
    if "b \<le> ?a" for b using that by (simp add: register_waiter_def Let_def reg_frames nth_append)
  have len: "length (rg_heap ?r) = Suc ?a" by (simp add: register_waiter_def Let_def reg_frames)
  have msgs: "map_of (rg_by_msg ?r) m = (if m = msg then Some ?a else map_of (rg_by_msg r) m)" for m
    by (simp add: register_waiter_def Let_def reg_frames map_of_update)
  have w: "waits ?r run' n b \<longleftrightarrow> (if run' = run \<and> n = node then b = ?a else waits r run' n b)" for run' n b
    by (auto simp: register_waiter_def Let_def reg_frames waits_def entries_update map_of_update)
  have runs: "map_of (rg_by_run ?r) run' \<noteq> Some []" for run'
    using assms(1) by (auto simp: registry_ok_def register_waiter_def Let_def reg_frames map_of_update update_nonempty)
  have old: "b < ?a" if "waits r run' n b" for run' n b using assms(1) that unfolding registry_ok_def by blast
  have oldm: "b < ?a" if "map_of (rg_by_msg r) m = Some b" for m b using assms(1) that unfolding registry_ok_def by blast
  have i: "b < length (rg_heap ?r) \<and> wt_run (rg_heap ?r ! b) = run' \<and> wt_node (rg_heap ?r ! b) = n
      \<and> map_of (rg_by_msg ?r) (wt_message (rg_heap ?r ! b)) = Some b" if "waits ?r run' n b" for run' n b
  proof (cases "run' = run \<and> n = node")
    case True
    with that show ?thesis by (simp add: w heap len msgs)
  next
    case False
    with that have o: "waits r run' n b" by (simp add: w)
    then have "b < ?a" "wt_run (rg_heap r ! b) = run'" "wt_node (rg_heap r ! b) = n"
      "map_of (rg_by_msg r) (wt_message (rg_heap r ! b)) = Some b"
      using assms(1) unfolding registry_ok_def by blast+
    with assms(2) show ?thesis by (auto simp: heap len msgs)
  qed
  have j: "b < length (rg_heap ?r) \<and> wt_message (rg_heap ?r ! b) = m \<and> waits ?r (wt_run (rg_heap ?r ! b)) (wt_node (rg_heap ?r ! b)) b"
    if "map_of (rg_by_msg ?r) m = Some b" for m b
  proof (cases "m = msg")
    case True
    with that show ?thesis by (simp add: w heap len msgs)
  next
    case False
    with that have o: "map_of (rg_by_msg r) m = Some b" by (simp add: msgs)
    then have "b < ?a" "wt_message (rg_heap r ! b) = m" "waits r (wt_run (rg_heap r ! b)) (wt_node (rg_heap r ! b)) b"
      using assms(1) unfolding registry_ok_def by blast+
    moreover from this assms(3) have "\<not> (wt_run (rg_heap r ! b) = run \<and> wt_node (rg_heap r ! b) = node)"
      by (auto simp: waits_def)
    ultimately show ?thesis by (simp add: heap len w)
  qed
  show ?thesis unfolding registry_ok_def using runs i j by blast
qed

lemma deregister_ok:
  assumes "registry_ok r" "waits r run node a"
  shows "registry_ok (deregister_waiter run node (wt_message (rg_heap r ! a)) r)"
proof -
  let ?msg = "wt_message (rg_heap r ! a)"
  let ?r = "deregister_waiter run node ?msg r"
  have heap: "rg_heap ?r = rg_heap r" by (simp add: deregister_waiter_def)
  have some: "map_of (rg_by_run r) run \<noteq> None" using assms(2) by (auto simp: waits_def entries_def split: option.splits)
  have msgs: "map_of (rg_by_msg ?r) m = (if m = ?msg then None else map_of (rg_by_msg r) m)" for m
    by (simp add: deregister_waiter_def map_of_delete_if)
  have w: "waits ?r run' n b \<longleftrightarrow> \<not> (run' = run \<and> n = node) \<and> waits r run' n b" for run' n b
    using some by (auto simp: deregister_waiter_def waits_def entries_put map_of_delete_if)
  have runs: "map_of (rg_by_run ?r) run' \<noteq> Some []" for run'
    using assms(1) by (auto simp: registry_ok_def deregister_waiter_def put_entries_def map_of_update map_of_delete_if)
  have a: "wt_run (rg_heap r ! a) = run" "wt_node (rg_heap r ! a) = node" "map_of (rg_by_msg r) ?msg = Some a"
    using assms unfolding registry_ok_def by blast+
  have i: "b < length (rg_heap ?r) \<and> wt_run (rg_heap ?r ! b) = run' \<and> wt_node (rg_heap ?r ! b) = n
      \<and> map_of (rg_by_msg ?r) (wt_message (rg_heap ?r ! b)) = Some b" if "waits ?r run' n b" for run' n b
  proof -
    from that have o: "waits r run' n b" and d: "\<not> (run' = run \<and> n = node)" by (simp_all add: w)
    from o assms(1) have "b < length (rg_heap r)" "wt_run (rg_heap r ! b) = run'" "wt_node (rg_heap r ! b) = n"
      "map_of (rg_by_msg r) (wt_message (rg_heap r ! b)) = Some b" unfolding registry_ok_def by blast+
    with a d show ?thesis by (auto simp: heap msgs)
  qed
  have j: "b < length (rg_heap ?r) \<and> wt_message (rg_heap ?r ! b) = m \<and> waits ?r (wt_run (rg_heap ?r ! b)) (wt_node (rg_heap ?r ! b)) b"
    if "map_of (rg_by_msg ?r) m = Some b" for m b
  proof -
    from that have o: "map_of (rg_by_msg r) m = Some b" and d: "m \<noteq> ?msg" by (simp_all add: msgs split: if_splits)
    from o assms(1) have b: "b < length (rg_heap r)" "wt_message (rg_heap r ! b) = m"
      "waits r (wt_run (rg_heap r ! b)) (wt_node (rg_heap r ! b)) b" unfolding registry_ok_def by blast+
    have "\<not> (wt_run (rg_heap r ! b) = run \<and> wt_node (rg_heap r ! b) = node)"
      using b(2,3) assms(2) d by (auto simp: waits_def)
    with b show ?thesis by (simp add: heap w)
  qed
  show ?thesis unfolding registry_ok_def using runs i j by blast
qed

lemma reg_step_ok: "reg_step r r' \<Longrightarrow> registry_ok r \<Longrightarrow> registry_ok r'"
proof (induction rule: reg_step.induct)
  case (reg_take r run node a)
  from reg_take(2) show ?case by (rule registry_ok_frame) (simp_all add: reg_frames)
next
  case (reg_begin r ses run)
  then show ?case by (rule registry_ok_frame) (simp_all add: reg_frames)
next
  case (reg_end r ses run)
  then show ?case by (rule registry_ok_frame) (simp_all add: reg_frames)
next
  case (reg_replay r sn)
  then show ?case by (rule registry_ok_frame) (simp_all add: reg_frames)
next
  case (reg_replayed r sn)
  then show ?case by (rule registry_ok_frame) (simp_all add: reg_frames)
next
  case (reg_cancel r ses run)
  then show ?case by (rule registry_ok_frame) (simp_all add: register_run_cancel_def)
next
  case (reg_uncancel r ses run)
  then show ?case by (rule registry_ok_frame) (simp_all add: unregister_run_cancel_def)
next
  case (reg_wait r msg run node k)
  then show ?case by (simp add: register_ok)
next
  case (reg_leave r run node a)
  then show ?case by (simp add: deregister_ok)
next
  case (reg_deliver msg x r r' b)
  then show ?case by (blast intro: deliver_ok(1))
next
  case (reg_resume run x r r' b)
  then show ?case by (blast intro: deliver_ok(2))
qed

lemma reg_reach_ok: "reg_step\<^sup>*\<^sup>* new_engine r \<Longrightarrow> registry_ok r"
proof (induction rule: rtranclp_induct)
  case base
  show ?case by (simp add: registry_ok_def new_engine_def waits_def entries_def)
next
  case (step r r')
  then show ?case by (blast intro: reg_step_ok)
qed

lemma reply_of_put: "a < length (rg_heap r) \<Longrightarrow> reply_of (put_reply a x r) b = (if b = a then x else reply_of r b)"
  by (simp add: reply_of_def put_reply_def nth_list_update)


section \<open>Identifiers that are not distinct\<close>

lemma message_id_shift: "human_message_id run (node @ ''-'' @ itoa (int k + 2)) 1 = human_message_id run node (int k + 2)"
  by (simp add: human_message_id_def)

text \<open>Two nodes of a run that wait under one message, the second being answered.\<close>

lemma shared_message:
  assumes "other \<noteq> node"
    and r: "r = register_waiter run other msg 1 (register_waiter run node msg k (begin_run session run new_engine))"
  shows "waits r run node 0" "waits r run other 1"
    "deliver_by_message msg x r = (put_reply 1 (Some x) r, True)"
    "reply_of (put_reply 1 (Some x) r) 0 = None" "reply_of (put_reply 1 (Some x) r) 1 = Some x"
    "waits (deregister_waiter run other msg (put_reply 1 (Some x) r)) run node 0"
    "deliver_by_message msg y (deregister_waiter run other msg (put_reply 1 (Some x) r))
      = (deregister_waiter run other msg (put_reply 1 (Some x) r), False)"
    "claim_run (sn\<lparr>sn_run := run\<rparr>) n (deregister_waiter run other msg (put_reply 1 (Some x) r))
      = (deregister_waiter run other msg (put_reply 1 (Some x) r), Finished Ignored)"
  using assms(1)
  by (simp_all add: r register_waiter_def clear_replay_def begin_run_def new_engine_def waits_def entries_def
      deliver_by_message_def offer_def reply_of_def put_reply_def deregister_waiter_def put_entries_def claim_run_def Let_def)

text \<open>
  The identifiers of two questions of one run can be the same: the one of a node in a later
  iteration is that of the node whose id ends with a dash and that number. When both wait, a reply to
  the question goes to the node that asked last; when that one has left, the first still waits, but
  no reply under its own message is taken any more, and while the run executes it is dropped.
\<close>

lemma message_ids_collide:
  "let other = node @ ''-'' @ itoa (int k + 2); msg = human_message_id run node (int k + 2);
       r = register_waiter run other (human_message_id run other 1) 1
             (register_waiter run node msg (int k + 2) (begin_run session run new_engine));
       r1 = fst (deliver_by_message msg x r); r2 = deregister_waiter run other (human_message_id run other 1) r1
   in other \<noteq> node \<and> human_message_id run other 1 = msg \<and> waits r run node 0 \<and> waits r run other 1
      \<and> snd (deliver_by_message msg x r) \<and> reply_of r1 0 = None \<and> reply_of r1 1 = Some x
      \<and> waits r2 run node 0 \<and> deliver_by_message msg y r2 = (r2, False)
      \<and> claim_run (sn\<lparr>sn_run := run\<rparr>) n r2 = (r2, Finished Ignored)"
proof -
  let ?other = "node @ ''-'' @ itoa (int k + 2)"
  have d: "?other \<noteq> node" by simp
  note f = shared_message [OF d refl, where msg = "human_message_id run node (int k + 2)" and k = "int k + 2"]
  show ?thesis unfolding Let_def message_id_shift f(3) fst_conv snd_conv
    by (intro conjI d refl TrueI f)
qed

section \<open>A snapshot that is out of date\<close>

text \<open>Several calls of \<open>ResumeByMessageID\<close> at once, each with its message, reply and position.\<close>

inductive calls_step ::
  "(string \<Rightarrow> string \<Rightarrow> bool) \<Rightarrow> (string \<times> string \<times> resume_pc) list \<times> registry \<times> repo
    \<Rightarrow> (string \<times> string \<times> resume_pc) list \<times> registry \<times> repo \<Rightarrow> bool" for like where
  call: "i < length cs \<Longrightarrow> cs ! i = (msg, x, pc) \<Longrightarrow> resume_step like msg x (pc, r, p) (pc', r', p')
    \<Longrightarrow> calls_step like (cs, r, p) (cs[i := (msg, x, pc')], r', p')"

end
