(* ===== verification/WfReplies.thy ===== *)
theory WfReplies
  imports WfRestore WfRegistryProps
begin

text \<open>
  Replies to a suspended run, at concrete runs: two calls for the same question, of which the second
  acts on a snapshot that is out of date, and the witnesses of the registry's properties.
\<close>

section \<open>Two calls for one question\<close>

definition no_like :: "string \<Rightarrow> string \<Rightarrow> bool" where "no_like pat t = False"

definition question :: string where "question = human_message_id ''r1'' ''h'' 1"

definition gate_suspended :: repo where "gate_suspended = suspended_at ''h'' gate_waits started"

definition gate_snapshot :: run_snapshot where "gate_snapshot = the (load gate_suspended)"

lemma gate_found:
  "check_loaded (find_by_message no_like question gate_suspended) = Some gate_snapshot"
  "target_node question gate_snapshot = Some ''h''" "sn_run gate_snapshot = ''r1''" "sn_session gate_snapshot = ''s1''"
  "question \<noteq> []"
  by code_simp+

definition row_status :: "repo \<Rightarrow> string option" where
  "row_status p = map_option rr_status (get_run_row ''r1'' p)"

definition gate_done :: results where
  "gate_done = [(''a'', ok\<lparr>nr_loops := None\<rparr>), (''h'', yes\<lparr>nr_loops := None\<rparr>), (''w'', ok\<lparr>nr_loops := None\<rparr>)]"

definition gate_completed :: repo where
  "gate_completed = settled_as RunCompleted gate_done (mark_running 3 ''r1'' gate_suspended)"

lemma gate_statuses:
  "row_status gate_completed = Some ''COMPLETED''" "row_status (mark_running 11 ''r1'' gate_completed) = Some ''RUNNING''"
  by code_simp+

lemma call_steps:
  assumes "(resume_step like msg x)\<^sup>*\<^sup>* w w'" "i < length cs" "cs ! i = (msg, x, fst w)"
  shows "(calls_step like)\<^sup>*\<^sup>* (cs, snd w) (cs[i := (msg, x, fst w')], snd w')"
  using assms(1)
proof (induction rule: rtranclp_induct)
  case base
  have "cs[i := (msg, x, fst w)] = cs" using assms(3) by (metis list_update_id)
  then show ?case by simp
next
  case (step u v)
  have "calls_step like (cs[i := (msg, x, fst u)], snd u) ((cs[i := (msg, x, fst u)])[i := (msg, x, fst v)], snd v)"
    using step.hyps(2) assms(2) call [of i "cs[i := (msg, x, fst u)]" msg x "fst u" like "fst (snd u)" "snd (snd u)" "fst v" "fst (snd v)" "snd (snd v)"]
    by simp
  with step.IH show ?case by (simp add: rtranclp.rtrancl_into_rtrancl)
qed

text \<open>A call loads the snapshot of the suspended run; one that holds it drives a free run to its start.\<close>

lemma call_loads:
  "(resume_step no_like question ''yes'')\<^sup>*\<^sup>* (Called, new_engine, gate_suspended) (Loaded gate_snapshot ''h'', new_engine, gate_suspended)"
proof -
  let ?S = "resume_step no_like question ''yes''"
  have "?S (Called, new_engine, gate_suspended) (Deliver, new_engine, gate_suspended)"
    by (rule complete) (simp_all add: gate_found)
  moreover have "?S (Deliver, new_engine, gate_suspended) (Guard, new_engine, gate_suspended)"
    by (rule undelivered) (simp add: deliver_by_message_def new_engine_def)
  moreover have "?S (Guard, new_engine, gate_suspended) (Loading, new_engine, gate_suspended)"
    by (rule guard_free) (simp add: new_engine_def)
  moreover have "?S (Loading, new_engine, gate_suspended) (Loaded gate_snapshot ''h'', new_engine, gate_suspended)"
    by (rule resume_step.load [OF gate_found(1,2)])
  ultimately show ?thesis by (meson converse_rtranclp_into_rtranclp r_into_rtranclp)
qed

lemma call_drives:
  "(resume_step like msg x)\<^sup>*\<^sup>* (Loaded gate_snapshot n, new_engine, p)
     (Driving gate_snapshot, begin_run ''s1'' ''r1'' (begin_replay gate_snapshot new_engine), mark_running now ''r1'' p)"
proof -
  let ?S = "resume_step like msg x" and ?r = "begin_replay gate_snapshot new_engine"
  have "?S (Loaded gate_snapshot n, new_engine, p) (Replay gate_snapshot n, ?r, p)"
    by (rule found_free) (simp_all add: claim_run_def new_engine_def entries_def)
  moreover have "?S (Replay gate_snapshot n, ?r, p) (Marked gate_snapshot, ?r, mark_running now ''r1'' p)"
    using mark [of like msg x gate_snapshot n ?r p now] by (simp only: gate_found(3))
  moreover have "?S (Marked gate_snapshot, ?r, mark_running now ''r1'' p)
      (Driving gate_snapshot, begin_run ''s1'' ''r1'' ?r, mark_running now ''r1'' p)"
    using drive [of like msg x gate_snapshot ?r "mark_running now ''r1'' p"] by (simp only: gate_found(3,4))
  ultimately show ?thesis by (meson converse_rtranclp_into_rtranclp r_into_rtranclp)
qed

lemma gate_freed: "end_replay gate_snapshot (end_run ''s1'' ''r1'' (begin_run ''s1'' ''r1'' (begin_replay gate_snapshot new_engine))) = new_engine"
proof -
  have "fold (\<lambda>m. AList.update m ''r1'') (snapshot_messages gate_snapshot) [] = [(question, ''r1'')]"
    "fold (\<lambda>m. AList.update m ''s1'') (snapshot_messages gate_snapshot) [] = [(question, ''s1'')]"
    "set (snapshot_messages gate_snapshot) = {question}" by code_simp+
  then show ?thesis
    by (simp add: end_replay_def end_run_def begin_run_def begin_replay_def new_engine_def gate_found(3,4) Let_def
        entries_def put_entries_def)
qed

lemma call_finishes:
  "(resume_step like msg x)\<^sup>*\<^sup>* (Driving gate_snapshot, begin_run ''s1'' ''r1'' (begin_replay gate_snapshot new_engine), mark_running 3 ''r1'' gate_suspended)
     (Finished ReDriven, new_engine, gate_completed)"
proof -
  let ?S = "resume_step like msg x" and ?r = "begin_run ''s1'' ''r1'' (begin_replay gate_snapshot new_engine)"
  have "?S (Driving gate_snapshot, ?r, mark_running 3 ''r1'' gate_suspended) (Settled gate_snapshot, ?r, gate_completed)"
    using settle [of like msg x gate_snapshot ?r "mark_running 3 ''r1'' gate_suspended" 9 RunCompleted
        "to_persisted_states (map (\<lambda>(i, r). (i, Some r)) gate_done)"]
    by (simp only: gate_found(3) gate_completed_def settled_as_def)
  moreover have "?S (Settled gate_snapshot, ?r, gate_completed) (Leaving gate_snapshot ReDriven, end_run ''s1'' ''r1'' ?r, gate_completed)"
    using stop [of like msg x gate_snapshot ?r gate_completed] by (simp only: gate_found(3,4))
  moreover have "?S (Leaving gate_snapshot ReDriven, end_run ''s1'' ''r1'' ?r, gate_completed)
      (Finished ReDriven, end_replay gate_snapshot (end_run ''s1'' ''r1'' ?r), gate_completed)"
    by (rule leave)
  ultimately have "?S\<^sup>*\<^sup>* (Driving gate_snapshot, ?r, mark_running 3 ''r1'' gate_suspended)
      (Finished ReDriven, end_replay gate_snapshot (end_run ''s1'' ''r1'' ?r), gate_completed)"
    by (meson converse_rtranclp_into_rtranclp r_into_rtranclp)
  then show ?thesis by (simp only: gate_freed)
qed

text \<open>
  A run that has settled can be driven again: two replies to one question are being handled,
  both have read the snapshot of the suspended run, and the first drives the run to its end before
  the second reaches its guards. They look at what executes and is being replayed now, not at the
  snapshot's age, so the second marks the completed run as running and executes what follows the
  question a second time.
\<close>

lemma stale_snapshot_redrives:
  "\<exists>cs r p cs' r' p'.
     (calls_step no_like)\<^sup>*\<^sup>* ([(question, ''yes'', Called), (question, ''yes'', Called)], new_engine, gate_suspended) (cs, r, p)
     \<and> cs ! 0 = (question, ''yes'', Finished ReDriven) \<and> row_status p = Some ''COMPLETED'' \<and> rg_executing r = {}
     \<and> (calls_step no_like)\<^sup>*\<^sup>* (cs, r, p) (cs', r', p')
     \<and> cs' ! 1 = (question, ''yes'', Driving gate_snapshot) \<and> rg_executing r' = {''r1''} \<and> row_status p' = Some ''RUNNING''"
proof -
  let ?c = "\<lambda>a b. [(question, ''yes'', a), (question, ''yes'', b)]" and ?L = "Loaded gate_snapshot ''h''"
  let ?r = "begin_run ''s1'' ''r1'' (begin_replay gate_snapshot new_engine)"
  have first: "(resume_step no_like question ''yes'')\<^sup>*\<^sup>* (?L, new_engine, gate_suspended) (Finished ReDriven, new_engine, gate_completed)"
    using call_drives [of no_like question "''yes''" "''h''" gate_suspended 3] call_finishes by (rule rtranclp_trans)
  have a: "(calls_step no_like)\<^sup>*\<^sup>* (?c Called Called, new_engine, gate_suspended) (?c ?L Called, new_engine, gate_suspended)"
    using call_steps [OF call_loads, of 0 "?c Called Called"] by simp
  have b: "(calls_step no_like)\<^sup>*\<^sup>* (?c ?L Called, new_engine, gate_suspended) (?c ?L ?L, new_engine, gate_suspended)"
    using call_steps [OF call_loads, of 1 "?c ?L Called"] by simp
  have c: "(calls_step no_like)\<^sup>*\<^sup>* (?c ?L ?L, new_engine, gate_suspended) (?c (Finished ReDriven) ?L, new_engine, gate_completed)"
    using call_steps [OF first, of 0 "?c ?L ?L"] by simp
  note one = rtranclp_trans [OF rtranclp_trans [OF a b] c]
  have two: "(calls_step no_like)\<^sup>*\<^sup>* (?c (Finished ReDriven) ?L, new_engine, gate_completed)
      (?c (Finished ReDriven) (Driving gate_snapshot), ?r, mark_running 11 ''r1'' gate_completed)"
    using call_steps [OF call_drives [of no_like question "''yes''" "''h''" gate_completed 11], of 1 "?c (Finished ReDriven) ?L"] by simp
  have ex: "rg_executing new_engine = {}" "rg_executing ?r = {''r1''}"
    by (simp_all add: new_engine_def begin_run_def begin_replay_def Let_def)
  show ?thesis
    by (intro exI conjI, rule one, simp, rule gate_statuses, rule ex, rule two, simp, rule ex, rule gate_statuses)
qed

section \<open>The properties at these runs\<close>

definition small_suspension :: run_snapshot where
  "small_suspension = ex_run\<lparr>sn_status := ''WAITING_HUMAN'',
     sn_states := [(''a'', to_persisted_state (ok\<lparr>nr_output := ''x'', nr_loops := Some [(''L'', 2)]\<rparr>))],
     sn_loops := Some [(''L'', 2)], sn_node := ''h'', sn_message := ''m'',
     sn_suspended := Some [(''h'', \<lparr>si_message = ''m'', si_iteration = 1\<rparr>)]\<rparr>"



end
