(* ===== verification/WfMessageIds.thy ===== *)
theory WfMessageIds
  imports WfPersist
begin

text \<open>
  The identifiers of the questions an agent node asks when its quota is used up, and the test by
  which the API finds the open ones of a node that has finished.
\<close>

definition occurs_at :: "string \<Rightarrow> string \<Rightarrow> nat \<Rightarrow> bool" where
  "occurs_at sub s j \<longleftrightarrow> j \<le> length s \<and> take (length sub) (drop j s) = sub"

lemma last_index_None: "(\<And>j. \<not> occurs_at sub s j) \<Longrightarrow> last_index sub s = None"
proof (induction s)
  case Nil
  from Nil [of 0] show ?case by (simp add: occurs_at_def)
next
  case (Cons c s)
  have "\<not> occurs_at sub s j" for j using Cons.prems [of "Suc j"] by (simp add: occurs_at_def)
  with Cons.IH Cons.prems [of 0] show ?case by (simp add: occurs_at_def)
qed

lemma last_index_Some: "occurs_at sub s i \<Longrightarrow> (\<And>j. i < j \<Longrightarrow> \<not> occurs_at sub s j) \<Longrightarrow> last_index sub s = Some i"
proof (induction s arbitrary: i)
  case Nil
  then show ?case by (simp add: occurs_at_def)
next
  case (Cons c s)
  show ?case
  proof (cases i)
    case 0
    have "\<not> occurs_at sub s j" for j using Cons.prems(2) [of "Suc j"] 0 by (simp add: occurs_at_def)
    then have "last_index sub s = None" by (rule last_index_None)
    with Cons.prems(1) 0 show ?thesis by (simp add: occurs_at_def)
  next
    case (Suc k)
    have "last_index sub s = Some k"
    proof (rule Cons.IH)
      show "occurs_at sub s k" using Cons.prems(1) Suc by (simp add: occurs_at_def)
      show "\<not> occurs_at sub s j" if "k < j" for j using Cons.prems(2) [of "Suc j"] Suc that by (simp add: occurs_at_def)
    qed
    with Suc show ?thesis by simp
  qed
qed

text \<open>A text whose last character does not occur behind it is found there.\<close>

lemma last_index_tail:
  assumes "sub \<noteq> []" "last sub \<notin> set tail"
  shows "last_index sub (pre @ sub @ tail) = Some (length pre)"
proof (rule last_index_Some)
  show "occurs_at sub (pre @ sub @ tail) (length pre)" by (simp add: occurs_at_def)
  show "\<not> occurs_at sub (pre @ sub @ tail) j" if j: "length pre < j" for j
  proof
    let ?n = "length sub" and ?s = "pre @ sub @ tail"
    assume "occurs_at sub ?s j"
    then have t: "take ?n (drop j ?s) = sub" and b: "j \<le> length ?s" by (simp_all add: occurs_at_def)
    have n: "0 < ?n" using assms(1) by simp
    have "min (length ?s - j) ?n = ?n" using t by (metis length_drop length_take min.commute)
    then have len: "j + ?n \<le> length ?s" using b by linarith
    have "last sub = take ?n (drop j ?s) ! (?n - 1)" using assms(1) t by (simp add: last_conv_nth)
    also have "\<dots> = drop j ?s ! (?n - 1)" using n by (simp only: nth_take diff_less zero_less_one)
    also have "\<dots> = ?s ! (j + (?n - 1))" using b by (rule nth_drop)
    also have "\<dots> = tail ! (j + (?n - 1) - (length pre + ?n))"
    proof -
      have "length pre + ?n \<le> j + (?n - 1)" using j n by linarith
      then show ?thesis by (simp only: append_assoc [symmetric] nth_append length_append not_less [symmetric] if_False)
    qed
    also have "\<dots> \<in> set tail"
    proof (rule nth_mem)
      have "length ?s = length pre + (?n + length tail)" by simp
      with len j n show "j + (?n - 1) - (length pre + ?n) < length tail" by linarith
    qed
    finally show False using assms(2) by simp
  qed
qed

lemma itoa_digits:
  assumes "0 < k"
  shows "list_all is_digit (itoa k)" "CHR ''-'' \<notin> set (itoa k)" "CHR ''a'' \<notin> set (itoa k)" "itoa k \<noteq> []"
proof -
  show d: "list_all is_digit (itoa k)" "itoa k \<noteq> []" using assms nat_text_digits [of "nat k"] by (simp_all add: itoa_def)
  have "\<not> is_digit (CHR ''-'')" "\<not> is_digit (CHR ''a'')" by (simp_all add: is_digit_def)
  with d(1) show "CHR ''-'' \<notin> set (itoa k)" "CHR ''a'' \<notin> set (itoa k)" by (auto simp: list_all_iff)
qed

text \<open>The numbers behind the identifier of a quota question.\<close>

definition quota_tail :: "int \<Rightarrow> int \<Rightarrow> string" where
  "quota_tail k sq = (if k > 1 then ''-'' @ itoa k else []) @ (if sq > 1 then ''-'' @ itoa sq else [])"

lemma quota_message_parts: "quota_message_id run node k sq = ''wf-'' @ run @ ''-'' @ node @ ''-quota'' @ quota_tail k sq"
  by (simp add: quota_message_id_def human_message_id_def quota_tail_def Let_def)

lemma matches_quota_tail:
  assumes "k < 2 ^ 63" "sq < 2 ^ 63"
  shows "matches_quota_message_id (pre @ (''-'' @ node @ ''-quota'') @ quota_tail k sq) (node @ ''-quota'')"
proof -
  let ?P = "''-'' @ node @ ''-quota''" and ?t = "quota_tail k sq"
  have "last ?P \<notin> set ?t" using itoa_digits(3) [of k] itoa_digits(3) [of sq] by (simp add: quota_tail_def)
  then have i: "last_index ?P (pre @ ?P @ ?t) = Some (length pre)" by (intro last_index_tail) simp
  have "drop (length pre + length P) (pre @ P @ t) = t" for P t :: string by simp
  from this [of ?P ?t] have rest: "drop (length pre + 1 + length (node @ ''-quota'')) (pre @ ?P @ ?t) = ?t"
    by (simp only: length_append list.size) (simp add: add.commute)
  have a: "atoi (itoa k) \<noteq> None" "atoi (itoa sq) \<noteq> None" if "k > 1" "sq > 1"
    using atoi_itoa [of k] atoi_itoa [of sq] assms that by simp_all
  have groups: "?t = [] \<or> list_all (\<lambda>g. atoi g \<noteq> None)
      (split_on (CHR ''-'') (case cut_prefix ''-'' ?t of Some u \<Rightarrow> u | None \<Rightarrow> ?t))"
  proof (cases "k > 1"; cases "sq > 1")
    assume "k > 1" "sq > 1"
    then show ?thesis using assms atoi_itoa [of k] atoi_itoa [of sq] itoa_digits [of k] itoa_digits [of sq]
      by (simp add: quota_tail_def cut_prefix_def split_on_append_sep split_on_no_sep)
  next
    assume "k > 1" "\<not> sq > 1"
    then show ?thesis using assms atoi_itoa [of k] itoa_digits [of k]
      by (simp add: quota_tail_def cut_prefix_def split_on_no_sep)
  next
    assume "\<not> k > 1" "sq > 1"
    then show ?thesis using assms atoi_itoa [of sq] itoa_digits [of sq]
      by (simp add: quota_tail_def cut_prefix_def split_on_no_sep)
  qed (simp add: quota_tail_def)
  have "matches_quota_message_id (pre @ ?P @ ?t) (node @ ''-quota'') \<longleftrightarrow> ?t = [] \<or> list_all (\<lambda>g. atoi g \<noteq> None)
      (split_on (CHR ''-'') (case cut_prefix ''-'' ?t of Some u \<Rightarrow> u | None \<Rightarrow> ?t))"
    unfolding matches_quota_message_id_def i option.case Let_def rest by (rule refl)
  with groups show ?thesis by blast
qed

text \<open>
  The test accepts every quota question of the node it is made for, in any iteration and however
  often the question was repeated, but not only those: also every one of each node whose id ends
  with a dash and that node's id. So when a node \<open>dev\<close> finishes, the question of a node \<open>backend-dev\<close>
  that still waits for its answer is marked as answered.
\<close>

lemma quota_questions_matched:
  assumes "k < 2 ^ 63" "sq < 2 ^ 63"
  shows "matches_quota_message_id (quota_message_id run node k sq) (node @ ''-quota'')
    \<and> matches_quota_message_id (quota_message_id run (other @ ''-'' @ node) k sq) (node @ ''-quota'')"
  using matches_quota_tail [OF assms, of "''wf-'' @ run" node] matches_quota_tail [OF assms, of "''wf-'' @ run @ ''-'' @ other" node]
  by (simp add: quota_message_parts)

theorem quota_questions_matched_witness:
  "matches_quota_message_id (quota_message_id ''r1'' ''backend-dev'' 3 2) ''dev-quota''"
  using quota_questions_matched [of 3 2 "''r1''" "''dev''" "''backend''"] by simp

end
