(* ===== verification/ChatPaths.thy ===== *)
theory ChatPaths
  imports GoText GoPath
begin

text \<open>
  The paths of a chat: \<open>agents/scoped_paths.go\<close> recognises the forms in which a request or a stored
  run directory names the chat's temporary or session directory, \<open>agents/scoped_resolve.go\<close> maps a
  request to a file and lists the outcomes the backend authorizes. \<open>dd\<close> is the data directory of
  \<open>pkg/paths/runner\<close>; the calls that follow symbolic links or ask whether a file exists are
  parameters.
\<close>

section \<open>Chats and their directories\<close>

definition chat_char :: "char \<Rightarrow> bool" where
  "chat_char c \<longleftrightarrow>
     c \<in> set ''abcdefghijklmnopqrstuvwxyzABCDEFGHIJKLMNOPQRSTUVWXYZ0123456789_-''"

definition is_valid_chat_id :: "string \<Rightarrow> bool" where
  "is_valid_chat_id s \<longleftrightarrow> s \<noteq> '''' \<and> length s \<le> 64 \<and> list_all chat_char s"

definition sessions_dir :: "string \<Rightarrow> string" where
  "sessions_dir dd = path_join [dd, ''sessions'']"

definition tmp_dir :: "string \<Rightarrow> string" where
  "tmp_dir dd = path_join [dd, ''tmp'']"

definition scoped_ns_host_root :: "string \<Rightarrow> string \<Rightarrow> string" where
  "scoped_ns_host_root dd ns = (if ns = ''session'' then sessions_dir dd else tmp_dir dd)"

definition scoped_base_dir :: "string \<Rightarrow> string \<Rightarrow> string \<Rightarrow> string" where
  "scoped_base_dir dd ns chat =
     path_join [scoped_ns_host_root dd ns, if chat = '''' then ''default'' else chat]"

definition join_scoped_base :: "string \<Rightarrow> string \<Rightarrow> string \<Rightarrow> string \<Rightarrow> string" where
  "join_scoped_base dd ns chat sub =
     (let base = scoped_base_dir dd ns chat; sub' = path_clean sub
      in if sub' = '''' \<or> sub' = ''.'' then base else path_join [base, sub'])"

section \<open>The forms of a path in a namespace\<close>

text \<open>What both recognisers do with the session placeholders and the chat's id behind \<open>pre\<close>.\<close>

definition token_form :: "string \<Rightarrow> string \<Rightarrow> string \<Rightarrow> string option" where
  "token_form pre clean chat =
     (if clean = pre @ ''/session-id'' \<or> clean = pre @ ''/${session_id}'' then Some ''''
      else case cut_prefix (pre @ ''/session-id/'') clean of Some sub \<Rightarrow> Some sub
      | None \<Rightarrow> (case cut_prefix (pre @ ''/${session_id}/'') clean of Some sub \<Rightarrow> Some sub
         | None \<Rightarrow>
             if chat = '''' then None
             else if clean = pre @ ''/'' @ chat then Some ''''
             else cut_prefix (pre @ ''/'' @ chat @ ''/'') clean))"

definition relative_scoped_narrow :: "string \<Rightarrow> string \<Rightarrow> string \<Rightarrow> string option" where
  "relative_scoped_narrow clean chat ns =
     (if clean = ns then Some '''' else token_form ns clean chat)"

definition strip_session_id_prefix :: "string \<Rightarrow> string \<Rightarrow> string" where
  "strip_session_id_prefix sub chat =
     (if sub = chat \<or> sub = ''session-id'' \<or> sub = ''${session_id}'' then ''''
      else case (if chat \<noteq> '''' then cut_prefix (chat @ ''/'') sub else None) of Some s \<Rightarrow> s
      | None \<Rightarrow> (case cut_prefix ''session-id/'' sub of Some s \<Rightarrow> s
         | None \<Rightarrow> (case cut_prefix ''${session_id}/'' sub of Some s \<Rightarrow> s | None \<Rightarrow> sub)))"

definition relative_scoped_prefixed :: "string \<Rightarrow> string \<Rightarrow> string \<Rightarrow> string option" where
  "relative_scoped_prefixed clean chat ns =
     (case relative_scoped_narrow clean chat ns of Some sub \<Rightarrow> Some sub
      | None \<Rightarrow> map_option (\<lambda>sub. strip_session_id_prefix sub chat) (cut_prefix (ns @ ''/'') clean))"

definition explicit_scoped :: "string \<Rightarrow> string \<Rightarrow> string \<Rightarrow> string option" where
  "explicit_scoped clean chat ns =
     (if clean = ''/'' @ ns \<or> clean = ''.'' @ ns then Some ''''
      else case cut_prefix (''.'' @ ns @ ''/'') clean of
        Some sub \<Rightarrow> Some (strip_session_id_prefix sub chat)
      | None \<Rightarrow> token_form (''/'' @ ns) clean chat)"

definition session_scoped :: "string \<Rightarrow> string \<Rightarrow> string \<Rightarrow> string option" where
  "session_scoped clean chat ns =
     (if clean = '''' \<or> clean = ''.'' then Some ''''
      else case explicit_scoped clean chat ns of Some sub \<Rightarrow> Some sub
      | None \<Rightarrow> relative_scoped_narrow clean chat ns)"

text \<open>A subpath is cleaned, and the dot of the empty path dropped again.\<close>

definition clean_sub :: "string \<Rightarrow> string" where
  "clean_sub s = (let c = path_clean s in if c = ''.'' then '''' else c)"

definition resolve_session_scoped :: "string \<Rightarrow> string \<Rightarrow> string \<Rightarrow> string option" where
  "resolve_session_scoped req chat ns =
     (let clean = path_clean req
      in case explicit_scoped clean chat ns of Some sub \<Rightarrow> Some (clean_sub sub)
      | None \<Rightarrow> map_option (\<lambda>sub. clean_sub (strip_session_id_prefix sub chat))
          (cut_prefix (''/'' @ ns @ ''/'') clean))"

definition ns_path :: "string \<Rightarrow> string \<Rightarrow> string" where
  "ns_path ns sub = (if sub = '''' then ''/'' @ ns else ''/'' @ ns @ ''/'' @ sub)"

definition normalize_scoped_for_auth :: "string \<Rightarrow> string \<Rightarrow> string \<Rightarrow> string option" where
  "normalize_scoped_for_auth req chat ns = map_option (ns_path ns) (resolve_session_scoped req chat ns)"

section \<open>Run directories\<close>

definition is_session_token :: "string \<Rightarrow> bool" where
  "is_session_token t \<longleftrightarrow> is_valid_chat_id t \<or> t = ''session-id'' \<or> t = ''${session_id}''"

definition reanchor_scoped :: "string \<Rightarrow> string \<Rightarrow> string \<Rightarrow> string \<Rightarrow> string option" where
  "reanchor_scoped dd clean ns chat =
     (case path_rel (scoped_ns_host_root dd ns) clean of None \<Rightarrow> None
      | Some rel \<Rightarrow>
          if rel = ''.'' \<or> rel = ''..'' \<or> cut_prefix ''../'' rel \<noteq> None then None
          else (case (case cut_at slash rel of None \<Rightarrow> (rel, '''') | Some p \<Rightarrow> p) of (target, sub) \<Rightarrow>
            if is_session_token target then Some (join_scoped_base dd ns chat sub) else None))"

definition normalize_session_run_dir :: "string \<Rightarrow> string \<Rightarrow> string \<Rightarrow> string" where
  "normalize_session_run_dir dd run_dir chat =
     (if run_dir = '''' then (if chat = '''' then '''' else scoped_base_dir dd ''tmp'' chat)
      else let clean = path_clean run_dir in
        if chat = '''' then
          (if clean = ''/tmp'' \<or> clean = ''.'' \<or> clean = ''tmp'' then run_dir else clean)
        else (case session_scoped clean chat ''tmp'' of
            Some sub \<Rightarrow> join_scoped_base dd ''tmp'' chat sub
          | None \<Rightarrow> (case explicit_scoped clean chat ''session'' of
              Some sub \<Rightarrow> join_scoped_base dd ''session'' chat sub
            | None \<Rightarrow> (case relative_scoped_narrow clean chat ''session'' of
                Some sub \<Rightarrow> join_scoped_base dd ''session'' chat sub
              | None \<Rightarrow> (case find_map (\<lambda>ns. reanchor_scoped dd clean ns chat) [''tmp'', ''session''] of
                  Some r \<Rightarrow> r
                | None \<Rightarrow> clean)))))"

section \<open>Requests\<close>

text \<open>The file system as \<open>filepath.EvalSymlinks\<close> and \<open>os.Stat\<close> answer; None is an error.\<close>

record file_system =
  eval_symlinks :: "string \<Rightarrow> string option"
  stat_ok :: "string \<Rightarrow> bool"

datatype path_error = EscapesTmp | EscapesWorkspace

datatype resolved = Resolved (rs_target: string) (rs_ns: string) (rs_auth: string)

text \<open>The test for a relative path that leaves its base, here on the outcome of \<open>filepath.Rel\<close>.\<close>

definition escapes :: "string \<Rightarrow> string \<Rightarrow> bool" where
  "escapes base target = (case path_rel base target of None \<Rightarrow> True | Some r \<Rightarrow> take 2 r = ''..'')"

definition links_escape :: "file_system \<Rightarrow> string \<Rightarrow> string \<Rightarrow> bool" where
  "links_escape fs base target =
     (case eval_symlinks fs target of None \<Rightarrow> False | Some t \<Rightarrow> escapes base t)"

definition eval_or :: "file_system \<Rightarrow> string \<Rightarrow> string" where
  "eval_or fs p = (case eval_symlinks fs p of Some t \<Rightarrow> t | None \<Rightarrow> p)"

text \<open>A target beneath its base, before and after its links were followed.\<close>

definition checked :: "file_system \<Rightarrow> string \<Rightarrow> string \<Rightarrow> path_error \<Rightarrow> resolved \<Rightarrow> path_error + resolved" where
  "checked fs base eval_base e r =
     (if escapes base (rs_target r) \<or> links_escape fs eval_base (rs_target r) then Inl e else Inr r)"

definition resolve_namespaced ::
  "file_system \<Rightarrow> string \<Rightarrow> string \<Rightarrow> string \<Rightarrow> string \<Rightarrow> string \<Rightarrow> string \<Rightarrow> (path_error + resolved) option" where
  "resolve_namespaced fs dd ns run_dir req scope chat =
     (let clean_req = path_clean req; clean_run = path_clean run_dir;
          base = scoped_base_dir dd ns chat;
          eval_base = eval_or fs base; eval_run = eval_or fs clean_run;
          ns_res = (\<lambda>sub. Resolved (path_join [base, sub]) ns (ns_path ns sub));
          ws_res = Resolved (path_join [clean_run, clean_req]) '''' clean_req;
          as_ns = (\<lambda>sub. checked fs base eval_base EscapesTmp (ns_res sub));
          as_ws = checked fs clean_run eval_run EscapesWorkspace ws_res
      in case resolve_session_scoped clean_req chat ns of Some sub \<Rightarrow> Some (as_ns (clean_sub sub))
      | None \<Rightarrow> (case relative_scoped_prefixed clean_req chat ns of None \<Rightarrow> None
         | Some s \<Rightarrow> let sub = clean_sub s in
             if scope = ns then Some (as_ns sub)
             else if scope = ''workspace'' then Some as_ws
             else if clean_run = base \<or> clean_run = eval_base \<or> eval_run = eval_base then Some (as_ns sub)
             else if stat_ok fs (rs_target ws_res) then Some as_ws
             else if stat_ok fs (path_join [base, sub]) then Some (as_ns sub)
             else Some (if escapes clean_run (rs_target ws_res) then Inl EscapesWorkspace
                        else Inr ws_res)))"

definition resolve_and_validate ::
  "file_system \<Rightarrow> string \<Rightarrow> string \<Rightarrow> string \<Rightarrow> string \<Rightarrow> string \<Rightarrow> path_error + resolved" where
  "resolve_and_validate fs dd run_dir req scope chat =
     (case find_map (\<lambda>ns. resolve_namespaced fs dd ns run_dir req scope chat) [''tmp'', ''session''] of
        Some r \<Rightarrow> r
      | None \<Rightarrow>
          let clean_req = path_clean req; clean_run = path_clean run_dir;
              target = (if path_is_abs clean_req then clean_req else path_join [clean_run, clean_req])
          in checked fs clean_run (eval_or fs clean_run) EscapesWorkspace (Resolved target '''' clean_req))"

definition candidate_path :: "string \<Rightarrow> string \<Rightarrow> string" where
  "candidate_path ns sub =
     (let s = path_clean sub in if s = '''' \<or> s = ''.'' then ''/'' @ ns else ''/'' @ ns @ ''/'' @ s)"

definition ns_candidates :: "string \<Rightarrow> string \<Rightarrow> string \<Rightarrow> string \<Rightarrow> (string \<times> string) list option" where
  "ns_candidates clean scope chat ns =
     (case resolve_session_scoped clean chat ns of Some sub \<Rightarrow> Some [(ns, candidate_path ns sub)]
      | None \<Rightarrow> (case relative_scoped_prefixed clean chat ns of None \<Rightarrow> None
         | Some sub \<Rightarrow>
             Some (if scope = ns then [(ns, candidate_path ns sub)]
                   else if scope = ''workspace'' then [('''', clean)]
                   else [(ns, candidate_path ns sub), ('''', clean)])))"

definition auth_candidates :: "string \<Rightarrow> string \<Rightarrow> string \<Rightarrow> (string \<times> string) list" where
  "auth_candidates req scope chat =
     (let clean = path_clean req
      in case find_map (ns_candidates clean scope chat) [''tmp'', ''session''] of
        Some cs \<Rightarrow> cs
      | None \<Rightarrow> [('''', clean)])"

end
