(* ===== verification/ChatPathProps.thy ===== *)
theory ChatPathProps
  imports ChatPaths
begin

text \<open>
  What the path functions of a chat guarantee: a subpath they extract only leads downwards, a
  normalized run directory never lies in another chat's directories, a granted target lies beneath
  the directory it was granted in, and the backend authorizes every outcome of a resolution.
\<close>

section \<open>Paths that lead downwards\<close>

definition down :: "string \<Rightarrow> bool" where
  "down s \<longleftrightarrow> (\<exists>cs. s = join_with slash cs \<and> list_all plain_comp cs)"

lemma down_Nil [simp]: "down []"
  unfolding down_def by (rule exI [of _ "[]"]) simp

lemma plain_first: "plain_comp c \<Longrightarrow> \<exists>x r. c = x # r \<and> x \<noteq> slash"
  by (cases c) (auto simp: plain_comp_def)

lemma split_join_plain: "list_all plain_comp cs \<Longrightarrow> cs \<noteq> [] \<Longrightarrow> split_on slash (join_with slash cs) = cs"
  by (rule split_join) (auto simp: list_all_iff plain_comp_def)

lemma not_abs_plain: "list_all plain_comp cs \<Longrightarrow> \<not> path_is_abs (join_with slash cs)"
  by (cases cs; cases "tl cs") (auto simp: path_is_abs_def dest!: plain_first)

lemma path_comps_plain: "list_all plain_comp cs \<Longrightarrow> path_comps (join_with slash cs) = cs"
proof (cases "cs = []")
  case True
  then show ?thesis by (simp add: path_comps_def clean_step_def)
next
  case False
  assume "list_all plain_comp cs"
  with False show ?thesis
    by (simp add: path_comps_def split_join_plain foldl_clean_plain list_all_iff)
qed

lemma down_comps: "down s \<Longrightarrow> join_with slash (path_comps s) = s"
  unfolding down_def by (auto simp: path_comps_plain)

lemma down_plain: "down s \<Longrightarrow> list_all plain_comp (path_comps s)"
  unfolding down_def by (auto simp: path_comps_plain)

lemma down_not_abs: "down s \<Longrightarrow> \<not> path_is_abs s"
  unfolding down_def by (auto simp: not_abs_plain)

lemma join_plain_Nil: "list_all plain_comp cs \<Longrightarrow> join_with slash cs = [] \<longleftrightarrow> cs = []"
  by (cases cs; cases "tl cs") (auto dest!: plain_first)

lemma path_clean_down: "down s \<Longrightarrow> path_clean s = (if s = '''' then ''.'' else s)"
proof -
  assume d: "down s"
  then have "s = '''' \<longleftrightarrow> path_comps s = []" by (metis join_plain_Nil down_comps down_plain)
  with d show ?thesis by (simp add: path_clean_def path_print_def down_comps down_not_abs)
qed

lemma down_not_dot: "down s \<Longrightarrow> s \<noteq> ''.''"
proof
  assume "down s" "s = ''.''"
  then have "path_comps s = []" by (simp add: path_comps_def clean_step_def)
  with down_comps [OF \<open>down s\<close>] \<open>s = ''.''\<close> show False by simp
qed

lemma clean_sub_down [simp]: "down s \<Longrightarrow> clean_sub s = s"
  by (simp add: clean_sub_def Let_def path_clean_down down_not_dot)

lemma comps_append_down:
  assumes "p \<noteq> ''''" "down s"
  shows "path_comps (p @ slash # s) = path_comps p @ path_comps s"
proof (cases "s = ''''")
  case True
  have "split_on slash (p @ [slash]) = split_on slash p @ [[]]"
    using split_on_append_sep [of slash p "[]"] by simp
  with True assms(1) show ?thesis
    by (simp add: path_comps_def path_is_abs_append clean_step_def)
next
  case False
  obtain cs where cs: "s = join_with slash cs" "list_all plain_comp cs"
    using assms(2) by (auto simp: down_def)
  with False have "cs \<noteq> []" by auto
  with cs assms(1) show ?thesis
    by (simp add: path_comps_plain) (simp add: path_comps_def path_is_abs_append split_on_append_sep
        split_join_plain foldl_clean_plain list_all_iff)
qed

text \<open>A subpath joined to a directory.\<close>

lemma path_join_down:
  assumes "p \<noteq> ''''" "down s"
  shows "path_comps (path_join [p, s]) = path_comps p @ path_comps s"
    and "path_is_abs (path_join [p, s]) = path_is_abs p"
proof -
  have j: "path_join [p, s] = (if s = '''' then path_clean p else path_clean (p @ slash # s))"
    using assms(1) by (simp add: path_join_def)
  have "s = '''' \<Longrightarrow> path_comps s = []" by (simp add: path_comps_def clean_step_def)
  then show "path_comps (path_join [p, s]) = path_comps p @ path_comps s"
    by (simp add: j comps_append_down [OF assms])
  show "path_is_abs (path_join [p, s]) = path_is_abs p"
    using assms(1) by (simp add: j path_is_abs_append)
qed

section \<open>What stands behind a prefix of a cleaned path\<close>

lemma split_suffix_plain:
  assumes "stack_ok r (rev cs)" "cs = as @ bs" "c \<in> set as" "plain_comp c"
  shows "list_all plain_comp bs"
proof -
  obtain ns k where st: "rev cs = ns @ replicate k ''..''" "\<forall>c \<in> set ns. plain_comp c"
    using assms(1) unfolding stack_ok_def by blast
  have "cs = rev (ns @ replicate k ''..'')" by (metis st(1) rev_rev_ident)
  then have e: "as @ bs = replicate k ''..'' @ rev ns" using assms(2) by simp
  have "length as > k"
  proof (rule ccontr)
    assume "\<not> length as > k"
    then have "as = take (length as) (replicate k ''..'')"
      using arg_cong [OF e, of "take (length as)"] by simp
    then have "c \<in> set (replicate k ''..'')" using assms(3) by (metis in_set_takeD)
    with assms(4) show False by simp
  qed
  then have "bs = drop (length as - k) (rev ns)"
    using arg_cong [OF e, of "drop (length as)"] by simp
  with st(2) show ?thesis by (auto simp: list_all_iff dest!: in_set_dropD)
qed

lemma clean_tail:
  assumes "path_clean p = pre @ slash # rest" "c \<in> set (split_on slash pre)" "plain_comp c"
  shows "down rest"
proof -
  let ?cs = "path_comps p"
  have ok: "stack_ok (path_is_abs p) (rev ?cs)" by (rule path_comps_ok)
  have no_sep: "\<forall>c \<in> set ?cs. slash \<notin> set c" using path_comps_comp by blast
  have ne: "?cs \<noteq> []"
  proof
    assume "?cs = []"
    then have "path_clean p = (if path_is_abs p then [slash] else ''.'')"
      by (simp add: path_clean_def path_print_def)
    then have "pre @ slash # rest = (if path_is_abs p then [slash] else ''.'')"
      by (simp only: assms(1))
    then have "pre = []" by (cases pre) (auto split: if_splits)
    with assms(2,3) show False by simp
  qed
  then have "split_on slash (path_clean p) = (if path_is_abs p then [[]] else []) @ ?cs"
    using split_join [OF ne no_sep] by (simp add: path_clean_def path_print_def)
  then have e: "(if path_is_abs p then [[]] else []) @ ?cs = split_on slash pre @ split_on slash rest"
    using assms(1) by (simp add: split_on_append_sep)
  have "list_all plain_comp (split_on slash rest)"
  proof (cases "path_is_abs p")
    case False
    with e show ?thesis
      using split_suffix_plain [OF ok _ assms(2,3), of "split_on slash rest"] by simp
  next
    case True
    obtain as where as: "split_on slash pre = [] # as" "?cs = as @ split_on slash rest"
      using True e by (cases "split_on slash pre") (auto simp: Cons_eq_append_conv)
    have "c \<in> set as" using assms(2,3) as(1) by auto
    with as(2) show ?thesis using split_suffix_plain [OF ok _ _ assms(3)] by blast
  qed
  then show ?thesis unfolding down_def by (metis join_split)
qed

lemma down_tail: "down s \<Longrightarrow> s = pre @ slash # rest \<Longrightarrow> down rest"
proof -
  assume "down s" "s = pre @ slash # rest"
  then obtain cs where cs: "pre @ slash # rest = join_with slash cs" "list_all plain_comp cs"
    by (auto simp: down_def)
  then have "cs \<noteq> []" by auto
  with cs have "cs = split_on slash pre @ split_on slash rest"
    by (metis split_join_plain split_on_append_sep)
  with cs(2) have "list_all plain_comp (split_on slash rest)" by simp
  then show "down rest" unfolding down_def by (metis join_split)
qed

lemma cut_prefix_split: "cut_prefix p s = Some t \<longleftrightarrow> s = p @ t"
  unfolding cut_prefix_def by (metis append_eq_conv_conj option.distinct(1) option.inject)

section \<open>Every recognised subpath leads downwards\<close>

text \<open>The two namespaces, and the directory that backs each.\<close>

definition ns_ok :: "string \<Rightarrow> bool" where
  "ns_ok ns \<longleftrightarrow> ns = ''tmp'' \<or> ns = ''session''"

definition ns_dir :: "string \<Rightarrow> string" where
  "ns_dir ns = (if ns = ''session'' then ''sessions'' else ''tmp'')"

lemma ns_plain: "ns_ok ns \<Longrightarrow> plain_comp ns \<and> plain_comp (CHR ''.'' # ns) \<and> slash \<notin> set ns"
  by (auto simp: ns_ok_def plain_comp_def)

lemma clean_tail_token:
  assumes "path_clean p = pre @ slash # tok @ slash # rest" "c \<in> set (split_on slash pre)" "plain_comp c"
  shows "down rest"
proof (rule clean_tail)
  show "path_clean p = (pre @ slash # tok) @ slash # rest" using assms(1) by simp
  show "c \<in> set (split_on slash (pre @ slash # tok))" using assms(2) by (simp add: split_on_append_sep)
qed (rule assms(3))

lemma token_form_down:
  assumes "token_form pre (path_clean p) chat = Some s" "c \<in> set (split_on slash pre)" "plain_comp c"
  shows "down s"
proof -
  have "s = '''' \<or> (\<exists>tok. path_clean p = pre @ slash # tok @ slash # s)"
    using assms(1) by (auto simp: token_form_def cut_prefix_split split: if_splits option.splits)
  then show ?thesis using clean_tail_token assms(2,3) by auto
qed

lemma strip_down:
  assumes "down s"
  shows "down (strip_session_id_prefix s chat)"
proof -
  have "strip_session_id_prefix s chat = '''' \<or> strip_session_id_prefix s chat = s \<or>
     (\<exists>tok. s = tok @ slash # strip_session_id_prefix s chat)"
    by (auto simp: strip_session_id_prefix_def cut_prefix_split split: option.splits)
  then show ?thesis
  proof (elim disjE exE)
    fix tok
    assume "s = tok @ slash # strip_session_id_prefix s chat"
    then show ?thesis by (rule down_tail [OF assms])
  qed (use assms in simp_all)
qed

lemma narrow_down:
  "ns_ok ns \<Longrightarrow> relative_scoped_narrow (path_clean p) chat ns = Some s \<Longrightarrow> down s"
  using ns_plain [of ns] token_form_down [of ns p chat s ns]
  by (auto simp: relative_scoped_narrow_def split_on_no_sep split: if_splits)

lemma relative_down:
  assumes "ns_ok ns" "relative_scoped_prefixed (path_clean p) chat ns = Some s"
  shows "down s"
proof (cases "relative_scoped_narrow (path_clean p) chat ns")
  case (Some t)
  with assms have "t = s" by (simp add: relative_scoped_prefixed_def)
  with Some show ?thesis using narrow_down [OF assms(1)] by simp
next
  case None
  with assms(2) obtain t where "path_clean p = ns @ slash # t" "s = strip_session_id_prefix t chat"
    by (auto simp: relative_scoped_prefixed_def cut_prefix_split)
  then show ?thesis using clean_tail [of p ns t ns] ns_plain [OF assms(1)]
    by (simp add: split_on_no_sep strip_down)
qed

lemma explicit_down:
  assumes "ns_ok ns" "explicit_scoped (path_clean p) chat ns = Some s"
  shows "down s"
proof -
  let ?dot = "CHR ''.'' # ns"
  note pl = ns_plain [OF assms(1)]
  consider "s = ''''" | t where "cut_prefix (''.'' @ ns @ ''/'') (path_clean p) = Some t" "s = strip_session_id_prefix t chat"
    | "token_form (''/'' @ ns) (path_clean p) chat = Some s"
  proof (cases "path_clean p = ''/'' @ ns \<or> path_clean p = ''.'' @ ns")
    case True
    with assms(2) that(1) show ?thesis by (simp only: explicit_scoped_def if_True) simp
  next
    case False
    with assms(2) that(2,3) show ?thesis
      by (cases "cut_prefix (''.'' @ ns @ ''/'') (path_clean p)") (simp_all only: explicit_scoped_def if_False option.simps)
  qed
  then show ?thesis
  proof cases
    case 2
    then have "path_clean p = ?dot @ slash # t" by (simp add: cut_prefix_split)
    then have "down t" by (rule clean_tail [where c = ?dot]) (use pl in \<open>simp_all add: split_on_no_sep\<close>)
    with 2(2) show ?thesis by (simp add: strip_down)
  next
    case 3
    then show ?thesis using token_form_down [of "slash # ns" p chat s ns] pl by (simp add: split_on_no_sep)
  qed simp
qed

lemma session_scoped_down:
  "ns_ok ns \<Longrightarrow> session_scoped (path_clean p) chat ns = Some s \<Longrightarrow> down s"
  by (auto simp: session_scoped_def intro: explicit_down narrow_down split: if_splits option.splits)

lemma resolve_scoped_down:
  assumes "ns_ok ns" "resolve_session_scoped p chat ns = Some s"
  shows "down s"
proof (cases "explicit_scoped (path_clean p) chat ns")
  case (Some t)
  then have "down t" by (rule explicit_down [OF assms(1)])
  with Some assms(2) show ?thesis by (simp add: resolve_session_scoped_def)
next
  case None
  with assms(2) obtain t where t: "path_clean p = (slash # ns) @ slash # t"
    "s = clean_sub (strip_session_id_prefix t chat)"
    by (auto simp: resolve_session_scoped_def cut_prefix_split)
  have "down t" using clean_tail [OF t(1), of ns] ns_plain [OF assms(1)] by (simp add: split_on_no_sep)
  with t(2) show ?thesis by (simp add: strip_down)
qed

lemmas scoped_down = narrow_down relative_down explicit_down session_scoped_down resolve_scoped_down

section \<open>The directories of a chat\<close>

lemma not_chat_char: "\<not> chat_char CHR ''.''" "\<not> chat_char slash"
  by (simp_all add: chat_char_def)

lemma valid_chat_plain: "is_valid_chat_id chat \<Longrightarrow> plain_comp chat"
  using not_chat_char by (auto simp: is_valid_chat_id_def plain_comp_def list_all_iff)

lemma abs_not_empty: "path_is_abs dd \<Longrightarrow> dd \<noteq> ''''"
  by (auto simp: path_is_abs_def)

lemma ns_root_comps:
  assumes "path_is_abs dd"
  shows "path_comps (scoped_ns_host_root dd ns) = path_comps dd @ [ns_dir ns]"
    and "path_is_abs (scoped_ns_host_root dd ns)"
  using path_join_snoc [OF abs_not_empty [OF assms], of "''sessions''"] assms
    path_join_snoc [OF abs_not_empty [OF assms], of "''tmp''"]
  by (simp_all add: scoped_ns_host_root_def sessions_dir_def tmp_dir_def ns_dir_def plain_comp_def)

lemma base_comps:
  assumes "path_is_abs dd" "is_valid_chat_id chat"
  shows "path_comps (scoped_base_dir dd ns chat) = path_comps dd @ [ns_dir ns, chat]"
    and "path_is_abs (scoped_base_dir dd ns chat)"
  using path_join_snoc [OF abs_not_empty [OF ns_root_comps(2) [OF assms(1)]] valid_chat_plain [OF assms(2)], of ns]
    ns_root_comps [OF assms(1), of ns] assms(2)
  by (auto simp: scoped_base_dir_def is_valid_chat_id_def)

lemma join_scoped_base_comps:
  assumes "path_is_abs dd" "is_valid_chat_id chat" "down sub"
  shows "path_comps (join_scoped_base dd ns chat sub) = path_comps dd @ ns_dir ns # chat # path_comps sub"
    and "path_is_abs (join_scoped_base dd ns chat sub)"
proof -
  note b = base_comps [OF assms(1,2), of ns]
  have "path_comps '''' = []" by (simp add: path_comps_def clean_step_def)
  then show "path_comps (join_scoped_base dd ns chat sub) = path_comps dd @ ns_dir ns # chat # path_comps sub"
    and "path_is_abs (join_scoped_base dd ns chat sub)"
    using path_join_down [OF abs_not_empty [OF b(2)] assms(3)] b assms(3)
    by (simp_all add: join_scoped_base_def Let_def path_clean_down down_not_dot)
qed

section \<open>Lying beneath a directory\<close>

definition inside :: "string \<Rightarrow> string \<Rightarrow> bool" where
  "inside base p \<longleftrightarrow> path_is_abs p = path_is_abs base \<and> prefix (path_comps base) (path_comps p)"

lemma strip_common_eq: "strip_common xs ys = (bs, ts) \<Longrightarrow> \<exists>zs. xs = zs @ bs \<and> ys = zs @ ts"
  by (induction xs ys rule: strip_common.induct) (auto split: if_splits)

text \<open>The answer of \<open>filepath.Rel\<close> starts with two dots when the target lies elsewhere.\<close>

lemma not_escapes_inside:
  assumes "\<not> escapes base p"
  shows "inside base p"
proof (cases "path_clean base = path_clean p")
  case True
  then show ?thesis by (simp add: inside_def path_clean_eq_iff)
next
  case False
  obtain bs ts where st: "strip_common (path_comps base) (path_comps p) = (bs, ts)" by fastforce
  have abs: "path_is_abs base = path_is_abs p"
    using assms False by (simp add: escapes_def path_rel_def split: if_splits)
  have "bs = []"
  proof (rule ccontr)
    assume "bs \<noteq> []"
    then obtain b bs' where "bs = b # bs'" by (cases bs) auto
    then have "escapes base p"
      using False abs st by (cases "replicate (length bs') ''..'' @ ts") (auto simp: escapes_def path_rel_def)
    with assms show False by simp
  qed
  with strip_common_eq [OF st] abs show ?thesis by (auto simp: inside_def)
qed

lemma inside_join_down: "p \<noteq> '''' \<Longrightarrow> down s \<Longrightarrow> inside p (path_join [p, s])"
  by (simp add: inside_def path_join_down)

section \<open>A run directory is the chat's own or nobody's\<close>

lemma reanchor_own:
  assumes "path_is_abs dd" "is_valid_chat_id chat" "reanchor_scoped dd (path_clean p) ns chat = Some r"
  shows "\<exists>sub. down sub \<and> r = join_scoped_base dd ns chat sub"
proof -
  let ?root = "scoped_ns_host_root dd ns"
  note root = ns_root_comps [OF assms(1), of ns]
  obtain rel where rel: "path_rel ?root (path_clean p) = Some rel" "rel \<noteq> ''.''" "rel \<noteq> ''..''" "cut_prefix ''../'' rel = None"
    using assms(3) by (auto simp: reanchor_scoped_def split: option.splits if_splits)
  obtain bs ts where st: "strip_common (path_comps ?root) (path_comps p) = (bs, ts)" by fastforce
  have r: "rel = join_with slash (replicate (length bs) ''..'' @ ts)" "path_is_abs p"
    using rel(1,2) st root(2) by (auto simp: path_rel_def split: if_splits)
  have "bs = []"
  proof (rule ccontr)
    assume "bs \<noteq> []"
    then obtain b bs' where "bs = b # bs'" by (cases bs) auto
    then have "rel = ''..'' \<or> cut_prefix ''../'' rel \<noteq> None"
      using r(1) by (cases "replicate (length bs') ''..'' @ ts") (auto simp: cut_prefix_def)
    with rel(3,4) show False by simp
  qed
  have "list_all plain_comp (path_comps p)"
    using path_comps_abs_plain [OF r(2)] by (simp add: list_all_iff)
  then have "list_all plain_comp ts" using strip_common_eq [OF st] by auto
  with r(1) \<open>bs = []\<close> have d: "down rel" unfolding down_def by auto
  then have "down (snd (case cut_at slash rel of None \<Rightarrow> (rel, '''') | Some p \<Rightarrow> p))"
    using down_tail [OF d] by (auto split: option.splits dest!: cut_at_Some)
  moreover have "r = join_scoped_base dd ns chat (snd (case cut_at slash rel of None \<Rightarrow> (rel, '''') | Some p \<Rightarrow> p))"
    using assms(3) rel by (simp add: reanchor_scoped_def split: option.splits if_splits prod.splits)
  ultimately show ?thesis by blast
qed

lemma run_dir_cases:
  assumes "path_is_abs dd" "is_valid_chat_id chat"
  obtains (own) ns sub where "ns_ok ns" "down sub" "normalize_session_run_dir dd rd chat = join_scoped_base dd ns chat sub"
  | (plain) "normalize_session_run_dir dd rd chat = path_clean rd"
      "reanchor_scoped dd (path_clean rd) ''tmp'' chat = None" "reanchor_scoped dd (path_clean rd) ''session'' chat = None"
proof -
  have chat: "chat \<noteq> ''''" using assms(2) by (simp add: is_valid_chat_id_def)
  have ok: "ns_ok ''tmp''" "ns_ok ''session''" by (simp_all add: ns_ok_def)
  have base: "join_scoped_base dd ''tmp'' chat '''' = scoped_base_dir dd ''tmp'' chat"
    by (simp add: join_scoped_base_def path_clean_down)
  show thesis
  proof (cases "rd = ''''")
    case True
    with own [of "''tmp''" "''''"] ok chat base show ?thesis by (simp add: normalize_session_run_dir_def)
  next
    case False
    show ?thesis
    proof (cases "session_scoped (path_clean rd) chat ''tmp''")
      case (Some sub)
      with own [OF ok(1) session_scoped_down [OF ok(1) Some]] False chat show ?thesis
        by (simp add: normalize_session_run_dir_def)
    next
      case t: None
      show ?thesis
      proof (cases "explicit_scoped (path_clean rd) chat ''session''")
        case (Some sub)
        with own [OF ok(2) explicit_down [OF ok(2) Some]] False chat t show ?thesis
          by (simp add: normalize_session_run_dir_def)
      next
        case e: None
        show ?thesis
        proof (cases "relative_scoped_narrow (path_clean rd) chat ''session''")
          case (Some sub)
          with own [OF ok(2) narrow_down [OF ok(2) Some]] False chat t e show ?thesis
            by (simp add: normalize_session_run_dir_def)
        next
          case n: None
          note eq = normalize_session_run_dir_def [of dd rd chat]
          show ?thesis
          proof (cases "reanchor_scoped dd (path_clean rd) ''tmp'' chat")
            case (Some r)
            with own [OF ok(1)] reanchor_own [OF assms Some] False chat t e n show ?thesis
              by (auto simp: eq)
          next
            case rt: None
            show ?thesis
            proof (cases "reanchor_scoped dd (path_clean rd) ''session'' chat")
              case (Some r)
              with own [OF ok(2)] reanchor_own [OF assms Some] False chat t e n rt show ?thesis
                by (auto simp: eq)
            next
              case None
              with plain False chat t e n rt show ?thesis by (simp add: eq)
            qed
          qed
        qed
      qed
    qed
  qed
qed

lemma reanchor_takes:
  assumes "path_is_abs dd" "is_valid_chat_id other" "inside (scoped_base_dir dd ns other) p"
  shows "reanchor_scoped dd (path_clean p) ns chat \<noteq> None"
proof -
  let ?root = "scoped_ns_host_root dd ns"
  note root = ns_root_comps [OF assms(1), of ns] and base = base_comps [OF assms(1,2), of ns]
  obtain ts where ts: "path_comps p = path_comps ?root @ other # ts" and abs: "path_is_abs p"
    using assms(3) base root by (auto simp: inside_def prefix_def)
  have ne: "path_clean ?root \<noteq> path_clean p" using ts by (simp add: path_clean_eq_iff)
  have pl: "list_all plain_comp (other # ts)"
    using path_comps_abs_plain [OF abs] ts by (auto simp: list_all_iff)
  let ?rel = "join_with slash (other # ts)"
  have rel: "path_rel ?root (path_clean p) = Some ?rel"
    using ne abs root(2) ts by (simp add: path_rel_def strip_common_append)
  have o: "plain_comp other" "slash \<notin> set other" using pl by (auto simp: plain_comp_def)
  have cut: "(case cut_at slash ?rel of None \<Rightarrow> (?rel, '''') | Some p \<Rightarrow> p) = (other, if ts = [] then '''' else join_with slash ts)"
  proof (cases "ts = []")
    case True
    with o show ?thesis by (simp add: cut_at_None [THEN iffD2])
  next
    case False
    have "takeWhile (\<lambda>x. x \<noteq> slash) (other @ slash # u) = other \<and> dropWhile (\<lambda>x. x \<noteq> slash) (other @ slash # u) = slash # u" for u
      using o(2) by (induction other) auto
    then have "cut_at slash (other @ slash # u) = Some (other, u)" for u by (simp add: cut_at_def)
    with False show ?thesis by (simp add: join_with_Cons)
  qed
  have hd: "hd (split_on slash ?rel) = other" using pl by (simp add: split_join_plain)
  have "?rel \<noteq> ''.''" "?rel \<noteq> ''..''" using hd o(1) by auto
  moreover have "cut_prefix ''../'' ?rel = None"
  proof (rule ccontr)
    assume "cut_prefix ''../'' ?rel \<noteq> None"
    then obtain u where "?rel = ''..'' @ slash # u" by (auto simp: cut_prefix_split)
    then have "hd (split_on slash ?rel) = ''..''" by (simp only: split_on_append_sep) simp
    with hd have "other = ''..''" by simp
    with o(1) show False by (simp only: plain_comp_dots)
  qed
  ultimately show ?thesis using rel cut assms(2) by (simp add: reanchor_scoped_def is_session_token_def)
qed

text \<open>
  C36. Normalizing a stored run directory for a chat never yields a directory that is, or lies in,
  another chat's temporary or session directory: such a path is moved into the chat's own.
\<close>

theorem run_dir_never_foreign:
  assumes "path_is_abs dd" "is_valid_chat_id chat" "is_valid_chat_id other" "other \<noteq> chat" "ns_ok ns"
  shows "\<not> inside (scoped_base_dir dd ns other) (normalize_session_run_dir dd rd chat)"
proof -
  consider (own) ns' sub where "ns_ok ns'" "down sub" "normalize_session_run_dir dd rd chat = join_scoped_base dd ns' chat sub"
    | (plain) "normalize_session_run_dir dd rd chat = path_clean rd"
      "reanchor_scoped dd (path_clean rd) ''tmp'' chat = None" "reanchor_scoped dd (path_clean rd) ''session'' chat = None"
    by (rule run_dir_cases [OF assms(1,2)])
  then show ?thesis
proof cases
  case own
  note b = base_comps(1) [OF assms(1,3), of ns] and j = join_scoped_base_comps(1) [OF assms(1,2) own(2), of ns']
  show ?thesis using assms(4) by (simp add: own(3) inside_def b j)
next
  case plain
  show ?thesis
  proof
    assume "inside (scoped_base_dir dd ns other) (normalize_session_run_dir dd rd chat)"
    then have "inside (scoped_base_dir dd ns other) rd" by (simp add: plain(1) inside_def)
    then have "reanchor_scoped dd (path_clean rd) ns chat \<noteq> None" by (rule reanchor_takes [OF assms(1,3)])
    with plain(2,3) assms(5) show False by (auto simp: ns_ok_def)
  qed
qed
qed

section \<open>What a resolution grants\<close>

text \<open>The directory a result was granted in, and the path that the authorized name stands for.\<close>

definition granted_root :: "string \<Rightarrow> string \<Rightarrow> string \<Rightarrow> string \<Rightarrow> string" where
  "granted_root dd run_dir chat ns = (if ns = '''' then path_clean run_dir else scoped_base_dir dd ns chat)"

definition auth_location :: "string \<Rightarrow> string \<Rightarrow> string \<Rightarrow> string \<Rightarrow> string \<Rightarrow> string" where
  "auth_location dd run_dir chat ns auth =
     (if ns = '''' then (if path_is_abs auth then auth else path_join [path_clean run_dir, auth])
      else path_join [scoped_base_dir dd ns chat, drop (length ns + 2) auth])"

lemma auth_location_ns: "ns \<noteq> '''' \<Longrightarrow> auth_location dd rd chat ns (ns_path ns sub) = path_join [scoped_base_dir dd ns chat, sub]"
  by (simp add: auth_location_def ns_path_def)

text \<open>Both outcomes of a namespaced request, and the one of any other.\<close>

inductive grants :: "file_system \<Rightarrow> string \<Rightarrow> string \<Rightarrow> string \<Rightarrow> string \<Rightarrow> resolved \<Rightarrow> bool"
  for fs dd run_dir chat clean where
  grants_ns: "ns_ok ns \<Longrightarrow> down sub \<Longrightarrow>
     checked fs (scoped_base_dir dd ns chat) (eval_or fs (scoped_base_dir dd ns chat)) EscapesTmp r = Inr r \<Longrightarrow>
     r = Resolved (path_join [scoped_base_dir dd ns chat, sub]) ns (ns_path ns sub) \<Longrightarrow>
     grants fs dd run_dir chat clean r"
| grants_ws: "r = Resolved (if path_is_abs clean then clean else path_join [path_clean run_dir, clean]) '''' clean \<Longrightarrow>
     \<not> escapes (path_clean run_dir) (rs_target r) \<Longrightarrow>
     links_escape fs (eval_or fs (path_clean run_dir)) (rs_target r) \<longrightarrow> \<not> stat_ok fs (rs_target r) \<Longrightarrow>
     grants fs dd run_dir chat clean r"

lemma relative_scoped_rel:
  assumes "ns_ok ns" "relative_scoped_prefixed clean chat ns = Some s"
  shows "\<not> path_is_abs clean"
proof -
  have "\<exists>t. clean = ns @ t"
    using assms(2) by (auto simp: relative_scoped_prefixed_def relative_scoped_narrow_def token_form_def cut_prefix_split
        split: option.splits if_splits)
  with assms(1) show ?thesis by (auto simp: ns_ok_def path_is_abs_def)
qed

lemma checked_Inr: "checked fs base eb e r = Inr r' \<longleftrightarrow> r' = r \<and> \<not> escapes base (rs_target r) \<and> \<not> links_escape fs eb (rs_target r)"
  by (auto simp: checked_def)

lemma namespaced_grants:
  assumes "ns_ok ns" "resolve_namespaced fs dd ns rd req scope chat = Some (Inr r)"
  shows "grants fs dd rd chat (path_clean req) r"
proof (cases "resolve_session_scoped (path_clean req) chat ns")
  case (Some sub)
  then have "down sub" by (rule resolve_scoped_down [OF assms(1)])
  with Some assms show ?thesis
    by (intro grants_ns [of ns sub]) (simp_all add: resolve_namespaced_def Let_def checked_Inr)
next
  case None
  then obtain s where s: "relative_scoped_prefixed (path_clean req) chat ns = Some s"
    using assms(2) by (auto simp: resolve_namespaced_def Let_def split: option.splits)
  note d = relative_down [OF assms(1) s] and rel = relative_scoped_rel [OF assms(1) s]
  let ?ws = "Resolved (path_join [path_clean rd, path_clean req]) '''' (path_clean req)"
  let ?ns = "Resolved (path_join [scoped_base_dir dd ns chat, s]) ns (ns_path ns s)"
  have "(checked fs (scoped_base_dir dd ns chat) (eval_or fs (scoped_base_dir dd ns chat)) EscapesTmp ?ns = Inr r)
    \<or> (r = ?ws \<and> \<not> escapes (path_clean rd) (rs_target r) \<and>
       (links_escape fs (eval_or fs (path_clean rd)) (rs_target r) \<longrightarrow> \<not> stat_ok fs (rs_target r)))"
    using assms(2) None s d by (auto simp: resolve_namespaced_def Let_def checked_Inr split: if_splits)
  then show ?thesis
  proof
    assume a: "checked fs (scoped_base_dir dd ns chat) (eval_or fs (scoped_base_dir dd ns chat)) EscapesTmp ?ns = Inr r"
    then have "r = ?ns" by (simp add: checked_Inr)
    with a show ?thesis by (intro grants_ns [OF assms(1) d]) simp_all
  next
    assume "r = ?ws \<and> \<not> escapes (path_clean rd) (rs_target r) \<and>
       (links_escape fs (eval_or fs (path_clean rd)) (rs_target r) \<longrightarrow> \<not> stat_ok fs (rs_target r))"
    with rel show ?thesis by (intro grants_ws) auto
  qed
qed

lemma resolve_grants:
  assumes "resolve_and_validate fs dd rd req scope chat = Inr r"
  shows "grants fs dd rd chat (path_clean req) r"
proof (cases "find_map (\<lambda>ns. resolve_namespaced fs dd ns rd req scope chat) [''tmp'', ''session'']")
  case (Some x)
  with assms have "x = Inr r" by (simp add: resolve_and_validate_def)
  with Some obtain ns where "ns \<in> set [''tmp'', ''session'']" "resolve_namespaced fs dd ns rd req scope chat = Some (Inr r)"
    using find_map_Some [OF Some] by auto
  then show ?thesis by (intro namespaced_grants [of ns]) (auto simp: ns_ok_def)
next
  case None
  then have "checked fs (path_clean rd) (eval_or fs (path_clean rd)) EscapesWorkspace
    (Resolved (if path_is_abs (path_clean req) then path_clean req else path_join [path_clean rd, path_clean req]) '''' (path_clean req)) = Inr r"
    using assms by (simp only: resolve_and_validate_def option.case Let_def)
  then show ?thesis by (intro grants_ws) (simp_all only: checked_Inr simp_thms)
qed

lemma ns_candidates_None: "ns_candidates (path_clean req) scope chat ns = None \<longleftrightarrow> resolve_namespaced fs dd ns rd req scope chat = None"
  by (simp add: ns_candidates_def resolve_namespaced_def Let_def split: option.splits)

lemma candidate_path_down: "down s \<Longrightarrow> candidate_path ns s = ns_path ns s"
  by (simp add: candidate_path_def ns_path_def Let_def path_clean_down down_not_dot)

lemma ns_candidates_cover:
  assumes "ns_ok ns" "resolve_namespaced fs dd ns rd req scope chat = Some (Inr r)"
  shows "\<exists>cs. ns_candidates (path_clean req) scope chat ns = Some cs \<and> (rs_ns r, rs_auth r) \<in> set cs"
proof (cases "resolve_session_scoped (path_clean req) chat ns")
  case (Some sub)
  with resolve_scoped_down [OF assms(1) Some] assms(2) show ?thesis
    by (simp add: ns_candidates_def resolve_namespaced_def Let_def checked_Inr candidate_path_down)
next
  case None
  then obtain s where s: "relative_scoped_prefixed (path_clean req) chat ns = Some s"
    using assms(2) by (auto simp: resolve_namespaced_def Let_def split: option.splits)
  with relative_down [OF assms(1) s] None assms(2) show ?thesis
    by (auto simp: ns_candidates_def resolve_namespaced_def Let_def checked_Inr candidate_path_down split: if_splits)
qed

lemma candidates_cover:
  assumes "resolve_and_validate fs dd rd req scope chat = Inr r"
  shows "(rs_ns r, rs_auth r) \<in> set (auth_candidates req scope chat)"
proof -
  let ?R = "\<lambda>ns. resolve_namespaced fs dd ns rd req scope chat" and ?C = "ns_candidates (path_clean req) scope chat"
  note N = ns_candidates_None [of req scope chat _ fs dd rd]
  have ok: "ns_ok ''tmp''" "ns_ok ''session''" by (simp_all add: ns_ok_def)
  show ?thesis
  proof (cases "?R ''tmp''")
    case (Some x)
    with assms have "?R ''tmp'' = Some (Inr r)" by (simp add: resolve_and_validate_def)
    from ns_candidates_cover [OF ok(1) this] show ?thesis by (auto simp: auth_candidates_def)
  next
    case t: None
    show ?thesis
    proof (cases "?R ''session''")
      case (Some x)
      with t assms have "?R ''session'' = Some (Inr r)" by (simp add: resolve_and_validate_def)
      from ns_candidates_cover [OF ok(2) this] t N [of "''tmp''"] show ?thesis by (auto simp: auth_candidates_def)
    next
      case None
      with t N [of "''tmp''"] N [of "''session''"] have "?C ''tmp'' = None" "?C ''session'' = None" by auto
      moreover have "rs_ns r = '''' \<and> rs_auth r = path_clean req"
        using t None assms by (simp add: resolve_and_validate_def Let_def checked_Inr)
      ultimately show ?thesis by (simp add: auth_candidates_def)
    qed
  qed
qed

text \<open>
  C35. Whatever a resolution grants lies beneath the directory it is granted in (the run directory, or
  the chat's own directory of the namespace), and so does the file it leads to when symbolic links
  are followed, provided that a path whose links resolve exists.
\<close>

theorem granted_target_confined:
  assumes "resolve_and_validate fs dd rd req scope chat = Inr r"
    and "\<forall>p t. eval_symlinks fs p = Some t \<longrightarrow> stat_ok fs p"
  shows "inside (granted_root dd rd chat (rs_ns r)) (rs_target r) \<and>
    (\<forall>t. eval_symlinks fs (rs_target r) = Some t \<longrightarrow> inside (eval_or fs (granted_root dd rd chat (rs_ns r))) t)"
  using resolve_grants [OF assms(1)]
proof cases
  case (grants_ns ns sub)
  then show ?thesis
    by (auto simp: checked_Inr granted_root_def ns_ok_def links_escape_def intro!: not_escapes_inside)
next
  case grants_ws
  with assms(2) show ?thesis
    by (auto simp: granted_root_def links_escape_def intro!: not_escapes_inside)
qed

text \<open>
  The backend authorizes before it asks the runner, and nothing else is opened: the namespace and
  path of every result are among the candidates it computes without the file system, and the target
  is the one file that the authorized name stands for.
\<close>

lemma candidates_cover_resolution:
  assumes "resolve_and_validate fs dd rd req scope chat = Inr r"
  shows "(rs_ns r, rs_auth r) \<in> set (auth_candidates req scope chat) \<and>
    rs_target r = auth_location dd rd chat (rs_ns r) (rs_auth r)"
  using resolve_grants [OF assms]
proof cases
  case (grants_ns ns sub)
  moreover have "ns \<noteq> ''''" using grants_ns(1) by (auto simp: ns_ok_def)
  ultimately show ?thesis using candidates_cover [OF assms] by (simp add: auth_location_ns)
next
  case grants_ws
  then show ?thesis using candidates_cover [OF assms] by (simp add: auth_location_def)
qed

end
