(* ===== verification/ChatAccess.thy ===== *)
theory ChatAccess
  imports ChatPathProps
begin

text \<open>
  Access to the files of a chat: \<open>backend/lib/runnerfs/local.go\<close> opens a request beneath one of the
  directories the runner allows, \<open>api/file_handler.go\<close> serves a file only when the session's
  artifacts name it. An open directory is the root it was opened at and the path below it; what the
  kernel answers (opening directories and files, globbing, \<open>stat\<close>) is the record \<open>host\<close>.
\<close>

section \<open>Errors and the host\<close>

datatype fs_code = CodeInternal | CodeNotFound | CodeDenied | CodeBadRequest | CodeTooLarge | CodeIsDir
  | CodeUnavailable

datatype fd = Fd (fd_root: string) (fd_rel: string)

text \<open>
  \<open>open_dir\<close> is \<open>openRoot\<close>, \<open>open_strict\<close> the kernel's part of \<open>openRootStrict\<close>, \<open>open_below\<close> the kernel's part of
  \<open>openBeneath\<close> for a directory, \<open>open_file\<close> that of \<open>openRegular\<close> with size and binary probe.
\<close>

record host = file_system +
  ho_getwd :: "string option"
  ho_glob_dirs :: "string \<Rightarrow> string list option"
  ho_mkdir_all :: "string \<Rightarrow> bool"
  ho_open_dir :: "string \<Rightarrow> fs_code option"
  ho_open_strict :: "string \<Rightarrow> fs_code option"
  ho_open_below :: "fd \<Rightarrow> string \<Rightarrow> fs_code option"
  ho_open_file :: "fd \<Rightarrow> string \<Rightarrow> fs_code + (int \<times> bool)"
  ho_match :: "string \<Rightarrow> string \<Rightarrow> bool"

record local_fs =
  lo_data :: string
  lo_chat :: string
  lo_allowed :: "(bool \<Rightarrow> string list) option"

section \<open>Roots\<close>

definition has_glob :: "string \<Rightarrow> bool" where
  "has_glob d \<longleftrightarrow> list_ex (\<lambda>c. c \<in> {CHR ''*'', CHR ''?'', CHR ''[''}) d"

text \<open>The directories that \<open>Glob\<close> and \<open>Lstat\<close> leave of a pattern; a bad pattern has none.\<close>

definition glob_matches :: "host \<Rightarrow> string \<Rightarrow> string list" where
  "glob_matches h d = (case ho_glob_dirs h d of None \<Rightarrow> [] | Some ms \<Rightarrow> map path_clean ms)"

definition expand_allowed_roots :: "host \<Rightarrow> string list \<Rightarrow> string list" where
  "expand_allowed_roots h ds =
     foldl (\<lambda>acc r. if r \<in> set acc then acc else acc @ [r]) []
       (concat (map (\<lambda>d. if \<not> path_is_abs d then [] else if has_glob d then glob_matches h d else [path_clean d]) ds))"

definition base_of :: "local_fs \<Rightarrow> string \<Rightarrow> string" where
  "base_of l ns = scoped_base_dir (lo_data l) ns (lo_chat l)"

definition roots_of :: "host \<Rightarrow> local_fs \<Rightarrow> bool \<Rightarrow> string list" where
  "roots_of h l wr =
     [base_of l ''tmp'', base_of l ''session''] @
     (case lo_allowed l of None \<Rightarrow> [] | Some f \<Rightarrow> expand_allowed_roots h (f wr))"

definition lexical_rel :: "string \<Rightarrow> string \<Rightarrow> string option" where
  "lexical_rel root target =
     (case path_rel root target of None \<Rightarrow> None
      | Some r \<Rightarrow> if r = ''..'' \<or> cut_prefix ''../'' r \<noteq> None then None else Some r)"

section \<open>Opening directories\<close>

definition open_root_strict :: "host \<Rightarrow> string \<Rightarrow> fs_code option" where
  "open_root_strict h root =
     (let r = path_clean root
      in if \<not> path_is_abs r then Some CodeBadRequest else if r = ''/'' then None else ho_open_strict h r)"

definition root_fd :: "host \<Rightarrow> local_fs \<Rightarrow> string \<Rightarrow> fs_code + fd" where
  "root_fd h l root =
     (case (if lo_allowed l = None then ho_open_dir h root else open_root_strict h root) of
        Some e \<Rightarrow> Inl e | None \<Rightarrow> Inr (Fd root ''.''))"

text \<open>\<open>openBeneath\<close> refuses a path that is not below; the rest is the kernel's.\<close>

definition bad_rel :: "string \<Rightarrow> bool" where
  "bad_rel rel \<longleftrightarrow> rel = '''' \<or> path_is_abs rel \<or> rel = ''..'' \<or> cut_prefix ''../'' rel \<noteq> None"

definition open_beneath_dir :: "host \<Rightarrow> fd \<Rightarrow> string \<Rightarrow> fs_code option" where
  "open_beneath_dir h d rel =
     (let r = path_clean rel in if bad_rel r then Some CodeDenied else ho_open_below h d r)"

fun try_roots :: "host \<Rightarrow> local_fs \<Rightarrow> string \<Rightarrow> bool \<Rightarrow> string list \<Rightarrow> fs_code + (fd \<times> string)" where
  "try_roots h l target dir [] = Inl CodeDenied"
| "try_roots h l target dir (root # rs) =
     (let rel = (case lexical_rel root target of Some r \<Rightarrow> r | None \<Rightarrow> '''')
      in case root_fd h l root of
           Inl e \<Rightarrow> if e = CodeNotFound then try_roots h l target dir rs else Inl e
         | Inr d \<Rightarrow>
             if \<not> dir then Inr (d, rel)
             else (case open_beneath_dir h d rel of Some e \<Rightarrow> Inl e | None \<Rightarrow> Inr (Fd root rel, ''.'')))"

definition open_beneath_roots :: "host \<Rightarrow> local_fs \<Rightarrow> string list \<Rightarrow> string \<Rightarrow> bool \<Rightarrow> fs_code + (fd \<times> string)" where
  "open_beneath_roots h l roots target dir =
     try_roots h l target dir (sort_key length (filter (\<lambda>r. lexical_rel r target \<noteq> None) roots))"

definition is_namespace_form :: "string \<Rightarrow> bool" where
  "is_namespace_form p \<longleftrightarrow>
     (let c = path_clean p
      in list_ex (\<lambda>ns. c = ns \<or> cut_prefix (ns @ ''/'') c \<noteq> None \<or> c = ''.'' @ ns
           \<or> cut_prefix (''.'' @ ns @ ''/'') c \<noteq> None) [''tmp'', ''session''])"

definition open_workspace :: "host \<Rightarrow> local_fs \<Rightarrow> string \<Rightarrow> bool \<Rightarrow> fs_code + (fd \<times> string)" where
  "open_workspace h l run_dir wr =
     (if lo_allowed l = None then
        (case (if run_dir = '''' then ho_getwd h
               else Some (normalize_session_run_dir (lo_data l) run_dir (lo_chat l))) of
           None \<Rightarrow> Inl CodeInternal
         | Some ws \<Rightarrow> (case ho_open_dir h ws of Some e \<Rightarrow> Inl e | None \<Rightarrow> Inr (Fd ws ''.'', ws)))
      else if run_dir = '''' then Inl CodeBadRequest
      else if \<not> path_is_abs run_dir \<and> \<not> is_namespace_form run_dir then Inl CodeBadRequest
      else let ws = normalize_session_run_dir (lo_data l) run_dir (lo_chat l) in
        if \<not> path_is_abs ws then Inl CodeBadRequest
        else (case open_beneath_roots h l (roots_of h l wr) ws True of
                Inl e \<Rightarrow> Inl e | Inr (d, _) \<Rightarrow> Inr (d, ws)))"

definition namespace_root :: "host \<Rightarrow> local_fs \<Rightarrow> string \<Rightarrow> bool \<Rightarrow> fs_code + fd" where
  "namespace_root h l ns create =
     (if create \<and> \<not> ho_mkdir_all h (base_of l ns) then Inl CodeInternal else root_fd h l (base_of l ns))"

section \<open>Resolving a request\<close>

text \<open>The root, the path below it and the path that is displayed.\<close>

datatype opened = Opened (op_fd: fd) (op_rel: string) (op_display: string)

definition explicit_sub :: "string \<Rightarrow> string \<Rightarrow> string \<Rightarrow> string" where
  "explicit_sub clean chat ns =
     (case resolve_session_scoped clean chat ns of Some s \<Rightarrow> s
      | None \<Rightarrow> (case relative_scoped_prefixed clean chat ns of Some s \<Rightarrow> s | None \<Rightarrow> ''''))"

definition resolve_workspace ::
  "host \<Rightarrow> local_fs \<Rightarrow> string \<Rightarrow> string \<Rightarrow> string \<Rightarrow> bool \<Rightarrow> bool \<Rightarrow> fs_code + opened" where
  "resolve_workspace h l req scope run_dir wr create =
     (case open_workspace h l run_dir wr of Inl e \<Rightarrow> Inl e
      | Inr (wsfd, ws) \<Rightarrow>
          (case resolve_and_validate (file_system.truncate h) (lo_data l) ws req scope (lo_chat l) of
             Inl _ \<Rightarrow> Inl CodeDenied
           | Inr r \<Rightarrow>
               if rs_ns r \<noteq> '''' then
                 (case lexical_rel (base_of l (rs_ns r)) (rs_target r) of
                    None \<Rightarrow> Inl CodeDenied
                  | Some rel \<Rightarrow> (case namespace_root h l (rs_ns r) create of
                        Inl e \<Rightarrow> Inl e | Inr d \<Rightarrow> Inr (Opened d rel (rs_auth r))))
               else (case lexical_rel ws (rs_target r) of
                       None \<Rightarrow> Inl CodeDenied | Some rel \<Rightarrow> Inr (Opened wsfd rel req))))"

definition resolve_path ::
  "host \<Rightarrow> local_fs \<Rightarrow> string \<Rightarrow> string \<Rightarrow> string \<Rightarrow> bool \<Rightarrow> bool \<Rightarrow> fs_code + opened" where
  "resolve_path h l req scope run_dir wr create =
     (let cands = auth_candidates req scope (lo_chat l); clean = path_clean req;
          ns = fst (hd cands)
      in if length cands = 1 \<and> ns \<noteq> '''' then
           (case namespace_root h l ns create of Inl e \<Rightarrow> Inl e
            | Inr d \<Rightarrow> Inr (Opened d (path_join [''.'', explicit_sub clean (lo_chat l) ns]) (snd (hd cands))))
         else if path_is_abs clean \<and> scope \<noteq> ''tmp'' \<and> scope \<noteq> ''session'' then
           (case open_beneath_roots h l (roots_of h l wr) clean False of Inl e \<Rightarrow> Inl e
            | Inr (d, rel) \<Rightarrow> Inr (Opened d rel clean))
         else resolve_workspace h l req scope run_dir wr create)"

definition check_chat :: "local_fs \<Rightarrow> fs_code option" where
  "check_chat l = (if is_valid_chat_id (lo_chat l) then None else Some CodeBadRequest)"

text \<open>The resolution of \<open>Stat\<close>, \<open>WriteFile\<close>, \<open>AppendFile\<close> and \<open>Remove\<close>.\<close>

definition resolve_ref ::
  "host \<Rightarrow> local_fs \<Rightarrow> string \<Rightarrow> string \<Rightarrow> string \<Rightarrow> bool \<Rightarrow> bool \<Rightarrow> fs_code + (fd \<times> string)" where
  "resolve_ref h l path scope run_dir create wr =
     (case check_chat l of Some e \<Rightarrow> Inl e
      | None \<Rightarrow>
          if path = '''' then Inl CodeBadRequest
          else if scope \<notin> {'''', ''workspace'', ''tmp'', ''session''} then Inl CodeBadRequest
          else (case resolve_path h l path scope run_dir wr create of Inl e \<Rightarrow> Inl e
                | Inr q \<Rightarrow> if op_rel q = ''.'' then Inl CodeBadRequest else Inr (op_fd q, op_rel q)))"

text \<open>\<open>Open\<close>: the opened file, its size and whether it is binary.\<close>

definition fs_open :: "host \<Rightarrow> local_fs \<Rightarrow> string \<Rightarrow> string \<Rightarrow> string \<Rightarrow> fs_code + (opened \<times> int \<times> bool)" where
  "fs_open h l path scope run_dir =
     (case check_chat l of Some e \<Rightarrow> Inl e
      | None \<Rightarrow>
          (case resolve_path h l path scope run_dir False False of Inl e \<Rightarrow> Inl e
           | Inr q \<Rightarrow>
               if bad_rel (path_clean (op_rel q)) then Inl CodeDenied
               else (case ho_open_file h (op_fd q) (path_clean (op_rel q)) of
                       Inl e \<Rightarrow> Inl e | Inr (sz, bin) \<Rightarrow> Inr (q, sz, bin))))"

section \<open>Serving a file\<close>

definition header_namespace :: "string \<Rightarrow> string" where
  "header_namespace p =
     (case find (\<lambda>ns. p = ''/'' @ ns \<or> length p > length ns + 2 \<and> take (length ns + 2) p = ''/'' @ ns @ ''/'')
        [''tmp'', ''session''] of Some ns \<Rightarrow> ns | None \<Rightarrow> '''')"

text \<open>What one entry of the session's artifacts authorizes.\<close>

definition entry_authorizes :: "string \<Rightarrow> string \<Rightarrow> string \<Rightarrow> string \<Rightarrow> string \<Rightarrow> bool" where
  "entry_authorizes auth run_dir chat ns allowed =
     (let ca = path_clean auth; cr = (if run_dir = '''' then '''' else path_clean run_dir);
          c = path_clean allowed;
          absolute = (\<lambda>p. if path_is_abs p then p else if cr \<noteq> '''' then path_clean (path_join [cr, p]) else '''')
      in if allowed = '''' then False
         else if ns \<noteq> '''' then
           normalize_scoped_for_auth c chat ns = Some ca \<or>
           (case relative_scoped_prefixed c chat ns of None \<Rightarrow> False
            | Some sub \<Rightarrow> ca = (if sub \<noteq> '''' \<and> sub \<noteq> ''.'' then ''/'' @ ns @ ''/'' @ sub else ''/'' @ ns))
         else ca = c \<or> absolute ca \<noteq> '''' \<and> absolute c \<noteq> '''' \<and> absolute ca = absolute c)"

definition is_path_authorized :: "string \<Rightarrow> string list \<Rightarrow> string \<Rightarrow> string \<Rightarrow> string \<Rightarrow> bool" where
  "is_path_authorized auth files run_dir chat ns = list_ex (entry_authorizes auth run_dir chat ns) files"

definition match_glob_or_subdir :: "host \<Rightarrow> string \<Rightarrow> string \<Rightarrow> bool" where
  "match_glob_or_subdir h pattern path =
     (let ps = split_on slash (path_clean pattern); qs = split_on slash (path_clean path)
      in length ps \<le> length qs \<and> list_all (\<lambda>(p, q). ho_match h p q) (zip ps qs))"

definition is_allowed_dir :: "host \<Rightarrow> string \<Rightarrow> string \<Rightarrow> string list \<Rightarrow> bool" where
  "is_allowed_dir h dd path dirs =
     (let p = path_clean path;
          beneath = (\<lambda>d. p = d \<or> cut_prefix (d @ ''/'') p \<noteq> None)
      in list_ex (\<lambda>dir. let d = path_clean dir in
           if has_glob d then match_glob_or_subdir h d p
           else beneath d \<or> (d = ''/tmp'' \<or> d = ''tmp'') \<and> beneath (tmp_dir dd)
             \<or> (d = ''/session'' \<or> d = ''session'') \<and> beneath (sessions_dir dd)) dirs)"

definition str_contains :: "string \<Rightarrow> string \<Rightarrow> bool" where
  "str_contains s p \<longleftrightarrow> list_ex (\<lambda>t. cut_prefix p t \<noteq> None) (suffixes s)"

definition has_suffix :: "string \<Rightarrow> string \<Rightarrow> bool" where
  "has_suffix s p \<longleftrightarrow> cut_prefix (rev p) (rev s) \<noteq> None"

text \<open>
  The check of a stored run directory, its HTTP status or None; \<open>agent_dirs\<close> are the directories of the
  session's agents, None when they are not known.
\<close>

definition check_workspace_run_dir ::
  "host \<Rightarrow> string \<Rightarrow> bool \<Rightarrow> string list option \<Rightarrow> string \<Rightarrow> string \<Rightarrow> nat option" where
  "check_workspace_run_dir h dd client agent_dirs chat run_dir =
     (if \<not> client then None
      else if run_dir = '''' then Some 400
      else if ''..'' \<in> set (split_on slash run_dir) then Some 403
      else let clean = normalize_session_run_dir dd run_dir chat in
        if \<not> path_is_abs clean then Some 403
        else if list_ex (\<lambda>pre. has_suffix clean pre \<or> str_contains clean (pre @ ''/''))
            [''/session-data/tmp/'' @ chat, ''/asgard/data/tmp/'' @ chat,
             ''/session-data/sessions/'' @ chat, ''/asgard/data/sessions/'' @ chat] then None
        else (case agent_dirs of None \<Rightarrow> Some 403
              | Some dirs \<Rightarrow> if is_allowed_dir h dd clean dirs then None else Some 403))"

definition fs_error_status :: "fs_code \<Rightarrow> nat" where
  "fs_error_status c = (case c of CodeNotFound \<Rightarrow> 404 | CodeDenied \<Rightarrow> 403 | CodeBadRequest \<Rightarrow> 400
     | CodeIsDir \<Rightarrow> 400 | CodeTooLarge \<Rightarrow> 413 | CodeUnavailable \<Rightarrow> 503 | CodeInternal \<Rightarrow> 500)"

datatype response = HttpError nat | ServeRaw opened | ServeContent opened bool

text \<open>
  \<open>handleWorkspaceFile\<close>: \<open>auth\<close> is the answer of \<open>authorizeSession\<close> (the run directory and artifacts of
  the session, None without a repository), \<open>chat_fs\<close> that of \<open>chatFS\<close>.
\<close>

record request =
  rq_session :: string
  rq_path :: string
  rq_scope :: string
  rq_raw :: bool

definition workspace_run_dir_error ::
  "host \<Rightarrow> string \<Rightarrow> bool \<Rightarrow> string list option \<Rightarrow> string \<Rightarrow> string \<Rightarrow> (string \<times> string) list \<Rightarrow> nat option" where
  "workspace_run_dir_error h dd client agent_dirs chat stored cands =
     (if list_ex (\<lambda>c. fst c = '''') cands \<and> \<not> (stored = '''' \<and> length cands > 1)
      then check_workspace_run_dir h dd client agent_dirs chat stored else None)"

definition handle_workspace_file ::
  "host \<Rightarrow> string \<Rightarrow> bool \<Rightarrow> string list option \<Rightarrow> nat + (string \<times> string list) option \<Rightarrow>
   fs_code + local_fs \<Rightarrow> request \<Rightarrow> response" where
  "handle_workspace_file h dd client agent_dirs auth chat_fs rq =
     (let sid = rq_session rq; path = rq_path rq; scope = rq_scope rq
      in if sid = '''' \<or> path = '''' then HttpError 400
      else if \<not> is_valid_chat_id sid then HttpError 400
      else case auth of Inl code \<Rightarrow> HttpError code
      | Inr sess \<Rightarrow> (case chat_fs of Inl e \<Rightarrow> HttpError (fs_error_status e)
        | Inr l \<Rightarrow>
            let stored = (case sess of None \<Rightarrow> '''' | Some s \<Rightarrow> fst s);
                files = (case sess of None \<Rightarrow> [] | Some s \<Rightarrow> snd s);
                auth_dir = (if stored = '''' then '''' else normalize_session_run_dir dd stored sid);
                cands = auth_candidates path scope sid
            in (case workspace_run_dir_error h dd client agent_dirs sid stored cands of
                 Some code \<Rightarrow> HttpError code
               | None \<Rightarrow>
                   if \<not> list_ex (\<lambda>(ns, p). is_path_authorized p files auth_dir sid ns) cands then HttpError 403
                   else (case fs_open h l path scope stored of Inl e \<Rightarrow> HttpError (fs_error_status e)
                     | Inr (q, sz, bin) \<Rightarrow>
                         if \<not> is_path_authorized (op_display q) files auth_dir sid (header_namespace (op_display q))
                         then HttpError 403
                         else if rq_raw rq then ServeRaw q
                         else if \<not> bin \<and> sz > 5 * 1024 * 1024 then HttpError 400
                         else ServeContent q bin))))"

end
