(* ===== verification/ChatAccessProps.thy ===== *)
theory ChatAccessProps
  imports ChatAccess
begin

text \<open>
  What access to a chat's files guarantees: everything that is opened lies beneath an allowed root,
  and a file that is served is one the session's artifacts name.
\<close>

section \<open>Relative paths that do not climb\<close>

definition below :: "string \<Rightarrow> bool" where
  "below s \<longleftrightarrow> down s \<or> s = ''.''"

lemma below_dot [simp]: "below ''.''"
  by (simp add: below_def)

lemma below_down [intro]: "down s \<Longrightarrow> below s"
  by (simp add: below_def)

lemma comps_dot [simp]: "path_comps ''.'' = []" "path_comps '''' = []"
  by (simp_all add: path_comps_def clean_step_def)

lemma path_join_below:
  assumes "p \<noteq> ''''" "below s"
  shows "path_comps (path_join [p, s]) = path_comps p @ path_comps s" "path_is_abs (path_join [p, s]) = path_is_abs p"
proof -
  have d: "path_comps (p @ slash # ''.'') = path_comps p"
    using assms(1) by (simp add: path_comps_def split_on_append_sep path_is_abs_append clean_step_def)
  then have "path_comps (path_join [p, ''.'']) = path_comps p" "path_is_abs (path_join [p, ''.'']) = path_is_abs p"
    using assms(1) by (simp_all add: path_join_def path_is_abs_append)
  then show "path_comps (path_join [p, s]) = path_comps p @ path_comps s" "path_is_abs (path_join [p, s]) = path_is_abs p"
    using assms(2) path_join_down [OF assms(1)] by (auto simp: below_def)
qed

lemma lexical_rel_below:
  assumes "lexical_rel root target = Some r" "path_is_abs target"
  shows "path_is_abs root \<and> below r \<and> path_comps target = path_comps root @ path_comps r"
proof (cases "path_clean root = path_clean target")
  case True
  then have "r = ''.''" using assms(1) by (simp add: lexical_rel_def path_rel_def split: if_splits)
  with True assms(2) show ?thesis by (simp add: path_clean_eq_iff)
next
  case False
  obtain bs ts where st: "strip_common (path_comps root) (path_comps target) = (bs, ts)" by fastforce
  have r: "path_is_abs root" "r = join_with slash (replicate (length bs) ''..'' @ ts)"
    "r \<noteq> ''..''" "cut_prefix ''../'' r = None"
    using False assms st by (auto simp: lexical_rel_def path_rel_def split: option.splits if_splits)
  have bs: "bs = []"
  proof (rule ccontr)
    assume "bs \<noteq> []"
    then obtain b bs' where "bs = b # bs'" by (cases bs) auto
    then have "r = ''..'' \<or> cut_prefix ''../'' r \<noteq> None"
      using r(2) by (cases "replicate (length bs') ''..'' @ ts") (auto simp: cut_prefix_def)
    with r(3,4) show False by simp
  qed
  have "list_all plain_comp (path_comps target)"
    using path_comps_abs_plain [OF assms(2)] by (simp add: list_all_iff)
  with strip_common_eq [OF st] bs have ts: "path_comps target = path_comps root @ ts" "list_all plain_comp ts" by auto
  with r(2) bs have "down r" "path_comps r = ts" by (auto simp: down_def path_comps_plain)
  with ts(1) r(1) show ?thesis by auto
qed

lemma path_join_clean: "path_join ps \<noteq> '''' \<Longrightarrow> path_clean (path_join ps) = path_join ps"
  by (simp add: path_join_def Let_def split: if_splits)

section \<open>What was opened\<close>

text \<open>The directory and the file that were opened, as absolute paths.\<close>

definition fd_path :: "fd \<Rightarrow> string" where
  "fd_path d = path_join [fd_root d, fd_rel d]"

definition opened_path :: "opened \<Rightarrow> string" where
  "opened_path q = path_join [fd_path (op_fd q), op_rel q]"

text \<open>\<open>target\<close> was opened as a path that does not climb below a directory below one of the roots.\<close>

definition opens :: "host \<Rightarrow> local_fs \<Rightarrow> string list \<Rightarrow> string \<Rightarrow> fd \<Rightarrow> string \<Rightarrow> bool" where
  "opens h l roots target d rel \<longleftrightarrow>
     fd_root d \<in> set roots \<and> path_is_abs (fd_root d) \<and> below (fd_rel d) \<and> below rel \<and>
     root_fd h l (fd_root d) = Inr (Fd (fd_root d) ''.'') \<and>
     path_comps target = path_comps (fd_root d) @ path_comps (fd_rel d) @ path_comps rel"

lemma root_fd_Inr: "root_fd h l root = Inr d \<Longrightarrow> d = Fd root ''.''"
  by (simp add: root_fd_def split: option.splits)

lemma opens_fd_path:
  "opens h l roots target d rel \<Longrightarrow> path_comps (fd_path d) = path_comps (fd_root d) @ path_comps (fd_rel d) \<and> path_is_abs (fd_path d)"
  by (auto simp: opens_def fd_path_def path_join_below abs_not_empty)

lemma opens_path:
  assumes "opens h l roots target (op_fd q) (op_rel q)"
  shows "path_comps (opened_path q) = path_comps target" "path_is_abs (opened_path q)"
  using opens_fd_path [OF assms] assms
  by (auto simp: opens_def opened_path_def path_join_below abs_not_empty)

lemma opens_inside: "opens h l roots target d rel \<Longrightarrow> path_is_abs target \<Longrightarrow> inside (fd_root d) target"
  by (auto simp: opens_def inside_def)

lemma try_roots_opens:
  assumes "try_roots h l target dir rs = Inr (d, rel)" "path_is_abs target" "\<forall>r \<in> set rs. lexical_rel r target \<noteq> None"
  shows "opens h l rs target d rel"
  using assms
proof (induction rs)
  case (Cons root rs)
  obtain r where r: "lexical_rel root target = Some r" using Cons.prems(3) by auto
  note b = lexical_rel_below [OF r Cons.prems(2)]
  show ?case
  proof (cases "root_fd h l root")
    case (Inl e)
    with Cons have "opens h l rs target d rel" by (auto split: if_splits)
    then show ?thesis by (auto simp: opens_def)
  next
    case (Inr d0)
    note d0 = root_fd_Inr [OF Inr]
    have "d = d0 \<and> rel = r \<or> d = Fd root r \<and> rel = ''.''"
      using Cons.prems(1) r Inr by (auto split: if_splits option.splits)
    with b Inr d0 show ?thesis by (auto simp: opens_def)
  qed
qed simp

lemma open_beneath_roots_opens:
  "open_beneath_roots h l roots target dir = Inr (d, rel) \<Longrightarrow> path_is_abs target \<Longrightarrow> opens h l roots target d rel"
  by (auto simp: open_beneath_roots_def opens_def dest!: try_roots_opens)

lemma open_workspace_opens:
  assumes "lo_allowed l \<noteq> None" "open_workspace h l run_dir wr = Inr (d, ws)"
  shows "opens h l (roots_of h l wr) ws d ''.'' \<and> path_is_abs ws \<and>
    ws = normalize_session_run_dir (lo_data l) run_dir (lo_chat l) \<and> run_dir \<noteq> ''''"
proof -
  let ?ws = "normalize_session_run_dir (lo_data l) run_dir (lo_chat l)"
  obtain rel where o: "open_beneath_roots h l (roots_of h l wr) ?ws True = Inr (d, rel)" "ws = ?ws" "path_is_abs ?ws" "run_dir \<noteq> ''''"
    using assms by (auto simp: open_workspace_def Let_def split: if_splits sum.splits)
  have "rel = ''.''"
  proof -
    have "try_roots h l t True rs = Inr (d, rel) \<Longrightarrow> rel = ''.''" for t rs
      by (induction rs) (auto split: if_splits sum.splits option.splits)
    with o(1) show ?thesis by (simp add: open_beneath_roots_def)
  qed
  with open_beneath_roots_opens [OF o(1,3)] o show ?thesis by simp
qed

lemma namespace_root_opens:
  assumes "namespace_root h l ns create = Inr d" "path_is_abs (lo_data l)" "is_valid_chat_id (lo_chat l)" "ns_ok ns" "below sub"
  shows "opens h l (roots_of h l wr) (path_join [base_of l ns, sub]) d sub"
proof -
  have r: "root_fd h l (base_of l ns) = Inr d" using assms(1) by (simp add: namespace_root_def split: if_splits)
  note b = base_comps [OF assms(2,3), of ns]
  have "base_of l ns \<in> set (roots_of h l wr)" using assms(4) by (auto simp: roots_of_def ns_ok_def)
  with r root_fd_Inr [OF r] b assms(5) show ?thesis
    by (auto simp: opens_def base_of_def path_join_below abs_not_empty)
qed

section \<open>A resolved request\<close>

text \<open>Which file a displayed path stands for: one of a namespace, or one of the workspace.\<close>

definition names_file :: "local_fs \<Rightarrow> string \<Rightarrow> string \<Rightarrow> string \<Rightarrow> string \<Rightarrow> bool" where
  "names_file l run_dir req display target \<longleftrightarrow>
     (\<exists>ns sub. ns_ok ns \<and> down sub \<and> display = ns_path ns sub \<and> target = path_join [base_of l ns, sub]) \<or>
     (path_clean display = path_clean req \<and> (\<forall>ns sub. ns_ok ns \<longrightarrow> path_clean req \<noteq> ns_path ns sub) \<and>
      target = (if path_is_abs (path_clean req) then path_clean req
        else path_join [path_clean (normalize_session_run_dir (lo_data l) run_dir (lo_chat l)), path_clean req]))"

lemma names_file_clean:
  assumes "names_file l rd req d t" "t \<noteq> ''''"
  shows "path_clean t = t"
  using assms(1) unfolding names_file_def
proof (elim disjE exE conjE)
  fix ns sub
  assume "t = path_join [base_of l ns, sub]"
  with assms(2) show ?thesis by (metis path_join_clean)
next
  assume t: "t = (if path_is_abs (path_clean req) then path_clean req
    else path_join [path_clean (normalize_session_run_dir (lo_data l) rd (lo_chat l)), path_clean req])"
  show ?thesis
  proof (cases "path_is_abs (path_clean req)")
    case True
    then have "t = path_clean req" using t by (simp only: if_True)
    then show ?thesis by (simp only: path_clean_idem)
  next
    case False
    with t have "t = path_join [path_clean (normalize_session_run_dir (lo_data l) rd (lo_chat l)), path_clean req]"
      by (simp only: if_False)
    with assms(2) show ?thesis by (metis path_join_clean)
  qed
qed

lemma path_clean_prints: "path_clean p = path_print (path_is_abs p) (path_comps p)"
  by (rule path_clean_def)

lemma dot_join_down: "down sub \<Longrightarrow> path_join [''.'', sub] = (if sub = '''' then ''.'' else sub)"
proof -
  assume d: "down sub"
  have "path_comps (path_join [''.'', sub]) = path_comps sub" "\<not> path_is_abs (path_join [''.'', sub])"
    using path_join_down [OF _ d, of "''.''"] by (simp_all add: path_is_abs_def)
  moreover have "path_clean (path_join [''.'', sub]) = path_join [''.'', sub]"
    by (simp add: path_join_def)
  ultimately have "path_join [''.'', sub] = path_clean sub"
    using d by (metis path_clean_prints down_not_abs)
  then show ?thesis by (simp add: path_clean_down [OF d])
qed

lemma abs_not_relative_form: "path_is_abs clean \<Longrightarrow> ns_ok ns \<Longrightarrow> relative_scoped_prefixed clean chat ns = None"
  using relative_scoped_rel by (cases "relative_scoped_prefixed clean chat ns") auto

lemma abs_candidates:
  assumes "path_is_abs clean" "ns_ok ns" "ns_candidates clean scope chat ns = Some cs"
  shows "length cs = 1 \<and> fst (hd cs) = ns"
  using assms abs_not_relative_form [OF assms(1,2)] by (auto simp: ns_candidates_def split: option.splits)

text \<open>A path that already has the canonical form has one candidate.\<close>

lemma canonical_single:
  assumes "ns_ok ns" "path_clean req = ns_path ns sub"
  shows "length (auth_candidates req scope chat) = 1 \<and> fst (hd (auth_candidates req scope chat)) \<noteq> ''''"
proof -
  let ?c = "path_clean req" and ?F = "find_map (ns_candidates (path_clean req) scope chat) [''tmp'', ''session'']"
  have abs: "path_is_abs ?c" using assms(2) by (simp add: ns_path_def path_is_abs_def del: path_is_abs_clean)
  have "resolve_session_scoped ?c chat ns \<noteq> None"
  proof (cases "sub = ''''")
    case True
    with assms(2) have "explicit_scoped ?c chat ns = Some ''''" by (simp add: ns_path_def explicit_scoped_def)
    then show ?thesis by (simp add: resolve_session_scoped_def)
  next
    case False
    with assms(2) have "cut_prefix (''/'' @ ns @ ''/'') ?c = Some sub" by (simp add: ns_path_def cut_prefix_split)
    then show ?thesis by (cases "explicit_scoped ?c chat ns") (simp_all add: resolve_session_scoped_def)
  qed
  then have "ns_candidates ?c scope chat ns \<noteq> None" by (auto simp: ns_candidates_def split: option.splits)
  with assms(1) have "?F \<noteq> None" unfolding find_map_None by (auto simp: ns_ok_def)
  then obtain cs where cs: "?F = Some cs" by auto
  then obtain ns' where "ns' \<in> set [''tmp'', ''session'']" "ns_candidates ?c scope chat ns' = Some cs"
    using find_map_Some [OF cs] by auto
  then have "length cs = 1 \<and> fst (hd cs) = ns'" "ns' \<noteq> ''''"
    using abs_candidates [OF abs, of ns'] by (auto simp: ns_ok_def)
  with cs show ?thesis by (simp add: auth_candidates_def)
qed

lemma single_candidate:
  assumes "length (auth_candidates req scope chat) = 1" "ns = fst (hd (auth_candidates req scope chat))" "ns \<noteq> ''''"
  shows "ns_ok ns \<and> down (explicit_sub (path_clean req) chat ns) \<and>
    snd (hd (auth_candidates req scope chat)) = ns_path ns (explicit_sub (path_clean req) chat ns)"
proof -
  let ?F = "find_map (ns_candidates (path_clean req) scope chat) [''tmp'', ''session'']"
  obtain cs where cs: "?F = Some cs" using assms(2,3) by (cases ?F) (auto simp: auth_candidates_def)
  then have eq: "auth_candidates req scope chat = cs" by (simp add: auth_candidates_def)
  obtain ns' where n: "ns' \<in> set [''tmp'', ''session'']" "ns_candidates (path_clean req) scope chat ns' = Some cs"
    using find_map_Some [OF cs] by auto
  then have ok: "ns_ok ns'" by (auto simp: ns_ok_def)
  have one: "length cs = 1" "fst (hd cs) \<noteq> ''''" using assms eq by simp_all
  have "down (explicit_sub (path_clean req) chat ns') \<and> cs = [(ns', ns_path ns' (explicit_sub (path_clean req) chat ns'))]"
  proof (cases "resolve_session_scoped (path_clean req) chat ns'")
    case (Some s)
    with n(2) resolve_scoped_down [OF ok Some] show ?thesis
      by (simp add: ns_candidates_def explicit_sub_def candidate_path_down)
  next
    case None
    then obtain s where s: "relative_scoped_prefixed (path_clean req) chat ns' = Some s"
      using n(2) by (auto simp: ns_candidates_def split: option.splits)
    with None n(2) one relative_down [OF ok s] show ?thesis
      by (auto simp: ns_candidates_def explicit_sub_def candidate_path_down split: if_splits)
  qed
  then show ?thesis using ok assms(2) eq by simp
qed

lemma opens_comps: "opens h l rs t d rel \<Longrightarrow> path_comps t = path_comps t' \<Longrightarrow> opens h l rs t' d rel"
  by (simp add: opens_def)

lemma resolve_workspace_opens:
  assumes "lo_allowed l \<noteq> None" "path_is_abs (lo_data l)" "is_valid_chat_id (lo_chat l)"
    and "\<forall>ns sub. ns_ok ns \<longrightarrow> path_clean req \<noteq> ns_path ns sub"
    and "resolve_workspace h l req scope run_dir wr create = Inr q"
  shows "\<exists>target. opens h l (roots_of h l wr) target (op_fd q) (op_rel q) \<and> path_is_abs target \<and>
    names_file l run_dir req (op_display q) target"
proof -
  obtain d ws r where w: "open_workspace h l run_dir wr = Inr (d, ws)"
    and r: "resolve_and_validate (file_system.truncate h) (lo_data l) ws req scope (lo_chat l) = Inr r"
    using assms(5) by (auto simp: resolve_workspace_def split: sum.splits)
  note ow = open_workspace_opens [OF assms(1) w]
  show ?thesis
  proof (cases "rs_ns r = ''''")
    case True
    then obtain rel where rel: "lexical_rel ws (rs_target r) = Some rel" "q = Opened d rel req"
      using assms(5) w r by (auto simp: resolve_workspace_def split: option.splits)
    have t: "rs_target r = (if path_is_abs (path_clean req) then path_clean req else path_join [path_clean ws, path_clean req])"
      using candidates_cover_resolution [OF r] resolve_grants [OF r] True
      by (auto simp: auth_location_def ns_ok_def elim!: grants.cases)
    have abs: "path_is_abs (rs_target r)"
    proof (cases "path_is_abs (path_clean req)")
      case False
      have "path_is_abs (path_join [path_clean ws, path_clean req])"
        using conjunct1 [OF conjunct2 [OF ow]] by (simp add: path_join_def path_is_abs_append)
      with False t show ?thesis by simp
    qed (simp add: t)
    from lexical_rel_below [OF rel(1) abs] ow rel(2)
    have "opens h l (roots_of h l wr) (rs_target r) (op_fd q) (op_rel q)" by (auto simp: opens_def)
    moreover have "names_file l run_dir req (op_display q) (rs_target r)"
      using assms(4) rel(2) t ow by (simp add: names_file_def)
    ultimately show ?thesis using abs by blast
  next
    case False
    from resolve_grants [OF r] False obtain ns sub where g: "ns_ok ns" "down sub"
      "r = Resolved (path_join [base_of l ns, sub]) ns (ns_path ns sub)"
      by (auto simp: base_of_def elim!: grants.cases)
    then obtain rel d' where rel: "lexical_rel (base_of l ns) (path_join [base_of l ns, sub]) = Some rel"
      "namespace_root h l ns create = Inr d'" "q = Opened d' rel (ns_path ns sub)"
      using assms(5) w r False by (auto simp: resolve_workspace_def split: option.splits sum.splits)
    note b = base_comps [OF assms(2,3), of ns]
    have j: "path_is_abs (path_join [base_of l ns, sub])" "path_comps (path_join [base_of l ns, sub]) = path_comps (base_of l ns) @ path_comps sub"
      using path_join_down [OF _ g(2), of "base_of l ns"] b by (auto simp: base_of_def abs_not_empty)
    note lb = lexical_rel_below [OF rel(1) j(1)]
    have "path_comps (path_join [base_of l ns, rel]) = path_comps (path_join [base_of l ns, sub])"
      using path_join_below(1) [of "base_of l ns" rel] lb b j by (auto simp: base_of_def abs_not_empty)
    then have "opens h l (roots_of h l wr) (path_join [base_of l ns, sub]) d' rel"
      using namespace_root_opens [OF rel(2) assms(2,3) g(1), of rel wr] lb opens_comps by blast
    with rel(3) j(1) g show ?thesis by (auto simp: names_file_def)
  qed
qed

lemma resolve_path_opens:
  assumes "lo_allowed l \<noteq> None" "path_is_abs (lo_data l)" "is_valid_chat_id (lo_chat l)"
    and "resolve_path h l req scope run_dir wr create = Inr q"
  shows "\<exists>target. opens h l (roots_of h l wr) target (op_fd q) (op_rel q) \<and> path_is_abs target \<and>
    names_file l run_dir req (op_display q) target"
proof -
  let ?cs = "auth_candidates req scope (lo_chat l)" and ?c = "path_clean req"
  let ?ns = "fst (hd ?cs)"
  show ?thesis
  proof (cases "length ?cs = 1 \<and> ?ns \<noteq> ''''")
    case True
    let ?sub = "explicit_sub ?c (lo_chat l) ?ns"
    note s = single_candidate [OF conjunct1 [OF True] refl conjunct2 [OF True]]
    obtain d where d: "namespace_root h l ?ns create = Inr d"
      "q = Opened d (path_join [''.'', ?sub]) (snd (hd ?cs))"
      using assms(4) True by (auto simp: resolve_path_def Let_def split: sum.splits)
    note b = base_comps [OF assms(2,3), of ?ns]
    have dj: "path_join [''.'', ?sub] = (if ?sub = '''' then ''.'' else ?sub)" using s by (simp add: dot_join_down)
    have bl: "below (path_join [''.'', ?sub])" using s dj by auto
    have j: "path_is_abs (path_join [base_of l ?ns, ?sub])"
      using path_join_down [of "base_of l ?ns" ?sub] s b by (auto simp: base_of_def abs_not_empty)
    have "path_comps (path_join [base_of l ?ns, path_join [''.'', ?sub]]) = path_comps (path_join [base_of l ?ns, ?sub])"
      using path_join_below(1) [OF _ bl, of "base_of l ?ns"] path_join_down(1) [of "base_of l ?ns" ?sub] s b dj
      by (auto simp: base_of_def abs_not_empty)
    then have "opens h l (roots_of h l wr) (path_join [base_of l ?ns, ?sub]) d (path_join [''.'', ?sub])"
      using namespace_root_opens [OF d(1) assms(2,3) _ bl] s opens_comps by blast
    with d(2) s j show ?thesis by (auto simp: names_file_def)
  next
    case False
    then have nc: "\<forall>ns sub. ns_ok ns \<longrightarrow> ?c \<noteq> ns_path ns sub" using canonical_single by blast
    show ?thesis
    proof (cases "path_is_abs ?c \<and> scope \<noteq> ''tmp'' \<and> scope \<noteq> ''session''")
      case True
      then obtain d rel where o: "open_beneath_roots h l (roots_of h l wr) ?c False = Inr (d, rel)" "q = Opened d rel ?c"
        using assms(4) False by (auto simp: resolve_path_def Let_def split: sum.splits if_splits)
      have "names_file l run_dir req (op_display q) ?c" using nc True o(2) by (simp add: names_file_def)
      with open_beneath_roots_opens [OF o(1)] True o(2) show ?thesis by auto
    next
      case no: False
      have "resolve_workspace h l req scope run_dir wr create = Inr q"
        using assms(4) False no by (simp only: resolve_path_def Let_def if_False simp_thms)
      then show ?thesis by (rule resolve_workspace_opens [OF assms(1-3) nc])
    qed
  qed
qed


section \<open>A served file was named by an artifact\<close>

text \<open>The files an entry of the session's artifacts can stand for.\<close>

definition entry_files :: "local_fs \<Rightarrow> string \<Rightarrow> string \<Rightarrow> string list" where
  "entry_files l run_dir e =
     (let c = path_clean e; chat = lo_chat l
      in concat (map (\<lambda>ns.
           (case resolve_session_scoped c chat ns of Some sub \<Rightarrow> [path_join [base_of l ns, sub]] | None \<Rightarrow> []) @
           (case relative_scoped_prefixed c chat ns of Some sub \<Rightarrow> [path_join [base_of l ns, sub]] | None \<Rightarrow> []))
         [''tmp'', ''session'']) @
       [if path_is_abs c then c
        else path_join [path_clean (normalize_session_run_dir (lo_data l) run_dir chat), c]])"

lemma ns_path_inj: "ns_path ns s = ns_path ns t \<longleftrightarrow> s = t"
  by (auto simp: ns_path_def)

lemma clean_ns_path:
  assumes "ns_ok ns" "down sub"
  shows "path_clean (ns_path ns sub) = ns_path ns sub"
proof -
  let ?cs = "ns # path_comps sub"
  have pl: "list_all plain_comp ?cs" using assms ns_plain down_plain by simp
  have "ns_path ns sub = path_print True ?cs"
    using down_comps [OF assms(2)] join_plain_Nil [OF down_plain [OF assms(2)]]
    by (cases "path_comps sub") (auto simp: ns_path_def path_print_def)
  moreover have "stack_ok True (rev ?cs)" unfolding stack_ok_def
    using pl by (intro exI [of _ "rev ?cs"] exI [of _ 0]) (auto simp: list_all_iff)
  ultimately show ?thesis using path_comps_print path_is_abs_print [of ?cs True] pl
    by (simp add: path_clean_def list_all_iff plain_comp_def)
qed

lemma header_namespace_path:
  assumes "ns_ok ns"
  shows "header_namespace (ns_path ns sub) = ns"
  using assms by (cases sub) (auto simp: ns_ok_def header_namespace_def ns_path_def)

lemma header_namespace_ok: "header_namespace p = '''' \<or> ns_ok (header_namespace p)"
  by (auto simp: header_namespace_def ns_ok_def split: option.splits dest!: find_SomeD)

lemma relative_sub_path: "down sub \<Longrightarrow>
    (if sub \<noteq> '''' \<and> sub \<noteq> ''.'' then ''/'' @ ns @ ''/'' @ sub else ''/'' @ ns) = ns_path ns sub"
  by (auto simp: ns_path_def down_not_dot)

text \<open>An entry that authorizes a namespaced path names the same subpath.\<close>

lemma authorizes_namespaced:
  assumes "ns_ok ns" "entry_authorizes p rd chat ns e"
  shows "\<exists>s. path_clean p = ns_path ns s \<and>
    (resolve_session_scoped (path_clean e) chat ns = Some s \<or> relative_scoped_prefixed (path_clean e) chat ns = Some s)"
proof -
  have ne: "ns \<noteq> ''''" using assms(1) by (auto simp: ns_ok_def)
  consider "normalize_scoped_for_auth (path_clean e) chat ns = Some (path_clean p)"
    | s where "relative_scoped_prefixed (path_clean e) chat ns = Some s"
      "path_clean p = (if s \<noteq> '''' \<and> s \<noteq> ''.'' then ''/'' @ ns @ ''/'' @ s else ''/'' @ ns)"
  proof -
    have "normalize_scoped_for_auth (path_clean e) chat ns = Some (path_clean p) \<or>
      (case relative_scoped_prefixed (path_clean e) chat ns of None \<Rightarrow> False
       | Some s \<Rightarrow> path_clean p = (if s \<noteq> '''' \<and> s \<noteq> ''.'' then ''/'' @ ns @ ''/'' @ s else ''/'' @ ns))"
      using assms(2) ne unfolding entry_authorizes_def Let_def by (metis (no_types, lifting))
    with that show thesis by (cases "relative_scoped_prefixed (path_clean e) chat ns") auto
  qed
  then show ?thesis
  proof cases
    case 1
    then show ?thesis by (metis normalize_scoped_for_auth_def path_clean_idem resolve_session_scoped_def map_option_eq_Some)
  next
    case 2
    with relative_sub_path [OF relative_down [OF assms(1) 2(1)], of ns] show ?thesis by metis
  qed
qed

lemma entry_files_ns:
  "ns_ok ns \<Longrightarrow> resolve_session_scoped (path_clean e) (lo_chat l) ns = Some s \<or>
    relative_scoped_prefixed (path_clean e) (lo_chat l) ns = Some s \<Longrightarrow>
   path_join [base_of l ns, s] \<in> set (entry_files l rd e)"
  by (auto simp: entry_files_def ns_ok_def Let_def)


lemma names_file_authorized:
  assumes "names_file l rd req display target" "path_is_abs target"
    and "ad = (if rd = '''' then '''' else normalize_session_run_dir (lo_data l) rd (lo_chat l))"
    and "entry_authorizes display ad (lo_chat l) (header_namespace display) e"
  shows "target \<in> set (entry_files l rd e)"
  using assms(1) unfolding names_file_def
proof (elim disjE exE conjE)
  fix ns sub
  assume a: "ns_ok ns" "down sub" "display = ns_path ns sub" "target = path_join [base_of l ns, sub]"
  obtain s where s: "path_clean display = ns_path ns s"
    "resolve_session_scoped (path_clean e) (lo_chat l) ns = Some s \<or> relative_scoped_prefixed (path_clean e) (lo_chat l) ns = Some s"
    using authorizes_namespaced [OF a(1)] assms(4) a(3) header_namespace_path [OF a(1)] by metis
  have "s = sub" using s(1) a(3) clean_ns_path [OF a(1,2)] ns_path_inj by simp
  with s(2) a show ?thesis by (simp add: entry_files_ns)
next
  let ?c = "path_clean req" and ?ws = "normalize_session_run_dir (lo_data l) rd (lo_chat l)"
  assume b: "path_clean display = ?c" "\<forall>ns sub. ns_ok ns \<longrightarrow> ?c \<noteq> ns_path ns sub"
    "target = (if path_is_abs ?c then ?c else path_join [path_clean ?ws, ?c])"
  have h: "header_namespace display = ''''"
    using header_namespace_ok [of display] authorizes_namespaced [OF _ assms(4)] b(1,2) by metis
  let ?loc = "\<lambda>p. if path_is_abs p then p else path_join [path_clean ?ws, p]"
  have "?loc ?c = ?loc (path_clean e)"
  proof (cases "?c = path_clean e")
    case False
    have "path_clean (path_join [path_clean ?ws, p]) = path_join [path_clean ?ws, p]" for p
      by (simp add: path_join_def)
    with False assms(3,4) h b(1) show ?thesis
      by (simp add: entry_authorizes_def Let_def split: if_splits)
  qed simp
  with b(3) show ?thesis by (simp add: entry_files_def Let_def)
qed

definition served :: "response \<Rightarrow> opened option" where
  "served r = (case r of HttpError _ \<Rightarrow> None | ServeRaw q \<Rightarrow> Some q | ServeContent q _ \<Rightarrow> Some q)"

lemma served_cases:
  assumes "served (handle_workspace_file h dd client ad auth (Inr l) rq) = Some q"
  obtains sess where "auth = Inr sess" "is_valid_chat_id (rq_session rq)"
    "\<exists>sz bin. fs_open h l (rq_path rq) (rq_scope rq) (case sess of None \<Rightarrow> '''' | Some s \<Rightarrow> fst s) = Inr (q, sz, bin)"
    "is_path_authorized (op_display q) (case sess of None \<Rightarrow> [] | Some s \<Rightarrow> snd s)
       (if (case sess of None \<Rightarrow> '''' | Some s \<Rightarrow> fst s) = '''' then ''''
        else normalize_session_run_dir dd (case sess of None \<Rightarrow> '''' | Some s \<Rightarrow> fst s) (rq_session rq))
       (rq_session rq) (header_namespace (op_display q))"
  using assms
  by (auto simp: handle_workspace_file_def Let_def served_def split: if_splits sum.splits option.splits prod.splits)


end
