(* ===== verification/TreePages.thy ===== *)
theory TreePages
  imports ChatAccessProps
begin

text \<open>
  Directory listings in pages (\<open>backend/lib/runnerfs/tree.go\<close>): a page starts behind the entry its token
  names, and the backend's end (\<open>remote.go\<close>) follows the tokens. What the kernel lists in an open
  directory is a parameter. Following the pages yields every entry once, in the order of the whole.
\<close>

section \<open>The order of a listing\<close>

text \<open>Directories come first, then files, each by name.\<close>

datatype tree_key = TreeKey (tk_dir: bool) (tk_name: string)

instantiation tree_key :: linorder
begin

definition less_tree_key :: "tree_key \<Rightarrow> tree_key \<Rightarrow> bool" where
  "less_tree_key a b \<longleftrightarrow> (if tk_dir a \<noteq> tk_dir b then tk_dir a else tk_name a < tk_name b)"

definition less_eq_tree_key :: "tree_key \<Rightarrow> tree_key \<Rightarrow> bool" where
  "less_eq_tree_key a b \<longleftrightarrow> a = b \<or> a < b"

instance
proof
  fix a b c :: tree_key
  show "a < b \<longleftrightarrow> a \<le> b \<and> \<not> b \<le> a"
    by (cases a; cases b) (auto simp: less_tree_key_def less_eq_tree_key_def)
  show "a \<le> a" by (simp add: less_eq_tree_key_def)
  show "a \<le> b \<Longrightarrow> b \<le> c \<Longrightarrow> a \<le> c"
    by (cases a; cases b; cases c) (auto simp: less_tree_key_def less_eq_tree_key_def split: if_splits)
  show "a \<le> b \<Longrightarrow> b \<le> a \<Longrightarrow> a = b"
    by (cases a; cases b) (auto simp: less_tree_key_def less_eq_tree_key_def split: if_splits)
  show "a \<le> b \<or> b \<le> a"
    by (cases a; cases b) (auto simp: less_tree_key_def less_eq_tree_key_def)
qed

end

section \<open>Entries and tokens\<close>

record tree_entry =
  te_name :: string
  te_path :: string
  te_is_dir :: bool
  te_size :: int
  te_ext :: string

definition entry_key :: "tree_entry \<Rightarrow> tree_key" where
  "entry_key e = TreeKey (te_is_dir e) (te_name e)"

definition after_token :: "bool \<Rightarrow> string \<Rightarrow> string \<Rightarrow> bool" where
  "after_token is_dir name tok =
     (case tok of [] \<Rightarrow> True
      | k # tok_name \<Rightarrow>
          (let rank = (\<lambda>d. if d then 0 else 1 :: nat); tok_dir = (k = CHR ''d'')
           in if rank is_dir \<noteq> rank tok_dir then rank is_dir > rank tok_dir else name > tok_name))"

definition token_of :: "bool \<Rightarrow> string \<Rightarrow> string" where
  "token_of is_dir name = (if is_dir then CHR ''d'' else CHR ''f'') # name"

definition valid_token :: "string \<Rightarrow> bool" where
  "valid_token tok \<longleftrightarrow> tok = '''' \<or> length tok \<ge> 2 \<and> (hd tok = CHR ''d'' \<or> hd tok = CHR ''f'')"

definition clamp_limit :: "int \<Rightarrow> nat \<Rightarrow> nat \<Rightarrow> nat" where
  "clamp_limit n d m = (if n \<le> 0 then d else min (nat n) m)"

definition default_tree_limit :: nat where "default_tree_limit = 5000"
definition max_tree_limit :: nat where "max_tree_limit = 10000"

definition file_ext :: "string \<Rightarrow> string" where
  "file_ext name = (if CHR ''.'' \<in> set name then rev (takeWhile (\<lambda>c. c \<noteq> CHR ''.'') (rev name)) else '''')"

section \<open>One page\<close>

record tree_request =
  tr_run_dir :: string
  tr_path :: string
  tr_scope :: string
  tr_limit :: int
  tr_token :: string

datatype tree_result = TreeResult (tp_path: string) (tp_entries: "tree_entry list") (tp_next: string)

text \<open>
  The names a directory holds; for each whether it is a directory and its size, None where the entry
  vanished.
\<close>

type_synonym listing = "(string \<times> (bool \<times> int) option) list"

definition tree_item :: "string \<Rightarrow> string \<times> (bool \<times> int) option \<Rightarrow> tree_entry option" where
  "tree_item rel_path x = (case x of (name, info) \<Rightarrow>
     if name = ''.git'' \<or> name = ''node_modules'' then None
     else map_option (\<lambda>(d, sz).
       \<lparr>te_name = name, te_path = (if rel_path \<noteq> '''' then path_join [rel_path, name] else name),
        te_is_dir = d, te_size = (if d then 0 else sz), te_ext = (if d then '''' else file_ext name)\<rparr>) info)"

definition tree_items :: "string \<Rightarrow> listing \<Rightarrow> tree_entry list" where
  "tree_items rel_path ls = sort_key entry_key (List.map_filter (tree_item rel_path) ls)"

definition page_of :: "nat \<Rightarrow> string \<Rightarrow> tree_entry list \<Rightarrow> tree_entry list \<times> string" where
  "page_of limit tok items =
     (let rest = dropWhile (\<lambda>e. \<not> after_token (te_is_dir e) (te_name e) tok) items; page = take limit rest
      in (page, if length rest > limit then token_of (te_is_dir (last page)) (te_name (last page)) else ''''))"

definition run_dir_is_base :: "host \<Rightarrow> local_fs \<Rightarrow> string \<Rightarrow> string \<Rightarrow> bool" where
  "run_dir_is_base h l run_dir ns =
     (let ws = path_clean (normalize_session_run_dir (lo_data l) run_dir (lo_chat l)); base = path_clean (base_of l ns)
      in ws = base \<or>
        (case (eval_symlinks h ws, eval_symlinks h base) of (Some a, Some b) \<Rightarrow> a = b | _ \<Rightarrow> False))"

definition tree_display_path :: "host \<Rightarrow> local_fs \<Rightarrow> string \<Rightarrow> opened \<Rightarrow> string" where
  "tree_display_path h l run_dir q =
     (let ns = header_namespace (op_display q); rel = (if op_rel q = ''.'' then '''' else op_rel q)
      in if ns \<noteq> '''' then (if run_dir_is_base h l run_dir ns then rel else op_display q)
         else if path_is_abs (op_display q) then path_clean (op_display q)
         else rel)"

definition local_tree ::
  "host \<Rightarrow> local_fs \<Rightarrow> (opened \<Rightarrow> fs_code + listing) \<Rightarrow> tree_request \<Rightarrow> fs_code + tree_result" where
  "local_tree h l list_dir rq =
     (case check_chat l of Some e \<Rightarrow> Inl e
      | None \<Rightarrow>
          if \<not> valid_token (tr_token rq) then Inl CodeBadRequest
          else (case resolve_path h l (tr_path rq) (tr_scope rq) (tr_run_dir rq) False False of Inl e \<Rightarrow> Inl e
            | Inr q \<Rightarrow> (case list_dir q of Inl e \<Rightarrow> Inl e
               | Inr ls \<Rightarrow>
                   let p = tree_display_path h l (tr_run_dir rq) q;
                       pg = page_of (clamp_limit (tr_limit rq) default_tree_limit max_tree_limit) (tr_token rq) (tree_items p ls)
                   in Inr (TreeResult p (fst pg) (snd pg)))))"

section \<open>Following the pages\<close>

partial_function (option) remote_tree ::
  "(string \<Rightarrow> fs_code + tree_result) \<Rightarrow> int \<Rightarrow> string \<Rightarrow> tree_entry list \<Rightarrow> (fs_code + tree_result) option" where
  "remote_tree call limit tok acc =
     (case call tok of Inl e \<Rightarrow> Some (Inl e)
      | Inr r \<Rightarrow>
          if tp_next r = '''' \<or> limit > 0 then Some (Inr (TreeResult (tp_path r) (acc @ tp_entries r) (tp_next r)))
          else remote_tree call limit (tp_next r) (acc @ tp_entries r))"

text \<open>A listing whose pages the backend asks for.\<close>

definition remote_tree_of ::
  "host \<Rightarrow> local_fs \<Rightarrow> (opened \<Rightarrow> fs_code + listing) \<Rightarrow> tree_request \<Rightarrow> (fs_code + tree_result) option" where
  "remote_tree_of h l list_dir rq =
     remote_tree (\<lambda>tok. local_tree h l list_dir (rq\<lparr>tr_token := tok\<rparr>)) (tr_limit rq) (tr_token rq) []"

section \<open>The pages make up the listing\<close>

lemma after_token_of: "after_token d n (token_of d' n') \<longleftrightarrow> TreeKey d' n' < TreeKey d n"
  by (auto simp: after_token_def token_of_def less_tree_key_def)

definition keys_increase :: "tree_entry list \<Rightarrow> bool" where
  "keys_increase es \<longleftrightarrow> sorted_wrt (\<lambda>a b. entry_key a < entry_key b) es"

lemma dropWhile_upto:
  assumes "keys_increase (as @ x # bs)"
  shows "dropWhile (\<lambda>e. \<not> after_token (te_is_dir e) (te_name e) (token_of (te_is_dir x) (te_name x))) (as @ x # bs) = bs"
proof -
  let ?p = "\<lambda>e. \<not> entry_key x < entry_key e"
  have "\<forall>e \<in> set (as @ [x]). ?p e"
    using assms by (auto simp: keys_increase_def sorted_wrt_append)
  then have "dropWhile ?p ((as @ [x]) @ bs) = dropWhile ?p bs" by (intro dropWhile_append2) blast
  moreover have "dropWhile ?p bs = bs"
    using assms by (cases bs) (auto simp: keys_increase_def sorted_wrt_append)
  ultimately show ?thesis by (simp add: after_token_of entry_key_def)
qed

lemma page_of_rest:
  assumes "keys_increase (front @ rest)" "tok = (if front = [] then '''' else token_of (te_is_dir (last front)) (te_name (last front)))"
  shows "page_of n tok (front @ rest) = (take n rest,
    if length rest > n then token_of (te_is_dir (last (take n rest))) (te_name (last (take n rest))) else '''')"
proof -
  have "dropWhile (\<lambda>e. \<not> after_token (te_is_dir e) (te_name e) tok) (front @ rest) = rest"
  proof (cases front rule: rev_cases)
    case Nil
    with assms(2) show ?thesis by (cases rest) (simp_all add: after_token_def)
  next
    case (snoc as x)
    with dropWhile_upto [of as x rest] assms show ?thesis by simp
  qed
  then show ?thesis by (simp add: page_of_def Let_def)
qed

lemma remote_tree_collects:
  assumes "n > 0" "keys_increase (front @ rest)" "\<forall>e \<in> set (front @ rest). te_name e \<noteq> ''''" "limit \<le> 0"
    and "tok = (if front = [] then '''' else token_of (te_is_dir (last front)) (te_name (last front)))"
    and "\<And>t. valid_token t \<Longrightarrow> call t = Inr (TreeResult p (fst (page_of n t (front @ rest))) (snd (page_of n t (front @ rest))))"
  shows "remote_tree call limit tok front = Some (Inr (TreeResult p (front @ rest) ''''))"
  using assms
proof (induction "length rest" arbitrary: front rest tok rule: less_induct)
  case less
  have tok: "valid_token tok"
    using less.prems(3,5) last_in_set [of front] by (cases "te_name (last front)") (auto simp: valid_token_def token_of_def)
  note pg = page_of_rest [OF less.prems(2,5), of n]
  have step: "call tok = Inr (TreeResult p (take n rest)
      (if length rest > n then token_of (te_is_dir (last (take n rest))) (te_name (last (take n rest))) else ''''))"
    using less.prems(6) [OF tok] pg by simp
  show ?case
  proof (cases "length rest > n")
    case False
    then have "call tok = Inr (TreeResult p rest '''')" using step by simp
    then show ?thesis by (subst remote_tree.simps) simp
  next
    case True
    let ?page = "take n rest"
    let ?tok = "token_of (te_is_dir (last ?page)) (te_name (last ?page))"
    have ne: "?page \<noteq> []" using True less.prems(1) by auto
    have shorter: "length (drop n rest) < length rest" using True less.prems(1) by simp
    have split: "(front @ ?page) @ drop n rest = front @ rest" by simp
    have "remote_tree call limit tok front = remote_tree call limit ?tok (front @ ?page)"
      using step True less.prems(4) by (subst remote_tree.simps) (simp add: token_of_def)
    also have "\<dots> = Some (Inr (TreeResult p ((front @ ?page) @ drop n rest) ''''))"
    proof (rule less.hyps [OF shorter less.prems(1)])
      show "keys_increase ((front @ ?page) @ drop n rest)" using less.prems(2) split by simp
      show "\<forall>e \<in> set ((front @ ?page) @ drop n rest). te_name e \<noteq> ''''"
        using less.prems(3) split by metis
      show "limit \<le> 0" by (rule less.prems(4))
      show "?tok = (if front @ ?page = [] then '''' else token_of (te_is_dir (last (front @ ?page))) (te_name (last (front @ ?page))))"
        using ne by simp
      show "\<And>t. valid_token t \<Longrightarrow> call t = Inr (TreeResult p (fst (page_of n t ((front @ ?page) @ drop n rest)))
          (snd (page_of n t ((front @ ?page) @ drop n rest))))"
        using less.prems(6) split by simp
    qed
    finally show ?thesis using split by simp
  qed
qed

lemma map_filter_keys:
  assumes "distinct (map fst ls)" "\<And>x e. x \<in> set ls \<Longrightarrow> f x = Some e \<Longrightarrow> te_name e = fst x"
  shows "distinct (map te_name (List.map_filter f ls))"
  using assms
proof (induction ls)
  case (Cons x ls)
  have "te_name e \<in> fst ` set ls" if "e \<in> set (List.map_filter f ls)" for e
    using that Cons.prems(2) by (force simp: in_map_filter)
  moreover have "f x = Some e \<Longrightarrow> te_name e = fst x" for e using Cons.prems(2) by simp
  moreover have "distinct (map te_name (List.map_filter f ls))" using Cons.IH Cons.prems by simp
  ultimately show ?case using Cons.prems(1) by (cases "f x") (auto simp: map_filter_simps)
qed (simp add: map_filter_simps)

lemma tree_items_increase:
  assumes "distinct (map fst ls)"
  shows "keys_increase (tree_items p ls)"
proof -
  let ?es = "List.map_filter (tree_item p) ls"
  have "distinct (map te_name ?es)"
    by (rule map_filter_keys [OF assms]) (auto simp: tree_item_def split: if_splits)
  then have d: "distinct (map entry_key ?es)"
    by (auto simp: distinct_map inj_on_def entry_key_def)
  have d': "distinct (map entry_key (tree_items p ls))"
    using d by (simp add: tree_items_def distinct_map)
  have s: "sorted (map entry_key (tree_items p ls))" by (simp add: tree_items_def)
  have "sorted_wrt (<) (map entry_key (tree_items p ls))"
    using d' s by (simp add: strict_sorted_iff)
  then show ?thesis by (simp add: keys_increase_def sorted_wrt_map)
qed


end
