(* ===== verification/MsgQueue.thy ===== *)
theory MsgQueue
  imports Prelude "HOL-Library.Product_Lexorder"
begin

text \<open>
  The messages that wait for a chat (\<open>backend/lib/dbmodels/queued_message.go\<close>): a table with a row per
  message, read in the order of creation. Every operation runs under the lock of its chat in one
  transaction and is one function here; the time and the fresh identifier are arguments. An identifier
  is a UUID of version 7, here its number. Database errors are left to the callers.
\<close>

section \<open>The table\<close>

record queued_message =
  qm_id :: nat
  qm_chat :: string
  qm_prompt :: string
  qm_model :: string
  qm_created :: nat
  qm_updated :: nat

type_synonym qtable = "queued_message list"

definition max_queued :: nat where "max_queued = 3"

datatype queue_error = QueueFull | QueuedNotFound | DuplicateKey

definition created_order :: "queued_message \<Rightarrow> nat \<times> nat" where
  "created_order m = (qm_created m, qm_id m)"

definition get_queued_messages :: "string \<Rightarrow> qtable \<Rightarrow> queued_message list" where
  "get_queued_messages chat t = sort_key created_order (filter (\<lambda>m. qm_chat m = chat) t)"

definition is_message :: "string \<Rightarrow> nat \<Rightarrow> queued_message \<Rightarrow> bool" where
  "is_message chat i m \<longleftrightarrow> qm_chat m = chat \<and> qm_id m = i"

definition get_queued_message :: "string \<Rightarrow> nat \<Rightarrow> qtable \<Rightarrow> queue_error + queued_message" where
  "get_queued_message chat i t = (case find (is_message chat i) t of None \<Rightarrow> Inl QueuedNotFound | Some m \<Rightarrow> Inr m)"

definition chat_ids_with_queue :: "qtable \<Rightarrow> string list" where
  "chat_ids_with_queue t = remdups (map qm_chat t)"

definition peek_next :: "string \<Rightarrow> qtable \<Rightarrow> queued_message option" where
  "peek_next chat t = (case get_queued_messages chat t of [] \<Rightarrow> None | m # _ \<Rightarrow> Some m)"

section \<open>Changes\<close>

definition enqueue_message ::
  "nat \<Rightarrow> nat \<Rightarrow> string \<Rightarrow> string \<Rightarrow> string \<Rightarrow> qtable \<Rightarrow> queue_error + (queued_message \<times> qtable)" where
  "enqueue_message now i chat prompt model t =
     (if length (filter (\<lambda>m. qm_chat m = chat) t) \<ge> max_queued then Inl QueueFull
      else let m = \<lparr>qm_id = i, qm_chat = chat, qm_prompt = prompt, qm_model = model, qm_created = now, qm_updated = now\<rparr>
        in Inr (m, t @ [m]))"

definition update_queued_message ::
  "nat \<Rightarrow> string \<Rightarrow> nat \<Rightarrow> string \<Rightarrow> qtable \<Rightarrow> queue_error + (queued_message \<times> qtable)" where
  "update_queued_message now chat i prompt t =
     (case find (is_message chat i) t of None \<Rightarrow> Inl QueuedNotFound
      | Some m \<Rightarrow> let m' = m\<lparr>qm_prompt := prompt, qm_updated := now\<rparr>
          in Inr (m', map (\<lambda>r. if qm_id r = i then m' else r) t))"

definition delete_queued_message :: "string \<Rightarrow> nat \<Rightarrow> qtable \<Rightarrow> queue_error + qtable" where
  "delete_queued_message chat i t =
     (if list_ex (is_message chat i) t then Inr (filter (\<lambda>m. \<not> is_message chat i m) t) else Inl QueuedNotFound)"

definition pop_next :: "string \<Rightarrow> qtable \<Rightarrow> (queued_message \<times> qtable) option" where
  "pop_next chat t = (case peek_next chat t of None \<Rightarrow> None
     | Some m \<Rightarrow> Some (m, filter (\<lambda>r. \<not> is_message chat (qm_id m) r) t))"

definition clear_queued_messages :: "string \<Rightarrow> qtable \<Rightarrow> nat \<times> qtable" where
  "clear_queued_messages chat t =
     (length (filter (\<lambda>m. qm_chat m = chat) t), filter (\<lambda>m. qm_chat m \<noteq> chat) t)"

definition requeue_front :: "nat \<Rightarrow> queued_message \<Rightarrow> qtable \<Rightarrow> queue_error + qtable" where
  "requeue_front now m t =
     (if list_ex (\<lambda>r. qm_id r = qm_id m) t then Inl DuplicateKey else Inr (t @ [m\<lparr>qm_updated := now\<rparr>]))"

section \<open>The queue of a chat\<close>

text \<open>Identifiers are a primary key.\<close>

definition queue_keys :: "qtable \<Rightarrow> bool" where
  "queue_keys t \<longleftrightarrow> distinct (map qm_id t)"

lemma queue_keys_filter: "queue_keys t \<Longrightarrow> queue_keys (filter P t)"
  by (simp add: queue_keys_def distinct_map_filter)

lemma set_get_queued: "set (get_queued_messages chat t) = {m \<in> set t. qm_chat m = chat}"
  by (auto simp: get_queued_messages_def)

lemma get_queued_empty: "get_queued_messages chat t = [] \<longleftrightarrow> filter (\<lambda>m. qm_chat m = chat) t = []"
  by (metis get_queued_messages_def set_empty set_sort)

lemma length_get_queued: "length (get_queued_messages chat t) = length (filter (\<lambda>m. qm_chat m = chat) t)"
  by (simp add: get_queued_messages_def)

lemma created_order_inj: "queue_keys t \<Longrightarrow> inj_on created_order (set t)"
  by (auto simp: inj_on_def created_order_def queue_keys_def distinct_map)

text \<open>A list in the order of creation is the queue of a table with the same rows.\<close>

lemma queue_unique:
  assumes "queue_keys t" "sorted (map created_order q)" "distinct q" "set q = {m \<in> set t. qm_chat m = chat}"
  shows "get_queued_messages chat t = q"
proof -
  let ?f = "filter (\<lambda>m. qm_chat m = chat) t"
  have i: "inj_on created_order (set q)"
    using created_order_inj [OF assms(1)] assms(4) by (auto simp: inj_on_def)
  have d: "distinct ?f" using assms(1) by (simp add: queue_keys_def distinct_map)
  have "sort_key created_order ?f = q"
  proof (rule map_sorted_distinct_set_unique [where f = created_order])
    show "inj_on created_order (set (sort_key created_order ?f) \<union> set q)"
      using i assms(4) by (simp add: inj_on_def)
    show "distinct (map created_order (sort_key created_order ?f))"
      using d i assms(4) by (simp add: distinct_map inj_on_def)
    show "distinct (map created_order q)" using assms(3) i by (simp add: distinct_map)
    show "set (sort_key created_order ?f) = set q" using assms(4) by auto
  qed (use assms(2) in simp_all)
  then show ?thesis by (simp add: get_queued_messages_def)
qed

lemma waiting_sorted: "sorted (map created_order (get_queued_messages chat t))"
  by (simp add: get_queued_messages_def)

lemma queue_distinct: "queue_keys t \<Longrightarrow> distinct (get_queued_messages chat t)"
  by (simp add: get_queued_messages_def queue_keys_def distinct_map)

lemma queue_filter:
  "get_queued_messages chat (filter P t) = filter P (get_queued_messages chat t)"
  by (simp add: get_queued_messages_def filter_sort conj_commute)

section \<open>First in, first out\<close>

text \<open>What the repository promises for one chat: a bounded list of messages.\<close>

definition fifo_enqueue :: "queued_message \<Rightarrow> queued_message list \<Rightarrow> queued_message list option" where
  "fifo_enqueue m q = (if length q \<ge> max_queued then None else Some (q @ [m]))"

definition fifo_pop :: "queued_message list \<Rightarrow> (queued_message \<times> queued_message list) option" where
  "fifo_pop q = (case q of [] \<Rightarrow> None | m # r \<Rightarrow> Some (m, r))"

text \<open>A message that is new: its key is larger than all others.\<close>

definition newest :: "nat \<Rightarrow> nat \<Rightarrow> qtable \<Rightarrow> bool" where
  "newest now i t \<longleftrightarrow> (\<forall>m \<in> set t. qm_created m \<le> now \<and> qm_id m < i)"

lemma enqueue_abs:
  assumes "queue_keys t" "newest now i t"
  shows "(case enqueue_message now i chat p md t of
      Inl _ \<Rightarrow> length (get_queued_messages chat t) \<ge> max_queued
    | Inr (m, t') \<Rightarrow> queue_keys t' \<and> fifo_enqueue m (get_queued_messages chat t) = Some (get_queued_messages chat t') \<and>
        (\<forall>c. c \<noteq> chat \<longrightarrow> get_queued_messages c t' = get_queued_messages c t))"
proof (cases "length (filter (\<lambda>m. qm_chat m = chat) t) \<ge> max_queued")
  case True
  then show ?thesis by (simp add: enqueue_message_def length_get_queued)
next
  case False
  let ?m = "\<lparr>qm_id = i, qm_chat = chat, qm_prompt = p, qm_model = md, qm_created = now, qm_updated = now\<rparr>"
  let ?t = "t @ [?m]" and ?q = "get_queued_messages chat t @ [?m]"
  have e: "enqueue_message now i chat p md t = Inr (?m, ?t)" using False by (simp add: enqueue_message_def Let_def)
  have n: "\<forall>m \<in> set t. qm_id m < i \<and> qm_created m \<le> now" using assms(2) by (auto simp: newest_def)
  have k: "queue_keys ?t" using assms(1) n by (auto simp: queue_keys_def)
  have "\<forall>m \<in> set t. created_order m \<le> created_order ?m" using n by (auto simp: created_order_def less_eq_prod_def)
  then have s: "sorted (map created_order ?q)"
    using waiting_sorted [of chat t] by (auto simp: sorted_append set_get_queued)
  have d: "distinct ?q" using queue_distinct [OF assms(1)] n by (auto simp: set_get_queued)
  have "get_queued_messages chat ?t = ?q"
    by (rule queue_unique [OF k s d]) (auto simp: set_get_queued)
  moreover have "c \<noteq> chat \<Longrightarrow> get_queued_messages c ?t = get_queued_messages c t" for c
    by (simp add: get_queued_messages_def)
  ultimately show ?thesis using e k False by (simp add: fifo_enqueue_def length_get_queued)
qed

lemma pop_abs:
  assumes "queue_keys t"
  shows "(case pop_next chat t of
      None \<Rightarrow> fifo_pop (get_queued_messages chat t) = None
    | Some (m, t') \<Rightarrow> queue_keys t' \<and> fifo_pop (get_queued_messages chat t) = Some (m, get_queued_messages chat t') \<and>
        (\<forall>c. c \<noteq> chat \<longrightarrow> get_queued_messages c t' = get_queued_messages c t))"
proof (cases "get_queued_messages chat t")
  case Nil
  then show ?thesis by (simp add: pop_next_def peek_next_def fifo_pop_def)
next
  case (Cons m r)
  let ?t = "filter (\<lambda>x. \<not> is_message chat (qm_id m) x) t"
  have d: "distinct (m # r)" using queue_distinct [OF assms, of chat] Cons by simp
  have mem: "set (m # r) = {x \<in> set t. qm_chat x = chat}" using set_get_queued [of chat t] Cons by simp
  have i: "x \<in> set r \<Longrightarrow> qm_id x \<noteq> qm_id m" for x
    using d mem assms by (auto simp: queue_keys_def distinct_map inj_on_def)
  have "filter (\<lambda>x. \<not> is_message chat (qm_id m) x) (m # r) = r"
    using mem i by (auto simp: is_message_def intro!: filter_True)
  then have "get_queued_messages chat ?t = r" using Cons by (simp add: queue_filter)
  moreover have "get_queued_messages c ?t = get_queued_messages c t" if "c \<noteq> chat" for c
    unfolding queue_filter using that by (intro filter_True) (auto simp: is_message_def set_get_queued)
  ultimately show ?thesis using Cons queue_keys_filter [OF assms] by (simp add: pop_next_def peek_next_def fifo_pop_def)
qed

text \<open>A message older than the queue returns to its head.\<close>

lemma requeue_abs:
  assumes "queue_keys t" "qm_chat m = chat" "\<forall>r \<in> set t. qm_id r \<noteq> qm_id m"
    and "\<forall>r \<in> set (get_queued_messages chat t). created_order m \<le> created_order r"
  shows "\<exists>t'. requeue_front now m t = Inr t' \<and> queue_keys t' \<and>
    get_queued_messages chat t' = m\<lparr>qm_updated := now\<rparr> # get_queued_messages chat t \<and>
    (\<forall>c. c \<noteq> chat \<longrightarrow> get_queued_messages c t' = get_queued_messages c t)"
proof -
  let ?m = "m\<lparr>qm_updated := now\<rparr>"
  let ?t = "t @ [?m]" and ?q = "?m # get_queued_messages chat t"
  have k: "queue_keys ?t" using assms(1,3) by (auto simp: queue_keys_def)
  have o: "created_order ?m = created_order m" by (simp add: created_order_def)
  have "get_queued_messages chat ?t = ?q"
  proof (rule queue_unique [OF k])
    show "sorted (map created_order ?q)" using assms(4) waiting_sorted [of chat t] o by simp
    show "distinct ?q" using queue_distinct [OF assms(1)] assms(3) by (auto simp: set_get_queued)
    show "set ?q = {r \<in> set ?t. qm_chat r = chat}" using assms(2) by (auto simp: set_get_queued)
  qed
  moreover have "c \<noteq> chat \<Longrightarrow> get_queued_messages c ?t = get_queued_messages c t" for c
    using assms(2) by (simp add: get_queued_messages_def)
  moreover have "requeue_front now m t = Inr ?t" using assms(3) by (auto simp: requeue_front_def list_ex_iff)
  ultimately show ?thesis using k by blast
qed

text \<open>Putting a popped message back, also after another was enqueued.\<close>

lemma popped_is_oldest:
  assumes "queue_keys t" "pop_next chat t = Some (m, t')"
  shows "get_queued_messages chat t = m # get_queued_messages chat t'" "m \<in> set t" "qm_chat m = chat" "set t' \<subseteq> set t"
    "\<forall>r \<in> set t'. qm_id r \<noteq> qm_id m" "\<forall>r \<in> set (get_queued_messages chat t'). created_order m \<le> created_order r"
proof -
  show q: "get_queued_messages chat t = m # get_queued_messages chat t'"
    using pop_abs [OF assms(1), of chat] assms(2) by (simp add: fifo_pop_def split: list.splits)
  show m: "m \<in> set t" "qm_chat m = chat" using q set_get_queued [of chat t] by auto
  have t': "t' = filter (\<lambda>r. \<not> is_message chat (qm_id m) r) t"
    using assms(2) q by (simp add: pop_next_def peek_next_def)
  then show "set t' \<subseteq> set t" by auto
  show "\<forall>r \<in> set t'. qm_id r \<noteq> qm_id m"
    using assms(1) m by (auto simp: t' is_message_def queue_keys_def distinct_map inj_on_def)
  show "\<forall>r \<in> set (get_queued_messages chat t'). created_order m \<le> created_order r"
    using waiting_sorted [of chat t] q by simp
qed

lemma requeue_after_enqueue:
  assumes "queue_keys t" "newest now i t" "pop_next chat t = Some (m, t')" "enqueue_message now i chat p md t' = Inr (m', t1)"
  shows "\<exists>t2. requeue_front now m t1 = Inr t2 \<and>
    get_queued_messages chat t2 = m\<lparr>qm_updated := now\<rparr> # get_queued_messages chat t' @ [m']"
proof -
  note pop = popped_is_oldest [OF assms(1,3)]
  have new: "newest now i t'" using assms(2) pop(4) by (auto simp: newest_def)
  have k': "queue_keys t'" using pop_abs [OF assms(1), of chat] assms(3) by simp
  note ea = enqueue_abs [OF k' new, of chat p md, unfolded assms(4) sum.case prod.case]
  have q1: "get_queued_messages chat t1 = get_queued_messages chat t' @ [m']"
    using ea by (simp add: fifo_enqueue_def split: if_splits)
  have t1: "t1 = t' @ [m']" "qm_id m' = i" "qm_created m' = now"
    using assms(4) by (auto simp: enqueue_message_def Let_def split: if_splits)
  have mi: "qm_id m < i" "qm_created m \<le> now" using assms(2) pop(2) by (auto simp: newest_def)
  have f1: "\<forall>r \<in> set t1. qm_id r \<noteq> qm_id m" using pop(5) mi t1 by auto
  have o1: "\<forall>r \<in> set (get_queued_messages chat t1). created_order m \<le> created_order r"
    using pop(6) q1 mi t1 by (auto simp: created_order_def less_eq_prod_def)
  from requeue_abs [OF conjunct1 [OF ea] pop(3) f1 o1, of now] q1 show ?thesis by auto
qed

text \<open>
  C33. For every chat the table is a bounded queue: enqueueing appends or reports a full queue, popping
  takes the oldest message, putting a popped message back makes it the next one again whatever was
  enqueued meanwhile, and no operation on one chat touches another.
\<close>

theorem queue_refines_fifo:
  assumes "queue_keys t" "newest now i t"
  shows "(case enqueue_message now i chat p md t of
      Inl _ \<Rightarrow> length (get_queued_messages chat t) \<ge> max_queued
    | Inr (m, t') \<Rightarrow> fifo_enqueue m (get_queued_messages chat t) = Some (get_queued_messages chat t') \<and>
        (\<forall>c. c \<noteq> chat \<longrightarrow> get_queued_messages c t' = get_queued_messages c t)) \<and>
    (case pop_next chat t of
      None \<Rightarrow> get_queued_messages chat t = []
    | Some (m, t') \<Rightarrow> fifo_pop (get_queued_messages chat t) = Some (m, get_queued_messages chat t') \<and>
        (\<forall>c. c \<noteq> chat \<longrightarrow> get_queued_messages c t' = get_queued_messages c t) \<and>
        (\<exists>t''. requeue_front now m t' = Inr t'' \<and>
           get_queued_messages chat t'' = m\<lparr>qm_updated := now\<rparr> # get_queued_messages chat t') \<and>
        (case enqueue_message now i chat p md t' of Inl _ \<Rightarrow> True
         | Inr (m', t1) \<Rightarrow> (\<exists>t2. requeue_front now m t1 = Inr t2 \<and>
             get_queued_messages chat t2 = m\<lparr>qm_updated := now\<rparr> # get_queued_messages chat t' @ [m'])))"
proof (intro conjI)
  show "case enqueue_message now i chat p md t of
      Inl _ \<Rightarrow> length (get_queued_messages chat t) \<ge> max_queued
    | Inr (m, t') \<Rightarrow> fifo_enqueue m (get_queued_messages chat t) = Some (get_queued_messages chat t') \<and>
        (\<forall>c. c \<noteq> chat \<longrightarrow> get_queued_messages c t' = get_queued_messages c t)"
    using enqueue_abs [OF assms, of chat p md] by (cases "enqueue_message now i chat p md t") auto
  show "case pop_next chat t of
      None \<Rightarrow> get_queued_messages chat t = []
    | Some (m, t') \<Rightarrow> fifo_pop (get_queued_messages chat t) = Some (m, get_queued_messages chat t') \<and>
        (\<forall>c. c \<noteq> chat \<longrightarrow> get_queued_messages c t' = get_queued_messages c t) \<and>
        (\<exists>t''. requeue_front now m t' = Inr t'' \<and>
           get_queued_messages chat t'' = m\<lparr>qm_updated := now\<rparr> # get_queued_messages chat t') \<and>
        (case enqueue_message now i chat p md t' of Inl _ \<Rightarrow> True
         | Inr (m', t1) \<Rightarrow> (\<exists>t2. requeue_front now m t1 = Inr t2 \<and>
             get_queued_messages chat t2 = m\<lparr>qm_updated := now\<rparr> # get_queued_messages chat t' @ [m']))"
  proof (cases "pop_next chat t")
    case None
    then show ?thesis using pop_abs [OF assms(1), of chat] by (simp add: fifo_pop_def split: list.splits)
  next
    case (Some x)
    obtain m t' where x: "x = (m, t')" by (cases x)
    note some = Some [unfolded x]
    note pa = pop_abs [OF assms(1), of chat, unfolded some option.case prod.case]
    note pop = popped_is_oldest [OF assms(1) some]
    from pa requeue_abs [OF conjunct1 [OF pa] pop(3,5,6), of now] requeue_after_enqueue [OF assms some]
    show ?thesis by (simp add: some split: sum.splits) blast
  qed
qed

end
