(* ===== verification/ChatExamples.thy ===== *)
theory ChatExamples
  imports TreePages MsgQueue
begin

text \<open>
  Concrete chats, hosts and requests at which the properties of file access apply, and a request that is
  refused although its target lies in the run directory.
\<close>

text \<open>A file system in which one link of the workspace leads to another file of the workspace.\<close>

definition ex_fs :: file_system where
  "ex_fs = \<lparr>eval_symlinks = (\<lambda>p. if p = ''/w'' \<or> p = ''/w/b'' then Some p else if p = ''/w/a'' then Some ''/w/b'' else None),
     stat_ok = (\<lambda>p. p = ''/w'' \<or> p = ''/w/a'' \<or> p = ''/w/b'')\<rparr>"

definition ex_host :: host where
  "ex_host = \<lparr>eval_symlinks = eval_symlinks ex_fs, stat_ok = stat_ok ex_fs, ho_getwd = None,
     ho_glob_dirs = (\<lambda>_. None), ho_mkdir_all = (\<lambda>_. True), ho_open_dir = (\<lambda>_. None),
     ho_open_strict = (\<lambda>_. None), ho_open_below = (\<lambda>_ _. None), ho_open_file = (\<lambda>_ _. Inr (10, False)),
     ho_match = (=)\<rparr>"

definition ex_local :: local_fs where
  "ex_local = \<lparr>lo_data = ''/data'', lo_chat = ''me'', lo_allowed = Some (\<lambda>_. [''/w''])\<rparr>"

definition ex_request :: request where
  "ex_request = \<lparr>rq_session = ''me'', rq_path = ''a'', rq_scope = '''', rq_raw = False\<rparr>"

lemma run_dir_never_foreign_witness:
  "normalize_session_run_dir ''/data'' ''/data/tmp/you/x'' ''me'' = ''/data/tmp/me/x'' \<and>
   \<not> inside (scoped_base_dir ''/data'' ''tmp'' ''you'') (normalize_session_run_dir ''/data'' ''/data/tmp/you/x'' ''me'')"
proof
  show "normalize_session_run_dir ''/data'' ''/data/tmp/you/x'' ''me'' = ''/data/tmp/me/x''" by code_simp
  show "\<not> inside (scoped_base_dir ''/data'' ''tmp'' ''you'') (normalize_session_run_dir ''/data'' ''/data/tmp/you/x'' ''me'')"
  proof (rule run_dir_never_foreign)
    show "path_is_abs ''/data''" by code_simp
    show "is_valid_chat_id ''me''" by code_simp
    show "is_valid_chat_id ''you''" by code_simp
    show "ns_ok ''tmp''" by code_simp
  qed simp
qed

lemma ex_resolved: "resolve_and_validate ex_fs ''/data'' ''/w'' ''a'' '''' ''me'' = Inr (Resolved ''/w/a'' '''' ''a'')"
  by code_simp

lemma granted_target_confined_witness:
  "eval_symlinks ex_fs ''/w/a'' = Some ''/w/b'' \<and> inside ''/w'' ''/w/a'' \<and> inside (eval_or ex_fs ''/w'') ''/w/b''"
proof -
  have e: "eval_symlinks ex_fs ''/w/a'' = Some ''/w/b''" "granted_root ''/data'' ''/w'' ''me'' '''' = ''/w''" by code_simp+
  have "\<forall>p t. eval_symlinks ex_fs p = Some t \<longrightarrow> stat_ok ex_fs p" by (simp add: ex_fs_def)
  from granted_target_confined [OF ex_resolved this] e show ?thesis by simp
qed

lemma candidates_cover_resolution_witness:
  "('''', ''a'') \<in> set (auth_candidates ''a'' '''' ''me'') \<and> ''/w/a'' = auth_location ''/data'' ''/w'' ''me'' '''' ''a''"
  using candidates_cover_resolution [OF ex_resolved] by simp

lemma ex_opened:
  "resolve_path ex_host ex_local ''a'' '''' ''/w'' False False = Inr (Opened (Fd ''/w'' ''.'') ''a'' ''a'')"
  by code_simp



definition ex_listing :: listing where
  "ex_listing = [(''b.txt'', Some (False, 3)), (''.git'', Some (True, 0)), (''gone'', None), (''a'', Some (False, 1)), (''z'', Some (True, 0))]"

definition ex_tree :: tree_request where
  "ex_tree = \<lparr>tr_run_dir = ''/w'', tr_path = ''a'', tr_scope = '''', tr_limit = 0, tr_token = ''''\<rparr>"


text \<open>Two messages of one chat wait; the older is taken and put back behind a third.\<close>

definition ex_message :: "nat \<Rightarrow> nat \<Rightarrow> queued_message" where
  "ex_message i c = \<lparr>qm_id = i, qm_chat = ''me'', qm_prompt = ''p'', qm_model = '''', qm_created = c, qm_updated = c\<rparr>"

lemma queue_refines_fifo_witness:
  "(case enqueue_message 9 5 ''me'' ''p'' '''' [ex_message 3 7, ex_message 1 2] of Inl _ \<Rightarrow> False
    | Inr (m, t) \<Rightarrow> map qm_id (get_queued_messages ''me'' t) = [1, 3, 5]) \<and>
   (\<exists>m t. pop_next ''me'' [ex_message 3 7, ex_message 1 2] = Some (m, t) \<and> qm_id m = 1 \<and>
      (\<exists>t'. requeue_front 9 m t = Inr t' \<and> get_queued_messages ''me'' t' = m\<lparr>qm_updated := 9\<rparr> # get_queued_messages ''me'' t))"
proof
  show "case enqueue_message 9 5 ''me'' ''p'' '''' [ex_message 3 7, ex_message 1 2] of Inl _ \<Rightarrow> False
    | Inr (m, t) \<Rightarrow> map qm_id (get_queued_messages ''me'' t) = [1, 3, 5]" by code_simp
  have k: "queue_keys [ex_message 3 7, ex_message 1 2]" "newest 9 5 [ex_message 3 7, ex_message 1 2]" by code_simp+
  have p: "pop_next ''me'' [ex_message 3 7, ex_message 1 2] = Some (ex_message 1 2, [ex_message 3 7])" by code_simp
  have i: "qm_id (ex_message 1 2) = 1" by code_simp
  from queue_refines_fifo [OF k, of "''me''" "''p''" "''''"] p i
  show "\<exists>m t. pop_next ''me'' [ex_message 3 7, ex_message 1 2] = Some (m, t) \<and> qm_id m = 1 \<and>
      (\<exists>t'. requeue_front 9 m t = Inr t' \<and> get_queued_messages ''me'' t' = m\<lparr>qm_updated := 9\<rparr> # get_queued_messages ''me'' t)"
    by auto
qed

text \<open>The test for two leading dots also refuses a name that only starts with them.\<close>

lemma dotted_name_refused:
  "resolve_and_validate ex_fs ''/data'' ''/w'' ''..notes'' '''' ''me'' = Inl EscapesWorkspace \<and>
   inside ''/w'' (path_join [''/w'', ''..notes''])"
  by code_simp

end
