(* ===== verification/ChatGuard.thy ===== *)
theory ChatGuard
  imports MsgQueue
begin

text \<open>
  Who executes in a chat: the guard of \<open>activeExecutions\<close> (\<open>api/session_stop_handler.go\<close>), the consumer of
  the message queue (\<open>api/message_trigger_handler.go\<close>), parked queues and the restart by a reconnecting
  runner (\<open>api/runner_binding.go\<close>). The state is that of one chat; every goroutine is a thread whose
  place in the code is a constructor of \<open>place\<close>, and every access to a shared map, the database or the
  registry of runners is a step of its own, in any order the threads allow. The handle of an execution is
  the number of the thread that took the guard. Nested calls of peers and workflows that are resumed or
  driven again after their request are not in this model.
\<close>

section \<open>Places in the code\<close>

datatype agent = Single string | Flow string

datatype park = Hard | Until nat

text \<open>Why the guard was taken, and where its release returns to.\<close>

datatype taken = ForTrigger | ForWait | ForConsumer | ForFlow

datatype after = AfterDone | AfterPeek agent nat | AfterFlow agent

text \<open>
  \<open>Begun\<close> is \<open>beginExecution\<close> behind the guard, \<open>Check\<close> and \<open>Store\<close> the rest of the request; \<open>RunFirst\<close>, \<open>RunWait\<close>,
  \<open>Exec\<close> and \<open>RunFlow\<close> execute; \<open>Top\<close> to \<open>Requeue\<close> are the consumer loop; \<open>Parking\<close> stores a park and then
  releases the guard or not; the \<open>Enq\<close> places are a request that queues its message, the \<open>Drain\<close> places
  \<open>drainQueueAfterRelease\<close>, the \<open>Online\<close> places \<open>RunnerOnline\<close>, \<open>Stopping\<close> the stop request.
\<close>

datatype place =
    Begun taken agent | Check taken agent | Store taken agent
  | FirstGen agent | RunFirst agent nat | RunWait agent | RunFlow agent
  | Top agent | PopNext agent nat | PeekNext agent nat | Reacquire agent nat | RePop agent nat
  | Exec agent nat queued_message | Requeue queued_message park | ClearAll park | Parking park bool
  | Releasing after | Released after
  | EnqInsert agent string | EnqUnpark agent | StartConsumer agent
  | DrainPark | DrainGen park | DrainOnline | DrainPeek | Resume
  | OnlineList | OnlineUnpark | Stopping

record chat =
  ch_rows :: qtable
  ch_guard :: "nat option"
  ch_park :: "park option"
  ch_online :: bool
  ch_gen :: nat
  ch_current :: agent
  ch_clock :: nat
  ch_next_id :: nat
  ch_threads :: "(nat \<times> place) list"
  ch_next :: nat

definition this_chat :: string where "this_chat = ''chat''"

definition head_of :: "chat \<Rightarrow> queued_message option" where
  "head_of s = peek_next this_chat (ch_rows s)"

section \<open>Threads\<close>

definition move :: "nat \<Rightarrow> place \<Rightarrow> chat \<Rightarrow> chat" where
  "move t p s = s\<lparr>ch_threads := AList.update t p (ch_threads s)\<rparr>"

definition finish :: "nat \<Rightarrow> chat \<Rightarrow> chat" where
  "finish t s = s\<lparr>ch_threads := AList.delete t (ch_threads s)\<rparr>"

definition spawn :: "place \<Rightarrow> chat \<Rightarrow> chat" where
  "spawn p s = s\<lparr>ch_threads := AList.update (ch_next s) p (ch_threads s), ch_next := Suc (ch_next s)\<rparr>"

text \<open>\<open>LoadOrStore\<close> of the guard: None when another handle is loaded.\<close>

definition acquire :: "nat \<Rightarrow> chat \<Rightarrow> chat option" where
  "acquire t s = (if ch_guard s = None then Some (s\<lparr>ch_guard := Some t\<rparr>) else None)"

section \<open>Outcomes of an execution\<close>

datatype outcome = Succeeded | RunnerOffline | NotDispatched | SandboxError | OtherError

text \<open>\<open>handleQueuedTaskError\<close> clears the queue after a sandbox error; then the queue is parked.\<close>

definition after_first :: "agent \<Rightarrow> nat \<Rightarrow> outcome \<Rightarrow> place" where
  "after_first ag gen out = (case out of Succeeded \<Rightarrow> Top ag | RunnerOffline \<Rightarrow> Parking (Until gen) True
     | SandboxError \<Rightarrow> ClearAll Hard | NotDispatched \<Rightarrow> Parking Hard True | OtherError \<Rightarrow> Parking Hard True)"

definition after_queued :: "agent \<Rightarrow> nat \<Rightarrow> queued_message \<Rightarrow> outcome \<Rightarrow> place" where
  "after_queued ag gen m out = (case out of Succeeded \<Rightarrow> Top ag | RunnerOffline \<Rightarrow> Requeue m (Until gen)
     | NotDispatched \<Rightarrow> Requeue m Hard | SandboxError \<Rightarrow> ClearAll Hard | OtherError \<Rightarrow> Parking Hard True)"

section \<open>One step of a thread\<close>

definition stored_next :: "taken \<Rightarrow> agent \<Rightarrow> place" where
  "stored_next k ag = (case k of ForTrigger \<Rightarrow> FirstGen ag | ForWait \<Rightarrow> RunWait ag | ForConsumer \<Rightarrow> Top ag
     | ForFlow \<Rightarrow> RunFlow ag)"

definition released_next :: "nat \<Rightarrow> after \<Rightarrow> chat \<Rightarrow> chat" where
  "released_next t a s = (case a of AfterDone \<Rightarrow> finish t s | AfterPeek ag gen \<Rightarrow> move t (PeekNext ag gen) s
     | AfterFlow ag \<Rightarrow> move t (RunFlow ag) s)"

definition pop_step :: "nat \<Rightarrow> agent \<Rightarrow> nat \<Rightarrow> place \<Rightarrow> chat \<Rightarrow> chat" where
  "pop_step t ag gen idle s =
     (case pop_next this_chat (ch_rows s) of None \<Rightarrow> move t idle s
      | Some (m, rows) \<Rightarrow> move t (Exec ag gen m) (s\<lparr>ch_rows := rows\<rparr>))"

definition start_step :: "nat \<Rightarrow> taken \<Rightarrow> agent \<Rightarrow> chat \<Rightarrow> chat" where
  "start_step t k ag s = (case acquire t s of None \<Rightarrow> finish t s | Some s' \<Rightarrow> move t (Begun k ag) s')"

definition park_holds :: "park \<Rightarrow> chat \<Rightarrow> bool" where
  "park_holds p s = (case p of Hard \<Rightarrow> True | Until g \<Rightarrow> \<not> ch_online s \<or> ch_gen s \<le> g)"

definition park_queue :: "park \<Rightarrow> chat \<Rightarrow> chat" where
  "park_queue p s = s\<lparr>ch_park := Some p\<rparr>"

definition unpark_queue :: "chat \<Rightarrow> chat" where
  "unpark_queue s = s\<lparr>ch_park := None\<rparr>"

definition clear_chat :: "chat \<Rightarrow> chat" where
  "clear_chat s = s\<lparr>ch_rows := snd (clear_queued_messages this_chat (ch_rows s))\<rparr>"

text \<open>The model a request names is left out.\<close>

definition enqueue_step :: "nat \<Rightarrow> agent \<Rightarrow> string \<Rightarrow> chat \<Rightarrow> chat" where
  "enqueue_step t ag prompt s =
     (case enqueue_message (ch_clock s) (ch_next_id s) this_chat prompt '''' (ch_rows s) of
        Inl _ \<Rightarrow> finish t s
      | Inr (_, rows) \<Rightarrow> move t (EnqUnpark ag) (s\<lparr>ch_rows := rows, ch_next_id := Suc (ch_next_id s)\<rparr>))"

text \<open>Restarting the queue: only for an agent that is no workflow.\<close>

definition drain_peek :: "nat \<Rightarrow> chat \<Rightarrow> chat" where
  "drain_peek t s = (case head_of s of None \<Rightarrow> finish t s | Some _ \<Rightarrow> move t Resume s)"

definition resume_queued :: "nat \<Rightarrow> chat \<Rightarrow> chat" where
  "resume_queued t s =
     (case ch_current s of Single a \<Rightarrow> move t (StartConsumer (Single a)) s | Flow _ \<Rightarrow> finish t s)"

definition online_list :: "nat \<Rightarrow> chat \<Rightarrow> chat" where
  "online_list t s =
     (if this_chat \<in> set (chat_ids_with_queue (ch_rows s)) then move t OnlineUnpark s else finish t s)"

fun thread_step :: "nat \<Rightarrow> place \<Rightarrow> chat \<Rightarrow> chat option" where
  "thread_step t (Begun k ag) s =
     Some (move t (if k = ForConsumer then Top ag else Check k ag) (unpark_queue s))"
| "thread_step t (Check k ag) s = Some (move t (if ch_online s then Store k ag else Releasing AfterDone) s)"
| "thread_step t (Store k ag) s = Some (move t (stored_next k ag) (s\<lparr>ch_current := ag\<rparr>))"
| "thread_step t (FirstGen ag) s = Some (move t (RunFirst ag (ch_gen s)) s)"
| "thread_step t (Top ag) s =
     Some (if ch_online s then move t (PopNext ag (ch_gen s)) s else move t (Parking (Until (ch_gen s)) True) s)"
| "thread_step t (PopNext ag gen) s = Some (pop_step t ag gen (Releasing (AfterPeek ag gen)) s)"
| "thread_step t (PeekNext ag gen) s =
     Some (case head_of s of None \<Rightarrow> finish t s | Some _ \<Rightarrow> move t (Reacquire ag gen) s)"
| "thread_step t (Reacquire ag gen) s =
     Some (case acquire t s of None \<Rightarrow> finish t s | Some s' \<Rightarrow> move t (RePop ag gen) s')"
| "thread_step t (RePop ag gen) s = Some (pop_step t ag gen (Top ag) s)"
| "thread_step t (Requeue m p) s =
     Some (move t (Parking p True)
       (case requeue_front (ch_clock s) m (ch_rows s) of Inl _ \<Rightarrow> s | Inr rows \<Rightarrow> s\<lparr>ch_rows := rows\<rparr>))"
| "thread_step t (ClearAll p) s =
     Some (move t (Parking p True) (clear_chat s))"
| "thread_step t (Parking p rel) s =
     Some (if rel then move t (Releasing AfterDone) (park_queue p s) else finish t (park_queue p s))"
| "thread_step t (Releasing a) s = Some (move t (Released a) (s\<lparr>ch_guard := None\<rparr>))"
| "thread_step t (Released a) s = Some (released_next t a (spawn DrainPark s))"
| "thread_step t (EnqInsert ag prompt) s =
     Some (enqueue_step t ag prompt s)"
| "thread_step t (EnqUnpark ag) s = Some (move t (StartConsumer ag) (unpark_queue s))"
| "thread_step t (StartConsumer ag) s = Some (start_step t ForConsumer ag s)"
| "thread_step t DrainPark s =
     Some (case ch_park s of None \<Rightarrow> move t DrainOnline s | Some p \<Rightarrow> move t (DrainGen p) s)"
| "thread_step t (DrainGen p) s = Some (if park_holds p s then finish t s else move t DrainOnline s)"
| "thread_step t DrainOnline s = Some (if ch_online s then move t DrainPeek s else finish t s)"
| "thread_step t DrainPeek s = Some (drain_peek t s)"
| "thread_step t Resume s =
     Some (resume_queued t s)"
| "thread_step t OnlineList s =
     Some (online_list t s)"
| "thread_step t OnlineUnpark s = Some (move t Resume (unpark_queue s))"
| "thread_step t Stopping s =
     Some (finish t (clear_chat s))"
| "thread_step t (RunFirst ag gen) s = None"
| "thread_step t (RunWait ag) s = None"
| "thread_step t (RunFlow ag) s = None"
| "thread_step t (Exec ag gen m) s = None"

text \<open>The end of an execution.\<close>

fun end_step :: "nat \<Rightarrow> outcome \<Rightarrow> place \<Rightarrow> chat \<Rightarrow> chat option" where
  "end_step t out (RunFirst ag gen) s = Some (move t (after_first ag gen out) s)"
| "end_step t out (Exec ag gen m) s = Some (move t (after_queued ag gen m out) s)"
| "end_step t out (RunWait ag) s = Some (move t (Releasing AfterDone) s)"
| "end_step t out (RunFlow ag) s = Some (move t (Releasing AfterDone) s)"
| "end_step t out _ s = None"

text \<open>A database error.\<close>

fun fail_step :: "nat \<Rightarrow> place \<Rightarrow> chat \<Rightarrow> chat option" where
  "fail_step t (PopNext ag gen) s = Some (move t (Parking Hard True) s)"
| "fail_step t (PeekNext ag gen) s = Some (move t (Parking Hard False) s)"
| "fail_step t (RePop ag gen) s = Some (move t (Top ag) s)"
| "fail_step t (Requeue m p) s = Some (move t (Parking p True) s)"
| "fail_step t DrainPeek s = Some (finish t s)"
| "fail_step t OnlineList s = Some (finish t s)"
| "fail_step t _ s = None"

section \<open>The chat\<close>

text \<open>
  Requests, the runner's connection, and the threads: \<open>Run\<close> is one step of a thread, \<open>End\<close> the end of its
  execution, \<open>FlowPause\<close> the event of a workflow that is suspended or over and \<open>FlowResume\<close> that of one that
  goes on (\<open>handleWorkflowEvent\<close>).
\<close>

datatype event =
    TriggerAsync agent string | TriggerWait agent | TriggerFlow agent | EnqueueApi string
  | StopChat | DeleteMessage nat | ClearQueue | Connect | Disconnect | Tick
  | Run nat | End nat outcome | DbError nat | FlowPause nat | FlowResume nat

text \<open>
  A request takes the guard or answers that the chat is busy; an asynchronous one for an agent queues
  its message then.
\<close>

definition begin_request :: "taken \<Rightarrow> agent \<Rightarrow> chat \<Rightarrow> chat" where
  "begin_request k ag s = (case acquire (ch_next s) s of None \<Rightarrow> s | Some s' \<Rightarrow> spawn (Begun k ag) s')"

definition trigger_async :: "agent \<Rightarrow> string \<Rightarrow> chat \<Rightarrow> chat option" where
  "trigger_async ag prompt s = (case ag of Flow _ \<Rightarrow> None
     | Single _ \<Rightarrow> Some (if ch_guard s = None then begin_request ForTrigger ag s else spawn (EnqInsert ag prompt) s))"

definition trigger_wait :: "agent \<Rightarrow> chat \<Rightarrow> chat option" where
  "trigger_wait ag s = (case ag of Flow _ \<Rightarrow> None | Single _ \<Rightarrow> Some (begin_request ForWait ag s))"

definition trigger_flow :: "agent \<Rightarrow> chat \<Rightarrow> chat option" where
  "trigger_flow ag s = (case ag of Single _ \<Rightarrow> None | Flow _ \<Rightarrow> Some (begin_request ForFlow ag s))"

text \<open>The queue's own requests name no agent; the chat's current one is used.\<close>

definition enqueue_request :: "string \<Rightarrow> chat \<Rightarrow> chat option" where
  "enqueue_request prompt s = (case ch_current s of Flow _ \<Rightarrow> None
     | Single a \<Rightarrow> Some (spawn (EnqInsert (Single a) prompt) s))"

definition stop_session :: "chat \<Rightarrow> chat option" where
  "stop_session s = (if ch_guard s = None then None else Some (spawn Stopping s))"

text \<open>A runner registers: its generation rises, and \<open>RunnerOnline\<close> starts.\<close>

definition runner_registers :: "chat \<Rightarrow> chat" where
  "runner_registers s = spawn OnlineList (s\<lparr>ch_online := True, ch_gen := Suc (ch_gen s)\<rparr>)"

definition flow_pauses :: "nat \<Rightarrow> chat \<Rightarrow> chat option" where
  "flow_pauses t s = (case map_of (ch_threads s) t of
     Some (RunFlow ag) \<Rightarrow> Some (move t (Releasing (AfterFlow ag)) s) | _ \<Rightarrow> None)"

definition flow_resumes :: "nat \<Rightarrow> chat \<Rightarrow> chat option" where
  "flow_resumes t s = (case map_of (ch_threads s) t of
     Some (RunFlow ag) \<Rightarrow> Some (if ch_guard s = None then s\<lparr>ch_guard := Some t\<rparr> else s) | _ \<Rightarrow> None)"

definition step :: "event \<Rightarrow> chat \<Rightarrow> chat option" where
  "step e s = (case e of
     TriggerAsync ag prompt \<Rightarrow> trigger_async ag prompt s
   | TriggerWait ag \<Rightarrow> trigger_wait ag s
   | TriggerFlow ag \<Rightarrow> trigger_flow ag s
   | EnqueueApi prompt \<Rightarrow> enqueue_request prompt s
   | StopChat \<Rightarrow> stop_session s
   | ClearQueue \<Rightarrow> Some (clear_chat s)
   | DeleteMessage i \<Rightarrow> (case delete_queued_message this_chat i (ch_rows s) of Inl _ \<Rightarrow> None | Inr rows \<Rightarrow> Some (s\<lparr>ch_rows := rows\<rparr>))
   | Connect \<Rightarrow> Some (runner_registers s)
   | Disconnect \<Rightarrow> Some (s\<lparr>ch_online := False\<rparr>)
   | Tick \<Rightarrow> Some (s\<lparr>ch_clock := Suc (ch_clock s)\<rparr>)
   | Run t \<Rightarrow> (case map_of (ch_threads s) t of None \<Rightarrow> None | Some p \<Rightarrow> thread_step t p s)
   | End t out \<Rightarrow> (case map_of (ch_threads s) t of None \<Rightarrow> None | Some p \<Rightarrow> end_step t out p s)
   | DbError t \<Rightarrow> (case map_of (ch_threads s) t of None \<Rightarrow> None | Some p \<Rightarrow> fail_step t p s)
   | FlowPause t \<Rightarrow> flow_pauses t s
   | FlowResume t \<Rightarrow> flow_resumes t s)"

definition start_chat :: "string \<Rightarrow> chat" where
  "start_chat ag = \<lparr>ch_rows = [], ch_guard = None, ch_park = None, ch_online = True, ch_gen = 1, ch_current = Single ag,
     ch_clock = 0, ch_next_id = 0, ch_threads = [], ch_next = 0\<rparr>"

text \<open>A run of events; None when one of them cannot happen.\<close>

fun run_events :: "event list \<Rightarrow> chat \<Rightarrow> chat option" where
  "run_events [] s = Some s"
| "run_events (e # es) s = (case step e s of None \<Rightarrow> None | Some s' \<Rightarrow> run_events es s')"

text \<open>The states reached by events of which each is allowed where it happens.\<close>

inductive chat_reach :: "(chat \<Rightarrow> event \<Rightarrow> bool) \<Rightarrow> string \<Rightarrow> chat \<Rightarrow> bool" for ok ag where
  reach_start: "chat_reach ok ag (start_chat ag)"
| reach_step: "chat_reach ok ag s \<Longrightarrow> ok s e \<Longrightarrow> step e s = Some s' \<Longrightarrow> chat_reach ok ag s'"

text \<open>No workflow is triggered in the chat.\<close>

definition no_flow :: "chat \<Rightarrow> event \<Rightarrow> bool" where
  "no_flow s e = (case e of TriggerFlow _ \<Rightarrow> False | _ \<Rightarrow> True)"

text \<open>Nor does the database fail where a drain or a reconnecting runner looks at the queue.\<close>

definition queue_read :: "chat \<Rightarrow> event \<Rightarrow> bool" where
  "queue_read s e = (no_flow s e \<and>
     (case e of DbError t \<Rightarrow> map_of (ch_threads s) t \<notin> {Some DrainPeek, Some OnlineList} | _ \<Rightarrow> True))"

definition executes :: "place \<Rightarrow> bool" where
  "executes p = (case p of RunFirst _ _ \<Rightarrow> True | RunWait _ \<Rightarrow> True | Exec _ _ _ \<Rightarrow> True | RunFlow _ \<Rightarrow> True | _ \<Rightarrow> False)"

end
