(* ===== verification/ChatGuardInv.thy ===== *)
theory ChatGuardInv
  imports ChatGuard
begin

text \<open>
  As long as no workflow runs in a chat its guard does what it is there for: the thread whose number it
  holds is the only one past \<open>LoadOrStore\<close>, so executions exclude each other, and whoever is responsible
  for waiting messages hands that on before it ends.
\<close>

lemmas chat_steps [simp] = park_queue_def unpark_queue_def clear_chat_def enqueue_step_def drain_peek_def resume_queued_def
  online_list_def trigger_async_def trigger_wait_def trigger_flow_def enqueue_request_def stop_session_def
  runner_registers_def flow_pauses_def flow_resumes_def

section \<open>Who holds the guard\<close>

text \<open>The places between taking the guard and releasing it.\<close>

fun holding :: "place \<Rightarrow> bool" where
  "holding (PeekNext _ _) = False"
| "holding (Reacquire _ _) = False"
| "holding (Parking _ rel) = rel"
| "holding (Released _) = False"
| "holding (EnqInsert _ _) = False"
| "holding (EnqUnpark _) = False"
| "holding (StartConsumer _) = False"
| "holding DrainPark = False"
| "holding (DrainGen _) = False"
| "holding DrainOnline = False"
| "holding DrainPeek = False"
| "holding Resume = False"
| "holding OnlineList = False"
| "holding OnlineUnpark = False"
| "holding Stopping = False"
| "holding _ = True"

fun is_flow :: "agent \<Rightarrow> bool" where
  "is_flow (Flow _) = True"
| "is_flow (Single _) = False"

text \<open>The agents of a place are no workflows; a park that is stored without the guard is hard.\<close>

fun plain_after :: "after \<Rightarrow> bool" where
  "plain_after AfterDone = True"
| "plain_after (AfterPeek ag _) = (\<not> is_flow ag)"
| "plain_after (AfterFlow _) = False"

fun plain_place :: "place \<Rightarrow> bool" where
  "plain_place (Begun k ag) = (\<not> is_flow ag \<and> k \<noteq> ForFlow)"
| "plain_place (Check k ag) = (\<not> is_flow ag \<and> k \<noteq> ForFlow)"
| "plain_place (Store k ag) = (\<not> is_flow ag \<and> k \<noteq> ForFlow)"
| "plain_place (FirstGen ag) = (\<not> is_flow ag)"
| "plain_place (RunFirst ag _) = (\<not> is_flow ag)"
| "plain_place (RunWait ag) = (\<not> is_flow ag)"
| "plain_place (RunFlow _) = False"
| "plain_place (Top ag) = (\<not> is_flow ag)"
| "plain_place (PopNext ag _) = (\<not> is_flow ag)"
| "plain_place (PeekNext ag _) = (\<not> is_flow ag)"
| "plain_place (Reacquire ag _) = (\<not> is_flow ag)"
| "plain_place (RePop ag _) = (\<not> is_flow ag)"
| "plain_place (Exec ag _ _) = (\<not> is_flow ag)"
| "plain_place (Parking q rel) = (rel \<or> q = Hard)"
| "plain_place (Releasing a) = plain_after a"
| "plain_place (Released a) = plain_after a"
| "plain_place (EnqInsert ag _) = (\<not> is_flow ag)"
| "plain_place (EnqUnpark ag) = (\<not> is_flow ag)"
| "plain_place (StartConsumer ag) = (\<not> is_flow ag)"
| "plain_place _ = True"

definition guard_inv :: "chat \<Rightarrow> bool" where
  "guard_inv s \<longleftrightarrow>
     \<not> is_flow (ch_current s) \<and>
     (\<forall>t p. map_of (ch_threads s) t = Some p \<longrightarrow> t < ch_next s \<and> plain_place p \<and> (holding p \<longleftrightarrow> ch_guard s = Some t)) \<and>
     (\<forall>t. ch_guard s = Some t \<longrightarrow> map_of (ch_threads s) t \<noteq> None)"

lemma guard_invD:
  assumes "guard_inv s" "map_of (ch_threads s) t = Some p"
  shows "t < ch_next s" "plain_place p" "holding p \<longleftrightarrow> ch_guard s = Some t"
  using assms by (auto simp: guard_inv_def)

lemma guard_inv_guard: "guard_inv s \<Longrightarrow> ch_guard s = Some t \<Longrightarrow> \<exists>p. map_of (ch_threads s) t = Some p \<and> holding p"
  by (auto simp: guard_inv_def)

lemma threads_sel [simp]:
  "map_of (ch_threads (move t p s)) = (map_of (ch_threads s))(t \<mapsto> p)"
  "map_of (ch_threads (finish t s)) = (map_of (ch_threads s))(t := None)"
  "map_of (ch_threads (spawn p s)) = (map_of (ch_threads s))(ch_next s \<mapsto> p)"
  by (simp_all add: move_def finish_def spawn_def update_conv' delete_conv')

lemma move_sel [simp]:
  "ch_rows (move t p s) = ch_rows s" "ch_guard (move t p s) = ch_guard s" "ch_park (move t p s) = ch_park s"
  "ch_online (move t p s) = ch_online s" "ch_gen (move t p s) = ch_gen s" "ch_current (move t p s) = ch_current s"
  "ch_next (move t p s) = ch_next s" "ch_clock (move t p s) = ch_clock s" "ch_next_id (move t p s) = ch_next_id s"
  by (simp_all add: move_def)

lemma finish_sel [simp]:
  "ch_rows (finish t s) = ch_rows s" "ch_guard (finish t s) = ch_guard s" "ch_park (finish t s) = ch_park s"
  "ch_online (finish t s) = ch_online s" "ch_gen (finish t s) = ch_gen s" "ch_current (finish t s) = ch_current s"
  "ch_next (finish t s) = ch_next s" "ch_clock (finish t s) = ch_clock s" "ch_next_id (finish t s) = ch_next_id s"
  by (simp_all add: finish_def)

lemma spawn_sel [simp]:
  "ch_rows (spawn p s) = ch_rows s" "ch_guard (spawn p s) = ch_guard s" "ch_park (spawn p s) = ch_park s"
  "ch_online (spawn p s) = ch_online s" "ch_gen (spawn p s) = ch_gen s" "ch_current (spawn p s) = ch_current s"
  "ch_next (spawn p s) = Suc (ch_next s)" "ch_clock (spawn p s) = ch_clock s" "ch_next_id (spawn p s) = ch_next_id s"
  by (simp_all add: spawn_def)

lemma acquire_Some [simp]: "acquire t s = Some s' \<longleftrightarrow> ch_guard s = None \<and> s' = s\<lparr>ch_guard := Some t\<rparr>"
  by (auto simp: acquire_def)

lemma acquire_None [simp]: "acquire t s = None \<longleftrightarrow> ch_guard s \<noteq> None"
  by (simp add: acquire_def)

text \<open>What a step of thread \<open>t\<close> may do to the guard.\<close>

definition guard_kept :: "nat \<Rightarrow> place \<Rightarrow> place option \<Rightarrow> chat \<Rightarrow> chat \<Rightarrow> bool" where
  "guard_kept t p q s s' \<longleftrightarrow>
     (let h = (case q of None \<Rightarrow> False | Some p' \<Rightarrow> holding p') in
       ch_guard s' = (if h then Some t else if holding p then None else ch_guard s) \<and>
       (h \<and> \<not> holding p \<longrightarrow> ch_guard s = None))"

lemma guard_inv_step:
  assumes "guard_inv s" "map_of (ch_threads s) t = Some p"
    and "map_of (ch_threads s') = (map_of (ch_threads s))(t := q)" "ch_next s' = ch_next s"
    and "guard_kept t p q s s'" "\<not> is_flow (ch_current s')" "\<And>p'. q = Some p' \<Longrightarrow> plain_place p'"
  shows "guard_inv s'"
  unfolding guard_inv_def
proof (intro conjI allI impI)
  note D = guard_invD [OF assms(1)]
  note k = assms(5) [unfolded guard_kept_def Let_def]
  show "\<not> is_flow (ch_current s')" by (rule assms(6))
  fix u r
  assume u: "map_of (ch_threads s') u = Some r"
  show "u < ch_next s'" using u D(1) assms(2-4) by (auto split: if_splits)
  show "plain_place r" using u D(2) assms(3,7) by (auto split: if_splits)
  show "holding r \<longleftrightarrow> ch_guard s' = Some u"
    using u D(3) [OF assms(2)] D(3) [of u r] assms(3) k by (auto split: if_splits option.splits)
next
  note D = guard_invD [OF assms(1)]
  note k = assms(5) [unfolded guard_kept_def Let_def]
  fix u
  assume "ch_guard s' = Some u"
  then show "map_of (ch_threads s') u \<noteq> None"
    using guard_inv_guard [OF assms(1), of u] D(3) [OF assms(2)] assms(2,3) k by (auto split: if_splits option.splits)
qed

lemma guard_inv_spawn:
  assumes "guard_inv s" "\<not> holding p" "plain_place p"
  shows "guard_inv (spawn p s)"
proof -
  have "map_of (ch_threads s) (ch_next s) = None" "ch_guard s \<noteq> Some (ch_next s)"
    using guard_invD(1) [OF assms(1), of "ch_next s"] guard_inv_guard [OF assms(1), of "ch_next s"]
    by (cases "map_of (ch_threads s) (ch_next s)"; force)+
  then show ?thesis using assms by (auto simp: guard_inv_def less_Suc_eq)
qed

section \<open>The guard in every step\<close>

text \<open>A thread that ends has no place in the new state.\<close>

definition tame :: "nat \<Rightarrow> place \<Rightarrow> chat \<Rightarrow> chat \<Rightarrow> bool" where
  "tame t p s s' \<longleftrightarrow>
     (let q = map_of (ch_threads s') t in
       map_of (ch_threads s') = (map_of (ch_threads s))(t := q) \<and> ch_next s' = ch_next s \<and> guard_kept t p q s s' \<and>
       \<not> is_flow (ch_current s') \<and> (\<forall>p'. q = Some p' \<longrightarrow> plain_place p'))"

lemma guard_inv_tame: "guard_inv s \<Longrightarrow> map_of (ch_threads s) t = Some p \<Longrightarrow> tame t p s s' \<Longrightarrow> guard_inv s'"
  by (rule guard_inv_step) (auto simp: tame_def Let_def)

lemma tame_move [simp]:
  assumes "ch_threads s0 = ch_threads s" "ch_next s0 = ch_next s"
  shows "tame t p s (move t p' s0) \<longleftrightarrow> \<not> is_flow (ch_current s0) \<and> plain_place p' \<and>
    ch_guard s0 = (if holding p' then Some t else if holding p then None else ch_guard s) \<and>
    (holding p' \<and> \<not> holding p \<longrightarrow> ch_guard s = None)"
  using assms by (auto simp: tame_def guard_kept_def Let_def)

lemma tame_finish [simp]:
  assumes "ch_threads s0 = ch_threads s" "ch_next s0 = ch_next s"
  shows "tame t p s (finish t s0) \<longleftrightarrow> \<not> is_flow (ch_current s0) \<and>
    ch_guard s0 = (if holding p then None else ch_guard s)"
  using assms by (auto simp: tame_def guard_kept_def Let_def)

lemma tame_pop:
  assumes "holding p" "holding idle" "plain_place idle" "\<not> is_flow ag" "\<not> is_flow (ch_current s)" "ch_guard s = Some t"
  shows "tame t p s (pop_step t ag gen idle s)"
  using assms by (simp add: pop_step_def split: option.splits prod.splits)

lemma thread_step_tame:
  assumes "guard_inv s" "map_of (ch_threads s) t = Some p" "thread_step t p s = Some s'" "\<And>a. p \<noteq> Released a"
  shows "tame t p s s'"
proof -
  note D = guard_invD [OF assms(1,2)]
  have c: "\<not> is_flow (ch_current s)" using assms(1) by (simp add: guard_inv_def)
  show ?thesis
    using assms(3,4) D(2,3) c
    by (cases p) (auto simp: stored_next_def start_step_def tame_pop Let_def
        split: if_splits taken.splits option.splits sum.splits agent.splits)
qed

lemma end_step_tame:
  assumes "guard_inv s" "map_of (ch_threads s) t = Some p" "end_step t out p s = Some s'"
  shows "tame t p s s'"
proof -
  note D = guard_invD [OF assms(1,2)]
  have c: "\<not> is_flow (ch_current s)" using assms(1) by (simp add: guard_inv_def)
  show ?thesis
    using assms(3) D(2,3) c by (cases p) (auto simp: after_first_def after_queued_def split: outcome.splits)
qed

lemma fail_step_tame:
  assumes "guard_inv s" "map_of (ch_threads s) t = Some p" "fail_step t p s = Some s'"
  shows "tame t p s s'"
proof -
  note D = guard_invD [OF assms(1,2)]
  have c: "\<not> is_flow (ch_current s)" using assms(1) by (simp add: guard_inv_def)
  show ?thesis using assms(3) D(2,3) c by (cases p) auto
qed

lemma guard_inv_frame:
  assumes "guard_inv s" "ch_threads s' = ch_threads s" "ch_next s' = ch_next s" "ch_guard s' = ch_guard s"
    "ch_current s' = ch_current s"
  shows "guard_inv s'"
  using assms by (simp add: guard_inv_def)

lemma guard_inv_begin:
  assumes "guard_inv s" "\<not> is_flow ag" "k \<noteq> ForFlow"
  shows "guard_inv (begin_request k ag s)"
  using assms guard_invD(1) [OF assms(1), of "ch_next s"]
  by (cases "map_of (ch_threads s) (ch_next s)")
    (auto simp: begin_request_def guard_inv_def less_Suc_eq split: option.splits)

lemma guard_inv_released:
  assumes "guard_inv s" "map_of (ch_threads s) t = Some (Released a)"
  shows "guard_inv (released_next t a (spawn DrainPark s))"
proof -
  note D = guard_invD [OF assms]
  have i: "guard_inv (spawn DrainPark s)" by (rule guard_inv_spawn [OF assms(1)]) simp_all
  have l: "map_of (ch_threads (spawn DrainPark s)) t = Some (Released a)" using assms(2) D(1) by simp
  have c: "\<not> is_flow (ch_current s)" using assms(1) by (simp add: guard_inv_def)
  have "tame t (Released a) (spawn DrainPark s) (released_next t a (spawn DrainPark s))"
    using D(2,3) c by (cases a) (simp_all add: released_next_def)
  then show ?thesis by (rule guard_inv_tame [OF i l])
qed

lemma step_guard_inv:
  assumes "guard_inv s" "no_flow s e" "step e s = Some s'"
  shows "guard_inv s'"
proof -
  have c: "\<not> is_flow (ch_current s)" using assms(1) by (simp add: guard_inv_def)
  have run: "guard_inv s'" if e: "e = Run t" for t
  proof -
    obtain p where p: "map_of (ch_threads s) t = Some p" "thread_step t p s = Some s'"
      using assms(3) unfolding e by (auto simp: step_def split: option.splits)
    show ?thesis
    proof (cases "\<exists>a. p = Released a")
      case True
      then show ?thesis using p guard_inv_released [OF assms(1)] by auto
    next
      case False
      then show ?thesis using p by (intro guard_inv_tame [OF assms(1) p(1)] thread_step_tame [OF assms(1)]) auto
    qed
  qed
  have "guard_inv s'" if "e = End t out" for t out
    using assms(1,3) unfolding that by (auto simp: step_def intro: guard_inv_tame end_step_tame split: option.splits)
  moreover have "guard_inv s'" if "e = DbError t" for t
    using assms(1,3) unfolding that by (auto simp: step_def intro: guard_inv_tame fail_step_tame split: option.splits)
  moreover have "e \<noteq> FlowPause t" "e \<noteq> FlowResume t" for t
    using assms(3) guard_invD(2) [OF assms(1), of t] by (auto simp: step_def split: option.splits place.splits)
  moreover have "guard_inv s'" if "\<And>t out. e \<notin> {Run t, End t out, DbError t, FlowPause t, FlowResume t}"
    using assms c that unfolding step_def no_flow_def
    by (cases e) (auto intro!: guard_inv_begin guard_inv_spawn
        intro: guard_inv_frame [of s] split: agent.splits if_splits sum.splits)
  ultimately show ?thesis using run by (cases e) auto
qed

lemma start_guard_inv: "guard_inv (start_chat ag)"
  by (simp add: guard_inv_def start_chat_def)

lemma reach_guard_inv:
  assumes "chat_reach ok ag s" "\<And>s e. ok s e \<Longrightarrow> no_flow s e"
  shows "guard_inv s"
  using assms(1) by induction (use start_guard_inv step_guard_inv assms(2) in blast)+


end
