(* ===== verification/ChatWaiting.thy ===== *)
theory ChatWaiting
  imports ChatGuardInv
begin

text \<open>
  What becomes of waiting messages in a chat without workflows: some thread minds them, or the queue is
  parked for a reason that still holds; and a runner that comes back takes them up again. The queue may
  exceed its limit by the one message that was being executed.
\<close>

section \<open>Minding the queue\<close>

definition blocked :: "chat \<Rightarrow> bool" where
  "blocked s \<longleftrightarrow> (case ch_park s of None \<Rightarrow> False | Some p \<Rightarrow> park_holds p s)"

text \<open>A thread at such a place looks at the queue again before it ends, or leaves that to another.\<close>

fun minding :: "chat \<Rightarrow> place \<Rightarrow> bool" where
  "minding s (EnqInsert _ _) = False"
| "minding s Stopping = False"
| "minding s (DrainGen p) = (\<not> park_holds p s)"
| "minding s _ = True"

definition minded :: "chat \<Rightarrow> bool" where
  "minded s \<longleftrightarrow> blocked s \<or> (\<exists>t p. map_of (ch_threads s) t = Some p \<and> minding s p)"

definition none_forgotten :: "chat \<Rightarrow> bool" where
  "none_forgotten s \<longleftrightarrow> (ch_online s \<and> head_of s \<noteq> None \<longrightarrow> minded s)"

lemma mindedI: "map_of (ch_threads s) t = Some p \<Longrightarrow> minding s p \<Longrightarrow> none_forgotten s"
  by (auto simp: none_forgotten_def minded_def)

lemma holding_minds: "holding p \<Longrightarrow> minding s p"
  by (cases p) simp_all

lemma guard_minds: "guard_inv s \<Longrightarrow> ch_guard s \<noteq> None \<Longrightarrow> none_forgotten s"
  using guard_inv_guard holding_minds mindedI by fastforce

lemma park_holds_cong:
  "ch_online s' = ch_online s \<Longrightarrow> ch_gen s' = ch_gen s \<Longrightarrow> park_holds p s' = park_holds p s"
  by (simp add: park_holds_def split: park.splits)

lemma minding_cong:
  "ch_online s' = ch_online s \<Longrightarrow> ch_gen s' = ch_gen s \<Longrightarrow> minding s' p = minding s p"
  using park_holds_cong [of s' s] by (cases p) simp_all

text \<open>A step of a thread that does not mind the queue leaves it to those that do.\<close>

lemma none_forgotten_frame:
  assumes "none_forgotten s" "ch_online s' = ch_online s" "ch_gen s' = ch_gen s" "ch_park s' = ch_park s"
    "head_of s' \<noteq> None \<Longrightarrow> head_of s \<noteq> None"
    "\<And>t p. map_of (ch_threads s) t = Some p \<Longrightarrow> minding s p \<Longrightarrow> map_of (ch_threads s') t = Some p"
  shows "none_forgotten s'"
proof -
  have "blocked s' = blocked s" using assms(2-4) park_holds_cong [OF assms(2,3)] by (simp add: blocked_def split: option.splits)
  moreover have "minding s' p = minding s p" for p using assms(2,3) by (rule minding_cong)
  ultimately show ?thesis using assms(1,2,5,6) unfolding none_forgotten_def minded_def by metis
qed

lemma head_rows: "ch_rows s' = ch_rows s \<Longrightarrow> head_of s' = head_of s"
  by (simp add: head_of_def)

lemma head_None: "head_of s = None \<longleftrightarrow> this_chat \<notin> set (chat_ids_with_queue (ch_rows s))"
proof -
  have "head_of s = None \<longleftrightarrow> get_queued_messages this_chat (ch_rows s) = []"
    by (simp add: head_of_def peek_next_def split: list.splits)
  then show ?thesis by (auto simp: get_queued_empty filter_empty_conv chat_ids_with_queue_def image_iff)
qed

lemma cleared_head: "ch_rows s = snd (clear_queued_messages this_chat r) \<Longrightarrow> head_of s = None"
  by (auto simp: head_None clear_queued_messages_def chat_ids_with_queue_def)

lemma finish_frame:
  assumes "none_forgotten s" "map_of (ch_threads s) t = Some p" "\<not> minding s p"
  shows "none_forgotten (finish t s)"
proof (rule none_forgotten_frame [OF assms(1)])
  show "head_of (finish t s) \<noteq> None \<Longrightarrow> head_of s \<noteq> None" by (simp add: head_of_def)
  show "map_of (ch_threads s) u = Some q \<Longrightarrow> minding s q \<Longrightarrow> map_of (ch_threads (finish t s)) u = Some q" for u q
    using assms(2,3) by auto
qed simp_all

lemma finish_guard:
  assumes "guard_inv s" "map_of (ch_threads s) t = Some p" "\<not> holding p" "ch_guard s \<noteq> None"
  shows "none_forgotten (finish t s)"
proof -
  obtain u q where u: "ch_guard s = Some u" "map_of (ch_threads s) u = Some q" "holding q"
    using assms(4) guard_inv_guard [OF assms(1)] by blast
  then have "u \<noteq> t" using assms(2,3) by auto
  with u show ?thesis by (intro mindedI [of _ u q]) (simp_all add: holding_minds)
qed

lemma finish_empty: "head_of s = None \<Longrightarrow> none_forgotten (finish t s)"
  by (simp add: none_forgotten_def head_of_def)

lemma move_minds: "minding (move t p s) p \<Longrightarrow> none_forgotten (move t p s)"
  by (rule mindedI [of _ t]) simp_all

lemma minding_at:
  assumes "s' = move t p s0" "minding s0 p"
  shows "none_forgotten s'"
  using assms move_minds [of t p s0] minding_cong [of "move t p s0" s0 p] by simp

text \<open>The places from which a step may end the thread, or park the queue, without the guard.\<close>

lemma thread_step_minds:
  assumes "guard_inv s" "none_forgotten s" "map_of (ch_threads s) t = Some p" "thread_step t p s = Some s'"
  shows "none_forgotten s'"
proof -
  have c: "\<not> is_flow (ch_current s)" using assms(1) by (simp add: guard_inv_def)
  note D = guard_invD [OF assms(1,3)]
  show ?thesis
  proof (cases p)
    case (PeekNext ag gen)
    with assms(4) show ?thesis by (auto intro: finish_empty minding_at split: option.splits)
  next
    case (Reacquire ag gen)
    with assms show ?thesis by (auto intro: finish_guard minding_at split: option.splits)
  next
    case (StartConsumer ag)
    with assms show ?thesis by (auto simp: start_step_def intro: finish_guard minding_at split: option.splits)
  next
    case (Parking q rel)
    show ?thesis
    proof (cases rel)
      case True
      with Parking assms(4) show ?thesis by (auto simp: Let_def intro: minding_at)
    next
      case False
      with Parking D(2) assms(4) have "blocked s'" by (auto simp: Let_def blocked_def park_holds_def)
      then show ?thesis by (simp add: none_forgotten_def minded_def)
    qed
  next
    case (Released a)
    have "ch_next s \<noteq> t" using D(1) by simp
    then have "map_of (ch_threads s') (ch_next s) = Some DrainPark"
      using Released assms(4) by (auto simp: released_next_def split: after.splits)
    then show ?thesis by (rule mindedI) simp
  next
    case (EnqInsert ag prompt)
    with assms show ?thesis by (auto intro: finish_frame minding_at split: sum.splits)
  next
    case DrainPark
    show ?thesis
    proof (cases "ch_park s")
      case None
      with DrainPark assms(4) show ?thesis by (auto intro: minding_at)
    next
      case (Some q)
      with DrainPark assms(4) have s': "s' = move t (DrainGen q) s" by simp
      show ?thesis
      proof (cases "park_holds q s")
        case True
        with s' Some park_holds_cong [of s' s q] have "blocked s'" by (simp add: blocked_def)
        then show ?thesis by (simp add: none_forgotten_def minded_def)
      qed (use s' in \<open>auto intro: minding_at\<close>)
    qed
  next
    case (DrainGen q)
    with assms show ?thesis by (auto intro: finish_frame minding_at split: if_splits)
  next
    case DrainOnline
    with assms(4) show ?thesis by (auto simp: none_forgotten_def [of "finish t s"] intro: minding_at split: if_splits)
  next
    case DrainPeek
    with assms(4) show ?thesis by (auto intro: finish_empty minding_at split: option.splits)
  next
    case Resume
    with assms(4) c show ?thesis by (auto intro: minding_at split: agent.splits)
  next
    case OnlineList
    with assms(4) show ?thesis by (auto simp: head_None intro: finish_empty minding_at split: if_splits)
  next
    case Stopping
    have "head_of s' = None" by (rule cleared_head [of s' "ch_rows s"]) (use Stopping assms(4) in auto)
    then show ?thesis by (simp add: none_forgotten_def)
  qed (use assms(4) in \<open>auto simp: stored_next_def pop_step_def intro: minding_at
        split: if_splits taken.splits option.splits prod.splits sum.splits\<close>)
qed

lemma end_step_minds:
  assumes "end_step t out p s = Some s'"
  shows "none_forgotten s'"
  using assms by (cases p) (auto simp: after_first_def after_queued_def intro: minding_at split: outcome.splits)

lemma fail_step_minds:
  assumes "fail_step t p s = Some s'" "p \<noteq> DrainPeek" "p \<noteq> OnlineList"
  shows "none_forgotten s'"
  using assms by (cases p) (auto intro: minding_at)

lemma spawn_frame:
  assumes "guard_inv s" "none_forgotten s"
  shows "none_forgotten (spawn p s)"
proof (rule none_forgotten_frame [OF assms(2)])
  show "head_of (spawn p s) \<noteq> None \<Longrightarrow> head_of s \<noteq> None" by (simp add: head_of_def)
  show "map_of (ch_threads s) u = Some q \<Longrightarrow> minding s q \<Longrightarrow> map_of (ch_threads (spawn p s)) u = Some q" for u q
    using guard_invD(1) [OF assms(1), of u] by auto
qed simp_all

lemma begin_minds: "none_forgotten s \<Longrightarrow> none_forgotten (begin_request k ag s)"
  by (auto simp: begin_request_def intro: mindedI [of _ "ch_next s" "Begun k ag"] split: option.splits)

lemma step_minds:
  assumes "guard_inv s" "none_forgotten s" "queue_read s e" "step e s = Some s'"
  shows "none_forgotten s'"
proof (cases e)
  case (DeleteMessage i)
  then obtain rows where r: "delete_queued_message this_chat i (ch_rows s) = Inr rows" "s' = s\<lparr>ch_rows := rows\<rparr>"
    using assms(4) by (auto simp: step_def split: sum.splits)
  have "set rows \<subseteq> set (ch_rows s)" using r(1) by (auto simp: delete_queued_message_def split: if_splits)
  then have "head_of s' \<noteq> None \<Longrightarrow> head_of s \<noteq> None" using r(2) by (auto simp: head_None chat_ids_with_queue_def)
  with r(2) show ?thesis by (intro none_forgotten_frame [OF assms(2)]) simp_all
next
  case ClearQueue
  have "head_of s' = None" by (rule cleared_head [of s' "ch_rows s"]) (use ClearQueue assms(4) in \<open>auto simp: step_def\<close>)
  then show ?thesis by (simp add: none_forgotten_def)
next
  case Connect
  then show ?thesis using assms(4) by (auto simp: step_def intro: mindedI [of _ "ch_next s" OnlineList])
next
  case Disconnect
  then show ?thesis using assms(4) by (auto simp: step_def none_forgotten_def)
next
  case Tick
  then show ?thesis using assms(4)
    by (intro none_forgotten_frame [OF assms(2)]) (auto simp: step_def head_of_def)
next
  case (Run t)
  then show ?thesis using assms(1,2,4) by (auto simp: step_def intro: thread_step_minds split: option.splits)
next
  case (End t out)
  then show ?thesis using assms(4) by (auto simp: step_def intro: end_step_minds split: option.splits)
next
  case (DbError t)
  then show ?thesis using assms(3,4)
    by (auto simp: step_def queue_read_def intro: fail_step_minds split: option.splits)
next
  case (FlowPause t)
  then show ?thesis using assms(4) guard_invD(2) [OF assms(1), of t]
    by (auto simp: step_def split: option.splits place.splits)
next
  case (FlowResume t)
  then show ?thesis using assms(4) guard_invD(2) [OF assms(1), of t]
    by (auto simp: step_def split: option.splits place.splits)
qed (use assms(1,2,4) in \<open>auto simp: step_def intro: begin_minds spawn_frame split: agent.splits if_splits\<close>)

lemma reach_minds: "chat_reach queue_read ag s \<Longrightarrow> guard_inv s \<and> none_forgotten s"
proof (induction rule: chat_reach.induct)
  case reach_start
  show ?case using start_guard_inv [of ag] by (simp add: none_forgotten_def head_of_def peek_next_def get_queued_messages_def)
      (simp add: start_chat_def)
next
  case (reach_step s e s')
  then show ?case using step_guard_inv step_minds by (auto simp: queue_read_def)
qed

section \<open>A reconnecting runner\<close>

lemma step_run: "map_of (ch_threads s) t = Some p \<Longrightarrow> step (Run t) s = thread_step t p s"
  by (simp add: step_def)

lemma connect_restarts:
  assumes "ch_guard s = None" "head_of s = Some m" "\<not> is_flow (ch_current s)"
  shows "\<exists>s'. run_events (Connect # replicate 7 (Run (ch_next s))) s = Some s' \<and> ch_guard s' = Some (ch_next s) \<and>
    map_of (ch_threads s') (ch_next s) = Some (Exec (ch_current s) (Suc (ch_gen s)) m)"
proof -
  have o: "this_chat \<in> set (chat_ids_with_queue (ch_rows s))" using head_None [of s] assms(2) by simp
  obtain a where a: "ch_current s = Single a" using assms(3) by (cases "ch_current s") auto
  obtain rows where "pop_next this_chat (ch_rows s) = Some (m, rows)"
    using assms(2) by (simp add: head_of_def pop_next_def)
  then show ?thesis using assms(1) o a
    by (simp add: numeral_eq_Suc step_run start_step_def pop_step_def step_def [of Connect] acquire_def)
qed


section \<open>The limit of the queue\<close>

fun in_flight :: "place \<Rightarrow> bool" where
  "in_flight (Exec _ _ _) = True"
| "in_flight (Requeue _ _) = True"
| "in_flight _ = False"

definition flying :: "chat \<Rightarrow> bool" where
  "flying s \<longleftrightarrow> (\<exists>t p. map_of (ch_threads s) t = Some p \<and> in_flight p)"

definition waiting :: "chat \<Rightarrow> nat" where
  "waiting s = length (get_queued_messages this_chat (ch_rows s))"

definition inside_limit :: "chat \<Rightarrow> bool" where
  "inside_limit s \<longleftrightarrow> waiting s \<le> max_queued + 1 \<and> (flying s \<longrightarrow> waiting s \<le> max_queued)"

lemma in_flight_holding: "in_flight p \<Longrightarrow> holding p"
  by (cases p) simp_all

lemma flyingI: "map_of (ch_threads s) t = Some p \<Longrightarrow> in_flight p \<Longrightarrow> flying s"
  unfolding flying_def by blast

lemma flying_threads:
  assumes "flying s'" "\<And>t p. map_of (ch_threads s') t = Some p \<Longrightarrow> in_flight p \<Longrightarrow> map_of (ch_threads s) t = Some p"
  shows "flying s"
  using assms unfolding flying_def by blast

lemma waiting_same: "ch_rows s' = ch_rows s \<Longrightarrow> waiting s' = waiting s"
  by (simp add: waiting_def)

lemma waiting_update [simp]:
  "waiting (s\<lparr>ch_guard := g\<rparr>) = waiting s" "waiting (s\<lparr>ch_park := k\<rparr>) = waiting s"
  "waiting (s\<lparr>ch_current := ag\<rparr>) = waiting s" "waiting (s\<lparr>ch_online := b\<rparr>) = waiting s"
  "waiting (s\<lparr>ch_online := b, ch_gen := n\<rparr>) = waiting s" "waiting (s\<lparr>ch_clock := n\<rparr>) = waiting s"
  by (simp_all add: waiting_def)

text \<open>A step that adds no message and puts none in flight.\<close>

lemma inside_limit_frame:
  assumes "inside_limit s" "waiting s' \<le> waiting s" "flying s' \<Longrightarrow> flying s"
  shows "inside_limit s'"
  using assms unfolding inside_limit_def by linarith

lemma pop_waiting:
  assumes "pop_next this_chat (ch_rows s) = Some (m, rows)"
  shows "length (get_queued_messages this_chat rows) < waiting s"
proof -
  obtain r where q: "get_queued_messages this_chat (ch_rows s) = m # r"
    and rows: "rows = filter (\<lambda>x. \<not> is_message this_chat (qm_id m) x) (ch_rows s)"
    using assms by (auto simp: pop_next_def peek_next_def split: list.splits)
  have "qm_chat m = this_chat" using q set_get_queued [of this_chat "ch_rows s"] by auto
  then show ?thesis unfolding rows queue_filter waiting_def q
    by (simp add: is_message_def le_imp_less_Suc)
qed

lemma waiting_enqueue:
  assumes "enqueue_message now i this_chat p md (ch_rows s) = Inr (m, rows)"
  shows "length (get_queued_messages this_chat rows) \<le> max_queued"
  using assms by (auto simp: enqueue_message_def Let_def length_get_queued split: if_splits)

lemma waiting_requeue:
  "requeue_front now m (ch_rows s) = Inr rows \<Longrightarrow> length (get_queued_messages this_chat rows) \<le> Suc (waiting s)"
  by (auto simp: requeue_front_def length_get_queued waiting_def split: if_splits)

lemma waiting_filter: "length (get_queued_messages this_chat (filter P (ch_rows s))) \<le> waiting s"
  by (simp add: queue_filter waiting_def)

lemma limit_below: "waiting s \<le> max_queued \<Longrightarrow> inside_limit s"
  by (simp add: inside_limit_def)

lemma limit_rows:
  assumes "inside_limit s" "ch_threads s' = ch_threads s" "waiting s' \<le> waiting s"
  shows "inside_limit s'"
  by (rule inside_limit_frame [OF assms(1,3)]) (simp add: flying_def assms(2))

lemma limit_move:
  assumes "inside_limit s" "s' = move t p s0" "ch_threads s0 = ch_threads s" "waiting s0 \<le> waiting s" "\<not> in_flight p"
  shows "inside_limit s'"
proof (rule inside_limit_frame [OF assms(1)])
  show "waiting s' \<le> waiting s" using assms(2,4) waiting_same [of s' s0] by simp
  show "flying s' \<Longrightarrow> flying s" by (erule flying_threads) (use assms(2,3,5) in \<open>auto split: if_splits\<close>)
qed

lemma limit_finish:
  assumes "inside_limit s" "s' = finish t s0" "ch_threads s0 = ch_threads s" "waiting s0 \<le> waiting s"
  shows "inside_limit s'"
proof (rule inside_limit_frame [OF assms(1)])
  show "waiting s' \<le> waiting s" using assms(2,4) waiting_same [of s' s0] by simp
  show "flying s' \<Longrightarrow> flying s" by (erule flying_threads) (use assms(2,3) in \<open>auto split: if_splits\<close>)
qed

lemma limit_spawn:
  assumes "inside_limit s" "s' = spawn p s0" "ch_threads s0 = ch_threads s" "waiting s0 \<le> waiting s" "\<not> in_flight p"
  shows "inside_limit s'"
proof (rule inside_limit_frame [OF assms(1)])
  show "waiting s' \<le> waiting s" using assms(2,4) waiting_same [of s' s0] by simp
  show "flying s' \<Longrightarrow> flying s" by (erule flying_threads) (use assms(2,3,5) in \<open>auto split: if_splits\<close>)
qed

lemma limit_requeued:
  assumes "inside_limit s" "map_of (ch_threads s) t = Some p" "in_flight p" "s' = move t q s"
  shows "inside_limit s'"
  using assms flyingI [of s t p] waiting_same [of s' s] by (simp add: inside_limit_def)

lemma limit_pop:
  assumes "inside_limit s" "holding idle" "\<not> in_flight idle"
  shows "inside_limit (pop_step t ag gen idle s)"
proof (cases "pop_next this_chat (ch_rows s)")
  case None
  with assms show ?thesis by (auto simp: pop_step_def intro: limit_move [OF assms(1)])
next
  case (Some x)
  obtain m rows where x: "x = (m, rows)" by (cases x)
  have "waiting (s\<lparr>ch_rows := rows\<rparr>) < waiting s" using pop_waiting [of s m rows] Some x by (simp add: waiting_def)
  with assms(1) have "waiting (s\<lparr>ch_rows := rows\<rparr>) \<le> max_queued" by (simp add: inside_limit_def)
  then show ?thesis using Some x
    by (simp add: pop_step_def limit_below waiting_same [of "move t (Exec ag gen m) (s\<lparr>ch_rows := rows\<rparr>)" "s\<lparr>ch_rows := rows\<rparr>"])
qed

lemma limit_requeue:
  assumes "guard_inv s" "inside_limit s" "map_of (ch_threads s) t = Some (Requeue m q)"
    and "thread_step t (Requeue m q) s = Some s'"
  shows "inside_limit s'"
proof -
  have g: "ch_guard s = Some t" using guard_invD(3) [OF assms(1,3)] by simp
  have "\<not> in_flight r" if "map_of (ch_threads s') u = Some r" for u r
  proof
    assume f: "in_flight r"
    have "u \<noteq> t" using that assms(4) f by auto
    moreover have "map_of (ch_threads s) u = Some r" using that assms(4) calculation by (auto split: sum.splits)
    ultimately show False using guard_invD(3) [OF assms(1)] in_flight_holding [OF f] g by fastforce
  qed
  moreover have "waiting s \<le> max_queued" using assms(2,3) flyingI [of s] by (simp add: inside_limit_def)
  then have "waiting s' \<le> max_queued + 1"
    using assms(4) waiting_requeue [of "ch_clock s" m s] by (fastforce simp: waiting_def split: sum.splits)
  ultimately show ?thesis by (auto simp: inside_limit_def flying_def)
qed

lemma clear_waiting: "waiting (s\<lparr>ch_rows := snd (clear_queued_messages this_chat (ch_rows s))\<rparr>) \<le> waiting s"
  by (simp add: clear_queued_messages_def waiting_def queue_filter)

lemma thread_step_limit:
  assumes "guard_inv s" "inside_limit s" "map_of (ch_threads s) t = Some p" "thread_step t p s = Some s'"
  shows "inside_limit s'"
proof (cases p)
  case (Requeue m q)
  with assms show ?thesis using limit_requeue by blast
next
  case (EnqInsert ag prompt)
  show ?thesis
  proof (cases "enqueue_message (ch_clock s) (ch_next_id s) this_chat prompt '''' (ch_rows s)")
    case Inl
    with EnqInsert assms(2,4) show ?thesis by (auto intro: limit_finish [OF assms(2)])
  next
    case (Inr x)
    with EnqInsert assms(4) show ?thesis
      by (cases x) (auto simp: waiting_def intro!: limit_below dest!: waiting_enqueue)
  qed
next
  case (Released a)
  have "inside_limit (spawn DrainPark s)" by (rule limit_spawn [OF assms(2) refl refl]) simp_all
  with Released assms(4) show ?thesis
    by (auto simp: released_next_def intro: limit_finish [of "spawn DrainPark s"] limit_move [of "spawn DrainPark s"] split: after.splits)
next
  case (ClearAll q)
  with assms(2,4) show ?thesis using clear_waiting by (auto intro: limit_move [OF assms(2)])
next
  case Stopping
  with assms(2,4) show ?thesis using clear_waiting by (auto intro: limit_finish [OF assms(2)])
qed (use assms(4) in \<open>auto simp: stored_next_def start_step_def Let_def
      intro: limit_pop [OF assms(2)] limit_move [OF assms(2)] limit_finish [OF assms(2)]
      split: if_splits taken.splits option.splits agent.splits\<close>)

lemma step_limit:
  assumes "guard_inv s" "inside_limit s" "no_flow s e" "step e s = Some s'"
  shows "inside_limit s'"
proof (cases e)
  case (DeleteMessage i)
  then show ?thesis using assms(2,4) waiting_filter [of _ s]
    by (auto simp: step_def delete_queued_message_def waiting_def
        intro!: limit_rows [OF assms(2)] split: sum.splits if_splits)
next
  case ClearQueue
  then show ?thesis using assms(4) clear_waiting [of s]
    by (auto simp: step_def intro!: limit_rows [OF assms(2)])
next
  case (Run t)
  then show ?thesis using assms(1,2,4) by (auto simp: step_def intro: thread_step_limit split: option.splits)
next
  case (End t out)
  then obtain p where p: "map_of (ch_threads s) t = Some p" "end_step t out p s = Some s'"
    using assms(4) by (auto simp: step_def split: option.splits)
  then show ?thesis
    by (cases p) (auto simp: after_first_def intro: limit_move [OF assms(2)] limit_requeued [OF assms(2)]
        split: outcome.splits)
next
  case (DbError t)
  then obtain p where p: "map_of (ch_threads s) t = Some p" "fail_step t p s = Some s'"
    using assms(4) by (auto simp: step_def split: option.splits)
  then show ?thesis by (cases p) (auto intro: limit_move [OF assms(2)] limit_finish [OF assms(2)])
next
  case (FlowPause t)
  then show ?thesis using assms(4) guard_invD(2) [OF assms(1), of t]
    by (auto simp: step_def split: option.splits place.splits)
next
  case (FlowResume t)
  then show ?thesis using assms(4) guard_invD(2) [OF assms(1), of t]
    by (auto simp: step_def split: option.splits place.splits)
qed (use assms(2,4) in \<open>auto simp: step_def begin_request_def intro: limit_spawn [OF assms(2)] limit_rows [OF assms(2)]
      split: agent.splits if_splits option.splits\<close>)

text \<open>
  In a chat without workflows at most four messages wait, one more than the limit of the queue, and no
  more than the limit while one is being executed: a message that is put back was admitted before others
  took its place.
\<close>

lemma queue_limit_exceeded_by_one:
  assumes "chat_reach no_flow ag s"
  shows "length (get_queued_messages this_chat (ch_rows s)) \<le> max_queued + 1 \<and>
    ((\<exists>t p. map_of (ch_threads s) t = Some p \<and> in_flight p) \<longrightarrow>
      length (get_queued_messages this_chat (ch_rows s)) \<le> max_queued)"
proof -
  have "guard_inv s \<and> inside_limit s" using assms
  proof induction
    case reach_start
    show ?case using start_guard_inv [of ag]
      by (simp add: inside_limit_def waiting_def get_queued_messages_def) (simp add: start_chat_def)
  next
    case (reach_step s e s')
    then show ?case using step_guard_inv step_limit by blast
  qed
  then show ?thesis by (auto simp: inside_limit_def waiting_def flying_def)
qed

end
