(* ===== verification/ChatRuns.thy ===== *)
theory ChatRuns
  imports ChatWaiting
begin

text \<open>
  Runs of one chat, evaluated: those at which the properties of the guard and the queue apply, and three
  in which the code does not do what it is meant to.
\<close>

section \<open>Evaluated runs\<close>

fun allowed :: "(chat \<Rightarrow> event \<Rightarrow> bool) \<Rightarrow> event list \<Rightarrow> chat \<Rightarrow> bool" where
  "allowed ok [] s = True"
| "allowed ok (e # es) s = (ok s e \<and> (case step e s of None \<Rightarrow> True | Some s' \<Rightarrow> allowed ok es s'))"

lemma run_reaches: "chat_reach ok ag s \<Longrightarrow> allowed ok es s \<Longrightarrow> run_events es s = Some s' \<Longrightarrow> chat_reach ok ag s'"
  by (induction es arbitrary: s) (auto split: option.splits intro: reach_step)

lemma run_from_start:
  "allowed ok es (start_chat ag) \<Longrightarrow> run_events es (start_chat ag) = Some s \<Longrightarrow> chat_reach ok ag s"
  using run_reaches reach_start by blast

definition ran :: "event list \<Rightarrow> chat" where
  "ran es = the (run_events es (start_chat ''a''))"

lemma ranI: "allowed ok es (start_chat ''a'') \<Longrightarrow> run_events es (start_chat ''a'') \<noteq> None \<Longrightarrow> chat_reach ok ''a'' (ran es)"
  unfolding ran_def by (rule run_from_start) auto

definition steps :: "nat \<Rightarrow> nat \<Rightarrow> event list" where
  "steps n t = replicate n (Run t)"

definition any_event :: "chat \<Rightarrow> event \<Rightarrow> bool" where
  "any_event s e = True"

text \<open>An agent runs.\<close>

definition ex_running :: "event list" where
  "ex_running = TriggerAsync (Single ''a'') ''p'' # steps 4 0"

text \<open>A message is queued while the runner is away: its consumer parks the queue and ends.\<close>

definition ex_parked :: "event list" where
  "ex_parked = Disconnect # EnqueueApi ''p'' # steps 8 0 @ steps 2 1"

text \<open>Three messages wait behind a run; one is taken, another queued, and the one taken is put back.\<close>

definition ex_requeued :: "event list" where
  "ex_requeued = ex_running @ concat (map (\<lambda>t. EnqueueApi ''p'' # steps 3 t) [1, 2, 3]) @
     [End 0 Succeeded] @ steps 2 0 @ EnqueueApi ''p'' # steps 3 4 @ [End 0 RunnerOffline, Run 0]"



text \<open>The bound is reached.\<close>

lemma queue_limit_exceeded_by_one_witness:
  "length (get_queued_messages this_chat (ch_rows (ran ex_requeued))) = max_queued + 1 \<and>
   length (get_queued_messages this_chat (ch_rows (ran ex_requeued))) \<le> max_queued + 1"
proof
  show "length (get_queued_messages this_chat (ch_rows (ran ex_requeued))) = max_queued + 1" by code_simp
  have "allowed no_flow ex_requeued (start_chat ''a'')" "run_events ex_requeued (start_chat ''a'') \<noteq> None" by code_simp+
  then have "chat_reach no_flow ''a'' (ran ex_requeued)" by (rule ranI)
  from queue_limit_exceeded_by_one [OF this]
  show "length (get_queued_messages this_chat (ch_rows (ran ex_requeued))) \<le> max_queued + 1" by simp
qed

section \<open>Workflows in the chat\<close>

text \<open>
  A workflow that waits for the user gives up the guard; an agent is triggered and takes it; the workflow
  ends, and its deferred release drops the agent's guard; the agent is triggered again.
\<close>

definition ex_two :: "event list" where
  "ex_two = TriggerFlow (Flow ''w'') # steps 3 0 @ FlowPause 0 # steps 2 0 @
     TriggerAsync (Single ''a'') ''p'' # steps 4 2 @ FlowResume 0 # End 0 Succeeded # Run 0 #
     TriggerAsync (Single ''a'') ''q'' # steps 4 3"

text \<open>
  C28. With a workflow in the chat the guard does not exclude: a workflow that is suspended or ends releases
  it whoever holds it, so two runs of one agent execute in the chat at the same time.
\<close>

theorem workflow_release_breaks_exclusion:
  "\<exists>s t u. chat_reach any_event ''a'' s \<and> t \<noteq> u \<and>
     map_of (ch_threads s) t = Some (RunFirst (Single ''a'') 1) \<and> map_of (ch_threads s) u = Some (RunFirst (Single ''a'') 1)"
proof (intro exI conjI)
  have "allowed any_event ex_two (start_chat ''a'')" "run_events ex_two (start_chat ''a'') \<noteq> None" by code_simp+
  then show "chat_reach any_event ''a'' (ran ex_two)" by (rule ranI)
  show "(2::nat) \<noteq> 3" by simp
  show "map_of (ch_threads (ran ex_two)) 2 = Some (RunFirst (Single ''a'') 1)"
    "map_of (ch_threads (ran ex_two)) 3 = Some (RunFirst (Single ''a'') 1)" by code_simp+
qed

text \<open>A message for an agent is queued while a workflow runs, and the workflow ends.\<close>

definition ex_stranded :: "event list" where
  "ex_stranded = TriggerFlow (Flow ''w'') # steps 3 0 @ TriggerAsync (Single ''a'') ''p'' # steps 3 1 @
     End 0 Succeeded # steps 2 0 @ steps 4 2"


text \<open>A queued message does not record the agent it was sent to; the consumer's agent executes it.\<close>

definition ex_other :: "event list" where
  "ex_other = ex_running @ TriggerAsync (Single ''b'') ''q'' # steps 3 1 @ End 0 Succeeded # steps 2 0"

lemma queued_for_another_agent:
  "(case map_of (ch_threads (ran ex_other)) 0 of Some (Exec ag _ m) \<Rightarrow> ag = Single ''a'' \<and> qm_prompt m = ''q'' | _ \<Rightarrow> False)"
  by code_simp

end
