(* ===== verification/GoGlob.thy ===== *)
theory GoGlob
  imports GoPath GoText
begin

text \<open>
  Go's \<open>path.Match\<close> (and \<open>filepath.Match\<close> on Unix): a pattern is a sequence of chunks, each behind a star
  or not. As in Go the first place at which a chunk matches behind its star is taken and never given up,
  and a star does not cross a slash. A bad pattern matches nothing here; the callers ignore the error or
  treat it as no match.
\<close>

datatype glob_tok = TokChar char | TokAny | TokClass bool "(char \<times> char) list"

text \<open>One character of a class: \<open>getEsc\<close>.\<close>

fun get_esc :: "string \<Rightarrow> (char \<times> string) option" where
  "get_esc [] = None"
| "get_esc (c # cs) =
     (if c = CHR ''-'' \<or> c = CHR '']'' then None
      else if c = CHR 0x5C then (case cs of d # e # r \<Rightarrow> Some (d, e # r) | _ \<Rightarrow> None)
      else if cs = [] then None else Some (c, cs))"

lemma get_esc_shorter: "get_esc s = Some (c, r) \<Longrightarrow> length r < length s"
  by (cases s) (auto split: if_splits list.splits)

text \<open>The ranges of a class up to its bracket; there must be one.\<close>

definition get_range :: "string \<Rightarrow> ((char \<times> char) \<times> string) option" where
  "get_range s =
     (case get_esc s of None \<Rightarrow> None
      | Some (lo, r) \<Rightarrow>
          if r \<noteq> [] \<and> hd r = CHR ''-''
          then (case get_esc (tl r) of None \<Rightarrow> None | Some (hi, r') \<Rightarrow> Some ((lo, hi), r'))
          else Some ((lo, lo), r))"

lemma get_range_shorter: "get_range s = Some (p, r) \<Longrightarrow> length r < length s"
proof -
  assume a: "get_range s = Some (p, r)"
  then obtain lo q where q: "get_esc s = Some (lo, q)" by (auto simp: get_range_def split: option.splits)
  note l = get_esc_shorter [OF q]
  show ?thesis
  proof (cases "q \<noteq> [] \<and> hd q = CHR ''-''")
    case True
    with a q obtain hi where "get_esc (tl q) = Some (hi, r)" by (auto simp: get_range_def split: option.splits)
    from get_esc_shorter [OF this] l show ?thesis by (cases q) auto
  next
    case False
    with a q l show ?thesis by (auto simp: get_range_def)
  qed
qed

function class_ranges :: "bool \<Rightarrow> string \<Rightarrow> ((char \<times> char) list \<times> string) option" where
  "class_ranges any s =
     (if any \<and> s \<noteq> [] \<and> hd s = CHR '']'' then Some ([], tl s)
      else (case get_range s of None \<Rightarrow> None
        | Some (p, r) \<Rightarrow> map_option (\<lambda>(ps, r'). (p # ps, r')) (class_ranges True r)))"
  by pat_completeness auto
termination
  by (relation "measure (\<lambda>(_, s). length s)") (auto dest: get_range_shorter)

declare class_ranges.simps [simp del]

lemma class_ranges_shorter: "class_ranges any s = Some (ps, r) \<Longrightarrow> length r < length s"
proof (induction any s arbitrary: ps r rule: class_ranges.induct)
  case (1 any s)
  show ?case
  proof (cases "any \<and> s \<noteq> [] \<and> hd s = CHR '']''")
    case True
    with "1.prems" show ?thesis by (subst (asm) class_ranges.simps) (cases s; auto)
  next
    case False
    with "1.prems" obtain p q ps' where "get_range s = Some (p, q)" "class_ranges True q = Some (ps', r)"
      by (auto simp: class_ranges.simps [of any s] split: option.splits if_splits)
    with "1.IH" [OF False, of "(p, q)" p q ps' r] get_range_shorter [of s p q] show ?thesis by auto
  qed
qed

text \<open>None for a star.\<close>

function glob_tokens :: "string \<Rightarrow> glob_tok option list option" where
  "glob_tokens s =
     (case s of [] \<Rightarrow> Some []
      | c # cs \<Rightarrow>
          if c = CHR ''*'' then map_option ((#) None) (glob_tokens cs)
          else if c = CHR ''?'' then map_option ((#) (Some TokAny)) (glob_tokens cs)
          else if c = CHR ''['' then
            (let neg = (cs \<noteq> [] \<and> hd cs = CHR ''^'')
             in case class_ranges False (if neg then tl cs else cs) of None \<Rightarrow> None
                | Some (ps, r) \<Rightarrow> map_option ((#) (Some (TokClass neg ps))) (glob_tokens r))
          else if c = CHR 0x5C then
            (case cs of [] \<Rightarrow> None | d # r \<Rightarrow> map_option ((#) (Some (TokChar d))) (glob_tokens r))
          else map_option ((#) (Some (TokChar c))) (glob_tokens cs))"
  by pat_completeness auto
termination
  by (relation "measure length") (auto dest!: class_ranges_shorter simp: Let_def split: if_splits)

declare glob_tokens.simps [simp del]

definition tok_matches :: "glob_tok \<Rightarrow> char \<Rightarrow> bool" where
  "tok_matches t c = (case t of TokChar d \<Rightarrow> c = d | TokAny \<Rightarrow> c \<noteq> slash
     | TokClass neg ps \<Rightarrow> list_ex (\<lambda>(lo, hi). lo \<le> c \<and> c \<le> hi) ps \<noteq> neg)"

fun match_chunk :: "glob_tok list \<Rightarrow> string \<Rightarrow> string option" where
  "match_chunk [] s = Some s"
| "match_chunk (t # ts) [] = None"
| "match_chunk (t # ts) (c # cs) = (if tok_matches t c then match_chunk ts cs else None)"

text \<open>The first place behind a star; the last chunk has to end with the name.\<close>

fun match_behind :: "glob_tok list \<Rightarrow> bool \<Rightarrow> string \<Rightarrow> string option" where
  "match_behind ts at_end [] = None"
| "match_behind ts at_end (c # cs) =
     (if c = slash then None
      else (case match_chunk ts cs of
          Some r \<Rightarrow> if at_end \<and> r \<noteq> [] then match_behind ts at_end cs else Some r
        | None \<Rightarrow> match_behind ts at_end cs))"

text \<open>\<open>scanChunk\<close>: whether a chunk stands behind a star, and the chunk.\<close>

fun glob_chunks :: "bool \<Rightarrow> glob_tok list \<Rightarrow> glob_tok option list \<Rightarrow> (bool \<times> glob_tok list) list" where
  "glob_chunks star acc [] = (if star \<or> acc \<noteq> [] then [(star, rev acc)] else [])"
| "glob_chunks star acc (Some t # ts) = glob_chunks star (t # acc) ts"
| "glob_chunks star acc (None # ts) =
     (if acc = [] then glob_chunks True [] ts else (star, rev acc) # glob_chunks True [] ts)"

fun match_chunks :: "(bool \<times> glob_tok list) list \<Rightarrow> string \<Rightarrow> bool" where
  "match_chunks [] s \<longleftrightarrow> s = []"
| "match_chunks ((star, ts) # cs) s \<longleftrightarrow>
     (if star \<and> ts = [] then slash \<notin> set s
      else (case (case match_chunk ts s of
                Some r \<Rightarrow> if cs = [] \<and> r \<noteq> [] then (if star then match_behind ts True s else None) else Some r
              | None \<Rightarrow> if star then match_behind ts (cs = []) s else None) of
          None \<Rightarrow> False | Some r \<Rightarrow> match_chunks cs r))"

definition path_match :: "string \<Rightarrow> string \<Rightarrow> bool" where
  "path_match pattern s =
     (case glob_tokens pattern of None \<Rightarrow> False | Some ts \<Rightarrow> match_chunks (glob_chunks False [] ts) s)"

section \<open>Literal patterns\<close>

definition glob_free :: "string \<Rightarrow> bool" where
  "glob_free p \<longleftrightarrow> list_all (\<lambda>c. c \<noteq> CHR ''*'' \<and> c \<noteq> CHR ''?'' \<and> c \<noteq> CHR ''['' \<and> c \<noteq> CHR 0x5C) p"

lemma glob_tokens_free: "glob_free p \<Longrightarrow> glob_tokens p = Some (map (\<lambda>c. Some (TokChar c)) p)"
  by (induction p) (auto simp: glob_free_def glob_tokens.simps)

lemma glob_chunks_free: "glob_chunks star acc (map (\<lambda>c. Some (TokChar c)) p) =
    (if star \<or> acc \<noteq> [] \<or> p \<noteq> [] then [(star, rev acc @ map TokChar p)] else [])"
  by (induction p arbitrary: acc) auto

lemma match_chunk_free: "match_chunk (map TokChar p) s = cut_prefix p s"
proof (induction p arbitrary: s)
  case Nil
  show ?case by (simp add: cut_prefix_def)
next
  case (Cons c p)
  then show ?case by (cases s) (auto simp: cut_prefix_def tok_matches_def)
qed

theorem path_match_free: "glob_free p \<Longrightarrow> path_match p s \<longleftrightarrow> s = p"
proof -
  assume "glob_free p"
  moreover have "cut_prefix p s = Some [] \<longleftrightarrow> s = p"
    by (auto simp: cut_prefix_def)
  ultimately show ?thesis
    by (cases p) (auto simp: path_match_def glob_tokens_free glob_chunks_free match_chunk_free
        match_chunk_free [of "_ # _", simplified] split: option.splits if_splits)
qed

end
