(* ===== verification/BoxMounts.thy ===== *)
theory BoxMounts
  imports ChatAccessProps GoGlob
begin

text \<open>
  The arguments of a bubblewrap sandbox (\<open>backend/lib/bwrap/bwrap.go\<close>): which directories are bound
  read-write or read-only, in which order, and what is masked. An argument list is a list of \<open>mount\<close>
  operations; bubblewrap carries them out in their order, so a later one covers what an earlier one put
  at its place or below. What the host answers is the record \<open>box_host\<close>.
\<close>

section \<open>Arguments and the host\<close>

datatype mount = Bind string string | RoBind string string | Tmpfs string | ProcFs string | DevFs string
  | MkDir string | SetEnv string string | Chdir string | Flag string | Command "string list"

datatype file_kind = KDir | KFile | KLink | KOther

text \<open>
  \<open>bx_stat\<close> follows links and \<open>bx_lstat\<close> does not; \<open>bx_read_dir\<close> is a listing with the kinds in it (after the
  directories a mask rule creates exist); \<open>bx_glob\<close> are the directories a pattern matches, None for a bad
  pattern; \<open>bx_re\<close> compiles a regular expression; \<open>bx_merge\<close> is whether the bundle of
  certificates could be written; \<open>bx_missing\<close> tells that what could not be read does not exist. An unset
  variable is empty.
\<close>

record box_host =
  bx_home :: "string option"
  bx_data :: string
  bx_config :: string
  bx_env :: "string \<Rightarrow> string"
  bx_eval :: "string \<Rightarrow> string option"
  bx_stat :: "string \<Rightarrow> file_kind option"
  bx_lstat :: "string \<Rightarrow> file_kind option"
  bx_read_dir :: "string \<Rightarrow> (string \<times> file_kind) list option"
  bx_missing :: "string \<Rightarrow> bool"
  bx_read_file :: "string \<Rightarrow> string option"
  bx_glob :: "string \<Rightarrow> string list option"
  bx_abs :: "string \<Rightarrow> string option"
  bx_mkdir :: "string \<Rightarrow> bool"
  bx_merge :: "string \<Rightarrow> bool"
  bx_re :: "string \<Rightarrow> (string \<Rightarrow> bool) option"

datatype account_error = UnsupportedCli string | InvalidAlias string | PathTraversal string | UnreadableAccounts
  | NoSuchAccount string | MissingCredentials string | RelayFailed string | InvalidProfile string

datatype box_error = NoHome | NoChatDir string | ReadonlyReserved string | ReadonlyMasked string string
  | ReadonlyRelative string | RunDirMissing string | MountMissing string | BundleFailed | AccountFailed account_error
  | ContractFailed | NotVisible string

definition is_file :: "box_host \<Rightarrow> string \<Rightarrow> bool" where
  "is_file h p \<longleftrightarrow> (case bx_stat h p of None \<Rightarrow> False | Some k \<Rightarrow> k \<noteq> KDir)"

definition is_dir :: "box_host \<Rightarrow> string \<Rightarrow> bool" where
  "is_dir h p \<longleftrightarrow> bx_stat h p = Some KDir"

definition null_bind :: "box_host \<Rightarrow> string \<Rightarrow> mount list" where
  "null_bind h p = (if is_file h p then [RoBind ''/dev/null'' p] else [])"

section \<open>Containment\<close>

definition real_and_lexical :: "box_host \<Rightarrow> string \<Rightarrow> string list" where
  "real_and_lexical h p = (let c = path_clean p in c #
     (case bx_eval h p of None \<Rightarrow> [] | Some e \<Rightarrow> if e \<noteq> c then [e] else []))"

definition beneath_any :: "box_host \<Rightarrow> string list \<Rightarrow> string \<Rightarrow> bool" where
  "beneath_any h dirs p \<longleftrightarrow>
     list_ex (\<lambda>d. path_is_abs d \<and>
       list_ex (\<lambda>base. list_ex (\<lambda>c. lexical_rel base c \<noteq> None) (real_and_lexical h (path_clean p)))
         (real_and_lexical h d)) dirs"

definition append_bind :: "box_host \<Rightarrow> string list \<Rightarrow> string \<Rightarrow> mount" where
  "append_bind h ro d = (if beneath_any h ro d then RoBind d d else Bind d d)"

section \<open>Read-only roots\<close>

definition validate_readonly_roots :: "box_host \<Rightarrow> string list \<Rightarrow> string list \<Rightarrow> box_error option" where
  "validate_readonly_roots h dirs masked =
     find_map (\<lambda>d.
       if \<not> path_is_abs d then None
       else if list_ex (\<lambda>c. c = ''/tmp'' \<or> c = ''/session'' \<or> cut_prefix ''/session/'' c \<noteq> None) (real_and_lexical h d)
       then Some (ReadonlyReserved d)
       else find_map (\<lambda>m. if m \<noteq> '''' \<and> beneath_any h [m] d then Some (ReadonlyMasked d m) else None) masked) dirs"

fun readonly_binds :: "box_host \<Rightarrow> string list \<Rightarrow> box_error + mount list" where
  "readonly_binds h [] = Inr []"
| "readonly_binds h (d # ds) =
     (if \<not> path_is_abs d then Inl (ReadonlyRelative d)
      else if bx_stat h d = None then readonly_binds h ds
      else (case readonly_binds h ds of Inl e \<Rightarrow> Inl e
        | Inr ops \<Rightarrow> Inr (RoBind d d #
            (case bx_eval h d of None \<Rightarrow> [] | Some e \<Rightarrow> if e \<noteq> path_clean d then [RoBind e e] else []) @ ops)))"

definition expand_glob_dirs :: "box_host \<Rightarrow> string \<Rightarrow> string list option" where
  "expand_glob_dirs h d =
     (if \<not> has_glob d then None else Some (case bx_glob h d of None \<Rightarrow> [] | Some ms \<Rightarrow> map path_clean ms))"

definition expanded :: "box_host \<Rightarrow> string list \<Rightarrow> string list" where
  "expanded h ds = concat (map (\<lambda>d. case expand_glob_dirs h d of None \<Rightarrow> [d] | Some ms \<Rightarrow> ms) ds)"

section \<open>What every sandbox has\<close>

definition session_tmp_dir :: "box_host \<Rightarrow> string \<Rightarrow> string" where
  "session_tmp_dir h chat = path_join [tmp_dir (bx_data h), chat]"

definition session_dir :: "box_host \<Rightarrow> string \<Rightarrow> string" where
  "session_dir h chat = path_join [sessions_dir (bx_data h), chat]"

definition setup_dir :: "box_host \<Rightarrow> (box_host \<Rightarrow> string \<Rightarrow> string) \<Rightarrow> string \<Rightarrow> box_error + string" where
  "setup_dir h f chat = (let d = f h (if chat = '''' then ''default'' else chat)
     in if bx_mkdir h d then Inr d else Inl (NoChatDir d))"

text \<open>A path is bound at most once.\<close>

fun system_binds :: "box_host \<Rightarrow> string list \<Rightarrow> string list \<Rightarrow> mount list" where
  "system_binds h seen [] = []"
| "system_binds h seen (p # ps) =
     (if p \<in> set seen \<or> bx_stat h p = None then system_binds h seen ps
      else RoBind p p # system_binds h (p # seen) ps)"

definition system_paths :: "box_host \<Rightarrow> string list" where
  "system_paths h =
     [''/bin'', ''/usr/bin'', ''/usr/local/bin''] @
     (if bx_env h ''PATH'' = '''' then [] else filter (\<lambda>p. p \<noteq> '''') (split_on (CHR '':'') (bx_env h ''PATH''))) @
     [''/lib'', ''/lib64'', ''/usr/lib'', ''/usr/libexec'', ''/usr/include'', ''/usr/share/zoneinfo'',
      ''/usr/share/zoneinfo-icu'', ''/etc''] @
     (case bx_eval h ''/etc/localtime'' of None \<Rightarrow> [] | Some e \<Rightarrow> if e \<noteq> ''/etc/localtime'' then [e] else [])"

definition env_if_set :: "box_host \<Rightarrow> string \<Rightarrow> mount list" where
  "env_if_set h k = (if bx_env h k = '''' then [] else [SetEnv k (bx_env h k)])"

definition base_ops :: "box_host \<Rightarrow> string \<Rightarrow> string \<Rightarrow> box_error + mount list" where
  "base_ops h home chat =
     (case setup_dir h session_tmp_dir chat of Inl e \<Rightarrow> Inl e
      | Inr tmp \<Rightarrow> (case setup_dir h session_dir chat of Inl e \<Rightarrow> Inl e
        | Inr sess \<Rightarrow> Inr (map Flag [''--die-with-parent'', ''--unshare-pid'', ''--unshare-ipc'', ''--unshare-uts'', ''--unshare-cgroup''] @
            [Bind tmp ''/tmp'', Bind sess ''/session''] @ system_binds h [] (system_paths h) @
            (if bx_stat h ''/proc'' \<noteq> None then [ProcFs ''/proc''] else []) @
            (if bx_stat h ''/dev'' \<noteq> None then [DevFs ''/dev''] else []) @
            SetEnv ''HOME'' home # env_if_set h ''PATH'' @ env_if_set h ''TZ'')))"

definition bind_if_there :: "box_host \<Rightarrow> string \<Rightarrow> mount list" where
  "bind_if_there h p = (if bx_stat h p \<noteq> None then [RoBind p p] else [])"

definition ssh_ops :: "box_host \<Rightarrow> string \<Rightarrow> mount list" where
  "ssh_ops h home =
     (let dir = path_join [home, ''.ssh'']; sock = bx_env h ''SSH_AUTH_SOCK''
      in Tmpfs dir # bind_if_there h (path_join [dir, ''config'']) @ bind_if_there h (path_join [dir, ''known_hosts'']) @
        (case bx_read_dir h dir of None \<Rightarrow> []
         | Some es \<Rightarrow> map (\<lambda>(n, _). RoBind (path_join [dir, n]) (path_join [dir, n]))
             (filter (\<lambda>(n, k). k \<noteq> KDir \<and> has_suffix n ''.pub'') es)) @
        env_if_set h ''GIT_SSH_COMMAND'' @
        (if sock \<noteq> '''' \<and> bx_stat h sock \<noteq> None then [Bind sock sock, SetEnv ''SSH_AUTH_SOCK'' sock] else []))"

definition config_mask :: "box_host \<Rightarrow> string \<Rightarrow> mount list" where
  "config_mask h p = (if trim_space p = '''' then [] else case bx_abs h p of None \<Rightarrow> [] | Some a \<Rightarrow> null_bind h a)"

definition proxy_masks :: "box_host \<Rightarrow> string \<Rightarrow> string \<Rightarrow> mount list" where
  "proxy_masks h ca_key proxy_config =
     (if is_dir h (bx_config h) then [Tmpfs (bx_config h)] else []) @
     (if ca_key \<noteq> '''' then null_bind h ca_key else null_bind h (path_join [bx_config h, ''ca'', ''ca.key''])) @
     (if proxy_config \<noteq> '''' then null_bind h proxy_config else [])"

definition cross_bind :: "box_host \<Rightarrow> mount list" where
  "cross_bind h = (if bx_stat h (bx_data h) \<noteq> None then [Bind (bx_data h) (bx_data h)] else [])"

definition cross_mask :: "box_host \<Rightarrow> string \<Rightarrow> mount list" where
  "cross_mask h home = (if beneath_any h [home] (bx_data h) then [Tmpfs (bx_data h)] else [])"

definition gcp_key :: "string \<Rightarrow> string" where
  "gcp_key home = path_join [home, ''.config'', ''gcp-sa.json'']"

record proxy_opts =
  px_enabled :: bool
  px_addr :: string
  px_ca_key :: string
  px_config :: string
  px_env :: "(string \<times> string) list"
  px_typesafe :: string
  px_gemini :: string
  px_compass :: string

definition protected_keys :: "string list" where
  "protected_keys = [''HTTP_PROXY'', ''HTTPS_PROXY'', ''http_proxy'', ''https_proxy'', ''ALL_PROXY'', ''all_proxy'',
     ''NO_PROXY'', ''no_proxy'', ''SSL_CERT_FILE'', ''REQUESTS_CA_BUNDLE'', ''NODE_EXTRA_CA_CERTS'', ''CURL_CA_BUNDLE'']"

definition certs_file :: string where "certs_file = ''/etc/ssl/certs/ca-certificates.crt''"

definition proxy_env :: "proxy_opts \<Rightarrow> string \<Rightarrow> mount list" where
  "proxy_env px k =
     (if k \<in> {''HTTP_PROXY'', ''http_proxy'', ''HTTPS_PROXY'', ''https_proxy'', ''ALL_PROXY'', ''all_proxy''}
      then (if px_addr px \<noteq> '''' then [SetEnv k (px_addr px)] else [])
      else if k \<in> {''NO_PROXY'', ''no_proxy''} then [SetEnv k ''localhost,127.0.0.1'']
      else [SetEnv k certs_file])"

definition custom_env :: "(string \<times> string) list \<Rightarrow> mount list" where
  "custom_env es = map (\<lambda>(k, v). SetEnv k v) (filter (\<lambda>(k, _). trim_space k \<noteq> '''') es)"

definition bundle_path :: "box_host \<Rightarrow> string \<Rightarrow> string" where
  "bundle_path h chat = path_join [path_join [path_join [tmp_dir (bx_data h), ''.asgard-ca''],
     if chat = '''' then ''default'' else chat], ''merged-ca-certificates.crt'']"

definition proxy_ops :: "box_host \<Rightarrow> string \<Rightarrow> proxy_opts \<Rightarrow> box_error + mount list" where
  "proxy_ops h chat px =
     (let b = bundle_path h chat
      in if \<not> bx_merge h b then Inl BundleFailed
         else Inr (RoBind b certs_file #
           (if bx_stat h ''/etc/ssl/cert.pem'' \<noteq> None then [RoBind b ''/etc/ssl/cert.pem''] else []) @
           concat (map (proxy_env px) protected_keys) @ custom_env (px_env px)))"

definition fakebash_dir :: "string \<Rightarrow> mount list" where
  "fakebash_dir sock = (if sock \<noteq> '''' then [MkDir ''/fakebash'', Bind sock ''/fakebash''] else [])"

end
