(* ===== verification/BoxMask.thy ===== *)
theory BoxMask
  imports BoxMounts
begin

text \<open>
  The directories an agent may write (\<open>pkg/agentspec/config.go\<close>) and the rules that mask what lies in them
  (\<open>applySubdirMaskRule\<close> of \<open>backend/lib/bwrap/bwrap.go\<close>). A Go map is the list of its entries in the order of
  iteration; a rule that is nil in the code is None.
\<close>

section \<open>Configuration\<close>

datatype mask_mode = MaskOthers | MaskMatched | OtherMode string

record mask_rule =
  mr_base :: string
  mr_mode :: mask_mode
  mr_keep :: "string list"
  mr_mask :: "string list"

record mount_config =
  mc_readonly :: "string list"
  mc_readwrite :: "string list"
  mc_entries :: "(string \<times> mask_rule option) list"
  mc_rules :: "(string \<times> mask_rule option) list"

record agent_cfg =
  ag_readonly :: bool
  ag_run_dirs :: "string list"
  ag_mounts :: mount_config

definition glob_or_subdir :: "string \<Rightarrow> string \<Rightarrow> bool" where
  "glob_or_subdir pattern p =
     (let ps = split_on slash (path_clean pattern); qs = split_on slash (path_clean p)
      in length ps \<le> length qs \<and> list_all (\<lambda>(a, b). path_match a b) (zip ps qs))"

definition rule_names :: "string \<Rightarrow> string \<times> mask_rule option \<Rightarrow> mask_rule option" where
  "rule_names clean_dir e =
     (case e of (k, rule) \<Rightarrow>
        if k \<noteq> '''' \<and> (path_clean k = clean_dir \<or> has_glob (path_clean k) \<and> glob_or_subdir (path_clean k) clean_dir)
        then rule else None)"

definition mask_rule_for :: "mount_config \<Rightarrow> string \<Rightarrow> mask_rule option" where
  "mask_rule_for m dir =
     (if dir = '''' then None
      else let c = path_clean dir
        in case map_of (mc_rules m) c of Some (Some r) \<Rightarrow> Some r
           | _ \<Rightarrow> (case find_map (rule_names c) (mc_rules m) of Some r \<Rightarrow> Some r
               | None \<Rightarrow> find_map (rule_names c) (mc_entries m)))"

definition clean_key :: "string \<Rightarrow> string" where
  "clean_key p = (if p = '''' then p else path_clean p)"

text \<open>\<open>addEntry\<close> of \<open>EffectiveReadWriteEntries\<close>.\<close>

definition add_entry ::
  "mount_config \<Rightarrow> (string \<times> mask_rule option) list \<Rightarrow> string \<times> mask_rule option \<Rightarrow>
   (string \<times> mask_rule option) list" where
  "add_entry m res e =
     (case e of (p, rule) \<Rightarrow>
        if list_ex (\<lambda>(q, _). clean_key q = clean_key p) res
        then map (\<lambda>(q, r). if clean_key q = clean_key p \<and> r = None then (q, rule) else (q, r)) res
        else res @ [(p, if rule = None then mask_rule_for m p else rule)])"

definition effective_entries :: "mount_config \<Rightarrow> (string \<times> mask_rule option) list" where
  "effective_entries m =
     (let res = foldl (add_entry m) [] (mc_entries m @ map (\<lambda>p. (p, None)) (mc_readwrite m));
          extra = sort (filter (\<lambda>k. \<not> list_ex (\<lambda>(q, _). clean_key q = clean_key k) res) (map fst (mc_rules m)))
      in foldl (add_entry m) res
           (map (\<lambda>k. case map_of (mc_rules m) k of
               Some (Some r) \<Rightarrow> (if mr_base r \<noteq> '''' then mr_base r else k, Some r)
             | _ \<Rightarrow> (k, None)) extra))"

section \<open>Directories that are bound\<close>

record rw_entry =
  re_dir :: string
  re_run :: bool
  re_rule :: "mask_rule option"

fun uniq_by :: "('a \<Rightarrow> string) \<Rightarrow> string list \<Rightarrow> 'a list \<Rightarrow> 'a list" where
  "uniq_by f seen [] = []"
| "uniq_by f seen (x # xs) = (if f x \<in> set seen then uniq_by f seen xs else x # uniq_by f (f x # seen) xs)"

text \<open>The matches of a pattern, or the directory itself.\<close>

definition glob_or_self :: "box_host \<Rightarrow> string \<Rightarrow> string list" where
  "glob_or_self h d = (case expand_glob_dirs h d of Some ms \<Rightarrow> ms | None \<Rightarrow> [d])"

definition rw_entries :: "box_host \<Rightarrow> agent_cfg \<Rightarrow> rw_entry list" where
  "rw_entries h cfg =
     (let m = ag_mounts cfg in
      uniq_by (\<lambda>e. path_clean (re_dir e)) []
       (concat (map (\<lambda>d. map (\<lambda>x. \<lparr>re_dir = x, re_run = True, re_rule = mask_rule_for m x\<rparr>) (glob_or_self h d))
          (ag_run_dirs cfg)) @
        concat (map (\<lambda>(d, rule). map (\<lambda>x. \<lparr>re_dir = x, re_run = False,
             re_rule = (if rule = None then mask_rule_for m x else rule)\<rparr>) (glob_or_self h d))
          (effective_entries m))))"

section \<open>Mask rules\<close>

definition regex_meta :: "string \<Rightarrow> bool" where
  "regex_meta s \<longleftrightarrow> list_ex (\<lambda>c. c \<in> set ''^$*+?()[]{}|'' \<or> c = CHR 0x5C) s"

definition matches_mask :: "box_host \<Rightarrow> string \<Rightarrow> string \<Rightarrow> string list \<Rightarrow> bool" where
  "matches_mask h name rel patterns =
     list_ex (\<lambda>p. p = name \<or> p = rel \<or>
       (regex_meta p \<and> (case bx_re h p of None \<Rightarrow> False
          | Some re \<Rightarrow> re (if CHR ''/'' \<in> set p then rel else name)))) patterns"

text \<open>
  The directories from the base of a rule down to the run directory: each is scanned, and the next one
  (none for a run directory outside) is left alone.
\<close>

datatype spine_step = SpineStep (sp_dir: string) (sp_child: "string option")

fun spine_from :: "string \<Rightarrow> string \<Rightarrow> string list \<Rightarrow> spine_step list" where
  "spine_from run cur [] = []"
| "spine_from run cur (p # ps) =
     (if cur = run then [] else SpineStep cur (Some (path_join [cur, p])) # spine_from run (path_join [cur, p]) ps)"

definition compute_spine :: "box_host \<Rightarrow> string \<Rightarrow> string \<Rightarrow> spine_step list" where
  "compute_spine h base run =
     (if run = base \<or> \<not> beneath_any h [base] run then [SpineStep base None]
      else case path_rel base run of None \<Rightarrow> [SpineStep base None]
        | Some rel \<Rightarrow> spine_from run base (split_on slash rel))"

definition bindable :: "file_kind option \<Rightarrow> bool" where
  "bindable k \<longleftrightarrow> k = Some KDir \<or> k = Some KFile"

text \<open>What one entry of a scanned directory gets.\<close>

definition mask_item :: "box_host \<Rightarrow> string \<Rightarrow> string \<Rightarrow> mask_rule \<Rightarrow> spine_step \<Rightarrow> string \<Rightarrow> mount list" where
  "mask_item h base run rule st name =
     (let item = path_join [sp_dir st, name] in
      case path_rel base item of None \<Rightarrow> [] | Some rel \<Rightarrow>
        if item = run \<or> sp_child st = Some item \<or> matches_mask h name rel (mr_keep rule) then []
        else if \<not> (case mr_mode rule of MaskOthers \<Rightarrow> True | MaskMatched \<Rightarrow> matches_mask h name rel (mr_mask rule)
             | OtherMode _ \<Rightarrow> False) then []
        else (case bx_lstat h item of None \<Rightarrow> []
          | Some k \<Rightarrow>
              if k = KLink then
                (case bx_eval h item of None \<Rightarrow> []
                 | Some r \<Rightarrow> if beneath_any h [base] r \<and> bindable (bx_stat h r) then [RoBind r item] else [])
              else if bindable (Some k) then [RoBind item item] else []))"

definition mask_step :: "box_host \<Rightarrow> string \<Rightarrow> string \<Rightarrow> mask_rule \<Rightarrow> spine_step \<Rightarrow> mount list" where
  "mask_step h base run rule st =
     (case bx_read_dir h (sp_dir st) of None \<Rightarrow> []
      | Some es \<Rightarrow> concat (map (\<lambda>(n, _). mask_item h base run rule st n) es))"

definition mask_ops :: "box_host \<Rightarrow> string \<Rightarrow> mask_rule option \<Rightarrow> string \<Rightarrow> mount list" where
  "mask_ops h base_dir rule run_dir =
     (case rule of None \<Rightarrow> []
      | Some r \<Rightarrow> let base = path_clean base_dir; run = path_clean run_dir
          in concat (map (mask_step h base run r) (compute_spine h base run)))"

definition entry_masks :: "box_host \<Rightarrow> rw_entry list \<Rightarrow> string \<Rightarrow> mount list" where
  "entry_masks h es run_dir = concat (map (\<lambda>e. mask_ops h (re_dir e) (re_rule e) run_dir) es)"

end
