(* ===== verification/Quota.thy ===== *)
theory Quota
  imports GoGlob Complex_Main
begin

text \<open>
  Quota of models (\<open>llms/llms.go\<close>), the quota policy (\<open>agentwrapper/config\<close>), how a requested model is
  matched with the models a CLI reports (\<open>agentwrapper/model.go\<close>) and the choice of a target for a run
  (\<open>agentwrapper/supported.go\<close>, \<open>agents/run/run.go\<close>). Fractions are rationals; a map whose keys the code
  sorts is an association list without duplicate keys. Case is folded on ASCII letters.
\<close>

section \<open>Texts\<close>

definition lower_char :: "char \<Rightarrow> char" where
  "lower_char c = (if CHR ''A'' \<le> c \<and> c \<le> CHR ''Z'' then char_of (of_char c + 32 :: nat) else c)"

definition to_lower :: "string \<Rightarrow> string" where
  "to_lower s = map lower_char s"

definition to_upper :: "string \<Rightarrow> string" where
  "to_upper s = map (\<lambda>c. if CHR ''a'' \<le> c \<and> c \<le> CHR ''z'' then char_of (of_char c - 32 :: nat) else c) s"

definition equal_fold :: "string \<Rightarrow> string \<Rightarrow> bool" where
  "equal_fold a b \<longleftrightarrow> to_lower a = to_lower b"

section \<open>Usage of models\<close>

datatype quota_reason = NoReason | AtOrBelow "string option" rat rat | OtherReason string

record quota_limit =
  ql_name :: string
  ql_remaining :: rat
  ql_refresh :: int

record model_usage =
  mu_model :: string
  mu_remaining :: rat
  mu_refresh :: int
  mu_limits :: "quota_limit list"
  mu_status :: string
  mu_usable :: "bool option"
  mu_reason :: quota_reason

definition is_status_only :: "model_usage \<Rightarrow> bool" where
  "is_status_only u \<longleftrightarrow> mu_status u \<noteq> ''''"

section \<open>Quota profiles\<close>

record quota_profile =
  qp_thresholds :: "(string \<times> rat) list"
  qp_unlimited :: bool

definition literal_chars :: "string \<Rightarrow> nat" where
  "literal_chars g = length (filter (\<lambda>c. c \<noteq> CHR ''*'' \<and> c \<noteq> CHR ''?'') g)"

text \<open>The glob with the most literal characters, the first among equals.\<close>

definition best_glob :: "string \<Rightarrow> (string \<times> rat) list \<Rightarrow> (nat \<times> rat) option" where
  "best_glob name ts =
     foldl (\<lambda>best (k, v).
       if k = ''*'' \<or> \<not> path_match (to_lower k) name then best
       else (case best of None \<Rightarrow> Some (literal_chars k, v)
         | Some (n, w) \<Rightarrow> if n < literal_chars k then Some (literal_chars k, v) else Some (n, w))) None ts"

definition threshold :: "quota_profile \<Rightarrow> string \<Rightarrow> rat" where
  "threshold p limit =
     (let name = to_lower limit; ts = sort_key fst (qp_thresholds p)
      in case find (\<lambda>(k, v). to_lower k = name) ts of Some (k, v) \<Rightarrow> v
         | None \<Rightarrow> (case best_glob name ts of Some (n, v) \<Rightarrow> v
             | None \<Rightarrow> (case map_of (qp_thresholds p) ''*'' of Some v \<Rightarrow> v | None \<Rightarrow> 0)))"

definition evaluate :: "quota_profile \<Rightarrow> model_usage \<Rightarrow> bool \<times> quota_reason" where
  "evaluate p u =
     (if qp_unlimited p then (True, NoReason)
      else if mu_limits u = [] then
        (if mu_remaining u \<le> threshold p ''*'' then (False, AtOrBelow None (mu_remaining u) (threshold p ''*''))
         else (True, NoReason))
      else (case find (\<lambda>l. ql_remaining l \<le> threshold p (ql_name l)) (mu_limits u) of
          Some l \<Rightarrow> (False, AtOrBelow (Some (ql_name l)) (ql_remaining l) (threshold p (ql_name l)))
        | None \<Rightarrow> (True, NoReason)))"

record aw_config =
  aw_agents :: "(string \<times> string list) list list"
  aw_profiles :: "(string \<times> quota_profile) list"

definition profile_for :: "aw_config option \<Rightarrow> string \<Rightarrow> quota_profile option" where
  "profile_for cfg name =
     (case cfg of None \<Rightarrow> None
      | Some c \<Rightarrow> (case (if name \<noteq> '''' then map_of (aw_profiles c) name else None) of Some p \<Rightarrow> Some p
          | None \<Rightarrow> map_of (aw_profiles c) ''default''))"

definition apply_policy :: "aw_config option \<Rightarrow> string \<Rightarrow> model_usage list \<Rightarrow> model_usage list" where
  "apply_policy cfg name us =
     (case profile_for cfg name of None \<Rightarrow> us
      | Some p \<Rightarrow> map (\<lambda>u. if is_status_only u then u
          else u\<lparr>mu_usable := Some (fst (evaluate p u)), mu_reason := snd (evaluate p u)\<rparr>) us)"

text \<open>\<open>IsModelAllowed\<close>; \<open>re\<close> tells whether a regular expression compiles and matches.\<close>

definition model_allowed :: "(string \<Rightarrow> string \<Rightarrow> bool) \<Rightarrow> aw_config option \<Rightarrow> string \<Rightarrow> string \<Rightarrow> bool" where
  "model_allowed re cfg agent model =
     (case cfg of None \<Rightarrow> True
      | Some c \<Rightarrow> (case find_map (\<lambda>e. map_of e agent) (aw_agents c) of None \<Rightarrow> True
          | Some ps \<Rightarrow>
              (model = agent \<or> model = ''all'') \<and> ps \<noteq> [] \<or>
              list_ex (\<lambda>pat. let p = (if cut_prefix ''(?i)'' pat \<noteq> None then pat else ''(?i)'' @ pat)
                in re p model \<or>
                   cut_prefix (to_lower model @ ''/'') (to_lower (the (cut_prefix ''(?i)'' p))) \<noteq> None) ps))"

definition profile_env :: "string \<Rightarrow> string" where
  "profile_env cli = ''ASGARD_'' @ to_upper cli @ ''_PROFILE''"

definition filter_quota ::
  "(string \<Rightarrow> string \<Rightarrow> bool) \<Rightarrow> (string \<Rightarrow> string) \<Rightarrow> aw_config option \<Rightarrow> (string \<times> model_usage list) list \<Rightarrow>
   (string \<times> model_usage list) list" where
  "filter_quota re env cfg res =
     map (\<lambda>(cli, us). (cli, apply_policy cfg (env (profile_env cli))
       (filter (\<lambda>u. is_status_only u \<or> model_allowed re cfg cli (mu_model u)) us))) res"

section \<open>Names of models\<close>

definition agy_efforts :: "string list" where "agy_efforts = [''low'', ''medium'', ''high'']"

definition known_variants :: "string list" where
  "known_variants = [''minimal'', ''low'', ''medium'', ''high'', ''xhigh'', ''max'', ''thinking'']"

definition slash_variant :: "string list \<Rightarrow> string \<Rightarrow> (string \<times> string) option" where
  "slash_variant vs model =
     (let parts = split_on slash model; v = to_lower (List.last parts)
      in if length parts > 1 \<and> v \<in> set vs then Some (join_with slash (butlast parts), v) else None)"

definition split_variant :: "string \<Rightarrow> string \<times> string" where
  "split_variant model = (case slash_variant known_variants model of Some r \<Rightarrow> r | None \<Rightarrow> (model, ''''))"

definition split_agy_variant :: "string \<Rightarrow> string \<times> string" where
  "split_agy_variant model =
     (case slash_variant agy_efforts model of Some r \<Rightarrow> r
      | None \<Rightarrow> let parts = split_on (CHR ''-'') model; v = to_lower (List.last parts);
            base = join_with (CHR ''-'') (butlast parts)
          in if length parts > 1 \<and> base \<noteq> '''' \<and> v \<in> set agy_efforts then (base, v) else (model, ''''))"

definition model_candidates :: "string \<Rightarrow> string \<Rightarrow> string list" where
  "model_candidates cli model =
     (let (base, v) = (if cli = ''agy'' then split_agy_variant model
          else if cli \<in> {''opencode'', ''claude'', ''simplest''} then split_variant model else (model, ''''))
      in if v \<noteq> '''' \<and> base \<noteq> model then [model, base] else [model])"

definition context_table :: "(string \<times> int) list" where
  "context_table =
    [(''claude-opus-4-6-thinking'', 256000), (''claude-opus-5-5'', 256000), (''claude-sonnet-4-6'', 256000),
     (''claude-sonnet-5-5'', 256000), (''gemini-3.1-pro'', 1048576), (''gemini-3.1-pro-high'', 1048576),
     (''gemini-3.1-pro-low'', 1048576), (''gemini-3.7-flash'', 1048576), (''gemini-3.7-flash-high'', 1048576),
     (''gemini-3.7-flash-low'', 1048576), (''gemini-3.7-flash-medium'', 1048576), (''gemini-3.8-flash'', 1048576),
     (''gemini-3.8-flash-high'', 1048576), (''gemini-3.8-flash-low'', 1048576), (''gemini-3.8-flash-medium'', 1048576),
     (''gemini-4-argon'', 1048576), (''gpt-oss-120b'', 1048576), (''claude'', 1048576), (''fable'', 1048576),
     (''opus'', 1048576), (''sonnet'', 1048576), (''haiku'', 1048576), (''opencode/big-pickle'', 200000),
     (''opencode/ling-3.0-flash-fin-free'', 262144), (''opencode/mimo-v2.5-free'', 1048576),
     (''opencode/muse-spark-1.2-contributor-free'', 1048576), (''opencode/muse-spark-1.3-contributor-free'', 1048576),
     (''opencode/nemotron-3-ultra-free'', 262144), (''opencode/nemotron-3.5-lightning-free'', 262144),
     (''zai-coding-plan'', 1048576), (''zai-coding-plan/glm-5.3'', 1048576), (''zai-coding-plan/glm-5.3-flash'', 1048576)]"

definition strip_variant :: "string \<Rightarrow> string" where
  "strip_variant model = trim_space (fst (split_variant (trim_space model)))"

definition lookup_context :: "string \<Rightarrow> int option" where
  "lookup_context model =
     (let raw = to_lower (trim_space model)
      in if raw = '''' then None
         else (case map_of context_table raw of Some n \<Rightarrow> Some n | None \<Rightarrow> map_of context_table (strip_variant raw)))"

text \<open>\<open>cfg_window\<close> is what the configuration of simplest says of a model: None when it does not resolve.\<close>

definition is_known_model :: "(string \<Rightarrow> int option) \<Rightarrow> string \<Rightarrow> string \<Rightarrow> bool" where
  "is_known_model cfg_window cli model \<longleftrightarrow>
     list_ex (\<lambda>c. lookup_context c \<noteq> None) (model_candidates cli model) \<or>
     cli = ''simplest'' \<and> list_ex (\<lambda>c. cfg_window c \<noteq> None) (model_candidates cli model)"

definition context_window :: "(string \<Rightarrow> int option) \<Rightarrow> string \<Rightarrow> string \<Rightarrow> int" where
  "context_window cfg_window cli model =
     (case find_map lookup_context (model_candidates cli model) of Some n \<Rightarrow> n
      | None \<Rightarrow> (case (if cli = ''simplest'' then find_map (\<lambda>c. case cfg_window c of None \<Rightarrow> None
                   | Some n \<Rightarrow> if n > 0 then Some n else None) (model_candidates cli model) else None) of
          Some n \<Rightarrow> n | None \<Rightarrow> 1048576))"

definition is_zai_plan :: "string \<Rightarrow> bool" where
  "is_zai_plan model \<longleftrightarrow> (let m = to_lower (trim_space model)
     in m = ''zai-coding-plan'' \<or> cut_prefix ''zai-coding-plan/'' m \<noteq> None)"

definition matches_model :: "(string \<Rightarrow> int option) \<Rightarrow> string \<Rightarrow> string \<Rightarrow> string \<Rightarrow> bool" where
  "matches_model cfg_window cli model known \<longleftrightarrow>
     (if cli = ''claude'' \<and> (known = ''claude'' \<or> known = ''all'')
      then model = ''claude'' \<or> is_known_model cfg_window cli model
      else known = ''zai-coding-plan'' \<and> is_zai_plan model \<or> known \<in> set (model_candidates cli model))"

section \<open>The quota of a target\<close>

record quota_check =
  qc_remaining :: rat
  qc_usable :: "bool option"
  qc_reason :: quota_reason

definition no_check :: quota_check where
  "no_check = \<lparr>qc_remaining = 0, qc_usable = None, qc_reason = NoReason\<rparr>"

definition check_of :: "model_usage \<Rightarrow> quota_check" where
  "check_of u = \<lparr>qc_remaining = mu_remaining u, qc_usable = mu_usable u, qc_reason = mu_reason u\<rparr>"

definition accepted :: "model_usage \<Rightarrow> bool" where
  "accepted u \<longleftrightarrow> mu_usable u = Some True"

definition best_matching_usage :: "(string \<Rightarrow> int option) \<Rightarrow> string \<Rightarrow> string \<Rightarrow> model_usage list \<Rightarrow> model_usage option" where
  "best_matching_usage cw cli model us =
     foldl (\<lambda>best u. if is_status_only u \<or> \<not> matches_model cw cli model (mu_model u) then best
       else (case best of None \<Rightarrow> Some u
         | Some b \<Rightarrow> if accepted u \<and> \<not> accepted b \<or> accepted u = accepted b \<and> mu_remaining b < mu_remaining u
             then Some u else best)) None us"

definition best_account_check ::
  "(string \<Rightarrow> int option) \<Rightarrow> string \<Rightarrow> string \<Rightarrow> (string \<times> model_usage list) list \<Rightarrow> quota_check option" where
  "best_account_check cw cli model accts =
     (case best_matching_usage cw cli model (concat (map snd accts)) of None \<Rightarrow> None
      | Some b \<Rightarrow>
          if list_ex (\<lambda>(a, us). best_matching_usage cw cli model us = None) accts \<and> mu_usable b = Some False
          then Some ((check_of b)\<lparr>qc_usable := Some True, qc_reason := NoReason\<rparr>) else Some (check_of b))"

text \<open>
  \<open>CheckTarget\<close>: \<open>accts\<close> is the answer of the account provider (None without one), \<open>expired\<close> whether the time
  is up behind it, \<open>plain\<close> the usages of the plain query, None when it failed.
\<close>

definition check_target ::
  "(string \<Rightarrow> int option) \<Rightarrow> string list \<Rightarrow> string \<Rightarrow> string \<Rightarrow> (string \<times> model_usage list) list option \<Rightarrow> bool \<Rightarrow>
   model_usage list option \<Rightarrow> quota_check" where
  "check_target cw clis cli model accts expired plain =
     (if cli \<notin> set clis then no_check
      else (case (case accts of None \<Rightarrow> None | Some xs \<Rightarrow> best_account_check cw cli model xs) of Some c \<Rightarrow> c
        | None \<Rightarrow> if expired then no_check
            else (case plain of None \<Rightarrow> no_check
              | Some us \<Rightarrow> (case find (\<lambda>u. matches_model cw cli model (mu_model u)) us of
                  Some u \<Rightarrow> check_of u | None \<Rightarrow> no_check))))"

section \<open>The target of a run\<close>

definition min_auto_quota :: rat where "min_auto_quota = 1 / 10"

definition policy_reason :: "quota_check \<Rightarrow> quota_reason" where
  "policy_reason c = (if qc_usable c \<noteq> Some False then NoReason
     else if qc_reason c \<noteq> NoReason then qc_reason c else OtherReason ''not usable under the quota policy'')"

definition explicit_usable :: "quota_check \<Rightarrow> bool" where
  "explicit_usable c = (case qc_usable c of Some b \<Rightarrow> b | None \<Rightarrow> qc_remaining c > 0)"

definition auto_selectable :: "quota_check \<Rightarrow> bool" where
  "auto_selectable c = (case qc_usable c of Some b \<Rightarrow> b | None \<Rightarrow> qc_remaining c > min_auto_quota)"

type_synonym cli_target = "string \<times> string"

record target_status =
  ts_target :: cli_target
  ts_remaining :: rat
  ts_enabled :: bool
  ts_reason :: quota_reason

definition quota_status :: "(string \<Rightarrow> bool) \<Rightarrow> (cli_target \<Rightarrow> quota_check) \<Rightarrow> cli_target \<Rightarrow> target_status" where
  "quota_status enabled check t =
     (if enabled (fst t) then \<lparr>ts_target = t, ts_remaining = qc_remaining (check t), ts_enabled = True,
        ts_reason = policy_reason (check t)\<rparr>
      else \<lparr>ts_target = t, ts_remaining = 0, ts_enabled = False, ts_reason = NoReason\<rparr>)"

datatype target_error = NoTargets | ModelNotListed string | ProviderDisabled string
  | NoEnabledTarget | NoQuota "string option" "target_status list"

text \<open>The choice of \<open>RunWithOptions\<close>; \<open>check\<close> is \<open>CheckTarget\<close>.\<close>

definition auto_target ::
  "(string \<Rightarrow> bool) \<Rightarrow> (cli_target \<Rightarrow> quota_check) \<Rightarrow> cli_target list \<Rightarrow> target_error + cli_target" where
  "auto_target enabled check ts =
     (case find (\<lambda>t. enabled (fst t) \<and> auto_selectable (check t)) ts of Some t \<Rightarrow> Inr t
      | None \<Rightarrow> if \<not> list_ex (\<lambda>t. enabled (fst t)) ts then Inl NoEnabledTarget
          else Inl (NoQuota None (map (quota_status enabled check) ts)))"

definition explicit_target ::
  "(string \<Rightarrow> bool) \<Rightarrow> (cli_target \<Rightarrow> quota_check) \<Rightarrow> cli_target list \<Rightarrow> string \<Rightarrow> target_error + cli_target" where
  "explicit_target enabled check ts m =
     (case find (\<lambda>t. snd t = m) ts of None \<Rightarrow> Inl (ModelNotListed m)
      | Some t \<Rightarrow> if \<not> enabled (fst t) then Inl (ProviderDisabled m)
          else if \<not> explicit_usable (check t) then Inl (NoQuota (Some m) (map (quota_status enabled check) ts))
          else Inr t)"

definition select_target ::
  "(string \<Rightarrow> bool) \<Rightarrow> (cli_target \<Rightarrow> quota_check) \<Rightarrow> cli_target list \<Rightarrow> cli_target list \<Rightarrow> string option \<Rightarrow>
   target_error + cli_target" where
  "select_target enabled check own candidates model =
     (let ts = (if candidates \<noteq> [] then candidates else own)
      in if ts = [] then Inl NoTargets
         else (case model of None \<Rightarrow> auto_target enabled check ts
           | Some m \<Rightarrow> if m = '''' then auto_target enabled check ts else explicit_target enabled check ts m))"

end
