(* ===== verification/Accounts.thy ===== *)
theory Accounts
  imports BoxMounts Quota
begin

text \<open>
  The accounts of a CLI on a runner (\<open>agentwrapper/accounts/accounts.go\<close>), the account an agent run uses
  (\<open>backend/lib/bwrap/account_select.go\<close>) and its binds (\<open>bwrap.go\<close>). \<open>quota\<close> is the answer of
  \<open>cachedAccountQuota\<close>, None for an error.
\<close>

section \<open>Directories of accounts\<close>

definition accounts_root :: "box_host \<Rightarrow> string" where
  "accounts_root h = (if bx_env h ''ASGARD_ACCOUNTS_DIR'' \<noteq> '''' then bx_env h ''ASGARD_ACCOUNTS_DIR''
     else ''/accounts'')"

definition alias_start :: "char \<Rightarrow> bool" where
  "alias_start c \<longleftrightarrow> CHR ''a'' \<le> c \<and> c \<le> CHR ''z'' \<or> CHR ''0'' \<le> c \<and> c \<le> CHR ''9''"

definition valid_alias :: "string \<Rightarrow> bool" where
  "valid_alias a \<longleftrightarrow> (case a of [] \<Rightarrow> False
     | c # cs \<Rightarrow> alias_start c \<and> length cs \<le> 31 \<and> list_all (\<lambda>x. alias_start x \<or> x = CHR ''_'' \<or> x = CHR ''-'') cs)"

definition validate_cli :: "string \<Rightarrow> account_error option" where
  "validate_cli cli = (if cli \<noteq> ''agy'' \<and> cli \<noteq> ''claude'' then Some (UnsupportedCli cli) else None)"

definition account_dir :: "box_host \<Rightarrow> string \<Rightarrow> string \<Rightarrow> account_error + string" where
  "account_dir h cli a =
     (case validate_cli cli of Some e \<Rightarrow> Inl e
      | None \<Rightarrow> if \<not> valid_alias a then Inl (InvalidAlias a)
          else let root = accounts_root h; dir = path_join [root, cli, a]
            in case path_rel root dir of None \<Rightarrow> Inl (PathTraversal dir)
               | Some rel \<Rightarrow> if cut_prefix ''..'' rel \<noteq> None \<or> rel = ''.'' then Inl (PathTraversal dir) else Inr dir)"

definition token_path :: "box_host \<Rightarrow> string \<Rightarrow> account_error + string" where
  "token_path h a = (case account_dir h ''agy'' a of Inl e \<Rightarrow> Inl e
     | Inr d \<Rightarrow> Inr (path_join [d, ''antigravity-oauth-token'']))"

definition list_accounts :: "box_host \<Rightarrow> string \<Rightarrow> account_error + string list" where
  "list_accounts h cli =
     (case validate_cli cli of Some e \<Rightarrow> Inl e
      | None \<Rightarrow> let d = path_join [accounts_root h, cli]
          in case bx_read_dir h d of
               None \<Rightarrow> if bx_missing h d then Inr [] else Inl UnreadableAccounts
             | Some es \<Rightarrow> Inr (sort (map fst (filter (\<lambda>(n, k). k = KDir \<and> valid_alias n) es))))"

definition account_env :: "string \<Rightarrow> string" where
  "account_env cli = ''ASGARD_'' @ to_upper cli @ ''_ACCOUNT''"

definition select_account :: "box_host \<Rightarrow> string \<Rightarrow> account_error + string option" where
  "select_account h cli =
     (case validate_cli cli of Some e \<Rightarrow> Inl e
      | None \<Rightarrow> let v = bx_env h (account_env cli)
          in if v \<noteq> '''' then
               (case account_dir h cli v of Inl e \<Rightarrow> Inl e
                | Inr d \<Rightarrow> if is_dir h d then Inr (Some v) else Inl (NoSuchAccount v))
             else (case list_accounts h cli of Inl e \<Rightarrow> Inl e
               | Inr [] \<Rightarrow> Inr None | Inr (a # _) \<Rightarrow> Inr (Some a)))"

definition read_profile :: "box_host \<Rightarrow> string \<Rightarrow> string \<Rightarrow> account_error + string" where
  "read_profile h cli a =
     (case account_dir h cli a of Inl e \<Rightarrow> Inl e
      | Inr d \<Rightarrow> let p = path_join [d, ''.asgard-profile'']
          in case bx_read_file h p of
               None \<Rightarrow> if bx_missing h p then Inr '''' else Inl UnreadableAccounts
             | Some t \<Rightarrow> if trim_space t = '''' \<or> valid_alias (trim_space t) then Inr (trim_space t)
                 else Inl (InvalidProfile (trim_space t)))"

section \<open>The choice of an account\<close>

definition strip_provider :: "string \<Rightarrow> string" where
  "strip_provider m = (case cut_at slash m of Some (_, r) \<Rightarrow> r | None \<Rightarrow> m)"

definition model_matches :: "string \<Rightarrow> string \<Rightarrow> bool" where
  "model_matches want have \<longleftrightarrow> equal_fold want have \<or> equal_fold (strip_provider want) (strip_provider have)"

definition usage_exhausted :: "model_usage \<Rightarrow> bool" where
  "usage_exhausted u = (case mu_usable u of Some b \<Rightarrow> \<not> b
     | None \<Rightarrow> mu_remaining u \<le> 0 \<or> list_ex (\<lambda>l. ql_remaining l \<le> 0) (mu_limits u))"

text \<open>Available, and otherwise when the model is refreshed (0 if unknown).\<close>

definition earliest :: "int list \<Rightarrow> int" where
  "earliest ts = foldl (\<lambda>r t. if t > 0 \<and> (r = 0 \<or> t < r) then t else r) 0 ts"

definition model_availability :: "model_usage list \<Rightarrow> string \<Rightarrow> bool \<times> int" where
  "model_availability us model =
     (let ms = filter (\<lambda>u. model_matches model (mu_model u)) us
      in if ms = [] then (True, 0)
         else if list_ex (\<lambda>u. \<not> usage_exhausted u) ms then (True, 0)
         else (False, earliest (map mu_refresh ms)))"

definition max_int64 :: int where "max_int64 = 9223372036854775807"

text \<open>The loop of \<open>chooseAccount\<close>: an available account at once, else the best so far and whether a lookup failed.\<close>

fun pick_account ::
  "(string \<Rightarrow> model_usage list option) \<Rightarrow> string \<Rightarrow> string list \<Rightarrow> string \<times> int \<Rightarrow> bool \<Rightarrow> string + (string \<times> bool)" where
  "pick_account quota model [] best errored = Inr (fst best, errored)"
| "pick_account quota model (a # as) best errored =
     (case quota a of None \<Rightarrow> pick_account quota model as best True
      | Some us \<Rightarrow> (case model_availability us model of
          (True, _) \<Rightarrow> Inl a
        | (False, t) \<Rightarrow> let t' = (if t = 0 then max_int64 else t)
            in pick_account quota model as (if fst best = '''' \<or> t' < snd best then (a, t') else best) errored))"

definition choose_account ::
  "box_host \<Rightarrow> (string \<Rightarrow> string \<Rightarrow> model_usage list option) \<Rightarrow> string \<Rightarrow> string \<Rightarrow> account_error + string option" where
  "choose_account h quota cli model =
     (case select_account h cli of Inl e \<Rightarrow> Inl e
      | Inr None \<Rightarrow> Inr None
      | Inr (Some first) \<Rightarrow>
          if bx_env h (account_env cli) \<noteq> '''' then Inr (Some first)
          else (case list_accounts h cli of Inl _ \<Rightarrow> Inr (Some first)
            | Inr as \<Rightarrow> if length as < 2 then Inr (Some first)
                else (case pick_account (quota cli) model as ('''', max_int64) False of
                    Inl a \<Rightarrow> Inr (Some a)
                  | Inr (best, errored) \<Rightarrow> Inr (Some (if errored then hd as else best)))))"

text \<open>\<open>AllAccountUsages\<close>: the accounts that answered in time.\<close>

definition all_account_usages ::
  "box_host \<Rightarrow> (string \<Rightarrow> string \<Rightarrow> model_usage list option) \<Rightarrow> (string \<Rightarrow> bool) \<Rightarrow> string \<Rightarrow>
   (string \<times> model_usage list) list option" where
  "all_account_usages h quota in_time cli =
     (if bx_env h (account_env cli) \<noteq> '''' then None
      else (case list_accounts h cli of Inl _ \<Rightarrow> None
        | Inr as \<Rightarrow> if length as < 2 then None
            else let us = List.map_filter (\<lambda>a. if in_time a then map_option (Pair a) (quota cli a) else None) as
              in if us = [] then None else Some us))"

section \<open>The account of a sandbox\<close>

record account_sel =
  sel_alias :: "string option"
  sel_strict :: bool

definition account_for_sandbox ::
  "box_host \<Rightarrow> (string \<Rightarrow> string \<Rightarrow> model_usage list option) \<Rightarrow> string \<Rightarrow> string \<Rightarrow> bool \<Rightarrow> (string \<times> string) list \<Rightarrow>
   account_error + account_sel" where
  "account_for_sandbox h quota cli model all_clis pins =
     (if all_clis \<and> pins \<noteq> [] then Inr \<lparr>sel_alias = map_of pins cli, sel_strict = True\<rparr>
      else (case (if all_clis then select_account h cli else choose_account h quota cli model) of Inl e \<Rightarrow> Inl e
        | Inr a \<Rightarrow> Inr \<lparr>sel_alias = a, sel_strict = bx_env h (account_env cli) \<noteq> ''''\<rparr>))"

definition profile_entry :: "box_host \<Rightarrow> string \<Rightarrow> account_sel \<Rightarrow> bool \<Rightarrow> (string \<times> string) list" where
  "profile_entry h cli sel all_clis =
     (case sel_alias sel of None \<Rightarrow> []
      | Some a \<Rightarrow> if \<not> all_clis then []
          else (case read_profile h cli a of Inl _ \<Rightarrow> [] | Inr p \<Rightarrow> if p \<noteq> '''' then [(profile_env cli, p)] else []))"

definition agy_token_path :: "string \<Rightarrow> string" where
  "agy_token_path home = path_join [home, ''.gemini/antigravity-cli/antigravity-oauth-token'']"

definition agy_account_ops :: "box_host \<Rightarrow> string \<Rightarrow> account_sel \<Rightarrow> account_error + mount list" where
  "agy_account_ops h home sel =
     (case sel_alias sel of None \<Rightarrow> Inr []
      | Some a \<Rightarrow> (case token_path h a of Inl e \<Rightarrow> Inl e
          | Inr p \<Rightarrow> if is_file h p then Inr [Bind p (agy_token_path home)] else Inl (MissingCredentials a)))"

text \<open>\<open>relay\<close> is \<open>relayClaudeSession\<close>: None when it succeeded.\<close>

definition claude_account_ops ::
  "box_host \<Rightarrow> (string \<Rightarrow> string \<Rightarrow> account_error option) \<Rightarrow> string \<Rightarrow> account_sel \<Rightarrow> string \<Rightarrow> account_error + mount list" where
  "claude_account_ops h relay home sel session =
     (case sel_alias sel of None \<Rightarrow> Inr []
      | Some a \<Rightarrow> (case account_dir h ''claude'' a of Inl e \<Rightarrow> Inl e
          | Inr d \<Rightarrow> if \<not> is_file h (path_join [d, ''.credentials.json'']) then Inl (MissingCredentials a)
              else (case (if session \<noteq> '''' then relay a session else None) of Some e \<Rightarrow> Inl e
                | None \<Rightarrow> Inr [Bind d (path_join [home, ''.claude''])])))"

end
