(* ===== verification/BoxCommand.thy ===== *)
theory BoxCommand
  imports BoxMask Accounts
begin

text \<open>
  The three sandboxes of \<open>backend/lib/bwrap/bwrap.go\<close>: \<open>commandForCommandExec\<close> runs the commands of agents and
  workflows, \<open>buildSandboxArgs\<close> the agent's own CLI, \<open>GitSandboxArgs\<close> git. The CLIs that are registered are a
  list of their specifications (\<open>agentwrapper\<close>).
\<close>

section \<open>The CLIs\<close>

record cli_spec =
  cs_name :: string
  cs_mounts :: "string \<Rightarrow> string list"
  cs_auth_dir :: "string \<Rightarrow> string"
  cs_auth_files :: "string \<Rightarrow> string list"
  cs_env :: "string \<Rightarrow> (string \<times> string) list"
  cs_skills :: "string \<Rightarrow> string"

definition claude_spec :: cli_spec where
  "claude_spec = \<lparr>cs_name = ''claude'',
     cs_mounts = (\<lambda>home. [home @ ''/.claude'', home @ ''/.cache'', home @ ''/.npm'']),
     cs_auth_dir = (\<lambda>home. home @ ''/.claude''), cs_auth_files = (\<lambda>_. []),
     cs_env = (\<lambda>home. [(''CLAUDE_CONFIG_DIR'', home @ ''/.claude''), (''DISABLE_AUTOUPDATER'', ''1'')]),
     cs_skills = (\<lambda>home. home @ ''/.claude/skills'')\<rparr>"

definition agy_spec :: cli_spec where
  "agy_spec = \<lparr>cs_name = ''agy'', cs_mounts = (\<lambda>home. [home @ ''/.gemini'']),
     cs_auth_dir = (\<lambda>home. home @ ''/.gemini''), cs_auth_files = (\<lambda>_. []), cs_env = (\<lambda>_. []),
     cs_skills = (\<lambda>home. home @ ''/.gemini/antigravity-cli/skills'')\<rparr>"

definition opencode_spec :: cli_spec where
  "opencode_spec = \<lparr>cs_name = ''opencode'',
     cs_mounts = (\<lambda>home. [home @ ''/.cache'', home @ ''/.config'', home @ ''/.local'', home @ ''/.npm'']),
     cs_auth_dir = (\<lambda>home. home @ ''/.local/share/opencode''), cs_auth_files = (\<lambda>_. []), cs_env = (\<lambda>_. []),
     cs_skills = (\<lambda>home. home @ ''/.config/opencode/skills'')\<rparr>"

definition simplest_spec :: cli_spec where
  "simplest_spec = \<lparr>cs_name = ''simplest'',
     cs_mounts = (\<lambda>home. [home @ ''/.simplest'', home @ ''/.config/simplest'']),
     cs_auth_dir = (\<lambda>_. ''''),
     cs_auth_files = (\<lambda>home. [home @ ''/.config/simplest/key.yaml'', home @ ''/.config/simplest/key.yml'',
       home @ ''/.simplest/key.yaml'', home @ ''/.simplest/key.yml'']),
     cs_env = (\<lambda>_. []), cs_skills = (\<lambda>home. home @ ''/.config/simplest/skills'')\<rparr>"

section \<open>The sandbox of commands\<close>

record command_request =
  cr_cfg :: "agent_cfg option"
  cr_run_dir :: string
  cr_cwd :: string
  cr_sock :: string
  cr_chat :: string
  cr_config :: string
  cr_cross :: bool
  cr_readonly :: "string list"
  cr_proxy :: "proxy_opts option"

definition merged_readonly :: "box_host \<Rightarrow> command_request \<Rightarrow> string list" where
  "merged_readonly h r =
     expanded h (cr_readonly r) @
     (case cr_cfg r of None \<Rightarrow> [] | Some cfg \<Rightarrow> expanded h (mc_readonly (ag_mounts cfg)))"

definition masked_paths :: "box_host \<Rightarrow> cli_spec list \<Rightarrow> string \<Rightarrow> string list" where
  "masked_paths h specs home =
     [path_join [home, ''.ssh''], bx_config h, gcp_key home] @ map (\<lambda>sp. cs_auth_dir sp home) specs"

definition chdir_ops :: "box_host \<Rightarrow> string \<Rightarrow> command_request \<Rightarrow> mount list \<Rightarrow> mount list" where
  "chdir_ops h home r binds =
     (if cr_run_dir r \<noteq> '''' \<and> bx_stat h (cr_run_dir r) \<noteq> None
      then binds @ [Chdir (if cr_cwd r = '''' then cr_run_dir r else cr_cwd r)] else [Chdir home])"

definition own_dirs :: "box_host \<Rightarrow> string \<Rightarrow> string \<Rightarrow> string list" where
  "own_dirs h home chat = [home, session_tmp_dir h chat, session_dir h chat]"

text \<open>An agent whose lock mode is read-only.\<close>

definition readonly_cfg_ops :: "box_host \<Rightarrow> string \<Rightarrow> command_request \<Rightarrow> agent_cfg \<Rightarrow> mount list" where
  "readonly_cfg_ops h home r cfg =
     (let own = own_dirs h home (cr_chat r);
          dirs = uniq_by (\<lambda>(d, _). path_clean d) [] (concat (map (\<lambda>d. case expand_glob_dirs h d of
            Some ms \<Rightarrow> map (\<lambda>m. (m, True)) ms | None \<Rightarrow> [(d, False)]) (ag_run_dirs cfg)))
      in RoBind home home #
        concat (map (\<lambda>(d, globbed). if beneath_any h own d then []
          else if globbed \<or> bx_stat h d \<noteq> None then [RoBind d d] else []) dirs) @
        chdir_ops h home r (if \<not> beneath_any h own (cr_run_dir r) \<and>
            path_clean (cr_run_dir r) \<notin> set (map (\<lambda>(d, _). path_clean d) dirs)
          then [RoBind (cr_run_dir r) (cr_run_dir r)] else []))"

definition writable_cfg_ops :: "box_host \<Rightarrow> string \<Rightarrow> command_request \<Rightarrow> agent_cfg \<Rightarrow> mount list" where
  "writable_cfg_ops h home r cfg =
     (let own = own_dirs h home (cr_chat r); ro = merged_readonly h r;
          dirs = filter (\<lambda>d. \<not> beneath_any h own d \<and> bx_stat h d \<noteq> None) (map re_dir (rw_entries h cfg));
          mounted = own @ filter (\<lambda>d. \<not> beneath_any h ro d) dirs
      in map (append_bind h ro) dirs @
        chdir_ops h home r (if beneath_any h mounted (cr_run_dir r) then [] else [append_bind h ro (cr_run_dir r)]) @
        [Bind home home])"

definition plain_ops :: "box_host \<Rightarrow> string \<Rightarrow> command_request \<Rightarrow> mount list" where
  "plain_ops h home r =
     chdir_ops h home r (if cut_prefix (home @ ''/'') (cr_run_dir r) \<noteq> None then []
       else [append_bind h (merged_readonly h r) (cr_run_dir r)]) @ [Bind home home]"

definition auth_masks :: "box_host \<Rightarrow> cli_spec list \<Rightarrow> string \<Rightarrow> mount list" where
  "auth_masks h specs home = concat (map (\<lambda>sp.
     (if cs_auth_dir sp home \<noteq> '''' \<and> bx_stat h (cs_auth_dir sp home) \<noteq> None then [Tmpfs (cs_auth_dir sp home)] else []) @
     concat (map (null_bind h) (cs_auth_files sp home))) specs)"

text \<open>The binds of directories, and what comes after the read-only roots.\<close>

definition command_dirs :: "box_host \<Rightarrow> string \<Rightarrow> command_request \<Rightarrow> mount list" where
  "command_dirs h home r =
     (case cr_cfg r of None \<Rightarrow> plain_ops h home r
      | Some cfg \<Rightarrow> if ag_readonly cfg then readonly_cfg_ops h home r cfg else writable_cfg_ops h home r cfg) @
     (if cr_cross r \<and> (case cr_cfg r of None \<Rightarrow> True | Some cfg \<Rightarrow> \<not> ag_readonly cfg)
      then cross_bind h else cross_mask h home) @
     (case cr_cfg r of None \<Rightarrow> []
      | Some cfg \<Rightarrow> if ag_readonly cfg then [] else entry_masks h (rw_entries h cfg) (cr_run_dir r))"

definition command_secrets :: "box_host \<Rightarrow> cli_spec list \<Rightarrow> string \<Rightarrow> command_request \<Rightarrow> mount list" where
  "command_secrets h specs home r =
     auth_masks h specs home @ ssh_ops h home @ null_bind h (gcp_key home) @ config_mask h (cr_config r) @
     (case cr_proxy r of None \<Rightarrow> proxy_masks h '''' '''' | Some px \<Rightarrow> proxy_masks h (px_ca_key px) (px_config px))"

definition command_sandbox :: "box_host \<Rightarrow> cli_spec list \<Rightarrow> command_request \<Rightarrow> box_error + mount list" where
  "command_sandbox h specs r =
     (case bx_home h of None \<Rightarrow> Inl NoHome
      | Some home \<Rightarrow> (case base_ops h home (cr_chat r) of Inl e \<Rightarrow> Inl e
        | Inr base \<Rightarrow> (case validate_readonly_roots h (merged_readonly h r) (masked_paths h specs home) of Some e \<Rightarrow> Inl e
          | None \<Rightarrow> (case readonly_binds h (merged_readonly h r) of Inl e \<Rightarrow> Inl e
            | Inr ro \<Rightarrow> (case (case cr_proxy r of None \<Rightarrow> Inr [] | Some px \<Rightarrow>
                  if px_enabled px then proxy_ops h (cr_chat r) px else Inr []) of Inl e \<Rightarrow> Inl e
              | Inr px \<Rightarrow> Inr (base @ command_dirs h home r @ ro @ command_secrets h specs home r @ px @
                  fakebash_dir (cr_sock r) @ [Command [''--'', ''/bin/fakebashd'']]))))))"

text \<open>Where a directory of the host appears in the sandbox.\<close>

definition sandbox_cwd :: "box_host \<Rightarrow> string \<Rightarrow> string \<Rightarrow> bool \<Rightarrow> string list \<Rightarrow> box_error + string" where
  "sandbox_cwd h chat dir cross ro =
     (let d = path_clean dir;
          seen = (\<lambda>(host, mnt). find_map (\<lambda>base. map_option (\<lambda>rel. path_join [mnt, rel]) (lexical_rel base d))
            (real_and_lexical h host))
      in case find_map seen [(session_tmp_dir h chat, ''/tmp''), (session_dir h chat, ''/session'')] of Some p \<Rightarrow> Inr p
         | None \<Rightarrow>
             if \<not> cross \<and> \<not> beneath_any h ro d \<and> list_ex (\<lambda>base. lexical_rel base d \<noteq> None) (real_and_lexical h (bx_data h))
             then Inl (NotVisible d) else Inr d)"

section \<open>The sandbox of an agent\<close>

text \<open>
  \<open>at_quota\<close> answers for \<open>cachedAccountQuota\<close>, \<open>at_relay\<close> for \<open>relayClaudeSession\<close>; the contract file (an error, or none when it is
  empty) and the directory of the agent's skills are given. A query of all CLIs has \<open>at_all\<close> set.
\<close>

record agent_request =
  at_cfg :: "agent_cfg option"
  at_cli :: string
  at_model :: string
  at_all :: bool
  at_pins :: "(string \<times> string) list"
  at_session :: string
  at_run_dir :: string
  at_sock :: string
  at_chat :: string
  at_config :: string
  at_proxy :: "proxy_opts option"
  at_quota :: "string \<Rightarrow> string \<Rightarrow> model_usage list option"
  at_relay :: "string \<Rightarrow> string \<Rightarrow> account_error option"
  at_contract :: "box_error + string option"
  at_skills :: string

definition agent_readonly :: "box_host \<Rightarrow> agent_request \<Rightarrow> string list" where
  "agent_readonly h r = (case at_cfg r of None \<Rightarrow> [] | Some cfg \<Rightarrow> expanded h (mc_readonly (ag_mounts cfg)))"

definition readonly_run_ops :: "box_host \<Rightarrow> agent_request \<Rightarrow> agent_cfg \<Rightarrow> box_error + mount list" where
  "readonly_run_ops h r cfg =
     (case find (\<lambda>d. expand_glob_dirs h d = None \<and> bx_stat h d = None) (ag_run_dirs cfg) of
        Some d \<Rightarrow> Inl (RunDirMissing d)
      | None \<Rightarrow>
          let dirs = uniq_by path_clean [] (concat (map (glob_or_self h) (ag_run_dirs cfg))); run = at_run_dir r
          in Inr (map (\<lambda>d. RoBind d d) dirs @
            (if \<not> beneath_any h [session_tmp_dir h (at_chat r), session_dir h (at_chat r)] run \<and> \<not> beneath_any h dirs run
             then [RoBind run run] else [])))"

definition writable_run_ops :: "box_host \<Rightarrow> agent_request \<Rightarrow> box_error + mount list" where
  "writable_run_ops h r =
     (let ro = agent_readonly h r; run = at_run_dir r;
          es = (case at_cfg r of None \<Rightarrow> [] | Some cfg \<Rightarrow> rw_entries h cfg)
      in case find (\<lambda>e. bx_stat h (re_dir e) = None) es of
           Some e \<Rightarrow> Inl (if re_run e then RunDirMissing (re_dir e) else MountMissing (re_dir e))
         | None \<Rightarrow> Inr (map (\<lambda>e. append_bind h ro (re_dir e)) es @
             (if beneath_any h (filter (\<lambda>d. \<not> beneath_any h ro d) (map re_dir es)) run then [] else [append_bind h ro run]) @
             entry_masks h es run))"

text \<open>The resolved places of the shells, each once.\<close>

definition resolve_bind_dests :: "box_host \<Rightarrow> string list \<Rightarrow> string list" where
  "resolve_bind_dests h ps = uniq_by (\<lambda>p. p) [] (map (\<lambda>p. case bx_eval h p of Some e \<Rightarrow> e | None \<Rightarrow> p) ps)"

definition key_env :: "box_host \<Rightarrow> string \<Rightarrow> string \<Rightarrow> mount list" where
  "key_env h k v = (if v \<noteq> '''' then [SetEnv k v] else env_if_set h k)"

definition agent_env :: "box_host \<Rightarrow> agent_request \<Rightarrow> mount list" where
  "agent_env h r =
     (if at_chat r \<noteq> '''' then [SetEnv ''ASGARD_CHAT_ID'' (at_chat r)] else []) @
     (if at_model r \<noteq> '''' then [SetEnv ''ASGARD_MODEL'' (at_model r)] else []) @
     key_env h ''TYPESAFE_API_KEY'' (case at_proxy r of None \<Rightarrow> '''' | Some px \<Rightarrow> px_typesafe px) @
     key_env h ''GEMINI_API_KEY'' (case at_proxy r of None \<Rightarrow> '''' | Some px \<Rightarrow> px_gemini px) @
     key_env h ''GEMINI_MODEL_FOR_COMMAND_RESULT_COMPASS'' (case at_proxy r of None \<Rightarrow> '''' | Some px \<Rightarrow> px_compass px)"

definition agent_shells :: "box_host \<Rightarrow> mount list" where
  "agent_shells h =
     map (\<lambda>d. RoBind ''/bin/fakebash'' d) (resolve_bind_dests h [''/bin/bash'', ''/usr/bin/bash'', ''/bin/sh'', ''/usr/bin/sh'']) @
     concat (map (\<lambda>p. if bx_stat h p \<noteq> None then [RoBind ''/dev/null'' p] else [])
       (resolve_bind_dests h [''/usr/bin/fish'', ''/bin/fish'']))"

definition agent_specs :: "cli_spec list \<Rightarrow> agent_request \<Rightarrow> cli_spec list" where
  "agent_specs specs r =
     (if at_all r then sort_key cs_name specs else filter (\<lambda>sp. cs_name sp = at_cli r) specs)"

text \<open>The binds of the accounts, over the directories of the CLIs, and the variables of their quota profiles.\<close>

definition account_ops ::
  "box_host \<Rightarrow> agent_request \<Rightarrow> string \<Rightarrow> (account_sel \<Rightarrow> account_error + mount list) \<Rightarrow>
   account_error + mount list \<times> (string \<times> string) list" where
  "account_ops h r cli binds =
     (if \<not> at_all r \<and> at_cli r \<noteq> cli then Inr ([], [])
      else (case account_for_sandbox h (at_quota r) cli (at_model r) (at_all r) (at_pins r) of Inl e \<Rightarrow> Inl e
        | Inr sel \<Rightarrow> (case binds sel of Inl e \<Rightarrow> Inl e | Inr ops \<Rightarrow> Inr (ops, profile_entry h cli sel (at_all r)))))"

definition accounts_ops :: "box_host \<Rightarrow> string \<Rightarrow> agent_request \<Rightarrow> account_error + mount list \<times> (string \<times> string) list" where
  "accounts_ops h home r =
     (case account_ops h r ''agy'' (agy_account_ops h home) of Inl e \<Rightarrow> Inl e
      | Inr (agy, ep) \<Rightarrow> (case account_ops h r ''claude'' (\<lambda>sel. claude_account_ops h (at_relay r) home sel (at_session r)) of
          Inl e \<Rightarrow> Inl e | Inr (claude, ep') \<Rightarrow> Inr (agy @ claude, ep @ ep')))"

definition cli_mounts :: "box_host \<Rightarrow> string list \<Rightarrow> string \<Rightarrow> cli_spec list \<Rightarrow> mount list" where
  "cli_mounts h ro home specs =
     concat (map (\<lambda>sp. map (append_bind h ro) (filter (\<lambda>d. bx_stat h d \<noteq> None) (cs_mounts sp home))) specs)"

text \<open>The variables, each with the value that was set last, in the order of their names.\<close>

definition sorted_env :: "(string \<times> string) list \<Rightarrow> mount list" where
  "sorted_env es = map (\<lambda>(k, v). SetEnv k v) (sort_key fst (uniq_by fst [] (rev es)))"

definition aw_config_path :: "box_host \<Rightarrow> string \<Rightarrow> string" where
  "aw_config_path h home =
     (if bx_env h ''AW_CONFIG'' \<noteq> '''' then bx_env h ''AW_CONFIG''
      else path_join [if bx_env h ''XDG_CONFIG_HOME'' \<noteq> '''' then bx_env h ''XDG_CONFIG_HOME''
        else path_join [home, ''.config''], ''aw'', ''config.yaml''])"

definition opencode_config_path :: "box_host \<Rightarrow> string \<Rightarrow> string" where
  "opencode_config_path h home =
     (if bx_env h ''OPENCODE_AW_CONFIG'' \<noteq> '''' then bx_env h ''OPENCODE_AW_CONFIG''
      else let near = path_join [path_dir (aw_config_path h home), ''opencode.aw.yaml''];
          xdg = (if bx_env h ''XDG_CONFIG_HOME'' \<noteq> '''' then path_join [bx_env h ''XDG_CONFIG_HOME'', ''aw'']
            else if home \<noteq> '''' then path_join [home, ''.config'', ''aw''] else '''')
        in if is_file h near then near
           else if xdg \<noteq> '''' \<and> is_file h (path_join [xdg, ''opencode.aw.yaml'']) then path_join [xdg, ''opencode.aw.yaml'']
           else '''')"

definition config_bind :: "box_host \<Rightarrow> string \<Rightarrow> string \<Rightarrow> string \<Rightarrow> mount list" where
  "config_bind h p place var =
     (case bx_eval h p of None \<Rightarrow> [] | Some f \<Rightarrow> if is_file h f then [RoBind f place, SetEnv var place] else [])"

definition query_ops :: "box_host \<Rightarrow> string \<Rightarrow> mount list" where
  "query_ops h home =
     (let aw = aw_config_path h home; oc = opencode_config_path h home;
          near = (case bx_eval h aw of None \<Rightarrow> '''' | Some f \<Rightarrow> path_join [path_dir f, ''opencode.aw.yaml'']);
          oc' = (if (oc = '''' \<or> \<not> is_file h oc) \<and> near \<noteq> '''' \<and> is_file h near then near else oc)
      in config_bind h aw ''/session/aw-config.yaml'' ''AW_CONFIG'' @
         (if oc' \<noteq> '''' then config_bind h oc' ''/session/opencode.aw.yaml'' ''OPENCODE_AW_CONFIG'' else []))"

text \<open>Everything behind the read-only roots.\<close>

definition agent_late ::
  "box_host \<Rightarrow> cli_spec list \<Rightarrow> string \<Rightarrow> agent_request \<Rightarrow> (string \<times> string) list \<Rightarrow> string option \<Rightarrow> mount list" where
  "agent_late h specs home r profiles contract =
     sorted_env (concat (map (\<lambda>sp. cs_env sp home) (agent_specs specs r)) @ profiles) @
     (if at_all r then query_ops h home else []) @ ssh_ops h home @ null_bind h (gcp_key home) @ config_mask h (at_config r) @
     (case at_proxy r of None \<Rightarrow> proxy_masks h '''' '''' | Some px \<Rightarrow> proxy_masks h (px_ca_key px) (px_config px)) @
     (case at_proxy r of None \<Rightarrow> [] | Some px \<Rightarrow> custom_env (sort_key fst (px_env px))) @
     [SetEnv ''AW_AGENTS_PATH'' ''/session/AW_AGENTS.md''] @
     (case contract of None \<Rightarrow> [] | Some f \<Rightarrow> [RoBind f ''/session/AW_AGENTS.md'']) @
     (case find (\<lambda>sp. cs_name sp = at_cli r) specs of None \<Rightarrow> []
      | Some sp \<Rightarrow> if at_skills r \<noteq> '''' \<and> cs_skills sp home \<noteq> '''' then [RoBind (at_skills r) (cs_skills sp home)] else []) @
     [Command [''--'']]"

definition agent_dirs :: "box_host \<Rightarrow> agent_request \<Rightarrow> mount list" where
  "agent_dirs h r =
     (if bx_mkdir h (path_join [bx_data h, ''logs''])
      then [Bind (path_join [bx_data h, ''logs'']) (path_join [bx_data h, ''logs''])] else []) @
     fakebash_dir (at_sock r) @ agent_shells h @ [Chdir (at_run_dir r)] @ agent_env h r"

definition agent_sandbox :: "box_host \<Rightarrow> cli_spec list \<Rightarrow> agent_request \<Rightarrow> box_error + mount list" where
  "agent_sandbox h specs r =
     (case bx_home h of None \<Rightarrow> Inl NoHome
      | Some home \<Rightarrow> (case base_ops h home (at_chat r) of Inl e \<Rightarrow> Inl e
        | Inr base \<Rightarrow> (case validate_readonly_roots h (agent_readonly h r) [path_join [home, ''.ssh''], bx_config h] of Some e \<Rightarrow> Inl e
          | None \<Rightarrow> if bx_stat h (at_run_dir r) = None then Inl (RunDirMissing (at_run_dir r))
            else (case (case at_cfg r of Some cfg \<Rightarrow> if ag_readonly cfg then readonly_run_ops h r cfg else writable_run_ops h r
                  | None \<Rightarrow> writable_run_ops h r) of Inl e \<Rightarrow> Inl e
              | Inr dirs \<Rightarrow> (case accounts_ops h home r of Inl e \<Rightarrow> Inl (AccountFailed e)
                | Inr (accounts, profiles) \<Rightarrow> (case readonly_binds h (agent_readonly h r) of Inl e \<Rightarrow> Inl e
                  | Inr ro \<Rightarrow> (case at_contract r of Inl e \<Rightarrow> Inl e
                    | Inr contract \<Rightarrow> Inr (base @ dirs @ agent_dirs h r @ cli_mounts h (agent_readonly h r) home (agent_specs specs r) @
                        accounts @ ro @ agent_late h specs home r profiles contract))))))))"

section \<open>The sandbox of git\<close>

record git_request =
  gt_chat :: string
  gt_src :: string
  gt_write :: bool
  gt_network :: bool
  gt_env :: "string list"
  gt_config :: string
  gt_proxy :: proxy_opts
  gt_args :: "string list"

definition git_env :: "string list \<Rightarrow> mount list" where
  "git_env kvs = List.map_filter (\<lambda>kv. case cut_at (CHR ''='') kv of Some (k, v) \<Rightarrow> if k \<noteq> '''' then Some (SetEnv k v) else None
     | None \<Rightarrow> None) kvs"

definition git_sandbox :: "box_host \<Rightarrow> git_request \<Rightarrow> box_error + mount list" where
  "git_sandbox h r =
     (case bx_home h of None \<Rightarrow> Inl NoHome
      | Some home \<Rightarrow> (case base_ops h home (gt_chat r) of Inl e \<Rightarrow> Inl e
        | Inr base \<Rightarrow> (case (if gt_network r \<and> px_enabled (gt_proxy r) then proxy_ops h (gt_chat r) (gt_proxy r) else Inr []) of
            Inl e \<Rightarrow> Inl e
          | Inr px \<Rightarrow> Inr ([Flag ''--clearenv'', Flag ''--new-session''] @ base @
              (if gt_network r then [] else [Flag ''--unshare-net'']) @ Tmpfs home #
              bind_if_there h (path_join [home, ''.gitconfig'']) @ bind_if_there h (path_join [home, ''.config'', ''git'']) @
              (if gt_network r then ssh_ops h home else []) @
              [(if gt_write r then Bind else RoBind) (gt_src r) ''/repo'', Chdir ''/repo''] @
              config_mask h (gt_config r) @ proxy_masks h (px_ca_key (gt_proxy r)) (px_config (gt_proxy r)) @
              px @ git_env (gt_env r) @ [Command ([''--'', ''git''] @ gt_args r)]))))"

end
