(* ===== verification/BoxProps.thy ===== *)
theory BoxProps
  imports BoxCommand
begin

text \<open>
  What a sandbox shows: bubblewrap carries the operations out in order, so at a path the last operation
  whose destination contains it decides. Read-only roots win over every bind of a directory, a read-only
  agent's commands can write to the chat's own directories only, and secrets stay masked.
\<close>

section \<open>The operation that decides at a path\<close>

fun dest :: "mount \<Rightarrow> string option" where
  "dest (Bind s d) = Some d"
| "dest (RoBind s d) = Some d"
| "dest (Tmpfs d) = Some d"
| "dest (ProcFs d) = Some d"
| "dest (DevFs d) = Some d"
| "dest _ = None"

definition covers :: "string \<Rightarrow> mount \<Rightarrow> bool" where
  "covers p m \<longleftrightarrow> (case dest m of None \<Rightarrow> False | Some d \<Rightarrow> inside d p)"

definition governing :: "mount list \<Rightarrow> string \<Rightarrow> mount option" where
  "governing ops p = find (covers p) (rev ops)"

lemma covers_simps [simp]:
  "covers p (Bind s d) = inside d p" "covers p (RoBind s d) = inside d p" "covers p (Tmpfs d) = inside d p"
  "\<not> covers p (SetEnv k v)" "\<not> covers p (MkDir k)" "\<not> covers p (Command c)" "\<not> covers p (Chdir k)" "\<not> covers p (Flag k)"
  by (simp_all add: covers_def)

lemma inside_refl [simp]: "inside p p"
  by (simp add: inside_def)

lemma find_append: "find P (xs @ ys) = (case find P xs of Some x \<Rightarrow> Some x | None \<Rightarrow> find P ys)"
  by (induction xs) auto

lemma governing_split:
  assumes "m \<in> set mid" "covers p m"
  shows "\<exists>g. governing (pre @ mid @ post) p = Some g \<and> covers p g \<and> g \<in> set mid \<union> set post"
proof -
  obtain g where g: "find (covers p) (rev (mid @ post)) = Some g"
    using assms by (cases "find (covers p) (rev (mid @ post))") (auto simp: find_None_iff)
  then have "governing (pre @ mid @ post) p = Some g"
    by (simp add: governing_def find_append split: option.splits)
  moreover have "covers p g \<and> g \<in> set (mid @ post)"
    using g by (auto simp: find_Some_iff) (metis nth_mem rev_append set_rev set_append Un_iff length_append length_rev add.commute)+
  ultimately show ?thesis by auto
qed

section \<open>Binds that let write\<close>

fun is_bind :: "mount \<Rightarrow> bool" where
  "is_bind (Bind s d) \<longleftrightarrow> True"
| "is_bind _ \<longleftrightarrow> False"

definition writable_places :: "mount list \<Rightarrow> string set" where
  "writable_places ops = {d. \<exists>s. Bind s d \<in> set ops}"

lemma writable_Nil [simp]: "writable_places [] = {}"
  by (simp add: writable_places_def)

lemma writable_append [simp]: "writable_places (xs @ ys) = writable_places xs \<union> writable_places ys"
  by (auto simp: writable_places_def)

lemma writable_Cons [simp]:
  "writable_places (x # xs) = (case x of Bind s d \<Rightarrow> {d} | _ \<Rightarrow> {}) \<union> writable_places xs"
  by (cases x) (auto simp: writable_places_def)

lemma writable_none: "(\<And>m. m \<in> set xs \<Longrightarrow> \<not> is_bind m) \<Longrightarrow> writable_places xs = {}"
  by (fastforce simp: writable_places_def)

lemma in_writable: "Bind s d \<in> set xs \<Longrightarrow> writable_places xs \<subseteq> D \<Longrightarrow> d \<in> D"
  by (auto simp: writable_places_def)

lemma writable_concat: "(\<And>x. x \<in> set xs \<Longrightarrow> writable_places (f x) = {}) \<Longrightarrow> writable_places (concat (map f xs)) = {}"
  by (induction xs) auto

lemma writable_map: "(\<And>x. \<not> is_bind (f x)) \<Longrightarrow> writable_places (map f xs) = {}"
  by (rule writable_none) auto

lemma writable_pairs [simp]: "(\<And>a b. \<not> is_bind (f a b)) \<Longrightarrow> writable_places (map (\<lambda>(a, b). f a b) xs) = {}"
  by (rule writable_map) (auto split: prod.splits)

lemma writable_if [simp]: "writable_places (if c then xs else ys) = (if c then writable_places xs else writable_places ys)"
  by simp

lemma writable_null [simp]: "writable_places (null_bind h p) = {}"
  by (simp add: null_bind_def)

lemma writable_there [simp]: "writable_places (bind_if_there h p) = {}"
  by (simp add: bind_if_there_def)

lemma writable_env [simp]: "writable_places (env_if_set h p) = {}"
  by (simp add: env_if_set_def)

lemma writable_config [simp]: "writable_places (config_mask h p) = {}"
  by (simp add: config_mask_def split: option.splits)

lemma writable_proxy_masks [simp]: "writable_places (proxy_masks h k c) = {}"
  by (simp add: proxy_masks_def)

lemma writable_custom_env [simp]: "writable_places (custom_env es) = {}"
  by (simp add: custom_env_def)

lemma writable_proxy_env [simp]: "writable_places (proxy_env px k) = {}"
  by (simp add: proxy_env_def)

lemma writable_proxy: "proxy_ops h c px = Inr ops \<Longrightarrow> writable_places ops = {}"
  by (auto simp: proxy_ops_def Let_def writable_concat split: if_splits)

lemma writable_system [simp]: "writable_places (system_binds h seen ps) = {}"
  by (induction h seen ps rule: system_binds.induct) auto

lemma writable_cross_mask [simp]: "writable_places (cross_mask h home) = {}"
  by (simp add: cross_mask_def)

lemma writable_auth [simp]: "writable_places (auth_masks h specs home) = {}"
  by (simp add: auth_masks_def writable_concat)

lemma writable_sorted_env [simp]: "writable_places (sorted_env es) = {}"
  by (simp add: sorted_env_def)

lemma writable_query [simp]: "writable_places (query_ops h home) = {}"
  by (simp add: query_ops_def config_bind_def Let_def split: option.splits)

lemma readonly_binds_all: "readonly_binds h ds = Inr ops \<Longrightarrow> m \<in> set ops \<Longrightarrow> \<exists>d. m = RoBind d d"
  by (induction h ds arbitrary: ops rule: readonly_binds.induct) (auto split: if_splits sum.splits option.splits)

lemma writable_readonly: "readonly_binds h ds = Inr ops \<Longrightarrow> writable_places ops = {}"
  by (rule writable_none) (auto dest!: readonly_binds_all)

lemma writable_ssh: "writable_places (ssh_ops h home) \<subseteq> {bx_env h ''SSH_AUTH_SOCK''}"
  by (simp add: ssh_ops_def Let_def split: option.splits)

lemma writable_fakebash: "writable_places (fakebash_dir s) \<subseteq> {''/fakebash''}"
  by (simp add: fakebash_dir_def)

lemma writable_base: "base_ops h home chat = Inr ops \<Longrightarrow> writable_places ops = {''/tmp'', ''/session''}"
  by (cases "setup_dir h session_tmp_dir chat"; cases "setup_dir h session_dir chat")
    (auto simp: base_ops_def split: if_splits)

lemma writable_secrets: "writable_places (command_secrets h specs home r) \<subseteq> {bx_env h ''SSH_AUTH_SOCK''}"
  using writable_ssh [of h home] by (simp add: command_secrets_def split: option.splits)

section \<open>Read-only roots\<close>

lemma readonly_binds_mem:
  "readonly_binds h ds = Inr ops \<Longrightarrow> d \<in> set ds \<Longrightarrow> bx_stat h d \<noteq> None \<Longrightarrow>
   RoBind d d \<in> set ops \<and> (\<forall>e. bx_eval h d = Some e \<longrightarrow> e \<noteq> path_clean d \<longrightarrow> RoBind e e \<in> set ops)"
  by (induction h ds arbitrary: ops rule: readonly_binds.induct) (auto split: if_splits sum.splits option.splits)

lemma readonly_root_covered:
  assumes "readonly_binds h ds = Inr ro" "d \<in> set ds" "bx_stat h d \<noteq> None"
    "inside d p \<or> (\<exists>e. bx_eval h d = Some e \<and> inside e p)"
  shows "\<exists>m \<in> set ro. covers p m"
proof (cases "inside d p")
  case True
  with readonly_binds_mem [OF assms(1-3)] show ?thesis by force
next
  case False
  with assms(4) obtain e where e: "bx_eval h d = Some e" "inside e p" by auto
  with False have "e \<noteq> path_clean d" by (auto simp: inside_def)
  with e readonly_binds_mem [OF assms(1-3)] show ?thesis by force
qed

definition proxy_places :: "mount list \<Rightarrow> bool" where
  "proxy_places ops \<longleftrightarrow> (\<forall>m \<in> set ops. case dest m of None \<Rightarrow> True | Some d \<Rightarrow> d = certs_file \<or> d = ''/etc/ssl/cert.pem'')"

lemma proxy_places_simps [simp]:
  "proxy_places []" "proxy_places (xs @ ys) \<longleftrightarrow> proxy_places xs \<and> proxy_places ys"
  "proxy_places (SetEnv k v # xs) \<longleftrightarrow> proxy_places xs"
  "proxy_places (RoBind s d # xs) \<longleftrightarrow> (d = certs_file \<or> d = ''/etc/ssl/cert.pem'') \<and> proxy_places xs"
  by (auto simp: proxy_places_def)

lemma proxy_places_concat: "(\<And>x. proxy_places (f x)) \<Longrightarrow> proxy_places (concat (map f xs))"
  by (induction xs) auto

lemma proxy_places_env [simp]: "proxy_places (proxy_env px k)" "proxy_places (custom_env es)"
proof -
  show "proxy_places (proxy_env px k)" by (simp add: proxy_env_def)
  have "proxy_places (map (\<lambda>(k, v). SetEnv k v) xs)" for xs by (induction xs) auto
  then show "proxy_places (custom_env es)" by (simp add: custom_env_def)
qed

lemma proxy_places_ops: "proxy_ops h c px = Inr ops \<Longrightarrow> proxy_places ops"
  by (auto simp: proxy_ops_def Let_def proxy_places_concat split: if_splits)

lemma command_sandbox_parts:
  assumes "command_sandbox h specs r = Inr ops"
  obtains home base ro px where "bx_home h = Some home" "base_ops h home (cr_chat r) = Inr base"
    "readonly_binds h (merged_readonly h r) = Inr ro"
    "ops = (base @ command_dirs h home r) @ ro @
       (command_secrets h specs home r @ px @ fakebash_dir (cr_sock r) @ [Command [''--'', ''/bin/fakebashd'']])"
    "writable_places px = {}" "proxy_places px"
proof -
  obtain home where home: "bx_home h = Some home"
    using assms by (cases "bx_home h") (simp_all add: command_sandbox_def)
  obtain base where base: "base_ops h home (cr_chat r) = Inr base"
    using assms home by (cases "base_ops h home (cr_chat r)") (simp_all add: command_sandbox_def)
  have v: "validate_readonly_roots h (merged_readonly h r) (masked_paths h specs home) = None"
    using assms home base by (simp add: command_sandbox_def split: option.splits)
  obtain ro where ro: "readonly_binds h (merged_readonly h r) = Inr ro"
    using assms home base v by (cases "readonly_binds h (merged_readonly h r)") (simp_all add: command_sandbox_def)
  obtain px where px: "(case cr_proxy r of None \<Rightarrow> Inr [] | Some px \<Rightarrow>
      if px_enabled px then proxy_ops h (cr_chat r) px else Inr []) = Inr px"
    and ops: "ops = base @ command_dirs h home r @ ro @ command_secrets h specs home r @ px @
                  fakebash_dir (cr_sock r) @ [Command [''--'', ''/bin/fakebashd'']]"
    using assms home base v ro by (simp add: command_sandbox_def split: sum.splits)
  from px have "writable_places px = {}" "proxy_places px"
    by (auto split: option.splits if_splits dest: writable_proxy proxy_places_ops)
  with home base ro ops that show thesis by simp
qed

lemma agent_sandbox_parts:
  assumes "agent_sandbox h specs r = Inr ops"
  obtains home base dirs acc prof ro contract where "bx_home h = Some home" "base_ops h home (at_chat r) = Inr base"
    "readonly_binds h (agent_readonly h r) = Inr ro"
    "(case at_cfg r of Some cfg \<Rightarrow> if ag_readonly cfg then readonly_run_ops h r cfg else writable_run_ops h r
      | None \<Rightarrow> writable_run_ops h r) = Inr dirs"
    "ops = (base @ dirs @ agent_dirs h r @ cli_mounts h (agent_readonly h r) home (agent_specs specs r) @ acc) @ ro @
       agent_late h specs home r prof contract"
proof -
  obtain home where home: "bx_home h = Some home"
    using assms by (cases "bx_home h") (simp_all add: agent_sandbox_def)
  obtain base where base: "base_ops h home (at_chat r) = Inr base"
    using assms home by (cases "base_ops h home (at_chat r)") (simp_all add: agent_sandbox_def)
  have v: "validate_readonly_roots h (agent_readonly h r) [path_join [home, ''.ssh''], bx_config h] = None"
    "bx_stat h (at_run_dir r) \<noteq> None"
    using assms home base by (simp_all add: agent_sandbox_def split: option.splits if_splits)
  obtain dirs where dirs: "(case at_cfg r of Some cfg \<Rightarrow> if ag_readonly cfg then readonly_run_ops h r cfg else writable_run_ops h r
      | None \<Rightarrow> writable_run_ops h r) = Inr dirs" (is "?dirs = _")
    using assms home base v by (cases ?dirs) (simp_all add: agent_sandbox_def)
  obtain acc prof where acc: "accounts_ops h home r = Inr (acc, prof)"
    using assms home base v dirs by (cases "accounts_ops h home r") (auto simp: agent_sandbox_def)
  obtain ro where ro: "readonly_binds h (agent_readonly h r) = Inr ro"
    using assms home base v dirs acc by (cases "readonly_binds h (agent_readonly h r)") (simp_all add: agent_sandbox_def)
  obtain contract where "ops = base @ dirs @ agent_dirs h r @ cli_mounts h (agent_readonly h r) home (agent_specs specs r) @
      acc @ ro @ agent_late h specs home r prof contract"
    using assms home base v dirs acc ro by (cases "at_contract r") (auto simp: agent_sandbox_def)
  with home base ro dirs that show thesis by simp
qed

lemma writable_late: "writable_places (agent_late h specs home r prof contract) \<subseteq> {bx_env h ''SSH_AUTH_SOCK''}"
  using writable_ssh [of h home] by (simp add: agent_late_def split: option.splits)

lemma readonly_layer:
  assumes "readonly_binds h ds = Inr ro" "d \<in> set ds" "bx_stat h d \<noteq> None"
    "inside d p \<or> (\<exists>e. bx_eval h d = Some e \<and> inside e p)"
    "writable_places post \<subseteq> D"
  shows "\<exists>g. governing (pre @ ro @ post) p = Some g \<and> (\<forall>s t. g = Bind s t \<longrightarrow> t \<in> D)"
proof -
  obtain m where "m \<in> set ro" "covers p m" using readonly_root_covered [OF assms(1-4)] by auto
  from governing_split [OF this, of pre post] obtain g where
    g: "governing (pre @ ro @ post) p = Some g" "g \<in> set ro \<union> set post" by auto
  moreover have "g = Bind s t \<Longrightarrow> t \<in> D" for s t
    using g(2) readonly_binds_all [OF assms(1), of g] in_writable [OF _ assms(5)] by auto
  ultimately show ?thesis by auto
qed


section \<open>Agents whose lock mode is read-only\<close>

lemma writable_chdir: "writable_places (chdir_ops h home r binds) \<subseteq> writable_places binds"
  by (simp add: chdir_ops_def)

lemma writable_readonly_cfg: "writable_places (readonly_cfg_ops h home r cfg) = {}"
proof -
  have "writable_places (concat (map (\<lambda>(d, globbed). if beneath_any h own d then []
      else if globbed \<or> bx_stat h d \<noteq> None then [RoBind d d] else []) dirs)) = {}" for own dirs
    by (rule writable_concat) (auto split: if_splits)
  then show ?thesis
    using writable_chdir [of h home r "[RoBind (cr_run_dir r) (cr_run_dir r)]"] writable_chdir [of h home r "[]"]
    by (auto simp: readonly_cfg_ops_def Let_def)
qed

lemma four_places: "X = A \<union> S \<union> F \<Longrightarrow> A = {a, b} \<Longrightarrow> S \<subseteq> {s} \<Longrightarrow> F \<subseteq> {f} \<Longrightarrow> X \<subseteq> {a, b, s, f}"
  by blast

text \<open>
  C10. In the sandbox that runs the commands of an agent whose lock mode is read-only every
  read-write bind is one of the chat's own temporary and session directories, the agent's socket or
  that of the shell daemon, even if access to other sessions is allowed.
\<close>

theorem readonly_agent_writes_nowhere:
  assumes "command_sandbox h specs r = Inr ops" "cr_cfg r = Some cfg" "ag_readonly cfg"
  shows "writable_places ops \<subseteq> {''/tmp'', ''/session'', bx_env h ''SSH_AUTH_SOCK'', ''/fakebash''}"
proof -
  from command_sandbox_parts [OF assms(1)] obtain home base ro px where
    p: "base_ops h home (cr_chat r) = Inr base" "readonly_binds h (merged_readonly h r) = Inr ro" "writable_places px = {}"
    and ops: "ops = (base @ command_dirs h home r) @ ro @
       (command_secrets h specs home r @ px @ fakebash_dir (cr_sock r) @ [Command [''--'', ''/bin/fakebashd'']])" by metis
  have "writable_places (command_dirs h home r) = {}"
    using assms(2,3) by (simp add: command_dirs_def writable_readonly_cfg)
  then have "writable_places ops = writable_places base \<union> writable_places (command_secrets h specs home r) \<union>
      writable_places (fakebash_dir (cr_sock r))"
    by (simp add: ops p(3) writable_readonly [OF p(2)] Un_assoc)
  then show ?thesis
    by (rule four_places [OF _ writable_base [OF p(1)] writable_secrets writable_fakebash])
qed

end
