(* ===== verification/BoxMaskProps.thy ===== *)
theory BoxMaskProps
  imports BoxProps
begin

text \<open>
  Mask rules: they never touch the run directory of the agent nor, when the run directory lies in the base
  of the rule, anything in it, and a rule that masks all others masks everything beside the way to it.
\<close>

section \<open>Relative paths\<close>

lemma down_join: "list_all plain_comp ts \<Longrightarrow> down (join_with slash ts)"
  by (auto simp: down_def)

lemma plain_not_up:
  assumes "list_all plain_comp ts"
  shows "join_with slash ts \<noteq> ''..'' \<and> cut_prefix ''../'' (join_with slash ts) = None"
proof (cases ts)
  case Nil
  then show ?thesis by (simp add: cut_prefix_def)
next
  case (Cons t ts')
  have s: "split_on slash (join_with slash ts) = ts" using split_join_plain [OF assms] Cons by simp
  have "join_with slash ts \<noteq> ''..''"
  proof
    assume "join_with slash ts = ''..''"
    with s have "ts = [''..'']" by simp
    with assms show False by simp
  qed
  moreover have "cut_prefix ''../'' (join_with slash ts) = None"
  proof (rule ccontr)
    assume "cut_prefix ''../'' (join_with slash ts) \<noteq> None"
    then obtain x where "join_with slash ts = ''../'' @ x"
      by (auto simp: cut_prefix_def split: if_splits) (metis append_take_drop_id append_Cons append_Nil)
    with s have "ts = ''..'' # split_on slash x" by simp
    with assms show False by simp
  qed
  ultimately show ?thesis by simp
qed

lemma path_rel_inside:
  assumes "path_is_abs base" "path_is_abs p" "path_comps p = path_comps base @ ts" "ts \<noteq> []"
  shows "path_rel base p = Some (join_with slash ts)"
proof -
  have "path_clean base \<noteq> path_clean p" using assms by (simp add: path_clean_eq_iff)
  with assms show ?thesis by (simp add: path_rel_def strip_common_append)
qed

lemma lexical_rel_inside:
  assumes "path_is_abs base" "path_is_abs p"
  shows "lexical_rel base p \<noteq> None \<longleftrightarrow> inside base p"
proof
  assume "lexical_rel base p \<noteq> None"
  then obtain r where "lexical_rel base p = Some r" by blast
  from lexical_rel_below [OF this assms(2)] assms show "inside base p" by (auto simp: inside_def)
next
  assume "inside base p"
  then obtain ts where ts: "path_comps p = path_comps base @ ts" by (auto simp: inside_def prefix_def)
  show "lexical_rel base p \<noteq> None"
  proof (cases "ts = []")
    case True
    with ts assms have "path_clean base = path_clean p" by (simp add: path_clean_eq_iff)
    then show ?thesis by (simp add: lexical_rel_def path_rel_def cut_prefix_def)
  next
    case False
    have "list_all plain_comp ts" using path_comps_abs_plain [OF assms(2)] ts by (auto simp: list_all_iff)
    from plain_not_up [OF this] show ?thesis
      by (simp add: lexical_rel_def path_rel_inside [OF assms ts False])
  qed
qed

lemma beneath_inside: "path_is_abs base \<Longrightarrow> path_is_abs p \<Longrightarrow> inside base p \<Longrightarrow> beneath_any h [base] p"
  using lexical_rel_inside [of "path_clean base" "path_clean p"]
  by (auto simp: beneath_any_def real_and_lexical_def Let_def inside_def)

section \<open>The way to the run directory\<close>

lemma prefix_eq_length: "prefix a r \<Longrightarrow> prefix b r \<Longrightarrow> length a = length b \<Longrightarrow> a = b"
  by (auto simp: prefix_def append_eq_append_conv)

lemma prefix_fork:
  assumes "prefix a r" "length a < length r" "\<not> prefix (a @ [n]) r" "prefix (a @ [n]) p"
  shows "\<not> prefix r p"
proof
  assume "prefix r p"
  with assms(3,4) have "prefix r (a @ [n])" by (metis prefix_same_cases)
  with assms(2) have "r = a @ [n]" by (auto dest: prefix_length_le)
  with assms(3) show False by simp
qed

lemma join_name:
  assumes "path_is_abs d" "plain_comp n"
  shows "path_comps (path_join [d, n]) = path_comps d @ [n]" "path_is_abs (path_join [d, n])"
    "path_clean (path_join [d, n]) = path_join [d, n]"
proof -
  have "d \<noteq> []" using assms(1) by (auto simp: path_is_abs_def)
  from path_join_snoc [OF this assms(2)] assms(1) path_join_nonempty [OF this, of "[n]"]
  show "path_comps (path_join [d, n]) = path_comps d @ [n]" "path_is_abs (path_join [d, n])"
    "path_clean (path_join [d, n]) = path_join [d, n]"
    by (auto intro: path_join_clean)
qed

text \<open>A directory on the way, and the next one.\<close>

definition on_way :: "string \<Rightarrow> string \<Rightarrow> spine_step \<Rightarrow> bool" where
  "on_way base run st \<longleftrightarrow> path_is_abs (sp_dir st) \<and> inside base (sp_dir st) \<and> inside (sp_dir st) run \<and>
     (case sp_child st of None \<Rightarrow> False | Some c \<Rightarrow> path_clean c = c \<and> path_is_abs c \<and> inside c run \<and>
        length (path_comps c) = Suc (length (path_comps (sp_dir st))))"

lemma spine_on_way:
  assumes "path_is_abs cur" "inside base cur" "path_comps run = path_comps cur @ ps" "path_is_abs run"
    "list_all plain_comp ps"
  shows "st \<in> set (spine_from run cur ps) \<Longrightarrow> on_way base run st"
  using assms
proof (induction run cur ps rule: spine_from.induct)
  case (2 run cur p ps)
  have p: "plain_comp p" using 2(7) by simp
  note j = join_name [OF 2(3) p]
  have in_run: "inside (path_join [cur, p]) run" and in_base: "inside base (path_join [cur, p])"
    using 2(3-6) j by (auto simp: inside_def prefix_def)
  from 2(2) consider "cur \<noteq> run" "st = SpineStep cur (Some (path_join [cur, p]))"
    | "cur \<noteq> run" "st \<in> set (spine_from run (path_join [cur, p]) ps)"
    by (auto split: if_splits)
  then show ?case
  proof cases
    case 1
    with j in_run 2(3-6) show ?thesis by (auto simp: on_way_def inside_def)
  next
    case 2
    with "2.IH" in_base j in_run "2.prems" show ?thesis by simp
  qed
qed simp

text \<open>The directories of a rule: the base alone, or the way from it.\<close>

lemma compute_spine_cases:
  assumes "path_is_abs base" "path_is_abs run" "path_clean base = base" "path_clean run = run"
    "inside base run \<or> \<not> beneath_any h [base] run"
  shows "(run = base \<or> \<not> inside base run) \<and> compute_spine h base run = [SpineStep base None] \<or>
    run \<noteq> base \<and> inside base run \<and> (\<exists>p ps. list_all plain_comp (p # ps) \<and>
      path_comps run = path_comps base @ p # ps \<and> compute_spine h base run = spine_from run base (p # ps))"
proof (cases "run = base \<or> \<not> inside base run")
  case True
  with assms(5) have "run = base \<or> \<not> beneath_any h [base] run"
    by (auto simp: inside_def)
  with True show ?thesis by (auto simp: compute_spine_def)
next
  case False
  then obtain ts where ts: "path_comps run = path_comps base @ ts" by (auto simp: inside_def prefix_def)
  have "path_comps base \<noteq> path_comps run" using False assms by (metis path_clean_eq_iff)
  with ts have ne: "ts \<noteq> []" by auto
  have pl: "list_all plain_comp ts" using path_comps_abs_plain [OF assms(2)] ts by (auto simp: list_all_iff)
  have "beneath_any h [base] run" using beneath_inside assms(1,2) False by blast
  then have "compute_spine h base run = spine_from run base ts"
    using False path_rel_inside [OF assms(1,2) ts ne] split_join_plain [OF pl ne] by (simp add: compute_spine_def)
  with False ts ne pl show ?thesis by (cases ts) auto
qed

lemma compute_spine_step:
  assumes "path_is_abs base" "path_is_abs run" "path_clean base = base" "path_clean run = run"
    "inside base run \<or> \<not> beneath_any h [base] run" "st \<in> set (compute_spine h base run)"
  shows "(run = base \<or> \<not> inside base run) \<and> st = SpineStep base None \<or> run \<noteq> base \<and> inside base run \<and> on_way base run st"
  using compute_spine_cases [OF assms(1-5)]
proof (elim disjE conjE exE)
  fix p ps
  assume "list_all plain_comp (p # ps)" "path_comps run = path_comps base @ p # ps"
    "compute_spine h base run = spine_from run base (p # ps)" "run \<noteq> base" "inside base run"
  with spine_on_way [OF assms(1) _ _ assms(2)] assms(6) show ?thesis by (simp only:) simp
qed (use assms(6) in auto)

lemma spine_base:
  assumes "path_is_abs base" "path_is_abs run" "path_clean base = base" "path_clean run = run"
    "inside base run \<or> \<not> beneath_any h [base] run"
  shows "\<exists>c. SpineStep base c \<in> set (compute_spine h base run) \<and> (\<forall>x. c = Some x \<longrightarrow> inside x run)"
proof (cases "run = base \<or> \<not> inside base run")
  case True
  with compute_spine_cases [OF assms] show ?thesis by auto
next
  case False
  with compute_spine_cases [OF assms] obtain p ps where p: "list_all plain_comp (p # ps)"
    "path_comps run = path_comps base @ p # ps" "compute_spine h base run = spine_from run base (p # ps)" by blast
  then have "inside (path_join [base, p]) run"
    using join_name [OF assms(1), of p] assms(1,2) by (auto simp: inside_def)
  with p(3) False show ?thesis by auto
qed

section \<open>What a rule masks\<close>

definition plain_listings :: "box_host \<Rightarrow> bool" where
  "plain_listings h \<longleftrightarrow> (\<forall>d es n k. bx_read_dir h d = Some es \<longrightarrow> (n, k) \<in> set es \<longrightarrow> plain_comp n)"

lemma mask_item_dest:
  "m \<in> set (mask_item h base run rule st n) \<Longrightarrow>
   dest m = Some (path_join [sp_dir st, n]) \<and> path_join [sp_dir st, n] \<noteq> run \<and> sp_child st \<noteq> Some (path_join [sp_dir st, n])"
  by (auto simp: mask_item_def Let_def split: option.splits if_splits mask_mode.splits)

lemma mask_ops_mem:
  "m \<in> set (mask_ops h base (Some rule) run) \<longleftrightarrow>
   (\<exists>st \<in> set (compute_spine h (path_clean base) (path_clean run)). \<exists>es n k. bx_read_dir h (sp_dir st) = Some es \<and>
      (n, k) \<in> set es \<and> m \<in> set (mask_item h (path_clean base) (path_clean run) rule st n))"
proof -
  have step: "m \<in> set (mask_step h b q rule st) \<longleftrightarrow> (\<exists>es n k. bx_read_dir h (sp_dir st) = Some es \<and>
      (n, k) \<in> set es \<and> m \<in> set (mask_item h b q rule st n))" for b q st
    by (cases "bx_read_dir h (sp_dir st)") (force simp: mask_step_def)+
  show ?thesis by (simp add: mask_ops_def Let_def step)
qed

lemma mask_dest_cases:
  assumes "plain_listings h" "path_is_abs base" "path_is_abs run" "inside base run \<or> \<not> beneath_any h [path_clean base] (path_clean run)"
    "m \<in> set (mask_ops h base (Some rule) run)"
  obtains d n where "dest m = Some (path_join [d, n])" "plain_comp n" "path_is_abs d" "inside base d"
    "inside base run \<and> path_clean run \<noteq> path_clean base \<Longrightarrow>
      inside d run \<and> length (path_comps d) < length (path_comps run) \<and> \<not> inside (path_join [d, n]) run"
    "path_clean run = path_clean base \<or> \<not> inside base run \<Longrightarrow> path_comps d = path_comps base"
proof -
  from assms(5) obtain st es n k where m: "st \<in> set (compute_spine h (path_clean base) (path_clean run))"
    "bx_read_dir h (sp_dir st) = Some es" "(n, k) \<in> set es"
    "m \<in> set (mask_item h (path_clean base) (path_clean run) rule st n)"
    by (auto simp: mask_ops_mem)
  have n: "plain_comp n" using assms(1) m(2,3) by (auto simp: plain_listings_def)
  note it = mask_item_dest [OF m(4)]
  have step: "(path_clean run = path_clean base \<or> \<not> inside base run) \<and> st = SpineStep (path_clean base) None \<or>
      path_clean run \<noteq> path_clean base \<and> inside base run \<and> on_way (path_clean base) (path_clean run) st"
    using compute_spine_step [of "path_clean base" "path_clean run" h st] assms(2-4) m(1) by (simp add: inside_def)
  show thesis
  proof (cases "path_clean run = path_clean base \<or> \<not> inside base run")
    case True
    with step have "st = SpineStep (path_clean base) None" by blast
    with that [of "path_clean base" n] it n assms(2) True show thesis by (auto simp: inside_def)
  next
    case False
    with step have w: "on_way (path_clean base) (path_clean run) st" "inside base run" "path_clean run \<noteq> path_clean base"
      by blast+
    then obtain c where c: "sp_child st = Some c" "path_clean c = c" "path_is_abs c" "inside c run"
      "length (path_comps c) = Suc (length (path_comps (sp_dir st)))" "path_is_abs (sp_dir st)"
      "inside base (sp_dir st)" "inside (sp_dir st) run"
      by (auto simp: on_way_def inside_def split: option.splits)
    note j = join_name [OF c(6) n]
    have "\<not> inside (path_join [sp_dir st, n]) run"
    proof
      assume "inside (path_join [sp_dir st, n]) run"
      with c(4,5) j have "path_comps (path_join [sp_dir st, n]) = path_comps c"
        using prefix_eq_length [of _ "path_comps run"] by (simp add: inside_def)
      with j c(2,3) have "path_join [sp_dir st, n] = c" by (metis path_clean_eq_iff)
      with it c(1) show False by simp
    qed
    moreover have "length (path_comps (sp_dir st)) < length (path_comps run)"
      using c(4,5) by (auto simp: inside_def dest: prefix_length_le)
    ultimately show thesis using that [of "sp_dir st" n] it n c(6-8) w by auto
  qed
qed

lemma mask_spares_at:
  assumes "plain_listings h" "path_is_abs base" "path_is_abs run"
    "inside base run \<or> \<not> beneath_any h [path_clean base] (path_clean run)"
    "m \<in> set (mask_ops h base (Some rule) run)"
  shows "\<not> covers run m"
proof -
  from mask_dest_cases [OF assms] obtain d n where d: "dest m = Some (path_join [d, n])" "plain_comp n" "path_is_abs d"
    "inside base run \<and> path_clean run \<noteq> path_clean base \<Longrightarrow> inside d run \<and> \<not> inside (path_join [d, n]) run"
    "path_clean run = path_clean base \<or> \<not> inside base run \<Longrightarrow> path_comps d = path_comps base" by metis
  note j = join_name [OF d(3,2)]
  have "\<not> inside (path_join [d, n]) run"
  proof (cases "inside base run \<and> path_clean run \<noteq> path_clean base")
    case False
    with d(5) have "path_comps d = path_comps base" by auto
    with False j assms(2,3) show ?thesis by (auto simp: inside_def prefix_def path_clean_eq_iff)
  qed (use d(4) in blast)
  with d(1) show ?thesis by (simp add: covers_def)
qed

text \<open>
  C12. A mask rule spares the run directory. If the run directory lies in the base of the rule by
  its name, or not even through links, no mask is put at it or above it; if it lies strictly
  below the base, nothing in it is masked either.
\<close>

theorem mask_spares_run_dir:
  assumes "plain_listings h" "path_is_abs base" "path_is_abs run"
    "inside base run \<or> \<not> beneath_any h [path_clean base] (path_clean run)"
    "m \<in> set (mask_ops h base (Some rule) run)"
  shows "\<not> covers run m \<and> (inside base run \<and> path_clean run \<noteq> path_clean base \<longrightarrow> inside run p \<longrightarrow> \<not> covers p m)"
proof -
  from mask_dest_cases [OF assms] obtain d n where d: "dest m = Some (path_join [d, n])" "plain_comp n" "path_is_abs d"
    "inside base run \<and> path_clean run \<noteq> path_clean base \<Longrightarrow> inside d run \<and> length (path_comps d) < length (path_comps run) \<and>
       \<not> inside (path_join [d, n]) run" by metis
  note j = join_name [OF d(3,2)]
  have "\<not> inside (path_join [d, n]) p" if "inside base run \<and> path_clean run \<noteq> path_clean base" "inside run p"
    using that(2) d(4) [OF that(1)] j prefix_fork [of "path_comps d" "path_comps run" n "path_comps p"] by (auto simp: inside_def)
  with d(1) mask_spares_at [OF assms] show ?thesis by (auto simp: covers_def)
qed

text \<open>
  A rule that masks all others without exceptions masks exactly what does not lead to the run
  directory: an entry of its base, a directory or a regular file, is bound read-only onto itself if
  and only if the run directory does not lie in it.
\<close>

theorem mask_others_exact:
  assumes "plain_listings h" "path_is_abs base" "path_is_abs run"
    "inside base run \<or> \<not> beneath_any h [path_clean base] (path_clean run)"
    "mr_mode rule = MaskOthers" "mr_keep rule = []"
    "bx_read_dir h (path_clean base) = Some es" "(n, k) \<in> set es"
    "bx_lstat h (path_join [path_clean base, n]) = Some j" "j = KDir \<or> j = KFile"
  shows "RoBind (path_join [path_clean base, n]) (path_join [path_clean base, n]) \<in> set (mask_ops h base (Some rule) run) \<longleftrightarrow>
    \<not> inside (path_join [path_clean base, n]) run" (is "?m \<in> _ \<longleftrightarrow> \<not> inside ?i run")
proof
  assume "?m \<in> set (mask_ops h base (Some rule) run)"
  from mask_spares_at [OF assms(1-4) this] show "\<not> inside ?i run" by simp
next
  assume o: "\<not> inside ?i run"
  have n: "plain_comp n" using assms(1,7,8) by (auto simp: plain_listings_def)
  have ab: "path_is_abs (path_clean base)" using assms(2) by simp
  note j = join_name [OF ab n]
  have rel: "path_rel (path_clean base) ?i \<noteq> None"
    using path_rel_inside [of "path_clean base" ?i "[n]"] j ab by simp
  have ne: "?i \<noteq> path_clean run" using o by (auto simp: inside_def)
  obtain c where c: "SpineStep (path_clean base) c \<in> set (compute_spine h (path_clean base) (path_clean run))"
    "\<And>x. c = Some x \<Longrightarrow> inside x (path_clean run)"
    using spine_base [of "path_clean base" "path_clean run" h] assms(2-4) by (auto simp: inside_def)
  then have "c \<noteq> Some ?i" using o by (auto simp: inside_def)
  have "?m \<in> set (mask_item h (path_clean base) (path_clean run) rule (SpineStep (path_clean base) c) n)"
    using rel ne \<open>c \<noteq> Some ?i\<close> assms(5,6,9,10) by (auto simp: mask_item_def Let_def matches_mask_def bindable_def)
  with c(1) assms(7,8) show "?m \<in> set (mask_ops h base (Some rule) run)"
    unfolding mask_ops_mem by force
qed

end
