(* ===== verification/BoxSecrets.thy ===== *)
theory BoxSecrets
  imports BoxProps
begin

text \<open>
  Credentials stay hidden from the commands of agents: at a path in a place that holds secrets the
  deciding operation is an empty file system or \<open>/dev/null\<close>, unless the path is one of the few that are
  meant to be seen.
\<close>

section \<open>Secret and public places\<close>

definition config_file_places :: "box_host \<Rightarrow> string \<Rightarrow> string list" where
  "config_file_places h p =
     (if trim_space p = '''' then [] else case bx_abs h p of None \<Rightarrow> [] | Some a \<Rightarrow> if is_file h a then [a] else [])"

definition secret_places :: "box_host \<Rightarrow> cli_spec list \<Rightarrow> string \<Rightarrow> command_request \<Rightarrow> string list" where
  "secret_places h specs home r =
     concat (map (\<lambda>sp. filter (\<lambda>d. d \<noteq> '''' \<and> bx_stat h d \<noteq> None) [cs_auth_dir sp home] @
       filter (is_file h) (cs_auth_files sp home)) specs) @
     [path_join [home, ''.ssh'']] @ filter (is_file h) [gcp_key home] @ config_file_places h (cr_config r) @
     filter (is_dir h) [bx_config h] @
     (case cr_proxy r of None \<Rightarrow> []
      | Some px \<Rightarrow> filter (\<lambda>f. f \<noteq> '''' \<and> is_file h f) [px_ca_key px, px_config px])"

definition public_places :: "box_host \<Rightarrow> string \<Rightarrow> string list" where
  "public_places h home =
     (let dir = path_join [home, ''.ssh''] in
      [path_join [dir, ''config''], path_join [dir, ''known_hosts'']] @
      (case bx_read_dir h dir of None \<Rightarrow> []
       | Some es \<Rightarrow> map (\<lambda>(n, _). path_join [dir, n]) (filter (\<lambda>(n, k). k \<noteq> KDir \<and> has_suffix n ''.pub'') es)) @
      [bx_env h ''SSH_AUTH_SOCK'', certs_file, ''/etc/ssl/cert.pem'', ''/fakebash''])"

text \<open>An operation that hides what lies at its destination.\<close>

definition hides :: "mount \<Rightarrow> bool" where
  "hides m \<longleftrightarrow> (case m of Tmpfs d \<Rightarrow> True | RoBind s d \<Rightarrow> s = ''/dev/null'' | _ \<Rightarrow> False)"

text \<open>Every operation hides, has no destination, or has a public one.\<close>

definition discreet :: "string list \<Rightarrow> mount list \<Rightarrow> bool" where
  "discreet pub ops \<longleftrightarrow> (\<forall>m \<in> set ops. hides m \<or> (case dest m of None \<Rightarrow> True | Some d \<Rightarrow> d \<in> set pub))"

lemma discreet_simps [simp]:
  "discreet pub []" "discreet pub (xs @ ys) \<longleftrightarrow> discreet pub xs \<and> discreet pub ys"
  "discreet pub (SetEnv k v # xs) \<longleftrightarrow> discreet pub xs" "discreet pub (Tmpfs d # xs) \<longleftrightarrow> discreet pub xs"
  "discreet pub (MkDir d # xs) \<longleftrightarrow> discreet pub xs" "discreet pub (Command c # xs) \<longleftrightarrow> discreet pub xs"
  "discreet pub (Bind s d # xs) \<longleftrightarrow> d \<in> set pub \<and> discreet pub xs"
  "discreet pub (RoBind s d # xs) \<longleftrightarrow> (s = ''/dev/null'' \<or> d \<in> set pub) \<and> discreet pub xs"
  by (auto simp: discreet_def hides_def)

lemma discreet_concat: "(\<And>x. x \<in> set xs \<Longrightarrow> discreet pub (f x)) \<Longrightarrow> discreet pub (concat (map f xs))"
  by (induction xs) auto

lemma discreet_null [simp]: "discreet pub (null_bind h p)"
  by (simp add: null_bind_def)

lemma discreet_env [simp]: "discreet pub (env_if_set h k)"
  by (simp add: env_if_set_def)

lemma discreet_auth [simp]: "discreet pub (auth_masks h specs home)"
  by (auto simp: auth_masks_def intro!: discreet_concat)

lemma discreet_config [simp]: "discreet pub (config_mask h p)"
  by (simp add: config_mask_def split: option.splits)

lemma discreet_proxy_masks [simp]: "discreet pub (proxy_masks h k c)"
  by (simp add: proxy_masks_def)

lemma discreet_keys: "(\<And>n k. (n, k) \<in> set es \<Longrightarrow> f n \<in> set pub) \<Longrightarrow> discreet pub (map (\<lambda>(n, _). RoBind (f n) (f n)) es)"
  by (auto simp: discreet_def)

lemma public_places_ssh:
  "{path_join [path_join [home, ''.ssh''], ''config''], path_join [path_join [home, ''.ssh''], ''known_hosts''],
    bx_env h ''SSH_AUTH_SOCK'', certs_file, ''/etc/ssl/cert.pem'', ''/fakebash''} \<subseteq> set (public_places h home)"
  by (simp add: public_places_def Let_def)

lemma public_places_keys:
  assumes "bx_read_dir h (path_join [home, ''.ssh'']) = Some es" "(n, k) \<in> set es" "k \<noteq> KDir" "has_suffix n ''.pub''"
  shows "path_join [path_join [home, ''.ssh''], n] \<in> set (public_places h home)"
  unfolding public_places_def Let_def using assms by (auto intro: image_eqI [where x = "(n, k)"])

lemma discreet_ssh: "discreet (public_places h home) (ssh_ops h home)"
proof -
  have keys: "discreet (public_places h home) (case bx_read_dir h (path_join [home, ''.ssh'']) of None \<Rightarrow> []
      | Some es \<Rightarrow> map (\<lambda>(n, _). RoBind (path_join [path_join [home, ''.ssh''], n]) (path_join [path_join [home, ''.ssh''], n]))
         (filter (\<lambda>(n, k). k \<noteq> KDir \<and> has_suffix n ''.pub'') es))"
  proof (cases "bx_read_dir h (path_join [home, ''.ssh''])")
    case (Some es)
    then show ?thesis by (simp, intro discreet_keys) (auto intro: public_places_keys)
  qed simp
  then show ?thesis
    using public_places_ssh [of home h] by (simp add: ssh_ops_def Let_def bind_if_there_def)
qed

lemma discreet_secrets: "discreet (public_places h home) (command_secrets h specs home r)"
  using discreet_ssh [of h home] by (simp add: command_secrets_def split: option.splits)

lemma discreet_proxy: "proxy_places px \<Longrightarrow> discreet (public_places h home) px"
  unfolding proxy_places_def discreet_def
  using public_places_ssh [of home h] by (auto split: option.splits)

section \<open>Every secret place is hidden\<close>

definition hidden_at :: "mount list \<Rightarrow> string \<Rightarrow> bool" where
  "hidden_at ops d \<longleftrightarrow> (\<exists>m \<in> set ops. dest m = Some d)"

lemma hidden_at_simps [simp]:
  "\<not> hidden_at [] d" "hidden_at (xs @ ys) d \<longleftrightarrow> hidden_at xs d \<or> hidden_at ys d"
  "hidden_at (Tmpfs e # xs) d \<longleftrightarrow> e = d \<or> hidden_at xs d" "hidden_at (RoBind s e # xs) d \<longleftrightarrow> e = d \<or> hidden_at xs d"
  by (auto simp: hidden_at_def)

lemma hidden_at_concat: "x \<in> set xs \<Longrightarrow> hidden_at (f x) d \<Longrightarrow> hidden_at (concat (map f xs)) d"
  by (induction xs) auto

lemma hidden_auth:
  assumes "sp \<in> set specs"
    "d = cs_auth_dir sp home \<and> d \<noteq> '''' \<and> bx_stat h d \<noteq> None \<or> d \<in> set (cs_auth_files sp home) \<and> is_file h d"
  shows "hidden_at (auth_masks h specs home) d"
  unfolding auth_masks_def
proof (rule hidden_at_concat [OF assms(1)])
  have "hidden_at (concat (map (null_bind h) (cs_auth_files sp home))) d"
    if "d \<in> set (cs_auth_files sp home)" "is_file h d"
    by (rule hidden_at_concat [OF that(1)]) (simp add: null_bind_def that(2))
  with assms(2) show "hidden_at ((if cs_auth_dir sp home \<noteq> '''' \<and> bx_stat h (cs_auth_dir sp home) \<noteq> None
      then [Tmpfs (cs_auth_dir sp home)] else []) @ concat (map (null_bind h) (cs_auth_files sp home))) d"
    by auto
qed

lemma hidden_secret:
  assumes "d \<in> set (secret_places h specs home r)"
  shows "hidden_at (command_secrets h specs home r) d"
proof -
  from assms consider
    (auth) sp where "sp \<in> set specs"
      "d = cs_auth_dir sp home \<and> d \<noteq> '''' \<and> bx_stat h d \<noteq> None \<or> d \<in> set (cs_auth_files sp home) \<and> is_file h d"
    | (ssh) "d = path_join [home, ''.ssh'']" | (gcp) "d = gcp_key home" "is_file h d"
    | (cfg) "d \<in> set (config_file_places h (cr_config r))" | (dir) "d = bx_config h" "is_dir h d"
    | (px) px where "cr_proxy r = Some px" "d = px_ca_key px \<or> d = px_config px" "d \<noteq> ''''" "is_file h d"
    by (cases "cr_proxy r") (auto simp: secret_places_def simp del: filter.simps)
  then show ?thesis
  proof cases
    case auth
    from hidden_auth [OF this] show ?thesis by (simp add: command_secrets_def)
  next
    case cfg
    then have "hidden_at (config_mask h (cr_config r)) d"
      by (auto simp: config_file_places_def config_mask_def null_bind_def split: option.splits if_splits)
    then show ?thesis by (simp add: command_secrets_def)
  qed (auto simp: command_secrets_def ssh_ops_def Let_def null_bind_def proxy_masks_def split: option.splits)
qed

text \<open>
  C9. Secrets stay hidden from the commands of agents and workflows. At a path in a directory or
  file with credentials, those of the registered CLIs, the SSH keys, the cloud key, the server's
  configuration, the proxy's key and configuration, the operation that decides leaves an empty file
  system or \<open>/dev/null\<close>, whatever directories are bound, unless the path is a public place: the SSH
  configuration, known hosts and public keys, the agent's socket, the certificate bundle, the shell
  daemon's directory.
\<close>

theorem secrets_stay_hidden:
  assumes "command_sandbox h specs r = Inr ops" "bx_home h = Some home"
    and "d \<in> set (secret_places h specs home r)" "inside d p"
  shows "\<exists>g. governing ops p = Some g \<and> (hides g \<or> list_ex (\<lambda>q. inside q p) (public_places h home))"
proof -
  from command_sandbox_parts [OF assms(1)] assms(2) obtain base ro px where
    ops: "ops = (base @ command_dirs h home r) @ ro @
       (command_secrets h specs home r @ px @ fakebash_dir (cr_sock r) @ [Command [''--'', ''/bin/fakebashd'']])"
    and px: "proxy_places px" by (metis option.inject)
  obtain m where m: "m \<in> set (command_secrets h specs home r)" "dest m = Some d"
    using hidden_secret [OF assms(3)] by (auto simp: hidden_at_def)
  with assms(4) have "covers p m" by (simp add: covers_def)
  from governing_split [OF m(1) this, of "base @ command_dirs h home r @ ro"
      "px @ fakebash_dir (cr_sock r) @ [Command [''--'', ''/bin/fakebashd'']]"] obtain g where
    g: "governing ops p = Some g" "covers p g"
      "g \<in> set (command_secrets h specs home r @ px @ fakebash_dir (cr_sock r) @ [Command [''--'', ''/bin/fakebashd'']])"
    by (auto simp: ops)
  have "discreet (public_places h home)
      (command_secrets h specs home r @ px @ fakebash_dir (cr_sock r) @ [Command [''--'', ''/bin/fakebashd'']])"
    using discreet_secrets discreet_proxy [OF px] public_places_ssh [of home h] by (simp add: fakebash_dir_def)
  with g(2,3) have "hides g \<or> list_ex (\<lambda>q. inside q p) (public_places h home)"
    unfolding discreet_def covers_def list_ex_iff by (auto split: option.splits)
  with g(1) show ?thesis by blast
qed

end
