(* ===== verification/BoxExamples.thy ===== *)
theory BoxExamples
  imports BoxMaskProps BoxSecrets
begin

text \<open>A host on which the properties of the sandboxes are evaluated, and behaviours of theirs that go wrong.\<close>

section \<open>A host\<close>

text \<open>\<open>/l\<close> is a link to \<open>/w\<close>, which holds the directories \<open>run\<close>, \<open>other\<close>, \<open>ro\<close> and a link \<open>self\<close> to \<open>run\<close>.\<close>

definition box_dirs :: "string list" where
  "box_dirs = [''/'', ''/tmp'', ''/w'', ''/w/run'', ''/w/other'', ''/w/ro'', ''/l/run'', ''/l/other'', ''/l/ro'', ''/home'', ''/home/u'',
     ''/home/u/.ssh'', ''/home/u/.claude'']"

definition box_links :: "(string \<times> string) list" where
  "box_links = [(''/l'', ''/w''), (''/w/self'', ''/w/run''), (''/l/self'', ''/w/run'')]"

definition box_reals :: "(string \<times> string) list" where
  "box_reals = box_links @ [(''/l/run'', ''/w/run''), (''/l/other'', ''/w/other''), (''/l/ro'', ''/w/ro'')]"

definition box_w :: "(string \<times> file_kind) list" where
  "box_w = [(''other'', KDir), (''ro'', KDir), (''run'', KDir), (''self'', KLink)]"

definition box_ex :: box_host where
  "box_ex = \<lparr>bx_home = Some ''/home/u'', bx_data = ''/data'', bx_config = ''/asgard/config'', bx_env = (\<lambda>_. ''''),
     bx_eval = (\<lambda>p. case map_of box_reals p of Some e \<Rightarrow> Some e | None \<Rightarrow> if p \<in> set box_dirs then Some p else None),
     bx_stat = (\<lambda>p. if p \<in> set box_dirs \<or> p \<in> fst ` set box_links then Some KDir else None),
     bx_lstat = (\<lambda>p. if p \<in> fst ` set box_links then Some KLink else if p \<in> set box_dirs then Some KDir else None),
     bx_read_dir = map_of [(''/'', [(''home'', KDir), (''l'', KLink), (''tmp'', KDir), (''w'', KDir)]), (''/w'', box_w), (''/l'', box_w),
       (''/home/u'', [(''.claude'', KDir), (''.ssh'', KDir)])],
     bx_missing = (\<lambda>_. True), bx_read_file = (\<lambda>_. None), bx_glob = (\<lambda>_. Some []), bx_abs = Some, bx_mkdir = (\<lambda>_. True),
     bx_merge = (\<lambda>_. True), bx_re = (\<lambda>_. None)\<rparr>"

definition mask_all :: mask_rule where
  "mask_all = \<lparr>mr_base = '''', mr_mode = MaskOthers, mr_keep = [], mr_mask = []\<rparr>"

text \<open>An agent that works in the directory \<open>run_dirs\<close> and may write to \<open>/w\<close>, where everything else is masked.\<close>

definition box_agent :: "string list \<Rightarrow> bool \<Rightarrow> agent_cfg" where
  "box_agent run_dirs ro = \<lparr>ag_readonly = ro, ag_run_dirs = run_dirs,
     ag_mounts = \<lparr>mc_readonly = [''/w/ro''], mc_readwrite = [], mc_entries = [(''/w'', Some mask_all)], mc_rules = []\<rparr>\<rparr>"

definition box_request :: "string list \<Rightarrow> bool \<Rightarrow> string \<Rightarrow> command_request" where
  "box_request run_dirs ro run = \<lparr>cr_cfg = Some (box_agent run_dirs ro), cr_run_dir = run, cr_cwd = '''', cr_sock = ''/sock'', cr_chat = ''c'',
     cr_config = '''', cr_cross = True, cr_readonly = [], cr_proxy = None\<rparr>"

definition ops_of :: "box_error + mount list \<Rightarrow> mount list" where
  "ops_of x = (case x of Inl _ \<Rightarrow> [] | Inr ops \<Rightarrow> ops)"

definition box_ops :: "string list \<Rightarrow> bool \<Rightarrow> string \<Rightarrow> mount list" where
  "box_ops run_dirs ro run = ops_of (command_sandbox box_ex [claude_spec] (box_request run_dirs ro run))"

lemma ops_of_ok: "(case x of Inl _ \<Rightarrow> False | Inr _ \<Rightarrow> True) \<Longrightarrow> x = Inr (ops_of x)"
  by (simp add: ops_of_def split: sum.splits)

lemma box_plain: "plain_listings box_ex"
proof -
  have "list_all (\<lambda>(d, es). list_all (\<lambda>(n, k). plain_comp n) es)
      [(''/'', [(''home'', KDir), (''l'', KLink), (''tmp'', KDir), (''w'', KDir)]), (''/w'', box_w), (''/l'', box_w),
       (''/home/u'', [(''.claude'', KDir), (''.ssh'', KDir)])]" by code_simp
  then show ?thesis
    unfolding plain_listings_def box_ex_def box_host.simps by (fastforce simp: list_all_iff dest!: map_of_SomeD)
qed

lemma box_ok: "command_sandbox box_ex [claude_spec] (box_request [''/w/run''] ro ''/w/run'') = Inr (box_ops [''/w/run''] ro ''/w/run'')"
proof -
  have "list_all (\<lambda>ro. case command_sandbox box_ex [claude_spec] (box_request [''/w/run''] ro ''/w/run'') of Inl _ \<Rightarrow> False | Inr _ \<Rightarrow> True)
      [True, False]" by code_simp
  then have "case command_sandbox box_ex [claude_spec] (box_request [''/w/run''] ro ''/w/run'') of Inl _ \<Rightarrow> False | Inr _ \<Rightarrow> True"
    by (cases ro) simp_all
  then show ?thesis unfolding box_ops_def by (rule ops_of_ok)
qed

section \<open>Witnesses\<close>


theorem readonly_agent_writes_nowhere_witness:
  "writable_places (box_ops [''/w/run''] True ''/w/run'') \<subseteq> {''/tmp'', ''/session'', bx_env box_ex ''SSH_AUTH_SOCK'', ''/fakebash''}"
  by (rule readonly_agent_writes_nowhere [OF box_ok, where cfg = "box_agent [''/w/run''] True"])
    (simp_all add: box_request_def box_agent_def)

theorem secrets_stay_hidden_witness:
  "\<exists>g. governing (box_ops [''/w/run''] False ''/w/run'') ''/home/u/.ssh/id_rsa'' = Some g \<and>
    (hides g \<or> list_ex (\<lambda>q. inside q ''/home/u/.ssh/id_rsa'') (public_places box_ex ''/home/u''))"
proof (rule secrets_stay_hidden [OF box_ok])
  show "bx_home box_ex = Some ''/home/u''" by code_simp
  show "''/home/u/.ssh'' \<in> set (secret_places box_ex [claude_spec] ''/home/u'' (box_request [''/w/run''] False ''/w/run''))" by code_simp
  show "inside ''/home/u/.ssh'' ''/home/u/.ssh/id_rsa''" by code_simp
qed

theorem mask_spares_run_dir_witness:
  "let m = RoBind ''/w/other'' ''/w/other'' in m \<in> set (mask_ops box_ex ''/w'' (Some mask_all) ''/w/run'') \<and>
    \<not> covers ''/w/run'' m \<and> \<not> covers ''/w/run/x'' m"
proof -
  have a: "path_is_abs ''/w''" "path_is_abs ''/w/run''" "inside ''/w'' ''/w/run''" by code_simp+
  have m: "RoBind ''/w/other'' ''/w/other'' \<in> set (mask_ops box_ex ''/w'' (Some mask_all) ''/w/run'')" by code_simp
  have x: "inside ''/w/run'' ''/w/run/x''" "path_clean ''/w/run'' \<noteq> path_clean ''/w''" by code_simp+
  from mask_spares_run_dir [OF box_plain a(1,2) disjI1 [OF a(3)] m, of "''/w/run/x''"] m a(3) x
  show ?thesis by (simp add: Let_def)
qed

theorem mask_others_exact_witness:
  "RoBind (path_join [path_clean ''/w'', ''other'']) (path_join [path_clean ''/w'', ''other''])
     \<in> set (mask_ops box_ex ''/w'' (Some mask_all) ''/w/run'') \<longleftrightarrow>
   \<not> inside (path_join [path_clean ''/w'', ''other'']) ''/w/run''"
proof (rule mask_others_exact [OF box_plain])
  show "inside ''/w'' ''/w/run'' \<or> \<not> beneath_any box_ex [path_clean ''/w''] (path_clean ''/w/run'')" by (rule disjI1) code_simp
  show "bx_read_dir box_ex (path_clean ''/w'') = Some box_w" by code_simp
  show "(''other'', KDir) \<in> set box_w" by code_simp
  show "bx_lstat box_ex (path_join [path_clean ''/w'', ''other'']) = Some KDir" by code_simp
qed (code_simp+)

section \<open>Run directories behind links\<close>


text \<open>
  A link beside the run directory that points to it is bound to its target, and bubblewrap follows links
  at its destinations: the run directory becomes read-only.
\<close>

lemma link_beside_run_dir: "RoBind ''/w/run'' ''/w/self'' \<in> set (box_ops [''/w/run''] False ''/w/run'')"
  by code_simp

end
