(* ===== verification/QuotaReports.thy ===== *)
theory QuotaReports
  imports Accounts
begin

text \<open>
  What the CLIs report as the quota of an account: \<open>agentwrapper/agy/usage.go\<close> groups the buckets of the
  service by the base name of a model, \<open>agentwrapper/claude/usage.go\<close> reports one pool named \<open>claude\<close>. The
  parsed answers of the CLIs (buckets, tiers) are given; a time that does not parse is 0.
\<close>

section \<open>agy\<close>

record quota_entry =
  qe_fraction :: rat
  qe_reset :: int

definition first_of :: "string list \<Rightarrow> (string \<times> quota_entry) list \<Rightarrow> quota_entry option" where
  "first_of ks quota = find_map (map_of quota) ks"

definition argon_bucket :: "string list \<Rightarrow> (string \<Rightarrow> bool) \<Rightarrow> (string \<times> quota_entry) list \<Rightarrow> quota_entry option" where
  "argon_bucket ks suits quota =
     (case first_of ks quota of Some e \<Rightarrow> Some e
      | None \<Rightarrow> (case find (\<lambda>k. str_contains k ''argon'' \<and> suits k) (sort (map fst quota)) of
          Some k \<Rightarrow> map_of quota k | None \<Rightarrow> None))"

definition model_buckets :: "string \<Rightarrow> (string \<times> quota_entry) list \<Rightarrow> quota_entry option \<times> quota_entry option" where
  "model_buckets model quota =
     (let m = to_lower (trim_space model) in
      if str_contains m ''argon'' then
        (argon_bucket [''gemini-argon-wtu-5h'', ''gemini 4 argon:5h'']
           (\<lambda>k. str_contains k ''5h'' \<or> str_contains k ''session'') quota,
         argon_bucket [''gemini-argon-wtu-weekly'', ''gemini 4 argon:weekly''] (\<lambda>k. str_contains k ''weekly'') quota)
      else if cut_prefix ''gemini'' m \<noteq> None then
        (first_of [''gemini-5h'', ''gemini models:5h''] quota, first_of [''gemini-weekly'', ''gemini models:weekly''] quota)
      else
        (first_of [''3p-5h'', ''claude and gpt models:5h''] quota,
         first_of [''3p-weekly'', ''claude and gpt models:weekly''] quota))"

definition limit_of :: "string \<Rightarrow> quota_entry option \<Rightarrow> quota_limit list" where
  "limit_of name e = (case e of None \<Rightarrow> []
     | Some x \<Rightarrow> [\<lparr>ql_name = name, ql_remaining = qe_fraction x, ql_refresh = qe_reset x\<rparr>])"

definition headline :: "quota_entry option \<Rightarrow> quota_entry option \<Rightarrow> rat \<times> int" where
  "headline h5 week =
     (case (h5, week) of
        (Some a, Some b) \<Rightarrow>
          if qe_fraction a < qe_fraction b then (qe_fraction a, qe_reset a)
          else if qe_fraction b < qe_fraction a then (qe_fraction b, qe_reset b)
          else (qe_fraction a, if qe_fraction a < 1 then (if qe_reset a > 0 then qe_reset a else qe_reset b) else 0)
      | (Some a, None) \<Rightarrow> (qe_fraction a, if qe_fraction a < 1 then qe_reset a else 0)
      | (None, Some b) \<Rightarrow> (qe_fraction b, if qe_fraction b < 1 then qe_reset b else 0)
      | (None, None) \<Rightarrow> (1, 0))"

definition plain_usage :: "string \<Rightarrow> rat \<Rightarrow> int \<Rightarrow> quota_limit list \<Rightarrow> model_usage" where
  "plain_usage model rem refresh limits = \<lparr>mu_model = model, mu_remaining = rem, mu_refresh = refresh, mu_limits = limits,
     mu_status = '''', mu_usable = None, mu_reason = NoReason\<rparr>"

definition agy_usage :: "bool \<Rightarrow> string list \<Rightarrow> (string \<times> quota_entry) list \<Rightarrow> model_usage list" where
  "agy_usage detailed models quota =
     map (\<lambda>base. let (h5, week) = model_buckets base quota; (rem, refresh) = headline h5 week
         in plain_usage base rem refresh (if detailed then limit_of ''5h'' h5 @ limit_of ''weekly'' week else []))
       (foldl (\<lambda>acc m. let b = (if fst (split_agy_variant m) = '''' then m else fst (split_agy_variant m))
         in if b \<in> set acc then acc else acc @ [b]) [] models)"

text \<open>The buckets of the answer, by identifier and by group and window; a later one replaces an earlier one.\<close>

definition agy_buckets :: "(string \<times> (string \<times> string \<times> quota_entry) list) list \<Rightarrow> (string \<times> quota_entry) list" where
  "agy_buckets groups =
     rev (concat (map (\<lambda>(g, bs). concat (map (\<lambda>(i, w, e).
       (if i \<noteq> '''' then [(i, e)] else []) @
       (if g \<noteq> '''' \<and> w \<noteq> '''' then [(to_lower (trim_space g) @ '':'' @ to_lower (trim_space w), e)] else [])) bs)) groups))"

section \<open>claude\<close>

record usage_tier =
  ut_name :: string
  ut_remaining :: rat
  ut_refresh :: int

definition claude_usage_of ::
  "bool \<Rightarrow> string \<Rightarrow> usage_tier list \<Rightarrow> (string \<times> usage_tier) list \<Rightarrow> model_usage option" where
  "claude_usage_of detailed model general scoped =
     (case general @ map snd (filter (\<lambda>(l, _). model = ''claude'' \<or> str_contains l (to_lower model)) scoped) of
        [] \<Rightarrow> None
      | t # ts \<Rightarrow> let main = foldl (\<lambda>m x. if ut_remaining x < ut_remaining m then x else m) t ts
          in Some (plain_usage model (ut_remaining main) (ut_refresh main)
            (if detailed then map (\<lambda>x. \<lparr>ql_name = ut_name x, ql_remaining = ut_remaining x, ql_refresh = ut_refresh x\<rparr>) (t # ts)
             else [])))"

definition claude_models :: "string list" where "claude_models = [''fable'', ''opus'', ''sonnet'', ''haiku'']"

text \<open>\<open>Usage\<close>: a single entry for the account.\<close>

definition claude_usage :: "bool \<Rightarrow> usage_tier list \<Rightarrow> (string \<times> usage_tier) list \<Rightarrow> model_usage list" where
  "claude_usage detailed general scoped =
     (case claude_usage_of detailed ''claude'' general scoped of None \<Rightarrow> [] | Some u \<Rightarrow> [u])"

end
