(* ===== verification/QuotaProps.thy ===== *)
theory QuotaProps
  imports QuotaReports BoxMaskProps
begin

text \<open>
  The choice of an account is the first one with quota, else the one refreshed first; accounts have separate
  directories; and the choice does not see the quota of models under the names the CLIs report them by.
\<close>

section \<open>Which account is chosen\<close>

definition available :: "(string \<Rightarrow> model_usage list option) \<Rightarrow> string \<Rightarrow> string \<Rightarrow> bool" where
  "available quota model a \<longleftrightarrow> (case quota a of None \<Rightarrow> False | Some us \<Rightarrow> fst (model_availability us model))"

definition refreshed_at :: "(string \<Rightarrow> model_usage list option) \<Rightarrow> string \<Rightarrow> string \<Rightarrow> int" where
  "refreshed_at quota model a = (case quota a of None \<Rightarrow> max_int64
     | Some us \<Rightarrow> (let t = snd (model_availability us model) in if t = 0 then max_int64 else t))"

lemma pick_Cons:
  "pick_account quota model (a # as) best e =
     (if quota a = None then pick_account quota model as best True
      else if available quota model a then Inl a
      else pick_account quota model as (if fst best = '''' \<or> refreshed_at quota model a < snd best
        then (a, refreshed_at quota model a) else best) e)"
proof (cases "quota a")
  case (Some us)
  obtain v t where "model_availability us model = (v, t)" by fastforce
  with Some show ?thesis by (cases v) (simp_all add: available_def refreshed_at_def Let_def)
qed (simp add: available_def)

declare pick_account.simps(2) [simp del]

lemma available_answers: "available quota model a \<Longrightarrow> quota a \<noteq> None"
  by (auto simp: available_def split: option.splits)

lemma pick_account_Inl: "pick_account quota model as best e = Inl a \<longleftrightarrow> find (available quota model) as = Some a"
  by (induction as arbitrary: best e) (auto simp: pick_Cons dest: available_answers)

lemma pick_account_Inr:
  "pick_account quota model as best e = Inr (b, e') \<Longrightarrow>
   (\<forall>a \<in> set as. \<not> available quota model a) \<and> (e' \<longleftrightarrow> e \<or> (\<exists>a \<in> set as. quota a = None))"
  by (induction as arbitrary: best e) (auto simp: pick_Cons dest: available_answers split: if_splits)

lemma pick_account_earliest:
  assumes "pick_account quota model as best e = Inr (b, False)" "fst best = '''' \<and> snd best = max_int64 \<or>
      fst best \<noteq> '''' \<and> snd best = refreshed_at quota model (fst best)" "\<forall>a \<in> set as. a \<noteq> ''''" "as \<noteq> [] \<or> fst best \<noteq> ''''"
  shows "b \<in> set as \<union> {fst best} \<and> b \<noteq> '''' \<and> (\<forall>a \<in> set as \<union> ({fst best} - {''''}). refreshed_at quota model b \<le> refreshed_at quota model a)"
  using assms
proof (induction as arbitrary: best e)
  case Nil
  then show ?case by auto
next
  case (Cons a as)
  define best' where "best' = (if fst best = '''' \<or> refreshed_at quota model a < snd best
    then (a, refreshed_at quota model a) else best)"
  have e: "quota a \<noteq> None" using pick_account_Inr [OF Cons.prems(1)] by auto
  have na: "\<not> available quota model a" using pick_account_Inr [OF Cons.prems(1)] by auto
  have step: "pick_account quota model as best' e = Inr (b, False)"
    using Cons.prems(1) e na by (simp only: pick_Cons best'_def if_False)
  have b': "fst best' \<noteq> '''' \<and> snd best' = refreshed_at quota model (fst best')"
    using Cons.prems(2,3) by (auto simp: best'_def)
  from Cons.IH [OF step] b' Cons.prems(3)
  have ih: "b \<in> set as \<union> {fst best'} \<and> b \<noteq> '''' \<and>
      (\<forall>x \<in> set as \<union> {fst best'}. refreshed_at quota model b \<le> refreshed_at quota model x)" by auto
  have le: "refreshed_at quota model (fst best') \<le> refreshed_at quota model a"
    "fst best \<noteq> '''' \<Longrightarrow> refreshed_at quota model (fst best') \<le> refreshed_at quota model (fst best)"
    using Cons.prems(2) by (auto simp: best'_def)
  have mem: "fst best' \<in> {a, fst best}" "fst best = '''' \<Longrightarrow> fst best' = a" by (simp_all add: best'_def)
  show ?case using ih le mem Cons.prems(3) by (auto intro: order_trans)
qed

lemma list_accounts_valid: "list_accounts h cli = Inr as \<Longrightarrow> a \<in> set as \<Longrightarrow> valid_alias a"
  by (auto simp: list_accounts_def Let_def split: option.splits if_splits)

lemma valid_alias_nonempty: "valid_alias a \<Longrightarrow> a \<noteq> ''''"
  by (auto simp: valid_alias_def)

lemma choose_account_pick:
  assumes "list_accounts h cli = Inr as" "length as \<ge> 2" "bx_env h (account_env cli) = ''''" "cli \<in> {''agy'', ''claude''}"
  shows "choose_account h quota cli model =
    (case pick_account (quota cli) model as ('''', max_int64) False of Inl a \<Rightarrow> Inr (Some a)
     | Inr (best, errored) \<Rightarrow> Inr (Some (if errored then hd as else best)))"
proof -
  have cli: "validate_cli cli = None" using assms(4) by (auto simp: validate_cli_def)
  obtain x xs where as: "as = x # xs" using assms(2) by (cases as) auto
  show ?thesis
    using assms(1-3) cli unfolding as
    by (simp add: choose_account_def select_account_def Let_def split del: if_split) (auto split: sum.splits)
qed

text \<open>
  C13. With several accounts and none requested the account of a run is the first one, in the order of
  the aliases, whose quota answers and is not used up for the model. If there is none, it is the
  first account when the quota of some account is not known, and otherwise one whose quota is
  refreshed before, or with, that of every other.
\<close>

theorem chosen_account:
  assumes "list_accounts h cli = Inr as" "length as \<ge> 2" "bx_env h (account_env cli) = ''''" "cli \<in> {''agy'', ''claude''}"
  shows "\<exists>a \<in> set as. choose_account h quota cli model = Inr (Some a) \<and>
    (case find (available (quota cli) model) as of
       Some b \<Rightarrow> a = b
     | None \<Rightarrow> if \<exists>b \<in> set as. quota cli b = None then a = hd as
         else \<forall>b \<in> set as. refreshed_at (quota cli) model a \<le> refreshed_at (quota cli) model b)"
proof -
  have ne: "\<forall>a \<in> set as. a \<noteq> ''''" using list_accounts_valid [OF assms(1)] valid_alias_nonempty by blast
  note ch = choose_account_pick [OF assms, of quota model]
  have as: "as \<noteq> []" using assms(2) by auto
  show ?thesis
  proof (cases "pick_account (quota cli) model as ('''', max_int64) False")
    case (Inl a)
    then have "find (available (quota cli) model) as = Some a" by (simp add: pick_account_Inl)
    moreover from this have "a \<in> set as" by (auto simp: find_Some_iff)
    ultimately show ?thesis using ch Inl by simp
  next
    case (Inr p)
    obtain b e where p: "p = (b, e)" by (cases p)
    note best = pick_account_Inr [OF Inr [unfolded p]]
    from best have none: "find (available (quota cli) model) as = None" by (simp add: find_None_iff)
    show ?thesis
    proof (cases e)
      case True
      with best have "\<exists>a \<in> set as. quota cli a = None" by auto
      with True ch Inr p none as show ?thesis by auto
    next
      case False
      with best have "\<not> (\<exists>a \<in> set as. quota cli a = None)" by auto
      with pick_account_earliest [of "quota cli" model as "('''', max_int64)" False b] Inr p False ne as ch none
      show ?thesis by auto
    qed
  qed
qed

section \<open>Names under which quota is reported\<close>

lemma claude_usage_model: "u \<in> set (claude_usage d g s) \<Longrightarrow> mu_model u = ''claude''"
  by (auto simp: claude_usage_def claude_usage_of_def plain_usage_def Let_def split: option.splits list.splits)

lemma claude_models_unmatched: "m \<in> set claude_models \<Longrightarrow> \<not> model_matches m ''claude''"
proof -
  have "list_all (\<lambda>m. \<not> model_matches m ''claude'') claude_models" by code_simp
  then show "m \<in> set claude_models \<Longrightarrow> \<not> model_matches m ''claude''" by (simp add: list_all_iff)
qed

text \<open>
  C26. The quota of claude accounts is never looked at. Each account reports its one pool as the model
  \<open>claude\<close>, which the choice matches with none of the models claude can be run with, and a model
  without an entry counts as available: whatever the accounts report, the first one is chosen.
\<close>

theorem claude_quota_ignored:
  assumes "list_accounts h ''claude'' = Inr as" "length as \<ge> 2" "bx_env h (account_env ''claude'') = ''''"
    "\<forall>a \<in> set as. \<exists>d g s. quota ''claude'' a = Some (claude_usage d g s)" "model \<in> set claude_models"
  shows "choose_account h quota ''claude'' model = Inr (Some (hd as))"
proof -
  have av: "available (quota ''claude'') model a" if "a \<in> set as" for a
  proof -
    from assms(4) that obtain d g s where "quota ''claude'' a = Some (claude_usage d g s)" by blast
    moreover have "filter (\<lambda>u. model_matches model (mu_model u)) (claude_usage d g s) = []"
      using claude_usage_model claude_models_unmatched [OF assms(5)] by (auto simp: filter_empty_conv)
    ultimately show ?thesis by (simp add: available_def model_availability_def)
  qed
  obtain x xs where as: "as = x # xs" using assms(2) by (cases as) auto
  with av have "find (available (quota ''claude'') model) as = Some x" by simp
  then have "pick_account (quota ''claude'') model as ('''', max_int64) False = Inl x" by (simp add: pick_account_Inl)
  with as show ?thesis by (simp add: choose_account_pick [OF assms(1-3)])
qed

section \<open>Directories of accounts\<close>

lemma valid_alias_plain: "valid_alias a \<Longrightarrow> plain_comp a"
proof -
  assume v: "valid_alias a"
  then obtain c cs where a: "a = c # cs" "alias_start c" by (auto simp: valid_alias_def split: list.splits)
  have s: "\<not> alias_start slash" "\<not> alias_start (CHR ''.'')" by (simp_all add: alias_start_def less_eq_char_def)
  have "slash \<notin> set a"
    using v a s by (auto simp: valid_alias_def list_all_iff)
  moreover have "a \<noteq> ''.'' \<and> a \<noteq> ''..''" using a s by auto
  ultimately show "plain_comp a" using a by (simp add: plain_comp_def)
qed

lemma validate_cli_plain: "validate_cli cli = None \<Longrightarrow> plain_comp cli"
proof -
  have "plain_comp ''agy''" "plain_comp ''claude''" by code_simp+
  then show "validate_cli cli = None \<Longrightarrow> plain_comp cli" by (auto simp: validate_cli_def split: if_splits)
qed

lemma path_join_two:
  assumes "path_is_abs base" "plain_comp a" "plain_comp b"
  shows "path_comps (path_join [base, a, b]) = path_comps base @ [a, b]" "path_is_abs (path_join [base, a, b])"
proof -
  have ne: "base \<noteq> []" "a \<noteq> []" "b \<noteq> []" using assms by (auto simp: path_is_abs_def plain_comp_def)
  have "path_join [base, a, b] = path_clean ((base @ slash # a) @ slash # b)"
    using ne by (simp add: path_join_def)
  then show "path_comps (path_join [base, a, b]) = path_comps base @ [a, b]" "path_is_abs (path_join [base, a, b])"
    using assms ne path_comps_snoc [of "base @ slash # a" b] path_comps_snoc [of base a]
    by (simp_all add: path_is_abs_append)
qed

lemma account_dir_cases:
  assumes "path_is_abs (accounts_root h)"
  shows "account_dir h cli a =
    (if validate_cli cli \<noteq> None then Inl (UnsupportedCli cli) else if \<not> valid_alias a then Inl (InvalidAlias a)
     else Inr (path_join [accounts_root h, cli, a]))"
proof (cases "validate_cli cli = None \<and> valid_alias a")
  case True
  then have pl: "plain_comp cli" "plain_comp a" using valid_alias_plain validate_cli_plain by auto
  note j = path_join_two [OF assms pl]
  have r: "path_rel (accounts_root h) (path_join [accounts_root h, cli, a]) = Some (cli @ slash # a)"
    using path_rel_inside [OF assms j(2), of "[cli, a]"] j by simp
  have "cut_prefix ''..'' cli = None"
    using True by (auto simp: validate_cli_def cut_prefix_def split: if_splits)
  then have "cut_prefix ''..'' (cli @ slash # a) = None \<and> cli @ slash # a \<noteq> ''.''"
    using True by (auto simp: validate_cli_def cut_prefix_def split: if_splits)
  with True r show ?thesis by (simp add: account_dir_def Let_def)
next
  case False
  then show ?thesis
    by (auto simp: account_dir_def validate_cli_def)
qed

text \<open>
  Accounts have separate directories. Beneath an absolute root the directory of an account of a
  supported CLI with a valid alias is its own, the traversal error never occurs, and no account's
  directory contains that of another one.
\<close>

theorem account_dirs_separate:
  assumes "path_is_abs (accounts_root h)"
  shows "(case account_dir h cli a of
      Inl e \<Rightarrow> e = UnsupportedCli cli \<or> e = InvalidAlias a
    | Inr d \<Rightarrow> path_comps d = path_comps (accounts_root h) @ [cli, a] \<and>
        (\<forall>cli' a' d'. account_dir h cli' a' = Inr d' \<longrightarrow> inside d d' \<longrightarrow> cli' = cli \<and> a' = a))"
proof (cases "validate_cli cli = None \<and> valid_alias a")
  case True
  have comps: "account_dir h c b = Inr d \<Longrightarrow> path_comps d = path_comps (accounts_root h) @ [c, b]" for c b d
    using path_join_two [OF assms] valid_alias_plain validate_cli_plain
    by (auto simp: account_dir_cases [OF assms] split: if_splits)
  from True obtain d where d: "account_dir h cli a = Inr d" by (auto simp: account_dir_cases [OF assms])
  with comps show ?thesis by (auto simp: inside_def dest!: comps)
qed (auto simp: account_dir_cases [OF assms])

section \<open>The best account for a target\<close>

definition for_model :: "(string \<Rightarrow> int option) \<Rightarrow> string \<Rightarrow> string \<Rightarrow> model_usage \<Rightarrow> bool" where
  "for_model cw cli model u \<longleftrightarrow> \<not> is_status_only u \<and> matches_model cw cli model (mu_model u)"

definition better :: "model_usage \<Rightarrow> model_usage \<Rightarrow> bool" where
  "better u v \<longleftrightarrow> accepted u \<and> \<not> accepted v \<or> accepted u = accepted v \<and> mu_remaining v < mu_remaining u"

definition best_of :: "(string \<Rightarrow> int option) \<Rightarrow> string \<Rightarrow> string \<Rightarrow> model_usage list \<Rightarrow> model_usage option \<Rightarrow> bool" where
  "best_of cw cli model us b \<longleftrightarrow>
     (case b of None \<Rightarrow> \<forall>u \<in> set us. \<not> for_model cw cli model u
      | Some v \<Rightarrow> v \<in> set us \<and> for_model cw cli model v \<and> (\<forall>u \<in> set us. for_model cw cli model u \<longrightarrow> \<not> better u v))"

lemma best_matching_usage_best: "best_of cw cli model us (best_matching_usage cw cli model us)"
proof (induction us rule: rev_induct)
  case Nil
  show ?case by (simp add: best_of_def best_matching_usage_def)
next
  case (snoc u us)
  show ?case
  proof (cases "best_matching_usage cw cli model us")
    case None
    with snoc show ?thesis
      by (auto simp: best_of_def best_matching_usage_def for_model_def better_def)
  next
    case (Some b)
    have tr: "\<not> better x b \<Longrightarrow> better u b \<Longrightarrow> \<not> better x u" for x by (auto simp: better_def)
    from Some have "best_matching_usage cw cli model (us @ [u]) =
        (if for_model cw cli model u \<and> better u b then Some u else Some b)"
      by (auto simp: best_matching_usage_def for_model_def better_def)
    with Some snoc tr show ?thesis by (auto simp: best_of_def better_def)
  qed
qed

definition serves :: "(string \<Rightarrow> int option) \<Rightarrow> string \<Rightarrow> string \<Rightarrow> model_usage list \<Rightarrow> bool" where
  "serves cw cli model us \<longleftrightarrow> (\<forall>u \<in> set us. \<not> for_model cw cli model u) \<or>
     (\<exists>u \<in> set us. for_model cw cli model u \<and> (case mu_usable u of Some b \<Rightarrow> b | None \<Rightarrow> mu_remaining u > 0))"

lemma select_target_usable: "select_target enabled check own cands model = Inr t \<Longrightarrow> enabled (fst t) \<and> explicit_usable (check t)"
  by (auto simp: select_target_def auto_target_def explicit_target_def explicit_usable_def auto_selectable_def min_auto_quota_def
      find_Some_iff Let_def split: option.splits if_splits)


end
