(* ===== verification/QuotaExamples.thy ===== *)
theory QuotaExamples
  imports QuotaProps
begin

text \<open>Two accounts \<open>a\<close> and \<open>b\<close> of each CLI, on which the properties of the choice are evaluated.\<close>

section \<open>Hosts and reports\<close>

definition acct_host :: box_host where
  "acct_host = \<lparr>bx_home = Some ''/home/u'', bx_data = ''/data'', bx_config = ''/asgard/config'', bx_env = (\<lambda>_. ''''),
     bx_eval = Some, bx_stat = (\<lambda>_. Some KDir), bx_lstat = (\<lambda>_. Some KDir),
     bx_read_dir = (\<lambda>_. Some [(''b'', KDir), (''a'', KDir), (''A'', KDir), (''c'', KFile)]),
     bx_missing = (\<lambda>_. True), bx_read_file = (\<lambda>_. None), bx_glob = (\<lambda>_. Some []), bx_abs = Some, bx_mkdir = (\<lambda>_. True),
     bx_merge = (\<lambda>_. True), bx_re = (\<lambda>_. None)\<rparr>"

definition tier :: "rat \<Rightarrow> usage_tier" where
  "tier r = \<lparr>ut_name = ''5h'', ut_remaining = r, ut_refresh = 100\<rparr>"

text \<open>The first account has nothing left, the second one everything.\<close>

definition claude_quota :: "string \<Rightarrow> string \<Rightarrow> model_usage list option" where
  "claude_quota cli a = Some (claude_usage True [tier (if a = ''a'' then 0 else 1)] [])"

definition flash_quota :: "string \<Rightarrow> string \<Rightarrow> model_usage list option" where
  "flash_quota cli a = Some (agy_usage True [''gemini-3.7-flash-low'', ''gemini-3.7-flash-high'']
     [(''gemini-5h'', \<lparr>qe_fraction = (if a = ''a'' then 0 else 1), qe_reset = 100\<rparr>)])"

lemma acct_accounts: "list_accounts acct_host ''claude'' = Inr [''a'', ''b'']" "list_accounts acct_host ''agy'' = Inr [''a'', ''b'']"
  by code_simp+

section \<open>Witnesses\<close>

theorem chosen_account_witness:
  "\<exists>a \<in> set [''a'', ''b'']. choose_account acct_host flash_quota ''agy'' ''google/Gemini-3.7-flash'' = Inr (Some a) \<and>
    (case find (available (flash_quota ''agy'') ''google/Gemini-3.7-flash'') [''a'', ''b''] of
       Some b \<Rightarrow> a = b
     | None \<Rightarrow> if \<exists>b \<in> set [''a'', ''b'']. flash_quota ''agy'' b = None then a = hd [''a'', ''b'']
         else \<forall>b \<in> set [''a'', ''b'']. refreshed_at (flash_quota ''agy'') ''google/Gemini-3.7-flash'' a
           \<le> refreshed_at (flash_quota ''agy'') ''google/Gemini-3.7-flash'' b)"
  by (rule chosen_account [OF acct_accounts(2)]) (simp_all add: acct_host_def)

text \<open>
  The run of \<open>opus\<close> is let through because of the second account, and is given the first one, whose
  quota is used up.
\<close>

theorem claude_quota_ignored_witness:
  "choose_account acct_host claude_quota ''claude'' ''opus'' = Inr (Some (hd [''a'', ''b''])) \<and>
   (case claude_quota ''claude'' ''a'' of Some us \<Rightarrow> list_all usage_exhausted us \<and> us \<noteq> [] | None \<Rightarrow> False) \<and>
   select_target (\<lambda>_. True) (\<lambda>t. check_target (\<lambda>_. None) [''claude''] (fst t) (snd t)
       (all_account_usages acct_host claude_quota (\<lambda>_. True) (fst t)) False None)
     [(''claude'', ''opus'')] [] None = Inr (''claude'', ''opus'')"
proof (intro conjI)
  show "choose_account acct_host claude_quota ''claude'' ''opus'' = Inr (Some (hd [''a'', ''b'']))"
    by (rule claude_quota_ignored [OF acct_accounts(1)]) (auto simp: acct_host_def claude_quota_def claude_models_def)
  show "case claude_quota ''claude'' ''a'' of Some us \<Rightarrow> list_all usage_exhausted us \<and> us \<noteq> [] | None \<Rightarrow> False" by code_simp
  show "select_target (\<lambda>_. True) (\<lambda>t. check_target (\<lambda>_. None) [''claude''] (fst t) (snd t)
       (all_account_usages acct_host claude_quota (\<lambda>_. True) (fst t)) False None)
     [(''claude'', ''opus'')] [] None = Inr (''claude'', ''opus'')" by code_simp
qed

text \<open>The same happens for agy with an effort in the name of the model; without one the second account is chosen.\<close>

lemma effort_quota_ignored:
  "choose_account acct_host flash_quota ''agy'' ''gemini-3.7-flash-low'' = Inr (Some ''a'')"
  "choose_account acct_host flash_quota ''agy'' ''gemini-3.7-flash'' = Inr (Some ''b'')"
  "matches_model (\<lambda>_. None) ''agy'' ''gemini-3.7-flash-low'' ''gemini-3.7-flash''"
  by code_simp+

theorem account_dirs_separate_witness:
  "path_is_abs (accounts_root acct_host) \<and>
   (case account_dir acct_host ''agy'' ''work_1'' of
      Inl e \<Rightarrow> e = UnsupportedCli ''agy'' \<or> e = InvalidAlias ''work_1''
    | Inr d \<Rightarrow> path_comps d = path_comps (accounts_root acct_host) @ [''agy'', ''work_1''] \<and>
        (\<forall>cli' a' d'. account_dir acct_host cli' a' = Inr d' \<longrightarrow> inside d d' \<longrightarrow> cli' = ''agy'' \<and> a' = ''work_1''))"
proof -
  have a: "path_is_abs (accounts_root acct_host)" by code_simp
  from a account_dirs_separate [OF a, of "''agy''" "''work_1''"] show ?thesis by blast
qed


text \<open>A glob of a profile does not cross a slash, an exact name beats every glob, the longest glob beats shorter ones.\<close>

lemma thresholds:
  "let p = \<lparr>qp_thresholds = [(''weekly*'', 1/5), (''weekly:son*'', 1/4), (''Weekly'', 1/3), (''*'', 1/10)], qp_unlimited = False\<rparr>
   in threshold p ''weekly'' = 1/3 \<and> threshold p ''weekly:opus'' = 1/5 \<and> threshold p ''WEEKLY:SONNET ONLY'' = 1/4 \<and>
      threshold p ''5h'' = 1/10"
  by code_simp

end
