(* ===== verification/QuotaCache.thy ===== *)
theory QuotaCache
  imports Accounts
begin

text \<open>
  The cache of account quotas (\<open>cachedAccountQuota\<close> in \<open>backend/lib/bwrap/account_select.go\<close>) as a transition
  system: every call is a thread, every step one critical section or the end of a wait. \<open>ca_fetched\<close> only
  records the fetches that ended and when. An answer is a list of usages, or None for an error.
\<close>

section \<open>State\<close>

datatype account_key = QuotaKey (qk_cli: string) (qk_alias: string)

type_synonym answer = "model_usage list option"

text \<open>
  Where a call is, with the time at which it looked into the cache: fetching, before it closes the channel of
  its fetch, waiting for the fetch of another, answered.
\<close>

datatype place = Outside | Fetching account_key nat int | Closing account_key nat answer int
  | Waiting account_key nat int | Answered account_key answer int

record cache =
  ca_now :: int
  ca_entries :: "account_key \<Rightarrow> (answer \<times> int) option"
  ca_inflight :: "account_key \<Rightarrow> nat option"
  ca_closed :: "nat \<Rightarrow> answer option"
  ca_next :: nat
  ca_threads :: "nat \<Rightarrow> place"
  ca_fetched :: "(account_key \<times> answer \<times> int) set"

definition ttl :: "answer \<Rightarrow> int" where
  "ttl r = (if r = None then 10 else 60)"

definition empty_cache :: "int \<Rightarrow> cache" where
  "empty_cache now = \<lparr>ca_now = now, ca_entries = (\<lambda>_. None), ca_inflight = (\<lambda>_. None), ca_closed = (\<lambda>_. None), ca_next = 0,
     ca_threads = (\<lambda>_. Outside), ca_fetched = {}\<rparr>"

section \<open>Steps\<close>

definition cached :: "cache \<Rightarrow> account_key \<Rightarrow> answer option" where
  "cached s k = (case ca_entries s k of None \<Rightarrow> None | Some (r, expires) \<Rightarrow> if ca_now s < expires then Some r else None)"

definition place_at :: "nat \<Rightarrow> place \<Rightarrow> cache \<Rightarrow> cache" where
  "place_at i p s = s\<lparr>ca_threads := (ca_threads s)(i := p)\<rparr>"

text \<open>The first critical section: an entry that is valid, a fetch to wait for, or a fetch of one's own.\<close>

definition look_up :: "nat \<Rightarrow> account_key \<Rightarrow> cache \<Rightarrow> cache" where
  "look_up i k s =
     (case cached s k of Some r \<Rightarrow> place_at i (Answered k r (ca_now s)) s
      | None \<Rightarrow> (case ca_inflight s k of Some c \<Rightarrow> place_at i (Waiting k c (ca_now s)) s
          | None \<Rightarrow> place_at i (Fetching k (ca_next s) (ca_now s))
              (s\<lparr>ca_inflight := (ca_inflight s)(k := Some (ca_next s)), ca_next := Suc (ca_next s)\<rparr>)))"

text \<open>The second one, when the fetch has answered.\<close>

definition store_answer :: "nat \<Rightarrow> account_key \<Rightarrow> nat \<Rightarrow> int \<Rightarrow> answer \<Rightarrow> cache \<Rightarrow> cache" where
  "store_answer i k c since r s = place_at i (Closing k c r since)
     (s\<lparr>ca_entries := (ca_entries s)(k := Some (r, ca_now s + ttl r)), ca_inflight := (ca_inflight s)(k := None),
        ca_fetched := insert (k, r, ca_now s) (ca_fetched s)\<rparr>)"

definition close_call :: "nat \<Rightarrow> account_key \<Rightarrow> nat \<Rightarrow> int \<Rightarrow> answer \<Rightarrow> cache \<Rightarrow> cache" where
  "close_call i k c since r s = place_at i (Answered k r since) (s\<lparr>ca_closed := (ca_closed s)(c := Some r)\<rparr>)"

inductive cache_step :: "cache \<Rightarrow> cache \<Rightarrow> bool" where
  tick: "d \<ge> 0 \<Longrightarrow> cache_step s (s\<lparr>ca_now := ca_now s + d\<rparr>)"
| call: "ca_threads s i = Outside \<Longrightarrow> cache_step s (look_up i k s)"
| fetched: "ca_threads s i = Fetching k c since \<Longrightarrow> cache_step s (store_answer i k c since r s)"
| closes: "ca_threads s i = Closing k c r since \<Longrightarrow> cache_step s (close_call i k c since r s)"
| wakes: "ca_threads s i = Waiting k c since \<Longrightarrow> ca_closed s c = Some r \<Longrightarrow> cache_step s (place_at i (Answered k r since) s)"

inductive cache_run :: "cache \<Rightarrow> cache \<Rightarrow> bool" where
  refl: "cache_run s s"
| step: "cache_run s t \<Longrightarrow> cache_step t u \<Longrightarrow> cache_run s u"

section \<open>Invariant\<close>

text \<open>Who works for the call \<open>c\<close> of a key.\<close>

definition serves_call :: "cache \<Rightarrow> nat \<Rightarrow> account_key \<Rightarrow> nat \<Rightarrow> bool" where
  "serves_call s j k c \<longleftrightarrow> (\<exists>t. ca_threads s j = Fetching k c t) \<or> (\<exists>r t. ca_threads s j = Closing k c r t)"

definition fresh :: "cache \<Rightarrow> account_key \<Rightarrow> answer \<Rightarrow> int \<Rightarrow> bool" where
  "fresh s k r since \<longleftrightarrow> (\<exists>t. (k, r, t) \<in> ca_fetched s \<and> since < t + ttl r)"

text \<open>A fetch runs for the call that is in flight, and for every call in flight a fetch runs.\<close>

definition inv_flight :: "cache \<Rightarrow> bool" where
  "inv_flight s \<longleftrightarrow> (\<forall>i k c t. ca_threads s i = Fetching k c t \<longrightarrow> ca_inflight s k = Some c \<and> t \<le> ca_now s) \<and>
     (\<forall>k c. ca_inflight s k = Some c \<longrightarrow> (\<exists>j t. ca_threads s j = Fetching k c t))"

text \<open>One thread works for a call; the call is not closed yet.\<close>

definition inv_serve :: "cache \<Rightarrow> bool" where
  "inv_serve s \<longleftrightarrow> (\<forall>i j k l c. serves_call s i k c \<longrightarrow> serves_call s j l c \<longrightarrow> i = j) \<and>
     (\<forall>i k c. serves_call s i k c \<longrightarrow> c < ca_next s \<and> ca_closed s c = None) \<and>
     (\<forall>c. ca_closed s c \<noteq> None \<longrightarrow> c < ca_next s)"

text \<open>A call that is awaited is being served or closed.\<close>

definition inv_wait :: "cache \<Rightarrow> bool" where
  "inv_wait s \<longleftrightarrow> (\<forall>i k c t. ca_threads s i = Waiting k c t \<longrightarrow> t \<le> ca_now s \<and>
     ((\<exists>j. serves_call s j k c) \<or> ca_closed s c \<noteq> None))"

text \<open>Answers in the cache, about to be sent, sent or delivered come from a fetch that is recent.\<close>

definition inv_answer :: "cache \<Rightarrow> bool" where
  "inv_answer s \<longleftrightarrow> (\<forall>k r e. ca_entries s k = Some (r, e) \<longrightarrow> (\<exists>t. (k, r, t) \<in> ca_fetched s \<and> e = t + ttl r)) \<and>
     (\<forall>i k r t. ca_threads s i = Answered k r t \<longrightarrow> fresh s k r t) \<and>
     (\<forall>i k c r t. ca_threads s i = Closing k c r t \<longrightarrow> fresh s k r t) \<and>
     (\<forall>i j k c r t t'. ca_threads s i = Closing k c r t \<longrightarrow> ca_threads s j = Waiting k c t' \<longrightarrow> fresh s k r t') \<and>
     (\<forall>i k c r t. ca_threads s i = Waiting k c t \<longrightarrow> ca_closed s c = Some r \<longrightarrow> fresh s k r t)"

definition cache_inv :: "cache \<Rightarrow> bool" where
  "cache_inv s \<longleftrightarrow> inv_flight s \<and> inv_serve s \<and> inv_wait s \<and> inv_answer s"

lemma place_at_simps [simp]:
  "ca_threads (place_at i p s) = (ca_threads s)(i := p)" "ca_now (place_at i p s) = ca_now s"
  "ca_entries (place_at i p s) = ca_entries s" "ca_inflight (place_at i p s) = ca_inflight s"
  "ca_closed (place_at i p s) = ca_closed s" "ca_next (place_at i p s) = ca_next s" "ca_fetched (place_at i p s) = ca_fetched s"
  by (simp_all add: place_at_def)

lemma ttl_pos [simp]: "0 < ttl r"
  by (simp add: ttl_def)

lemma fresh_place [simp]: "fresh (place_at i p s) = fresh s"
  by (intro ext) (simp add: fresh_def)

lemma empty_inv: "cache_inv (empty_cache now)"
  by (simp add: cache_inv_def inv_flight_def inv_serve_def inv_wait_def inv_answer_def empty_cache_def serves_call_def)

lemma inv_dest:
  assumes "cache_inv s"
  shows "ca_threads s i = Fetching k c t \<Longrightarrow> ca_inflight s k = Some c \<and> t \<le> ca_now s"
    and "ca_inflight s k = Some c \<Longrightarrow> \<exists>j t. ca_threads s j = Fetching k c t"
    and "serves_call s i k c \<Longrightarrow> serves_call s j l c \<Longrightarrow> i = j"
    and "serves_call s i k c \<Longrightarrow> c < ca_next s \<and> ca_closed s c = None"
    and "ca_closed s c \<noteq> None \<Longrightarrow> c < ca_next s"
    and "ca_threads s i = Waiting k c t \<Longrightarrow> t \<le> ca_now s"
    and "ca_threads s i = Waiting k c t \<Longrightarrow> (\<exists>j. serves_call s j k c) \<or> ca_closed s c \<noteq> None"
    and "ca_entries s k = Some (r, e) \<Longrightarrow> \<exists>t. (k, r, t) \<in> ca_fetched s \<and> e = t + ttl r"
    and "ca_threads s i = Answered k r t \<Longrightarrow> fresh s k r t"
    and "ca_threads s i = Closing k c r t \<Longrightarrow> fresh s k r t"
    and "ca_threads s i = Closing k c r t \<Longrightarrow> ca_threads s j = Waiting k c t' \<Longrightarrow> fresh s k r t'"
    and "ca_threads s i = Waiting k c t \<Longrightarrow> ca_closed s c = Some r \<Longrightarrow> fresh s k r t"
proof -
  note parts = assms [unfolded cache_inv_def]
  show "ca_threads s i = Fetching k c t \<Longrightarrow> ca_inflight s k = Some c \<and> t \<le> ca_now s"
    using parts unfolding inv_flight_def by blast
  show "ca_inflight s k = Some c \<Longrightarrow> \<exists>j t. ca_threads s j = Fetching k c t"
    using parts unfolding inv_flight_def by blast
  show "serves_call s i k c \<Longrightarrow> serves_call s j l c \<Longrightarrow> i = j"
    using parts unfolding inv_serve_def by blast
  show "serves_call s i k c \<Longrightarrow> c < ca_next s \<and> ca_closed s c = None"
    using parts unfolding inv_serve_def by blast
  show "ca_closed s c \<noteq> None \<Longrightarrow> c < ca_next s"
    using parts unfolding inv_serve_def by blast
  show "ca_threads s i = Waiting k c t \<Longrightarrow> t \<le> ca_now s"
    using parts unfolding inv_wait_def by blast
  show "ca_threads s i = Waiting k c t \<Longrightarrow> (\<exists>j. serves_call s j k c) \<or> ca_closed s c \<noteq> None"
    using parts unfolding inv_wait_def by blast
  show "ca_entries s k = Some (r, e) \<Longrightarrow> \<exists>t. (k, r, t) \<in> ca_fetched s \<and> e = t + ttl r"
    using parts by (simp add: inv_answer_def)
  show "ca_threads s i = Answered k r t \<Longrightarrow> fresh s k r t"
    using parts unfolding inv_answer_def by metis
  show "ca_threads s i = Closing k c r t \<Longrightarrow> fresh s k r t"
    using parts unfolding inv_answer_def by metis
  show "ca_threads s i = Closing k c r t \<Longrightarrow> ca_threads s j = Waiting k c t' \<Longrightarrow> fresh s k r t'"
    using parts unfolding inv_answer_def by metis
  show "ca_threads s i = Waiting k c t \<Longrightarrow> ca_closed s c = Some r \<Longrightarrow> fresh s k r t"
    using parts unfolding inv_answer_def by metis
qed

lemma flight_place:
  assumes "inv_flight s" "\<And>k c t. ca_threads s i \<noteq> Fetching k c t" "\<And>k c t. p \<noteq> Fetching k c t"
  shows "inv_flight (place_at i p s)"
  unfolding inv_flight_def
proof (intro conjI allI impI)
  fix j k c t
  assume "ca_threads (place_at i p s) j = Fetching k c t"
  then have "ca_threads s j = Fetching k c t" using assms(3) [of k c t] by (simp split: if_splits)
  then show "ca_inflight (place_at i p s) k = Some c" "t \<le> ca_now (place_at i p s)"
    using assms(1) by (simp_all add: inv_flight_def)
next
  fix k c
  assume "ca_inflight (place_at i p s) k = Some c"
  then obtain j t where "ca_threads s j = Fetching k c t" using assms(1) unfolding inv_flight_def place_at_simps by metis
  with assms(2) have "ca_threads (place_at i p s) j = Fetching k c t" by auto
  then show "\<exists>j t. ca_threads (place_at i p s) j = Fetching k c t" by blast
qed

lemma serves_key: "cache_inv s \<Longrightarrow> serves_call s i k c \<Longrightarrow> ca_threads s j = Waiting l c t \<Longrightarrow> l = k"
proof -
  assume a: "cache_inv s" "serves_call s i k c" "ca_threads s j = Waiting l c t"
  then obtain m where m: "serves_call s m l c" using inv_dest(4,7) by blast
  with a have "i = m" using inv_dest(3) by blast
  with a(2) m show "l = k" by (auto simp: serves_call_def)
qed

text \<open>A thread that is neither fetching nor closing and whose new place is neither changes little.\<close>

lemma serves_place:
  "\<not> serves_call s i k c \<Longrightarrow> (\<And>k c t. p \<noteq> Fetching k c t) \<Longrightarrow> (\<And>k c r t. p \<noteq> Closing k c r t) \<Longrightarrow>
   serves_call (place_at i p s) j k c = serves_call s j k c"
  by (auto simp: serves_call_def)

lemma tick_inv:
  assumes "cache_inv s" "d \<ge> 0"
  shows "cache_inv (s\<lparr>ca_now := ca_now s + d\<rparr>)" (is "cache_inv ?s")
proof -
  have eq: "serves_call ?s = serves_call s" "fresh ?s = fresh s"
    by (intro ext; simp add: serves_call_def fresh_def)+
  have le: "t \<le> ca_now s \<Longrightarrow> t \<le> ca_now s + d" for t using assms(2) by simp
  show ?thesis
    using assms(1) unfolding cache_inv_def inv_flight_def inv_serve_def inv_wait_def inv_answer_def eq
    by (simp add: le)
qed

lemma cached_fresh: "cache_inv s \<Longrightarrow> cached s k = Some r \<Longrightarrow> fresh s k r (ca_now s)"
  by (fastforce simp: cached_def cache_inv_def inv_answer_def fresh_def split: option.splits prod.splits if_splits)

lemma answered_inv:
  assumes "cache_inv s" "\<And>k c. \<not> serves_call s i k c" "fresh s k r t"
  shows "cache_inv (place_at i (Answered k r t) s)"
proof -
  have sv: "serves_call (place_at i (Answered k r t) s) j l c = serves_call s j l c" for j l c
    by (rule serves_place) (simp_all add: assms(2))
  have nf: "ca_threads s i \<noteq> Fetching l c u" "ca_threads s i \<noteq> Closing l c q u" for l c u q
    using assms(2) by (auto simp: serves_call_def)
  show ?thesis
    unfolding cache_inv_def
  proof (intro conjI)
    show "inv_flight (place_at i (Answered k r t) s)"
      using assms(1) nf by (intro flight_place) (simp_all add: cache_inv_def)
    show "inv_serve (place_at i (Answered k r t) s)"
      using assms(1) by (simp add: cache_inv_def inv_serve_def sv)
    show "inv_wait (place_at i (Answered k r t) s)"
      using assms(1) by (simp add: cache_inv_def inv_wait_def sv)
    show "inv_answer (place_at i (Answered k r t) s)"
      using assms(1,3) unfolding cache_inv_def inv_answer_def by simp
  qed
qed

lemma look_up_inv:
  assumes "cache_inv s" "ca_threads s i = Outside"
  shows "cache_inv (look_up i k s)"
proof (cases "cached s k")
  case (Some r)
  then show ?thesis
    using answered_inv [OF assms(1) _ cached_fresh [OF assms(1) Some]] assms(2) by (simp add: look_up_def serves_call_def)
next
  case None
  show ?thesis
  proof (cases "ca_inflight s k")
    case (Some c)
    let ?s = "place_at i (Waiting k c (ca_now s)) s"
    have sv: "serves_call ?s j l d = serves_call s j l d" for j l d
      by (rule serves_place) (simp_all add: assms(2) serves_call_def)
    obtain j t where j: "ca_threads s j = Fetching k c t" using inv_dest(2) [OF assms(1) Some] by blast
    then have svj: "serves_call s j k c" by (auto simp: serves_call_def)
    have nocl: "ca_closed s c = None" using inv_dest(4) [OF assms(1) svj] by simp
    have ncl: "ca_threads s m \<noteq> Closing l c r u" for m l r u
    proof
      assume m: "ca_threads s m = Closing l c r u"
      then have "serves_call s m l c" by (auto simp: serves_call_def)
      with svj have "m = j" using inv_dest(3) [OF assms(1)] by blast
      with m j show False by simp
    qed
    have "inv_flight ?s" using assms by (intro flight_place) (simp_all add: cache_inv_def)
    moreover have "inv_serve ?s" using assms(1) by (simp add: cache_inv_def inv_serve_def sv)
    moreover have "inv_wait ?s" using assms(1) svj unfolding cache_inv_def inv_wait_def sv by auto
    moreover have "inv_answer ?s" using assms(1) nocl ncl unfolding cache_inv_def inv_answer_def by auto
    ultimately show ?thesis using None Some by (simp add: look_up_def cache_inv_def)
  next
    case nofl: None
    let ?s = "look_up i k s"
    have th: "ca_threads ?s = (ca_threads s)(i := Fetching k (ca_next s) (ca_now s))" "ca_next ?s = Suc (ca_next s)"
      "ca_inflight ?s = (ca_inflight s)(k := Some (ca_next s))" "ca_closed ?s = ca_closed s" "ca_now ?s = ca_now s"
      "ca_entries ?s = ca_entries s" "ca_fetched ?s = ca_fetched s"
      using None nofl by (simp_all add: look_up_def)
    have sv: "serves_call ?s j l d \<longleftrightarrow> (if j = i then l = k \<and> d = ca_next s else serves_call s j l d)" for j l d
      by (auto simp: serves_call_def th)
    have old: "serves_call s j l d \<Longrightarrow> d < ca_next s \<and> ca_closed s d = None" for j l d
      using assms(1) by (auto simp: cache_inv_def inv_serve_def)
    have uniq: "serves_call s j l d \<Longrightarrow> serves_call s m l' d \<Longrightarrow> j = m" for j l d m l'
      using assms(1) unfolding cache_inv_def inv_serve_def by blast
    have clos: "ca_closed s d \<noteq> None \<Longrightarrow> d < ca_next s" for d
      using assms(1) by (auto simp: cache_inv_def inv_serve_def)
    have nok: "ca_threads s j \<noteq> Fetching k d t" for j d t
      using assms(1) nofl by (auto simp: cache_inv_def inv_flight_def)
    have "inv_flight ?s"
      unfolding inv_flight_def
    proof (intro conjI allI impI)
      fix j l d t
      assume j: "ca_threads ?s j = Fetching l d t"
      show "ca_inflight ?s l = Some d" "t \<le> ca_now ?s"
        using j nok [of j] inv_dest(1) [OF assms(1), of j l d t] by (auto simp: th split: if_splits)
    next
      fix l d
      assume l: "ca_inflight ?s l = Some d"
      show "\<exists>j t. ca_threads ?s j = Fetching l d t"
      proof (cases "l = k")
        case True
        with l show ?thesis by (auto simp: th)
      next
        case False
        with l obtain j t where "ca_threads s j = Fetching l d t" using inv_dest(2) [OF assms(1), of l d] by (auto simp: th)
        with assms(2) have "ca_threads ?s j = Fetching l d t" by (auto simp: th)
        then show ?thesis by blast
      qed
    qed
    moreover have "inv_serve ?s"
    proof -
      have "ca_closed s (ca_next s) = None" "\<And>d. ca_closed s d \<noteq> None \<Longrightarrow> d < Suc (ca_next s)"
        using clos by (metis less_irrefl, metis less_SucI)
      moreover have "\<not> serves_call s j l (ca_next s)" for j l using old by blast
      moreover have "serves_call s j l d \<Longrightarrow> d < Suc (ca_next s) \<and> ca_closed s d = None" for j l d
        using old less_SucI by blast
      ultimately show ?thesis unfolding inv_serve_def sv th using uniq by (auto split: if_splits)
    qed
    moreover have "inv_wait ?s"
      unfolding inv_wait_def
    proof (intro allI impI)
      fix m l d t
      assume "ca_threads ?s m = Waiting l d t"
      then have w: "ca_threads s m = Waiting l d t" by (simp add: th split: if_splits)
      have "serves_call s j l d \<Longrightarrow> serves_call ?s j l d" for j
        unfolding sv using assms(2) by (auto simp: serves_call_def)
      with inv_dest(6,7) [OF assms(1) w] show "t \<le> ca_now ?s \<and> ((\<exists>j. serves_call ?s j l d) \<or> ca_closed ?s d \<noteq> None)"
        by (auto simp: th)
    qed
    moreover have "inv_answer ?s"
      using assms(1) unfolding cache_inv_def inv_answer_def th fresh_def by auto
    ultimately show ?thesis by (simp add: cache_inv_def)
  qed
qed

lemma store_inv:
  assumes "cache_inv s" "ca_threads s i = Fetching k c since"
  shows "cache_inv (store_answer i k c since r s)" (is "cache_inv ?s")
proof -
  have th: "ca_threads ?s = (ca_threads s)(i := Closing k c r since)" "ca_next ?s = ca_next s" "ca_closed ?s = ca_closed s"
    "ca_inflight ?s = (ca_inflight s)(k := None)" "ca_now ?s = ca_now s"
    "ca_entries ?s = (ca_entries s)(k := Some (r, ca_now s + ttl r))"
    "ca_fetched ?s = insert (k, r, ca_now s) (ca_fetched s)"
    by (simp_all add: store_answer_def)
  have sv: "serves_call ?s j l d = serves_call s j l d" for j l d
    using assms(2) by (auto simp: serves_call_def th)
  have fr: "fresh s l q t \<Longrightarrow> fresh ?s l q t" for l q t by (auto simp: fresh_def th)
  have new: "t \<le> ca_now s \<Longrightarrow> fresh ?s k r t" for t
    unfolding fresh_def th by (rule exI [of _ "ca_now s"]) (simp add: ttl_def)
  have only: "ca_threads s j = Fetching k d t \<Longrightarrow> j = i" for j d t
  proof -
    assume j: "ca_threads s j = Fetching k d t"
    then have "d = c" using inv_dest(1) [OF assms(1) j] inv_dest(1) [OF assms] by simp
    with j assms(2) have "serves_call s j k c" "serves_call s i k c" by (auto simp: serves_call_def)
    then show "j = i" using inv_dest(3) [OF assms(1)] by blast
  qed
  have "inv_flight ?s"
    unfolding inv_flight_def
  proof (intro conjI allI impI)
    fix j l d t
    assume j: "ca_threads ?s j = Fetching l d t"
    then have "j \<noteq> i" "ca_threads s j = Fetching l d t" by (auto simp: th split: if_splits)
    then show "ca_inflight ?s l = Some d" "t \<le> ca_now ?s"
      using only [of j] inv_dest(1) [OF assms(1), of j l d t] by (auto simp: th)
  next
    fix l d
    assume "ca_inflight ?s l = Some d"
    then have l: "l \<noteq> k" "ca_inflight s l = Some d" by (auto simp: th split: if_splits)
    then obtain j t where "ca_threads s j = Fetching l d t" using inv_dest(2) [OF assms(1)] by blast
    with l assms(2) have "ca_threads ?s j = Fetching l d t" by (auto simp: th)
    then show "\<exists>j t. ca_threads ?s j = Fetching l d t" by blast
  qed
  moreover have "inv_serve ?s" using assms(1) unfolding cache_inv_def inv_serve_def sv th by blast
  moreover have "inv_wait ?s"
    using assms(1) unfolding cache_inv_def inv_wait_def sv th by (simp split: if_splits)
  moreover have "inv_answer ?s"
    unfolding inv_answer_def
  proof (intro conjI allI impI)
    fix l q e
    assume "ca_entries ?s l = Some (q, e)"
    then show "\<exists>t. (l, q, t) \<in> ca_fetched ?s \<and> e = t + ttl q"
      using inv_dest(8) [OF assms(1), of l q e] by (auto simp: th split: if_splits)
  next
    fix j l q t
    assume "ca_threads ?s j = Answered l q t"
    then show "fresh ?s l q t" using inv_dest(9) [OF assms(1), of j l q t] fr by (simp add: th split: if_splits)
  next
    fix j l d q t
    assume "ca_threads ?s j = Closing l d q t"
    then show "fresh ?s l q t"
      using inv_dest(10) [OF assms(1), of j l d q t] inv_dest(1) [OF assms] fr new by (simp add: th split: if_splits)
  next
    fix j m l d q t t'
    assume j: "ca_threads ?s j = Closing l d q t" and m: "ca_threads ?s m = Waiting l d t'"
    from m have m: "ca_threads s m = Waiting l d t'" by (simp add: th split: if_splits)
    show "fresh ?s l q t'"
    proof (cases "j = i")
      case True
      with j have "l = k" "q = r" by (simp_all add: th)
      with new inv_dest(6) [OF assms(1) m] show ?thesis by simp
    next
      case False
      with j have "ca_threads s j = Closing l d q t" by (simp add: th)
      from fr [OF inv_dest(11) [OF assms(1) this m]] show ?thesis .
    qed
  next
    fix j l d q t
    assume "ca_threads ?s j = Waiting l d t" "ca_closed ?s d = Some q"
    then show "fresh ?s l q t" using inv_dest(12) [OF assms(1), of j l d t q] fr by (simp add: th split: if_splits)
  qed
  ultimately show ?thesis by (simp add: cache_inv_def)
qed

lemma close_inv:
  assumes "cache_inv s" "ca_threads s i = Closing k c r since"
  shows "cache_inv (close_call i k c since r s)" (is "cache_inv ?s")
proof -
  have th: "ca_threads ?s = (ca_threads s)(i := Answered k r since)" "ca_next ?s = ca_next s"
    "ca_closed ?s = (ca_closed s)(c := Some r)" "ca_inflight ?s = ca_inflight s" "ca_now ?s = ca_now s"
    "ca_entries ?s = ca_entries s" "ca_fetched ?s = ca_fetched s"
    by (simp_all add: close_call_def)
  have self: "serves_call s i k c" using assms(2) by (auto simp: serves_call_def)
  have sv: "serves_call ?s j l d \<longleftrightarrow> j \<noteq> i \<and> serves_call s j l d" for j l d
    by (auto simp: serves_call_def th)
  have fr: "fresh ?s = fresh s" by (intro ext) (simp add: fresh_def th)
  have other: "serves_call s j l d \<Longrightarrow> j \<noteq> i \<Longrightarrow> d \<noteq> c" for j l d
    using inv_dest(3) [OF assms(1)] self by blast
  have "inv_flight ?s"
  proof -
    have "inv_flight (place_at i (Answered k r since) s)"
      using assms by (intro flight_place) (simp_all add: cache_inv_def)
    then show ?thesis by (simp add: inv_flight_def th)
  qed
  moreover have "inv_serve ?s"
    unfolding inv_serve_def
  proof (intro conjI allI impI)
    fix j m l l' d
    assume "serves_call ?s j l d" "serves_call ?s m l' d"
    then show "j = m" using inv_dest(3) [OF assms(1), of j l d m l'] by (simp add: sv)
  next
    fix j l d
    assume "serves_call ?s j l d"
    then show "d < ca_next ?s" "ca_closed ?s d = None"
      using inv_dest(4) [OF assms(1), of j l d] other [of j l d] by (simp_all add: sv th)
  next
    fix d
    assume "ca_closed ?s d \<noteq> None"
    then show "d < ca_next ?s"
      using inv_dest(5) [OF assms(1), of d] inv_dest(4) [OF assms(1) self] by (simp add: th split: if_splits)
  qed
  moreover have "inv_wait ?s"
    unfolding inv_wait_def
  proof (intro allI impI)
    fix m l d t
    assume "ca_threads ?s m = Waiting l d t"
    then have w: "ca_threads s m = Waiting l d t" by (simp add: th split: if_splits)
    have "d = c \<or> (\<exists>j. j \<noteq> i \<and> serves_call s j l d) \<or> ca_closed s d \<noteq> None"
    proof (cases "\<exists>j. serves_call s j l d")
      case True
      then obtain j where j: "serves_call s j l d" by blast
      show ?thesis
      proof (cases "j = i")
        case True
        with j assms(2) have "d = c" by (auto simp: serves_call_def)
        then show ?thesis by simp
      qed (use j in blast)
    qed (use inv_dest(7) [OF assms(1) w] in blast)
    then show "t \<le> ca_now ?s \<and> ((\<exists>j. serves_call ?s j l d) \<or> ca_closed ?s d \<noteq> None)"
      using inv_dest(6) [OF assms(1) w] by (auto simp: th sv)
  qed
  moreover have "inv_answer ?s"
    unfolding inv_answer_def fr
  proof (intro conjI allI impI)
    fix l q e
    assume "ca_entries ?s l = Some (q, e)"
    then show "\<exists>t. (l, q, t) \<in> ca_fetched ?s \<and> e = t + ttl q" using inv_dest(8) [OF assms(1), of l q e] by (simp add: th)
  next
    fix j l q t
    assume "ca_threads ?s j = Answered l q t"
    then show "fresh s l q t"
      using inv_dest(9) [OF assms(1), of j l q t] inv_dest(10) [OF assms] by (simp add: th split: if_splits)
  next
    fix j l d q t
    assume "ca_threads ?s j = Closing l d q t"
    then show "fresh s l q t" using inv_dest(10) [OF assms(1), of j l d q t] by (simp add: th split: if_splits)
  next
    fix j m l d q t t'
    assume "ca_threads ?s j = Closing l d q t" "ca_threads ?s m = Waiting l d t'"
    then show "fresh s l q t'" using inv_dest(11) [OF assms(1), of j l d q t m t'] by (simp add: th split: if_splits)
  next
    fix j l d q t
    assume j: "ca_threads ?s j = Waiting l d t" and q: "ca_closed ?s d = Some q"
    from j have w: "ca_threads s j = Waiting l d t" by (simp add: th split: if_splits)
    show "fresh s l q t"
    proof (cases "d = c")
      case True
      with w have "l = k" using serves_key [OF assms(1) self] by blast
      with True q w inv_dest(11) [OF assms, of j t] show ?thesis by (simp add: th)
    next
      case False
      with q inv_dest(12) [OF assms(1) w, of q] show ?thesis by (simp add: th)
    qed
  qed
  ultimately show ?thesis by (simp add: cache_inv_def)
qed

lemma step_inv: "cache_step s t \<Longrightarrow> cache_inv s \<Longrightarrow> cache_inv t"
proof (induction rule: cache_step.induct)
  case (wakes s i k c since r)
  from wakes(1,3) have "\<not> serves_call s i l d" for l d by (auto simp: serves_call_def)
  with inv_dest(12) [OF wakes(3,1,2)] wakes(3) show ?case by (intro answered_inv)
qed (simp_all add: tick_inv look_up_inv store_inv close_inv)

lemma run_inv: "cache_run s t \<Longrightarrow> cache_inv s \<Longrightarrow> cache_inv t"
  by (induction rule: cache_run.induct) (auto intro: step_inv)

section \<open>What callers get\<close>

text \<open>
  C14. Concurrent lookups of an account share one fetch. In any interleaving of calls, fetches that end
  with usages or an error, and time, at most one fetch of an account runs, and every answer that is
  delivered is that of a fetch of this account which had ended less than a minute, for an error less
  than ten seconds, before the call was made, or later.
\<close>

theorem quota_single_flight:
  assumes "cache_run (empty_cache now) s"
  shows "(ca_threads s i = Fetching k c t \<longrightarrow> ca_threads s j = Fetching k c' t' \<longrightarrow> i = j) \<and>
    (ca_threads s i = Answered k r t \<longrightarrow> (\<exists>u. (k, r, u) \<in> ca_fetched s \<and> t < u + (if r = None then 10 else 60)))"
proof -
  have inv: "cache_inv s" using run_inv [OF assms empty_inv] .
  have "i = j" if "ca_threads s i = Fetching k c t" "ca_threads s j = Fetching k c' t'"
  proof -
    have "c' = c" using inv_dest(1) [OF inv that(1)] inv_dest(1) [OF inv that(2)] by simp
    with that have "serves_call s i k c" "serves_call s j k c" by (auto simp: serves_call_def)
    then show ?thesis using inv_dest(3) [OF inv] by blast
  qed
  moreover have "ca_threads s i = Answered k r t \<longrightarrow> fresh s k r t" using inv_dest(9) [OF inv] by blast
  ultimately show ?thesis by (simp add: fresh_def ttl_def)
qed

text \<open>
  No caller waits in vain: from every state that can be reached, a call that waits for the fetch
  of another can still be answered, and only the thread that works on that fetch has to move.
\<close>

theorem waiting_caller_answered:
  assumes "cache_run (empty_cache now) s" "ca_threads s i = Waiting k c t"
  shows "\<exists>u r. cache_run s u \<and> ca_threads u i = Answered k r t \<and>
    (\<forall>j. j \<noteq> i \<longrightarrow> ca_threads u j \<noteq> ca_threads s j \<longrightarrow> serves_call s j k c)"
proof -
  have inv: "cache_inv s" using run_inv [OF assms(1) empty_inv] .
  have close: "\<exists>u q. cache_run s u \<and> ca_threads u i = Answered k q t \<and> (\<forall>m. m \<noteq> i \<longrightarrow> m \<noteq> j \<longrightarrow> ca_threads u m = ca_threads s m)"
    if x: "cache_run s x" "ca_threads x j = Closing k c r since" "ca_threads x i = Waiting k c t"
      "\<And>m. m \<noteq> j \<Longrightarrow> ca_threads x m = ca_threads s m" for x j r since
  proof -
    let ?y = "close_call j k c since r x"
    have ij: "i \<noteq> j" using x(2,3) by auto
    have y: "cache_run s ?y" using cache_run.step [OF x(1) closes [OF x(2)]] .
    have "ca_threads ?y i = Waiting k c t" "ca_closed ?y c = Some r" using x(3) ij by (simp_all add: close_call_def)
    from cache_run.step [OF y wakes [OF this]] have "cache_run s (place_at i (Answered k r t) ?y)" .
    moreover have "\<forall>m. m \<noteq> i \<longrightarrow> m \<noteq> j \<longrightarrow> ca_threads (place_at i (Answered k r t) ?y) m = ca_threads s m"
      using x(4) by (simp add: close_call_def)
    moreover have "ca_threads (place_at i (Answered k r t) ?y) i = Answered k r t" by simp
    ultimately show ?thesis by blast
  qed
  from inv_dest(7) [OF inv assms(2)] consider (served) j where "serves_call s j k c" | (closed) r where "ca_closed s c = Some r"
    by auto
  then show ?thesis
  proof cases
    case closed
    from cache_run.step [OF cache_run.refl wakes [OF assms(2) this]]
    show ?thesis by (intro exI [of _ "place_at i (Answered k r t) s"] exI [of _ r]) simp
  next
    case served
    then consider (f) since where "ca_threads s j = Fetching k c since" | (c) r since where "ca_threads s j = Closing k c r since"
      by (auto simp: serves_call_def)
    then have "\<exists>u q. cache_run s u \<and> ca_threads u i = Answered k q t \<and> (\<forall>m. m \<noteq> i \<longrightarrow> m \<noteq> j \<longrightarrow> ca_threads u m = ca_threads s m)"
    proof cases
      case f
      have ij: "i \<noteq> j" using f assms(2) by auto
      show ?thesis
        by (rule close [OF cache_run.step [OF cache_run.refl fetched [OF f, of None]], of j None since])
          (use ij assms(2) in \<open>simp_all add: store_answer_def\<close>)
    next
      case c
      show ?thesis by (rule close [OF cache_run.refl c assms(2)]) simp
    qed
    with served show ?thesis by metis
  qed
qed

section \<open>A run\<close>

definition cache_demo :: "cache \<Rightarrow> cache" where
  "cache_demo s = look_up 1 (QuotaKey ''claude'' ''a'') (look_up 0 (QuotaKey ''claude'' ''a'') s)"

lemma demo_run: "cache_run (empty_cache 0) (cache_demo (empty_cache 0))"
  unfolding cache_demo_def
proof (rule cache_run.step [OF cache_run.step [OF cache_run.refl]])
  show "cache_step (empty_cache 0) (look_up 0 (QuotaKey ''claude'' ''a'') (empty_cache 0))"
    by (rule call) (simp add: empty_cache_def)
  show "cache_step (look_up 0 (QuotaKey ''claude'' ''a'') (empty_cache 0))
      (look_up 1 (QuotaKey ''claude'' ''a'') (look_up 0 (QuotaKey ''claude'' ''a'') (empty_cache 0)))"
    by (rule call) (simp add: empty_cache_def look_up_def cached_def)
qed

lemma demo_places:
  "ca_threads (cache_demo (empty_cache 0)) 0 = Fetching (QuotaKey ''claude'' ''a'') 0 0"
  "ca_threads (cache_demo (empty_cache 0)) 1 = Waiting (QuotaKey ''claude'' ''a'') 0 0"
  by (simp_all add: cache_demo_def empty_cache_def look_up_def cached_def)

text \<open>The fetch answers with an account without entries, and the caller that waits gets this answer.\<close>

definition cache_answered :: "cache \<Rightarrow> cache" where
  "cache_answered s = place_at 1 (Answered (QuotaKey ''claude'' ''a'') (Some []) 0)
     (close_call 0 (QuotaKey ''claude'' ''a'') 0 0 (Some [])
       (store_answer 0 (QuotaKey ''claude'' ''a'') 0 0 (Some []) (cache_demo s)))"

lemma answered_run: "cache_run (empty_cache 0) (cache_answered (empty_cache 0))"
  unfolding cache_answered_def
proof -
  let ?k = "QuotaKey ''claude'' ''a''"
  let ?d = "cache_demo (empty_cache 0)"
  let ?s = "store_answer 0 ?k 0 0 (Some []) ?d"
  have s: "cache_run (empty_cache 0) ?s" using cache_run.step [OF demo_run fetched [OF demo_places(1)]] .
  have c: "ca_threads ?s 0 = Closing ?k 0 (Some []) 0" by (simp add: store_answer_def)
  have w: "ca_threads (close_call 0 ?k 0 0 (Some []) ?s) 1 = Waiting ?k 0 0"
    "ca_closed (close_call 0 ?k 0 0 (Some []) ?s) 0 = Some (Some [])"
    using demo_places(2) by (simp_all add: store_answer_def close_call_def)
  show "cache_run (empty_cache 0) (place_at 1 (Answered ?k (Some []) 0) (close_call 0 ?k 0 0 (Some []) ?s))"
    by (rule cache_run.step [OF cache_run.step [OF s closes [OF c]] wakes [OF w]])
qed

theorem quota_single_flight_witness:
  "ca_threads (cache_demo (empty_cache 0)) 0 = Fetching (QuotaKey ''claude'' ''a'') 0 0 \<and>
   (\<forall>c t. ca_threads (cache_demo (empty_cache 0)) 1 \<noteq> Fetching (QuotaKey ''claude'' ''a'') c t) \<and>
   ca_threads (cache_answered (empty_cache 0)) 1 = Answered (QuotaKey ''claude'' ''a'') (Some []) 0 \<and>
   (\<exists>u. (QuotaKey ''claude'' ''a'', Some [], u) \<in> ca_fetched (cache_answered (empty_cache 0)) \<and> 0 < u + 60)"
proof -
  have one: "ca_threads (cache_demo (empty_cache 0)) 1 \<noteq> Fetching (QuotaKey ''claude'' ''a'') c t" for c t
    using quota_single_flight [OF demo_run, of 0 "QuotaKey ''claude'' ''a''" 0 0 1 c t] demo_places(1) by simp
  have answer: "ca_threads (cache_answered (empty_cache 0)) 1 = Answered (QuotaKey ''claude'' ''a'') (Some []) 0"
    by (simp add: cache_answered_def)
  then have "\<exists>u. (QuotaKey ''claude'' ''a'', Some [], u) \<in> ca_fetched (cache_answered (empty_cache 0)) \<and> 0 < u + 60"
    using quota_single_flight [OF answered_run, where i = 1 and k = "QuotaKey ''claude'' ''a''" and r = "Some []" and t = 0] by simp
  with demo_places(1) one answer show ?thesis by blast
qed

theorem waiting_caller_answered_witness:
  "\<exists>u r. cache_run (cache_demo (empty_cache 0)) u \<and> ca_threads u 1 = Answered (QuotaKey ''claude'' ''a'') r 0 \<and>
    (\<forall>j. j \<noteq> 1 \<longrightarrow> ca_threads u j \<noteq> ca_threads (cache_demo (empty_cache 0)) j \<longrightarrow>
       serves_call (cache_demo (empty_cache 0)) j (QuotaKey ''claude'' ''a'') 0)"
  by (rule waiting_caller_answered [OF demo_run demo_places(2)])

end
