(* ===== verification/ClaudeSessions.thy ===== *)
theory ClaudeSessions
  imports Accounts
begin

text \<open>
  Session files of claude accounts (\<open>agentwrapper/accounts/claude_session.go\<close>, \<open>relayClaudeSession\<close> of
  \<open>bwrap.go\<close>). The directory of an account is a tree; a copy returns the tree it leaves behind and the
  error that stopped it. Failures of the disk itself (no space, no permission) are not modelled.
\<close>

section \<open>Trees\<close>

datatype node = NDir "(string \<times> node) list" | NFile string int | NLink | NSpecial

type_synonym files = "(string \<times> node) list"

datatype session_error = InvalidSession | SameAccount | SessionNotFound | NotRealDir string | RenameFailed string

fun look :: "files \<Rightarrow> string list \<Rightarrow> node option" where
  "look es [] = Some (NDir es)"
| "look es (c # cs) = (case map_of es c of None \<Rightarrow> None
     | Some n \<Rightarrow> if cs = [] then Some n else (case n of NDir x \<Rightarrow> look x cs | _ \<Rightarrow> None))"

definition real_dir :: "files \<Rightarrow> string list \<Rightarrow> files option" where
  "real_dir es p = (case look es p of Some (NDir x) \<Rightarrow> Some x | _ \<Rightarrow> None)"

definition regular_file :: "files \<Rightarrow> string list \<Rightarrow> (string \<times> int) option" where
  "regular_file es p = (case look es p of Some (NFile c t) \<Rightarrow> Some (c, t) | _ \<Rightarrow> None)"

definition valid_session_id :: "string \<Rightarrow> bool" where
  "valid_session_id s \<longleftrightarrow> 8 \<le> length s \<and> length s \<le> 64 \<and>
     list_all (\<lambda>c. CHR ''A'' \<le> c \<and> c \<le> CHR ''Z'' \<or> alias_start c \<or> c = CHR ''-'') s"

definition project_dirs :: "files \<Rightarrow> string list" where
  "project_dirs acct = (case real_dir acct [''projects''] of None \<Rightarrow> []
     | Some es \<Rightarrow> map fst (filter (\<lambda>(n, x). case x of NDir _ \<Rightarrow> True | _ \<Rightarrow> False) es))"

definition jsonl_path :: "string \<Rightarrow> string \<Rightarrow> string list" where
  "jsonl_path proj sid = [''projects'', proj, sid @ ''.jsonl'']"

section \<open>The newest copy\<close>

definition newer_copy :: "(string \<times> nat \<times> int) option \<Rightarrow> nat \<times> int \<Rightarrow> bool" where
  "newer_copy best c = (case best of None \<Rightarrow> True
     | Some (_, len, mtime) \<Rightarrow> len < fst c \<or> fst c = len \<and> mtime < snd c)"

definition find_session :: "(string \<times> files) list \<Rightarrow> string \<Rightarrow> session_error + string option" where
  "find_session accts sid =
     (if \<not> valid_session_id sid then Inl InvalidSession
      else Inr (map_option fst (foldl (\<lambda>best (a, proj, acct).
        case regular_file acct (jsonl_path proj sid) of None \<Rightarrow> best
        | Some (c, t) \<Rightarrow> if newer_copy best (length c, t) then Some (a, length c, t) else best) None
        (concat (map (\<lambda>(a, acct). map (\<lambda>p. (a, p, acct)) (project_dirs acct)) accts)))))"

section \<open>Copying\<close>

text \<open>
  \<open>ensureRealDirs\<close> and then what is done in the last directory: missing directories are created, what is
  there and no directory is an error.
\<close>

fun in_dir :: "string list \<Rightarrow> (files \<Rightarrow> files \<times> session_error option) \<Rightarrow> files \<Rightarrow> files \<times> session_error option" where
  "in_dir [] f es = f es"
| "in_dir (c # cs) f es =
     (case map_of es c of
        None \<Rightarrow> (case in_dir cs f [] of (x, e) \<Rightarrow> (AList.update c (NDir x) es, e))
      | Some (NDir x) \<Rightarrow> (case in_dir cs f x of (y, e) \<Rightarrow> (AList.update c (NDir y) es, e))
      | Some _ \<Rightarrow> (es, Some (NotRealDir c)))"

definition put_file :: "int \<Rightarrow> string \<Rightarrow> string \<Rightarrow> files \<Rightarrow> files \<times> session_error option" where
  "put_file now name content es =
     (case map_of es name of
        Some (NFile old t) \<Rightarrow> if length content \<le> length old then (es, None)
          else (AList.update name (NFile content now) es, None)
      | Some (NDir _) \<Rightarrow> (es, Some (RenameFailed name))
      | _ \<Rightarrow> (AList.update name (NFile content now) es, None))"

definition copy_session_file :: "int \<Rightarrow> string list \<Rightarrow> string \<Rightarrow> files \<Rightarrow> files \<times> session_error option" where
  "copy_session_file now rel content dst = in_dir (butlast rel) (put_file now (List.last rel) content) dst"

fun copy_node :: "int \<Rightarrow> string list \<Rightarrow> node \<Rightarrow> files \<Rightarrow> files \<times> session_error option"
and copy_entries :: "int \<Rightarrow> string list \<Rightarrow> files \<Rightarrow> files \<Rightarrow> files \<times> session_error option" where
  "copy_node now rel (NDir es) dst =
     (case in_dir rel (\<lambda>x. (x, None)) dst of (d, Some e) \<Rightarrow> (d, Some e) | (d, None) \<Rightarrow> copy_entries now rel es d)"
| "copy_node now rel (NFile c t) dst = copy_session_file now rel c dst"
| "copy_node now rel NLink dst = (dst, None)"
| "copy_node now rel NSpecial dst = (dst, None)"
| "copy_entries now rel [] dst = (dst, None)"
| "copy_entries now rel ((n, x) # es) dst =
     (case copy_node now (rel @ [n]) x dst of (d, Some e) \<Rightarrow> (d, Some e) | (d, None) \<Rightarrow> copy_entries now rel es d)"

text \<open>The copies of a session in their order, a destination and what is copied there; the session file last.\<close>

definition session_dirs :: "files \<Rightarrow> string \<Rightarrow> (string list \<times> node) list" where
  "session_dirs src sid =
     List.map_filter (\<lambda>p. map_option (\<lambda>x. (p, NDir x)) (real_dir src p))
       (map (\<lambda>proj. [''projects'', proj, sid]) (project_dirs src) @ [[''file-history'', sid], [''session-env'', sid]])"

definition session_todos :: "files \<Rightarrow> string \<Rightarrow> (string list \<times> node) list" where
  "session_todos src sid = (case real_dir src [''todos''] of None \<Rightarrow> []
     | Some es \<Rightarrow> map (\<lambda>(n, x). ([''todos'', n], x)) (filter (\<lambda>(n, x). (case x of NFile _ _ \<Rightarrow> True | _ \<Rightarrow> False) \<and>
         path_match (sid @ ''-*.json'') n) es))"

definition session_jsonls :: "files \<Rightarrow> string \<Rightarrow> (string list \<times> node) list" where
  "session_jsonls src sid =
     List.map_filter (\<lambda>p. map_option (\<lambda>(c, t). (p, NFile c t)) (regular_file src p))
       (map (\<lambda>proj. jsonl_path proj sid) (project_dirs src))"

fun copy_all :: "int \<Rightarrow> (string list \<times> node) list \<Rightarrow> files \<Rightarrow> files \<times> session_error option" where
  "copy_all now [] dst = (dst, None)"
| "copy_all now ((rel, x) # cs) dst =
     (case copy_node now rel x dst of (d, Some e) \<Rightarrow> (d, Some e) | (d, None) \<Rightarrow> copy_all now cs d)"

definition copy_session :: "int \<Rightarrow> string \<Rightarrow> files \<Rightarrow> files \<Rightarrow> files \<times> session_error option" where
  "copy_session now sid src dst =
     (if \<not> valid_session_id sid then (dst, Some InvalidSession)
      else if session_jsonls src sid = [] then (dst, Some SessionNotFound)
      else copy_all now (session_dirs src sid @ session_todos src sid @ session_jsonls src sid) dst)"

text \<open>\<open>relayClaudeSession\<close>: the accounts it leaves behind.\<close>

definition relay_session :: "int \<Rightarrow> (string \<times> files) list \<Rightarrow> string \<Rightarrow> string \<Rightarrow> (string \<times> files) list \<times> session_error option" where
  "relay_session now accts chosen sid =
     (case find_session accts sid of Inl _ \<Rightarrow> (accts, None) | Inr None \<Rightarrow> (accts, None)
      | Inr (Some holder) \<Rightarrow>
          if holder = chosen then (accts, None)
          else (case (map_of accts holder, map_of accts chosen) of
              (Some src, Some dst) \<Rightarrow> (case copy_session now sid src dst of (d, e) \<Rightarrow> (AList.update chosen d accts, e))
            | _ \<Rightarrow> (accts, Some SessionNotFound)))"

end
