(* ===== verification/ClaudeSessionProps.thy ===== *)
theory ClaudeSessionProps
  imports ClaudeSessions
begin

text \<open>
  Copying a session only adds: no file of the account that receives it is lost, shortened or, outside the
  files of the session, changed, even when the copy fails half-way. A copy that succeeds has brought every
  file, and copying again changes nothing.
\<close>

section \<open>What a copy keeps\<close>

text \<open>Files stay, unless they are in \<open>S\<close> and grow; directories stay directories.\<close>

definition keeps :: "(string list \<Rightarrow> bool) \<Rightarrow> files \<Rightarrow> files \<Rightarrow> bool" where
  "keeps S d d' \<longleftrightarrow>
     (\<forall>p c t. look d p = Some (NFile c t) \<longrightarrow>
        (\<exists>c' t'. look d' p = Some (NFile c' t') \<and> (c' = c \<and> t' = t \<or> S p \<and> length c < length c'))) \<and>
     (\<forall>p x. look d p = Some (NDir x) \<longrightarrow> (\<exists>y. look d' p = Some (NDir y)))"

lemma keeps_refl [simp]: "keeps S d d"
  by (simp add: keeps_def)

lemma keeps_file: "keeps S d d' \<Longrightarrow> look d p = Some (NFile c t) \<Longrightarrow>
    \<exists>c' t'. look d' p = Some (NFile c' t') \<and> (c' = c \<and> t' = t \<or> S p \<and> length c < length c')"
  by (simp add: keeps_def)

lemma keeps_dir: "keeps S d d' \<Longrightarrow> look d p = Some (NDir x) \<Longrightarrow> \<exists>y. look d' p = Some (NDir y)"
  by (simp add: keeps_def)

lemma keeps_trans: "keeps S a b \<Longrightarrow> keeps S b c \<Longrightarrow> keeps S a c"
proof -
  assume ab: "keeps S a b" and bc: "keeps S b c"
  have "\<exists>w t'. look c p = Some (NFile w t') \<and> (w = u \<and> t' = t \<or> S p \<and> length u < length w)"
    if l: "look a p = Some (NFile u t)" for p u t
  proof -
    from keeps_file [OF ab l] obtain v t1 where
      v: "look b p = Some (NFile v t1)" "v = u \<and> t1 = t \<or> S p \<and> length u < length v" by blast
    from keeps_file [OF bc v(1)] v(2) show ?thesis by auto
  qed
  moreover have "\<exists>y. look c p = Some (NDir y)" if "look a p = Some (NDir x)" for p x
    using keeps_dir [OF ab that] keeps_dir [OF bc] by blast
  ultimately show "keeps S a c" by (simp add: keeps_def)
qed

lemma look_Cons: "look es (a # p) = (case map_of es a of None \<Rightarrow> None
    | Some n \<Rightarrow> if p = [] then Some n else (case n of NDir x \<Rightarrow> look x p | _ \<Rightarrow> None))"
  by (rule look.simps(2))

declare look.simps(2) [simp del]

lemma look_Nil_file [simp]: "look d p = Some (NFile c t) \<Longrightarrow> p \<noteq> []"
  by auto

lemma keeps_update:
  assumes "\<And>x. map_of es c = Some (NDir x) \<Longrightarrow> keeps (\<lambda>q. S (c # q)) x y"
    "\<And>u t. map_of es c \<noteq> Some (NFile u t)"
  shows "keeps S es (AList.update c (NDir y) es)"
  unfolding keeps_def
proof (intro conjI allI impI)
  fix p u t
  assume l: "look es p = Some (NFile u t)"
  then obtain a q where p: "p = a # q" by (cases p) auto
  show "\<exists>c' t'. look (AList.update c (NDir y) es) p = Some (NFile c' t') \<and> (c' = u \<and> t' = t \<or> S p \<and> length u < length c')"
  proof (cases "a = c")
    case True
    with l p assms(2) obtain x where x: "map_of es c = Some (NDir x)" "q \<noteq> []" "look x q = Some (NFile u t)"
      by (auto simp: look_Cons split: option.splits if_splits node.splits)
    from keeps_file [OF assms(1) [OF x(1)] x(3)] x(2) p True show ?thesis by (auto simp: look_Cons update_conv')
  next
    case False
    with l p show ?thesis by (auto simp: look_Cons update_conv')
  qed
next
  fix p x
  assume l: "look es p = Some (NDir x)"
  show "\<exists>z. look (AList.update c (NDir y) es) p = Some (NDir z)"
  proof (cases p)
    case (Cons a q)
    show ?thesis
    proof (cases "a = c \<and> q \<noteq> []")
      case True
      with l Cons obtain w where w: "map_of es c = Some (NDir w)" "look w q = Some (NDir x)"
        by (auto simp: look_Cons split: option.splits if_splits node.splits)
      from keeps_dir [OF assms(1) [OF w(1)] w(2)] True Cons show ?thesis by (auto simp: look_Cons update_conv')
    next
      case False
      with l Cons show ?thesis by (auto simp: look_Cons update_conv')
    qed
  qed simp
qed

lemma keeps_in_dir: "(\<And>x. keeps (\<lambda>q. S (cs @ q)) x (fst (f x))) \<Longrightarrow> keeps S es (fst (in_dir cs f es))"
proof (induction cs arbitrary: es S)
  case Nil
  then show ?case by simp
next
  case (Cons c cs)
  have ih: "keeps (\<lambda>q. S (c # q)) x (fst (in_dir cs f x))" for x
    using Cons.IH [of "\<lambda>q. S (c # q)"] Cons.prems by simp
  show ?case
  proof (cases "map_of es c")
    case None
    then show ?thesis by (auto split: prod.splits intro!: keeps_update)
  next
    case (Some n)
    show ?thesis
    proof (cases n)
      case (NDir x)
      then show ?thesis using ih [of x] Some by (cases "in_dir cs f x") (auto intro!: keeps_update)
    qed (simp_all add: Some)
  qed
qed

lemma keeps_put: "S [n] \<Longrightarrow> keeps S x (fst (put_file now n c x))"
proof -
  assume s: "S [n]"
  have up: "keeps S x (AList.update n (NFile c now) x)"
    if "\<And>y. map_of x n \<noteq> Some (NDir y)" "\<And>u t. map_of x n = Some (NFile u t) \<Longrightarrow> length u < length c"
    unfolding keeps_def
  proof (intro conjI allI impI)
    fix p u t
    assume l: "look x p = Some (NFile u t)"
    then obtain a q where p: "p = a # q" by (cases p) auto
    show "\<exists>c' t'. look (AList.update n (NFile c now) x) p = Some (NFile c' t') \<and> (c' = u \<and> t' = t \<or> S p \<and> length u < length c')"
    proof (cases "a = n")
      case True
      with l p that(1) have "q = []" "map_of x n = Some (NFile u t)"
        by (auto simp: look_Cons split: option.splits if_splits node.splits)
      with True p that(2) s show ?thesis by (simp add: look_Cons update_conv')
    next
      case False
      with l p show ?thesis by (auto simp: look_Cons update_conv')
    qed
  next
    fix p y
    assume l: "look x p = Some (NDir y)"
    show "\<exists>z. look (AList.update n (NFile c now) x) p = Some (NDir z)"
    proof (cases p)
      case (Cons a q)
      with l that(1) have "a \<noteq> n" by (auto simp: look_Cons split: option.splits if_splits node.splits)
      with l Cons show ?thesis by (auto simp: look_Cons update_conv')
    qed simp
  qed
  then show ?thesis by (auto simp: put_file_def split: option.splits node.splits)
qed

lemma keeps_copy_file: "S rel \<Longrightarrow> rel \<noteq> [] \<Longrightarrow> keeps S d (fst (copy_session_file now rel c d))"
  unfolding copy_session_file_def by (rule keeps_in_dir) (simp add: keeps_put)

lemma fst_case_err: "fst (case r of (d, None) \<Rightarrow> f d | (d, Some e) \<Rightarrow> (d, Some e)) = (if snd r = None then fst (f (fst r)) else fst r)"
  by (cases r) (auto split: option.splits)

lemma keeps_copy:
  "(\<And>q. S (rel @ q)) \<Longrightarrow> rel \<noteq> [] \<Longrightarrow> keeps S d (fst (copy_node now rel x d))"
  "(\<And>q. S (rel @ q)) \<Longrightarrow> rel \<noteq> [] \<Longrightarrow> keeps S d (fst (copy_entries now rel es d))"
proof (induction now rel x d and now rel es d rule: copy_node_copy_entries.induct)
  case (1 now rel es dst)
  have "keeps S dst (fst (in_dir rel (\<lambda>x. (x, None)) dst))" by (rule keeps_in_dir) simp
  with 1 show ?case by (cases "in_dir rel (\<lambda>x. (x, None)) dst") (auto split: option.splits intro: keeps_trans)
next
  case (2 now rel c t dst)
  then show ?case using keeps_copy_file [of S rel] append_Nil2 by (metis copy_node.simps(2))
next
  case (6 now rel n x es dst)
  have "S (rel @ [n] @ q)" for q using 6(3) by simp
  then have k: "keeps S dst (fst (copy_node now (rel @ [n]) x dst))" using 6(1) by simp
  then show ?case
    using 6(2-4) by (cases "copy_node now (rel @ [n]) x dst") (auto split: option.splits intro: keeps_trans)
qed simp_all

lemma keeps_copy_all:
  "(\<And>rel x q. (rel, x) \<in> set cs \<Longrightarrow> rel \<noteq> [] \<and> ((\<exists>c t. x = NFile c t) \<and> S rel \<or> S (rel @ q))) \<Longrightarrow> keeps S d (fst (copy_all now cs d))"
proof (induction now cs d rule: copy_all.induct)
  case (2 now rel x cs dst)
  have k: "keeps S dst (fst (copy_node now rel x dst))"
  proof (cases "\<exists>c t. x = NFile c t \<and> S rel")
    case True
    moreover have "rel \<noteq> []" using 2(2) by auto
    ultimately show ?thesis by (auto simp: keeps_copy_file)
  next
    case False
    with 2(2) show ?thesis by (intro keeps_copy) (fastforce)+
  qed
  obtain d e where d: "copy_node now rel x dst = (d, e)" by fastforce
  show ?case
  proof (cases e)
    case None
    with 2(1) [of d] 2(2) d have "keeps S d (fst (copy_all now cs d))" by auto
    with k d None show ?thesis by (auto intro: keeps_trans)
  qed (use k d in simp)
qed simp

text \<open>The files of a session.\<close>

definition session_file :: "string \<Rightarrow> string list \<Rightarrow> bool" where
  "session_file sid p \<longleftrightarrow>
     (\<exists>proj. p = jsonl_path proj sid) \<or> (\<exists>proj q. p = ''projects'' # proj # sid # q) \<or>
     (\<exists>q. p = ''file-history'' # sid # q \<or> p = ''session-env'' # sid # q) \<or>
     (\<exists>n. p = [''todos'', n] \<and> path_match (sid @ ''-*.json'') n)"

lemma set_map_filter_option': "y \<in> set (List.map_filter f xs) \<longleftrightarrow> (\<exists>x \<in> set xs. f x = Some y)"
  by (induction xs) (auto simp: List.map_filter_simps split: option.splits)

lemma session_dirs_parts: "(rel, x) \<in> set (session_dirs src sid) \<Longrightarrow> rel \<noteq> [] \<and> session_file sid (rel @ q)"
  by (auto simp: session_dirs_def set_map_filter_option' session_file_def)

lemma session_todos_parts:
  "(rel, x) \<in> set (session_todos src sid) \<Longrightarrow> rel \<noteq> [] \<and> (\<exists>c t. x = NFile c t) \<and> session_file sid rel"
  by (cases x; cases "real_dir src [''todos'']") (auto simp: session_todos_def session_file_def)

lemma session_jsonls_parts:
  "(rel, x) \<in> set (session_jsonls src sid) \<Longrightarrow> rel \<noteq> [] \<and> (\<exists>c t. x = NFile c t) \<and> session_file sid rel"
  by (auto simp: session_jsonls_def set_map_filter_option' session_file_def jsonl_path_def)

lemma session_parts:
  "(rel, x) \<in> set (session_dirs src sid @ session_todos src sid @ session_jsonls src sid) \<Longrightarrow>
   rel \<noteq> [] \<and> ((\<exists>c t. x = NFile c t) \<and> session_file sid rel \<or> session_file sid (rel @ q))"
  using session_dirs_parts session_todos_parts session_jsonls_parts by (metis UnE set_append)

text \<open>
  C21. A copy of a session loses nothing. Whether it succeeds or fails, every regular file of the
  receiving account is still there, unchanged, or is a file of the session that has grown; so
  credentials, settings and other sessions are never touched, and no directory is replaced.
\<close>

theorem copy_keeps_files:
  assumes "copy_session now sid src dst = (d, e)"
  shows "(\<forall>p c t. look dst p = Some (NFile c t) \<longrightarrow> (\<exists>c' t'. look d p = Some (NFile c' t') \<and>
      (c' = c \<and> t' = t \<or> session_file sid p \<and> length c < length c'))) \<and>
    (\<forall>p x. look dst p = Some (NDir x) \<longrightarrow> (\<exists>y. look d p = Some (NDir y)))"
proof -
  have "keeps (session_file sid) dst (fst (copy_session now sid src dst))"
    using keeps_copy_all [of "session_dirs src sid @ session_todos src sid @ session_jsonls src sid" "session_file sid" dst now]
      session_parts by (auto simp: copy_session_def)
  with assms show ?thesis by (simp add: keeps_def)
qed

section \<open>What a copy brings\<close>

text \<open>The tree at a place is there, each file with at least the size of the source; links are not copied.\<close>

fun brought :: "files \<Rightarrow> string list \<Rightarrow> node \<Rightarrow> bool" and brought_all :: "files \<Rightarrow> string list \<Rightarrow> files \<Rightarrow> bool" where
  "brought d rel (NDir es) \<longleftrightarrow> real_dir d rel \<noteq> None \<and> brought_all d rel es"
| "brought d rel (NFile c t) \<longleftrightarrow> (case regular_file d rel of None \<Rightarrow> False | Some (c', _) \<Rightarrow> length c \<le> length c')"
| "brought d rel NLink \<longleftrightarrow> True"
| "brought d rel NSpecial \<longleftrightarrow> True"
| "brought_all d rel [] \<longleftrightarrow> True"
| "brought_all d rel ((n, x) # es) \<longleftrightarrow> brought d (rel @ [n]) x \<and> brought_all d rel es"

lemma brought_keeps:
  "brought d rel x \<Longrightarrow> keeps S d d' \<Longrightarrow> brought d' rel x"
  "brought_all d rel es \<Longrightarrow> keeps S d d' \<Longrightarrow> brought_all d' rel es"
proof (induction d rel x and d rel es rule: brought_brought_all.induct)
  case (1 d rel es)
  then show ?case using keeps_dir [of S d d' rel] by (auto simp: real_dir_def split: option.splits node.splits)
next
  case (2 d rel c t)
  then obtain c1 t1 where c1: "look d rel = Some (NFile c1 t1)" "length c \<le> length c1"
    by (auto simp: regular_file_def split: option.splits node.splits)
  from keeps_file [OF 2(2) c1(1)] c1(2) show ?case by (auto simp: regular_file_def)
qed auto

lemma look_snoc: "look d p = Some (NDir y) \<Longrightarrow> look d (p @ [n]) = map_of y n"
proof (induction p arbitrary: d)
  case Nil
  then show ?case by (simp add: look_Cons split: option.splits)
next
  case (Cons a p)
  show ?case
  proof (cases "p = []")
    case True
    with Cons.prems show ?thesis by (auto simp: look_Cons split: option.splits)
  next
    case False
    with Cons.prems obtain x where "map_of d a = Some (NDir x)" "look x p = Some (NDir y)"
      by (auto simp: look_Cons split: option.splits node.splits)
    with Cons.IH False show ?thesis by (simp add: look_Cons)
  qed
qed

lemma in_dir_ok:
  "in_dir cs f es = (es', None) \<Longrightarrow> \<exists>x y. f x = (y, None) \<and> look es' cs = Some (NDir y)"
proof (induction cs arbitrary: es es')
  case Nil
  then show ?case by auto
next
  case (Cons c cs)
  obtain x z where z: "in_dir cs f x = (z, None)" "es' = AList.update c (NDir z) es"
    using Cons.prems by (auto split: option.splits node.splits prod.splits)
  from Cons.IH [OF z(1)] z(2) show ?case by (cases cs) (auto simp: look_Cons update_conv')
qed

lemma put_file_ok: "put_file now n c x = (y, None) \<Longrightarrow> \<exists>c' t'. map_of y n = Some (NFile c' t') \<and> length c \<le> length c'"
  by (auto simp: put_file_def update_conv' split: option.splits node.splits if_splits)

lemma copy_file_ok: "copy_session_file now rel c d = (d', None) \<Longrightarrow> rel \<noteq> [] \<Longrightarrow> brought d' rel (NFile c t)"
proof -
  assume a: "copy_session_file now rel c d = (d', None)" "rel \<noteq> []"
  from in_dir_ok [OF a(1) [unfolded copy_session_file_def]] obtain x y where
    y: "put_file now (List.last rel) c x = (y, None)" "look d' (butlast rel) = Some (NDir y)" by blast
  from put_file_ok [OF y(1)] look_snoc [OF y(2), of "List.last rel"] a(2) show ?thesis
    by (auto simp: regular_file_def)
qed

lemma copy_ok:
  "copy_node now rel x d = (d', None) \<Longrightarrow> rel \<noteq> [] \<Longrightarrow> brought d' rel x"
  "copy_entries now rel es d = (d', None) \<Longrightarrow> rel \<noteq> [] \<Longrightarrow> brought_all d' rel es"
proof (induction now rel x d and now rel es d arbitrary: d' and d' rule: copy_node_copy_entries.induct)
  case (1 now rel es dst)
  obtain m where m: "in_dir rel (\<lambda>x. (x, None)) dst = (m, None)" "copy_entries now rel es m = (d', None)"
    using 1(2) by (auto split: prod.splits option.splits)
  have "keeps (\<lambda>_. True) m d'" using keeps_copy(2) [of "\<lambda>_. True" rel m now es] m(2) 1(3) by simp
  moreover obtain y where "look m rel = Some (NDir y)" using in_dir_ok [OF m(1)] by blast
  ultimately have "real_dir d' rel \<noteq> None" using keeps_dir by (fastforce simp: real_dir_def)
  with 1 m show ?case by auto
next
  case (2 now rel c t dst)
  then show ?case using copy_file_ok [of now rel c dst d' t] by simp
next
  case (6 now rel n x es dst)
  obtain m where m: "copy_node now (rel @ [n]) x dst = (m, None)" "copy_entries now rel es m = (d', None)"
    using 6(3) by (auto split: prod.splits option.splits)
  have "keeps (\<lambda>_. True) m d'" using keeps_copy(2) [of "\<lambda>_. True" rel m now es] m(2) 6(4) by simp
  with brought_keeps(1) 6(1) [OF m(1)] have "brought d' (rel @ [n]) x" by blast
  moreover have "brought_all d' rel es" using 6(2) [OF m(1) [symmetric] refl m(2) 6(4)] .
  ultimately show ?case by simp
qed simp_all

lemma copy_all_ok:
  "copy_all now cs d = (d', None) \<Longrightarrow> (\<forall>(rel, x) \<in> set cs. rel \<noteq> []) \<Longrightarrow> (\<forall>(rel, x) \<in> set cs. brought d' rel x)"
proof (induction now cs d rule: copy_all.induct)
  case (2 now rel x cs dst)
  obtain m where m: "copy_node now rel x dst = (m, None)" "copy_all now cs m = (d', None)"
    using 2(2) by (auto split: prod.splits option.splits)
  have "keeps (\<lambda>_. True) m d'" using keeps_copy_all [of cs "\<lambda>_. True" m now] m(2) 2(3) by auto
  moreover have "brought m rel x" using copy_ok(1) [OF m(1)] 2(3) by auto
  ultimately have "brought d' rel x" using brought_keeps(1) by blast
  with 2 m show ?case by auto
qed simp

section \<open>Copying again\<close>

lemma in_dir_same: "look d cs = Some (NDir y) \<Longrightarrow> f y = (y, None) \<Longrightarrow> in_dir cs f d = (d, None)"
proof (induction cs arbitrary: d)
  case (Cons c cs)
  then obtain x where x: "map_of d c = Some (NDir x)" "look x cs = Some (NDir y)"
    by (cases cs) (auto simp: look_Cons split: option.splits node.splits if_splits)
  with Cons show ?case by (simp add: update_triv)
qed simp

lemma look_butlast:
  "rel \<noteq> [] \<Longrightarrow> look d rel = Some n \<Longrightarrow> \<exists>y. look d (butlast rel) = Some (NDir y) \<and> map_of y (List.last rel) = Some n"
proof (induction rel arbitrary: d)
  case (Cons a p)
  show ?case
  proof (cases p)
    case Nil
    with Cons.prems show ?thesis by (auto simp: look_Cons split: option.splits)
  next
    case (Cons b q)
    with Cons.prems obtain x where x: "map_of d a = Some (NDir x)" "look x p = Some n"
      by (auto simp: look_Cons split: option.splits node.splits)
    from Cons.IH [OF _ x(2)] Cons x(1) show ?thesis by (auto simp: look_Cons)
  qed
qed simp

lemma copy_same:
  "brought d rel x \<Longrightarrow> rel \<noteq> [] \<Longrightarrow> copy_node now rel x d = (d, None)"
  "brought_all d rel es \<Longrightarrow> rel \<noteq> [] \<Longrightarrow> copy_entries now rel es d = (d, None)"
proof (induction d rel x and d rel es rule: brought_brought_all.induct)
  case (1 d rel es)
  then obtain y where "look d rel = Some (NDir y)" by (auto simp: real_dir_def split: option.splits node.splits)
  with 1 show ?case by (simp add: in_dir_same)
next
  case (2 d rel c t)
  then obtain c1 t1 where c1: "look d rel = Some (NFile c1 t1)" "length c \<le> length c1"
    by (auto simp: regular_file_def split: option.splits node.splits)
  from look_butlast [OF 2(2) c1(1)] c1(2) show ?case
    by (auto simp: copy_session_file_def put_file_def intro: in_dir_same)
qed simp_all

lemma copy_all_same: "\<forall>(rel, x) \<in> set cs. brought d rel x \<and> rel \<noteq> [] \<Longrightarrow> copy_all now cs d = (d, None)"
  by (induction now cs d rule: copy_all.induct) (auto simp: copy_same)

text \<open>Every file that belongs to a session, wherever it lies.\<close>

definition session_entry :: "string \<Rightarrow> string list \<Rightarrow> bool" where
  "session_entry sid p \<longleftrightarrow>
     (\<exists>proj. p = jsonl_path proj sid) \<or> (\<exists>proj n q. p = ''projects'' # proj # sid # n # q) \<or>
     (\<exists>k n q. p = k # sid # n # q \<and> k \<in> {''file-history'', ''session-env''}) \<or>
     (\<exists>n. p = [''todos'', n] \<and> path_match (sid @ ''-*.json'') n)"

lemma brought_all_member: "brought_all d rel es \<Longrightarrow> (n, x) \<in> set es \<Longrightarrow> brought d (rel @ [n]) x"
  by (induction es) auto

lemma brought_file: "brought d rel (NFile c t) \<Longrightarrow> \<exists>c' t'. regular_file d rel = Some (c', t') \<and> length c \<le> length c'"
  by (auto split: option.splits)

lemma brought_look:
  "brought d rel (NDir es) \<Longrightarrow> q \<noteq> [] \<Longrightarrow> look es q = Some (NFile c t) \<Longrightarrow>
   \<exists>c' t'. regular_file d (rel @ q) = Some (c', t') \<and> length c \<le> length c'"
proof (induction q arbitrary: rel es)
  case (Cons n q)
  then obtain x where x: "map_of es n = Some x" by (auto simp: look_Cons split: option.splits)
  have b: "brought d (rel @ [n]) x"
    using Cons.prems(1) map_of_SomeD [OF x] by (auto intro: brought_all_member)
  show ?case
  proof (cases q)
    case Nil
    with Cons.prems(3) x have "x = NFile c t" by (simp add: look_Cons)
    with brought_file b Nil show ?thesis by auto
  next
    case (Cons m r)
    with Cons.prems(3) x obtain y where y: "x = NDir y" "look y q = Some (NFile c t)"
      by (auto simp: look_Cons split: node.splits)
    from Cons.IH [OF b [unfolded y(1)] _ y(2)] Cons show ?thesis by simp
  qed
qed simp

lemma look_dir:
  "look es (c # d # p) = Some n \<Longrightarrow> \<exists>x. map_of es c = Some (NDir x) \<and> look x (d # p) = Some n"
  by (auto simp: look_Cons split: option.splits node.splits)

text \<open>A file of the session is copied on its own or lies in a directory that is copied.\<close>

lemma session_entry_copied:
  assumes "session_entry sid p" "regular_file src p = Some (c, t)"
  shows "(p, NFile c t) \<in> set (session_dirs src sid @ session_todos src sid @ session_jsonls src sid) \<or>
    (\<exists>rel x q. (rel, NDir x) \<in> set (session_dirs src sid @ session_todos src sid @ session_jsonls src sid) \<and>
       p = rel @ q \<and> q \<noteq> [] \<and> look x q = Some (NFile c t))"
proof -
  have found: "look src p = Some (NFile c t)" using assms(2) by (auto simp: regular_file_def split: option.splits node.splits)
  have proj: "k \<in> set (project_dirs src)"
    if "map_of src ''projects'' = Some (NDir y)" "map_of y k = Some (NDir z)" for y z k
    using that map_of_SomeD [OF that(2)] by (force simp: project_dirs_def real_dir_def look_Cons)
  from assms(1) consider (jsonl) k where "p = jsonl_path k sid" | (sub) k n q where "p = ''projects'' # k # sid # n # q"
    | (other) k n q where "p = k # sid # n # q" "k \<in> {''file-history'', ''session-env''}"
    | (todo) n where "p = [''todos'', n]" "path_match (sid @ ''-*.json'') n"
    unfolding session_entry_def by blast
  then show ?thesis
  proof cases
    case jsonl
    from look_dir [OF found [unfolded jsonl jsonl_path_def]] obtain y where y: "map_of src ''projects'' = Some (NDir y)"
      "look y [k, sid @ ''.jsonl''] = Some (NFile c t)" by blast
    from look_dir [OF y(2)] obtain z where "map_of y k = Some (NDir z)" by blast
    from proj [OF y(1) this] jsonl assms(2) have "(p, NFile c t) \<in> set (session_jsonls src sid)"
      by (force simp: session_jsonls_def set_map_filter_option')
    then show ?thesis by simp
  next
    case sub
    from look_dir [OF found [unfolded sub]] obtain y where y: "map_of src ''projects'' = Some (NDir y)"
      "look y (k # sid # n # q) = Some (NFile c t)" by blast
    from look_dir [OF y(2)] obtain z where z: "map_of y k = Some (NDir z)" "look z (sid # n # q) = Some (NFile c t)" by blast
    from look_dir [OF z(2)] obtain x where x: "map_of z sid = Some (NDir x)" "look x (n # q) = Some (NFile c t)" by blast
    have "real_dir src [''projects'', k, sid] = Some x" using y(1) z(1) x(1) by (simp add: real_dir_def look_Cons)
    with proj [OF y(1) z(1)] have "([''projects'', k, sid], NDir x) \<in> set (session_dirs src sid)"
      by (force simp: session_dirs_def set_map_filter_option')
    then show ?thesis
      using sub x(2) by (intro disjI2 exI [of _ "[''projects'', k, sid]"] exI [of _ x] exI [of _ "n # q"]) simp
  next
    case other
    from look_dir [OF found [unfolded other(1)]] obtain y where y: "map_of src k = Some (NDir y)"
      "look y (sid # n # q) = Some (NFile c t)" by blast
    from look_dir [OF y(2)] obtain x where x: "map_of y sid = Some (NDir x)" "look x (n # q) = Some (NFile c t)" by blast
    have "real_dir src [k, sid] = Some x" using y(1) x(1) by (simp add: real_dir_def look_Cons)
    with other(2) have "([k, sid], NDir x) \<in> set (session_dirs src sid)"
      by (auto simp: session_dirs_def set_map_filter_option')
    then show ?thesis
      using other(1) x(2) by (intro disjI2 exI [of _ "[k, sid]"] exI [of _ x] exI [of _ "n # q"]) simp
  next
    case todo
    from look_dir [OF found [unfolded todo(1)]] obtain y where y: "map_of src ''todos'' = Some (NDir y)"
      "look y [n] = Some (NFile c t)" by blast
    then have "map_of y n = Some (NFile c t)" by (simp add: look_Cons split: option.splits)
    from map_of_SomeD [OF this] have "(n, NFile c t) \<in> set y" .
    with y(1) todo have "(p, NFile c t) \<in> set (session_todos src sid)"
      by (force simp: session_todos_def real_dir_def look_Cons)
    then show ?thesis by simp
  qed
qed

text \<open>
  C22. A copy of a session that succeeds is complete and is made once: afterwards the receiving account
  has every regular file of the source that belongs to the session (its session files, what lies in
  its directories beneath a project, in the file history and in the environment, and its todos) at
  the same place, at least as long, and a second copy, at any later time, succeeds and changes nothing.
\<close>

theorem copy_complete_once:
  assumes "copy_session now sid src dst = (d, None)"
  shows "(\<forall>p c t. session_entry sid p \<longrightarrow> regular_file src p = Some (c, t) \<longrightarrow>
      (\<exists>c' t'. regular_file d p = Some (c', t') \<and> length c \<le> length c')) \<and>
    copy_session later sid src d = (d, None)"
proof -
  let ?cs = "session_dirs src sid @ session_todos src sid @ session_jsonls src sid"
  have ok: "valid_session_id sid" "session_jsonls src sid \<noteq> []" "copy_all now ?cs dst = (d, None)"
    using assms by (auto simp: copy_session_def split: if_splits)
  have ne: "\<forall>(rel, x) \<in> set ?cs. rel \<noteq> []" using session_parts by blast
  have br: "\<forall>(rel, x) \<in> set ?cs. brought d rel x" by (rule copy_all_ok [OF ok(3) ne])
  have "\<exists>c' t'. regular_file d p = Some (c', t') \<and> length c \<le> length c'"
    if "session_entry sid p" "regular_file src p = Some (c, t)" for p c t
    using session_entry_copied [OF that] br brought_file brought_look by fast
  moreover have "copy_session later sid src d = (d, None)"
    using ok(1,2) br ne by (auto simp: copy_session_def intro!: copy_all_same)
  ultimately show ?thesis by blast
qed

section \<open>Two accounts\<close>

definition sid_ex :: string where "sid_ex = ''0123abcd-ef''"

definition src_ex :: files where
  "src_ex = [(''.credentials.json'', NFile ''src'' 1),
     (''projects'', NDir [(''-w'', NDir [(sid_ex @ ''.jsonl'', NFile ''abc'' 5), (sid_ex, NDir [(''sub'', NDir [(''x'', NFile ''1'' 5)]), (''l'', NLink)])])]),
     (''todos'', NDir [(sid_ex @ ''-1.json'', NFile ''t'' 5), (''other.json'', NFile ''o'' 5)])]"

definition dst_ex :: files where
  "dst_ex = [(''.credentials.json'', NFile ''d'' 1), (''projects'', NDir [(''-w'', NDir [(sid_ex @ ''.jsonl'', NFile ''a'' 2)])])]"

lemma copy_ex: "copy_session 9 sid_ex src_ex dst_ex =
   ([(''.credentials.json'', NFile ''d'' 1),
     (''projects'', NDir [(''-w'', NDir [(sid_ex @ ''.jsonl'', NFile ''abc'' 9), (sid_ex, NDir [(''sub'', NDir [(''x'', NFile ''1'' 9)])])])]),
     (''todos'', NDir [(sid_ex @ ''-1.json'', NFile ''t'' 9)])], None)"
  by code_simp

theorem copy_keeps_files_witness:
  "\<exists>c' t'. look (fst (copy_session 9 sid_ex src_ex dst_ex)) [''.credentials.json''] = Some (NFile c' t') \<and>
     (c' = ''d'' \<and> t' = 1 \<or> session_file sid_ex [''.credentials.json''] \<and> length ''d'' < length c')"
proof -
  have "look dst_ex [''.credentials.json''] = Some (NFile ''d'' 1)" by code_simp
  with copy_keeps_files [OF prod.collapse [symmetric]] show ?thesis by blast
qed

theorem copy_complete_once_witness:
  "(\<exists>c' t'. regular_file (fst (copy_session 9 sid_ex src_ex dst_ex)) [''projects'', ''-w'', sid_ex, ''sub'', ''x''] = Some (c', t') \<and>
      1 \<le> length c') \<and>
   copy_session 20 sid_ex src_ex (fst (copy_session 9 sid_ex src_ex dst_ex)) = (fst (copy_session 9 sid_ex src_ex dst_ex), None)"
proof -
  have "copy_session 9 sid_ex src_ex dst_ex = (fst (copy_session 9 sid_ex src_ex dst_ex), None)"
    unfolding copy_ex by simp
  note copy_complete_once [OF this]
  moreover have "session_entry sid_ex [''projects'', ''-w'', sid_ex, ''sub'', ''x'']" by (simp add: session_entry_def)
  moreover have "regular_file src_ex [''projects'', ''-w'', sid_ex, ''sub'', ''x''] = Some (''1'', 5)" by code_simp
  ultimately show ?thesis by fastforce
qed

lemma relay_ex:
  "find_session [(''a'', src_ex), (''b'', dst_ex)] sid_ex = Inr (Some ''a'')"
  "snd (relay_session 9 [(''a'', src_ex), (''b'', dst_ex)] ''b'' sid_ex) = None"
  "find_session (fst (relay_session 9 [(''a'', src_ex), (''b'', dst_ex)] ''b'' sid_ex)) sid_ex = Inr (Some ''b'')"
  by code_simp+

end
